(* ===== verification/Semnav_Prelude.thy ===== *)
theory Semnav_Prelude
  imports Main "HOL-Library.Word" "HOL-Library.List_Lexorder" "HOL-Library.Char_ord"
    "HOL-Library.Product_Lexorder" "HOL-Library.Multiset"
begin

text \<open>
  Shared vocabulary of the development: machine integers and their casts, results, the
  string and slice routines of the Rust standard library that the source uses, and the
  generic list lemmas the component theories rest on.

  A Rust \<open>String\<close> is modelled by its UTF-8 bytes, so a string here is a list of 8-bit
  characters; all separators the source splits on are ASCII, for which byte-wise and
  code-point-wise splitting agree, and Rust compares strings byte-wise as the
  lexicographic order on character lists does.
\<close>

section \<open>Machine integers\<close>

type_synonym u32 = "32 word"
type_synonym u64 = "64 word"

text \<open>The widening cast \<open>x as i64\<close> of an unsigned 32-bit value.\<close>

definition i64_of_u32 :: "u32 \<Rightarrow> int" where
  "i64_of_u32 w = uint w"

text \<open>The truncating cast \<open>x as u32\<close> of a signed 64-bit value.\<close>

definition u32_of_i64 :: "int \<Rightarrow> u32" where
  "u32_of_i64 i = word_of_int i"

definition u32_max :: int where
  "u32_max = 4294967295"

definition i64_max :: int where
  "i64_max = 9223372036854775807"

lemma i64_of_u32_nonneg [simp]: "0 \<le> i64_of_u32 w"
  by (simp add: i64_of_u32_def)

lemma i64_of_u32_le_max: "i64_of_u32 w \<le> u32_max"
  using uint_bounded [of w] by (simp add: i64_of_u32_def u32_max_def)

lemma u32_of_i64_of_u32 [simp]: "u32_of_i64 (i64_of_u32 w) = w"
  by (simp add: u32_of_i64_def i64_of_u32_def)

lemma i64_of_u32_of_i64:
  "0 \<le> i \<Longrightarrow> i \<le> u32_max \<Longrightarrow> i64_of_u32 (u32_of_i64 i) = i"
  by (simp add: u32_of_i64_def i64_of_u32_def u32_max_def uint_word_of_int_eq take_bit_int_eq_self)

section \<open>Results\<close>

text \<open>
  A fallible step returns \<open>Inl e\<close> for an error and \<open>Inr x\<close> for a value; \<open>bindR\<close> is the
  \<open>?\<close> operator of the source.
\<close>

definition bindR :: "'e + 'a \<Rightarrow> ('a \<Rightarrow> 'e + 'b) \<Rightarrow> 'e + 'b" where
  "bindR r f = (case r of Inl e \<Rightarrow> Inl e | Inr x \<Rightarrow> f x)"

lemma bindR_simps [simp]:
  "bindR (Inl e) f = Inl e"
  "bindR (Inr x) f = f x"
  by (simp_all add: bindR_def)

lemma bindR_eq_Inr: "bindR r f = Inr y \<longleftrightarrow> (\<exists>x. r = Inr x \<and> f x = Inr y)"
  by (cases r) simp_all

lemma bindR_eq_Inl: "bindR r f = Inl e \<longleftrightarrow> r = Inl e \<or> (\<exists>x. r = Inr x \<and> f x = Inl e)"
  by (cases r) simp_all

text \<open>Running a fallible state transformer over a list, stopping at the first error.\<close>

fun foldR :: "('a \<Rightarrow> 's \<Rightarrow> 'e + 's) \<Rightarrow> 'a list \<Rightarrow> 's \<Rightarrow> 'e + 's" where
  "foldR f [] s = Inr s"
| "foldR f (x # xs) s = bindR (f x s) (foldR f xs)"

lemma foldR_invariant:
  assumes "foldR f xs s = Inr t" and "P s"
    and "\<And>x s t. x \<in> set xs \<Longrightarrow> P s \<Longrightarrow> f x s = Inr t \<Longrightarrow> P t"
  shows "P t"
  using assms by (induction xs arbitrary: s) (auto simp: bindR_eq_Inr)

lemma foldR_append: "foldR f (xs @ ys) s = bindR (foldR f xs s) (foldR f ys)"
  by (induction xs arbitrary: s) (auto simp: bindR_def split: sum.splits)

definition is_ok :: "'e + 'a \<Rightarrow> bool" where
  "is_ok r = (case r of Inl _ \<Rightarrow> False | Inr _ \<Rightarrow> True)"

lemma is_ok_simps [simp]: "is_ok (Inr x)" "\<not> is_ok (Inl e)"
  by (simp_all add: is_ok_def)

section \<open>Stateful fallible steps\<close>

text \<open>
  An operation over a state \<open>'s\<close> that may fail: what it wrote before failing stays written.
  \<open>bindQ\<close> is the \<open>?\<close> operator after an awaited call, \<open>for_each\<close> a loop whose body may leave
  early with an error.
\<close>

type_synonym ('e, 'a, 's) qm = "'s \<Rightarrow> ('e + 'a) \<times> 's"

definition returnQ :: "'a \<Rightarrow> ('e, 'a, 's) qm" where
  "returnQ x = (\<lambda>s. (Inr x, s))"

definition failQ :: "'e \<Rightarrow> ('e, 'a, 's) qm" where
  "failQ e = (\<lambda>s. (Inl e, s))"

definition bindQ :: "('e, 'a, 's) qm \<Rightarrow> ('a \<Rightarrow> ('e, 'b, 's) qm) \<Rightarrow> ('e, 'b, 's) qm" where
  "bindQ m f = (\<lambda>s. case m s of (Inl e, s') \<Rightarrow> (Inl e, s') | (Inr x, s') \<Rightarrow> f x s')"

text \<open>Running a step and keeping its result as a value (no early exit).\<close>

definition tryQ :: "('e, 'a, 's) qm \<Rightarrow> ('f, 'e + 'a, 's) qm" where
  "tryQ m = (\<lambda>s. case m s of (r, s') \<Rightarrow> (Inr r, s'))"

fun for_each :: "'a list \<Rightarrow> ('a \<Rightarrow> ('e, unit, 's) qm) \<Rightarrow> ('e, unit, 's) qm" where
  "for_each [] f = returnQ ()"
| "for_each (x # xs) f = bindQ (f x) (\<lambda>_. for_each xs f)"

fun mapQ :: "('a \<Rightarrow> ('e, 'b, 's) qm) \<Rightarrow> 'a list \<Rightarrow> ('e, 'b list, 's) qm" where
  "mapQ f [] = returnQ []"
| "mapQ f (x # xs) = bindQ (f x) (\<lambda>y. bindQ (mapQ f xs) (\<lambda>ys. returnQ (y # ys)))"

fun foldQ :: "('a \<Rightarrow> 'b \<Rightarrow> ('e, 'b, 's) qm) \<Rightarrow> 'a list \<Rightarrow> 'b \<Rightarrow> ('e, 'b, 's) qm" where
  "foldQ f [] b = returnQ b"
| "foldQ f (x # xs) b = bindQ (f x b) (foldQ f xs)"

lemma returnQ_apply [simp]: "returnQ x s = (Inr x, s)"
  by (simp add: returnQ_def)

lemma failQ_apply [simp]: "failQ e s = (Inl e, s)"
  by (simp add: failQ_def)

lemma bindQ_Inr: "m s = (Inr x, s') \<Longrightarrow> bindQ m f s = f x s'"
  by (simp add: bindQ_def)

lemma bindQ_Inl: "m s = (Inl e, s') \<Longrightarrow> bindQ m f s = (Inl e, s')"
  by (simp add: bindQ_def)

lemma bindQ_eq_Inr:
  "bindQ m f s = (Inr y, t) \<longleftrightarrow> (\<exists>x s'. m s = (Inr x, s') \<and> f x s' = (Inr y, t))"
  by (auto simp: bindQ_def split: prod.splits sum.splits)

text \<open>A step keeps a predicate of the state, whether it succeeds or fails.\<close>

definition keepsQ :: "('s \<Rightarrow> bool) \<Rightarrow> ('e, 'a, 's) qm \<Rightarrow> bool" where
  "keepsQ P m \<longleftrightarrow> (\<forall>s. P s \<longrightarrow> P (snd (m s)))"

named_theorems keeps

lemma keepsQ_return [keeps]: "keepsQ P (returnQ x)"
  by (simp add: keepsQ_def)

lemma keepsQ_fail [keeps]: "keepsQ P (failQ e)"
  by (simp add: keepsQ_def)

lemma keepsQ_bind [keeps]:
  "keepsQ P m \<Longrightarrow> (\<And>x. keepsQ P (f x)) \<Longrightarrow> keepsQ P (bindQ m f)"
  by (fastforce simp: keepsQ_def bindQ_def split: prod.splits sum.splits)

lemma keepsQ_try [keeps]: "keepsQ P m \<Longrightarrow> keepsQ P (tryQ m)"
  by (fastforce simp: keepsQ_def tryQ_def split: prod.splits)

lemma keepsQ_for_each [keeps]: "(\<And>x. keepsQ P (f x)) \<Longrightarrow> keepsQ P (for_each xs f)"
  by (induction xs) (simp_all add: keeps)

lemma keepsQ_map [keeps]: "(\<And>x. keepsQ P (f x)) \<Longrightarrow> keepsQ P (mapQ f xs)"
  by (induction xs) (simp_all add: keeps)

lemma keepsQ_fold [keeps]: "(\<And>x b. keepsQ P (f x b)) \<Longrightarrow> keepsQ P (foldQ f xs b)"
  by (induction xs arbitrary: b) (simp_all add: keeps)

lemma keepsQ_if [keeps]: "keepsQ P a \<Longrightarrow> keepsQ P b \<Longrightarrow> keepsQ P (if c then a else b)"
  by simp

lemma keepsQ_option [keeps]:
  "keepsQ P a \<Longrightarrow> (\<And>x. keepsQ P (f x)) \<Longrightarrow> keepsQ P (case z of None \<Rightarrow> a | Some x \<Rightarrow> f x)"
  by (cases z) simp_all

lemma keepsQ_sum [keeps]:
  "(\<And>e. keepsQ P (f e)) \<Longrightarrow> (\<And>x. keepsQ P (g x)) \<Longrightarrow> keepsQ P (case z of Inl e \<Rightarrow> f e | Inr x \<Rightarrow> g x)"
  by (cases z) simp_all

lemma keepsQ_prod [keeps]: "(\<And>a b. keepsQ P (f a b)) \<Longrightarrow> keepsQ P (case z of (a, b) \<Rightarrow> f a b)"
  by (cases z) simp

lemma keepsQ_let [keeps]: "(\<And>x. keepsQ P (f x)) \<Longrightarrow> keepsQ P (let x = a in f x)"
  by simp

lemma keepsQ_D: "keepsQ P m \<Longrightarrow> P s \<Longrightarrow> m s = (r, s') \<Longrightarrow> P s'"
  by (metis keepsQ_def snd_conv)

text \<open>A step relates the states before and after by a preorder, whatever its result.\<close>

definition stepsQ :: "('s \<Rightarrow> 's \<Rightarrow> bool) \<Rightarrow> ('e, 'a, 's) qm \<Rightarrow> bool" where
  "stepsQ R m \<longleftrightarrow> (\<forall>s. R s (snd (m s)))"

definition preorder_rel :: "('s \<Rightarrow> 's \<Rightarrow> bool) \<Rightarrow> bool" where
  "preorder_rel R \<longleftrightarrow> (\<forall>s. R s s) \<and> (\<forall>s t u. R s t \<longrightarrow> R t u \<longrightarrow> R s u)"

named_theorems steps

lemma stepsQ_return [steps]: "preorder_rel R \<Longrightarrow> stepsQ R (returnQ x)"
  by (simp add: stepsQ_def preorder_rel_def)

lemma stepsQ_Pair [steps]: "preorder_rel R \<Longrightarrow> stepsQ R (Pair r)"
  by (simp add: stepsQ_def preorder_rel_def)

lemma stepsQ_fail [steps]: "preorder_rel R \<Longrightarrow> stepsQ R (failQ x)"
  by (simp add: stepsQ_def preorder_rel_def)

lemma stepsQ_D: "stepsQ R m \<Longrightarrow> m s = (r, s') \<Longrightarrow> R s s'"
  by (metis stepsQ_def snd_conv)

lemma stepsQ_bind [steps]:
  assumes "preorder_rel R" and "stepsQ R m" and "\<And>x. stepsQ R (f x)"
  shows "stepsQ R (bindQ m f)"
  unfolding stepsQ_def
proof
  fix s
  obtain r s1 where m: "m s = (r, s1)" by force
  with assms(2) have one: "R s s1" by (rule stepsQ_D)
  show "R s (snd (bindQ m f s))"
  proof (cases r)
    case (Inl e)
    with m one show ?thesis by (simp add: bindQ_def)
  next
    case (Inr x)
    have "R s1 (snd (f x s1))" using assms(3) by (simp add: stepsQ_def)
    with one assms(1) m Inr show ?thesis by (auto simp: bindQ_def preorder_rel_def)
  qed
qed

lemma stepsQ_for_each [steps]:
  "preorder_rel R \<Longrightarrow> (\<And>x. x \<in> set xs \<Longrightarrow> stepsQ R (f x)) \<Longrightarrow> stepsQ R (for_each xs f)"
  by (induction xs) (simp_all add: steps)

lemma stepsQ_map [steps]:
  "preorder_rel R \<Longrightarrow> (\<And>x. x \<in> set xs \<Longrightarrow> stepsQ R (f x)) \<Longrightarrow> stepsQ R (mapQ f xs)"
  by (induction xs) (simp_all add: steps)

lemma stepsQ_if [steps]: "stepsQ R a \<Longrightarrow> stepsQ R b \<Longrightarrow> stepsQ R (if c then a else b)"
  by simp

lemma stepsQ_option [steps]:
  "(z = None \<Longrightarrow> stepsQ R a) \<Longrightarrow> (\<And>x. z = Some x \<Longrightarrow> stepsQ R (f x)) \<Longrightarrow>
     stepsQ R (case z of None \<Rightarrow> a | Some x \<Rightarrow> f x)"
  by (cases z) simp_all

lemma stepsQ_prod [steps]: "(\<And>a b. stepsQ R (f a b)) \<Longrightarrow> stepsQ R (case z of (a, b) \<Rightarrow> f a b)"
  by (cases z) simp

lemma stepsQ_list [steps]:
  "stepsQ R a \<Longrightarrow> (\<And>y ys. stepsQ R (f y ys)) \<Longrightarrow> stepsQ R (case z of [] \<Rightarrow> a | y # ys \<Rightarrow> f y ys)"
  by (cases z) simp_all

lemma stepsQ_sum [steps]:
  "(\<And>e. stepsQ R (f e)) \<Longrightarrow> (\<And>x. stepsQ R (g x)) \<Longrightarrow> stepsQ R (case z of Inl e \<Rightarrow> f e | Inr x \<Rightarrow> g x)"
  by (cases z) simp_all

lemma stepsQ_let [steps]: "(\<And>x. stepsQ R (f x)) \<Longrightarrow> stepsQ R (let x = a in f x)"
  by simp

text \<open>Total correctness: from a state with the invariant a step succeeds, keeps it, and its value is good.\<close>

definition totalQ :: "('s \<Rightarrow> bool) \<Rightarrow> ('e, 'a, 's) qm \<Rightarrow> ('a \<Rightarrow> bool) \<Rightarrow> bool" where
  "totalQ P m Q \<longleftrightarrow> (\<forall>s. P s \<longrightarrow> (\<exists>x s'. m s = (Inr x, s') \<and> P s' \<and> Q x))"

lemma totalQ_D: "totalQ P m Q \<Longrightarrow> P s \<Longrightarrow> \<exists>x s'. m s = (Inr x, s') \<and> P s' \<and> Q x"
  by (simp add: totalQ_def)

lemma totalQ_weaken: "totalQ P m Q \<Longrightarrow> (\<And>x. Q x \<Longrightarrow> R x) \<Longrightarrow> totalQ P m R"
  by (fastforce simp: totalQ_def)

lemma totalQ_return: "Q x \<Longrightarrow> totalQ P (returnQ x) Q"
  by (simp add: totalQ_def)

lemma totalQ_Pair: "Q x \<Longrightarrow> totalQ P (Pair (Inr x)) Q"
  by (simp add: totalQ_def)

lemma totalQ_bind:
  assumes "totalQ P m Q" and "\<And>x. Q x \<Longrightarrow> totalQ P (f x) R"
  shows "totalQ P (bindQ m f) R"
  unfolding totalQ_def
proof (intro allI impI)
  fix s
  assume "P s"
  with assms(1) obtain x s1 where "m s = (Inr x, s1)" "P s1" "Q x" by (blast dest: totalQ_D)
  with assms(2) show "\<exists>y t. bindQ m f s = (Inr y, t) \<and> P t \<and> R y"
    by (auto simp: bindQ_Inr dest: totalQ_D)
qed

lemma totalQ_for_each:
  "(\<And>x. x \<in> set xs \<Longrightarrow> totalQ P (f x) (\<lambda>_. True)) \<Longrightarrow> totalQ P (for_each xs f) (\<lambda>_. True)"
  by (induction xs) (auto intro!: totalQ_return totalQ_bind)

lemma totalQ_map:
  "(\<And>x. x \<in> set xs \<Longrightarrow> totalQ P (f x) Q) \<Longrightarrow> totalQ P (mapQ f xs) (\<lambda>ys. \<forall>y \<in> set ys. Q y)"
  by (induction xs) (auto intro!: totalQ_return totalQ_bind)

lemma totalQ_fold:
  "(\<And>x b. x \<in> set xs \<Longrightarrow> totalQ P (f x b) (\<lambda>_. True)) \<Longrightarrow> totalQ P (foldQ f xs b) (\<lambda>_. True)"
proof (induction xs arbitrary: b)
  case Nil
  then show ?case by (simp add: totalQ_return totalQ_Pair)
next
  case (Cons x xs)
  have "totalQ P (foldQ f xs y) (\<lambda>_. True)" for y using Cons by simp
  then show ?case using Cons.prems by (auto intro: totalQ_bind)
qed

lemma totalQ_if: "(c \<Longrightarrow> totalQ P a Q) \<Longrightarrow> (\<not> c \<Longrightarrow> totalQ P b Q) \<Longrightarrow> totalQ P (if c then a else b) Q"
  by simp

lemma totalQ_option:
  "(z = None \<Longrightarrow> totalQ P a Q) \<Longrightarrow> (\<And>x. z = Some x \<Longrightarrow> totalQ P (f x) Q) \<Longrightarrow>
     totalQ P (case z of None \<Rightarrow> a | Some x \<Rightarrow> f x) Q"
  by (cases z) simp_all

lemma totalQ_prod: "(\<And>a b. z = (a, b) \<Longrightarrow> totalQ P (f a b) Q) \<Longrightarrow> totalQ P (case z of (a, b) \<Rightarrow> f a b) Q"
  by (cases z) simp

lemma totalQ_list:
  "(z = [] \<Longrightarrow> totalQ P a Q) \<Longrightarrow> (\<And>y ys. z = y # ys \<Longrightarrow> totalQ P (f y ys) Q) \<Longrightarrow>
     totalQ P (case z of [] \<Rightarrow> a | y # ys \<Rightarrow> f y ys) Q"
  by (cases z) simp_all

lemma totalQ_sum:
  "(\<And>e. z = Inl e \<Longrightarrow> totalQ P (f e) Q) \<Longrightarrow> (\<And>x. z = Inr x \<Longrightarrow> totalQ P (g x) Q) \<Longrightarrow>
     totalQ P (case z of Inl e \<Rightarrow> f e | Inr x \<Rightarrow> g x) Q"
  by (cases z) simp_all

lemmas totalQ_cases = totalQ_if totalQ_option totalQ_prod totalQ_list totalQ_sum

section \<open>Strings of the Rust standard library\<close>

text \<open>\<open>str::split(c)\<close>: always at least one piece.\<close>

fun split_on :: "char \<Rightarrow> string \<Rightarrow> string list" where
  "split_on c [] = [[]]"
| "split_on c (x # xs) =
     (if x = c then [] # split_on c xs
      else (case split_on c xs of [] \<Rightarrow> [[x]] | p # ps \<Rightarrow> (x # p) # ps))"

text \<open>\<open>str::rsplit_once(c)\<close>: split at the last occurrence.\<close>

fun rsplit_once :: "char \<Rightarrow> string \<Rightarrow> (string \<times> string) option" where
  "rsplit_once c [] = None"
| "rsplit_once c (x # xs) =
     (case rsplit_once c xs of
        Some (a, b) \<Rightarrow> Some (x # a, b)
      | None \<Rightarrow> (if x = c then Some ([], xs) else None))"

text \<open>\<open>str::strip_prefix(p)\<close>, on any list (the source also uses it on byte slices).\<close>

fun strip_prefix :: "'a list \<Rightarrow> 'a list \<Rightarrow> 'a list option" where
  "strip_prefix [] xs = Some xs"
| "strip_prefix (p # ps) [] = None"
| "strip_prefix (p # ps) (x # xs) = (if p = x then strip_prefix ps xs else None)"

definition starts_with :: "'a list \<Rightarrow> 'a list \<Rightarrow> bool" where
  "starts_with p xs = (strip_prefix p xs \<noteq> None)"

text \<open>\<open>haystack.contains(needle)\<close>.\<close>

fun str_contains :: "'a list \<Rightarrow> 'a list \<Rightarrow> bool" where
  "str_contains p [] = (p = [])"
| "str_contains p (x # xs) = (starts_with p (x # xs) \<or> str_contains p xs)"

text \<open>\<open>slice.join(sep)\<close>.\<close>

fun join_with :: "string \<Rightarrow> string list \<Rightarrow> string" where
  "join_with sep [] = []"
| "join_with sep [x] = x"
| "join_with sep (x # y # ys) = x @ sep @ join_with sep (y # ys)"

definition ascii_lower :: "char \<Rightarrow> char" where
  "ascii_lower c =
     (let n = (of_char c :: nat) in if 65 \<le> n \<and> n \<le> 90 then char_of (n + 32) else c)"

definition ascii_upper :: "char \<Rightarrow> char" where
  "ascii_upper c =
     (let n = (of_char c :: nat) in if 97 \<le> n \<and> n \<le> 122 then char_of (n - 32) else c)"

definition to_ascii_lowercase :: "string \<Rightarrow> string" where
  "to_ascii_lowercase s = map ascii_lower s"

definition to_ascii_uppercase :: "string \<Rightarrow> string" where
  "to_ascii_uppercase s = map ascii_upper s"

text \<open>\<open>a.eq_ignore_ascii_case(b)\<close>.\<close>

definition eq_ignore_ascii_case :: "string \<Rightarrow> string \<Rightarrow> bool" where
  "eq_ignore_ascii_case a b = (to_ascii_lowercase a = to_ascii_lowercase b)"

text \<open>
  \<open>char::is_whitespace\<close> restricted to the ASCII range: tab, line feed, vertical tab, form
  feed, carriage return and space. (Beyond ASCII the standard library also trims a few
  multi-byte characters; the model does not.)
\<close>

definition is_ws :: "char \<Rightarrow> bool" where
  "is_ws c = (let n = (of_char c :: nat) in (9 \<le> n \<and> n \<le> 13) \<or> n = 32)"

definition trim_start :: "string \<Rightarrow> string" where
  "trim_start s = dropWhile is_ws s"

definition trim_end :: "string \<Rightarrow> string" where
  "trim_end s = rev (dropWhile is_ws (rev s))"

definition trim_str :: "string \<Rightarrow> string" where
  "trim_str s = trim_end (trim_start s)"

definition trim_end_char :: "char \<Rightarrow> string \<Rightarrow> string" where
  "trim_end_char c s = rev (dropWhile (\<lambda>x. x = c) (rev s))"

text \<open>\<open>split_whitespace\<close>: the maximal runs of non-space characters.\<close>

fun split_ws_acc :: "string \<Rightarrow> string \<Rightarrow> string list" where
  "split_ws_acc acc [] = (if acc = [] then [] else [rev acc])"
| "split_ws_acc acc (c # cs) =
     (if is_ws c then (if acc = [] then split_ws_acc [] cs else rev acc # split_ws_acc [] cs)
      else split_ws_acc (c # acc) cs)"

definition split_whitespace :: "string \<Rightarrow> string list" where
  "split_whitespace s = split_ws_acc [] s"

text \<open>
  \<open>str::lines\<close>: split after line feeds, without the line feed and one preceding carriage
  return, and without a final empty line.
\<close>

abbreviation lf :: char where
  "lf \<equiv> char_of (10::nat)"

abbreviation cr :: char where
  "cr \<equiv> char_of (13::nat)"

definition strip_cr :: "string \<Rightarrow> string" where
  "strip_cr l = (if l \<noteq> [] \<and> last l = cr then butlast l else l)"

text \<open>Only a terminated line loses its carriage return; the unterminated last one keeps it.\<close>

fun split_lines :: "string \<Rightarrow> string \<Rightarrow> string list" where
  "split_lines acc [] = (if acc = [] then [] else [rev acc])"
| "split_lines acc (c # cs) =
     (if c = lf then strip_cr (rev acc) # split_lines [] cs else split_lines (c # acc) cs)"

definition str_lines :: "string \<Rightarrow> string list" where
  "str_lines s = split_lines [] s"

section \<open>Decimal and hexadecimal formatting\<close>

definition digit_char :: "nat \<Rightarrow> char" where
  "digit_char d = char_of (48 + d)"

fun show_nat :: "nat \<Rightarrow> string" where
  "show_nat n = (if n < 10 then [digit_char n] else show_nat (n div 10) @ [digit_char (n mod 10)])"

declare show_nat.simps [simp del]

definition digit_val :: "char \<Rightarrow> nat option" where
  "digit_val c = (let n = (of_char c :: nat) in if 48 \<le> n \<and> n \<le> 57 then Some (n - 48) else None)"

fun read_digits :: "nat \<Rightarrow> string \<Rightarrow> nat option" where
  "read_digits acc [] = Some acc"
| "read_digits acc (c # cs) =
     (case digit_val c of None \<Rightarrow> None | Some d \<Rightarrow> read_digits (acc * 10 + d) cs)"

text \<open>
  \<open>s.parse::<uN>()\<close>: an optional plus sign, then at least one decimal digit, and the value
  must fit the width (\<open>lim\<close> is one more than the largest value).
\<close>

definition parse_unsigned :: "nat \<Rightarrow> string \<Rightarrow> nat option" where
  "parse_unsigned lim s =
     (let ds = (case s of c # cs \<Rightarrow> if c = CHR ''+'' then cs else s | [] \<Rightarrow> [])
      in if ds = [] then None
         else (case read_digits 0 ds of
                 None \<Rightarrow> None
               | Some v \<Rightarrow> if v < lim then Some v else None))"

definition usize_lim :: nat where
  "usize_lim = 18446744073709551616"

definition hex_char :: "nat \<Rightarrow> char" where
  "hex_char d = (if d < 10 then char_of (48 + d) else char_of (87 + d))"

fun hex_digits :: "nat \<Rightarrow> nat \<Rightarrow> string" where
  "hex_digits 0 n = []"
| "hex_digits (Suc k) n = hex_digits k (n div 16) @ [hex_char (n mod 16)]"

text \<open>\<open>format!("{:016x}", h)\<close>.\<close>

definition hex16 :: "u64 \<Rightarrow> string" where
  "hex16 w = hex_digits 16 (unat w)"

section \<open>Facts about the string routines\<close>

lemma split_on_not_Nil [simp]: "split_on c s \<noteq> []"
  by (cases s) (auto split: list.splits)

lemma split_on_no_sep: "p \<in> set (split_on c s) \<Longrightarrow> c \<notin> set p"
proof (induction s arbitrary: p)
  case Nil
  then show ?case by simp
next
  case (Cons x xs)
  then show ?case by (cases "split_on c xs") (auto split: if_splits)
qed

lemma join_split_on: "join_with [c] (split_on c s) = s"
proof (induction s)
  case Nil
  then show ?case by simp
next
  case (Cons x xs)
  obtain p ps where ps: "split_on c xs = p # ps"
    by (cases "split_on c xs") auto
  with Cons show ?case by (cases ps) auto
qed

lemma strip_prefix_Some: "strip_prefix p xs = Some r \<longleftrightarrow> xs = p @ r"
  by (induction p xs rule: strip_prefix.induct) auto

lemma strip_prefix_append [simp]: "strip_prefix p (p @ r) = Some r"
  by (simp add: strip_prefix_Some)

lemma starts_with_iff: "starts_with p xs \<longleftrightarrow> (\<exists>r. xs = p @ r)"
  by (auto simp: starts_with_def strip_prefix_Some)

lemma starts_with_self [simp]: "starts_with p (p @ r)"
  by (auto simp: starts_with_iff)

lemma str_contains_iff: "str_contains p xs \<longleftrightarrow> (\<exists>a b. xs = a @ p @ b)"
proof (induction xs)
  case Nil
  then show ?case by simp
next
  case (Cons x xs)
  have "(\<exists>a b. x # xs = a @ p @ b) \<longleftrightarrow> (\<exists>b. x # xs = p @ b) \<or> (\<exists>a b. xs = a @ p @ b)"
    (is "?l \<longleftrightarrow> ?r")
  proof
    assume ?l
    then obtain a b where ab: "x # xs = a @ p @ b" by blast
    show ?r
    proof (cases a)
      case Nil
      with ab show ?thesis by auto
    next
      case (Cons y ys)
      with ab show ?thesis by auto
    qed
  next
    assume ?r
    then show ?l by (metis append_Cons append_Nil)
  qed
  with Cons show ?case by (simp add: starts_with_iff)
qed

lemma rsplit_once_None: "rsplit_once c s = None \<longleftrightarrow> c \<notin> set s"
  by (induction s) (auto split: option.splits)

lemma rsplit_once_Some:
  "rsplit_once c s = Some (a, b) \<longleftrightarrow> s = a @ c # b \<and> c \<notin> set b"
proof (induction s arbitrary: a b)
  case Nil
  then show ?case by simp
next
  case (Cons x xs)
  show ?case
  proof (cases "rsplit_once c xs")
    case None
    then have nin: "c \<notin> set xs" by (simp add: rsplit_once_None)
    have "x # xs = a @ c # b \<longleftrightarrow> a = [] \<and> x = c \<and> xs = b" if "c \<notin> set b"
      using nin by (cases a) auto
    with None nin show ?thesis by auto
  next
    case (Some ab)
    obtain a' b' where ab: "ab = (a', b')" by force
    with Some Cons.IH [of a' b'] have eq: "xs = a' @ c # b'" and nin: "c \<notin> set b'"
      by simp_all
    have "x # xs = a @ c # b \<and> c \<notin> set b \<longleftrightarrow> a = x # a' \<and> b = b'"
    proof
      assume h: "x # xs = a @ c # b \<and> c \<notin> set b"
      then have "a \<noteq> []" using eq by auto
      then obtain a2 where a2: "a = x # a2" using h by (cases a) auto
      with h have "rsplit_once c xs = Some (a2, b)" using Cons.IH [of a2 b] by simp
      with Some ab a2 show "a = x # a' \<and> b = b'" by simp
    next
      assume "a = x # a' \<and> b = b'"
      then show "x # xs = a @ c # b \<and> c \<notin> set b" using eq nin by simp
    qed
    with Some ab show ?thesis by simp blast
  qed
qed

lemma read_digits_append:
  "read_digits acc (xs @ ys) = Option.bind (read_digits acc xs) (\<lambda>a. read_digits a ys)"
  by (induction xs arbitrary: acc) (auto split: option.splits)

lemma digit_val_digit_char: "d < 10 \<Longrightarrow> digit_val (digit_char d) = Some d"
  by (simp add: digit_val_def digit_char_def)

lemma read_digits_show_nat: "read_digits 0 (show_nat n) = Some n"
proof (induction n rule: show_nat.induct)
  case (1 n)
  show ?case
  proof (cases "n < 10")
    case True
    then show ?thesis by (subst show_nat.simps) (simp add: digit_val_digit_char)
  next
    case False
    with 1 show ?thesis
      by (subst show_nat.simps) (simp add: read_digits_append digit_val_digit_char)
  qed
qed

lemma show_nat_digits: "c \<in> set (show_nat n) \<Longrightarrow> \<exists>d < 10. c = digit_char d"
proof (induction n rule: show_nat.induct)
  case (1 n)
  show ?case
  proof (cases "n < 10")
    case True
    with "1.prems" show ?thesis by (subst (asm) show_nat.simps) auto
  next
    case False
    with "1.prems" have "c \<in> set (show_nat (n div 10)) \<or> c = digit_char (n mod 10)"
      by (subst (asm) show_nat.simps) auto
    moreover have "n mod 10 < 10" by simp
    ultimately show ?thesis using False "1.IH" by blast
  qed
qed

lemma show_nat_not_Nil [simp]: "show_nat n \<noteq> []"
  by (subst show_nat.simps) simp

lemma of_char_digit_char: "d < 10 \<Longrightarrow> of_char (digit_char d) = (48 + d :: nat)"
  by (simp add: digit_char_def)

lemma digit_char_not_special:
  "d < 10 \<Longrightarrow> digit_char d \<noteq> CHR ''+''" "d < 10 \<Longrightarrow> \<not> is_ws (digit_char d)"
  "d < 10 \<Longrightarrow> digit_char d \<noteq> lf" "d < 10 \<Longrightarrow> digit_char d \<noteq> cr"
proof -
  assume d: "d < 10"
  have o: "of_char (digit_char d) = (48 + d :: nat)" using d by (rule of_char_digit_char)
  have "of_char (CHR ''+'') = (43 :: nat)" by simp
  with o show "digit_char d \<noteq> CHR ''+''" by auto
  show "\<not> is_ws (digit_char d)" using o d by (simp add: is_ws_def Let_def)
  have "of_char lf = (10 :: nat)" "of_char cr = (13 :: nat)" by simp_all
  with o show "digit_char d \<noteq> lf" "digit_char d \<noteq> cr" by auto
qed

lemma parse_show_nat: "n < lim \<Longrightarrow> parse_unsigned lim (show_nat n) = Some n"
proof -
  assume n: "n < lim"
  obtain c cs where cs: "show_nat n = c # cs" by (cases "show_nat n") auto
  have "c \<noteq> CHR ''+''"
    using show_nat_digits [of c n] cs digit_char_not_special(1) by auto
  then show ?thesis using n cs read_digits_show_nat [of n]
    by (simp add: parse_unsigned_def)
qed

lemma length_hex_digits [simp]: "length (hex_digits k n) = k"
  by (induction k arbitrary: n) auto

lemma length_hex16 [simp]: "length (hex16 w) = 16"
  by (simp add: hex16_def)

lemma hex16_not_Nil [simp]: "hex16 w \<noteq> []"
  using length_hex16 [of w] by (metis list.size(3) zero_neq_numeral)

lemma hex_char_inj: "a < 16 \<Longrightarrow> b < 16 \<Longrightarrow> hex_char a = hex_char b \<Longrightarrow> a = b"
proof -
  assume a: "a < 16" and b: "b < 16" and h: "hex_char a = hex_char b"
  have o: "of_char (hex_char d) = (if d < 10 then 48 + d else 87 + d)" if "d < 16" for d :: nat
    using that by (simp add: hex_char_def)
  have "of_char (hex_char a) = (of_char (hex_char b) :: nat)" using h by simp
  with o [OF a] o [OF b] a b show "a = b" by (auto split: if_splits)
qed

lemma hex_digits_inj:
  "a < 16 ^ k \<Longrightarrow> b < 16 ^ k \<Longrightarrow> hex_digits k a = hex_digits k b \<Longrightarrow> a = b"
proof (induction k arbitrary: a b)
  case 0
  then show ?case by simp
next
  case (Suc k)
  then have "hex_digits k (a div 16) = hex_digits k (b div 16)" and
    "hex_char (a mod 16) = hex_char (b mod 16)" by auto
  moreover have "a div 16 < 16 ^ k" "b div 16 < 16 ^ k" using Suc.prems by auto
  ultimately have "a div 16 = b div 16" and "a mod 16 = b mod 16"
    using Suc.IH hex_char_inj [of "a mod 16" "b mod 16"] by auto
  then show ?case by (metis div_mult_mod_eq)
qed

lemma hex16_inj: "hex16 a = hex16 b \<longleftrightarrow> a = b"
proof -
  have "unat w < 16 ^ 16" for w :: u64
    using unsigned_less [of w] by simp
  then show ?thesis
    unfolding hex16_def using hex_digits_inj by (metis word_unat_eq_iff)
qed

section \<open>Generic facts about lists\<close>

lemma find_None: "List.find P xs = None \<longleftrightarrow> (\<forall>x \<in> set xs. \<not> P x)"
  by (induction xs) auto

lemma find_SomeD: "List.find P xs = Some x \<Longrightarrow> x \<in> set xs \<and> P x"
  by (induction xs) (auto split: if_splits)

lemma find_unique:
  assumes "x \<in> set xs" and "P x" and "\<And>y. y \<in> set xs \<Longrightarrow> P y \<Longrightarrow> y = x"
  shows "List.find P xs = Some x"
proof (cases "List.find P xs")
  case None
  with assms(1,2) show ?thesis by (simp add: find_None)
next
  case (Some y)
  then have "y \<in> set xs" and "P y" by (simp_all add: find_SomeD)
  with assms(3) Some show ?thesis by simp
qed

lemma distinct_map_inj_on:
  "distinct (map f xs) \<Longrightarrow> x \<in> set xs \<Longrightarrow> y \<in> set xs \<Longrightarrow> f x = f y \<Longrightarrow> x = y"
  by (simp add: distinct_map inj_on_def)

end
