(* ===== verification/Graph_Model.thy ===== *)
theory Graph_Model
  imports Semnav_Prelude
begin

text \<open>
  The domain types of the graph store (\<open>src/graph/model.rs\<close>) and the state the database
  actor owns: the tables of \<open>migrations/V0001__init.sql\<close> and
  \<open>migrations/V0002__callees_cache.sql\<close>. A table row is a value of the same record the
  code reads it into; its \<open>id\<close> column is \<open>Some\<close> of the row id.
\<close>

section \<open>Domain types\<close>

record Range =
  start_line :: int
  start_col :: int
  end_line :: int
  end_col :: int

record Node =
  n_id :: "int option"
  n_fqn :: string
  n_uri :: string
  n_name :: string
  n_language :: string
  n_kind :: int
  n_node_kind :: string
  n_construct :: "string option"
  n_container_id :: "int option"
  n_range :: Range
  n_sel :: Range
  n_signature :: "string option"
  n_documentation :: "string option"
  n_detail :: "string option"
  n_signature_hash :: "string option"
  n_valid :: bool
  n_orphan :: bool
  n_generation :: int
  n_is_external :: bool

record Site =
  s_uri :: string
  s_range :: Range

record Edge =
  e_id :: "int option"
  e_src :: int
  e_dst :: int
  e_type :: string
  e_site :: "Site option"
  e_valid :: bool

record ReconcileSymbol =
  rs_fqn :: string
  rs_name :: string
  rs_kind :: int
  rs_node_kind :: string
  rs_range :: Range
  rs_sel :: Range
  rs_detail :: "string option"
  rs_signature_hash :: string
  rs_parent :: "nat option"

record ReconcileOutcome =
  ro_unchanged :: nat
  ro_updated :: nat
  ro_renamed :: nat
  ro_inserted :: nat
  ro_orphaned :: nat
  ro_deleted :: nat

definition outcome_default :: ReconcileOutcome where
  "outcome_default = \<lparr>ro_unchanged = 0, ro_updated = 0, ro_renamed = 0, ro_inserted = 0,
     ro_orphaned = 0, ro_deleted = 0\<rparr>"

datatype Direction = Incoming | Outgoing

type_synonym Neighbor = "Node \<times> Site option"

section \<open>The tables\<close>

text \<open>
  \<open>db_node_seq\<close> and \<open>db_edge_seq\<close> are the AUTOINCREMENT high-water marks: a new row gets
  the successor, so an id is never reused, not even after a deletion.
\<close>

record Db =
  db_nodes :: "Node list"
  db_edges :: "Edge list"
  db_node_seq :: int
  db_edge_seq :: int
  db_meta :: "string \<Rightarrow> string option"
  db_callees :: "int \<Rightarrow> string option"
  db_materialized :: "(int \<times> string) set"

definition empty_db :: Db where
  "empty_db = \<lparr>db_nodes = [], db_edges = [], db_node_seq = 0, db_edge_seq = 0,
     db_meta = Map.empty, db_callees = Map.empty, db_materialized = {}\<rparr>"

text \<open>
  Why a database command fails: a violated constraint (the statement is rolled back), a
  symbol whose parent index does not precede it, a row without an id, or an index that is
  out of range (a panic in the code).
\<close>

datatype DbError =
    UniqueViolation
  | ForeignKeyViolation
  | CheckViolation
  | ParentNotProcessed
  | NodeWithoutId
  | IndexPanic

text \<open>
  SQL leaves the order of the rows of a SELECT without ORDER BY, and of rows that tie on
  ORDER BY, to the engine. The engine's choice is a parameter of the model: any function
  that returns the same rows in some order.
\<close>

record RowOrder =
  ord_nodes :: "Node list \<Rightarrow> Node list"
  ord_neighbors :: "Neighbor list \<Rightarrow> Neighbor list"
  ord_uris :: "string list \<Rightarrow> string list"

definition row_order_ok :: "RowOrder \<Rightarrow> bool" where
  "row_order_ok ro \<longleftrightarrow>
     (\<forall>xs. mset (ord_nodes ro xs) = mset xs) \<and>
     (\<forall>xs. mset (ord_neighbors ro xs) = mset xs) \<and>
     (\<forall>xs. mset (ord_uris ro xs) = mset xs)"

definition table_order :: RowOrder where
  "table_order = \<lparr>ord_nodes = (\<lambda>xs. xs), ord_neighbors = (\<lambda>xs. xs), ord_uris = (\<lambda>xs. xs)\<rparr>"

lemma row_order_ok_table_order [simp]: "row_order_ok table_order"
  by (simp add: row_order_ok_def table_order_def)

lemma row_order_mset:
  assumes "row_order_ok ro"
  shows "mset (ord_nodes ro xs) = mset xs" and "mset (ord_neighbors ro ys) = mset ys"
    and "mset (ord_uris ro us) = mset us"
  using assms by (simp_all add: row_order_ok_def)

lemma row_order_set:
  assumes "row_order_ok ro"
  shows "set (ord_nodes ro xs) = set xs" and "set (ord_neighbors ro ys) = set ys"
    and "set (ord_uris ro us) = set us"
  using row_order_mset [OF assms] by (metis set_mset_mset)+

lemma row_order_length:
  assumes "row_order_ok ro"
  shows "length (ord_nodes ro xs) = length xs" and "length (ord_neighbors ro ys) = length ys"
  using row_order_mset [OF assms] by (metis size_mset)+

section \<open>Keys of the UNIQUE indexes\<close>

text \<open>\<open>idx_nodes_phys\<close>: (uri, range_start_line, range_start_col, name).\<close>

definition phys_key :: "Node \<Rightarrow> string \<times> int \<times> int \<times> string" where
  "phys_key n = (n_uri n, start_line (n_range n), start_col (n_range n), n_name n)"

text \<open>
  The columns of the edge UNIQUE constraint that locate the occurrence. The constraint
  treats NULLs as distinct; the code's own lookup compares them with IS.
\<close>

definition site_key :: "Site option \<Rightarrow> (string \<times> int \<times> int) option" where
  "site_key s = map_option (\<lambda>x. (s_uri x, start_line (s_range x), start_col (s_range x))) s"

definition edge_types :: "string list" where
  "edge_types = [''contains'', ''calls'', ''references'', ''type_of'', ''implements'',
     ''defines'', ''inherits'', ''imports'']"

section \<open>Sample rows\<close>

text \<open>
  Small concrete values used by the witnesses of the later theories. \<open>row_at\<close> is a valid,
  non-orphan function row of one line.
\<close>

definition line_range :: "int \<Rightarrow> Range" where
  "line_range l = \<lparr>start_line = l, start_col = 0, end_line = l, end_col = 10\<rparr>"

definition row_at :: "int option \<Rightarrow> string \<Rightarrow> string \<Rightarrow> string \<Rightarrow> int \<Rightarrow> string \<Rightarrow> Node" where
  "row_at i f u nm l h = \<lparr>n_id = i, n_fqn = f, n_uri = u, n_name = nm, n_language = ''python'',
     n_kind = 12, n_node_kind = ''function'', n_construct = None, n_container_id = None,
     n_range = line_range l, n_sel = line_range l, n_signature = None, n_documentation = None,
     n_detail = None, n_signature_hash = Some h, n_valid = True, n_orphan = False,
     n_generation = 0, n_is_external = False\<rparr>"

definition symbol_at :: "string \<Rightarrow> string \<Rightarrow> int \<Rightarrow> string \<Rightarrow> nat option \<Rightarrow> ReconcileSymbol" where
  "symbol_at f nm l h p = \<lparr>rs_fqn = f, rs_name = nm, rs_kind = 12, rs_node_kind = ''function'',
     rs_range = line_range l, rs_sel = line_range l, rs_detail = None, rs_signature_hash = h,
     rs_parent = p\<rparr>"

end
