(* ===== verification/Graph_Store.thy ===== *)
theory Graph_Store
  imports Graph_Model
begin

text \<open>
  The single-statement operations of the database actor (\<open>src/graph/db.rs\<close>): one
  definition per SQL statement the code issues, with the constraints of the schema checked
  as the engine checks them (a violated constraint aborts the statement and leaves the
  tables as they were). The invariant \<open>wf_db\<close> collects what the schema promises of the
  tables, and every statement keeps it.
\<close>

section \<open>Statements on the nodes table\<close>

definition get_node_by_fqn :: "Db \<Rightarrow> string \<Rightarrow> Node option" where
  "get_node_by_fqn d f = List.find (\<lambda>n. n_fqn n = f) (db_nodes d)"

definition get_node :: "Db \<Rightarrow> int \<Rightarrow> Node option" where
  "get_node d i = List.find (\<lambda>n. n_id n = Some i) (db_nodes d)"

text \<open>FOREIGN KEY of \<open>container_id\<close> (and of every other id column).\<close>

definition node_exists :: "Db \<Rightarrow> int \<Rightarrow> bool" where
  "node_exists d i = (\<exists>n \<in> set (db_nodes d). n_id n = Some i)"

definition container_ok :: "Db \<Rightarrow> Node \<Rightarrow> bool" where
  "container_ok d n = (case n_container_id n of None \<Rightarrow> True | Some c \<Rightarrow> node_exists d c)"

text \<open>Does another row hold the value of a UNIQUE index that \<open>n\<close> would take?\<close>

definition unique_clash :: "Db \<Rightarrow> Node \<Rightarrow> bool" where
  "unique_clash d n =
     (\<exists>m \<in> set (db_nodes d). n_id m \<noteq> n_id n \<and> (n_fqn m = n_fqn n \<or> phys_key m = phys_key n))"

text \<open>
  UPDATE of the row with id \<open>i\<close>: the new values are checked against the UNIQUE indexes
  and the foreign key; no such row is no change.
\<close>

definition update_node :: "int \<Rightarrow> (Node \<Rightarrow> Node) \<Rightarrow> Db \<Rightarrow> DbError + Db" where
  "update_node i f d =
     (case get_node d i of
        None \<Rightarrow> Inr d
      | Some n \<Rightarrow>
          let n' = (f n)\<lparr>n_id := Some i\<rparr>;
              d' = d\<lparr>db_nodes := map (\<lambda>m. if n_id m = Some i then n' else m) (db_nodes d)\<rparr>
          in if unique_clash d n' then Inl UniqueViolation
             else if \<not> container_ok d n' then Inl ForeignKeyViolation
             else Inr d')"

text \<open>The SET lists of the two ON CONFLICT clauses of \<open>UPSERT_SQL\<close>.\<close>

definition set_on_fqn :: "Node \<Rightarrow> Node \<Rightarrow> Node" where
  "set_on_fqn e n = n\<lparr>n_uri := n_uri e, n_name := n_name e, n_language := n_language e,
     n_kind := n_kind e, n_node_kind := n_node_kind e, n_construct := n_construct e,
     n_container_id := n_container_id e, n_range := n_range e, n_sel := n_sel e,
     n_signature := n_signature e, n_documentation := n_documentation e,
     n_detail := n_detail e, n_signature_hash := n_signature_hash e, n_valid := n_valid e,
     n_orphan := n_orphan e, n_generation := n_generation e,
     n_is_external := n_is_external e\<rparr>"

definition set_on_phys :: "Node \<Rightarrow> Node \<Rightarrow> Node" where
  "set_on_phys e n = n\<lparr>n_fqn := n_fqn e, n_language := n_language e,
     n_kind := n_kind e, n_node_kind := n_node_kind e, n_construct := n_construct e,
     n_container_id := n_container_id e,
     n_range := (n_range n)\<lparr>end_line := end_line (n_range e), end_col := end_col (n_range e)\<rparr>,
     n_sel := n_sel e,
     n_signature := n_signature e, n_documentation := n_documentation e,
     n_detail := n_detail e, n_signature_hash := n_signature_hash e, n_valid := n_valid e,
     n_orphan := n_orphan e, n_generation := n_generation e,
     n_is_external := n_is_external e\<rparr>"

definition insert_node :: "Node \<Rightarrow> Db \<Rightarrow> DbError + int \<times> Db" where
  "insert_node n d =
     (let i = db_node_seq d + 1;
          d' = d\<lparr>db_nodes := db_nodes d @ [n\<lparr>n_id := Some i\<rparr>], db_node_seq := i\<rparr>
      in if container_ok d' n then Inr (i, d') else Inl ForeignKeyViolation)"

text \<open>
  \<open>UPSERT_SQL\<close>: the conflict on \<open>fqn\<close> is tried first, then the one on the physical key;
  RETURNING gives the id of the row inserted or updated.
\<close>

definition upsert_node :: "Node \<Rightarrow> Db \<Rightarrow> DbError + int \<times> Db" where
  "upsert_node n d =
     (case List.find (\<lambda>m. n_fqn m = n_fqn n) (db_nodes d) of
        Some m \<Rightarrow>
          (case n_id m of
             None \<Rightarrow> Inl NodeWithoutId
           | Some i \<Rightarrow> bindR (update_node i (set_on_fqn n) d) (\<lambda>d'. Inr (i, d')))
      | None \<Rightarrow>
          (case List.find (\<lambda>m. phys_key m = phys_key n) (db_nodes d) of
             Some m \<Rightarrow>
               (case n_id m of
                  None \<Rightarrow> Inl NodeWithoutId
                | Some i \<Rightarrow> bindR (update_node i (set_on_phys n) d) (\<lambda>d'. Inr (i, d')))
           | None \<Rightarrow> insert_node n d))"

definition update_where :: "(Node \<Rightarrow> bool) \<Rightarrow> (Node \<Rightarrow> Node) \<Rightarrow> Db \<Rightarrow> Db" where
  "update_where P f d = d\<lparr>db_nodes := map (\<lambda>n. if P n then f n else n) (db_nodes d)\<rparr>"

definition update_node_construct :: "int \<Rightarrow> string \<Rightarrow> Db \<Rightarrow> Db" where
  "update_node_construct i c = update_where (\<lambda>n. n_id n = Some i) (n_construct_update (\<lambda>_. Some c))"

definition update_node_signature :: "int \<Rightarrow> string \<Rightarrow> Db \<Rightarrow> Db" where
  "update_node_signature i s = update_where (\<lambda>n. n_id n = Some i) (n_signature_update (\<lambda>_. Some s))"

definition update_node_signature_by_fqn :: "string \<Rightarrow> string \<Rightarrow> Db \<Rightarrow> Db" where
  "update_node_signature_by_fqn f s =
     update_where (\<lambda>n. n_fqn n = f) (n_signature_update (\<lambda>_. Some s))"

text \<open>
  DELETE of a node with the schema's ON DELETE actions: incident edges, the callees cache
  row and the materialized rows go, children lose their container.
\<close>

definition delete_node :: "int \<Rightarrow> Db \<Rightarrow> Db" where
  "delete_node i d = d\<lparr>
     db_nodes := map (\<lambda>n. if n_container_id n = Some i then n\<lparr>n_container_id := None\<rparr> else n)
                   (filter (\<lambda>n. n_id n \<noteq> Some i) (db_nodes d)),
     db_edges := filter (\<lambda>e. e_src e \<noteq> i \<and> e_dst e \<noteq> i) (db_edges d),
     db_callees := (db_callees d)(i := None),
     db_materialized := {p \<in> db_materialized d. fst p \<noteq> i}\<rparr>"

section \<open>Reads of the nodes table\<close>

text \<open>ORDER BY fqn, uri, range_start_line, range_start_col.\<close>

definition node_sort_key :: "Node \<Rightarrow> string \<times> string \<times> int \<times> int" where
  "node_sort_key n = (n_fqn n, n_uri n, start_line (n_range n), start_col (n_range n))"

definition list_nodes :: "RowOrder \<Rightarrow> Db \<Rightarrow> string option \<Rightarrow> Node list" where
  "list_nodes ro d language =
     (case language of
        Some lang \<Rightarrow>
          sort_key node_sort_key
            (ord_nodes ro (filter (\<lambda>n. n_valid n \<and> n_language n = lang) (db_nodes d)))
      | None \<Rightarrow> sort_key node_sort_key (ord_nodes ro (filter n_valid (db_nodes d))))"

definition known_uris :: "RowOrder \<Rightarrow> Db \<Rightarrow> string list" where
  "known_uris ro d = ord_uris ro (remdups (map n_uri (filter (\<lambda>n. \<not> n_orphan n) (db_nodes d))))"

definition count_real_nodes :: "Db \<Rightarrow> string \<Rightarrow> string \<Rightarrow> nat" where
  "count_real_nodes d u module_fqn =
     length (filter (\<lambda>n. n_uri n = u \<and> n_fqn n \<noteq> module_fqn) (db_nodes d))"

definition nodes_by_uri :: "RowOrder \<Rightarrow> Db \<Rightarrow> string \<Rightarrow> Node list" where
  "nodes_by_uri ro d u = ord_nodes ro (filter (\<lambda>n. n_uri n = u) (db_nodes d))"

text \<open>The WHERE clause of \<open>FIND_BY_POSITION_SQL\<close> on the range columns.\<close>

definition range_contains :: "Range \<Rightarrow> int \<Rightarrow> int \<Rightarrow> bool" where
  "range_contains r line col \<longleftrightarrow>
     (start_line r < line \<or> (start_line r = line \<and> start_col r \<le> col)) \<and>
     (end_line r > line \<or> (end_line r = line \<and> end_col r \<ge> col))"

definition span_key :: "Node \<Rightarrow> int \<times> int" where
  "span_key n = (end_line (n_range n) - start_line (n_range n),
                 end_col (n_range n) - start_col (n_range n))"

definition find_node_by_position :: "RowOrder \<Rightarrow> Db \<Rightarrow> string \<Rightarrow> int \<Rightarrow> int \<Rightarrow> Node option" where
  "find_node_by_position ro d u line col =
     (case sort_key span_key (ord_nodes ro (filter (\<lambda>n. n_uri n = u \<and> n_valid n \<and>
             range_contains (n_range n) line col) (db_nodes d))) of
        [] \<Rightarrow> None
      | n # _ \<Rightarrow> Some n)"

section \<open>Statements on the edges table\<close>

text \<open>
  \<open>edges JOIN nodes\<close> for one anchor: an edge of the wanted type and direction with the
  node at its other end, both valid.
\<close>

definition edge_end :: "Direction \<Rightarrow> Edge \<Rightarrow> int" where
  "edge_end dir e = (case dir of Incoming \<Rightarrow> e_src e | Outgoing \<Rightarrow> e_dst e)"

definition edge_anchor :: "Direction \<Rightarrow> Edge \<Rightarrow> int" where
  "edge_anchor dir e = (case dir of Incoming \<Rightarrow> e_dst e | Outgoing \<Rightarrow> e_src e)"

definition neighbor_rows :: "Db \<Rightarrow> int \<Rightarrow> string \<Rightarrow> Direction \<Rightarrow> Neighbor list" where
  "neighbor_rows d i t dir =
     concat (map (\<lambda>e. map (\<lambda>n. (n, e_site e))
                    (filter (\<lambda>n. n_id n = Some (edge_end dir e) \<and> n_valid n) (db_nodes d)))
       (filter (\<lambda>e. edge_anchor dir e = i \<and> e_type e = t \<and> e_valid e) (db_edges d)))"

definition get_neighbors :: "RowOrder \<Rightarrow> Db \<Rightarrow> int \<Rightarrow> string \<Rightarrow> Direction \<Rightarrow> Neighbor list" where
  "get_neighbors ro d i t dir =
     sort_key (\<lambda>p. node_sort_key (fst p)) (ord_neighbors ro (neighbor_rows d i t dir))"

definition same_edge :: "Edge \<Rightarrow> Edge \<Rightarrow> bool" where
  "same_edge e f \<longleftrightarrow> e_src f = e_src e \<and> e_dst f = e_dst e \<and> e_type f = e_type e \<and>
     site_key (e_site f) = site_key (e_site e)"

text \<open>
  \<open>upsert_edge\<close>: look up by source, destination, type and site, then either reactivate
  the row found (its validity and site end are taken from the argument) or insert.
\<close>

definition upsert_edge :: "Edge \<Rightarrow> Db \<Rightarrow> DbError + int \<times> Db" where
  "upsert_edge e d =
     (case List.find (same_edge e) (db_edges d) of
        Some f \<Rightarrow>
          (case e_id f of
             None \<Rightarrow> Inl NodeWithoutId
           | Some i \<Rightarrow>
               Inr (i, d\<lparr>db_edges := map (\<lambda>g. if e_id g = Some i
                           then g\<lparr>e_valid := e_valid e, e_site := e_site e\<rparr> else g) (db_edges d)\<rparr>))
      | None \<Rightarrow>
          let i = db_edge_seq d + 1
          in if e_type e \<notin> set edge_types then Inl CheckViolation
             else if \<not> (node_exists d (e_src e) \<and> node_exists d (e_dst e))
               then Inl ForeignKeyViolation
             else Inr (i, d\<lparr>db_edges := db_edges d @ [e\<lparr>e_id := Some i\<rparr>], db_edge_seq := i\<rparr>))"

text \<open>\<open>INVALIDATE_EDGES_SQL\<close> and \<open>INVALIDATE_OUTGOING_CALLS_SQL\<close>.\<close>

definition invalidate_edges :: "int \<Rightarrow> Db \<Rightarrow> Db" where
  "invalidate_edges i d = d\<lparr>db_edges :=
     map (\<lambda>e. if e_src e = i \<or> e_dst e = i then e\<lparr>e_valid := False\<rparr> else e) (db_edges d)\<rparr>"

definition invalidate_outgoing_calls :: "int \<Rightarrow> Db \<Rightarrow> Db" where
  "invalidate_outgoing_calls i d = d\<lparr>db_edges :=
     map (\<lambda>e. if e_src e = i \<and> e_type e = ''calls'' then e\<lparr>e_valid := False\<rparr> else e) (db_edges d)\<rparr>"

section \<open>The key-value and cache tables\<close>

definition set_meta :: "string \<Rightarrow> string \<Rightarrow> Db \<Rightarrow> Db" where
  "set_meta k v d = d\<lparr>db_meta := (db_meta d)(k := Some v)\<rparr>"

definition get_meta :: "Db \<Rightarrow> string \<Rightarrow> string option" where
  "get_meta d k = db_meta d k"

definition get_callees_cache_hash :: "Db \<Rightarrow> int \<Rightarrow> string option" where
  "get_callees_cache_hash d i = db_callees d i"

definition set_callees_cache_hash :: "int \<Rightarrow> string \<Rightarrow> Db \<Rightarrow> DbError + Db" where
  "set_callees_cache_hash i h d =
     (if node_exists d i then Inr (d\<lparr>db_callees := (db_callees d)(i := Some h)\<rparr>)
      else Inl ForeignKeyViolation)"

definition is_materialized :: "Db \<Rightarrow> int \<Rightarrow> string \<Rightarrow> bool" where
  "is_materialized d i t = ((i, t) \<in> db_materialized d)"

definition mark_materialized :: "int \<Rightarrow> string \<Rightarrow> Db \<Rightarrow> DbError + Db" where
  "mark_materialized i t d =
     (if (i, t) \<in> db_materialized d then Inr d
      else if node_exists d i
        then Inr (d\<lparr>db_materialized := insert (i, t) (db_materialized d)\<rparr>)
      else Inl ForeignKeyViolation)"

section \<open>The invariant of the tables\<close>

definition node_ids :: "Db \<Rightarrow> int option set" where
  "node_ids d = n_id ` set (db_nodes d)"

lemma node_ids_iff: "x \<in> node_ids d \<longleftrightarrow> (\<exists>n \<in> set (db_nodes d). n_id n = x)"
  by (auto simp: node_ids_def image_iff)

lemma node_exists_iff: "node_exists d i \<longleftrightarrow> Some i \<in> node_ids d"
  by (simp add: node_exists_def node_ids_iff)

text \<open>Row ids: present, positive, below the high-water mark, distinct.\<close>

definition rows_ok :: "int option list \<Rightarrow> int \<Rightarrow> bool" where
  "rows_ok is m \<longleftrightarrow> distinct is \<and> (\<forall>x \<in> set is. \<exists>i. x = Some i \<and> 1 \<le> i \<and> i \<le> m)"

definition edge_key :: "Edge \<Rightarrow> int \<times> int \<times> string \<times> (string \<times> int \<times> int) option" where
  "edge_key e = (e_src e, e_dst e, e_type e, site_key (e_site e))"

text \<open>PRIMARY KEY, the two UNIQUE indexes and the foreign key of the nodes table.\<close>

definition wf_nodes :: "Db \<Rightarrow> bool" where
  "wf_nodes d \<longleftrightarrow>
     rows_ok (map n_id (db_nodes d)) (db_node_seq d) \<and> 0 \<le> db_node_seq d \<and>
     distinct (map n_fqn (db_nodes d)) \<and> distinct (map phys_key (db_nodes d)) \<and>
     (\<forall>n \<in> set (db_nodes d). \<forall>c. n_container_id n = Some c \<longrightarrow> Some c \<in> node_ids d)"

text \<open>
  The edges table, with one row per relation and site even for edges without a site, where
  the schema's own UNIQUE constraint would allow duplicates.
\<close>

definition wf_edges :: "Db \<Rightarrow> bool" where
  "wf_edges d \<longleftrightarrow>
     rows_ok (map e_id (db_edges d)) (db_edge_seq d) \<and> 0 \<le> db_edge_seq d \<and>
     distinct (map edge_key (db_edges d)) \<and>
     (\<forall>e \<in> set (db_edges d). e_type e \<in> set edge_types \<and>
        Some (e_src e) \<in> node_ids d \<and> Some (e_dst e) \<in> node_ids d)"

definition wf_caches :: "Db \<Rightarrow> bool" where
  "wf_caches d \<longleftrightarrow>
     (\<forall>i h. db_callees d i = Some h \<longrightarrow> Some i \<in> node_ids d) \<and>
     (\<forall>i t. (i, t) \<in> db_materialized d \<longrightarrow> Some i \<in> node_ids d)"

definition wf_db :: "Db \<Rightarrow> bool" where
  "wf_db d \<longleftrightarrow> wf_nodes d \<and> wf_edges d \<and> wf_caches d"

named_theorems wf_db_pres

lemma wf_empty_db: "wf_db empty_db"
  by (simp add: wf_db_def wf_nodes_def wf_edges_def wf_caches_def empty_db_def rows_ok_def)

lemma wf_node_idD:
  "wf_db d \<Longrightarrow> n \<in> set (db_nodes d) \<Longrightarrow> \<exists>i. n_id n = Some i \<and> 1 \<le> i \<and> i \<le> db_node_seq d"
  by (auto simp: wf_db_def wf_nodes_def rows_ok_def)

lemma wf_node_eqI:
  assumes "wf_db d" "m \<in> set (db_nodes d)" "n \<in> set (db_nodes d)"
  shows "n_id m = n_id n \<Longrightarrow> m = n" and "n_fqn m = n_fqn n \<Longrightarrow> m = n"
    and "phys_key m = phys_key n \<Longrightarrow> m = n"
  using assms by (auto simp: wf_db_def wf_nodes_def rows_ok_def intro: distinct_map_inj_on)

lemma get_node_Some:
  "wf_db d \<Longrightarrow> get_node d i = Some n \<longleftrightarrow> n \<in> set (db_nodes d) \<and> n_id n = Some i"
  unfolding get_node_def
  using wf_node_eqI(1) [of d] by (auto dest: find_SomeD intro!: find_unique)

lemma get_node_None: "get_node d i = None \<longleftrightarrow> Some i \<notin> node_ids d"
  by (auto simp: get_node_def find_None node_ids_iff)

lemma get_node_by_fqn_Some:
  "wf_db d \<Longrightarrow> get_node_by_fqn d f = Some n \<longleftrightarrow> n \<in> set (db_nodes d) \<and> n_fqn n = f"
  unfolding get_node_by_fqn_def
  using wf_node_eqI(2) [of d] by (auto dest: find_SomeD intro!: find_unique)

lemma distinct_map_replace:
  assumes "distinct (map k xs)" and "distinct (map g xs)"
    and "\<And>m. m \<in> set xs \<Longrightarrow> k m \<noteq> k n \<Longrightarrow> g m \<noteq> g n"
  shows "distinct (map g (map (\<lambda>m. if k m = k n then n else m) xs))"
  using assms
proof (induction xs)
  case Nil
  then show ?case by simp
next
  case (Cons x xs)
  have IH: "distinct (map g (map (\<lambda>m. if k m = k n then n else m) xs))"
    using Cons by simp
  show ?case
  proof (cases "k x = k n")
    case True
    with Cons.prems(1) have ne: "\<forall>m \<in> set xs. k m \<noteq> k n"
      by (auto simp: image_iff)
    then have "map (\<lambda>m. if k m = k n then n else m) xs = xs"
      by (intro map_idI) simp
    moreover have "g n \<notin> g ` set xs"
    proof
      assume "g n \<in> g ` set xs"
      then obtain m where "m \<in> set xs" "g m = g n" by auto
      with ne Cons.prems(3) [of m] show False by simp
    qed
    ultimately show ?thesis using Cons.prems True by simp
  next
    case False
    have "g x \<noteq> g (if k m = k n then n else m)" if "m \<in> set xs" for m
      using that False Cons.prems(2) Cons.prems(3) [of x] by (auto simp: image_iff)
    then show ?thesis using IH False by (simp add: image_iff)
  qed
qed

section \<open>Every statement keeps the invariant\<close>

lemma update_node_Inr:
  "update_node i f d = Inr d' \<longleftrightarrow>
     (get_node d i = None \<and> d' = d) \<or>
     (\<exists>n. get_node d i = Some n \<and> \<not> unique_clash d ((f n)\<lparr>n_id := Some i\<rparr>) \<and>
        container_ok d ((f n)\<lparr>n_id := Some i\<rparr>) \<and>
        d' = d\<lparr>db_nodes := map (\<lambda>m. if n_id m = Some i then (f n)\<lparr>n_id := Some i\<rparr> else m)
               (db_nodes d)\<rparr>)"
  by (auto simp: update_node_def Let_def split: option.splits if_splits)

lemma update_node_ids:
  "update_node i f d = Inr d' \<Longrightarrow> map n_id (db_nodes d') = map n_id (db_nodes d)"
  by (auto simp: update_node_Inr)

lemma node_ids_eqI: "map n_id (db_nodes d') = map n_id (db_nodes d) \<Longrightarrow> node_ids d' = node_ids d"
  unfolding node_ids_def by (metis list.set_map)

lemma update_node_frame:
  "update_node i f d = Inr d' \<Longrightarrow>
     db_edges d' = db_edges d \<and> db_edge_seq d' = db_edge_seq d \<and> db_node_seq d' = db_node_seq d \<and>
     db_callees d' = db_callees d \<and> db_materialized d' = db_materialized d \<and> db_meta d' = db_meta d"
  by (auto simp: update_node_Inr)

lemma update_node_wf [wf_db_pres]:
  assumes wf: "wf_db d" and up: "update_node i f d = Inr d'"
  shows "wf_db d'"
proof (cases "get_node d i")
  case None
  with up wf show ?thesis by (simp add: update_node_Inr)
next
  case (Some n)
  define n' where "n' = (f n)\<lparr>n_id := Some i\<rparr>"
  have id': "n_id n' = Some i" by (simp add: n'_def)
  from up Some have clash: "\<not> unique_clash d n'" and cont: "container_ok d n'"
    and d': "d' = d\<lparr>db_nodes := map (\<lambda>m. if n_id m = n_id n' then n' else m) (db_nodes d)\<rparr>"
    by (auto simp: update_node_Inr n'_def)
  have ids: "map n_id (db_nodes d') = map n_id (db_nodes d)" using up by (rule update_node_ids)
  have nids: "node_ids d' = node_ids d" using ids by (rule node_ids_eqI)
  have dist_id: "distinct (map n_id (db_nodes d))" using wf
    by (simp add: wf_db_def wf_nodes_def rows_ok_def)
  have "distinct (map n_fqn (db_nodes d'))"
    unfolding d' using wf dist_id clash
    by (simp del: map_map, intro distinct_map_replace)
      (auto simp: wf_db_def wf_nodes_def unique_clash_def)
  moreover have "distinct (map phys_key (db_nodes d'))"
    unfolding d' using wf dist_id clash
    by (simp del: map_map, intro distinct_map_replace)
      (auto simp: wf_db_def wf_nodes_def unique_clash_def)
  moreover have "\<forall>m \<in> set (db_nodes d'). \<forall>c. n_container_id m = Some c \<longrightarrow> Some c \<in> node_ids d'"
    using wf cont unfolding nids
    by (auto simp: d' wf_db_def wf_nodes_def container_ok_def node_exists_iff split: option.splits)
  ultimately have "wf_nodes d'"
    using wf ids update_node_frame [OF up] by (simp add: wf_db_def wf_nodes_def)
  then show ?thesis
    using wf nids update_node_frame [OF up]
    by (simp add: wf_db_def wf_edges_def wf_caches_def)
qed

lemma insert_node_Inr:
  "insert_node n d = Inr (i, d') \<longleftrightarrow>
     i = db_node_seq d + 1 \<and>
     d' = d\<lparr>db_nodes := db_nodes d @ [n\<lparr>n_id := Some i\<rparr>], db_node_seq := i\<rparr> \<and> container_ok d' n"
  by (auto simp: insert_node_def Let_def)

lemma insert_node_wf:
  assumes wf: "wf_db d" and ins: "insert_node n d = Inr (i, d')"
    and fq: "\<forall>m \<in> set (db_nodes d). n_fqn m \<noteq> n_fqn n"
    and ph: "\<forall>m \<in> set (db_nodes d). phys_key m \<noteq> phys_key n"
  shows "wf_db d'"
proof -
  from ins have i: "i = db_node_seq d + 1" and cont: "container_ok d' n"
    and d': "d' = d\<lparr>db_nodes := db_nodes d @ [n\<lparr>n_id := Some i\<rparr>], db_node_seq := i\<rparr>"
    by (auto simp: insert_node_Inr)
  have nids: "node_ids d' = insert (Some i) (node_ids d)" by (simp add: d' node_ids_def)
  have "Some i \<notin> n_id ` set (db_nodes d)" using wf i
    by (force simp: wf_db_def wf_nodes_def rows_ok_def)
  then have "rows_ok (map n_id (db_nodes d')) (db_node_seq d') \<and> 0 \<le> db_node_seq d'"
    using wf i by (auto simp: d' wf_db_def wf_nodes_def rows_ok_def)
  moreover have "distinct (map n_fqn (db_nodes d')) \<and> distinct (map phys_key (db_nodes d'))"
    using wf fq ph by (auto simp: d' wf_db_def wf_nodes_def phys_key_def)
  moreover have "\<forall>m \<in> set (db_nodes d'). \<forall>c. n_container_id m = Some c \<longrightarrow> Some c \<in> node_ids d'"
    using wf cont unfolding nids
    by (auto simp: d' wf_db_def wf_nodes_def container_ok_def node_exists_iff nids [unfolded d'])
  ultimately have "wf_nodes d'" by (simp add: wf_nodes_def)
  moreover have "wf_edges d'" using wf nids by (auto simp: d' wf_db_def wf_edges_def)
  moreover have "wf_caches d'" using wf nids by (auto simp: d' wf_db_def wf_caches_def)
  ultimately show ?thesis by (simp add: wf_db_def)
qed

lemma upsert_node_cases:
  assumes "upsert_node n d = Inr (i, d')"
  obtains (fqn) m where "m \<in> set (db_nodes d)" "n_fqn m = n_fqn n" "n_id m = Some i"
      "update_node i (set_on_fqn n) d = Inr d'"
    | (phys) m where "m \<in> set (db_nodes d)" "phys_key m = phys_key n" "n_id m = Some i"
      "\<forall>m \<in> set (db_nodes d). n_fqn m \<noteq> n_fqn n"
      "update_node i (set_on_phys n) d = Inr d'"
    | (fresh) "insert_node n d = Inr (i, d')"
      "\<forall>m \<in> set (db_nodes d). n_fqn m \<noteq> n_fqn n"
      "\<forall>m \<in> set (db_nodes d). phys_key m \<noteq> phys_key n"
proof (cases "List.find (\<lambda>m. n_fqn m = n_fqn n) (db_nodes d)")
  case (Some m)
  then have "m \<in> set (db_nodes d)" "n_fqn m = n_fqn n" by (auto dest: find_SomeD)
  with assms Some show ?thesis
    by (intro fqn [of m]) (auto simp: upsert_node_def bindR_eq_Inr split: option.splits)
next
  case None
  then have nf: "\<forall>m \<in> set (db_nodes d). n_fqn m \<noteq> n_fqn n" by (simp add: find_None)
  show ?thesis
  proof (cases "List.find (\<lambda>m. phys_key m = phys_key n) (db_nodes d)")
    case (Some m)
    then have "m \<in> set (db_nodes d)" "phys_key m = phys_key n" by (auto dest: find_SomeD)
    with assms None Some nf show ?thesis
      by (intro phys [of m]) (auto simp: upsert_node_def bindR_eq_Inr split: option.splits)
  next
    case none2: None
    then have "\<forall>m \<in> set (db_nodes d). phys_key m \<noteq> phys_key n" by (simp add: find_None)
    with assms None none2 nf show ?thesis
      by (intro fresh) (auto simp: upsert_node_def)
  qed
qed

lemma upsert_node_wf [wf_db_pres]:
  assumes "wf_db d" and "upsert_node n d = Inr (i, d')"
  shows "wf_db d'"
  using assms(2)
proof (cases rule: upsert_node_cases)
  case (fqn m)
  with assms(1) show ?thesis by (blast intro: update_node_wf)
next
  case (phys m)
  with assms(1) show ?thesis by (blast intro: update_node_wf)
next
  case fresh
  with assms(1) show ?thesis by (blast intro: insert_node_wf)
qed

lemma update_where_wf:
  assumes "wf_db d"
    and "\<And>n. n_id (f n) = n_id n \<and> n_fqn (f n) = n_fqn n \<and> phys_key (f n) = phys_key n \<and>
           n_container_id (f n) = n_container_id n"
  shows "wf_db (update_where P f d)"
proof -
  have map_eq: "map g (db_nodes (update_where P f d)) = map g (db_nodes d)"
    if "\<And>n. g (f n) = g n" for g :: "Node \<Rightarrow> 'b"
    using that by (simp add: update_where_def)
  have m1: "map n_id (db_nodes (update_where P f d)) = map n_id (db_nodes d)"
    using assms(2) by (simp add: update_where_def)
  have m2: "map n_fqn (db_nodes (update_where P f d)) = map n_fqn (db_nodes d)"
    using assms(2) by (simp add: update_where_def)
  have m3: "map phys_key (db_nodes (update_where P f d)) = map phys_key (db_nodes d)"
    using assms(2) by (simp add: update_where_def)
  have nids: "node_ids (update_where P f d) = node_ids d" using m1 by (rule node_ids_eqI)
  have "wf_nodes (update_where P f d)"
    unfolding wf_nodes_def m1 m2 m3 nids
    using assms by (auto simp: wf_db_def wf_nodes_def update_where_def)
  moreover have "wf_edges (update_where P f d)" "wf_caches (update_where P f d)"
    using assms(1) nids by (simp_all add: wf_db_def wf_edges_def wf_caches_def update_where_def)
  ultimately show ?thesis by (simp add: wf_db_def)
qed

lemma update_node_construct_wf [wf_db_pres]: "wf_db d \<Longrightarrow> wf_db (update_node_construct i c d)"
  unfolding update_node_construct_def by (rule update_where_wf) (simp_all add: phys_key_def)

lemma update_node_signature_wf [wf_db_pres]: "wf_db d \<Longrightarrow> wf_db (update_node_signature i s d)"
  unfolding update_node_signature_def by (rule update_where_wf) (simp_all add: phys_key_def)

lemma update_node_signature_by_fqn_wf [wf_db_pres]:
  "wf_db d \<Longrightarrow> wf_db (update_node_signature_by_fqn f s d)"
  unfolding update_node_signature_by_fqn_def
  by (rule update_where_wf) (simp_all add: phys_key_def)

lemma delete_node_ids: "node_ids (delete_node i d) = node_ids d - {Some i}"
proof -
  have "map n_id (db_nodes (delete_node i d)) = map n_id (filter (\<lambda>n. n_id n \<noteq> Some i) (db_nodes d))"
    by (simp add: delete_node_def)
  then have "node_ids (delete_node i d) = set (map n_id (filter (\<lambda>n. n_id n \<noteq> Some i) (db_nodes d)))"
    unfolding node_ids_def by (metis list.set_map)
  then show ?thesis by (auto simp: node_ids_def)
qed

lemma delete_node_wf [wf_db_pres]:
  assumes wf: "wf_db d"
  shows "wf_db (delete_node i d)"
proof -
  let ?ns = "filter (\<lambda>n. n_id n \<noteq> Some i) (db_nodes d)"
  have map_eq: "map n_id (db_nodes (delete_node i d)) = map n_id ?ns"
    "map n_fqn (db_nodes (delete_node i d)) = map n_fqn ?ns"
    "map phys_key (db_nodes (delete_node i d)) = map phys_key ?ns"
    by (simp_all add: delete_node_def phys_key_def)
  have rows: "rows_ok (map n_id ?ns) (db_node_seq d)"
    using wf by (auto simp: wf_db_def wf_nodes_def rows_ok_def distinct_map_filter)
  have "wf_nodes (delete_node i d)"
    unfolding wf_nodes_def map_eq delete_node_ids
    using wf rows by (auto simp: wf_db_def wf_nodes_def distinct_map_filter delete_node_def split: if_splits)
  moreover have "wf_edges (delete_node i d)"
    unfolding wf_edges_def delete_node_ids
    using wf by (auto simp: wf_db_def wf_edges_def rows_ok_def delete_node_def distinct_map_filter)
  moreover have "wf_caches (delete_node i d)"
    unfolding wf_caches_def delete_node_ids
    using wf by (auto simp: wf_db_def wf_caches_def delete_node_def split: if_splits)
  ultimately show ?thesis by (simp add: wf_db_def)
qed

text \<open>Edge statements only ever write the edges table.\<close>

lemma wf_db_edges:
  assumes "wf_db d" and "wf_edges (d\<lparr>db_edges := es, db_edge_seq := k\<rparr>)"
  shows "wf_db (d\<lparr>db_edges := es, db_edge_seq := k\<rparr>)"
  using assms by (simp add: wf_db_def wf_nodes_def wf_caches_def node_ids_def)

lemma map_edges_wf:
  assumes wf: "wf_db d" and keep: "\<And>e. e \<in> set (db_edges d) \<Longrightarrow> e_id (f e) = e_id e \<and> edge_key (f e) = edge_key e"
  shows "wf_db (d\<lparr>db_edges := map f (db_edges d)\<rparr>)"
proof -
  let ?d = "d\<lparr>db_edges := map f (db_edges d), db_edge_seq := db_edge_seq d\<rparr>"
  have m: "map e_id (db_edges ?d) = map e_id (db_edges d)"
    "map edge_key (db_edges ?d) = map edge_key (db_edges d)"
    using keep by simp_all
  have "e_src (f e) = e_src e \<and> e_dst (f e) = e_dst e \<and> e_type (f e) = e_type e"
    if "e \<in> set (db_edges d)" for e
    using keep [OF that] by (simp add: edge_key_def)
  moreover have "node_ids ?d = node_ids d" by (simp add: node_ids_def)
  ultimately have "wf_edges ?d"
    unfolding wf_edges_def m using wf by (simp add: wf_db_def wf_edges_def)
  then have "wf_db ?d" by (rule wf_db_edges [OF wf])
  then show ?thesis by simp
qed

lemma invalidate_edges_wf [wf_db_pres]: "wf_db d \<Longrightarrow> wf_db (invalidate_edges i d)"
  unfolding invalidate_edges_def by (rule map_edges_wf) (simp_all add: edge_key_def)

lemma invalidate_outgoing_calls_wf [wf_db_pres]: "wf_db d \<Longrightarrow> wf_db (invalidate_outgoing_calls i d)"
  unfolding invalidate_outgoing_calls_def by (rule map_edges_wf) (simp_all add: edge_key_def)

lemma same_edge_iff: "same_edge e f \<longleftrightarrow> edge_key f = edge_key e"
  by (auto simp: same_edge_def edge_key_def)

lemma wf_edge_eqI:
  assumes "wf_db d" "e \<in> set (db_edges d)" "f \<in> set (db_edges d)"
  shows "e_id e = e_id f \<Longrightarrow> e = f" and "edge_key e = edge_key f \<Longrightarrow> e = f"
  using assms by (auto simp: wf_db_def wf_edges_def rows_ok_def intro: distinct_map_inj_on)

lemma upsert_edge_cases:
  assumes "upsert_edge e d = Inr (i, d')"
  obtains (reactivate) f where "f \<in> set (db_edges d)" "edge_key f = edge_key e" "e_id f = Some i"
      "d' = d\<lparr>db_edges := map (\<lambda>g. if e_id g = Some i
             then g\<lparr>e_valid := e_valid e, e_site := e_site e\<rparr> else g) (db_edges d)\<rparr>"
    | (insert) "\<forall>f \<in> set (db_edges d). edge_key f \<noteq> edge_key e" "e_type e \<in> set edge_types"
      "Some (e_src e) \<in> node_ids d" "Some (e_dst e) \<in> node_ids d" "i = db_edge_seq d + 1"
      "d' = d\<lparr>db_edges := db_edges d @ [e\<lparr>e_id := Some i\<rparr>], db_edge_seq := i\<rparr>"
proof (cases "List.find (same_edge e) (db_edges d)")
  case (Some f)
  then have "f \<in> set (db_edges d)" "same_edge e f" by (auto dest: find_SomeD)
  with assms Some show ?thesis
    by (intro reactivate [of f]) (auto simp: upsert_edge_def same_edge_iff split: option.splits)
next
  case None
  then have "\<forall>f \<in> set (db_edges d). edge_key f \<noteq> edge_key e" by (simp add: find_None same_edge_iff)
  with assms None show ?thesis
    by (intro insert) (auto simp: upsert_edge_def Let_def node_exists_iff split: if_splits)
qed

lemma upsert_edge_wf [wf_db_pres]:
  assumes wf: "wf_db d" and up: "upsert_edge e d = Inr (i, d')"
  shows "wf_db d'"
  using up
proof (cases rule: upsert_edge_cases)
  case (reactivate f)
  have "e_id g = Some i \<Longrightarrow> edge_key g = edge_key e" if "g \<in> set (db_edges d)" for g
    using wf_edge_eqI(1) [OF wf that reactivate(1)] reactivate(2,3) by auto
  then have "edge_key (g\<lparr>e_valid := e_valid e, e_site := e_site e\<rparr>) = edge_key g"
    if "g \<in> set (db_edges d)" "e_id g = Some i" for g
    using that by (simp add: edge_key_def)
  then show ?thesis unfolding reactivate(4) using wf by (intro map_edges_wf) auto
next
  case insert
  have "Some i \<notin> e_id ` set (db_edges d)" using wf insert(5)
    by (force simp: wf_db_def wf_edges_def rows_ok_def)
  then have "wf_edges d'" using wf insert
    by (auto simp: wf_db_def wf_edges_def rows_ok_def node_ids_def edge_key_def)
  then show ?thesis unfolding insert(6) by (rule wf_db_edges [OF wf])
qed

lemma wf_db_frame:
  assumes "wf_db d" and "db_nodes d' = db_nodes d" "db_node_seq d' = db_node_seq d"
    "db_edges d' = db_edges d" "db_edge_seq d' = db_edge_seq d" and "wf_caches d'"
  shows "wf_db d'"
  using assms by (simp add: wf_db_def wf_nodes_def wf_edges_def node_ids_def)

lemma set_meta_wf [wf_db_pres]: "wf_db d \<Longrightarrow> wf_db (set_meta k v d)"
  by (rule wf_db_frame) (auto simp: set_meta_def wf_db_def wf_caches_def node_ids_def)

lemma set_callees_cache_hash_wf [wf_db_pres]:
  assumes "wf_db d" and "set_callees_cache_hash i h d = Inr d'"
  shows "wf_db d'"
proof -
  from assms(2) have "Some i \<in> node_ids d" and d': "d' = d\<lparr>db_callees := (db_callees d)(i := Some h)\<rparr>"
    by (simp_all add: set_callees_cache_hash_def node_exists_iff split: if_splits)
  moreover from d' have "node_ids d' = node_ids d" by (simp add: node_ids_def)
  ultimately have wc: "wf_caches d'" using assms(1) by (simp add: wf_db_def wf_caches_def)
  show ?thesis by (rule wf_db_frame [of d]) (simp_all add: assms(1) d' wc [unfolded d'])
qed

lemma mark_materialized_wf [wf_db_pres]:
  assumes "wf_db d" and "mark_materialized i t d = Inr d'"
  shows "wf_db d'"
proof (cases "(i, t) \<in> db_materialized d")
  case True
  with assms show ?thesis by (simp add: mark_materialized_def)
next
  case False
  with assms(2) have "Some i \<in> node_ids d"
    and d': "d' = d\<lparr>db_materialized := insert (i, t) (db_materialized d)\<rparr>"
    by (simp_all add: mark_materialized_def node_exists_iff split: if_splits)
  moreover from d' have "node_ids d' = node_ids d" by (simp add: node_ids_def)
  ultimately have wc: "wf_caches d'" using assms(1) by (auto simp: wf_db_def wf_caches_def)
  show ?thesis by (rule wf_db_frame [of d]) (simp_all add: assms(1) d' wc [unfolded d'])
qed

end
