(* ===== verification/Graph_Props.thy ===== *)
theory Graph_Props
  imports Graph_Store
begin

text \<open>
  Properties of single statements of the graph store: positional lookup finds the innermost
  declaration, and edges written are the edges read back.
\<close>

section \<open>Positional lookup\<close>

text \<open>The rows the WHERE clause of the positional lookup admits.\<close>

definition covers :: "Db \<Rightarrow> string \<Rightarrow> int \<Rightarrow> int \<Rightarrow> Node \<Rightarrow> bool" where
  "covers d u line col n \<longleftrightarrow> n \<in> set (db_nodes d) \<and> n_uri n = u \<and> n_valid n \<and>
     range_contains (n_range n) line col"

lemma sort_key_Cons_minimal:
  assumes "sort_key k xs = y # ys" and "x \<in> set xs"
  shows "k y \<le> k x"
proof -
  have "sorted (map k (y # ys))" using sorted_sort_key [of k xs] assms(1) by simp
  moreover have "x \<in> set (y # ys)" using assms by (metis set_sort)
  ultimately show ?thesis by auto
qed

text \<open>lookup by position is exact and innermost. It answers a valid row of the file whose
  range contains the position and no admissible row has a smaller span (fewer lines, then
  fewer columns); it answers nothing exactly when no valid row contains the position.\<close>

theorem find_node_by_position_innermost:
  assumes "row_order_ok ro"
  shows "(case find_node_by_position ro d u line col of
      None \<Rightarrow> \<not> (\<exists>n. covers d u line col n)
    | Some n \<Rightarrow> covers d u line col n \<and> (\<forall>m. covers d u line col m \<longrightarrow> span_key n \<le> span_key m))"
proof -
  define cs where "cs = ord_nodes ro (filter (\<lambda>n. n_uri n = u \<and> n_valid n \<and>
    range_contains (n_range n) line col) (db_nodes d))"
  have in_cs: "n \<in> set cs \<longleftrightarrow> covers d u line col n" for n
    unfolding cs_def row_order_set(1) [OF assms] covers_def by auto
  have find: "find_node_by_position ro d u line col =
      (case sort_key span_key cs of [] \<Rightarrow> None | n # _ \<Rightarrow> Some n)"
    unfolding find_node_by_position_def cs_def ..
  show ?thesis
  proof (cases "sort_key span_key cs")
    case Nil
    then have "set (sort_key span_key cs) = {}" by (simp only: list.set)
    then have "\<forall>n. \<not> covers d u line col n" using in_cs by simp
    then show ?thesis unfolding find Nil list.case option.case by blast
  next
    case (Cons n ns)
    have "n \<in> set (sort_key span_key cs)" unfolding Cons by simp
    then have "covers d u line col n" using in_cs by simp
    moreover have "span_key n \<le> span_key m" if "covers d u line col m" for m
      using sort_key_Cons_minimal [OF Cons] that in_cs by blast
    ultimately show ?thesis unfolding find Cons list.case option.case by blast
  qed
qed

definition nested_db :: Db where
  "nested_db = empty_db\<lparr>db_nodes := [
     (row_at (Some 1) ''m.A'' ''u'' ''A'' 1 ''a'')\<lparr>n_range := \<lparr>start_line = 1, start_col = 0, end_line = 9, end_col = 0\<rparr>\<rparr>,
     row_at (Some 2) ''m.A.f'' ''u'' ''f'' 4 ''b''], db_node_seq := 2\<rparr>"

theorem find_node_by_position_innermost_witness:
  "(case find_node_by_position table_order nested_db ''u'' 4 3 of
      None \<Rightarrow> \<not> (\<exists>n. covers nested_db ''u'' 4 3 n)
    | Some n \<Rightarrow> covers nested_db ''u'' 4 3 n \<and>
        (\<forall>m. covers nested_db ''u'' 4 3 m \<longrightarrow> span_key n \<le> span_key m))"
  by (rule find_node_by_position_innermost [OF row_order_ok_table_order])

section \<open>Edges\<close>

lemma get_neighbors_iff:
  assumes "row_order_ok ro"
  shows "(n, s) \<in> set (get_neighbors ro d i t dir) \<longleftrightarrow> n \<in> set (db_nodes d) \<and> n_valid n \<and>
    (\<exists>e \<in> set (db_edges d). e_valid e \<and> e_type e = t \<and> edge_anchor dir e = i \<and>
       n_id n = Some (edge_end dir e) \<and> e_site e = s)"
  unfolding get_neighbors_def using row_order_set(2) [OF assms]
  by (auto simp: neighbor_rows_def)

lemma upsert_edge_result:
  assumes wf: "wf_db d" and up: "upsert_edge e d = Inr (i, d')"
  shows "db_nodes d' = db_nodes d \<and> (\<exists>f \<in> set (db_edges d'). e_id f = Some i \<and> edge_key f = edge_key e \<and>
    e_valid f = e_valid e \<and> e_site f = e_site e)"
  using up
proof (cases rule: upsert_edge_cases)
  case (reactivate f)
  let ?f = "f\<lparr>e_valid := e_valid e, e_site := e_site e\<rparr>"
  have "?f \<in> set (db_edges d')" using reactivate by (force simp: image_iff)
  then show ?thesis using reactivate by (intro conjI bexI [of _ ?f]) (auto simp: edge_key_def)
next
  case insert
  then show ?thesis by (auto simp: edge_key_def)
qed

text \<open>what is written is read back. Storing a valid edge between two valid rows succeeds,
  makes each end a neighbour of the other with the stored site, and storing it again changes
  nothing and returns the same id: re-indexing never duplicates a relation, not even one
  without a site.\<close>

theorem upsert_edge_roundtrip:
  assumes ro: "row_order_ok ro" and wf: "wf_db d" and ty: "e_type e \<in> set edge_types"
    and val: "e_valid e"
    and m: "m \<in> set (db_nodes d)" "n_id m = Some (e_src e)" "n_valid m"
    and n: "n \<in> set (db_nodes d)" "n_id n = Some (e_dst e)" "n_valid n"
  shows "\<exists>i d'. upsert_edge e d = Inr (i, d') \<and>
    (n, e_site e) \<in> set (get_neighbors ro d' (e_src e) (e_type e) Outgoing) \<and>
    (m, e_site e) \<in> set (get_neighbors ro d' (e_dst e) (e_type e) Incoming) \<and>
    upsert_edge e d' = Inr (i, d')"
proof -
  have ex: "Some (e_src e) \<in> node_ids d" "Some (e_dst e) \<in> node_ids d"
    using m n by (auto simp: node_ids_iff)
  obtain i d' where up: "upsert_edge e d = Inr (i, d')"
  proof (cases "List.find (same_edge e) (db_edges d)")
    case None
    with that ex ty show ?thesis by (simp add: upsert_edge_def Let_def node_exists_iff)
  next
    case (Some f)
    then have "f \<in> set (db_edges d)" by (auto dest: find_SomeD)
    then obtain k where "e_id f = Some k" using wf by (auto simp: wf_db_def wf_edges_def rows_ok_def)
    with that Some show ?thesis by (simp add: upsert_edge_def)
  qed
  have wf': "wf_db d'" using wf up by (rule upsert_edge_wf)
  obtain f where nodes: "db_nodes d' = db_nodes d" and f: "f \<in> set (db_edges d')" "e_id f = Some i"
      "edge_key f = edge_key e" "e_valid f = e_valid e" "e_site f = e_site e"
    using upsert_edge_result [OF wf up] by blast
  then have ends: "e_src f = e_src e" "e_dst f = e_dst e" "e_type f = e_type e" by (simp_all add: edge_key_def)
  have "(n, e_site e) \<in> set (get_neighbors ro d' (e_src e) (e_type e) Outgoing)"
    "(m, e_site e) \<in> set (get_neighbors ro d' (e_dst e) (e_type e) Incoming)"
    using m n f ends val nodes unfolding get_neighbors_iff [OF ro]
    by (auto intro!: bexI [of _ f] simp: edge_end_def edge_anchor_def)
  moreover have "upsert_edge e d' = Inr (i, d')"
  proof -
    have "List.find (same_edge e) (db_edges d') = Some f"
      using wf_edge_eqI(2) [OF wf'] f(1,3) by (intro find_unique) (auto simp: same_edge_iff)
    moreover have "(if e_id g = Some i then g\<lparr>e_valid := e_valid e, e_site := e_site e\<rparr> else g) = g"
      if "g \<in> set (db_edges d')" for g
    proof (cases "e_id g = Some i")
      case True
      then have "g = f" using wf_edge_eqI(1) [OF wf' that f(1)] f(2) by simp
      then show ?thesis using f(4,5) by simp
    qed simp
    then have "map (\<lambda>g. if e_id g = Some i then g\<lparr>e_valid := e_valid e, e_site := e_site e\<rparr> else g)
        (db_edges d') = db_edges d'" by (rule map_idI)
    ultimately show ?thesis using f(2) by (simp add: upsert_edge_def)
  qed
  ultimately show ?thesis using up by blast
qed

lemma nested_db_wf: "wf_db nested_db"
  by (simp add: nested_db_def empty_db_def row_at_def line_range_def wf_db_def wf_nodes_def
      wf_edges_def wf_caches_def rows_ok_def node_ids_def phys_key_def)

theorem upsert_edge_roundtrip_witness:
  "\<exists>i d'. upsert_edge \<lparr>e_id = None, e_src = 1, e_dst = 2, e_type = ''calls'', e_site = None, e_valid = True\<rparr> nested_db
      = Inr (i, d') \<and>
    (db_nodes nested_db ! 1, None) \<in> set (get_neighbors table_order d' 1 ''calls'' Outgoing)"
proof -
  show ?thesis
    using upsert_edge_roundtrip [OF row_order_ok_table_order nested_db_wf,
        of "\<lparr>e_id = None, e_src = 1, e_dst = 2, e_type = ''calls'', e_site = None, e_valid = True\<rparr>"
          "db_nodes nested_db ! 0" "db_nodes nested_db ! 1"]
    by (auto simp: nested_db_def row_at_def edge_types_def)
qed

end
