(* ===== verification/Reconcile_Match.thy ===== *)
theory Reconcile_Match
  imports Graph_Store
begin

text \<open>
  Passes 1 and 2 of \<open>reconcile_file_symbols_tx\<close> (\<open>src/graph/db.rs\<close>): which of the file's
  old rows each incoming symbol claims. Pass 1 claims by equal fqn, pass 2 assigns the
  scored rename candidates greedily, best first. The state is the code's pair of vectors
  \<open>old_used\<close> and \<open>assigned\<close>.
\<close>

section \<open>Fingerprints\<close>

text \<open>
  \<open>DefaultHasher\<close> is a parameter: a function of the sequence of values hashed, whose
  algorithm the standard library leaves unspecified.
\<close>

datatype HashItem = HInt int | HU32 u32 | HStr string | HOpt "string option" | HSpan "int \<times> int \<times> int \<times> int"
  | HBytes string

type_synonym Hasher = "HashItem list \<Rightarrow> u64"

definition span :: "Range \<Rightarrow> int \<times> int \<times> int \<times> int" where
  "span r = (start_line r, start_col r, end_line r, end_col r)"

definition body_fingerprint :: "Hasher \<Rightarrow> int \<Rightarrow> string option \<Rightarrow> Range \<Rightarrow> Range \<Rightarrow> u64" where
  "body_fingerprint H kind detail rng sel =
     H [HInt kind, HOpt detail, HSpan (span rng), HSpan (span sel)]"

definition container_prefix :: "string \<Rightarrow> string" where
  "container_prefix f = (case rsplit_once (CHR ''.'') f of Some (p, _) \<Rightarrow> p | None \<Rightarrow> [])"

section \<open>The matching state\<close>

type_synonym MatchState = "bool list \<times> nat option list"

definition match_init :: "Node list \<Rightarrow> ReconcileSymbol list \<Rightarrow> MatchState" where
  "match_init olds syms = (replicate (length olds) False, replicate (length syms) None)"

text \<open>The two assignments \<open>assigned[i] = Some(j); old_used[j] = true\<close>.\<close>

definition claim :: "nat \<Rightarrow> nat \<Rightarrow> MatchState \<Rightarrow> MatchState" where
  "claim i j st = ((fst st)[j := True], (snd st)[i := Some j])"

section \<open>Pass 1: equal fqn\<close>

definition pass1_step :: "Node list \<Rightarrow> ReconcileSymbol list \<Rightarrow> nat \<Rightarrow> MatchState \<Rightarrow> MatchState" where
  "pass1_step olds syms i st =
     (case List.find (\<lambda>j. \<not> fst st ! j \<and> n_fqn (olds ! j) = rs_fqn (syms ! i)) [0..<length olds] of
        Some j \<Rightarrow> claim i j st
      | None \<Rightarrow> st)"

definition pass1 :: "Node list \<Rightarrow> ReconcileSymbol list \<Rightarrow> MatchState \<Rightarrow> MatchState" where
  "pass1 olds syms st = fold (pass1_step olds syms) [0..<length syms] st"

section \<open>Pass 2: rename candidates\<close>

record RenameCandidate =
  rc_tier :: nat
  rc_line_drift :: int
  rc_old_idx :: nat
  rc_sym_idx :: nat

definition RENAME_MAX_LINE_DRIFT :: int where
  "RENAME_MAX_LINE_DRIFT = 3"

definition line_drift :: "Node \<Rightarrow> ReconcileSymbol \<Rightarrow> int" where
  "line_drift old s = \<bar>start_line (n_range old) - start_line (rs_range s)\<bar>"

definition rename_ok :: "Node \<Rightarrow> ReconcileSymbol \<Rightarrow> bool" where
  "rename_ok old s \<longleftrightarrow> n_kind old = rs_kind s \<and>
     container_prefix (n_fqn old) = container_prefix (rs_fqn s) \<and>
     line_drift old s \<le> RENAME_MAX_LINE_DRIFT"

definition rename_tier :: "Hasher \<Rightarrow> Node \<Rightarrow> ReconcileSymbol \<Rightarrow> nat" where
  "rename_tier H old s =
     (if body_fingerprint H (n_kind old) (n_detail old) (n_range old) (n_sel old)
       = body_fingerprint H (rs_kind s) (rs_detail s) (rs_range s) (rs_sel s)
      then 1 else 0)"

definition candidate :: "Hasher \<Rightarrow> Node list \<Rightarrow> ReconcileSymbol list \<Rightarrow> nat \<Rightarrow> nat \<Rightarrow> RenameCandidate" where
  "candidate H olds syms i j =
     \<lparr>rc_tier = rename_tier H (olds ! j) (syms ! i),
      rc_line_drift = line_drift (olds ! j) (syms ! i), rc_old_idx = j, rc_sym_idx = i\<rparr>"

definition candidates ::
  "Hasher \<Rightarrow> Node list \<Rightarrow> ReconcileSymbol list \<Rightarrow> MatchState \<Rightarrow> RenameCandidate list" where
  "candidates H olds syms st =
     concat (map (\<lambda>i. if snd st ! i \<noteq> None then []
         else map (candidate H olds syms i)
                (filter (\<lambda>j. \<not> fst st ! j \<and> rename_ok (olds ! j) (syms ! i)) [0..<length olds]))
       [0..<length syms])"

text \<open>The comparator: higher tier first, then smaller drift, then smaller old index.\<close>

definition candidate_key :: "RenameCandidate \<Rightarrow> int \<times> int \<times> nat" where
  "candidate_key c = (- int (rc_tier c), rc_line_drift c, rc_old_idx c)"

definition pass2_step :: "RenameCandidate \<Rightarrow> MatchState \<Rightarrow> MatchState" where
  "pass2_step c st =
     (if fst st ! rc_old_idx c \<or> snd st ! rc_sym_idx c \<noteq> None then st
      else claim (rc_sym_idx c) (rc_old_idx c) st)"

definition pass2 :: "Hasher \<Rightarrow> Node list \<Rightarrow> ReconcileSymbol list \<Rightarrow> MatchState \<Rightarrow> MatchState" where
  "pass2 H olds syms st = fold pass2_step (sort_key candidate_key (candidates H olds syms st)) st"

definition match_symbols :: "Hasher \<Rightarrow> Node list \<Rightarrow> ReconcileSymbol list \<Rightarrow> MatchState" where
  "match_symbols H olds syms = pass2 H olds syms (pass1 olds syms (match_init olds syms))"

section \<open>The invariant of the matching state\<close>

text \<open>
  Lengths, claimed indices in range, a row claimed by at most one symbol, and \<open>old_used\<close>
  exactly the set of claimed rows.
\<close>

definition match_inv :: "nat \<Rightarrow> nat \<Rightarrow> MatchState \<Rightarrow> bool" where
  "match_inv no ns st \<longleftrightarrow>
     length (fst st) = no \<and> length (snd st) = ns \<and>
     (\<forall>i < ns. \<forall>j. snd st ! i = Some j \<longrightarrow> j < no) \<and>
     (\<forall>i < ns. \<forall>i' < ns. \<forall>j. snd st ! i = Some j \<longrightarrow> snd st ! i' = Some j \<longrightarrow> i = i') \<and>
     (\<forall>j < no. fst st ! j \<longleftrightarrow> (\<exists>i < ns. snd st ! i = Some j))"

text \<open>Every claim satisfies \<open>Q\<close>.\<close>

definition claims_ok :: "(nat \<Rightarrow> nat \<Rightarrow> bool) \<Rightarrow> MatchState \<Rightarrow> bool" where
  "claims_ok Q st \<longleftrightarrow> (\<forall>i < length (snd st). \<forall>j. snd st ! i = Some j \<longrightarrow> Q i j)"

text \<open>\<open>st'\<close> has all the claims of \<open>st\<close>.\<close>

definition extends :: "MatchState \<Rightarrow> MatchState \<Rightarrow> bool" where
  "extends st st' \<longleftrightarrow>
     (\<forall>i < length (snd st). \<forall>j. snd st ! i = Some j \<longrightarrow> snd st' ! i = Some j) \<and>
     (\<forall>j < length (fst st). fst st ! j \<longrightarrow> fst st' ! j) \<and>
     length (snd st') = length (snd st) \<and> length (fst st') = length (fst st)"

lemma match_inv_init: "match_inv (length olds) (length syms) (match_init olds syms)"
  by (simp add: match_inv_def match_init_def)

lemma match_inv_claim:
  assumes inv: "match_inv no ns st" and i: "i < ns" "snd st ! i = None" and j: "j < no" "\<not> fst st ! j"
  shows "match_inv no ns (claim i j st)"
proof -
  have len: "length (fst st) = no" "length (snd st) = ns" using inv by (auto simp: match_inv_def)
  have unused: "snd st ! k \<noteq> Some j" if "k < ns" for k
    using inv j that by (auto simp: match_inv_def)
  have inj: "k = k'" if "k < ns" "k' < ns" "snd st ! k = Some l" "snd st ! k' = Some l" for k k' l
    using inv that by (auto simp: match_inv_def)
  have 1: "\<forall>k < ns. \<forall>l. (snd st)[i := Some j] ! k = Some l \<longrightarrow> l < no"
    using inv i j len by (auto simp: match_inv_def nth_list_update)
  have 2: "\<forall>k < ns. \<forall>k' < ns. \<forall>l. (snd st)[i := Some j] ! k = Some l \<longrightarrow>
      (snd st)[i := Some j] ! k' = Some l \<longrightarrow> k = k'"
    using i len inj unused by (auto simp: nth_list_update)
  have 3: "(fst st)[j := True] ! l \<longleftrightarrow> (\<exists>k < ns. (snd st)[i := Some j] ! k = Some l)" if l: "l < no" for l
  proof (cases "l = j")
    case True
    with i j len show ?thesis by (auto simp: nth_list_update)
  next
    case False
    have "fst st ! l \<longleftrightarrow> (\<exists>k < ns. snd st ! k = Some l)" using inv l by (simp add: match_inv_def)
    also have "\<dots> \<longleftrightarrow> (\<exists>k < ns. (snd st)[i := Some j] ! k = Some l)"
      using False i len by (metis nth_list_update_eq nth_list_update_neq option.distinct(1) option.inject)
    finally show ?thesis using False by simp
  qed
  show ?thesis using 1 2 3 len by (simp add: match_inv_def claim_def)
qed

lemma extends_refl [simp]: "extends st st"
  by (simp add: extends_def)

lemma extends_trans: "extends a b \<Longrightarrow> extends b c \<Longrightarrow> extends a c"
  by (simp add: extends_def)

lemma list_update_True_mono: "xs ! l \<Longrightarrow> xs[j := True] ! l"
  by (cases "j < length xs") (auto simp: nth_list_update list_update_beyond)

lemma extends_claim:
  assumes "i < length (snd st)" "snd st ! i = None"
  shows "extends st (claim i j st)"
proof -
  have "(fst st)[j := True] ! l" if "fst st ! l" for l
    using that by (rule list_update_True_mono)
  moreover have "(snd st)[i := Some j] ! k = Some l" if "snd st ! k = Some l" for k l
    using that assms(2) by (cases "k = i") auto
  ultimately show ?thesis by (simp add: extends_def claim_def)
qed

lemma claims_ok_claim:
  assumes "claims_ok Q st" and "Q i j"
  shows "claims_ok Q (claim i j st)"
proof -
  have "Q k l" if "k < length (snd st)" "(snd st)[i := Some j] ! k = Some l" for k l
    using assms that by (cases "k = i") (auto simp: claims_ok_def)
  then show ?thesis by (simp add: claims_ok_def claim_def)
qed

lemma claims_ok_mono: "claims_ok P st \<Longrightarrow> (\<And>i j. P i j \<Longrightarrow> Q i j) \<Longrightarrow> claims_ok Q st"
  by (simp add: claims_ok_def)

section \<open>Pass 1 claims exactly the equal names\<close>

abbreviation same_fqn :: "Node list \<Rightarrow> ReconcileSymbol list \<Rightarrow> nat \<Rightarrow> nat \<Rightarrow> bool" where
  "same_fqn olds syms i j \<equiv> n_fqn (olds ! j) = rs_fqn (syms ! i)"

text \<open>What holds before symbol \<open>k\<close> is processed.\<close>

definition pass1_inv :: "Node list \<Rightarrow> ReconcileSymbol list \<Rightarrow> nat \<Rightarrow> MatchState \<Rightarrow> bool" where
  "pass1_inv olds syms k st \<longleftrightarrow>
     match_inv (length olds) (length syms) st \<and> claims_ok (same_fqn olds syms) st \<and>
     (\<forall>i. k \<le> i \<longrightarrow> i < length syms \<longrightarrow> snd st ! i = None) \<and>
     (\<forall>i < k. snd st ! i = None \<longrightarrow>
        (\<forall>j < length olds. same_fqn olds syms i j \<longrightarrow> fst st ! j))"

lemma pass1_step_inv:
  assumes inv: "pass1_inv olds syms k st" and k: "k < length syms"
  shows "pass1_inv olds syms (Suc k) (pass1_step olds syms k st)"
proof (cases "List.find (\<lambda>j. \<not> fst st ! j \<and> same_fqn olds syms k j) [0..<length olds]")
  case None
  then have all: "\<forall>j < length olds. same_fqn olds syms k j \<longrightarrow> fst st ! j"
    by (auto simp: find_None)
  show ?thesis using inv all None by (auto simp: pass1_inv_def pass1_step_def less_Suc_eq)
next
  case (Some j)
  then have j: "j < length olds" "\<not> fst st ! j" "same_fqn olds syms k j"
    by (auto dest!: find_SomeD)
  let ?st = "claim k j st"
  have len: "length (fst st) = length olds" "length (snd st) = length syms"
    and kn: "snd st ! k = None"
    using inv k by (auto simp: pass1_inv_def match_inv_def)
  have m: "match_inv (length olds) (length syms) ?st"
    using inv k kn j by (intro match_inv_claim) (auto simp: pass1_inv_def)
  have c: "claims_ok (same_fqn olds syms) ?st"
    using inv j by (intro claims_ok_claim) (auto simp: pass1_inv_def)
  have used: "fst ?st ! l" if "fst st ! l" for l
    using that by (simp add: claim_def list_update_True_mono)
  have nk: "snd ?st ! i = snd st ! i" if "i \<noteq> k" for i
    using that by (simp add: claim_def)
  have sk: "snd ?st ! k = Some j" using k len by (simp add: claim_def)
  have r: "\<forall>i. Suc k \<le> i \<longrightarrow> i < length syms \<longrightarrow> snd ?st ! i = None"
    using inv nk by (simp add: pass1_inv_def)
  have "\<forall>i < Suc k. snd ?st ! i = None \<longrightarrow>
      (\<forall>j < length olds. same_fqn olds syms i j \<longrightarrow> fst ?st ! j)"
  proof (intro allI impI)
    fix i l assume i: "i < Suc k" "snd ?st ! i = None" and l: "l < length olds" "same_fqn olds syms i l"
    with sk have "i < k" by (metis less_Suc_eq option.distinct(1))
    with i nk [of i] l inv have "fst st ! l" by (simp add: pass1_inv_def)
    then show "fst ?st ! l" using l by (intro used)
  qed
  with m c r Some show ?thesis by (simp add: pass1_inv_def pass1_step_def)
qed

lemma pass1_inv_upto:
  assumes "pass1_inv olds syms 0 st" "k \<le> length syms"
  shows "pass1_inv olds syms k (fold (pass1_step olds syms) [0..<k] st)"
  using assms(2)
proof (induction k)
  case 0
  with assms(1) show ?case by simp
next
  case (Suc k)
  then show ?case by (simp add: pass1_step_inv)
qed

lemma pass1_init: "pass1_inv olds syms (length syms) (pass1 olds syms (match_init olds syms))"
proof -
  have "pass1_inv olds syms 0 (match_init olds syms)"
    using match_inv_init [of olds syms]
    by (simp add: pass1_inv_def claims_ok_def match_init_def)
  then show ?thesis unfolding pass1_def by (rule pass1_inv_upto) simp
qed

text \<open>With no duplicate names in the batch every row whose name is kept is claimed by it.\<close>

lemma pass1_exact:
  assumes "distinct (map rs_fqn syms)" "distinct (map n_fqn olds)"
    and "i < length syms" "j < length olds" "same_fqn olds syms i j"
  shows "snd (pass1 olds syms (match_init olds syms)) ! i = Some j"
proof -
  let ?st = "pass1 olds syms (match_init olds syms)"
  have inv: "pass1_inv olds syms (length syms) ?st" by (rule pass1_init)
  have len: "length (snd ?st) = length syms" using inv by (simp add: pass1_inv_def match_inv_def)
  have cl: "same_fqn olds syms k l" if "snd ?st ! k = Some l" "k < length syms" for k l
    using inv that len by (simp add: pass1_inv_def claims_ok_def)
  have rng: "l < length olds" if "snd ?st ! k = Some l" "k < length syms" for k l
    using inv that by (auto simp: pass1_inv_def match_inv_def)
  show ?thesis
  proof (cases "snd ?st ! i")
    case None
    then have "fst ?st ! j" using inv assms by (simp add: pass1_inv_def)
    then obtain i' where i': "i' < length syms" "snd ?st ! i' = Some j"
      using inv assms(4) by (auto simp: pass1_inv_def match_inv_def)
    then have "rs_fqn (syms ! i') = rs_fqn (syms ! i)" using cl [OF i'(2,1)] assms(5) by simp
    then have "i' = i" using assms(1,3) i'(1) by (simp add: distinct_conv_nth) metis
    with i' show ?thesis by simp
  next
    case (Some l)
    then have "n_fqn (olds ! l) = n_fqn (olds ! j)" "l < length olds"
      using cl [OF Some assms(3)] assms(5) rng [OF Some assms(3)] by simp_all
    then have "l = j" using assms(2,4) by (simp add: distinct_conv_nth) metis
    with Some show ?thesis by simp
  qed
qed

section \<open>Pass 2 is greedy\<close>

lemma candidate_sel [simp]:
  "rc_old_idx (candidate H olds syms i j) = j" "rc_sym_idx (candidate H olds syms i j) = i"
  by (simp_all add: candidate_def)

lemma in_candidates:
  "c \<in> set (candidates H olds syms st) \<longleftrightarrow>
     (\<exists>i j. i < length syms \<and> j < length olds \<and> snd st ! i = None \<and> \<not> fst st ! j \<and>
        rename_ok (olds ! j) (syms ! i) \<and> c = candidate H olds syms i j)"
  by (auto simp: candidates_def)

lemma candidate_rename_ok:
  "c \<in> set (candidates H olds syms st) \<Longrightarrow> rename_ok (olds ! rc_old_idx c) (syms ! rc_sym_idx c)"
  by (auto simp: in_candidates)

definition claimed :: "MatchState \<Rightarrow> RenameCandidate \<Rightarrow> bool" where
  "claimed st c \<longleftrightarrow> snd st ! rc_sym_idx c = Some (rc_old_idx c)"

text \<open>A candidate that competes with \<open>c\<close>: the same row or the same symbol.\<close>

definition competes :: "RenameCandidate \<Rightarrow> RenameCandidate \<Rightarrow> bool" where
  "competes c c' \<longleftrightarrow> rc_sym_idx c' = rc_sym_idx c \<or> rc_old_idx c' = rc_old_idx c"

text \<open>
  What holds after the candidates \<open>cs\<close> have been processed, starting from \<open>st0\<close>: every
  claim is one of \<open>st0\<close> or a processed candidate, and every processed candidate is claimed
  or has lost to a competing claimed one processed no later.
\<close>

definition pass2_inv :: "MatchState \<Rightarrow> RenameCandidate list \<Rightarrow> MatchState \<Rightarrow> bool" where
  "pass2_inv st0 cs st \<longleftrightarrow>
     match_inv (length (fst st0)) (length (snd st0)) st \<and> extends st0 st \<and>
     claims_ok (\<lambda>i j. snd st0 ! i = Some j \<or>
        (\<exists>c \<in> set cs. rc_sym_idx c = i \<and> rc_old_idx c = j)) st \<and>
     (\<forall>c \<in> set cs. \<exists>c' \<in> set cs. claimed st c' \<and> competes c c' \<and> candidate_key c' \<le> candidate_key c)"

text \<open>The candidates are unclaimed pairs of the state they are computed from.\<close>

definition fresh_candidate :: "MatchState \<Rightarrow> RenameCandidate \<Rightarrow> bool" where
  "fresh_candidate st c \<longleftrightarrow> rc_sym_idx c < length (snd st) \<and> rc_old_idx c < length (fst st) \<and>
     snd st ! rc_sym_idx c = None \<and> \<not> fst st ! rc_old_idx c"

lemma pass2_inv_step:
  assumes inv0: "match_inv (length (fst st0)) (length (snd st0)) st0"
    and inv: "pass2_inv st0 cs st" and fresh: "\<forall>c \<in> set (cs @ [c]). fresh_candidate st0 c"
    and below: "\<forall>c' \<in> set cs. candidate_key c' \<le> candidate_key c"
  shows "pass2_inv st0 (cs @ [c]) (pass2_step c st)"
proof -
  have m: "match_inv (length (fst st0)) (length (snd st0)) st" and ext: "extends st0 st"
    and cl: "claims_ok (\<lambda>i j. snd st0 ! i = Some j \<or>
        (\<exists>c \<in> set cs. rc_sym_idx c = i \<and> rc_old_idx c = j)) st"
    and beat: "\<forall>c \<in> set cs. \<exists>c' \<in> set cs. claimed st c' \<and> competes c c' \<and> candidate_key c' \<le> candidate_key c"
    using inv by (simp_all add: pass2_inv_def)
  have fc: "rc_sym_idx c < length (snd st0)" "rc_old_idx c < length (fst st0)"
    "snd st0 ! rc_sym_idx c = None" "\<not> fst st0 ! rc_old_idx c"
    using fresh by (simp_all add: fresh_candidate_def)
  have m0: "(\<exists>i < length (snd st0). snd st ! i = Some j) = fst st ! j" if "j < length (fst st0)" for j
    using m that by (simp add: match_inv_def)
  have len: "length (snd st) = length (snd st0)" using m by (simp add: match_inv_def)
  show ?thesis
  proof (cases "fst st ! rc_old_idx c \<or> snd st ! rc_sym_idx c \<noteq> None")
    case True
    obtain i j where ij: "i < length (snd st0)" "snd st ! i = Some j"
      "i = rc_sym_idx c \<or> j = rc_old_idx c"
      using True m0 [OF fc(2)] fc(1) by auto
    have "snd st0 ! i \<noteq> Some j"
    proof
      assume h: "snd st0 ! i = Some j"
      with ij fc have "j = rc_old_idx c" by auto
      moreover have "fst st0 ! j" if "j = rc_old_idx c"
        using h that ij(1) fc(2) inv0 by (auto simp: match_inv_def)
      ultimately show False using fc by simp
    qed
    then obtain c' where c': "c' \<in> set cs" "rc_sym_idx c' = i" "rc_old_idx c' = j"
      using cl ij len by (auto simp: claims_ok_def)
    then have "claimed st c' \<and> competes c c' \<and> candidate_key c' \<le> candidate_key c"
      using ij below by (auto simp: claimed_def competes_def)
    then have "\<forall>x \<in> set (cs @ [c]). \<exists>c' \<in> set (cs @ [c]). claimed st c' \<and> competes x c' \<and>
        candidate_key c' \<le> candidate_key x"
      using beat c'(1) by auto
    moreover have "pass2_step c st = st" using True by (simp add: pass2_step_def)
    ultimately show ?thesis using m ext cl by (auto simp: pass2_inv_def elim!: claims_ok_mono)
  next
    case False
    let ?st = "claim (rc_sym_idx c) (rc_old_idx c) st"
    have step: "pass2_step c st = ?st" using False by (simp add: pass2_step_def)
    have "match_inv (length (fst st0)) (length (snd st0)) ?st"
      using m fc False by (intro match_inv_claim) auto
    moreover have e2: "extends st ?st" using False fc len by (intro extends_claim) auto
    moreover have "extends st0 ?st" using ext e2 by (rule extends_trans)
    moreover have "claims_ok (\<lambda>i j. snd st0 ! i = Some j \<or>
        (\<exists>c \<in> set (cs @ [c]). rc_sym_idx c = i \<and> rc_old_idx c = j)) ?st"
      using cl by (intro claims_ok_claim) (auto elim!: claims_ok_mono)
    moreover have "claimed ?st c" using fc len by (simp add: claimed_def claim_def)
    moreover have "claimed ?st x" if "claimed st x" "x \<in> set cs" for x
      using that e2 fresh len by (auto simp: claimed_def extends_def fresh_candidate_def)
    ultimately show ?thesis unfolding step pass2_inv_def using beat
      by (fastforce simp: competes_def)
  qed
qed

lemma pass2_inv_fold:
  assumes inv0: "match_inv (length (fst st0)) (length (snd st0)) st0"
    and "sorted (map candidate_key cs)" "\<forall>c \<in> set cs. fresh_candidate st0 c"
  shows "pass2_inv st0 cs (fold pass2_step cs st0)"
  using assms(2,3)
proof (induction cs rule: rev_induct)
  case Nil
  then show ?case using inv0 by (simp add: pass2_inv_def claims_ok_def)
next
  case (snoc c cs)
  then have "pass2_inv st0 cs (fold pass2_step cs st0)"
    and "\<forall>c' \<in> set cs. candidate_key c' \<le> candidate_key c"
    by (auto simp: sorted_append)
  then show ?case using inv0 snoc.prems(2) by (simp add: pass2_inv_step)
qed

lemma pass2_inv_pass2:
  assumes "match_inv (length olds) (length syms) st0"
  shows "pass2_inv st0 (sort_key candidate_key (candidates H olds syms st0)) (pass2 H olds syms st0)"
proof -
  have len: "length (fst st0) = length olds" "length (snd st0) = length syms"
    using assms by (simp_all add: match_inv_def)
  then show ?thesis unfolding pass2_def
    using assms by (intro pass2_inv_fold) (auto simp: in_candidates fresh_candidate_def)
qed

section \<open>The result of the matching\<close>

lemma match_symbols_inv: "match_inv (length olds) (length syms) (match_symbols H olds syms)"
proof -
  let ?st0 = "pass1 olds syms (match_init olds syms)"
  have m0: "match_inv (length olds) (length syms) ?st0"
    using pass1_init by (simp add: pass1_inv_def)
  moreover have "length (fst ?st0) = length olds" "length (snd ?st0) = length syms"
    using m0 by (simp_all add: match_inv_def)
  ultimately show ?thesis
    using pass2_inv_pass2 [OF m0, of H] by (simp add: pass2_inv_def match_symbols_def)
qed

lemma match_symbols_length:
  "length (fst (match_symbols H olds syms)) = length olds"
  "length (snd (match_symbols H olds syms)) = length syms"
  using match_symbols_inv [of olds syms H] by (simp_all add: match_inv_def)

lemma match_symbols_extends:
  "extends (pass1 olds syms (match_init olds syms)) (match_symbols H olds syms)"
  using pass2_inv_pass2 [of olds syms "pass1 olds syms (match_init olds syms)" H] pass1_init
  by (auto simp: pass2_inv_def match_symbols_def pass1_inv_def)

lemma match_symbols_claims:
  assumes "i < length syms" "snd (match_symbols H olds syms) ! i = Some j"
  shows "j < length olds" and "same_fqn olds syms i j \<or> rename_ok (olds ! j) (syms ! i)"
proof -
  let ?st0 = "pass1 olds syms (match_init olds syms)"
  have m0: "match_inv (length olds) (length syms) ?st0" and c0: "claims_ok (same_fqn olds syms) ?st0"
    using pass1_init by (simp_all add: pass1_inv_def)
  have len: "length (snd ?st0) = length syms" using m0 by (simp add: match_inv_def)
  show "j < length olds" using match_symbols_inv [of olds syms H] assms by (auto simp: match_inv_def)
  have "claims_ok (\<lambda>i j. snd ?st0 ! i = Some j \<or>
        (\<exists>c \<in> set (sort_key candidate_key (candidates H olds syms ?st0)).
           rc_sym_idx c = i \<and> rc_old_idx c = j)) (match_symbols H olds syms)"
    using pass2_inv_pass2 [OF m0, of H] by (simp add: pass2_inv_def match_symbols_def)
  then have "snd ?st0 ! i = Some j \<or> rename_ok (olds ! j) (syms ! i)"
    using assms match_symbols_length(2) [of H olds syms]
    by (auto simp: claims_ok_def dest!: candidate_rename_ok)
  then show "same_fqn olds syms i j \<or> rename_ok (olds ! j) (syms ! i)"
    using c0 assms(1) len by (auto simp: claims_ok_def)
qed

text \<open>C10: Matching is sound. A symbol claims an existing row, two symbols never claim the same
  one, and a claim is either by equal name or a rename candidate: same kind, same container
  prefix, at most three lines away.\<close>

theorem match_sound:
  assumes "i < length syms" and "snd (match_symbols H olds syms) ! i = Some j"
  shows "j < length olds \<and>
    (n_fqn (olds ! j) = rs_fqn (syms ! i) \<or>
     n_kind (olds ! j) = rs_kind (syms ! i) \<and>
     container_prefix (n_fqn (olds ! j)) = container_prefix (rs_fqn (syms ! i)) \<and>
     \<bar>start_line (n_range (olds ! j)) - start_line (rs_range (syms ! i))\<bar> \<le> 3) \<and>
    (\<forall>i' < length syms. i' \<noteq> i \<longrightarrow> snd (match_symbols H olds syms) ! i' \<noteq> Some j)"
proof -
  have "j < length olds" "same_fqn olds syms i j \<or> rename_ok (olds ! j) (syms ! i)"
    using assms by (rule match_symbols_claims)+
  moreover have "i' = i" if "i' < length syms" "snd (match_symbols H olds syms) ! i' = Some j" for i'
    using match_symbols_inv [of olds syms H] assms that unfolding match_inv_def by metis
  ultimately show ?thesis
    unfolding rename_ok_def line_drift_def RENAME_MAX_LINE_DRIFT_def by metis
qed

text \<open>a name that survives keeps its row. When the batch has no duplicate name, the symbol
  whose name an old row carries is given exactly that row, whatever rename candidates
  compete for it.\<close>

theorem match_keeps_names:
  assumes "distinct (map rs_fqn syms)" and "distinct (map n_fqn olds)"
    and "i < length syms" and "j < length olds" and "n_fqn (olds ! j) = rs_fqn (syms ! i)"
  shows "snd (match_symbols H olds syms) ! i = Some j"
proof -
  have "snd (pass1 olds syms (match_init olds syms)) ! i = Some j"
    using assms by (rule pass1_exact)
  moreover have "length (snd (pass1 olds syms (match_init olds syms))) = length syms"
    using pass1_init [of olds syms] by (simp add: pass1_inv_def match_inv_def)
  ultimately show ?thesis
    using match_symbols_extends [of olds syms H] assms(3) by (auto simp: extends_def)
qed

text \<open>C19: The greedy assignment has no blocking pair. A rename candidate that pass 2 does not
  take has lost its row or its symbol to a candidate at least as good (higher tier, then
  smaller drift, then smaller row index); in particular no candidate pair is left with both
  sides unclaimed.\<close>

theorem match_no_blocking_pair:
  assumes "i < length syms" and "j < length olds" and "rename_ok (olds ! j) (syms ! i)"
    and "snd (pass1 olds syms (match_init olds syms)) ! i = None"
    and "\<not> fst (pass1 olds syms (match_init olds syms)) ! j"
  shows "\<exists>i' j'. i' < length syms \<and> snd (match_symbols H olds syms) ! i' = Some j' \<and>
    (i' = i \<or> j' = j) \<and> rename_ok (olds ! j') (syms ! i') \<and>
    candidate_key (candidate H olds syms i' j') \<le> candidate_key (candidate H olds syms i j)"
proof -
  let ?st0 = "pass1 olds syms (match_init olds syms)"
  let ?cs = "candidates H olds syms ?st0"
  have m0: "match_inv (length olds) (length syms) ?st0"
    using pass1_init by (simp add: pass1_inv_def)
  have "candidate H olds syms i j \<in> set ?cs"
    using assms by (auto simp: in_candidates)
  then obtain c where c: "c \<in> set ?cs" "claimed (match_symbols H olds syms) c"
      "competes (candidate H olds syms i j) c" "candidate_key c \<le> candidate_key (candidate H olds syms i j)"
    using pass2_inv_pass2 [OF m0, of H] by (auto simp: pass2_inv_def match_symbols_def)
  from c(1) obtain i' j' where "c = candidate H olds syms i' j'" "i' < length syms"
      "rename_ok (olds ! j') (syms ! i')"
    by (auto simp: in_candidates)
  with c(2-4) show ?thesis
    by (intro exI [of _ i'] exI [of _ j']) (auto simp: claimed_def competes_def)
qed

section \<open>A concrete matching\<close>

definition ex_olds :: "Node list" where
  "ex_olds = [row_at (Some 1) ''m.keep'' ''u'' ''keep'' 5 ''a'',
     row_at (Some 2) ''m.gone'' ''u'' ''gone'' 9 ''b'']"

definition ex_syms :: "ReconcileSymbol list" where
  "ex_syms = [symbol_at ''m.fresh'' ''fresh'' 10 ''c'' None, symbol_at ''m.keep'' ''keep'' 7 ''d'' None]"

definition const_hasher :: Hasher where
  "const_hasher = (\<lambda>_. 0)"

lemmas ex_match_defs = ex_olds_def ex_syms_def const_hasher_def match_symbols_def match_init_def
  row_at_def symbol_at_def line_range_def

lemma ex_match: "match_symbols const_hasher ex_olds ex_syms = ([True, True], [Some 1, Some 0])"
  by code_simp

lemma ex_pass1: "pass1 ex_olds ex_syms (match_init ex_olds ex_syms) = ([True, False], [None, Some 0])"
  by code_simp

theorem match_sound_witness:
  "(1::nat) < length ex_olds \<and> n_fqn (ex_olds ! 1) \<noteq> rs_fqn (ex_syms ! 0) \<and>
   \<bar>start_line (n_range (ex_olds ! 1)) - start_line (rs_range (ex_syms ! 0))\<bar> \<le> 3"
  using match_sound [of 0 ex_syms const_hasher ex_olds 1] unfolding ex_match
  by (simp add: ex_match_defs)

theorem match_keeps_names_witness:
  "snd (match_symbols const_hasher ex_olds ex_syms) ! 1 = Some 0"
  by (rule match_keeps_names) (simp_all add: ex_match_defs)

theorem match_no_blocking_pair_witness:
  "\<exists>i' j'. i' < length ex_syms \<and> snd (match_symbols const_hasher ex_olds ex_syms) ! i' = Some j' \<and>
    (i' = 0 \<or> j' = 1) \<and> rename_ok (ex_olds ! j') (ex_syms ! i') \<and>
    candidate_key (candidate const_hasher ex_olds ex_syms i' j')
      \<le> candidate_key (candidate const_hasher ex_olds ex_syms 0 1)"
proof (rule match_no_blocking_pair)
  show "rename_ok (ex_olds ! 1) (ex_syms ! 0)" by code_simp
qed (simp_all only: ex_pass1, simp_all add: ex_match_defs)

end
