(* ===== verification/Reconcile_Tx.thy ===== *)
theory Reconcile_Tx
  imports Reconcile_Match
begin

text \<open>
  The transaction of \<open>reconcile_file_symbols\<close> (\<open>src/graph/db.rs\<close>): parking of the physical
  keys, passes 3 to 5 around the matching of \<open>Reconcile_Match\<close>, and the commit or rollback.
  A failed statement returns \<open>Inl\<close>, and the caller then keeps the tables it had.
\<close>

section \<open>Before the passes\<close>

text \<open>The callees cache of every row of the file is dropped.\<close>

definition drop_callees :: "string \<Rightarrow> Db \<Rightarrow> Db" where
  "drop_callees u d = d\<lparr>db_callees :=
     (\<lambda>i. if (\<exists>n \<in> set (db_nodes d). n_id n = Some i \<and> n_uri n = u) then None else db_callees d i)\<rparr>"

text \<open>\<open>UPDATE nodes SET range_start_line = -id WHERE uri = ?1\<close>, row by row.\<close>

definition set_start_line :: "int \<Rightarrow> Node \<Rightarrow> Node" where
  "set_start_line l n = n\<lparr>n_range := (n_range n)\<lparr>start_line := l\<rparr>\<rparr>"

definition park_row :: "Node \<Rightarrow> Db \<Rightarrow> DbError + Db" where
  "park_row n d = (case n_id n of
      None \<Rightarrow> Inr d
    | Some i \<Rightarrow> update_node i (set_start_line (- i)) d)"

definition park_all :: "Node list \<Rightarrow> Db \<Rightarrow> DbError + Db" where
  "park_all olds d = foldR park_row olds d"

section \<open>Pass 3: apply each symbol\<close>

text \<open>The SET list of \<open>UPDATE_NODE_SQL\<close>.\<close>

definition set_symbol :: "ReconcileSymbol \<Rightarrow> int option \<Rightarrow> Node \<Rightarrow> Node" where
  "set_symbol s c n = n\<lparr>n_fqn := rs_fqn s, n_name := rs_name s, n_kind := rs_kind s,
     n_node_kind := rs_node_kind s, n_container_id := c, n_range := rs_range s,
     n_sel := rs_sel s, n_detail := rs_detail s, n_signature_hash := Some (rs_signature_hash s),
     n_valid := True, n_orphan := False\<rparr>"

text \<open>The node literal of the insert branch.\<close>

definition new_row :: "string \<Rightarrow> string \<Rightarrow> bool \<Rightarrow> ReconcileSymbol \<Rightarrow> int option \<Rightarrow> Node" where
  "new_row u lang ext s c = \<lparr>n_id = None, n_fqn = rs_fqn s, n_uri = u, n_name = rs_name s,
     n_language = lang, n_kind = rs_kind s, n_node_kind = rs_node_kind s, n_construct = None,
     n_container_id = c, n_range = rs_range s, n_sel = rs_sel s, n_signature = None,
     n_documentation = None, n_detail = rs_detail s,
     n_signature_hash = Some (rs_signature_hash s), n_valid = True, n_orphan = False,
     n_generation = 0, n_is_external = ext\<rparr>"

type_synonym Pass3State = "Db \<times> int option list \<times> ReconcileOutcome"

definition parent_id :: "int option list \<Rightarrow> ReconcileSymbol \<Rightarrow> DbError + int option" where
  "parent_id ids s = (case rs_parent s of
      None \<Rightarrow> Inr None
    | Some p \<Rightarrow> if p < length ids then
                  (case ids ! p of None \<Rightarrow> Inl ParentNotProcessed | Some c \<Rightarrow> Inr (Some c))
                else Inl IndexPanic)"

definition apply_claimed :: "ReconcileSymbol \<Rightarrow> int option \<Rightarrow> Node \<Rightarrow> Db \<Rightarrow> ReconcileOutcome \<Rightarrow>
    DbError + int \<times> Db \<times> ReconcileOutcome" where
  "apply_claimed s c old d oc = (case n_id old of
      None \<Rightarrow> Inl NodeWithoutId
    | Some i \<Rightarrow> bindR (update_node i (set_symbol s c) d) (\<lambda>d'. Inr
        (if n_fqn old \<noteq> rs_fqn s then
           (i, invalidate_edges i d', oc\<lparr>ro_renamed := ro_renamed oc + 1\<rparr>)
         else if n_signature_hash old \<noteq> Some (rs_signature_hash s) then
           (i, invalidate_edges i d', oc\<lparr>ro_updated := ro_updated oc + 1\<rparr>)
         else (i, d', oc\<lparr>ro_unchanged := ro_unchanged oc + 1\<rparr>))))"

definition apply_fresh :: "string \<Rightarrow> string \<Rightarrow> bool \<Rightarrow> ReconcileSymbol \<Rightarrow> int option \<Rightarrow> Db \<Rightarrow>
    ReconcileOutcome \<Rightarrow> DbError + int \<times> Db \<times> ReconcileOutcome" where
  "apply_fresh u lang ext s c d oc =
     bindR (upsert_node (new_row u lang ext s c) d)
       (\<lambda>(i, d'). Inr (i, d', oc\<lparr>ro_inserted := ro_inserted oc + 1\<rparr>))"

definition pass3_step :: "string \<Rightarrow> string \<Rightarrow> bool \<Rightarrow> Node list \<Rightarrow> ReconcileSymbol list \<Rightarrow>
    nat option list \<Rightarrow> nat \<Rightarrow> Pass3State \<Rightarrow> DbError + Pass3State" where
  "pass3_step u lang ext olds syms asg i = (\<lambda>(d, ids, oc).
     bindR (parent_id ids (syms ! i)) (\<lambda>c.
     bindR (case asg ! i of
              Some j \<Rightarrow> apply_claimed (syms ! i) c (olds ! j) d oc
            | None \<Rightarrow> apply_fresh u lang ext (syms ! i) c d oc)
       (\<lambda>(k, d', oc'). Inr (d', ids[i := Some k], oc'))))"

definition pass3 :: "string \<Rightarrow> string \<Rightarrow> bool \<Rightarrow> Node list \<Rightarrow> ReconcileSymbol list \<Rightarrow>
    nat option list \<Rightarrow> Db \<Rightarrow> DbError + Pass3State" where
  "pass3 u lang ext olds syms asg d =
     foldR (pass3_step u lang ext olds syms asg) [0..<length syms]
       (d, replicate (length syms) None, outcome_default)"

section \<open>Pass 4: orphan or delete the unclaimed rows\<close>

definition orphan_row :: "int \<Rightarrow> Node \<Rightarrow> Node" where
  "orphan_row l n = (set_start_line l n)\<lparr>n_orphan := True, n_valid := False\<rparr>"

definition pass4_step :: "Node list \<Rightarrow> bool list \<Rightarrow> nat \<Rightarrow> Db \<times> ReconcileOutcome \<Rightarrow>
    DbError + Db \<times> ReconcileOutcome" where
  "pass4_step olds used j = (\<lambda>(d, oc).
     if used ! j then Inr (d, oc)
     else (case n_id (olds ! j) of
        None \<Rightarrow> Inl NodeWithoutId
      | Some i \<Rightarrow>
          if n_orphan (olds ! j) then
            Inr (delete_node i d, oc\<lparr>ro_deleted := ro_deleted oc + 1\<rparr>)
          else bindR (update_node i (orphan_row (start_line (n_range (olds ! j)))) d)
            (\<lambda>d'. Inr (d', oc\<lparr>ro_orphaned := ro_orphaned oc + 1\<rparr>))))"

definition pass4 :: "Node list \<Rightarrow> bool list \<Rightarrow> Db \<times> ReconcileOutcome \<Rightarrow> DbError + Db \<times> ReconcileOutcome" where
  "pass4 olds used st = foldR (pass4_step olds used) [0..<length olds] st"

section \<open>Pass 5: contains edges\<close>

definition contains_edge :: "int \<Rightarrow> int \<Rightarrow> Edge" where
  "contains_edge p c = \<lparr>e_id = None, e_src = p, e_dst = c, e_type = ''contains'', e_site = None,
     e_valid = True\<rparr>"

definition pass5_step :: "ReconcileSymbol list \<Rightarrow> int option list \<Rightarrow> nat \<Rightarrow> Db \<Rightarrow> DbError + Db" where
  "pass5_step syms ids i d =
     bindR (parent_id ids (syms ! i)) (\<lambda>po. case po of
        None \<Rightarrow> Inr d
      | Some p \<Rightarrow> (case ids ! i of
          None \<Rightarrow> Inl ParentNotProcessed
        | Some c \<Rightarrow> bindR (upsert_edge (contains_edge p c) d) (\<lambda>(_, d'). Inr d')))"

definition pass5 :: "ReconcileSymbol list \<Rightarrow> int option list \<Rightarrow> Db \<Rightarrow> DbError + Db" where
  "pass5 syms ids d = foldR (pass5_step syms ids) [0..<length syms] d"

section \<open>The transaction\<close>

definition reconcile_tx :: "RowOrder \<Rightarrow> Hasher \<Rightarrow> string \<Rightarrow> string \<Rightarrow> bool \<Rightarrow> ReconcileSymbol list \<Rightarrow> Db \<Rightarrow>
    DbError + ReconcileOutcome \<times> Db" where
  "reconcile_tx ro H u lang ext syms d =
     (let d0 = drop_callees u d;
          olds = nodes_by_uri ro d0 u;
          st = match_symbols H olds syms
      in bindR (park_all olds d0) (\<lambda>d1.
         bindR (pass3 u lang ext olds syms (snd st) d1) (\<lambda>(d2, ids, oc).
         bindR (pass4 olds (fst st) (d2, oc)) (\<lambda>(d3, oc').
         bindR (pass5 syms ids d3) (\<lambda>d4. Inr (oc', d4))))))"

text \<open>Commit the result or drop the transaction: an error leaves the tables as they were.\<close>

definition reconcile_file_symbols :: "RowOrder \<Rightarrow> Hasher \<Rightarrow> string \<Rightarrow> string \<Rightarrow> bool \<Rightarrow>
    ReconcileSymbol list \<Rightarrow> Db \<Rightarrow> (DbError + ReconcileOutcome) \<times> Db" where
  "reconcile_file_symbols ro H u lang ext syms d =
     (case reconcile_tx ro H u lang ext syms d of
        Inl e \<Rightarrow> (Inl e, d)
      | Inr (oc, d') \<Rightarrow> (Inr oc, d'))"

section \<open>The transaction keeps the invariant of the tables\<close>

lemma node_ids_drop_callees [simp]: "node_ids (drop_callees u d) = node_ids d"
  by (simp add: drop_callees_def node_ids_def)

lemma drop_callees_wf [wf_db_pres]: "wf_db d \<Longrightarrow> wf_db (drop_callees u d)"
  by (rule wf_db_frame [of d]) (auto simp: drop_callees_def wf_db_def wf_caches_def node_ids_def)

lemma drop_callees_frame [simp]:
  "db_nodes (drop_callees u d) = db_nodes d" "db_edges (drop_callees u d) = db_edges d"
  by (simp_all add: drop_callees_def)

lemma park_row_wf [wf_db_pres]: "park_row n d = Inr d' \<Longrightarrow> wf_db d \<Longrightarrow> wf_db d'"
  by (auto simp: park_row_def intro: wf_db_pres split: option.splits)

lemma apply_claimed_wf [wf_db_pres]:
  "apply_claimed s c old d oc = Inr (i, d', oc') \<Longrightarrow> wf_db d \<Longrightarrow> wf_db d'"
  by (auto simp: apply_claimed_def bindR_eq_Inr intro: wf_db_pres split: option.splits if_splits)

lemma apply_fresh_wf [wf_db_pres]:
  "apply_fresh u lang ext s c d oc = Inr (i, d', oc') \<Longrightarrow> wf_db d \<Longrightarrow> wf_db d'"
  by (auto simp: apply_fresh_def bindR_eq_Inr intro: wf_db_pres)

lemma pass3_step_Inr:
  "pass3_step u lang ext olds syms asg i (d, ids, oc) = Inr (d', ids', oc') \<longleftrightarrow>
     (\<exists>c k. parent_id ids (syms ! i) = Inr c \<and> ids' = ids[i := Some k] \<and>
        (case asg ! i of
           Some j \<Rightarrow> apply_claimed (syms ! i) c (olds ! j) d oc
         | None \<Rightarrow> apply_fresh u lang ext (syms ! i) c d oc) = Inr (k, d', oc'))"
  by (auto simp: pass3_step_def bindR_eq_Inr)

lemma pass3_wf:
  assumes "pass3 u lang ext olds syms asg d = Inr (d', ids, oc)" and "wf_db d"
  shows "wf_db d'"
proof -
  have "wf_db (fst (d', ids, oc))"
    using assms(1) unfolding pass3_def
  proof (rule foldR_invariant [where P = "\<lambda>st. wf_db (fst st)"])
    show "wf_db (fst (d, replicate (length syms) None, outcome_default))" using assms(2) by simp
  next
    fix i and st st' :: Pass3State
    assume "wf_db (fst st)" and "pass3_step u lang ext olds syms asg i st = Inr st'"
    then show "wf_db (fst st')"
      by (cases st; cases st') (auto simp: pass3_step_Inr intro: wf_db_pres split: option.splits)
  qed
  then show ?thesis by simp
qed

lemma pass4_wf:
  assumes "pass4 olds used (d, oc) = Inr (d', oc')" and "wf_db d"
  shows "wf_db d'"
proof -
  have "wf_db (fst (d', oc'))"
    using assms(1) unfolding pass4_def
    by (rule foldR_invariant [where P = "\<lambda>st. wf_db (fst st)"])
      (use assms(2) in \<open>auto simp: pass4_step_def bindR_eq_Inr intro: wf_db_pres
          split: option.splits if_splits\<close>)
  then show ?thesis by simp
qed

lemma pass5_wf:
  assumes "pass5 syms ids d = Inr d'" and "wf_db d"
  shows "wf_db d'"
  using assms unfolding pass5_def
  by (elim foldR_invariant [where P = wf_db])
    (auto simp: pass5_step_def bindR_eq_Inr intro: wf_db_pres split: option.splits)

lemma reconcile_tx_Inr:
  "reconcile_tx ro H u lang ext syms d = Inr (oc, d') \<longleftrightarrow>
     (\<exists>d1 d2 ids oc2 d3.
        park_all (nodes_by_uri ro d u) (drop_callees u d) = Inr d1 \<and>
        pass3 u lang ext (nodes_by_uri ro d u) syms
          (snd (match_symbols H (nodes_by_uri ro d u) syms)) d1 = Inr (d2, ids, oc2) \<and>
        pass4 (nodes_by_uri ro d u) (fst (match_symbols H (nodes_by_uri ro d u) syms)) (d2, oc2)
          = Inr (d3, oc) \<and>
        pass5 syms ids d3 = Inr d')"
  by (auto simp: reconcile_tx_def Let_def bindR_eq_Inr nodes_by_uri_def)

lemma reconcile_tx_wf [wf_db_pres]:
  assumes "reconcile_tx ro H u lang ext syms d = Inr (oc, d')" and "wf_db d"
  shows "wf_db d'"
proof -
  obtain d1 d2 ids oc2 d3 where
    1: "park_all (nodes_by_uri ro d u) (drop_callees u d) = Inr d1" and
    2: "pass3 u lang ext (nodes_by_uri ro d u) syms
          (snd (match_symbols H (nodes_by_uri ro d u) syms)) d1 = Inr (d2, ids, oc2)" and
    3: "pass4 (nodes_by_uri ro d u) (fst (match_symbols H (nodes_by_uri ro d u) syms)) (d2, oc2)
          = Inr (d3, oc)" and
    4: "pass5 syms ids d3 = Inr d'"
    using assms(1) unfolding reconcile_tx_Inr by blast
  have "wf_db d1" using 1 assms(2) unfolding park_all_def
    by (elim foldR_invariant [where P = wf_db]) (auto intro: wf_db_pres)
  then have "wf_db d2" by (rule pass3_wf [OF 2])
  then have "wf_db d3" by (rule pass4_wf [OF 3])
  then show ?thesis by (rule pass5_wf [OF 4])
qed

lemma reconcile_file_symbols_wf [wf_db_pres]:
  assumes "wf_db d"
  shows "wf_db (snd (reconcile_file_symbols ro H u lang ext syms d))"
  using assms reconcile_tx_wf by (auto simp: reconcile_file_symbols_def split: sum.splits)

section \<open>What the outcome counts\<close>

definition matched :: "ReconcileOutcome \<Rightarrow> nat" where
  "matched oc = ro_unchanged oc + ro_updated oc + ro_renamed oc"

lemma apply_claimed_counts:
  "apply_claimed s c old d oc = Inr (k, d', oc') \<Longrightarrow>
     matched oc' = matched oc + 1 \<and> ro_inserted oc' = ro_inserted oc \<and>
     ro_orphaned oc' = ro_orphaned oc \<and> ro_deleted oc' = ro_deleted oc"
  by (auto simp: apply_claimed_def bindR_eq_Inr matched_def split: option.splits if_splits)

lemma apply_fresh_counts:
  "apply_fresh u lang ext s c d oc = Inr (k, d', oc') \<Longrightarrow>
     matched oc' = matched oc \<and> ro_inserted oc' = ro_inserted oc + 1 \<and>
     ro_orphaned oc' = ro_orphaned oc \<and> ro_deleted oc' = ro_deleted oc"
  by (auto simp: apply_fresh_def bindR_eq_Inr matched_def)

lemma pass3_step_counts:
  assumes "pass3_step u lang ext olds syms asg i (d, ids, oc) = Inr (d', ids', oc')"
  shows "matched oc' + ro_inserted oc' = matched oc + ro_inserted oc + 1 \<and>
    matched oc' = matched oc + (if asg ! i = None then 0 else 1) \<and>
    ro_orphaned oc' = ro_orphaned oc \<and> ro_deleted oc' = ro_deleted oc"
proof (cases "asg ! i")
  case None
  with assms show ?thesis by (auto simp: pass3_step_Inr dest: apply_fresh_counts)
next
  case (Some j)
  with assms show ?thesis by (auto simp: pass3_step_Inr dest: apply_claimed_counts)
qed

lemma pass3_counts_upto:
  assumes "foldR (pass3_step u lang ext olds syms asg) [0..<k] (d, ids0, outcome_default)
      = Inr (d', ids, oc)"
  shows "matched oc + ro_inserted oc = k \<and>
    matched oc = length (filter (\<lambda>i. asg ! i \<noteq> None) [0..<k]) \<and> ro_orphaned oc = 0 \<and> ro_deleted oc = 0"
  using assms
proof (induction k arbitrary: d' ids oc)
  case 0
  then show ?case by (auto simp: matched_def outcome_default_def)
next
  case (Suc k)
  then obtain d1 ids1 oc1 where
    "foldR (pass3_step u lang ext olds syms asg) [0..<k] (d, ids0, outcome_default) = Inr (d1, ids1, oc1)"
    and "pass3_step u lang ext olds syms asg k (d1, ids1, oc1) = Inr (d', ids, oc)"
    by (auto simp: foldR_append bindR_eq_Inr)
  then show ?case using Suc.IH pass3_step_counts by fastforce
qed

lemma pass4_step_counts:
  assumes "pass4_step olds used j (d, oc) = Inr (d', oc')"
  shows "ro_unchanged oc' = ro_unchanged oc \<and> ro_updated oc' = ro_updated oc \<and>
    ro_renamed oc' = ro_renamed oc \<and> ro_inserted oc' = ro_inserted oc \<and>
    ro_orphaned oc' = ro_orphaned oc + (if \<not> used ! j \<and> \<not> n_orphan (olds ! j) then 1 else 0) \<and>
    ro_deleted oc' = ro_deleted oc + (if \<not> used ! j \<and> n_orphan (olds ! j) then 1 else 0)"
  using assms by (auto simp: pass4_step_def bindR_eq_Inr matched_def split: option.splits if_splits)

lemma pass4_counts_upto:
  assumes "foldR (pass4_step olds used) [0..<k] (d, oc) = Inr (d', oc')"
  shows "ro_unchanged oc' = ro_unchanged oc \<and> ro_updated oc' = ro_updated oc \<and>
    ro_renamed oc' = ro_renamed oc \<and> ro_inserted oc' = ro_inserted oc \<and>
    ro_orphaned oc' = ro_orphaned oc +
      length (filter (\<lambda>j. \<not> used ! j \<and> \<not> n_orphan (olds ! j)) [0..<k]) \<and>
    ro_deleted oc' = ro_deleted oc +
      length (filter (\<lambda>j. \<not> used ! j \<and> n_orphan (olds ! j)) [0..<k])"
  using assms
proof (induction k arbitrary: d' oc')
  case 0
  then show ?case by simp
next
  case (Suc k)
  then obtain d1 oc1 where "foldR (pass4_step olds used) [0..<k] (d, oc) = Inr (d1, oc1)"
    and "pass4_step olds used k (d1, oc1) = Inr (d', oc')"
    by (auto simp: foldR_append bindR_eq_Inr)
  then show ?case using Suc.IH pass4_step_counts by fastforce
qed

end
