(* ===== verification/Reconcile_Spec.thy ===== *)
theory Reconcile_Spec
  imports Reconcile_Tx
begin

text \<open>
  What a reconcile does to the nodes table, stated without the passes: the exact set of rows
  after a successful transaction, the condition under which it succeeds, and the consequences
  for identity, orphans and repeated reconciles.
\<close>

section \<open>One update or insert, as an effect on the set of rows\<close>

lemma update_node_ok:
  assumes wf: "wf_db d" and n: "n \<in> set (db_nodes d)" "n_id n = Some i"
    and n': "n' = (f n)\<lparr>n_id := Some i\<rparr>"
    and free: "\<And>m. m \<in> set (db_nodes d) \<Longrightarrow> m \<noteq> n \<Longrightarrow> n_fqn m \<noteq> n_fqn n' \<and> phys_key m \<noteq> phys_key n'"
    and cont: "container_ok d n'"
  obtains d' where "update_node i f d = Inr d'" "wf_db d'"
    "set (db_nodes d') = insert n' (set (db_nodes d) - {n})"
    "db_edges d' = db_edges d" "node_ids d' = node_ids d"
proof -
  have get: "get_node d i = Some n" using wf n by (simp add: get_node_Some)
  have uniq: "m = n" if "m \<in> set (db_nodes d)" "n_id m = Some i" for m
    using wf_node_eqI(1) [OF wf that(1) n(1)] that(2) n(2) by simp
  have "\<not> unique_clash d n'"
  proof
    assume "unique_clash d n'"
    then obtain m where m: "m \<in> set (db_nodes d)" "n_id m \<noteq> n_id n'"
        "n_fqn m = n_fqn n' \<or> phys_key m = phys_key n'"
      unfolding unique_clash_def by blast
    have "n_id n' = Some i" unfolding n' by simp
    with m(2) n(2) have "m \<noteq> n" by auto
    with free [OF m(1)] m(3) show False by blast
  qed
  let ?d = "d\<lparr>db_nodes := map (\<lambda>m. if n_id m = Some i then n' else m) (db_nodes d)\<rparr>"
  from \<open>\<not> unique_clash d n'\<close> get cont n' have up: "update_node i f d = Inr ?d"
    by (simp add: update_node_Inr)
  have "(\<lambda>m. if n_id m = Some i then n' else m) ` set (db_nodes d) = insert n' (set (db_nodes d) - {n})"
  proof -
    have "(if n_id m = Some i then n' else m) = (if m = n then n' else m)"
      if "m \<in> set (db_nodes d)" for m
      using uniq [OF that] n(2) by metis
    then have "(\<lambda>m. if n_id m = Some i then n' else m) ` set (db_nodes d)
        = (\<lambda>m. if m = n then n' else m) ` set (db_nodes d)"
      by (rule image_cong [OF refl])
    also have "\<dots> = insert n' (set (db_nodes d) - {n})" using n(1) by auto
    finally show ?thesis .
  qed
  then show ?thesis
    using up update_node_wf [OF wf up] node_ids_eqI [OF update_node_ids [OF up]]
    by (intro that [of ?d]) simp_all
qed

lemma upsert_fresh_ok:
  assumes wf: "wf_db d"
    and free: "\<And>m. m \<in> set (db_nodes d) \<Longrightarrow> n_fqn m \<noteq> n_fqn n \<and> phys_key m \<noteq> phys_key n"
    and cont: "\<forall>c. n_container_id n = Some c \<longrightarrow> Some c \<in> node_ids d"
  obtains i d' where "upsert_node n d = Inr (i, d')" "wf_db d'" "Some i \<notin> node_ids d"
    "set (db_nodes d') = insert (n\<lparr>n_id := Some i\<rparr>) (set (db_nodes d))" "db_edges d' = db_edges d"
proof -
  let ?i = "db_node_seq d + 1"
  let ?d = "d\<lparr>db_nodes := db_nodes d @ [n\<lparr>n_id := Some ?i\<rparr>], db_node_seq := ?i\<rparr>"
  have "node_ids ?d = insert (Some ?i) (node_ids d)" by (simp add: node_ids_def)
  then have "container_ok ?d n" using cont
    by (auto simp: container_ok_def node_exists_iff split: option.splits)
  then have ins: "insert_node n d = Inr (?i, ?d)" by (simp add: insert_node_Inr)
  have "List.find (\<lambda>m. n_fqn m = n_fqn n) (db_nodes d) = None"
    "List.find (\<lambda>m. phys_key m = phys_key n) (db_nodes d) = None"
    using free by (simp_all add: find_None)
  with ins have up: "upsert_node n d = Inr (?i, ?d)" by (simp add: upsert_node_def)
  moreover have "wf_db ?d" using wf up by (rule upsert_node_wf)
  moreover have "Some ?i \<notin> node_ids d" using wf_node_idD [OF wf] by (fastforce simp: node_ids_iff)
  ultimately show ?thesis by (intro that [of ?i ?d]) simp_all
qed

section \<open>Parking\<close>

definition row_id :: "Node \<Rightarrow> int" where
  "row_id n = (case n_id n of Some i \<Rightarrow> i | None \<Rightarrow> 0)"

definition parked :: "Node \<Rightarrow> Node" where
  "parked n = set_start_line (- row_id n) n"

lemma parked_simps [simp]:
  "n_id (parked n) = n_id n" "n_fqn (parked n) = n_fqn n" "n_uri (parked n) = n_uri n"
  "n_container_id (parked n) = n_container_id n" "start_line (n_range (parked n)) = - row_id n"
  "n_orphan (parked n) = n_orphan n"
  by (simp_all add: parked_def set_start_line_def)

lemma set_start_line_id: "n_id n = Some i \<Longrightarrow> (set_start_line l n)\<lparr>n_id := Some i\<rparr> = set_start_line l n"
  by (simp add: set_start_line_def)

text \<open>Parking some of the rows of a file: their keys become negative and stay distinct.\<close>

lemma park_all_ok:
  assumes wf: "wf_db d" and sub: "set olds \<subseteq> set (db_nodes d)" and dist: "distinct olds"
    and u: "\<forall>n \<in> set olds. n_uri n = u"
    and nonneg: "\<forall>n \<in> set (db_nodes d). n_uri n = u \<longrightarrow> 0 \<le> start_line (n_range n)"
  shows "\<exists>d'. park_all olds d = Inr d' \<and> wf_db d' \<and> db_edges d' = db_edges d \<and>
    node_ids d' = node_ids d \<and>
    set (db_nodes d') = (set (db_nodes d) - set olds) \<union> parked ` set olds"
  using sub dist u
proof (induction olds rule: rev_induct)
  case Nil
  with wf show ?case by (simp add: park_all_def)
next
  case (snoc n ns)
  from snoc.IH [unfolded park_all_def] snoc.prems obtain d' where
    d': "foldR park_row ns d = Inr d'" "wf_db d'" "db_edges d' = db_edges d" "node_ids d' = node_ids d"
      "set (db_nodes d') = (set (db_nodes d) - set ns) \<union> parked ` set ns"
    by auto
  obtain i where i: "n_id n = Some i" "1 \<le> i" using wf_node_idD [OF wf, of n] snoc.prems by auto
  have n: "n \<in> set (db_nodes d')" using d' snoc.prems by simp
  have pn: "parked n = set_start_line (- i) n" using i by (simp add: parked_def row_id_def)
  then have pn2: "parked n = (set_start_line (- i) n)\<lparr>n_id := Some i\<rparr>"
    using i(1) by (simp add: set_start_line_id)
  have free: "n_fqn m \<noteq> n_fqn (parked n) \<and> phys_key m \<noteq> phys_key (parked n)"
    if m: "m \<in> set (db_nodes d')" "m \<noteq> n" for m
  proof
    show "n_fqn m \<noteq> n_fqn (parked n)" using wf_node_eqI(2) [OF d'(2) m(1) n] m(2) by auto
    have "start_line (n_range m) \<noteq> - i" if "n_uri m = u"
    proof (cases "m \<in> parked ` set ns")
      case True
      then obtain m0 where m0: "m0 \<in> set ns" "m = parked m0" by auto
      then have "m0 \<noteq> n" using snoc.prems by auto
      moreover have "m0 \<in> set (db_nodes d)" "n \<in> set (db_nodes d)" using m0 snoc.prems by auto
      ultimately have "n_id m0 \<noteq> n_id n" using wf_node_eqI(1) [OF wf] by blast
      moreover have "\<exists>i0. n_id m0 = Some i0" using wf_node_idD [OF wf] \<open>m0 \<in> set (db_nodes d)\<close> by blast
      ultimately show ?thesis using m0 i by (auto simp: row_id_def)
    next
      case False
      then have "0 \<le> start_line (n_range m)" using m d'(5) nonneg that by auto
      with i show ?thesis by simp
    qed
    then show "phys_key m \<noteq> phys_key (parked n)"
      using snoc.prems i by (auto simp: phys_key_def row_id_def parked_def set_start_line_def)
  qed
  have cont: "container_ok d' (parked n)"
    using d'(2) n by (auto simp: container_ok_def wf_db_def wf_nodes_def node_exists_iff split: option.splits)
  obtain d2 where d2: "update_node i (set_start_line (- i)) d' = Inr d2" "wf_db d2"
    "set (db_nodes d2) = insert (parked n) (set (db_nodes d') - {n})"
    "db_edges d2 = db_edges d'" "node_ids d2 = node_ids d'"
    by (rule update_node_ok [where f = "set_start_line (- i)", OF d'(2) n i(1) pn2 free cont])
  have "park_all (ns @ [n]) d = Inr d2" using d'(1) d2(1) i by (simp add: park_all_def foldR_append park_row_def)
  moreover have "n \<notin> parked ` set ns"
  proof
    assume "n \<in> parked ` set ns"
    then obtain m0 where "m0 \<in> set ns" "n = parked m0" by auto
    moreover have "m0 \<in> set (db_nodes d)" using \<open>m0 \<in> set ns\<close> snoc.prems by auto
    then obtain k where "n_id m0 = Some k" "1 \<le> k" using wf_node_idD [OF wf] by blast
    ultimately have "start_line (n_range n) < 0" by (simp add: row_id_def)
    moreover have "0 \<le> start_line (n_range n)" using nonneg snoc.prems by simp
    ultimately show False by simp
  qed
  then have "set (db_nodes d2) = (set (db_nodes d) - set (ns @ [n])) \<union> parked ` set (ns @ [n])"
    using d2(3) d'(5) by auto
  ultimately show ?case using d2 d' by auto
qed

section \<open>A batch that fits the tables\<close>

text \<open>The physical key a symbol will get, within its file.\<close>

definition sym_phys :: "ReconcileSymbol \<Rightarrow> int \<times> int \<times> string" where
  "sym_phys s = (start_line (rs_range s), start_col (rs_range s), rs_name s)"

definition node_phys :: "Node \<Rightarrow> int \<times> int \<times> string" where
  "node_phys n = (start_line (n_range n), start_col (n_range n), n_name n)"

text \<open>
  Distinct names and positions, parents before children, no negative line, and no row of
  another file that carries one of the names.
\<close>

definition good_batch :: "string \<Rightarrow> Db \<Rightarrow> ReconcileSymbol list \<Rightarrow> bool" where
  "good_batch u d syms \<longleftrightarrow>
     distinct (map rs_fqn syms) \<and> distinct (map sym_phys syms) \<and>
     (\<forall>i < length syms. \<forall>p. rs_parent (syms ! i) = Some p \<longrightarrow> p < i) \<and>
     (\<forall>s \<in> set syms. 0 \<le> start_line (rs_range s)) \<and>
     (\<forall>n \<in> set (db_nodes d). n_uri n = u \<longrightarrow> 0 \<le> start_line (n_range n)) \<and>
     (\<forall>n \<in> set (db_nodes d). n_uri n \<noteq> u \<longrightarrow> n_fqn n \<notin> rs_fqn ` set syms)"

section \<open>Pass 3 as an effect on the set of rows\<close>

definition sym_container :: "int option list \<Rightarrow> ReconcileSymbol \<Rightarrow> int option" where
  "sym_container ids s = (case rs_parent s of None \<Rightarrow> None | Some p \<Rightarrow> ids ! p)"

text \<open>The row symbol \<open>i\<close> ends up with: its old row updated, or a new one.\<close>

definition sym_row :: "string \<Rightarrow> string \<Rightarrow> bool \<Rightarrow> Node list \<Rightarrow> ReconcileSymbol list \<Rightarrow>
    nat option list \<Rightarrow> int option list \<Rightarrow> nat \<Rightarrow> Node" where
  "sym_row u lang ext olds syms asg ids i =
     (case asg ! i of
        Some j \<Rightarrow> set_symbol (syms ! i) (sym_container ids (syms ! i)) (olds ! j)
      | None \<Rightarrow> (new_row u lang ext (syms ! i) (sym_container ids (syms ! i)))\<lparr>n_id := ids ! i\<rparr>)"

lemma set_symbol_simps [simp]:
  "n_id (set_symbol s c n) = n_id n" "n_fqn (set_symbol s c n) = rs_fqn s"
  "n_uri (set_symbol s c n) = n_uri n" "n_name (set_symbol s c n) = rs_name s"
  "n_range (set_symbol s c n) = rs_range s" "n_container_id (set_symbol s c n) = c"
  "n_valid (set_symbol s c n)" "\<not> n_orphan (set_symbol s c n)"
  "n_kind (set_symbol s c n) = rs_kind s" "n_signature_hash (set_symbol s c n) = Some (rs_signature_hash s)"
  by (simp_all add: set_symbol_def)

lemma new_row_simps [simp]:
  "n_fqn (new_row u lang ext s c) = rs_fqn s" "n_uri (new_row u lang ext s c) = u"
  "n_name (new_row u lang ext s c) = rs_name s" "n_range (new_row u lang ext s c) = rs_range s"
  "n_container_id (new_row u lang ext s c) = c" "n_valid (new_row u lang ext s c)"
  "\<not> n_orphan (new_row u lang ext s c)" "n_kind (new_row u lang ext s c) = rs_kind s"
  "n_signature_hash (new_row u lang ext s c) = Some (rs_signature_hash s)"
  by (simp_all add: new_row_def)

lemma set_symbol_keeps_id: "n_id n = Some i \<Longrightarrow> (set_symbol s c n)\<lparr>n_id := Some i\<rparr> = set_symbol s c n"
  by (simp add: set_symbol_def)

lemma set_symbol_parked [simp]: "set_symbol s c (parked n) = set_symbol s c n"
  by (simp add: set_symbol_def parked_def set_start_line_def)

lemma sym_row_simps [simp]:
  "n_fqn (sym_row u lang ext olds syms asg ids i) = rs_fqn (syms ! i)"
  "n_name (sym_row u lang ext olds syms asg ids i) = rs_name (syms ! i)"
  "n_kind (sym_row u lang ext olds syms asg ids i) = rs_kind (syms ! i)"
  "n_range (sym_row u lang ext olds syms asg ids i) = rs_range (syms ! i)"
  "n_signature_hash (sym_row u lang ext olds syms asg ids i) = Some (rs_signature_hash (syms ! i))"
  "n_container_id (sym_row u lang ext olds syms asg ids i) = sym_container ids (syms ! i)"
  "n_valid (sym_row u lang ext olds syms asg ids i)"
  "\<not> n_orphan (sym_row u lang ext olds syms asg ids i)"
  by (simp_all add: sym_row_def split: option.splits)

lemma invalidate_edges_frame [simp]:
  "db_nodes (invalidate_edges i d) = db_nodes d" "node_ids (invalidate_edges i d) = node_ids d"
  by (simp_all add: invalidate_edges_def node_ids_def)

text \<open>
  The rows after the first \<open>k\<close> symbols: \<open>rest\<close> are the other files' rows, then the symbols'
  rows, then the file's rows that none of the first \<open>k\<close> symbols claims, still parked.
\<close>

definition unclaimed_rows :: "Node list \<Rightarrow> nat option list \<Rightarrow> nat \<Rightarrow> Node set" where
  "unclaimed_rows olds asg k = {parked (olds ! j) | j. j < length olds \<and> (\<forall>i < k. asg ! i \<noteq> Some j)}"

definition pass3_rows :: "Node set \<Rightarrow> (nat \<Rightarrow> Node) \<Rightarrow> Node set \<Rightarrow> nat \<Rightarrow> Node set" where
  "pass3_rows rest row pending k = rest \<union> row ` {..<k} \<union> pending"

text \<open>The fixed data of a run: the old rows, the batch and the matching.\<close>

definition pass3_setting :: "string \<Rightarrow> Node set \<Rightarrow> Node list \<Rightarrow> ReconcileSymbol list \<Rightarrow> nat option list \<Rightarrow> bool" where
  "pass3_setting u rest olds syms asg \<longleftrightarrow>
     (\<forall>i < length syms. \<forall>j. asg ! i = Some j \<longrightarrow> j < length olds) \<and>
     (\<forall>i < length syms. \<forall>i' < length syms. \<forall>j. asg ! i = Some j \<longrightarrow> asg ! i' = Some j \<longrightarrow> i = i') \<and>
     distinct (map n_fqn olds) \<and> distinct (map n_id olds) \<and>
     (\<forall>n \<in> set olds. n_uri n = u \<and> 1 \<le> row_id n \<and> n_id n = Some (row_id n)) \<and>
     (\<forall>n \<in> rest. n_uri n \<noteq> u \<and> n_fqn n \<notin> rs_fqn ` set syms) \<and>
     distinct (map rs_fqn syms) \<and> distinct (map sym_phys syms) \<and>
     (\<forall>i < length syms. \<forall>p. rs_parent (syms ! i) = Some p \<longrightarrow> p < i) \<and>
     (\<forall>s \<in> set syms. 0 \<le> start_line (rs_range s)) \<and>
     (\<forall>i < length syms. \<forall>j < length olds. n_fqn (olds ! j) = rs_fqn (syms ! i) \<longrightarrow> asg ! i = Some j)"

lemma pass3_settingD:
  assumes "pass3_setting u rest olds syms asg"
  shows "i < length syms \<Longrightarrow> asg ! i = Some j \<Longrightarrow> j < length olds"
    and "i < length syms \<Longrightarrow> i' < length syms \<Longrightarrow> asg ! i = Some j \<Longrightarrow> asg ! i' = Some j \<Longrightarrow> i = i'"
    and "distinct (map n_fqn olds)" and "distinct (map n_id olds)"
    and "n \<in> set olds \<Longrightarrow> n_uri n = u \<and> 1 \<le> row_id n \<and> n_id n = Some (row_id n)"
    and "n \<in> rest \<Longrightarrow> n_uri n \<noteq> u \<and> n_fqn n \<notin> rs_fqn ` set syms"
    and "distinct (map rs_fqn syms)" and "distinct (map sym_phys syms)"
    and "i < length syms \<Longrightarrow> rs_parent (syms ! i) = Some p \<Longrightarrow> p < i"
    and "s \<in> set syms \<Longrightarrow> 0 \<le> start_line (rs_range s)"
    and "i < length syms \<Longrightarrow> j < length olds \<Longrightarrow> n_fqn (olds ! j) = rs_fqn (syms ! i) \<Longrightarrow> asg ! i = Some j"
  by (use assms in \<open>unfold pass3_setting_def, blast\<close>)+

definition pass3_state :: "string \<Rightarrow> string \<Rightarrow> bool \<Rightarrow> Node set \<Rightarrow> Node list \<Rightarrow> ReconcileSymbol list \<Rightarrow>
    nat option list \<Rightarrow> nat \<Rightarrow> Db \<Rightarrow> int option list \<Rightarrow> bool" where
  "pass3_state u lang ext rest olds syms asg k d ids \<longleftrightarrow>
     wf_db d \<and> length ids = length syms \<and>
     set (db_nodes d) = pass3_rows rest (sym_row u lang ext olds syms asg ids)
        (unclaimed_rows olds asg k) k \<and>
     (\<forall>i < k. ids ! i \<noteq> None \<and> n_id (sym_row u lang ext olds syms asg ids i) = ids ! i)"

text \<open>No row of the state carries the name or the key symbol \<open>k\<close> is about to take, its own apart.\<close>

lemma pass3_free:
  assumes set3: "pass3_setting u rest olds syms asg"
    and st: "pass3_state u lang ext rest olds syms asg k d ids" and k: "k < length syms"
    and m: "m \<in> set (db_nodes d)"
    and own: "\<forall>j < length olds. asg ! k = Some j \<longrightarrow> m \<noteq> parked (olds ! j)"
  shows "n_fqn m \<noteq> rs_fqn (syms ! k) \<and>
    (n_uri m = u \<longrightarrow> node_phys m \<noteq> sym_phys (syms ! k))"
proof -
  consider (rest) "m \<in> rest" | (row) i where "i < k" "m = sym_row u lang ext olds syms asg ids i"
    | (park) j where "j < length olds" "\<forall>i < k. asg ! i \<noteq> Some j" "m = parked (olds ! j)"
    using m st by (auto simp: pass3_state_def pass3_rows_def unclaimed_rows_def)
  then show ?thesis
  proof cases
    case rest
    then have "n_uri m \<noteq> u" "n_fqn m \<notin> rs_fqn ` set syms"
      using pass3_settingD(6) [OF set3] by blast+
    then show ?thesis using k by auto
  next
    case row
    then have "i \<noteq> k" "i < length syms" using k by simp_all
    moreover have "distinct (map rs_fqn syms)" "distinct (map sym_phys syms)"
      using set3 by (rule pass3_settingD)+
    ultimately have "rs_fqn (syms ! i) \<noteq> rs_fqn (syms ! k)" "sym_phys (syms ! i) \<noteq> sym_phys (syms ! k)"
      using k by (simp_all add: distinct_conv_nth)
    then show ?thesis using row by (simp add: node_phys_def sym_phys_def)
  next
    case park
    have "1 \<le> row_id (olds ! j)" using pass3_settingD(5) [OF set3] park(1) by simp
    moreover have "0 \<le> start_line (rs_range (syms ! k))" using pass3_settingD(10) [OF set3] k by simp
    moreover have "n_fqn (olds ! j) \<noteq> rs_fqn (syms ! k)"
      using pass3_settingD(11) [OF set3 k park(1)] own park by blast
    ultimately show ?thesis using park by (auto simp: node_phys_def sym_phys_def)
  qed
qed

lemma pass3_parent:
  assumes set3: "pass3_setting u rest olds syms asg"
    and st: "pass3_state u lang ext rest olds syms asg k d ids" and k: "k < length syms"
  shows "parent_id ids (syms ! k) = Inr (sym_container ids (syms ! k))"
    and "sym_container ids (syms ! k) = Some c \<Longrightarrow> Some c \<in> node_ids d"
proof -
  have par: "p < k" if "rs_parent (syms ! k) = Some p" for p
    using set3 k that by (rule pass3_settingD)
  have ids: "ids ! p \<noteq> None" "n_id (sym_row u lang ext olds syms asg ids p) = ids ! p" if "p < k" for p
    using st that by (simp_all add: pass3_state_def)
  have "length ids = length syms" using st by (simp add: pass3_state_def)
  then show "parent_id ids (syms ! k) = Inr (sym_container ids (syms ! k))"
    using par ids(1) k
    by (fastforce simp: parent_id_def sym_container_def split: option.splits)
  assume "sym_container ids (syms ! k) = Some c"
  then obtain p where p: "rs_parent (syms ! k) = Some p" "ids ! p = Some c"
    by (auto simp: sym_container_def split: option.splits)
  then have "sym_row u lang ext olds syms asg ids p \<in> set (db_nodes d)"
    using par [OF p(1)] st by (simp add: pass3_state_def pass3_rows_def)
  then show "Some c \<in> node_ids d" using ids(2) [OF par [OF p(1)]] p(2) by (auto simp: node_ids_iff)
qed

text \<open>Assigning the id of symbol \<open>k\<close> leaves the earlier symbols' rows alone.\<close>

lemma sym_row_ids_update:
  assumes "pass3_setting u rest olds syms asg" and "i < k" and "k < length syms"
  shows "sym_row u lang ext olds syms asg (ids[k := x]) i = sym_row u lang ext olds syms asg ids i"
proof -
  have "p < i" if "rs_parent (syms ! i) = Some p" for p
    using pass3_settingD(9) [OF assms(1) _ that] assms(2,3) by simp
  then have "sym_container (ids[k := x]) (syms ! i) = sym_container ids (syms ! i)"
    using assms(2) by (fastforce simp: sym_container_def split: option.splits)
  then show ?thesis using assms(2) by (simp add: sym_row_def split: option.splits)
qed

lemma sym_container_ids_update:
  assumes "pass3_setting u rest olds syms asg" and "k < length syms"
  shows "sym_container (ids[k := x]) (syms ! k) = sym_container ids (syms ! k)"
proof -
  have "p < k" if "rs_parent (syms ! k) = Some p" for p
    using assms that by (rule pass3_settingD)
  then show ?thesis by (fastforce simp: sym_container_def split: option.splits)
qed

lemma pass3_state_Suc:
  assumes set3: "pass3_setting u rest olds syms asg"
    and st: "pass3_state u lang ext rest olds syms asg k d ids" and k: "k < length syms"
    and wf: "wf_db d'" and x: "n_id (sym_row u lang ext olds syms asg (ids[k := Some x]) k) = Some x"
    and nodes: "set (db_nodes d') = insert (sym_row u lang ext olds syms asg (ids[k := Some x]) k)
        (rest \<union> sym_row u lang ext olds syms asg ids ` {..<k} \<union> unclaimed_rows olds asg (Suc k))"
  shows "pass3_state u lang ext rest olds syms asg (Suc k) d' (ids[k := Some x])"
proof -
  let ?ids = "ids[k := Some x]"
  let ?row = "sym_row u lang ext olds syms asg"
  have len: "length ids = length syms" using st by (simp add: pass3_state_def)
  have same: "?row ?ids i = ?row ids i" if "i < k" for i
    using that sym_row_ids_update [OF set3 _ k] by simp
  then have "?row ?ids ` {..<k} = ?row ids ` {..<k}" by (intro image_cong) auto
  then have "set (db_nodes d') = pass3_rows rest (?row ?ids) (unclaimed_rows olds asg (Suc k)) (Suc k)"
    using nodes by (simp add: pass3_rows_def lessThan_Suc)
  moreover have "?ids ! i \<noteq> None \<and> n_id (?row ?ids i) = ?ids ! i" if "i < Suc k" for i
  proof (cases "i = k")
    case True
    with x len k show ?thesis by simp
  next
    case False
    with that have "i < k" by simp
    with st same show ?thesis by (simp add: pass3_state_def)
  qed
  ultimately show ?thesis using wf len by (simp add: pass3_state_def)
qed

lemma parked_inj:
  assumes "pass3_setting u rest olds syms asg" "j < length olds" "j' < length olds"
    and "parked (olds ! j) = parked (olds ! j')"
  shows "j = j'"
proof -
  have "n_id (olds ! j) = n_id (olds ! j')" using assms(4) by (metis parked_simps(1))
  moreover have "distinct (map n_id olds)" using assms(1) by (rule pass3_settingD)
  ultimately show ?thesis
    using assms(2,3) nth_eq_iff_index_eq [of "map n_id olds" j j'] by simp
qed

lemma pass3_step_claimed:
  assumes set3: "pass3_setting u rest olds syms asg"
    and st: "pass3_state u lang ext rest olds syms asg k d ids" and k: "k < length syms"
    and j: "asg ! k = Some j"
  shows "\<exists>d' x oc'. pass3_step u lang ext olds syms asg k (d, ids, oc) = Inr (d', ids[k := Some x], oc') \<and>
    n_id (olds ! j) = Some x \<and> pass3_state u lang ext rest olds syms asg (Suc k) d' (ids[k := Some x])"
proof -
  let ?c = "sym_container ids (syms ! k)"
  let ?n' = "set_symbol (syms ! k) ?c (olds ! j)"
  let ?rows = "sym_row u lang ext olds syms asg ids ` {..<k}"
  have jl: "j < length olds" using set3 k j by (rule pass3_settingD)
  have unc: "\<forall>i < k. asg ! i \<noteq> Some j"
  proof (intro allI impI notI)
    fix i assume "i < k" "asg ! i = Some j"
    then have "i = k" using pass3_settingD(2) [OF set3 _ k _ j] k by (meson order.strict_trans)
    with \<open>i < k\<close> show False by simp
  qed
  obtain x where x: "n_id (olds ! j) = Some x" "1 \<le> x" "n_uri (olds ! j) = u"
    using pass3_settingD(5) [OF set3 nth_mem [OF jl]] by auto
  have wf: "wf_db d" using st by (simp add: pass3_state_def)
  have nodes: "set (db_nodes d) = rest \<union> ?rows \<union> unclaimed_rows olds asg k"
    using st by (simp add: pass3_state_def pass3_rows_def)
  have n: "parked (olds ! j) \<in> set (db_nodes d)"
    using jl unc nodes by (auto simp: unclaimed_rows_def)
  have n': "?n' = (set_symbol (syms ! k) ?c (parked (olds ! j)))\<lparr>n_id := Some x\<rparr>"
    using x(1) by (simp add: set_symbol_keeps_id)
  have free: "n_fqn m \<noteq> n_fqn ?n' \<and> phys_key m \<noteq> phys_key ?n'"
    if "m \<in> set (db_nodes d)" "m \<noteq> parked (olds ! j)" for m
    using pass3_free [OF set3 st k that(1)] that(2) j x(3)
    by (auto simp: phys_key_def node_phys_def sym_phys_def)
  have cont: "container_ok d ?n'"
    using pass3_parent(2) [OF set3 st k] by (auto simp: container_ok_def node_exists_iff split: option.splits)
  have idp: "n_id (parked (olds ! j)) = Some x" using x by simp
  obtain d1 where d1: "update_node x (set_symbol (syms ! k) ?c) d = Inr d1" "wf_db d1"
      "set (db_nodes d1) = insert ?n' (set (db_nodes d) - {parked (olds ! j)})"
    by (rule update_node_ok [where f = "set_symbol (syms ! k) ?c", OF wf n idp n' free cont])
  have sr: "sym_row u lang ext olds syms asg (ids[k := Some x]) k = ?n'"
    using j sym_container_ids_update [OF set3 k] by (simp add: sym_row_def)
  have "parked (olds ! j) \<notin> rest"
    using pass3_settingD(6) [OF set3, of "parked (olds ! j)"] x by auto
  moreover have "parked (olds ! j) \<notin> ?rows"
  proof
    assume "parked (olds ! j) \<in> ?rows"
    then obtain i where "i < k" "parked (olds ! j) = sym_row u lang ext olds syms asg ids i" by auto
    then have "start_line (rs_range (syms ! i)) = - x"
      using x by (metis parked_simps(5) sym_row_simps(4) option.simps(5) row_id_def)
    moreover have "0 \<le> start_line (rs_range (syms ! i))"
      using pass3_settingD(10) [OF set3] k \<open>i < k\<close> by simp
    ultimately show False using x by simp
  qed
  moreover have "unclaimed_rows olds asg k - {parked (olds ! j)} = unclaimed_rows olds asg (Suc k)"
    using parked_inj [OF set3] jl j by (auto simp: unclaimed_rows_def less_Suc_eq)
  ultimately have nodes': "set (db_nodes d1) = insert ?n' (rest \<union> ?rows \<union> unclaimed_rows olds asg (Suc k))"
    using d1(3) nodes by auto
  have "\<exists>d2 oc'. apply_claimed (syms ! k) ?c (olds ! j) d oc = Inr (x, d2, oc') \<and>
      (d2 = d1 \<or> d2 = invalidate_edges x d1)"
    using x(1) d1(1) by (simp add: apply_claimed_def)
  then obtain d2 oc' where step: "apply_claimed (syms ! k) ?c (olds ! j) d oc = Inr (x, d2, oc')"
    and d2: "d2 = d1 \<or> d2 = invalidate_edges x d1"
    by blast
  have "wf_db d2" "set (db_nodes d2) = set (db_nodes d1)"
    using d2 d1(2) by (auto intro: wf_db_pres)
  then have "pass3_state u lang ext rest olds syms asg (Suc k) d2 (ids[k := Some x])"
    using nodes' x(1) by (intro pass3_state_Suc [OF set3 st k]) (simp_all add: sr)
  moreover have "pass3_step u lang ext olds syms asg k (d, ids, oc) = Inr (d2, ids[k := Some x], oc')"
    using step pass3_parent(1) [OF set3 st k] j by (auto simp: pass3_step_Inr)
  ultimately show ?thesis using x(1) by blast
qed

lemma pass3_step_fresh:
  assumes set3: "pass3_setting u rest olds syms asg"
    and st: "pass3_state u lang ext rest olds syms asg k d ids" and k: "k < length syms"
    and j: "asg ! k = None"
  shows "\<exists>d' x oc'. pass3_step u lang ext olds syms asg k (d, ids, oc) = Inr (d', ids[k := Some x], oc') \<and>
    pass3_state u lang ext rest olds syms asg (Suc k) d' (ids[k := Some x])"
proof -
  let ?c = "sym_container ids (syms ! k)"
  let ?n = "new_row u lang ext (syms ! k) ?c"
  have wf: "wf_db d" and len: "length ids = length syms" using st by (simp_all add: pass3_state_def)
  have free: "n_fqn m \<noteq> n_fqn ?n \<and> phys_key m \<noteq> phys_key ?n" if "m \<in> set (db_nodes d)" for m
    using pass3_free [OF set3 st k that] j by (auto simp: phys_key_def node_phys_def sym_phys_def)
  have cont: "\<forall>c. n_container_id ?n = Some c \<longrightarrow> Some c \<in> node_ids d"
    using pass3_parent(2) [OF set3 st k] by simp
  obtain x d1 where d1: "upsert_node ?n d = Inr (x, d1)" "wf_db d1"
      "set (db_nodes d1) = insert (?n\<lparr>n_id := Some x\<rparr>) (set (db_nodes d))"
    by (rule upsert_fresh_ok [OF wf free cont])
  have sr: "sym_row u lang ext olds syms asg (ids[k := Some x]) k = ?n\<lparr>n_id := Some x\<rparr>"
    using j k len sym_container_ids_update [OF set3 k] by (simp add: sym_row_def)
  have "unclaimed_rows olds asg (Suc k) = unclaimed_rows olds asg k"
    using j by (auto simp: unclaimed_rows_def less_Suc_eq)
  then have "pass3_state u lang ext rest olds syms asg (Suc k) d1 (ids[k := Some x])"
    using d1 st by (intro pass3_state_Suc [OF set3 st k]) (simp_all add: sr pass3_state_def pass3_rows_def)
  moreover have "pass3_step u lang ext olds syms asg k (d, ids, oc)
      = Inr (d1, ids[k := Some x], oc\<lparr>ro_inserted := ro_inserted oc + 1\<rparr>)"
    using d1(1) pass3_parent(1) [OF set3 st k] j by (auto simp: pass3_step_Inr apply_fresh_def)
  ultimately show ?thesis by blast
qed

text \<open>Running pass 3 to the end. A claimed symbol keeps the id of its old row.\<close>

lemma pass3_upto:
  assumes set3: "pass3_setting u rest olds syms asg"
    and st: "pass3_state u lang ext rest olds syms asg 0 d ids0" and k: "k \<le> length syms"
  shows "\<exists>d' ids oc. foldR (pass3_step u lang ext olds syms asg) [0..<k] (d, ids0, oc0) = Inr (d', ids, oc) \<and>
    pass3_state u lang ext rest olds syms asg k d' ids \<and>
    (\<forall>i < k. \<forall>j. asg ! i = Some j \<longrightarrow> ids ! i = n_id (olds ! j))"
  using k
proof (induction k)
  case 0
  with st show ?case by simp
next
  case (Suc k)
  then obtain d1 ids oc where run: "foldR (pass3_step u lang ext olds syms asg) [0..<k] (d, ids0, oc0) = Inr (d1, ids, oc)"
    and st1: "pass3_state u lang ext rest olds syms asg k d1 ids"
    and cl: "\<forall>i < k. \<forall>j. asg ! i = Some j \<longrightarrow> ids ! i = n_id (olds ! j)"
    by auto
  have kl: "k < length syms" and len: "length ids = length syms"
    using Suc.prems st1 by (simp_all add: pass3_state_def)
  have "\<exists>d' x oc'. pass3_step u lang ext olds syms asg k (d1, ids, oc) = Inr (d', ids[k := Some x], oc') \<and>
      (\<forall>j. asg ! k = Some j \<longrightarrow> n_id (olds ! j) = Some x) \<and>
      pass3_state u lang ext rest olds syms asg (Suc k) d' (ids[k := Some x])"
  proof (cases "asg ! k")
    case None
    with pass3_step_fresh [OF set3 st1 kl] show ?thesis by simp
  next
    case (Some j)
    with pass3_step_claimed [OF set3 st1 kl Some] show ?thesis by auto
  qed
  then obtain d2 x oc' where step: "pass3_step u lang ext olds syms asg k (d1, ids, oc) = Inr (d2, ids[k := Some x], oc')"
    and x: "\<forall>j. asg ! k = Some j \<longrightarrow> n_id (olds ! j) = Some x"
    and st2: "pass3_state u lang ext rest olds syms asg (Suc k) d2 (ids[k := Some x])"
    by blast
  have "\<forall>i < Suc k. \<forall>j. asg ! i = Some j \<longrightarrow> ids[k := Some x] ! i = n_id (olds ! j)"
    using cl x len kl by (simp add: less_Suc_eq nth_list_update)
  with run step st2 show ?case by (auto simp: foldR_append)
qed

section \<open>Pass 4 as an effect on the set of rows\<close>

text \<open>The container reference of a row, after the rows with ids in \<open>D\<close> are deleted.\<close>

definition drop_container :: "int set \<Rightarrow> Node \<Rightarrow> Node" where
  "drop_container D n = (if n_container_id n \<in> Some ` D then n\<lparr>n_container_id := None\<rparr> else n)"

lemma drop_container_simps [simp]:
  "n_id (drop_container D n) = n_id n" "n_fqn (drop_container D n) = n_fqn n"
  "n_uri (drop_container D n) = n_uri n" "phys_key (drop_container D n) = phys_key n"
  "n_range (drop_container D n) = n_range n" "n_name (drop_container D n) = n_name n"
  "n_valid (drop_container D n) = n_valid n" "n_orphan (drop_container D n) = n_orphan n"
  "n_signature_hash (drop_container D n) = n_signature_hash n"
  "n_kind (drop_container D n) = n_kind n"
  by (simp_all add: drop_container_def phys_key_def)

lemma drop_container_empty [simp]: "drop_container {} n = n"
  by (simp add: drop_container_def)

lemma drop_container_insert: "drop_container {i} (drop_container D n) = drop_container (insert i D) n"
  by (simp add: drop_container_def)

lemma delete_node_rows:
  "set (db_nodes (delete_node i d)) = drop_container {i} ` {n \<in> set (db_nodes d). n_id n \<noteq> Some i}"
  by (auto simp: delete_node_def drop_container_def image_iff)

definition orphaned :: "Node \<Rightarrow> Node" where
  "orphaned n = n\<lparr>n_orphan := True, n_valid := False\<rparr>"

lemma orphaned_simps [simp]:
  "n_id (orphaned n) = n_id n" "n_fqn (orphaned n) = n_fqn n" "n_uri (orphaned n) = n_uri n"
  "n_name (orphaned n) = n_name n" "n_range (orphaned n) = n_range n"
  "n_container_id (orphaned n) = n_container_id n" "n_orphan (orphaned n)" "\<not> n_valid (orphaned n)"
  by (simp_all add: orphaned_def)

lemma orphan_row_parked:
  "orphan_row (start_line (n_range n)) (drop_container D (parked n)) = drop_container D (orphaned n)"
  by (simp add: orphan_row_def drop_container_def parked_def set_start_line_def orphaned_def)

text \<open>The ids of the deleted rows among the first \<open>k\<close> old rows: unclaimed second strikes.\<close>

definition deleted_ids :: "Node list \<Rightarrow> bool list \<Rightarrow> nat \<Rightarrow> int set" where
  "deleted_ids olds used k = {row_id (olds ! j) | j. j < k \<and> \<not> used ! j \<and> n_orphan (olds ! j)}"

definition orphaned_rows :: "Node list \<Rightarrow> bool list \<Rightarrow> nat \<Rightarrow> Node set" where
  "orphaned_rows olds used k = {orphaned (olds ! j) | j. j < k \<and> \<not> used ! j \<and> \<not> n_orphan (olds ! j)}"

definition waiting_rows :: "Node list \<Rightarrow> bool list \<Rightarrow> nat \<Rightarrow> Node set" where
  "waiting_rows olds used k = {parked (olds ! j) | j. k \<le> j \<and> j < length olds \<and> \<not> used ! j}"

text \<open>\<open>live\<close> are the rows pass 4 never writes: the other files' and the symbols'.\<close>

definition pass4_state :: "Node set \<Rightarrow> Node list \<Rightarrow> bool list \<Rightarrow> nat \<Rightarrow> Db \<Rightarrow> bool" where
  "pass4_state live olds used k d \<longleftrightarrow> wf_db d \<and>
     set (db_nodes d) = drop_container (deleted_ids olds used k) `
       (live \<union> orphaned_rows olds used k \<union> waiting_rows olds used k)"

text \<open>
  No live row of the file holds the key one of the first \<open>l\<close> rows goes back to when it is
  orphaned, and live rows are not unclaimed ones.
\<close>

definition restorable :: "string \<Rightarrow> Node set \<Rightarrow> Node list \<Rightarrow> bool list \<Rightarrow> nat \<Rightarrow> bool" where
  "restorable u live olds used l \<longleftrightarrow>
     (\<forall>j < l. \<not> used ! j \<longrightarrow> \<not> n_orphan (olds ! j) \<longrightarrow>
        (\<forall>n \<in> live. n_uri n = u \<longrightarrow> node_phys n \<noteq> node_phys (olds ! j))) \<and>
     (\<forall>j < length olds. \<not> used ! j \<longrightarrow> (\<forall>n \<in> live. n_id n \<noteq> n_id (olds ! j)))"

text \<open>What pass 4 relies on of the old rows.\<close>

definition pass4_setting :: "string \<Rightarrow> Node list \<Rightarrow> bool" where
  "pass4_setting u olds \<longleftrightarrow> distinct (map n_id olds) \<and> distinct (map node_phys olds) \<and>
     (\<forall>n \<in> set olds. n_uri n = u \<and> 1 \<le> row_id n \<and> n_id n = Some (row_id n) \<and>
        0 \<le> start_line (n_range n))"

lemma pass4_settingD:
  assumes "pass4_setting u olds"
  shows "distinct (map n_id olds)" "distinct (map node_phys olds)"
    and "n \<in> set olds \<Longrightarrow> n_uri n = u \<and> 1 \<le> row_id n \<and> n_id n = Some (row_id n) \<and>
        0 \<le> start_line (n_range n)"
  by (use assms in \<open>unfold pass4_setting_def, blast\<close>)+

lemma phys_key_eq: "phys_key m = phys_key n \<longleftrightarrow> n_uri m = n_uri n \<and> node_phys m = node_phys n"
  by (auto simp: phys_key_def node_phys_def)

lemma node_phys_simps [simp]:
  "node_phys (drop_container D n) = node_phys n" "node_phys (orphaned n) = node_phys n"
  by (simp_all add: node_phys_def)

lemma pass4_sets_Suc:
  "used ! k \<Longrightarrow> deleted_ids olds used (Suc k) = deleted_ids olds used k"
  "used ! k \<Longrightarrow> orphaned_rows olds used (Suc k) = orphaned_rows olds used k"
  "used ! k \<Longrightarrow> waiting_rows olds used k = waiting_rows olds used (Suc k)"
  "\<not> used ! k \<Longrightarrow> n_orphan (olds ! k) \<Longrightarrow>
     deleted_ids olds used (Suc k) = insert (row_id (olds ! k)) (deleted_ids olds used k)"
  "\<not> used ! k \<Longrightarrow> n_orphan (olds ! k) \<Longrightarrow> orphaned_rows olds used (Suc k) = orphaned_rows olds used k"
  "\<not> used ! k \<Longrightarrow> \<not> n_orphan (olds ! k) \<Longrightarrow>
     deleted_ids olds used (Suc k) = deleted_ids olds used k"
  "\<not> used ! k \<Longrightarrow> \<not> n_orphan (olds ! k) \<Longrightarrow>
     orphaned_rows olds used (Suc k) = insert (orphaned (olds ! k)) (orphaned_rows olds used k)"
  by (auto simp: deleted_ids_def orphaned_rows_def waiting_rows_def less_Suc_eq)
    (metis Suc_leI le_neq_implies_less)

text \<open>The rows of the state apart from the one with the id of old row \<open>k\<close>.\<close>

lemma pass4_others:
  assumes set4: "pass4_setting u olds" and res: "restorable u live olds used l"
    and st: "pass4_state live olds used k d" and k: "k < length olds" and un: "\<not> used ! k"
  shows "{m \<in> set (db_nodes d). n_id m \<noteq> n_id (olds ! k)} =
    drop_container (deleted_ids olds used k) `
      (live \<union> orphaned_rows olds used k \<union> waiting_rows olds used (Suc k))"
proof -
  let ?D = "deleted_ids olds used k"
  let ?S = "live \<union> orphaned_rows olds used k \<union> waiting_rows olds used k"
  have ne: "n_id (olds ! j) \<noteq> n_id (olds ! k)" if "j < length olds" "j \<noteq> k" for j
    using pass4_settingD(1) [OF set4] that k nth_eq_iff_index_eq [of "map n_id olds" j k] by simp
  have "{m \<in> ?S. n_id m \<noteq> n_id (olds ! k)} =
      live \<union> orphaned_rows olds used k \<union> waiting_rows olds used (Suc k)" (is "?l = ?r")
  proof
    show "?l \<subseteq> ?r"
    proof
      fix m assume m: "m \<in> ?l"
      show "m \<in> ?r"
      proof (cases "m \<in> waiting_rows olds used k")
        case True
        then obtain j where j: "k \<le> j" "j < length olds" "\<not> used ! j" "m = parked (olds ! j)"
          by (auto simp: waiting_rows_def)
        with m have "j \<noteq> k" by auto
        with j show ?thesis by (auto simp: waiting_rows_def intro!: exI [of _ j])
      qed (use m in auto)
    qed
    show "?r \<subseteq> ?l"
    proof
      fix m assume m: "m \<in> ?r"
      then consider (live) "m \<in> live" | (orph) j where "j < k" "m = orphaned (olds ! j)"
        | (wait) j where "k < j" "j < length olds" "m = parked (olds ! j)"
        by (auto simp: orphaned_rows_def waiting_rows_def Suc_le_eq)
      then have "n_id m \<noteq> n_id (olds ! k)"
      proof cases
        case live
        with res k un show ?thesis by (auto simp: restorable_def)
      next
        case orph
        with ne [of j] k show ?thesis by simp
      next
        case wait
        with ne [of j] show ?thesis by simp
      qed
      moreover have "m \<in> ?S" using m by (auto simp: waiting_rows_def)
      ultimately show "m \<in> ?l" by simp
    qed
  qed
  moreover have "{m \<in> set (db_nodes d). n_id m \<noteq> n_id (olds ! k)} =
      drop_container ?D ` {m \<in> ?S. n_id m \<noteq> n_id (olds ! k)}"
    using st by (auto simp: pass4_state_def)
  ultimately show ?thesis by simp
qed

lemma pass4_delete:
  assumes set4: "pass4_setting u olds" and res: "restorable u live olds used l"
    and st: "pass4_state live olds used k d" and k: "k < length olds"
    and un: "\<not> used ! k" "n_orphan (olds ! k)"
  shows "pass4_state live olds used (Suc k) (delete_node (row_id (olds ! k)) d)"
proof -
  have id: "n_id (olds ! k) = Some (row_id (olds ! k))"
    using pass4_settingD(3) [OF set4] k by simp
  have "set (db_nodes (delete_node (row_id (olds ! k)) d)) =
      drop_container {row_id (olds ! k)} ` {m \<in> set (db_nodes d). n_id m \<noteq> n_id (olds ! k)}"
    by (simp add: delete_node_rows id)
  also have "\<dots> = drop_container (deleted_ids olds used (Suc k)) `
      (live \<union> orphaned_rows olds used (Suc k) \<union> waiting_rows olds used (Suc k))"
    unfolding pass4_others [OF set4 res st k un(1)]
    using un by (simp add: image_image drop_container_insert pass4_sets_Suc)
  finally show ?thesis using st by (simp add: pass4_state_def delete_node_wf)
qed

lemma pass4_orphan:
  assumes set4: "pass4_setting u olds" and res: "restorable u live olds used l"
    and st: "pass4_state live olds used k d" and k: "k < length olds"
    and kl: "k < l" and un: "\<not> used ! k" "\<not> n_orphan (olds ! k)"
  obtains d' where "update_node (row_id (olds ! k)) (orphan_row (start_line (n_range (olds ! k)))) d = Inr d'"
    "pass4_state live olds used (Suc k) d'"
proof -
  let ?D = "deleted_ids olds used k"
  let ?n = "drop_container ?D (parked (olds ! k))" and ?n' = "drop_container ?D (orphaned (olds ! k))"
  have id: "n_id (olds ! k) = Some (row_id (olds ! k))" and u: "n_uri (olds ! k) = u"
    and nn: "0 \<le> start_line (n_range (olds ! k))"
    using pass4_settingD(3) [OF set4, of "olds ! k"] k by simp_all
  have wf: "wf_db d" using st by (simp add: pass4_state_def)
  have n: "?n \<in> set (db_nodes d)"
    using st k un by (auto simp: pass4_state_def waiting_rows_def intro!: imageI)
  have idn: "n_id ?n = Some (row_id (olds ! k))" using id by simp
  have n': "?n' = (orphan_row (start_line (n_range (olds ! k))) ?n)\<lparr>n_id := Some (row_id (olds ! k))\<rparr>"
    unfolding orphan_row_parked using id by (simp add: drop_container_def orphaned_def)
  have less: "set (db_nodes d) - {?n} = {m \<in> set (db_nodes d). n_id m \<noteq> n_id (olds ! k)}"
  proof -
    have "m = ?n \<longleftrightarrow> n_id m = n_id (olds ! k)" if "m \<in> set (db_nodes d)" for m
      using wf_node_eqI(1) [OF wf that n] idn id by metis
    then show ?thesis by blast
  qed
  note others = less [unfolded pass4_others [OF set4 res st k un(1)]]
  have free: "n_fqn m \<noteq> n_fqn ?n' \<and> phys_key m \<noteq> phys_key ?n'"
    if m: "m \<in> set (db_nodes d)" "m \<noteq> ?n" for m
  proof
    show "n_fqn m \<noteq> n_fqn ?n'" using wf_node_eqI(2) [OF wf m(1) n] m(2) by auto
    have "m \<in> drop_container ?D ` (live \<union> orphaned_rows olds used k \<union> waiting_rows olds used (Suc k))"
      using m others by blast
    then consider (live) x where "x \<in> live" "m = drop_container ?D x"
      | (orph) j where "j < k" "m = drop_container ?D (orphaned (olds ! j))"
      | (wait) j where "k < j" "j < length olds" "m = drop_container ?D (parked (olds ! j))"
      by (auto simp: orphaned_rows_def waiting_rows_def Suc_le_eq)
    then show "phys_key m \<noteq> phys_key ?n'"
    proof cases
      case live
      with res kl un u show ?thesis by (auto simp: phys_key_eq restorable_def)
    next
      case orph
      then have "node_phys (olds ! j) \<noteq> node_phys (olds ! k)"
        using pass4_settingD(2) [OF set4] k nth_eq_iff_index_eq [of "map node_phys olds" j k] by simp
      with orph show ?thesis by (simp add: phys_key_eq)
    next
      case wait
      then have "1 \<le> row_id (olds ! j)" using pass4_settingD(3) [OF set4] by simp
      with wait nn show ?thesis by (auto simp: phys_key_eq node_phys_def)
    qed
  qed
  have cont: "container_ok d ?n'"
  proof -
    have "n_container_id ?n' = n_container_id ?n" by (simp add: drop_container_def)
    then show ?thesis using wf n
      by (auto simp: container_ok_def wf_db_def wf_nodes_def node_exists_iff split: option.splits)
  qed
  obtain d' where d': "update_node (row_id (olds ! k)) (orphan_row (start_line (n_range (olds ! k)))) d = Inr d'"
      "wf_db d'" "set (db_nodes d') = insert ?n' (set (db_nodes d) - {?n})"
    by (rule update_node_ok [where f = "orphan_row (start_line (n_range (olds ! k)))",
          OF wf n idn n' free cont])
  have "set (db_nodes d') = drop_container (deleted_ids olds used (Suc k)) `
      (live \<union> orphaned_rows olds used (Suc k) \<union> waiting_rows olds used (Suc k))"
    unfolding d'(3) others using un by (simp add: pass4_sets_Suc)
  with d' show ?thesis by (intro that) (simp_all add: pass4_state_def)
qed

lemma pass4_upto:
  assumes set4: "pass4_setting u olds" and res: "restorable u live olds used l"
    and st: "pass4_state live olds used 0 d" and k: "k \<le> length olds" "k \<le> l"
  shows "\<exists>d' oc'. foldR (pass4_step olds used) [0..<k] (d, oc) = Inr (d', oc') \<and>
    pass4_state live olds used k d'"
  using k
proof (induction k)
  case 0
  with st show ?case by simp
next
  case (Suc k)
  then obtain d1 oc1 where run: "foldR (pass4_step olds used) [0..<k] (d, oc) = Inr (d1, oc1)"
    and st1: "pass4_state live olds used k d1" and kl: "k < length olds" "k < l"
    by auto
  have id: "n_id (olds ! k) = Some (row_id (olds ! k))"
    using pass4_settingD(3) [OF set4] kl(1) by simp
  have "\<exists>d2 oc2. pass4_step olds used k (d1, oc1) = Inr (d2, oc2) \<and> pass4_state live olds used (Suc k) d2"
  proof -
    consider (used) "used ! k" | (del) "\<not> used ! k" "n_orphan (olds ! k)"
      | (orph) "\<not> used ! k" "\<not> n_orphan (olds ! k)" by blast
    then show ?thesis
    proof cases
      case used
      with st1 show ?thesis by (simp add: pass4_step_def pass4_state_def pass4_sets_Suc)
    next
      case del
      with pass4_delete [OF set4 res st1 kl(1)] id show ?thesis by (simp add: pass4_step_def)
    next
      case orph
      obtain d2 where "update_node (row_id (olds ! k)) (orphan_row (start_line (n_range (olds ! k)))) d1 = Inr d2"
          "pass4_state live olds used (Suc k) d2"
        using pass4_orphan [OF set4 res st1 kl orph] by blast
      with orph id show ?thesis by (simp add: pass4_step_def)
    qed
  qed
  with run show ?case by (auto simp: foldR_append)
qed

section \<open>Pass 5 adds the contains edges\<close>

definition has_valid_edge :: "Db \<Rightarrow> Edge \<Rightarrow> bool" where
  "has_valid_edge d e \<longleftrightarrow> (\<exists>f \<in> set (db_edges d). edge_key f = edge_key e \<and> e_valid f)"

lemma upsert_edge_ok:
  assumes wf: "wf_db d" and "e_type e \<in> set edge_types" "e_valid e"
    "Some (e_src e) \<in> node_ids d" "Some (e_dst e) \<in> node_ids d"
  obtains i d' where "upsert_edge e d = Inr (i, d')" "wf_db d'" "db_nodes d' = db_nodes d"
    "has_valid_edge d' e" "\<And>x. has_valid_edge d x \<Longrightarrow> has_valid_edge d' x"
proof (cases "List.find (same_edge e) (db_edges d)")
  case None
  let ?i = "db_edge_seq d + 1"
  let ?d = "d\<lparr>db_edges := db_edges d @ [e\<lparr>e_id := Some ?i\<rparr>], db_edge_seq := ?i\<rparr>"
  have up: "upsert_edge e d = Inr (?i, ?d)"
    using assms None by (simp add: upsert_edge_def Let_def node_exists_iff)
  show ?thesis
    by (rule that [OF up upsert_edge_wf [OF wf up]])
      (use assms in \<open>auto simp: has_valid_edge_def edge_key_def\<close>)
next
  case (Some f)
  then have f: "f \<in> set (db_edges d)" "edge_key f = edge_key e"
    by (auto dest!: find_SomeD simp: same_edge_iff)
  then obtain i where i: "e_id f = Some i" using wf by (auto simp: wf_db_def wf_edges_def rows_ok_def)
  let ?g = "\<lambda>g. if e_id g = Some i then g\<lparr>e_valid := e_valid e, e_site := e_site e\<rparr> else g"
  let ?d = "d\<lparr>db_edges := map ?g (db_edges d)\<rparr>"
  have up: "upsert_edge e d = Inr (i, ?d)" using Some i by (simp add: upsert_edge_def)
  have key: "edge_key (?g g) = edge_key g" if "g \<in> set (db_edges d)" for g
  proof (cases "e_id g = Some i")
    case True
    then have "g = f" using wf_edge_eqI(1) [OF wf that f(1)] i by simp
    with f(2) True show ?thesis by (simp add: edge_key_def)
  qed simp
  have "has_valid_edge ?d e"
    unfolding has_valid_edge_def using f i key [OF f(1)] assms(3)
    by (intro bexI [of _ "?g f"]) auto
  moreover have "has_valid_edge ?d x" if "has_valid_edge d x" for x
  proof -
    from that obtain g where g: "g \<in> set (db_edges d)" "edge_key g = edge_key x" "e_valid g"
      unfolding has_valid_edge_def by blast
    show ?thesis unfolding has_valid_edge_def
    proof (rule bexI [of _ "?g g"])
      show "edge_key (?g g) = edge_key x \<and> e_valid (?g g)" using key [OF g(1)] g(2,3) assms(3) by simp
      show "?g g \<in> set (db_edges ?d)" using g(1) by simp
    qed
  qed
  ultimately show ?thesis
    by (intro that [OF up upsert_edge_wf [OF wf up]]) simp_all
qed

lemma parent_id_some:
  assumes "\<forall>i < length ids. ids ! i \<noteq> None" and "rs_parent s = Some p" "p < length ids"
  obtains c where "parent_id ids s = Inr (Some c)" "ids ! p = Some c"
  using assms by (fastforce simp: parent_id_def)

lemma pass5_upto:
  assumes wf: "wf_db d" and some: "\<forall>i < length ids. ids ! i \<noteq> None \<and> ids ! i \<in> node_ids d"
    and len: "length ids = length syms"
    and par: "\<forall>i < length syms. \<forall>p. rs_parent (syms ! i) = Some p \<longrightarrow> p < i"
    and k: "k \<le> length syms"
  shows "\<exists>d'. foldR (pass5_step syms ids) [0..<k] d = Inr d' \<and> wf_db d' \<and> db_nodes d' = db_nodes d \<and>
    (\<forall>i < k. \<forall>p x y. rs_parent (syms ! i) = Some p \<longrightarrow> ids ! p = Some x \<longrightarrow> ids ! i = Some y \<longrightarrow>
       has_valid_edge d' (contains_edge x y))"
  using k
proof (induction k)
  case 0
  with wf show ?case by simp
next
  case (Suc k)
  then obtain d1 where run: "foldR (pass5_step syms ids) [0..<k] d = Inr d1" and wf1: "wf_db d1"
    and nodes: "db_nodes d1 = db_nodes d" and kl: "k < length syms"
    and edges: "\<forall>i < k. \<forall>p x y. rs_parent (syms ! i) = Some p \<longrightarrow> ids ! p = Some x \<longrightarrow> ids ! i = Some y \<longrightarrow>
       has_valid_edge d1 (contains_edge x y)"
    by auto
  have nids: "node_ids d1 = node_ids d" using nodes by (simp add: node_ids_def)
  show ?case
  proof (cases "rs_parent (syms ! k)")
    case None
    then have "pass5_step syms ids k d1 = Inr d1" by (simp add: pass5_step_def parent_id_def)
    with run wf1 nodes edges None show ?thesis by (simp add: foldR_append less_Suc_eq)
  next
    case (Some p)
    then have p: "p < k" using par kl by blast
    obtain x where x: "parent_id ids (syms ! k) = Inr (Some x)" "ids ! p = Some x"
      using parent_id_some [of ids "syms ! k" p] some Some p kl len by auto
    obtain y where y: "ids ! k = Some y" using some kl len by auto
    have "Some x \<in> node_ids d1" "Some y \<in> node_ids d1"
      using some p kl len x(2) y nids by (metis order.strict_trans)+
    then obtain i d2 where d2: "upsert_edge (contains_edge x y) d1 = Inr (i, d2)" "wf_db d2"
        "db_nodes d2 = db_nodes d1" "has_valid_edge d2 (contains_edge x y)"
        "\<And>e. has_valid_edge d1 e \<Longrightarrow> has_valid_edge d2 e"
      using upsert_edge_ok [OF wf1, of "contains_edge x y"]
      by (auto simp: contains_edge_def edge_types_def)
    have "pass5_step syms ids k d1 = Inr d2" using x(1) y d2(1) by (simp add: pass5_step_def)
    with run d2 nodes edges Some x y show ?thesis by (simp add: foldR_append less_Suc_eq)
  qed
qed

section \<open>The whole transaction\<close>

text \<open>The restore of an orphan's position does not meet a symbol of the batch.\<close>

definition no_restore_clash :: "RowOrder \<Rightarrow> Hasher \<Rightarrow> string \<Rightarrow> Db \<Rightarrow> ReconcileSymbol list \<Rightarrow> bool" where
  "no_restore_clash ro H u d syms \<longleftrightarrow>
     (let olds = nodes_by_uri ro d u; used = fst (match_symbols H olds syms) in
      \<forall>j < length olds. \<not> used ! j \<longrightarrow> \<not> n_orphan (olds ! j) \<longrightarrow>
        node_phys (olds ! j) \<notin> sym_phys ` set syms)"

text \<open>
  The tables after a reconcile, given the ids of the symbols' rows: the other files' rows,
  the symbols' rows and the newly orphaned rows, without references to deleted ones.
\<close>

definition reconciled :: "RowOrder \<Rightarrow> Hasher \<Rightarrow> string \<Rightarrow> string \<Rightarrow> bool \<Rightarrow> ReconcileSymbol list \<Rightarrow> Db \<Rightarrow>
    int option list \<Rightarrow> Db \<Rightarrow> bool" where
  "reconciled ro H u lang ext syms d ids d' \<longleftrightarrow>
     (let olds = nodes_by_uri ro d u; st = match_symbols H olds syms;
          row = sym_row u lang ext olds syms (snd st) ids
      in length ids = length syms \<and>
         set (db_nodes d') = drop_container (deleted_ids olds (fst st) (length olds)) `
           ({n \<in> set (db_nodes d). n_uri n \<noteq> u} \<union> row ` {..<length syms} \<union>
            orphaned_rows olds (fst st) (length olds)) \<and>
         (\<forall>i < length syms. ids ! i \<noteq> None \<and> n_id (row i) = ids ! i) \<and>
         (\<forall>i < length syms. \<forall>j. snd st ! i = Some j \<longrightarrow> ids ! i = n_id (olds ! j)) \<and>
         (\<forall>j < length olds. \<not> fst st ! j \<longrightarrow> n_id (olds ! j) \<notin> set ids) \<and>
         (\<forall>i < length syms. \<forall>p x y. rs_parent (syms ! i) = Some p \<longrightarrow> ids ! p = Some x \<longrightarrow>
            ids ! i = Some y \<longrightarrow> has_valid_edge d' (contains_edge x y)))"

lemma nodes_by_uri_facts:
  assumes "row_order_ok ro" and wf: "wf_db d" and olds: "olds = nodes_by_uri ro d u"
  shows "set olds = {n \<in> set (db_nodes d). n_uri n = u}"
    and "distinct (map n_id olds)" "distinct (map n_fqn olds)" "distinct (map node_phys olds)"
    and "n \<in> set olds \<Longrightarrow> 1 \<le> row_id n \<and> n_id n = Some (row_id n)"
proof -
  let ?f = "filter (\<lambda>n. n_uri n = u) (db_nodes d)"
  have m: "mset olds = mset ?f" unfolding olds nodes_by_uri_def
    using assms(1) by (rule row_order_mset)
  then show set: "set olds = {n \<in> set (db_nodes d). n_uri n = u}"
    by (metis set_filter set_mset_mset)
  have d: "distinct (map g olds) = distinct (map g ?f)" for g :: "Node \<Rightarrow> 'b"
    using m by (metis mset_eq_imp_distinct_iff mset_map)
  have w: "distinct (map n_id (db_nodes d))" "distinct (map n_fqn (db_nodes d))"
    "distinct (map phys_key (db_nodes d))"
    using wf by (simp_all add: wf_db_def wf_nodes_def rows_ok_def)
  show "distinct (map n_id olds)" unfolding d using w(1) by (rule distinct_map_filter)
  show "distinct (map n_fqn olds)" unfolding d using w(2) by (rule distinct_map_filter)
  have "distinct (map phys_key ?f)" using w(3) by (rule distinct_map_filter)
  then show "distinct (map node_phys olds)" unfolding d
    by (auto simp: distinct_map inj_on_def phys_key_eq)
  assume "n \<in> set olds"
  then have "n \<in> set (db_nodes d)" using set by simp
  then show "1 \<le> row_id n \<and> n_id n = Some (row_id n)"
    using wf_node_idD [OF wf] by (fastforce simp: row_id_def)
qed

lemma match_pass3_setting:
  assumes ro: "row_order_ok ro" and wf: "wf_db d" and good: "good_batch u d syms"
    and olds: "olds = nodes_by_uri ro d u"
  shows "pass3_setting u {n \<in> set (db_nodes d). n_uri n \<noteq> u} olds syms (snd (match_symbols H olds syms))"
proof -
  note f = nodes_by_uri_facts [OF ro wf olds]
  note g = good [unfolded good_batch_def]
  have m: "match_inv (length olds) (length syms) (match_symbols H olds syms)"
    by (rule match_symbols_inv)
  have "snd (match_symbols H olds syms) ! i = Some j"
    if "i < length syms" "j < length olds" "n_fqn (olds ! j) = rs_fqn (syms ! i)" for i j
  proof -
    have "snd (pass1 olds syms (match_init olds syms)) ! i = Some j"
      using pass1_exact [OF _ f(3) that] g by blast
    moreover have "length (snd (pass1 olds syms (match_init olds syms))) = length syms"
      using pass1_init [of olds syms] by (simp add: pass1_inv_def match_inv_def)
    ultimately show ?thesis
      using match_symbols_extends [of olds syms H] that(1) by (auto simp: extends_def)
  qed
  moreover have "\<forall>n \<in> set olds. n_uri n = u \<and> 1 \<le> row_id n \<and> n_id n = Some (row_id n)"
    using f(1,5) by blast
  moreover have "\<forall>i < length syms. \<forall>j. snd (match_symbols H olds syms) ! i = Some j \<longrightarrow> j < length olds"
    "\<forall>i < length syms. \<forall>i' < length syms. \<forall>j. snd (match_symbols H olds syms) ! i = Some j \<longrightarrow>
        snd (match_symbols H olds syms) ! i' = Some j \<longrightarrow> i = i'"
    using m unfolding match_inv_def by blast+
  ultimately show ?thesis using f(2,3) g unfolding pass3_setting_def by blast
qed

lemma drop_container_empty_image [simp]: "drop_container {} ` A = A"
  by (simp add: image_def)

lemma pass4_initial:
  "deleted_ids olds used 0 = {}" "orphaned_rows olds used 0 = {}"
  "waiting_rows olds used (length olds) = {}"
  by (auto simp: deleted_ids_def orphaned_rows_def waiting_rows_def)

lemma restorable_after_pass3:
  assumes set3: "pass3_setting u rest olds syms asg"
    and st: "pass3_state u lang ext rest olds syms asg (length syms) d ids"
    and used: "\<forall>j < length olds. used ! j \<longleftrightarrow> (\<exists>i < length syms. asg ! i = Some j)"
    and clash: "\<forall>j < l. \<not> used ! j \<longrightarrow> \<not> n_orphan (olds ! j) \<longrightarrow>
        node_phys (olds ! j) \<notin> sym_phys ` set syms"
  shows "restorable u (rest \<union> sym_row u lang ext olds syms asg ids ` {..<length syms}) olds used l"
    (is "restorable u ?live olds used l")
  unfolding restorable_def
proof (intro conjI allI impI ballI)
  fix j n assume j: "j < l" "\<not> used ! j" "\<not> n_orphan (olds ! j)" and n: "n \<in> ?live" "n_uri n = u"
  have "n \<notin> rest" using pass3_settingD(6) [OF set3] n(2) by blast
  then obtain i where i: "i < length syms" "n = sym_row u lang ext olds syms asg ids i" using n(1) by auto
  then have "node_phys n \<in> sym_phys ` set syms" by (simp add: node_phys_def sym_phys_def)
  with clash j show "node_phys n \<noteq> node_phys (olds ! j)" by metis
next
  fix j n assume j: "j < length olds" "\<not> used ! j" and n: "n \<in> ?live"
  have wf: "wf_db d" and nodes: "set (db_nodes d) = ?live \<union> unclaimed_rows olds asg (length syms)"
    using st by (simp_all add: pass3_state_def pass3_rows_def)
  have p: "parked (olds ! j) \<in> set (db_nodes d)"
    using j used nodes by (auto simp: unclaimed_rows_def)
  show "n_id n \<noteq> n_id (olds ! j)"
  proof
    assume "n_id n = n_id (olds ! j)"
    then have eq: "n = parked (olds ! j)" using wf_node_eqI(1) [OF wf _ p] n nodes by auto
    have old: "n_uri (olds ! j) = u" "1 \<le> row_id (olds ! j)"
      using pass3_settingD(5) [OF set3 nth_mem [OF j(1)]] by simp_all
    have "n \<notin> rest" using pass3_settingD(6) [OF set3, of n] eq old(1) by auto
    then obtain i where i: "i < length syms" "n = sym_row u lang ext olds syms asg ids i" using n by auto
    have "0 \<le> start_line (n_range n)" using pass3_settingD(10) [OF set3] i by simp
    then show False using eq old(2) by simp
  qed
qed

lemma reconcile_to_pass3:
  assumes ro: "row_order_ok ro" and wf: "wf_db d" and good: "good_batch u d syms"
    and olds: "olds = nodes_by_uri ro d u" and st: "st = match_symbols H olds syms"
    and rest: "rest = {n \<in> set (db_nodes d). n_uri n \<noteq> u}"
  obtains d1 d2 ids oc2 where "park_all olds (drop_callees u d) = Inr d1"
    "pass3 u lang ext olds syms (snd st) d1 = Inr (d2, ids, oc2)"
    "pass3_state u lang ext rest olds syms (snd st) (length syms) d2 ids"
    "\<forall>i < length syms. \<forall>j. snd st ! i = Some j \<longrightarrow> ids ! i = n_id (olds ! j)"
    "pass3_setting u rest olds syms (snd st)" "pass4_setting u olds"
    "\<forall>j < length olds. fst st ! j \<longleftrightarrow> (\<exists>i < length syms. snd st ! i = Some j)"
proof -
  let ?no = "length olds" and ?ns = "length syms"
  let ?row = "sym_row u lang ext olds syms (snd st)"
  note f = nodes_by_uri_facts [OF ro wf olds]
  have set3: "pass3_setting u rest olds syms (snd st)"
    unfolding rest st by (rule match_pass3_setting [OF ro wf good olds])
  have m: "match_inv ?no ?ns st" unfolding st by (rule match_symbols_inv)
  have used: "\<forall>j < ?no. fst st ! j \<longleftrightarrow> (\<exists>i < ?ns. snd st ! i = Some j)"
    using m by (simp add: match_inv_def)
  have nn: "\<forall>n \<in> set olds. 0 \<le> start_line (n_range n)" using good f(1) by (auto simp: good_batch_def)
  obtain d1 where d1: "park_all olds (drop_callees u d) = Inr d1" "wf_db d1"
      "set (db_nodes d1) = (set (db_nodes d) - set olds) \<union> parked ` set olds"
  proof -
    have "set olds \<subseteq> set (db_nodes (drop_callees u d))" using f(1) by auto
    moreover have "distinct olds" using f(2) by (simp add: distinct_map)
    moreover have "\<forall>n \<in> set olds. n_uri n = u" using f(1) by blast
    moreover have "\<forall>n \<in> set (db_nodes (drop_callees u d)). n_uri n = u \<longrightarrow> 0 \<le> start_line (n_range n)"
      using nn f(1) by simp
    ultimately show ?thesis
      using that park_all_ok [OF drop_callees_wf [OF wf]] by (metis drop_callees_frame(1))
  qed
  have "pass3_state u lang ext rest olds syms (snd st) 0 d1 (replicate ?ns None)"
  proof -
    have "set (db_nodes d) - set olds = rest" using f(1) by (auto simp: rest)
    moreover have "parked ` set olds = unclaimed_rows olds (snd st) 0"
      by (auto simp: unclaimed_rows_def set_conv_nth)
    ultimately show ?thesis using d1 by (simp add: pass3_state_def pass3_rows_def)
  qed
  then obtain d2 ids oc2 where p3: "pass3 u lang ext olds syms (snd st) d1 = Inr (d2, ids, oc2)"
    and st2: "pass3_state u lang ext rest olds syms (snd st) ?ns d2 ids"
    and cl: "\<forall>i < ?ns. \<forall>j. snd st ! i = Some j \<longrightarrow> ids ! i = n_id (olds ! j)"
    using pass3_upto [OF set3, of lang ext d1 "replicate ?ns None" "?ns"] unfolding pass3_def by blast
  have set4: "pass4_setting u olds"
  proof -
    have "\<forall>n \<in> set olds. n_uri n = u \<and> 1 \<le> row_id n \<and> n_id n = Some (row_id n) \<and>
        0 \<le> start_line (n_range n)"
      using f(1,5) nn by blast
    then show ?thesis using f(2,4) unfolding pass4_setting_def by blast
  qed
  show ?thesis by (rule that [OF d1(1) p3 st2 cl set3 set4 used])
qed

text \<open>The state pass 4 starts from.\<close>

lemma pass4_start:
  assumes st2: "pass3_state u lang ext rest olds syms asg (length syms) d ids"
    and used: "\<forall>j < length olds. used ! j \<longleftrightarrow> (\<exists>i < length syms. asg ! i = Some j)"
  shows "pass4_state (rest \<union> sym_row u lang ext olds syms asg ids ` {..<length syms}) olds used 0 d"
proof -
  have "unclaimed_rows olds asg (length syms) = waiting_rows olds used 0"
    using used by (auto simp: unclaimed_rows_def waiting_rows_def)
  then show ?thesis
    using st2 by (simp add: pass4_state_def pass3_state_def pass3_rows_def pass4_initial)
qed

lemma reconcile_ok:
  assumes ro: "row_order_ok ro" and wf: "wf_db d" and good: "good_batch u d syms"
    and clash: "no_restore_clash ro H u d syms"
  shows "\<exists>oc d' ids. reconcile_tx ro H u lang ext syms d = Inr (oc, d') \<and> wf_db d' \<and>
    reconciled ro H u lang ext syms d ids d'"
proof -
  define olds where "olds = nodes_by_uri ro d u"
  define st where "st = match_symbols H olds syms"
  define rest where "rest = {n \<in> set (db_nodes d). n_uri n \<noteq> u}"
  let ?no = "length olds" and ?ns = "length syms"
  let ?row = "sym_row u lang ext olds syms (snd st)"
  obtain d1 d2 ids oc2 where d1: "park_all olds (drop_callees u d) = Inr d1"
    and p3: "pass3 u lang ext olds syms (snd st) d1 = Inr (d2, ids, oc2)"
    and st2: "pass3_state u lang ext rest olds syms (snd st) ?ns d2 ids"
    and cl: "\<forall>i < ?ns. \<forall>j. snd st ! i = Some j \<longrightarrow> ids ! i = n_id (olds ! j)"
    and set3: "pass3_setting u rest olds syms (snd st)" and set4: "pass4_setting u olds"
    and used: "\<forall>j < ?no. fst st ! j \<longleftrightarrow> (\<exists>i < ?ns. snd st ! i = Some j)"
    by (rule reconcile_to_pass3 [OF ro wf good olds_def st_def rest_def])
  define live where "live = rest \<union> ?row ids ` {..<?ns}"
  have res: "restorable u live olds (fst st) ?no"
    unfolding live_def using clash
    by (intro restorable_after_pass3 [OF set3 st2 used]) (simp add: no_restore_clash_def Let_def olds_def st_def)
  have "pass4_state live olds (fst st) 0 d2" unfolding live_def by (rule pass4_start [OF st2 used])
  then obtain d3 oc where p4: "pass4 olds (fst st) (d2, oc2) = Inr (d3, oc)"
    and st3: "pass4_state live olds (fst st) ?no d3"
    using pass4_upto [OF set4 res, of d2 ?no oc2] unfolding pass4_def by blast
  have nodes3: "set (db_nodes d3) = drop_container (deleted_ids olds (fst st) ?no) `
      (live \<union> orphaned_rows olds (fst st) ?no)" and wf3: "wf_db d3"
    using st3 by (simp_all add: pass4_state_def pass4_initial)
  have ids: "length ids = ?ns" "\<forall>i < ?ns. ids ! i \<noteq> None \<and> n_id (?row ids i) = ids ! i"
    using st2 by (simp_all add: pass3_state_def)
  have "ids ! i \<in> node_ids d3" if "i < ?ns" for i
  proof -
    have "drop_container (deleted_ids olds (fst st) ?no) (?row ids i) \<in> set (db_nodes d3)"
      using that nodes3 by (simp add: live_def)
    then show ?thesis unfolding node_ids_iff using ids(2) that by (metis drop_container_simps(1))
  qed
  then have some: "\<forall>i < length ids. ids ! i \<noteq> None \<and> ids ! i \<in> node_ids d3" using ids by simp
  obtain d4 where p5: "pass5 syms ids d3 = Inr d4" "wf_db d4" "db_nodes d4 = db_nodes d3"
    and edges: "\<forall>i < ?ns. \<forall>p x y. rs_parent (syms ! i) = Some p \<longrightarrow> ids ! p = Some x \<longrightarrow> ids ! i = Some y \<longrightarrow>
       has_valid_edge d4 (contains_edge x y)"
    using pass5_upto [OF wf3 some ids(1), of ?ns] good unfolding pass5_def good_batch_def by blast
  have fresh: "n_id (olds ! j) \<notin> set ids" if "j < ?no" "\<not> fst st ! j" for j
  proof
    assume "n_id (olds ! j) \<in> set ids"
    then obtain i where "i < ?ns" "ids ! i = n_id (olds ! j)" using ids(1) by (metis in_set_conv_nth)
    moreover have "?row ids i \<in> live" if "i < ?ns" for i using that by (simp add: live_def)
    ultimately show False using res that ids(2) unfolding restorable_def by metis
  qed
  have "reconcile_tx ro H u lang ext syms d = Inr (oc, d4)"
    unfolding reconcile_tx_Inr using d1 p3 p4 p5(1) unfolding olds_def st_def by blast
  moreover have "reconciled ro H u lang ext syms d ids d4"
    unfolding reconciled_def Let_def olds_def [symmetric] st_def [symmetric]
    using ids cl edges fresh p5(3) nodes3 by (simp add: live_def rest_def)
  ultimately show ?thesis using p5(2) by blast
qed

text \<open>The other case: the first orphan whose position a symbol has taken aborts the transaction.\<close>

lemma foldR_error:
  assumes "k < length xs" and "foldR f (take k xs) s = Inr t" and "f (xs ! k) t = Inl e"
  shows "foldR f xs s = Inl e"
proof -
  have "xs = take k xs @ xs ! k # drop (Suc k) xs" using assms(1) by (rule id_take_nth_drop)
  then have "foldR f xs s = foldR f (take k xs @ xs ! k # drop (Suc k) xs) s" by simp
  also have "\<dots> = Inl e" using assms(2,3) by (simp add: foldR_append)
  finally show ?thesis .
qed

lemma pass4_clash:
  assumes set4: "pass4_setting u olds" and res: "restorable u live olds used k"
    and st: "pass4_state live olds used k d" and k: "k < length olds"
    and un: "\<not> used ! k" "\<not> n_orphan (olds ! k)"
    and x: "x \<in> live" "n_uri x = u" "node_phys x = node_phys (olds ! k)"
  shows "pass4_step olds used k (d, oc) = Inl UniqueViolation"
proof -
  let ?D = "deleted_ids olds used k"
  have id: "n_id (olds ! k) = Some (row_id (olds ! k))" and u: "n_uri (olds ! k) = u"
    using pass4_settingD(3) [OF set4, of "olds ! k"] k by simp_all
  have wf: "wf_db d" and nodes: "set (db_nodes d) = drop_container ?D `
       (live \<union> orphaned_rows olds used k \<union> waiting_rows olds used k)"
    using st by (simp_all add: pass4_state_def)
  have "parked (olds ! k) \<in> waiting_rows olds used k" using k un by (auto simp: waiting_rows_def)
  then have "drop_container ?D (parked (olds ! k)) \<in> set (db_nodes d)" unfolding nodes by blast
  then have get: "get_node d (row_id (olds ! k)) = Some (drop_container ?D (parked (olds ! k)))"
    using wf id by (simp add: get_node_Some)
  let ?n' = "(drop_container ?D (orphaned (olds ! k)))\<lparr>n_id := Some (row_id (olds ! k))\<rparr>"
  have "drop_container ?D x \<in> set (db_nodes d)" unfolding nodes using x(1) by blast
  moreover have "n_id x \<noteq> Some (row_id (olds ! k))"
    using res k un(1) x(1) id by (auto simp: restorable_def)
  moreover have "phys_key ?n' = phys_key (drop_container ?D (orphaned (olds ! k)))"
    by (simp add: phys_key_def)
  then have "phys_key (drop_container ?D x) = phys_key ?n'"
    using x(2,3) u by (simp add: phys_key_eq)
  ultimately have "unique_clash d ?n'" unfolding unique_clash_def
    by (intro bexI [of _ "drop_container ?D x"]) simp_all
  then show ?thesis
    using un id get by (simp add: pass4_step_def update_node_def Let_def orphan_row_parked)
qed

lemma reconcile_clash:
  assumes ro: "row_order_ok ro" and wf: "wf_db d" and good: "good_batch u d syms"
    and clash: "\<not> no_restore_clash ro H u d syms"
  shows "reconcile_tx ro H u lang ext syms d = Inl UniqueViolation"
proof -
  define olds where "olds = nodes_by_uri ro d u"
  define st where "st = match_symbols H olds syms"
  define rest where "rest = {n \<in> set (db_nodes d). n_uri n \<noteq> u}"
  obtain d1 d2 ids oc2 where d1: "park_all olds (drop_callees u d) = Inr d1"
    and p3: "pass3 u lang ext olds syms (snd st) d1 = Inr (d2, ids, oc2)"
    and st2: "pass3_state u lang ext rest olds syms (snd st) (length syms) d2 ids"
    and set3: "pass3_setting u rest olds syms (snd st)" and set4: "pass4_setting u olds"
    and used: "\<forall>j < length olds. fst st ! j \<longleftrightarrow> (\<exists>i < length syms. snd st ! i = Some j)"
    by (rule reconcile_to_pass3 [OF ro wf good olds_def st_def rest_def])
  define live where "live = rest \<union> sym_row u lang ext olds syms (snd st) ids ` {..<length syms}"
  let ?P = "\<lambda>j. j < length olds \<and> \<not> fst st ! j \<and> \<not> n_orphan (olds ! j) \<and>
      node_phys (olds ! j) \<in> sym_phys ` set syms"
  have "\<exists>j. ?P j" using clash by (auto simp: no_restore_clash_def Let_def olds_def st_def)
  then obtain k where k: "?P k" and least: "\<forall>j < k. \<not> ?P j" 
    using exists_least_iff [of ?P] by blast
  have res: "restorable u live olds (fst st) k"
    unfolding live_def using least k
    by (intro restorable_after_pass3 [OF set3 st2 used]) (meson order.strict_trans)
  have st0: "pass4_state live olds (fst st) 0 d2" unfolding live_def by (rule pass4_start [OF st2 used])
  obtain d3 oc where p4: "foldR (pass4_step olds (fst st)) [0..<k] (d2, oc2) = Inr (d3, oc)"
    and st3: "pass4_state live olds (fst st) k d3"
    using pass4_upto [OF set4 res st0, of k oc2] k by auto
  from k obtain i where i: "i < length syms" "sym_phys (syms ! i) = node_phys (olds ! k)"
    by (metis imageE in_set_conv_nth)
  let ?x = "sym_row u lang ext olds syms (snd st) ids i"
  have x: "?x \<in> live" "node_phys ?x = node_phys (olds ! k)"
    using i by (simp_all add: live_def node_phys_def sym_phys_def)
  have "n_uri ?x = u" unfolding st_def
  proof (cases "snd (match_symbols H olds syms) ! i")
    case None
    then show "n_uri (sym_row u lang ext olds syms (snd (match_symbols H olds syms)) ids i) = u"
      by (simp add: sym_row_def)
  next
    case (Some j)
    then have "j < length olds" using match_symbols_claims(1) [OF i(1) Some] by simp
    then have "n_uri (olds ! j) = u" using pass4_settingD(3) [OF set4] by simp
    with Some show "n_uri (sym_row u lang ext olds syms (snd (match_symbols H olds syms)) ids i) = u"
      by (simp add: sym_row_def)
  qed
  then have step: "pass4_step olds (fst st) k (d3, oc) = Inl UniqueViolation"
    using pass4_clash [OF set4 res st3 _ _ _ x(1) _ x(2)] k by blast
  have "pass4 olds (fst st) (d2, oc2) = Inl UniqueViolation"
    unfolding pass4_def
    by (rule foldR_error [of k _ _ _ "(d3, oc)"]) (use k p4 step in \<open>simp_all add: take_upt\<close>)
  then show ?thesis using d1 p3 unfolding olds_def st_def
    by (simp add: reconcile_tx_def Let_def nodes_by_uri_def)
qed

end
