(* ===== verification/Reconcile_Props.thy ===== *)
theory Reconcile_Props
  imports Reconcile_Spec
begin

text \<open>
  The properties of \<open>reconcile_file_symbols\<close>: totality and effect on a fitting batch, the
  counts of the outcome, two-strike reclamation, repetition, and a batch that the code
  rolls back.
\<close>

section \<open>Reading the exact result\<close>

text \<open>The symbol's fields a reconciled row carries.\<close>

definition carries :: "string \<Rightarrow> ReconcileSymbol \<Rightarrow> Node \<Rightarrow> bool" where
  "carries u s n \<longleftrightarrow> n_uri n = u \<and> n_fqn n = rs_fqn s \<and> n_name n = rs_name s \<and>
     n_kind n = rs_kind s \<and> n_range n = rs_range s \<and>
     n_signature_hash n = Some (rs_signature_hash s) \<and> n_valid n \<and> \<not> n_orphan n"

lemma reconciled_rows:
  assumes "reconciled ro H u lang ext syms d ids d'"
    and olds: "olds = nodes_by_uri ro d u" and st: "st = match_symbols H olds syms"
  obtains D where "D = deleted_ids olds (fst st) (length olds)"
    "set (db_nodes d') = drop_container D ` ({n \<in> set (db_nodes d). n_uri n \<noteq> u} \<union>
       sym_row u lang ext olds syms (snd st) ids ` {..<length syms} \<union>
       orphaned_rows olds (fst st) (length olds))"
    "\<forall>i < length syms. ids ! i \<noteq> None \<and> n_id (sym_row u lang ext olds syms (snd st) ids i) = ids ! i"
    "\<forall>i < length syms. \<forall>j. snd st ! i = Some j \<longrightarrow> ids ! i = n_id (olds ! j)"
    "length ids = length syms"
    "\<forall>j < length olds. \<not> fst st ! j \<longrightarrow> n_id (olds ! j) \<notin> set ids"
  using assms by (simp add: reconciled_def Let_def)

lemma reconciled_parts:
  assumes "reconciled ro H u lang ext syms d ids d'"
    and olds: "olds = nodes_by_uri ro d u" and st: "st = match_symbols H olds syms"
  shows "length ids = length syms"
    and "set (db_nodes d') = drop_container (deleted_ids olds (fst st) (length olds)) ` ({n \<in> set (db_nodes d). n_uri n \<noteq> u} \<union>
       sym_row u lang ext olds syms (snd st) ids ` {..<length syms} \<union> orphaned_rows olds (fst st) (length olds))"
    and "i < length syms \<Longrightarrow> n_id (sym_row u lang ext olds syms (snd st) ids i) = ids ! i"
    and "i < length syms \<Longrightarrow> snd st ! i = Some j \<Longrightarrow> ids ! i = n_id (olds ! j)"
    and "j < length olds \<Longrightarrow> \<not> fst st ! j \<Longrightarrow> n_id (olds ! j) \<notin> set ids"
  using assms by (simp_all add: reconciled_def Let_def)

lemma sym_row_uri:
  assumes "row_order_ok ro" "wf_db d" "olds = nodes_by_uri ro d u" "i < length syms"
  shows "n_uri (sym_row u lang ext olds syms (snd (match_symbols H olds syms)) ids i) = u"
proof (cases "snd (match_symbols H olds syms) ! i")
  case None
  then show ?thesis by (simp add: sym_row_def)
next
  case (Some j)
  then have "olds ! j \<in> set olds" using match_symbols_claims(1) [OF assms(4) Some] by simp
  then have "n_uri (olds ! j) = u" using nodes_by_uri_facts(1) [OF assms(1-3)] by simp
  with Some show ?thesis by (simp add: sym_row_def)
qed

lemma sym_row_carries:
  assumes "row_order_ok ro" "wf_db d" "olds = nodes_by_uri ro d u" "i < length syms"
  shows "carries u (syms ! i)
    (drop_container D (sym_row u lang ext olds syms (snd (match_symbols H olds syms)) ids i))"
  using sym_row_uri [OF assms] by (simp add: carries_def)

lemma drop_container_part:
  assumes "\<And>n. n \<in> A \<Longrightarrow> P (n_uri n)" and "\<And>n. n \<in> B \<union> C \<Longrightarrow> \<not> P (n_uri n)"
  shows "{n \<in> drop_container D ` (A \<union> B \<union> C). P (n_uri n)} = drop_container D ` A"
  using assms by auto

text \<open>A row that was an orphan already and that no symbol claims is deleted.\<close>

lemma unclaimed_orphan_gone:
  assumes "wf_db d" and ro: "row_order_ok ro"
    and rec: "reconciled ro H u lang ext syms d ids d'" and olds: "olds = nodes_by_uri ro d u"
    and un: "j < length olds" "\<not> fst (match_symbols H olds syms) ! j" "n_orphan (olds ! j)"
  shows "n_id (olds ! j) \<notin> node_ids d'"
proof
  define st where "st = match_symbols H olds syms"
  obtain D where D: "set (db_nodes d') = drop_container D ` ({n \<in> set (db_nodes d). n_uri n \<noteq> u} \<union>
       sym_row u lang ext olds syms (snd st) ids ` {..<length syms} \<union> orphaned_rows olds (fst st) (length olds))"
    and ids: "\<forall>i < length syms. ids ! i \<noteq> None \<and> n_id (sym_row u lang ext olds syms (snd st) ids i) = ids ! i"
    and len: "length ids = length syms"
    and un_ids: "\<forall>j < length olds. \<not> fst st ! j \<longrightarrow> n_id (olds ! j) \<notin> set ids"
    using reconciled_rows [OF rec olds st_def] by blast
  note f = nodes_by_uri_facts [OF ro assms(1) olds]
  assume "n_id (olds ! j) \<in> node_ids d'"
  then obtain n where n: "n \<in> set (db_nodes d')" "n_id n = n_id (olds ! j)" by (auto simp: node_ids_iff)
  then consider x where "x \<in> set (db_nodes d)" "n_uri x \<noteq> u" "n_id x = n_id (olds ! j)"
    | i where "i < length syms" "n_id (sym_row u lang ext olds syms (snd st) ids i) = n_id (olds ! j)"
    | j' where "j' < length olds" "\<not> n_orphan (olds ! j')" "n_id (olds ! j') = n_id (olds ! j)"
    unfolding D by (auto simp: orphaned_rows_def)
  then show False
  proof cases
    case 1
    have "olds ! j \<in> set (db_nodes d)" "n_uri (olds ! j) = u" using f(1) nth_mem [OF un(1)] by simp_all
    with 1 show ?thesis using wf_node_eqI(1) [OF assms(1)] by blast
  next
    case 2
    then have "n_id (olds ! j) \<in> set ids" using ids len by (metis nth_mem)
    with un_ids un st_def show ?thesis by blast
  next
    case 3
    then have "j' = j" using f(2) un(1) nth_eq_iff_index_eq [of "map n_id olds" j' j] by simp
    with 3 un show ?thesis by simp
  qed
qed

text \<open>C5: On well-formed tables a reconcile of a fitting batch goes through, provided that no row it
  orphans sits where a symbol of the batch with its identifier now starts (the only reason for a
  refusal there is). Afterwards every symbol has a live row carrying it and every live row of the
  file is one of the batch's; no parking sentinel is left behind; and the rows of other files are
  exactly what they were, except that references to rows of this file that were orphans before
  and are deleted now are cleared.\<close>

theorem reconcile_total:
  assumes "row_order_ok ro" and "wf_db d" and "good_batch u d syms"
    and "no_restore_clash ro H u d syms"
  shows "\<exists>oc d'. reconcile_file_symbols ro H u lang ext syms d = (Inr oc, d') \<and>
    (\<forall>s \<in> set syms. \<exists>n \<in> set (db_nodes d'). carries u s n) \<and>
    (\<forall>n \<in> set (db_nodes d'). n_uri n = u \<longrightarrow>
       0 \<le> start_line (n_range n) \<and> (n_valid n \<longrightarrow> (\<exists>s \<in> set syms. carries u s n))) \<and>
    (\<exists>D. (\<forall>i \<in> D. Some i \<notin> node_ids d' \<and> (\<exists>n \<in> set (db_nodes d). n_id n = Some i \<and> n_uri n = u \<and> n_orphan n)) \<and>
       {n \<in> set (db_nodes d'). n_uri n \<noteq> u} = drop_container D ` {n \<in> set (db_nodes d). n_uri n \<noteq> u})"
proof -
  obtain oc d' ids where run: "reconcile_tx ro H u lang ext syms d = Inr (oc, d')"
    and rec: "reconciled ro H u lang ext syms d ids d'"
    using reconcile_ok [OF assms] by blast
  define olds where "olds = nodes_by_uri ro d u"
  define st where "st = match_symbols H olds syms"
  define D where "D = deleted_ids olds (fst st) (length olds)"
  have D: "set (db_nodes d') = drop_container D ` ({n \<in> set (db_nodes d). n_uri n \<noteq> u} \<union>
       sym_row u lang ext olds syms (snd st) ids ` {..<length syms} \<union>
       orphaned_rows olds (fst st) (length olds))"
    using rec by (simp add: reconciled_def Let_def olds_def st_def D_def)
  note f = nodes_by_uri_facts [OF assms(1,2) olds_def]
  have car: "carries u (syms ! i) (drop_container D (sym_row u lang ext olds syms (snd st) ids i))"
    if "i < length syms" for i
    unfolding st_def by (rule sym_row_carries [OF assms(1,2) olds_def that])
  have 1: "\<forall>s \<in> set syms. \<exists>n \<in> set (db_nodes d'). carries u s n"
  proof
    fix s assume "s \<in> set syms"
    then obtain i where "i < length syms" "s = syms ! i" by (auto simp: in_set_conv_nth)
    then have "drop_container D (sym_row u lang ext olds syms (snd st) ids i) \<in> set (db_nodes d')"
      unfolding D by blast
    with car [OF \<open>i < length syms\<close>] \<open>s = syms ! i\<close> show "\<exists>n \<in> set (db_nodes d'). carries u s n" by blast
  qed
  have 2: "0 \<le> start_line (n_range n) \<and> (n_valid n \<longrightarrow> (\<exists>s \<in> set syms. carries u s n))"
    if n: "n \<in> set (db_nodes d')" "n_uri n = u" for n
  proof -
    from n D consider i where "i < length syms" "n = drop_container D (sym_row u lang ext olds syms (snd st) ids i)"
      | j where "j < length olds" "n = drop_container D (orphaned (olds ! j))"
      by (auto simp: orphaned_rows_def)
    then show ?thesis
    proof cases
      case 1
      with assms(3) car [of i] show ?thesis by (auto simp: good_batch_def carries_def)
    next
      case 2
      then have "olds ! j \<in> set olds" by simp
      then have "0 \<le> start_line (n_range (olds ! j))"
        using nodes_by_uri_facts(1) [OF assms(1,2) olds_def] assms(3) by (simp add: good_batch_def)
      with 2 show ?thesis by simp
    qed
  qed
  have gone: "Some i \<notin> node_ids d' \<and> (\<exists>n \<in> set (db_nodes d). n_id n = Some i \<and> n_uri n = u \<and> n_orphan n)" if "i \<in> D" for i
  proof -
    from that obtain j where j: "i = row_id (olds ! j)" "j < length olds" "\<not> fst st ! j" "n_orphan (olds ! j)"
      unfolding D_def deleted_ids_def by blast
    then have id: "n_id (olds ! j) = Some i" using f(5) by simp
    have "olds ! j \<in> set (db_nodes d)" "n_uri (olds ! j) = u" using f(1) nth_mem [OF j(2)] by simp_all
    moreover have "n_id (olds ! j) \<notin> node_ids d'"
      using unclaimed_orphan_gone [OF assms(2,1) rec olds_def j(2) _ j(4)] j(3) by (simp add: st_def)
    ultimately show ?thesis using id j(4) by auto
  qed
  have uris: "n_uri n = u" if "n \<in> sym_row u lang ext olds syms (snd st) ids ` {..<length syms} \<union> orphaned_rows olds (fst st) (length olds)" for n
    using that
  proof
    assume "n \<in> sym_row u lang ext olds syms (snd st) ids ` {..<length syms}"
    then show ?thesis using sym_row_uri [OF assms(1,2) olds_def] unfolding st_def by blast
  next
    assume "n \<in> orphaned_rows olds (fst st) (length olds)"
    then obtain j where "j < length olds" "n = orphaned (olds ! j)" unfolding orphaned_rows_def by blast
    with f(1) nth_mem [of j olds] show ?thesis by simp
  qed
  have 3: "{n \<in> set (db_nodes d'). n_uri n \<noteq> u} = drop_container D ` {n \<in> set (db_nodes d). n_uri n \<noteq> u}"
    unfolding D by (rule drop_container_part [where P = "\<lambda>v. v \<noteq> u"]) (use uris in blast)+
  have tail: "\<exists>D. (\<forall>i \<in> D. Some i \<notin> node_ids d' \<and> (\<exists>n \<in> set (db_nodes d). n_id n = Some i \<and> n_uri n = u \<and> n_orphan n)) \<and>
       {n \<in> set (db_nodes d'). n_uri n \<noteq> u} = drop_container D ` {n \<in> set (db_nodes d). n_uri n \<noteq> u}"
    using gone 3 by blast
  have "reconcile_file_symbols ro H u lang ext syms d = (Inr oc, d')" using run by (simp add: reconcile_file_symbols_def)
  with 1 2 tail show ?thesis by blast
qed

section \<open>A sample table\<close>

text \<open>Two live rows, one orphan and a row of another file, and a batch that keeps one name.\<close>

definition rec_db :: Db where
  "rec_db = empty_db\<lparr>db_nodes := [row_at (Some 1) ''m.keep'' ''u'' ''keep'' 5 ''a'',
      row_at (Some 2) ''m.gone'' ''u'' ''gone'' 20 ''b'',
      (row_at (Some 3) ''m.old'' ''u'' ''old'' 40 ''c'')\<lparr>n_orphan := True, n_valid := False\<rparr>,
      (row_at (Some 4) ''x.f'' ''v'' ''f'' 0 ''e'')\<lparr>n_container_id := Some 3\<rparr>],
    db_node_seq := 4\<rparr>"

definition rec_syms :: "ReconcileSymbol list" where
  "rec_syms = [symbol_at ''m.keep'' ''keep'' 7 ''d'' None, symbol_at ''m.keep.in'' ''in'' 8 ''f'' (Some 0)]"

lemmas rec_sample_defs = rec_db_def rec_syms_def row_at_def symbol_at_def line_range_def empty_db_def

lemma rec_db_wf: "wf_db rec_db"
  by (simp add: rec_sample_defs wf_db_def wf_nodes_def wf_edges_def wf_caches_def rows_ok_def
      node_ids_def phys_key_def)

lemma rec_good: "good_batch ''u'' rec_db rec_syms"
  by (auto simp: rec_sample_defs good_batch_def sym_phys_def less_Suc_eq nth_Cons')

lemma rec_no_clash: "no_restore_clash table_order const_hasher ''u'' rec_db rec_syms"
  by code_simp

theorem reconcile_total_witness:
  "\<exists>oc d'. reconcile_file_symbols table_order const_hasher ''u'' ''python'' False rec_syms rec_db
      = (Inr oc, d') \<and>
    (\<forall>s \<in> set rec_syms. \<exists>n \<in> set (db_nodes d'). carries ''u'' s n) \<and>
    (\<forall>n \<in> set (db_nodes d'). n_uri n = ''u'' \<longrightarrow>
       0 \<le> start_line (n_range n) \<and> (n_valid n \<longrightarrow> (\<exists>s \<in> set rec_syms. carries ''u'' s n))) \<and>
    (\<exists>D. (\<forall>i \<in> D. Some i \<notin> node_ids d' \<and> (\<exists>n \<in> set (db_nodes rec_db). n_id n = Some i \<and> n_uri n = ''u'' \<and> n_orphan n)) \<and>
       {n \<in> set (db_nodes d'). n_uri n \<noteq> ''u''} = drop_container D ` {n \<in> set (db_nodes rec_db). n_uri n \<noteq> ''u''})"
  by (rule reconcile_total [OF row_order_ok_table_order rec_db_wf rec_good rec_no_clash])

section \<open>Identity, orphans and the two strikes\<close>

lemma reconcile_run:
  assumes "row_order_ok ro" and "wf_db d" and "good_batch u d syms"
    and "no_restore_clash ro H u d syms"
    and "reconcile_file_symbols ro H u lang ext syms d = (Inr oc, d')"
  shows "reconcile_tx ro H u lang ext syms d = Inr (oc, d')"
    and "wf_db d'" and "\<exists>ids. reconciled ro H u lang ext syms d ids d'"
proof -
  show "reconcile_tx ro H u lang ext syms d = Inr (oc, d')"
    using assms(5) by (auto simp: reconcile_file_symbols_def split: sum.splits)
  then show "wf_db d'" "\<exists>ids. reconciled ro H u lang ext syms d ids d'"
    using reconcile_ok [OF assms(1-4), of lang ext] by auto
qed

text \<open>C8: Row identity is by name, and reclamation takes two strikes. Under the
  conditions above a row whose name is in the batch keeps its id; a live row that no symbol claims stays,
  with its id, name and position, flagged orphan and invalid; a row that was already an
  orphan and is not claimed is gone.\<close>

theorem reconcile_two_strikes:
  assumes "row_order_ok ro" and "wf_db d" and "good_batch u d syms"
    and "no_restore_clash ro H u d syms"
    and run: "reconcile_file_symbols ro H u lang ext syms d = (Inr oc, d')"
    and j: "j < length (nodes_by_uri ro d u)" and old: "old = nodes_by_uri ro d u ! j"
  shows "(n_fqn old \<in> rs_fqn ` set syms \<longrightarrow>
       (\<exists>n \<in> set (db_nodes d'). n_id n = n_id old \<and> n_fqn n = n_fqn old \<and> n_valid n)) \<and>
    (\<not> fst (match_symbols H (nodes_by_uri ro d u) syms) ! j \<longrightarrow> \<not> n_orphan old \<longrightarrow>
       (\<exists>n \<in> set (db_nodes d'). n_id n = n_id old \<and> n_fqn n = n_fqn old \<and> n_range n = n_range old \<and>
          n_orphan n \<and> \<not> n_valid n)) \<and>
    (\<not> fst (match_symbols H (nodes_by_uri ro d u) syms) ! j \<longrightarrow> n_orphan old \<longrightarrow>
       n_id old \<notin> node_ids d')"
proof -
  define olds where "olds = nodes_by_uri ro d u"
  define st where "st = match_symbols H olds syms"
  let ?row = "sym_row u lang ext olds syms (snd st)"
  let ?no = "length olds"
  obtain ids where rec: "reconciled ro H u lang ext syms d ids d'"
    using reconcile_run(3) [OF assms(1-4) run] by blast
  obtain D where Ddef: "D = deleted_ids olds (fst st) ?no"
    and D: "set (db_nodes d') = drop_container D ` ({n \<in> set (db_nodes d). n_uri n \<noteq> u} \<union>
       ?row ids ` {..<length syms} \<union> orphaned_rows olds (fst st) ?no)"
    and ids: "\<forall>i < length syms. ids ! i \<noteq> None \<and> n_id (?row ids i) = ids ! i"
    and cl: "\<forall>i < length syms. \<forall>j. snd st ! i = Some j \<longrightarrow> ids ! i = n_id (olds ! j)"
    and len: "length ids = length syms"
    and un_ids: "\<forall>j < ?no. \<not> fst st ! j \<longrightarrow> n_id (olds ! j) \<notin> set ids"
    using reconciled_rows [OF rec olds_def st_def] by blast
  have jo: "j < ?no" "old = olds ! j" using j old by (simp_all add: olds_def)
  note f = nodes_by_uri_facts [OF assms(1,2) olds_def]
  note set3 = match_pass3_setting [OF assms(1-3) olds_def, of H, folded st_def]
  have row_in: "drop_container D (?row ids i) \<in> set (db_nodes d')" if "i < length syms" for i
    unfolding D using that by blast
  have 1: "\<exists>n \<in> set (db_nodes d'). n_id n = n_id old \<and> n_fqn n = n_fqn old \<and> n_valid n"
    if "n_fqn old \<in> rs_fqn ` set syms"
  proof -
    from that obtain i where i: "i < length syms" "n_fqn old = rs_fqn (syms ! i)"
      by (metis imageE in_set_conv_nth)
    then have "snd st ! i = Some j" using pass3_settingD(11) [OF set3 i(1) jo(1)] jo(2) by simp
    then have "n_id (?row ids i) = n_id old" using ids cl i(1) jo(2) by metis
    then show ?thesis using row_in [OF i(1)] i(2)
      by (intro bexI [of _ "drop_container D (?row ids i)"]) simp_all
  qed
  have 2: "\<exists>n \<in> set (db_nodes d'). n_id n = n_id old \<and> n_fqn n = n_fqn old \<and> n_range n = n_range old \<and>
          n_orphan n \<and> \<not> n_valid n" if "\<not> fst st ! j" "\<not> n_orphan old"
  proof -
    have "orphaned old \<in> orphaned_rows olds (fst st) ?no" using that jo by (auto simp: orphaned_rows_def)
    then have "drop_container D (orphaned old) \<in> set (db_nodes d')" unfolding D by blast
    then show ?thesis by (intro bexI [of _ "drop_container D (orphaned old)"]) simp_all
  qed
  have 3: "n_id old \<notin> node_ids d'" if un: "\<not> fst st ! j" "n_orphan old"
    unfolding jo(2) by (rule unclaimed_orphan_gone [OF assms(2,1) rec olds_def jo(1)]) (use un jo st_def in simp_all)
  show ?thesis using 1 2 3 by (simp add: olds_def [symmetric] st_def [symmetric])
qed

definition rec_out :: "ReconcileOutcome \<times> Db" where
  "rec_out = (let r = reconcile_file_symbols table_order const_hasher ''u'' ''python'' False rec_syms rec_db
     in (case fst r of Inr oc \<Rightarrow> oc | Inl _ \<Rightarrow> outcome_default, snd r))"

lemma rec_out_run:
  "reconcile_file_symbols table_order const_hasher ''u'' ''python'' False rec_syms rec_db
     = (Inr (fst rec_out), snd rec_out)"
proof -
  obtain oc d' where "reconcile_tx table_order const_hasher ''u'' ''python'' False rec_syms rec_db = Inr (oc, d')"
    using reconcile_ok [OF row_order_ok_table_order rec_db_wf rec_good rec_no_clash] by blast
  then show ?thesis by (simp add: rec_out_def reconcile_file_symbols_def Let_def)
qed

lemma rec_matching:
  "fst (match_symbols const_hasher (nodes_by_uri table_order rec_db ''u'') rec_syms) = [True, False, False]"
  by code_simp

lemma rec_olds:
  "map n_id (nodes_by_uri table_order rec_db ''u'') = [Some 1, Some 2, Some 3]"
  "map n_orphan (nodes_by_uri table_order rec_db ''u'') = [False, False, True]"
  by (code_simp, code_simp)

theorem reconcile_two_strikes_witness:
  "(\<exists>n \<in> set (db_nodes (snd rec_out)). n_id n = Some 2 \<and> n_orphan n \<and> \<not> n_valid n)"
proof -
  have len: "1 < length (nodes_by_uri table_order rec_db ''u'')"
    using rec_olds(1) by (metis length_map length_Cons list.size(3) One_nat_def less_Suc_eq zero_less_Suc)
  have id: "n_id (nodes_by_uri table_order rec_db ''u'' ! 1) = Some 2"
    "\<not> n_orphan (nodes_by_uri table_order rec_db ''u'' ! 1)"
    using rec_olds len by (metis nth_map nth_Cons_Suc nth_Cons_0 One_nat_def)+
  show ?thesis
    using reconcile_two_strikes [OF row_order_ok_table_order rec_db_wf rec_good rec_no_clash
        rec_out_run len refl] id
    by (auto simp: rec_matching)
qed

section \<open>The counts\<close>

lemma filter_partition_length:
  "length (filter (\<lambda>x. P x \<and> \<not> Q x) xs) + length (filter (\<lambda>x. P x \<and> Q x) xs) = length (filter P xs)"
  by (induction xs) auto

text \<open>As many symbols are assigned as rows are used.\<close>

lemma assigned_eq_used:
  assumes "match_inv no ns st"
  shows "length (filter (\<lambda>i. snd st ! i \<noteq> None) [0..<ns]) = length (filter (\<lambda>j. fst st ! j) [0..<no])"
proof -
  let ?I = "{i. i < ns \<and> snd st ! i \<noteq> None}" and ?J = "{j. j < no \<and> fst st ! j}"
  have inj: "inj_on (\<lambda>i. the (snd st ! i)) ?I"
    using assms by (auto simp: match_inv_def inj_on_def)
  have img: "(\<lambda>i. the (snd st ! i)) ` ?I = ?J"
  proof (intro set_eqI iffI)
    fix j assume "j \<in> (\<lambda>i. the (snd st ! i)) ` ?I"
    then obtain i where "i < ns" "snd st ! i = Some j" by auto
    then show "j \<in> ?J" using assms by (auto simp: match_inv_def)
  next
    fix j assume "j \<in> ?J"
    then obtain i where "i < ns" "snd st ! i = Some j" using assms by (auto simp: match_inv_def)
    then show "j \<in> (\<lambda>i. the (snd st ! i)) ` ?I" by (intro image_eqI [of _ _ i]) auto
  qed
  have "length (filter P [0..<n]) = card {i. i < n \<and> P i}" for P :: "nat \<Rightarrow> bool" and n
  proof -
    have "length (filter P [0..<n]) = card (set (filter P [0..<n]))"
      by (rule distinct_card [symmetric]) simp
    also have "set (filter P [0..<n]) = {i. i < n \<and> P i}" by auto
    finally show ?thesis .
  qed
  then show ?thesis using card_image [OF inj] img by simp
qed

text \<open>the outcome accounts for everything exactly once. Of a successful reconcile,
  unchanged, updated, renamed and inserted add up to the batch, and unchanged, updated,
  renamed, orphaned and deleted add up to the rows the file had.\<close>

theorem reconcile_counts:
  assumes "reconcile_file_symbols ro H u lang ext syms d = (Inr oc, d')"
  shows "ro_unchanged oc + ro_updated oc + ro_renamed oc + ro_inserted oc = length syms \<and>
    ro_unchanged oc + ro_updated oc + ro_renamed oc + ro_orphaned oc + ro_deleted oc
      = length (nodes_by_uri ro d u)"
proof -
  let ?olds = "nodes_by_uri ro d u"
  let ?st = "match_symbols H ?olds syms"
  have "reconcile_tx ro H u lang ext syms d = Inr (oc, d')"
    using assms by (auto simp: reconcile_file_symbols_def split: sum.splits)
  then obtain d1 d2 ids oc2 d3 where
    p3: "pass3 u lang ext ?olds syms (snd ?st) d1 = Inr (d2, ids, oc2)" and
    p4: "pass4 ?olds (fst ?st) (d2, oc2) = Inr (d3, oc)"
    unfolding reconcile_tx_Inr by blast
  note c3 = pass3_counts_upto [OF p3 [unfolded pass3_def]]
  note c4 = pass4_counts_upto [OF p4 [unfolded pass4_def]]
  have "ro_orphaned oc + ro_deleted oc = length (filter (\<lambda>j. \<not> fst ?st ! j) [0..<length ?olds])"
    using c3 c4 filter_partition_length [of "\<lambda>j. \<not> fst ?st ! j" "\<lambda>j. n_orphan (?olds ! j)"] by simp
  moreover have "length (filter (\<lambda>j. fst ?st ! j) [0..<length ?olds]) +
      length (filter (\<lambda>j. \<not> fst ?st ! j) [0..<length ?olds]) = length ?olds"
    by (simp add: sum_length_filter_compl)
  ultimately show ?thesis
    using c3 c4 assigned_eq_used [OF match_symbols_inv [of ?olds syms H]] by (simp add: matched_def)
qed

theorem reconcile_counts_witness:
  "ro_unchanged (fst rec_out) + ro_updated (fst rec_out) + ro_renamed (fst rec_out)
     + ro_inserted (fst rec_out) = length rec_syms"
  using reconcile_counts [OF rec_out_run] by blast

end
