(* ===== verification/Reconcile_Again.thy ===== *)
theory Reconcile_Again
  imports Reconcile_Props
begin

text \<open>
  Repeating a reconcile with the same batch, and the batches the transaction rolls back
  although they come from an ordinary edit.
\<close>

section \<open>The tables after a reconcile fit the same batch\<close>

lemma reconciled_row_cases:
  assumes ro: "row_order_ok ro" and wf: "wf_db d" and good: "good_batch u d syms"
    and rec: "reconciled ro H u lang ext syms d ids d'" and n: "n \<in> set (db_nodes d')"
  obtains (other) x where "x \<in> set (db_nodes d)" "n_uri x \<noteq> u" "n_uri n = n_uri x" "n_fqn n = n_fqn x"
    | (row) i where "i < length syms" "carries u (syms ! i) n"
    | (orph) x where "x \<in> set (db_nodes d)" "n_uri x = u" "n_uri n = u" "n_orphan n" "n_range n = n_range x"
proof -
  define olds where "olds = nodes_by_uri ro d u"
  define st where "st = match_symbols H olds syms"
  obtain D where D: "set (db_nodes d') = drop_container D ` ({n \<in> set (db_nodes d). n_uri n \<noteq> u} \<union>
       sym_row u lang ext olds syms (snd st) ids ` {..<length syms} \<union>
       orphaned_rows olds (fst st) (length olds))"
    using reconciled_rows [OF rec olds_def st_def] by blast
  from n D consider (1) x where "x \<in> set (db_nodes d)" "n_uri x \<noteq> u" "n = drop_container D x"
    | (2) i where "i < length syms" "n = drop_container D (sym_row u lang ext olds syms (snd st) ids i)"
    | (3) j where "j < length olds" "n = drop_container D (orphaned (olds ! j))"
    by (auto simp: orphaned_rows_def)
  then show ?thesis
  proof cases
    case 1
    then show ?thesis by (intro other [of x]) simp_all
  next
    case 2
    then show ?thesis using sym_row_carries [OF ro wf olds_def] by (intro row) (auto simp: st_def)
  next
    case 3
    have "olds ! j \<in> set olds" using 3 by simp
    then show ?thesis using 3 nodes_by_uri_facts(1) [OF ro wf olds_def]
      by (intro orph [of "olds ! j"]) simp_all
  qed
qed

lemma good_batch_again:
  assumes ro: "row_order_ok ro" and wf: "wf_db d" and good: "good_batch u d syms"
    and rec: "reconciled ro H u lang ext syms d ids d'"
  shows "good_batch u d' syms"
proof -
  have "0 \<le> start_line (n_range n)" if "n \<in> set (db_nodes d')" "n_uri n = u" for n
  proof (cases rule: reconciled_row_cases [OF ro wf good rec that(1)])
    case (2 i)
    with good show ?thesis by (auto simp: good_batch_def carries_def)
  next
    case (3 x)
    with good show ?thesis by (auto simp: good_batch_def)
  qed (use that in auto)
  moreover have "n_fqn n \<notin> rs_fqn ` set syms" if "n \<in> set (db_nodes d')" "n_uri n \<noteq> u" for n
  proof (cases rule: reconciled_row_cases [OF ro wf good rec that(1)])
    case (1 x)
    with good show ?thesis by (auto simp: good_batch_def)
  next
    case (2 i)
    with that(2) show ?thesis by (simp add: carries_def)
  qed (use that in auto)
  ultimately show ?thesis using good by (simp add: good_batch_def)
qed

text \<open>Every symbol finds its own row again, with the same hash.\<close>

lemma match_again:
  assumes ro: "row_order_ok ro" and wf: "wf_db d" "wf_db d'" and good: "good_batch u d syms"
    and rec: "reconciled ro H u lang ext syms d ids d'" and i: "i < length syms"
    and olds': "olds' = nodes_by_uri ro d' u"
  obtains j where "j < length olds'" "snd (match_symbols H olds' syms) ! i = Some j"
    "carries u (syms ! i) (olds' ! j)"
proof -
  define olds where "olds = nodes_by_uri ro d u"
  define st where "st = match_symbols H olds syms"
  obtain D where D: "set (db_nodes d') = drop_container D ` ({n \<in> set (db_nodes d). n_uri n \<noteq> u} \<union>
       sym_row u lang ext olds syms (snd st) ids ` {..<length syms} \<union>
       orphaned_rows olds (fst st) (length olds))"
    using reconciled_rows [OF rec olds_def st_def] by blast
  let ?n = "drop_container D (sym_row u lang ext olds syms (snd st) ids i)"
  have car: "carries u (syms ! i) ?n" unfolding st_def by (rule sym_row_carries [OF ro wf(1) olds_def i])
  have "?n \<in> set (db_nodes d')" unfolding D using i by blast
  then have "?n \<in> set olds'"
    using car nodes_by_uri_facts(1) [OF ro wf(2) olds'] by (simp add: carries_def)
  then obtain j where j: "j < length olds'" "olds' ! j = ?n" by (auto simp: in_set_conv_nth)
  have carj: "carries u (syms ! i) (olds' ! j)" unfolding j(2) by (rule car)
  have "snd (match_symbols H olds' syms) ! i = Some j"
    using pass3_settingD(11) [OF match_pass3_setting [OF ro wf(2) good_batch_again [OF ro wf(1) good rec] olds'] i j(1)]
      carj by (simp add: carries_def)
  with j(1) carj show ?thesis by (intro that)
qed

lemma unclaimed_again:
  assumes ro: "row_order_ok ro" and wf: "wf_db d" "wf_db d'" and good: "good_batch u d syms"
    and rec: "reconciled ro H u lang ext syms d ids d'"
    and olds': "olds' = nodes_by_uri ro d' u" and j: "j < length olds'"
  shows "fst (match_symbols H olds' syms) ! j \<longleftrightarrow> \<not> n_orphan (olds' ! j)"
proof -
  have m: "match_inv (length olds') (length syms) (match_symbols H olds' syms)" by (rule match_symbols_inv)
  have row: "olds' ! j \<in> set (db_nodes d')" "n_uri (olds' ! j) = u"
    using nodes_by_uri_facts(1) [OF ro wf(2) olds'] nth_mem [OF j] by auto
  show ?thesis
  proof
    assume "fst (match_symbols H olds' syms) ! j"
    then obtain i where i: "i < length syms" "snd (match_symbols H olds' syms) ! i = Some j"
      using m j by (auto simp: match_inv_def)
    then show "\<not> n_orphan (olds' ! j)"
      using match_again [OF ro wf good rec i(1) olds'] by (auto simp: carries_def)
  next
    assume "\<not> n_orphan (olds' ! j)"
    then obtain i where i: "i < length syms" "carries u (syms ! i) (olds' ! j)"
      using row(2) by (cases rule: reconciled_row_cases [OF ro wf(1) good rec row(1)]) auto
    then obtain j' where j': "j' < length olds'" "snd (match_symbols H olds' syms) ! i = Some j'"
        "carries u (syms ! i) (olds' ! j')"
      using match_again [OF ro wf good rec i(1) olds'] by blast
    have "n_fqn (olds' ! j') = n_fqn (olds' ! j)" using i(2) j'(3) by (simp add: carries_def)
    then have "j' = j" using nodes_by_uri_facts(3) [OF ro wf(2) olds'] j j'(1)
        nth_eq_iff_index_eq [of "map n_fqn olds'" j' j] by simp
    then show "fst (match_symbols H olds' syms) ! j" using m j i(1) j'(2) by (auto simp: match_inv_def)
  qed
qed

section \<open>All symbols unchanged\<close>

lemma pass3_all_unchanged:
  assumes "foldR (pass3_step u lang ext olds syms asg) [0..<k] (d, ids0, outcome_default) = Inr (d', ids, oc)"
    and "\<forall>i < k. \<exists>j. asg ! i = Some j \<and> n_fqn (olds ! j) = rs_fqn (syms ! i) \<and>
      n_signature_hash (olds ! j) = Some (rs_signature_hash (syms ! i))"
  shows "ro_unchanged oc = k \<and> ro_updated oc = 0 \<and> ro_renamed oc = 0"
  using assms
proof (induction k arbitrary: d' ids oc)
  case 0
  then show ?case by (auto simp: outcome_default_def)
next
  case (Suc k)
  then obtain d1 ids1 oc1 where
    run: "foldR (pass3_step u lang ext olds syms asg) [0..<k] (d, ids0, outcome_default) = Inr (d1, ids1, oc1)"
    and step: "pass3_step u lang ext olds syms asg k (d1, ids1, oc1) = Inr (d', ids, oc)"
    by (auto simp: foldR_append bindR_eq_Inr)
  obtain j where "asg ! k = Some j" "n_fqn (olds ! j) = rs_fqn (syms ! k)"
      "n_signature_hash (olds ! j) = Some (rs_signature_hash (syms ! k))"
    using Suc.prems(2) by auto
  with step have "oc = oc1\<lparr>ro_unchanged := ro_unchanged oc1 + 1\<rparr>"
    by (auto simp: pass3_step_Inr apply_claimed_def bindR_eq_Inr split: option.splits)
  with Suc.IH [OF run] Suc.prems(2) show ?case by simp
qed

lemma inj_on_lessThan:
  "(\<And>i j. i < n \<Longrightarrow> j < n \<Longrightarrow> f i = f j \<Longrightarrow> i = j) \<Longrightarrow> card (f ` {..<n}) = (n :: nat)"
  using card_image [of f "{..<n}"] by (auto simp: inj_on_def)

text \<open>The rows of the file afterwards: one per symbol and one per newly orphaned row.\<close>

lemma reconciled_size:
  assumes ro: "row_order_ok ro" and wf: "wf_db d" and good: "good_batch u d syms"
    and clash: "no_restore_clash ro H u d syms"
    and run: "reconcile_file_symbols ro H u lang ext syms d = (Inr oc, d')"
    and rec: "reconciled ro H u lang ext syms d ids d'"
  shows "length (nodes_by_uri ro d' u) = length syms + ro_orphaned oc"
proof -
  define olds where "olds = nodes_by_uri ro d u"
  define st where "st = match_symbols H olds syms"
  let ?row = "sym_row u lang ext olds syms (snd st) ids"
  obtain D where D: "set (db_nodes d') = drop_container D ` ({n \<in> set (db_nodes d). n_uri n \<noteq> u} \<union>
       ?row ` {..<length syms} \<union> orphaned_rows olds (fst st) (length olds))"
    using reconciled_rows [OF rec olds_def st_def] by blast
  note r = reconcile_run [OF ro wf good clash run]
  note f = nodes_by_uri_facts [OF ro wf olds_def]
  let ?J = "{j. j < length olds \<and> \<not> fst st ! j \<and> \<not> n_orphan (olds ! j)}"
  let ?A = "(\<lambda>i. drop_container D (?row i)) ` {..<length syms}"
  let ?B = "(\<lambda>j. drop_container D (orphaned (olds ! j))) ` ?J"
  have row_uri: "n_uri (?row i) = u" if "i < length syms" for i
    unfolding st_def by (rule sym_row_uri [OF ro wf olds_def that])
  have old_uri: "n_uri (olds ! j) = u" if "j < length olds" for j using f(1) nth_mem [OF that] by simp
  have "{n \<in> set (db_nodes d'). n_uri n = u} = ?A \<union> ?B"
  proof -
    have "orphaned_rows olds (fst st) (length olds) = (\<lambda>j. orphaned (olds ! j)) ` ?J"
      by (auto simp: orphaned_rows_def)
    then have "set (db_nodes d') = drop_container D ` {n \<in> set (db_nodes d). n_uri n \<noteq> u} \<union> ?A \<union> ?B"
      unfolding D by (simp add: image_Un image_image)
    moreover have "\<forall>n \<in> ?A \<union> ?B. n_uri n = u" using row_uri old_uri by auto
    moreover have "\<forall>n \<in> drop_container D ` {n \<in> set (db_nodes d). n_uri n \<noteq> u}. n_uri n \<noteq> u" by auto
    ultimately show ?thesis by blast
  qed
  then have set': "set (nodes_by_uri ro d' u) = ?A \<union> ?B"
    using nodes_by_uri_facts(1) [OF ro r(2) refl] by simp
  have dist: "distinct (nodes_by_uri ro d' u)"
    using nodes_by_uri_facts(2) [OF ro r(2) refl] by (simp add: distinct_map)
  have cA: "card ?A = length syms"
  proof (rule inj_on_lessThan)
    fix i i' assume "i < length syms" "i' < length syms"
      and "drop_container D (?row i) = drop_container D (?row i')"
    then have "rs_fqn (syms ! i) = rs_fqn (syms ! i')" by (metis drop_container_simps(2) sym_row_simps(1))
    then show "i = i'" using good \<open>i < _\<close> \<open>i' < _\<close> nth_eq_iff_index_eq [of "map rs_fqn syms" i i']
      by (simp add: good_batch_def)
  qed
  have "inj_on (\<lambda>j. drop_container D (orphaned (olds ! j))) ?J"
  proof (rule inj_onI)
    fix j j' assume "j \<in> ?J" "j' \<in> ?J"
      and "drop_container D (orphaned (olds ! j)) = drop_container D (orphaned (olds ! j'))"
    then have "n_id (olds ! j) = n_id (olds ! j')" by (metis drop_container_simps(1) orphaned_simps(1))
    then show "j = j'" using f(2) \<open>j \<in> ?J\<close> \<open>j' \<in> ?J\<close> nth_eq_iff_index_eq [of "map n_id olds" j j'] by simp
  qed
  then have cB: "card ?B = card ?J" by (rule card_image)
  have disj: "?A \<inter> ?B = {}" by (auto dest: arg_cong [of _ _ n_orphan])
  obtain d1 d2 ids2 oc2 d3 where
    p3: "pass3 u lang ext olds syms (snd st) d1 = Inr (d2, ids2, oc2)" and
    p4: "pass4 olds (fst st) (d2, oc2) = Inr (d3, oc)"
    using r(1) unfolding reconcile_tx_Inr olds_def st_def by blast
  have "ro_orphaned oc = length (filter (\<lambda>j. \<not> fst st ! j \<and> \<not> n_orphan (olds ! j)) [0..<length olds])"
    using pass3_counts_upto [OF p3 [unfolded pass3_def]] pass4_counts_upto [OF p4 [unfolded pass4_def]] by simp
  also have "\<dots> = card ?J"
  proof -
    have "set (filter (\<lambda>j. \<not> fst st ! j \<and> \<not> n_orphan (olds ! j)) [0..<length olds]) = ?J" by auto
    then show ?thesis
      by (metis (no_types, lifting) distinct_card distinct_filter distinct_upt)
  qed
  finally have "ro_orphaned oc = card ?J" .
  then show ?thesis
    using dist set' cA cB card_Un_disjoint [OF _ _ disj] by (simp add: distinct_card [symmetric])
qed

section \<open>The rows after the second run\<close>

text \<open>The container of a symbol's row is the row of another symbol, which is never deleted.\<close>

lemma sym_row_stays:
  assumes ro: "row_order_ok ro" and wf: "wf_db d" and good: "good_batch u d syms"
    and rec: "reconciled ro H u lang ext syms d ids d'" and i: "i < length syms"
    and olds: "olds = nodes_by_uri ro d u" and st: "st = match_symbols H olds syms"
  shows "drop_container (deleted_ids olds (fst st) (length olds)) (sym_row u lang ext olds syms (snd st) ids i) =
      sym_row u lang ext olds syms (snd st) ids i"
    and "set_symbol (syms ! i) (sym_container ids (syms ! i)) (sym_row u lang ext olds syms (snd st) ids i) =
      sym_row u lang ext olds syms (snd st) ids i"
proof -
  have c: "n_container_id (sym_row u lang ext olds syms (snd st) ids i) = sym_container ids (syms ! i)"
    by (simp add: sym_row_def split: option.split)
  have "sym_container ids (syms ! i) \<notin> Some ` deleted_ids olds (fst st) (length olds)"
  proof
    assume "sym_container ids (syms ! i) \<in> Some ` deleted_ids olds (fst st) (length olds)"
    then obtain j where j: "j < length olds" "\<not> fst st ! j" "sym_container ids (syms ! i) = Some (row_id (olds ! j))"
      by (auto simp: deleted_ids_def)
    then obtain p where p: "rs_parent (syms ! i) = Some p" "ids ! p = Some (row_id (olds ! j))"
      by (auto simp: sym_container_def split: option.splits)
    have "p < i" using good i p(1) by (auto simp: good_batch_def)
    moreover have "length ids = length syms" and un: "n_id (olds ! j) \<notin> set ids"
      using reconciled_parts(1,5) [OF rec olds st] j by blast+
    ultimately have "Some (row_id (olds ! j)) \<in> set ids" using i p(2) nth_mem [of p ids] by simp
    with un show False using nodes_by_uri_facts(5) [OF ro wf olds] nth_mem [OF j(1)] by simp
  qed
  with c show "drop_container (deleted_ids olds (fst st) (length olds)) (sym_row u lang ext olds syms (snd st) ids i) =
      sym_row u lang ext olds syms (snd st) ids i"
    by (simp add: drop_container_def)
  show "set_symbol (syms ! i) (sym_container ids (syms ! i)) (sym_row u lang ext olds syms (snd st) ids i) =
      sym_row u lang ext olds syms (snd st) ids i"
    by (simp add: sym_row_def set_symbol_def new_row_def split: option.split)
qed

text \<open>So the second run finds each symbol's row as the first left it, and writes it back unchanged.\<close>

lemma row_again:
  assumes ro: "row_order_ok ro" and wf: "wf_db d" "wf_db d'" and good: "good_batch u d syms"
    and rec: "reconciled ro H u lang ext syms d ids d'" and rec': "reconciled ro H u lang ext syms d' ids' d''"
    and i: "i < length syms"
    and olds: "olds = nodes_by_uri ro d u" and st: "st = match_symbols H olds syms"
    and olds': "olds' = nodes_by_uri ro d' u" and st': "st' = match_symbols H olds' syms"
  shows "sym_row u lang ext olds' syms (snd st') ids' i = sym_row u lang ext olds syms (snd st) ids i"
    and "sym_row u lang ext olds syms (snd st) ids i \<in> set (db_nodes d')"
    and "ids' ! i = ids ! i"
proof -
  let ?row = "sym_row u lang ext olds syms (snd st) ids"
  have rows: "?row k \<in> set (db_nodes d')" if "k < length syms" for k
  proof -
    have "drop_container (deleted_ids olds (fst st) (length olds)) (?row k) \<in> set (db_nodes d')"
      using reconciled_parts(2) [OF rec olds st] that by blast
    then show ?thesis by (simp only: sym_row_stays(1) [OF ro wf(1) good rec that olds st])
  qed
  have found: "\<exists>j. snd st' ! k = Some j \<and> olds' ! j = ?row k" if k: "k < length syms" for k
  proof -
    obtain j where j: "j < length olds'" "snd st' ! k = Some j" "carries u (syms ! k) (olds' ! j)"
      using match_again [OF ro wf good rec k olds'] unfolding st' by blast
    have "olds' ! j \<in> set (db_nodes d')" using nodes_by_uri_facts(1) [OF ro wf(2) olds'] nth_mem [OF j(1)] by simp
    moreover have "n_fqn (olds' ! j) = n_fqn (?row k)" using j(3) by (simp add: carries_def)
    ultimately have "olds' ! j = ?row k" using wf_node_eqI(2) [OF wf(2)] rows [OF k] by blast
    with j(2) show ?thesis by blast
  qed
  have same: "ids' ! k = ids ! k" if k: "k < length syms" for k
  proof -
    obtain j where j: "snd st' ! k = Some j" "olds' ! j = ?row k" using found [OF k] by blast
    have "ids' ! k = n_id (olds' ! j)" by (rule reconciled_parts(4) [OF rec' olds' st' k j(1)])
    also have "\<dots> = ids ! k" using reconciled_parts(3) [OF rec olds st k] j(2) by simp
    finally show ?thesis .
  qed
  have "sym_container ids' (syms ! i) = sym_container ids (syms ! i)"
    using same good i by (auto simp: sym_container_def good_batch_def split: option.split)
  moreover obtain j where "snd st' ! i = Some j" "olds' ! j = ?row i" using found [OF i] by blast
  ultimately show "sym_row u lang ext olds' syms (snd st') ids' i = ?row i"
    using sym_row_stays(2) [OF ro wf(1) good rec i olds st] by (simp add: sym_row_def [of u lang ext olds'])
  show "?row i \<in> set (db_nodes d')" by (rule rows [OF i])
  show "ids' ! i = ids ! i" by (rule same [OF i])
qed

text \<open>The rows of \<open>u\<close> that are orphans, by their ids.\<close>

definition orphans_of :: "string \<Rightarrow> Db \<Rightarrow> int set" where
  "orphans_of u d = {i. \<exists>n \<in> set (db_nodes d). n_id n = Some i \<and> n_uri n = u \<and> n_orphan n}"

lemma second_run_rows:
  assumes ro: "row_order_ok ro" and wf: "wf_db d" "wf_db d'" and good: "good_batch u d syms"
    and rec: "reconciled ro H u lang ext syms d ids d'" and rec': "reconciled ro H u lang ext syms d' ids' d''"
  shows "set (db_nodes d'') = drop_container (orphans_of u d') ` {n \<in> set (db_nodes d'). n_uri n \<noteq> u \<or> \<not> n_orphan n}"
proof -
  define olds where "olds = nodes_by_uri ro d u"
  define st where "st = match_symbols H olds syms"
  define olds' where "olds' = nodes_by_uri ro d' u"
  define st' where "st' = match_symbols H olds' syms"
  let ?row = "\<lambda>i. sym_row u lang ext olds syms (snd st) ids i"
  note f = nodes_by_uri_facts [OF ro wf(2) olds'_def]
  note row = row_again [OF ro wf good rec rec' _ olds_def st_def olds'_def st'_def]
  have used: "fst st' ! j \<longleftrightarrow> \<not> n_orphan (olds' ! j)" if "j < length olds'" for j
    unfolding st'_def by (rule unclaimed_again [OF ro wf good rec olds'_def that])
  have none: "orphaned_rows olds' (fst st') (length olds') = {}" using used by (auto simp: orphaned_rows_def)
  have D: "deleted_ids olds' (fst st') (length olds') = orphans_of u d'"
  proof (intro set_eqI iffI)
    fix i assume "i \<in> deleted_ids olds' (fst st') (length olds')"
    then obtain j where j: "j < length olds'" "i = row_id (olds' ! j)" "n_orphan (olds' ! j)" by (auto simp: deleted_ids_def)
    with f(1,5) nth_mem [OF j(1)] show "i \<in> orphans_of u d'" by (auto simp: orphans_of_def)
  next
    fix i assume "i \<in> orphans_of u d'"
    then obtain n where n: "n \<in> set olds'" "n_id n = Some i" "n_orphan n" using f(1) by (auto simp: orphans_of_def)
    then obtain j where j: "j < length olds'" "n = olds' ! j" by (auto simp: in_set_conv_nth)
    with n used f(5) [OF n(1)] show "i \<in> deleted_ids olds' (fst st') (length olds')" by (auto simp: deleted_ids_def)
  qed
  have live: "{n \<in> set (db_nodes d'). n_uri n \<noteq> u \<or> \<not> n_orphan n} = {n \<in> set (db_nodes d'). n_uri n \<noteq> u} \<union> ?row ` {..<length syms}"
  proof (intro set_eqI iffI)
    fix n assume n: "n \<in> {n \<in> set (db_nodes d'). n_uri n \<noteq> u \<or> \<not> n_orphan n}"
    show "n \<in> {n \<in> set (db_nodes d'). n_uri n \<noteq> u} \<union> ?row ` {..<length syms}"
    proof (cases "n_uri n = u")
      case True
      then obtain i where i: "i < length syms" "carries u (syms ! i) n"
        using n by (cases rule: reconciled_row_cases [OF ro wf(1) good rec, of n]) auto
      then have "n_fqn n = n_fqn (?row i)" by (simp add: carries_def)
      then have "n = ?row i" using wf_node_eqI(2) [OF wf(2)] n row(2) [OF i(1)] by blast
      with i(1) show ?thesis by blast
    qed (use n in simp)
  next
    fix n assume "n \<in> {n \<in> set (db_nodes d'). n_uri n \<noteq> u} \<union> ?row ` {..<length syms}"
    moreover have "\<not> n_orphan (?row i)" for i by (simp add: sym_row_def split: option.split)
    ultimately show "n \<in> {n \<in> set (db_nodes d'). n_uri n \<noteq> u \<or> \<not> n_orphan n}" using row(2) by auto
  qed
  have "sym_row u lang ext olds' syms (snd st') ids' ` {..<length syms} = ?row ` {..<length syms}"
    using row(1) by (auto intro!: image_cong)
  then show ?thesis using reconciled_parts(2) [OF rec' olds'_def st'_def] unfolding none live D by (simp add: Un_assoc)
qed

text \<open>C9: Reconciling is stable. Running the same fitting batch again on the tables a reconcile
  produced succeeds and finds every symbol unchanged; the rows afterwards are exactly those before
  without the orphans of the file, as many as the first run counted as newly orphaned, with
  references to them cleared; no row is inserted, moved, renamed or orphaned.\<close>

theorem reconcile_again:
  assumes "row_order_ok ro" and "wf_db d" and "good_batch u d syms"
    and "no_restore_clash ro H u d syms"
    and run: "reconcile_file_symbols ro H u lang ext syms d = (Inr oc, d')"
  shows "\<exists>oc' d''. reconcile_file_symbols ro H u lang ext syms d' = (Inr oc', d'') \<and>
    ro_unchanged oc' = length syms \<and> ro_updated oc' = 0 \<and> ro_renamed oc' = 0 \<and> ro_inserted oc' = 0 \<and>
    ro_orphaned oc' = 0 \<and> ro_deleted oc' = ro_orphaned oc \<and> card (orphans_of u d') = ro_orphaned oc \<and>
    set (db_nodes d'') = drop_container (orphans_of u d') ` {n \<in> set (db_nodes d'). n_uri n \<noteq> u \<or> \<not> n_orphan n}"
proof -
  note r1 = reconcile_run [OF assms(1-5)]
  have tx: "reconcile_tx ro H u lang ext syms d = Inr (oc, d')" and wf': "wf_db d'" by (rule r1)+
  obtain ids where rec: "reconciled ro H u lang ext syms d ids d'" using r1(3) by blast
  define olds where "olds = nodes_by_uri ro d' u"
  let ?st = "match_symbols H olds syms"
  note f = nodes_by_uri_facts [OF assms(1) wf' olds_def]
  note good' = good_batch_again [OF assms(1-3) rec]
  have used: "fst ?st ! j \<longleftrightarrow> \<not> n_orphan (olds ! j)" if "j < length olds" for j
    by (rule unclaimed_again [OF assms(1,2) wf' assms(3) rec olds_def that])
  have clash': "no_restore_clash ro H u d' syms"
    using used unfolding no_restore_clash_def Let_def olds_def [symmetric] by blast
  obtain oc' d'' ids' where tx': "reconcile_tx ro H u lang ext syms d' = Inr (oc', d'')"
    and rec': "reconciled ro H u lang ext syms d' ids' d''"
    using reconcile_ok [OF assms(1) wf' good' clash'] by blast
  from tx' obtain d1 d2 ids2 oc2 d3 where
    p3: "pass3 u lang ext olds syms (snd ?st) d1 = Inr (d2, ids2, oc2)" and
    p4: "pass4 olds (fst ?st) (d2, oc2) = Inr (d3, oc')"
    unfolding reconcile_tx_Inr olds_def by blast
  note c3 = pass3_counts_upto [OF p3 [unfolded pass3_def]]
  note c4 = pass4_counts_upto [OF p4 [unfolded pass4_def]]
  have run': "reconcile_file_symbols ro H u lang ext syms d' = (Inr oc', d'')"
    using tx' by (simp add: reconcile_file_symbols_def)
  have "\<forall>i < length syms. \<exists>j. snd ?st ! i = Some j \<and> n_fqn (olds ! j) = rs_fqn (syms ! i) \<and>
      n_signature_hash (olds ! j) = Some (rs_signature_hash (syms ! i))"
    using match_again [OF assms(1,2) wf' assms(3) rec _ olds_def] by (metis carries_def)
  then have same: "ro_unchanged oc2 = length syms" "ro_updated oc2 = 0" "ro_renamed oc2 = 0"
    using pass3_all_unchanged [OF p3 [unfolded pass3_def]] by blast+
  have orph: "ro_orphaned oc' = 0"
  proof -
    have "filter (\<lambda>j. \<not> fst ?st ! j \<and> \<not> n_orphan (olds ! j)) [0..<length olds] = []"
      using used by (simp add: filter_empty_conv)
    then show ?thesis using c3 c4 by simp
  qed
  have keep: "ro_unchanged oc' = length syms" "ro_updated oc' = 0" "ro_renamed oc' = 0" "ro_inserted oc' = 0"
    using same c3 c4 by (simp_all add: matched_def)
  have "ro_unchanged oc' + ro_updated oc' + ro_renamed oc' + ro_orphaned oc' + ro_deleted oc' = length olds"
    using reconcile_counts [OF run'] by (simp add: olds_def)
  then have "ro_deleted oc' = ro_orphaned oc"
    using keep orph reconciled_size [OF assms rec] by (simp add: olds_def)
  moreover have "card (orphans_of u d') = ro_deleted oc'"
  proof -
    have id: "n_id (olds ! j) = Some (row_id (olds ! j))" if "j < length olds" for j using f(5) [OF nth_mem [OF that]] by blast
    have "orphans_of u d' = (\<lambda>j. row_id (olds ! j)) ` {j. j < length olds \<and> n_orphan (olds ! j)}"
    proof (intro set_eqI iffI)
      fix i assume "i \<in> orphans_of u d'"
      then obtain n where n: "n \<in> set olds" "n_id n = Some i" "n_orphan n" using f(1) by (auto simp: orphans_of_def)
      then obtain j where "j < length olds" "n = olds ! j" by (auto simp: in_set_conv_nth)
      with n id show "i \<in> (\<lambda>j. row_id (olds ! j)) ` {j. j < length olds \<and> n_orphan (olds ! j)}" by force
    next
      fix i assume "i \<in> (\<lambda>j. row_id (olds ! j)) ` {j. j < length olds \<and> n_orphan (olds ! j)}"
      then obtain j where j: "j < length olds" "n_orphan (olds ! j)" "i = row_id (olds ! j)" by blast
      then have "olds ! j \<in> set (db_nodes d')" "n_uri (olds ! j) = u" using f(1) nth_mem [of j olds] by simp_all
      with j id show "i \<in> orphans_of u d'" unfolding orphans_of_def by blast
    qed
    moreover have "inj_on (\<lambda>j. row_id (olds ! j)) {j. j < length olds \<and> n_orphan (olds ! j)}"
    proof (rule inj_onI)
      fix j j' assume "j \<in> {j. j < length olds \<and> n_orphan (olds ! j)}" "j' \<in> {j. j < length olds \<and> n_orphan (olds ! j)}"
        and "row_id (olds ! j) = row_id (olds ! j')"
      then show "j = j'" using id f(2) nth_eq_iff_index_eq [of "map n_id olds" j j'] by simp
    qed
    moreover have "filter (\<lambda>j. \<not> fst ?st ! j \<and> n_orphan (olds ! j)) [0..<length olds] = filter (\<lambda>j. n_orphan (olds ! j)) [0..<length olds]"
      using used by (intro filter_cong) auto
    then have "ro_deleted oc' = length (filter (\<lambda>j. n_orphan (olds ! j)) [0..<length olds])" using c3 c4 by simp
    then have "ro_deleted oc' = card {j. j < length olds \<and> n_orphan (olds ! j)}"
      using distinct_card [of "filter (\<lambda>j. n_orphan (olds ! j)) [0..<length olds]"] by (simp add: conj_commute)
    ultimately show ?thesis by (simp add: card_image)
  qed
  ultimately show ?thesis
    using run' orph keep second_run_rows [OF assms(1,2) wf' assms(3) rec rec'] by auto
qed

theorem reconcile_again_witness:
  "\<exists>oc' d''. reconcile_file_symbols table_order const_hasher ''u'' ''python'' False rec_syms (snd rec_out)
      = (Inr oc', d'') \<and>
    ro_unchanged oc' = length rec_syms \<and> ro_updated oc' = 0 \<and> ro_renamed oc' = 0 \<and> ro_inserted oc' = 0 \<and>
    ro_orphaned oc' = 0 \<and> ro_deleted oc' = ro_orphaned (fst rec_out) \<and> card (orphans_of ''u'' (snd rec_out)) = ro_orphaned (fst rec_out) \<and>
    set (db_nodes d'') = drop_container (orphans_of ''u'' (snd rec_out)) ` {n \<in> set (db_nodes (snd rec_out)). n_uri n \<noteq> ''u'' \<or> \<not> n_orphan n}"
  by (rule reconcile_again [OF row_order_ok_table_order rec_db_wf rec_good rec_no_clash rec_out_run])

section \<open>The batches that are rolled back\<close>

text \<open>C6: Exactly when a fitting batch is refused. On well-formed tables a reconcile of a
  fitting batch fails if and only if a live row that no symbol claims sits where a symbol of
  the batch with the same identifier now starts: restoring that row's position when it is
  orphaned violates the index on positions. The whole transaction is then rolled back and the
  tables are unchanged, so the edit is not recorded at all.\<close>

theorem reconcile_refused_iff:
  assumes "row_order_ok ro" and "wf_db d" and "good_batch u d syms"
  shows "reconcile_file_symbols ro H u lang ext syms d = (Inl UniqueViolation, d) \<longleftrightarrow>
    (\<exists>j < length (nodes_by_uri ro d u). \<exists>s \<in> set syms.
       \<not> fst (match_symbols H (nodes_by_uri ro d u) syms) ! j \<and>
       \<not> n_orphan (nodes_by_uri ro d u ! j) \<and>
       n_name (nodes_by_uri ro d u ! j) = rs_name s \<and>
       start_line (n_range (nodes_by_uri ro d u ! j)) = start_line (rs_range s) \<and>
       start_col (n_range (nodes_by_uri ro d u ! j)) = start_col (rs_range s))"
    (is "?refused \<longleftrightarrow> ?taken")
proof -
  have "?taken \<longleftrightarrow> \<not> no_restore_clash ro H u d syms"
    unfolding no_restore_clash_def Let_def node_phys_def sym_phys_def image_iff by auto
  moreover have "?refused \<longleftrightarrow> \<not> no_restore_clash ro H u d syms"
  proof (cases "no_restore_clash ro H u d syms")
    case True
    then obtain oc d' where "reconcile_tx ro H u lang ext syms d = Inr (oc, d')"
      using reconcile_ok [OF assms] by blast
    with True show ?thesis by (simp add: reconcile_file_symbols_def)
  next
    case False
    with reconcile_clash [OF assms False] show ?thesis by (simp add: reconcile_file_symbols_def)
  qed
  ultimately show ?thesis by simp
qed

text \<open>Renaming a class that has a method, without touching the method.\<close>

definition class_db :: Db where
  "class_db = empty_db\<lparr>db_nodes := [row_at (Some 1) ''m.A'' ''u'' ''A'' 1 ''a'',
      (row_at (Some 2) ''m.A.foo'' ''u'' ''foo'' 2 ''b'')\<lparr>n_container_id := Some 1\<rparr>],
    db_node_seq := 2\<rparr>"

definition class_syms :: "ReconcileSymbol list" where
  "class_syms = [symbol_at ''m.B'' ''B'' 1 ''c'' None, symbol_at ''m.B.foo'' ''foo'' 2 ''b'' (Some 0)]"

lemmas class_sample_defs = class_db_def class_syms_def row_at_def symbol_at_def line_range_def empty_db_def

lemma class_db_wf: "wf_db class_db"
  by (simp add: class_sample_defs wf_db_def wf_nodes_def wf_edges_def wf_caches_def rows_ok_def
      node_ids_def phys_key_def)

lemma class_good: "good_batch ''u'' class_db class_syms"
  by (auto simp: class_sample_defs good_batch_def sym_phys_def less_Suc_eq nth_Cons')

theorem reconcile_refused_iff_witness:
  "reconcile_file_symbols table_order const_hasher ''u'' ''python'' False class_syms class_db
     = (Inl UniqueViolation, class_db)"
proof (subst reconcile_refused_iff [OF row_order_ok_table_order class_db_wf class_good])
  have olds: "nodes_by_uri table_order class_db ''u'' = db_nodes class_db" by code_simp
  have used: "fst (match_symbols const_hasher (db_nodes class_db) class_syms) = [True, False]"
    by code_simp
  show "\<exists>j < length (nodes_by_uri table_order class_db ''u''). \<exists>s \<in> set class_syms.
       \<not> fst (match_symbols const_hasher (nodes_by_uri table_order class_db ''u'') class_syms) ! j \<and>
       \<not> n_orphan (nodes_by_uri table_order class_db ''u'' ! j) \<and>
       n_name (nodes_by_uri table_order class_db ''u'' ! j) = rs_name s \<and>
       start_line (n_range (nodes_by_uri table_order class_db ''u'' ! j)) = start_line (rs_range s) \<and>
       start_col (n_range (nodes_by_uri table_order class_db ''u'' ! j)) = start_col (rs_range s)"
    unfolding olds used
    by (intro exI [of _ 1] bexI [of _ "class_syms ! 1"]) (simp_all add: class_sample_defs)
qed

end
