(* ===== verification/Db_Actor.thy ===== *)
theory Db_Actor
  imports Reconcile_Spec
begin

text \<open>
  The database actor of \<open>src/graph/db.rs\<close>: the command type, the dispatcher \<open>DbActor::run\<close>
  that owns the connection, and the handle's methods, which enqueue one command and wait for
  its one reply. The locale \<open>command_actor\<close> is the interface the clients of such an actor
  rely on.
\<close>

section \<open>Commands and replies\<close>

datatype DbCommand =
    UpsertNode Node
  | GetNodeByFqn string
  | GetNode int
  | ListNodes "string option"
  | FindNodeByPosition string int int
  | GetNeighbors int string Direction
  | UpsertEdge Edge
  | SetMeta string string
  | GetMeta string
  | ReconcileFileSymbols string string bool "ReconcileSymbol list"
  | UpdateNodeConstruct int string
  | UpdateNodeSignature int string
  | UpdateNodeSignatureByFqn string string
  | GetCalleesCacheHash int
  | SetCalleesCacheHash int string
  | IsMaterialized int string
  | MarkMaterialized int string
  | InvalidateOutgoingCalls int
  | KnownUris
  | CountRealNodes string string

datatype DbReply =
    ReplyError DbError
  | ReplyUnit
  | ReplyId int
  | ReplyNode "Node option"
  | ReplyNodes "Node list"
  | ReplyNeighbors "Neighbor list"
  | ReplyText "string option"
  | ReplyBool bool
  | ReplyUris "string list"
  | ReplyCount nat
  | ReplyOutcome ReconcileOutcome

text \<open>A failed write leaves the tables as they are.\<close>

definition write_id :: "Db \<Rightarrow> DbError + int \<times> Db \<Rightarrow> DbReply \<times> Db" where
  "write_id d r = (case r of Inl e \<Rightarrow> (ReplyError e, d) | Inr (i, d') \<Rightarrow> (ReplyId i, d'))"

definition write_unit :: "Db \<Rightarrow> DbError + Db \<Rightarrow> DbReply \<times> Db" where
  "write_unit d r = (case r of Inl e \<Rightarrow> (ReplyError e, d) | Inr d' \<Rightarrow> (ReplyUnit, d'))"

definition write_outcome :: "(DbError + ReconcileOutcome) \<times> Db \<Rightarrow> DbReply \<times> Db" where
  "write_outcome r = (case fst r of Inl e \<Rightarrow> ReplyError e | Inr oc \<Rightarrow> ReplyOutcome oc, snd r)"

text \<open>One iteration of the loop of \<open>DbActor::run\<close>.\<close>

fun run_command :: "RowOrder \<Rightarrow> Hasher \<Rightarrow> DbCommand \<Rightarrow> Db \<Rightarrow> DbReply \<times> Db" where
  "run_command ro H (UpsertNode n) d = write_id d (upsert_node n d)"
| "run_command ro H (GetNodeByFqn f) d = (ReplyNode (get_node_by_fqn d f), d)"
| "run_command ro H (GetNode i) d = (ReplyNode (get_node d i), d)"
| "run_command ro H (ListNodes l) d = (ReplyNodes (list_nodes ro d l), d)"
| "run_command ro H (FindNodeByPosition u line col) d =
     (ReplyNode (find_node_by_position ro d u line col), d)"
| "run_command ro H (GetNeighbors i t dir) d = (ReplyNeighbors (get_neighbors ro d i t dir), d)"
| "run_command ro H (UpsertEdge e) d = write_id d (upsert_edge e d)"
| "run_command ro H (SetMeta k v) d = (ReplyUnit, set_meta k v d)"
| "run_command ro H (GetMeta k) d = (ReplyText (get_meta d k), d)"
| "run_command ro H (ReconcileFileSymbols u lang ext syms) d =
     write_outcome (reconcile_file_symbols ro H u lang ext syms d)"
| "run_command ro H (UpdateNodeConstruct i c) d = (ReplyUnit, update_node_construct i c d)"
| "run_command ro H (UpdateNodeSignature i s) d = (ReplyUnit, update_node_signature i s d)"
| "run_command ro H (UpdateNodeSignatureByFqn f s) d =
     (ReplyUnit, update_node_signature_by_fqn f s d)"
| "run_command ro H (GetCalleesCacheHash i) d = (ReplyText (get_callees_cache_hash d i), d)"
| "run_command ro H (SetCalleesCacheHash i h) d = write_unit d (set_callees_cache_hash i h d)"
| "run_command ro H (IsMaterialized i t) d = (ReplyBool (is_materialized d i t), d)"
| "run_command ro H (MarkMaterialized i t) d = write_unit d (mark_materialized i t d)"
| "run_command ro H (InvalidateOutgoingCalls i) d = (ReplyUnit, invalidate_outgoing_calls i d)"
| "run_command ro H KnownUris d = (ReplyUris (known_uris ro d), d)"
| "run_command ro H (CountRealNodes u m) d = (ReplyCount (count_real_nodes d u m), d)"

section \<open>The interface of a command actor\<close>

text \<open>
  What a client of a single-owner actor relies on: a handler and an invariant the handler
  keeps. \<open>serve\<close> is the handler run over a sequence of commands in order.
\<close>

fun serve :: "('c \<Rightarrow> 's \<Rightarrow> 'r \<times> 's) \<Rightarrow> 'c list \<Rightarrow> 's \<Rightarrow> 'r list \<times> 's" where
  "serve h [] s = ([], s)"
| "serve h (c # cs) s = (let r = h c s; q = serve h cs (snd r) in (fst r # fst q, snd q))"

lemma serve_append:
  "serve h (xs @ ys) s =
     (fst (serve h xs s) @ fst (serve h ys (snd (serve h xs s))), snd (serve h ys (snd (serve h xs s))))"
  by (induction xs arbitrary: s) (simp_all add: Let_def)

lemma serve_length [simp]: "length (fst (serve h cs s)) = length cs"
  by (induction cs arbitrary: s) (simp_all add: Let_def)

text \<open>The channel: commands in the order sent, each with the ticket of its reply slot.\<close>

record ('c, 's, 'r) Actor =
  ac_state :: 's
  ac_queue :: "(nat \<times> 'c) list"
  ac_replies :: "nat \<Rightarrow> 'r option"

definition channel_capacity :: nat where
  "channel_capacity = 64"

text \<open>
  \<open>actor_run h s0 cs a\<close>: starting from \<open>s0\<close>, clients have sent \<open>cs\<close> (a send waits for room in
  the channel) and the actor has reached \<open>a\<close>.
\<close>

inductive actor_run :: "('c \<Rightarrow> 's \<Rightarrow> 'r \<times> 's) \<Rightarrow> 's \<Rightarrow> 'c list \<Rightarrow> ('c, 's, 'r) Actor \<Rightarrow> bool"
  for h and s0 where
  start: "actor_run h s0 [] \<lparr>ac_state = s0, ac_queue = [], ac_replies = Map.empty\<rparr>"
| send: "actor_run h s0 cs a \<Longrightarrow> length (ac_queue a) < channel_capacity \<Longrightarrow>
    actor_run h s0 (cs @ [c]) (a\<lparr>ac_queue := ac_queue a @ [(length cs, c)]\<rparr>)"
| handle: "actor_run h s0 cs a \<Longrightarrow> ac_queue a = (t, c) # q \<Longrightarrow>
    actor_run h s0 cs (a\<lparr>ac_state := snd (h c (ac_state a)), ac_queue := q,
      ac_replies := (ac_replies a)(t := Some (fst (h c (ac_state a))))\<rparr>)"

locale command_actor =
  fixes handle :: "'c \<Rightarrow> 's \<Rightarrow> 'r \<times> 's" and inv :: "'s \<Rightarrow> bool"
  assumes handle_inv: "inv s \<Longrightarrow> inv (snd (handle c s))"
begin

lemma serve_inv: "inv s \<Longrightarrow> inv (snd (serve handle cs s))"
  by (induction cs arbitrary: s) (simp_all add: Let_def handle_inv)

lemma actor_serial:
  assumes "actor_run handle s0 cs a"
  shows "\<exists>k \<le> length cs. ac_queue a = zip [k..<length cs] (drop k cs) \<and>
    ac_state a = snd (serve handle (take k cs) s0) \<and>
    (\<forall>t. ac_replies a t = (if t < k then Some (fst (serve handle (take k cs) s0) ! t) else None))"
  using assms
proof (induction rule: actor_run.induct)
  case start
  then show ?case by simp
next
  case (send cs a c)
  then obtain k where k: "k \<le> length cs" "ac_queue a = zip [k..<length cs] (drop k cs)"
    "ac_state a = snd (serve handle (take k cs) s0)"
    "\<forall>t. ac_replies a t = (if t < k then Some (fst (serve handle (take k cs) s0) ! t) else None)"
    by blast
  then show ?case by (intro exI [of _ k]) simp
next
  case (handle cs a t c q)
  then obtain k where k: "k \<le> length cs" "ac_queue a = zip [k..<length cs] (drop k cs)"
    "ac_state a = snd (serve handle (take k cs) s0)"
    "\<forall>t. ac_replies a t = (if t < k then Some (fst (serve handle (take k cs) s0) ! t) else None)"
    by blast
  have lt: "k < length cs" using handle.hyps(2) k(2) by (cases "k < length cs") auto
  have dr: "drop k cs = cs ! k # drop (Suc k) cs" using lt by (simp add: Cons_nth_drop_Suc)
  have q: "t = k" "c = cs ! k" "q = zip [Suc k..<length cs] (drop (Suc k) cs)"
    using handle.hyps(2) k(2) lt dr by (auto simp: upt_conv_Cons)
  have tk: "take (Suc k) cs = take k cs @ [cs ! k]" using lt by (rule take_Suc_conv_app_nth)
  have len: "length (fst (serve handle (take k cs) s0)) = k" using lt by simp
  show ?case
    using lt k(3,4) q len
    by (intro exI [of _ "Suc k"]) (auto simp: tk serve_append Let_def nth_append)
qed

lemma actor_inv:
  assumes "actor_run handle s0 cs a" and "inv s0"
  shows "inv (ac_state a)"
  using actor_serial [OF assms(1)] serve_inv [OF assms(2)] by auto

end

lemma run_command_wf: "wf_db d \<Longrightarrow> wf_db (snd (run_command ro H c d))"
proof (cases c)
  case (UpsertNode n)
  then show "wf_db d \<Longrightarrow> ?thesis"
    by (auto simp: write_id_def intro: wf_db_pres split: sum.splits)
next
  case (UpsertEdge e)
  then show "wf_db d \<Longrightarrow> ?thesis"
    by (auto simp: write_id_def intro: wf_db_pres split: sum.splits)
next
  case (ReconcileFileSymbols u lang ext syms)
  then show "wf_db d \<Longrightarrow> ?thesis"
    by (simp add: write_outcome_def reconcile_file_symbols_wf)
next
  case (SetCalleesCacheHash i h)
  then show "wf_db d \<Longrightarrow> ?thesis"
    by (auto simp: write_unit_def intro: wf_db_pres split: sum.splits)
next
  case (MarkMaterialized i t)
  then show "wf_db d \<Longrightarrow> ?thesis"
    by (auto simp: write_unit_def intro: wf_db_pres split: sum.splits)
qed (simp_all add: set_meta_wf update_node_construct_wf update_node_signature_wf
    update_node_signature_by_fqn_wf invalidate_outgoing_calls_wf)

interpretation dba: command_actor "run_command ro H" wf_db for ro H
  by unfold_locales (rule run_command_wf)

text \<open>C1: The actor is a serial server that keeps the schema. However clients interleave their
  sends, the tables are those of running a prefix of the sent commands one after the other,
  they are well-formed (keys unique, references resolved, every relation stored once), and
  command \<open>t\<close> is answered exactly when it is in that prefix, with the reply of the serial
  run.\<close>

theorem db_actor_serializable:
  assumes "actor_run (run_command ro H) empty_db cs a"
  shows "wf_db (ac_state a) \<and> (\<exists>k \<le> length cs.
    ac_state a = snd (serve (run_command ro H) (take k cs) empty_db) \<and>
    (\<forall>t. ac_replies a t =
      (if t < k then Some (fst (serve (run_command ro H) (take k cs) empty_db) ! t) else None)))"
  using dba.actor_inv [OF assms wf_empty_db] dba.actor_serial [OF assms] by blast

theorem db_actor_serializable_witness:
  "wf_db (snd (run_command table_order const_hasher (UpsertNode (row_at None ''m.f'' ''u'' ''f'' 3 ''h'')) empty_db))"
proof -
  let ?c = "UpsertNode (row_at None ''m.f'' ''u'' ''f'' 3 ''h'')"
  note s = actor_run.start [of "run_command table_order const_hasher" empty_db]
  note q = actor_run.send [OF s, of ?c, simplified channel_capacity_def, simplified]
  note r = actor_run.handle [OF q, simplified]
  show ?thesis using db_actor_serializable [OF r] by simp
qed

end
