(* ===== verification/Paging.thy ===== *)
theory Paging
  imports Graph_Props
begin

text \<open>
  The request shapes of the query layer (\<open>src/query/filter.rs\<close>), its wire objects
  (\<open>src/query/dto.rs\<close>) and cursor pagination (\<open>paginate\<close> of \<open>src/query/mod.rs\<close>). The
  locale \<open>sorted_listing\<close> is what a paginated operation owes: rows in strictly ascending key
  order; pages then cover the listing exactly.
\<close>

section \<open>Matching and filtering\<close>

datatype MatchMode = Segment | Contains | Exact | Fuzzy

text \<open>
  \<open>similar\<close> stands for the third-party test \<open>strsim::normalized_levenshtein(a, b) >= 0.7\<close>.
\<close>

type_synonym Similar = "string \<Rightarrow> string \<Rightarrow> bool"

definition eq_case :: "string \<Rightarrow> string \<Rightarrow> bool \<Rightarrow> bool" where
  "eq_case a b ignore_case = (if ignore_case then eq_ignore_ascii_case a b else a = b)"

definition fuzzy_eq :: "Similar \<Rightarrow> string \<Rightarrow> string \<Rightarrow> bool \<Rightarrow> bool" where
  "fuzzy_eq similar a b ignore_case =
     (if ignore_case then similar (to_ascii_lowercase a) (to_ascii_lowercase b) else similar a b)"

fun mode_matches :: "Similar \<Rightarrow> MatchMode \<Rightarrow> string \<Rightarrow> bool \<Rightarrow> string \<Rightarrow> bool" where
  "mode_matches similar Segment pattern ic f =
     list_ex (\<lambda>seg. eq_case pattern seg ic) (split_on (CHR ''.'') f)"
| "mode_matches similar Exact pattern ic f = eq_case pattern f ic"
| "mode_matches similar Contains pattern ic f =
     (if ic then str_contains (to_ascii_lowercase pattern) (to_ascii_lowercase f)
      else str_contains pattern f)"
| "mode_matches similar Fuzzy pattern ic f =
     list_ex (\<lambda>seg. fuzzy_eq similar pattern seg ic) (split_on (CHR ''.'') f)"

datatype SymbolRef = Fqn string | At string u32 u32

record Filter =
  f_language :: "string option"
  f_kind :: "string list option"
  f_include_external :: bool

definition default_filter :: Filter where
  "default_filter = \<lparr>f_language = None, f_kind = None, f_include_external = False\<rparr>"

text \<open>\<open>kind_label\<close>: the one rewrite is a TypeScript type alias seen as a variable.\<close>

definition kind_label :: "string \<Rightarrow> string option \<Rightarrow> string" where
  "kind_label node_kind constr =
     (if node_kind = ''Variable'' \<and> constr = Some ''type'' then ''TypeAlias'' else node_kind)"

definition filter_matches :: "Filter \<Rightarrow> Node \<Rightarrow> bool" where
  "filter_matches fl n =
     (if \<not> f_include_external fl \<and> n_is_external n then False
      else if (case f_language fl of Some lang \<Rightarrow> n_language n \<noteq> lang | None \<Rightarrow> False) then False
      else (case f_kind fl of
              Some kinds \<Rightarrow> list_ex (\<lambda>k. k = kind_label (n_node_kind n) (n_construct n)) kinds
            | None \<Rightarrow> True))"

section \<open>Wire objects\<close>

record Position =
  p_line :: u32
  p_character :: u32

record RangeDto =
  r_start :: Position
  r_end :: Position

text \<open>The saturating conversion of a graph column to an LSP position field.\<close>

definition to_u32 :: "int \<Rightarrow> u32" where
  "to_u32 v = u32_of_i64 (max 0 (min u32_max v))"

definition range_dto :: "Range \<Rightarrow> RangeDto" where
  "range_dto r = \<lparr>r_start = \<lparr>p_line = to_u32 (start_line r), p_character = to_u32 (start_col r)\<rparr>,
     r_end = \<lparr>p_line = to_u32 (end_line r), p_character = to_u32 (end_col r)\<rparr>\<rparr>"

record NodeDto =
  nd_fqn :: string
  nd_uri :: string
  nd_name :: string
  nd_language :: string
  nd_kind_label :: string
  nd_kind_num :: u32
  nd_construct :: "string option"
  nd_range :: RangeDto
  nd_selection_range :: RangeDto
  nd_signature :: "string option"
  nd_documentation :: "string option"
  nd_is_external :: bool

definition dto_from_node :: "Node \<Rightarrow> NodeDto" where
  "dto_from_node n = \<lparr>nd_fqn = n_fqn n, nd_uri = n_uri n, nd_name = n_name n,
     nd_language = n_language n, nd_kind_label = kind_label (n_node_kind n) (n_construct n),
     nd_kind_num = to_u32 (n_kind n), nd_construct = n_construct n,
     nd_range = range_dto (n_range n), nd_selection_range = range_dto (n_sel n),
     nd_signature = n_signature n, nd_documentation = n_documentation n,
     nd_is_external = n_is_external n\<rparr>"

record FindSymbolResult =
  fs_nodes :: "NodeDto list"
  fs_fqns :: "string list"
  fs_next_cursor :: "string option"

record ReadRangeResult =
  rr_uri :: string
  rr_content :: string
  rr_range :: RangeDto
  rr_total_lines :: u32

record FindDefinitionResult =
  fd_nodes :: "NodeDto list"

record ReferenceGroup =
  rg_node :: NodeDto
  rg_sites :: "RangeDto list"

record FindReferencesResult =
  fr_references :: "ReferenceGroup list"
  fr_next_cursor :: "string option"
  fr_hint_fqns :: "string list"

record CallGraphNode =
  cg_node :: NodeDto
  cg_call_sites :: "RangeDto list"

record CallGraphResult =
  cr_items :: "CallGraphNode list"
  cr_next_cursor :: "string option"
  cr_hint_fqns :: "string list"

record FindCallPathResult =
  cp_reachable :: bool
  cp_path :: "NodeDto list"
  cp_limit_reached :: bool
  cp_from_hint_fqns :: "string list"
  cp_to_hint_fqns :: "string list"

section \<open>Sort keys and cursors\<close>

datatype SortKey =
  SortKey (sk_fqn: string) (sk_uri: string) (sk_start_line: int) (sk_start_col: int)

definition key_tuple :: "SortKey \<Rightarrow> string \<times> string \<times> int \<times> int" where
  "key_tuple k = (sk_fqn k, sk_uri k, sk_start_line k, sk_start_col k)"

lemma key_tuple_inj: "key_tuple a = key_tuple b \<Longrightarrow> a = b"
  by (cases a; cases b) (simp add: key_tuple_def)

text \<open>The derived lexicographic order.\<close>

instantiation SortKey :: linorder
begin

definition less_eq_SortKey :: "SortKey \<Rightarrow> SortKey \<Rightarrow> bool" where
  "a \<le> b \<longleftrightarrow> key_tuple a \<le> key_tuple b"

definition less_SortKey :: "SortKey \<Rightarrow> SortKey \<Rightarrow> bool" where
  "a < b \<longleftrightarrow> key_tuple a < key_tuple b"

instance
proof
  fix a b c :: SortKey
  show "a < b \<longleftrightarrow> a \<le> b \<and> \<not> b \<le> a" by (auto simp: less_eq_SortKey_def less_SortKey_def)
  show "a \<le> a" by (simp add: less_eq_SortKey_def)
  show "a \<le> b \<Longrightarrow> b \<le> c \<Longrightarrow> a \<le> c" by (simp add: less_eq_SortKey_def)
  show "a \<le> b \<Longrightarrow> b \<le> a \<Longrightarrow> a = b" by (simp add: less_eq_SortKey_def key_tuple_inj)
  show "a \<le> b \<or> b \<le> a" by (auto simp: less_eq_SortKey_def)
qed

end

definition key_from_node :: "Node \<Rightarrow> SortKey" where
  "key_from_node n = SortKey (n_fqn n) (n_uri n) (start_line (n_range n)) (start_col (n_range n))"

lemma key_tuple_from_node [simp]: "key_tuple (key_from_node n) = node_sort_key n"
  by (simp add: key_tuple_def key_from_node_def node_sort_key_def)

record Cursor =
  cur_key :: SortKey

record Page =
  pg_limit :: nat
  pg_cursor :: "Cursor option"

definition default_page :: Page where
  "default_page = \<lparr>pg_limit = 100, pg_cursor = None\<rparr>"

definition MAX_PAGE_LIMIT :: nat where
  "MAX_PAGE_LIMIT = 500"

definition DEFAULT_CALL_PATH_MAX_DEPTH :: nat where "DEFAULT_CALL_PATH_MAX_DEPTH = 8"
definition MAX_CALL_PATH_MAX_DEPTH :: nat where "MAX_CALL_PATH_MAX_DEPTH = 20"
definition DEFAULT_CALL_PATH_LSP_BUDGET :: nat where "DEFAULT_CALL_PATH_LSP_BUDGET = 30"
definition MAX_CALL_PATH_LSP_BUDGET :: nat where "MAX_CALL_PATH_LSP_BUDGET = 200"

text \<open>
  The third-party codecs behind a cursor token: the JSON of the payload and the base64 of
  the bytes. Decoding is partial.
\<close>

record Codec =
  json_encode :: "string \<times> string \<times> int \<times> int \<Rightarrow> string"
  json_decode :: "string \<Rightarrow> (string \<times> string \<times> int \<times> int) option"
  base64_encode :: "string \<Rightarrow> string"
  base64_decode :: "string \<Rightarrow> string option"

definition codec_ok :: "Codec \<Rightarrow> bool" where
  "codec_ok c \<longleftrightarrow> (\<forall>p. json_decode c (json_encode c p) = Some p) \<and>
     (\<forall>b. base64_decode c (base64_encode c b) = Some b)"

datatype CursorError = InvalidBase64 | InvalidJson

definition cursor_encode :: "Codec \<Rightarrow> Cursor \<Rightarrow> string" where
  "cursor_encode c cur = base64_encode c (json_encode c (key_tuple (cur_key cur)))"

definition cursor_decode :: "Codec \<Rightarrow> string \<Rightarrow> CursorError + Cursor" where
  "cursor_decode c token =
     (case base64_decode c token of
        None \<Rightarrow> Inl InvalidBase64
      | Some bytes \<Rightarrow>
          (case json_decode c bytes of
             None \<Rightarrow> Inl InvalidJson
           | Some (f, u, l, k) \<Rightarrow> Inr \<lparr>cur_key = SortKey f u l k\<rparr>))"

section \<open>Pagination\<close>

text \<open>\<open>limit.clamp(1, MAX_PAGE_LIMIT)\<close>.\<close>

definition page_limit :: "Page \<Rightarrow> nat" where
  "page_limit p = max 1 (min MAX_PAGE_LIMIT (pg_limit p))"

definition paginate :: "'a list \<Rightarrow> Page \<Rightarrow> ('a \<Rightarrow> SortKey) \<Rightarrow> 'a list \<times> Cursor option" where
  "paginate items page key_of =
     (let items' = (case pg_cursor page of
                      Some cur \<Rightarrow> filter (\<lambda>t. cur_key cur < key_of t) items
                    | None \<Rightarrow> items);
          limit = page_limit page
      in (take limit items',
          if limit < length items' then Some \<lparr>cur_key = key_of (items' ! (limit - 1))\<rparr> else None))"

text \<open>A client that follows the cursors, with at most \<open>n\<close> requests.\<close>

fun follow_pages :: "nat \<Rightarrow> 'a list \<Rightarrow> Page \<Rightarrow> ('a \<Rightarrow> SortKey) \<Rightarrow> 'a list list option" where
  "follow_pages 0 items page key_of = None"
| "follow_pages (Suc n) items page key_of =
     (case paginate items page key_of of
        (xs, None) \<Rightarrow> Some [xs]
      | (xs, Some cur) \<Rightarrow>
          map_option (\<lambda>ps. xs # ps) (follow_pages n items (page\<lparr>pg_cursor := Some cur\<rparr>) key_of))"

section \<open>Pages of a strictly ascending listing\<close>

definition ascending :: "('a \<Rightarrow> SortKey) \<Rightarrow> 'a list \<Rightarrow> bool" where
  "ascending key xs \<longleftrightarrow> sorted_wrt (\<lambda>x y. key x < key y) xs"

lemma ascending_nth: "ascending key xs \<Longrightarrow> i < j \<Longrightarrow> j < length xs \<Longrightarrow> key (xs ! i) < key (xs ! j)"
  unfolding ascending_def by (rule sorted_wrt_nth_less)

text \<open>Filtering after the key of element \<open>k\<close> drops exactly the first \<open>k + 1\<close> elements.\<close>

lemma filter_after_key:
  assumes "ascending key xs" and "k < length xs"
  shows "filter (\<lambda>t. key (xs ! k) < key t) xs = drop (Suc k) xs"
proof -
  have split: "xs = take (Suc k) xs @ drop (Suc k) xs" by simp
  have "\<not> key (xs ! k) < key t" if "t \<in> set (take (Suc k) xs)" for t
  proof -
    from that obtain i where "i < Suc k" "i < length xs" "t = xs ! i"
      by (auto simp: in_set_conv_nth)
    then show ?thesis
      using ascending_nth [OF assms(1), of i k] assms(2)
      by (cases "i = k") (auto dest: order.asym)
  qed
  moreover have "key (xs ! k) < key t" if "t \<in> set (drop (Suc k) xs)" for t
  proof -
    from that obtain i where "i < length xs - Suc k" "t = xs ! (Suc k + i)"
      by (auto simp: in_set_conv_nth)
    then show ?thesis using ascending_nth [OF assms(1), of k "Suc k + i"] by simp
  qed
  ultimately have "filter (\<lambda>t. key (xs ! k) < key t) (take (Suc k) xs) = []"
    "filter (\<lambda>t. key (xs ! k) < key t) (drop (Suc k) xs) = drop (Suc k) xs"
    by (simp_all add: filter_empty_conv filter_id_conv)
  then show ?thesis using split by (metis append_Nil filter_append)
qed

text \<open>The cursor stands after the first \<open>k\<close> items.\<close>

definition cursor_at :: "('a \<Rightarrow> SortKey) \<Rightarrow> 'a list \<Rightarrow> nat \<Rightarrow> Cursor option \<Rightarrow> bool" where
  "cursor_at key xs k c \<longleftrightarrow>
     (case c of None \<Rightarrow> k = 0 | Some cur \<Rightarrow> 0 < k \<and> k \<le> length xs \<and> cur_key cur = key (xs ! (k - 1)))"

lemma paginate_at:
  assumes asc: "ascending key xs" and at: "cursor_at key xs k (pg_cursor page)"
  shows "paginate xs page key =
    (take (page_limit page) (drop k xs),
     if page_limit page < length xs - k
     then Some \<lparr>cur_key = key (xs ! (k + page_limit page - 1))\<rparr> else None)"
proof -
  have pos: "1 \<le> page_limit page" by (simp add: page_limit_def)
  have rest: "(case pg_cursor page of Some cur \<Rightarrow> filter (\<lambda>t. cur_key cur < key t) xs | None \<Rightarrow> xs) = drop k xs"
  proof (cases "pg_cursor page")
    case None
    with at show ?thesis by (simp add: cursor_at_def)
  next
    case (Some cur)
    with at have "0 < k" "k \<le> length xs" "cur_key cur = key (xs ! (k - 1))" by (simp_all add: cursor_at_def)
    then show ?thesis using filter_after_key [OF asc, of "k - 1"] Some by simp
  qed
  have "drop k xs ! (page_limit page - 1) = xs ! (k + page_limit page - 1)"
    if "page_limit page < length xs - k"
    using that pos by (simp add: nth_drop)
  then show ?thesis by (simp add: paginate_def Let_def rest)
qed

lemma follow_pages_at:
  assumes asc: "ascending key xs" and at: "cursor_at key xs k (pg_cursor page)"
    and n: "length xs - k < n"
  shows "\<exists>ps. follow_pages n xs page key = Some ps \<and> concat ps = drop k xs \<and>
    (\<forall>p \<in> set ps. length p \<le> page_limit page) \<and>
    (\<forall>p \<in> set (butlast ps). length p = page_limit page)"
  using at n
proof (induction n arbitrary: k page)
  case 0
  then show ?case by simp
next
  case (Suc n)
  let ?l = "page_limit page"
  have pos: "1 \<le> ?l" by (simp add: page_limit_def)
  note p = paginate_at [OF asc Suc.prems(1)]
  show ?case
  proof (cases "?l < length xs - k")
    case False
    then show ?thesis by (simp add: p)
  next
    case True
    let ?page = "page\<lparr>pg_cursor := Some \<lparr>cur_key = key (xs ! (k + ?l - 1))\<rparr>\<rparr>"
    have lim: "page_limit ?page = ?l" by (simp add: page_limit_def)
    have "cursor_at key xs (k + ?l) (pg_cursor ?page)" using True pos by (simp add: cursor_at_def)
    moreover have "length xs - (k + ?l) < n" using Suc.prems(2) True pos by simp
    ultimately obtain ps where ps: "follow_pages n xs ?page key = Some ps"
        "concat ps = drop (k + ?l) xs" "\<forall>p \<in> set ps. length p \<le> ?l"
        "\<forall>p \<in> set (butlast ps). length p = ?l"
      using Suc.IH [of "k + ?l" ?page] lim by auto
    have "take ?l (drop k xs) @ drop (k + ?l) xs = drop k xs"
      by (metis append_take_drop_id drop_drop add.commute)
    then show ?thesis using True ps
      by (intro exI [of _ "take ?l (drop k xs) # ps"]) (simp add: p)
  qed
qed

text \<open>
  The contract of a paginated operation: for an admissible query \<open>q\<close> the listing is strictly
  ascending by its sort key.
\<close>

locale sorted_listing =
  fixes listing :: "'q \<Rightarrow> 'a list" and key :: "'a \<Rightarrow> SortKey" and ok :: "'q \<Rightarrow> bool"
  assumes listing_ascending: "ok q \<Longrightarrow> ascending key (listing q)"
begin

lemma pages_cover:
  assumes "ok q" and "pg_cursor page = None"
  shows "\<exists>ps. follow_pages (Suc (length (listing q))) (listing q) page key = Some ps \<and>
    concat ps = listing q \<and> (\<forall>p \<in> set ps. length p \<le> page_limit page) \<and>
    (\<forall>p \<in> set (butlast ps). length p = page_limit page)"
  using follow_pages_at [OF listing_ascending [OF assms(1)], of 0 page "Suc (length (listing q))"] assms(2)
  by (simp add: cursor_at_def)

lemma listing_distinct: "ok q \<Longrightarrow> distinct (map key (listing q))"
  using ascending_nth [OF listing_ascending, of q]
  by (auto simp: distinct_conv_nth) (metis less_irrefl linorder_neqE_nat)

end

text \<open>\<open>list_nodes\<close> keeps the contract on well-formed tables.\<close>

lemma sorted_distinct_ascending:
  assumes "sorted (map k xs)" "distinct (map k xs)" "\<And>x. key_tuple (key x) = k x"
  shows "ascending key xs"
proof -
  have "sorted_wrt (<) (map k xs)" using assms(1,2) by (simp add: strict_sorted_iff)
  then show ?thesis using assms(3) by (simp add: ascending_def less_SortKey_def sorted_wrt_map)
qed

lemma distinct_map_mset: "mset xs = mset ys \<Longrightarrow> distinct (map f xs) = distinct (map f ys)"
  by (metis mset_eq_imp_distinct_iff mset_map)

lemma distinct_map_sort: "distinct (map f (sort_key k xs)) = distinct (map f xs)"
  by (rule distinct_map_mset) simp

lemma distinct_node_sort_key:
  "distinct (map n_fqn xs) \<Longrightarrow> distinct (map node_sort_key xs)"
  by (auto simp: distinct_map inj_on_def node_sort_key_def)

lemma list_nodes_filter:
  "list_nodes ro d lang = sort_key node_sort_key
     (ord_nodes ro (filter (\<lambda>n. n_valid n \<and> (case lang of Some l \<Rightarrow> n_language n = l | None \<Rightarrow> True)) (db_nodes d)))"
  by (cases lang) (simp_all add: list_nodes_def)

lemma list_nodes_ascending:
  assumes "row_order_ok ro" and "wf_db d"
  shows "ascending key_from_node (filter P (list_nodes ro d lang))"
proof -
  let ?f = "filter (\<lambda>n. n_valid n \<and> (case lang of Some l \<Rightarrow> n_language n = l | None \<Rightarrow> True)) (db_nodes d)"
  have "distinct (map n_fqn ?f)"
    using assms(2) by (intro distinct_map_filter) (simp add: wf_db_def wf_nodes_def)
  then have "distinct (map node_sort_key (ord_nodes ro ?f))"
    unfolding distinct_map_mset [OF row_order_mset(1) [OF assms(1)]] by (rule distinct_node_sort_key)
  then have "distinct (map node_sort_key (list_nodes ro d lang))"
    unfolding list_nodes_filter distinct_map_sort .
  then have "ascending key_from_node (list_nodes ro d lang)"
    unfolding list_nodes_filter by (intro sorted_distinct_ascending) simp_all
  then show ?thesis by (simp add: ascending_def sorted_wrt_filter)
qed

interpretation ln: sorted_listing "\<lambda>q. filter P (list_nodes ro (fst q) (snd q))" key_from_node
  "\<lambda>q. row_order_ok ro \<and> wf_db (fst q)" for P ro
  by unfold_locales (simp add: list_nodes_ascending)

section \<open>Cursor tokens\<close>

text \<open>A cursor survives the wire. Under codecs that invert themselves, decoding the token of
  a cursor gives the cursor back, and a token that is not base64, or whose bytes are not the
  payload, is refused rather than read as some other position.\<close>

theorem cursor_roundtrip:
  assumes "codec_ok c"
  shows "cursor_decode c (cursor_encode c cur) = Inr cur \<and>
    (base64_decode c t = None \<longrightarrow> cursor_decode c t = Inl InvalidBase64) \<and>
    (\<forall>b. base64_decode c t = Some b \<longrightarrow> json_decode c b = None \<longrightarrow> cursor_decode c t = Inl InvalidJson)"
  using assms
  by (cases cur; cases "cur_key cur") (simp add: codec_ok_def cursor_encode_def cursor_decode_def key_tuple_def)

text \<open>A concrete self-inverting codec, to see that the hypothesis can hold: fields are written
  character by character behind a marker, numbers in unary behind a sign.\<close>

fun mark_field :: "string \<Rightarrow> string" where
  "mark_field [] = ''.''"
| "mark_field (c # cs) = CHR ''c'' # c # mark_field cs"

fun read_fields :: "string \<Rightarrow> string \<Rightarrow> string list" where
  "read_fields acc (x # y # r) =
     (if x = CHR ''c'' then read_fields (acc @ [y]) r else acc # read_fields [] (y # r))"
| "read_fields acc [x] = [acc]"
| "read_fields acc [] = []"

definition unary :: "int \<Rightarrow> string" where
  "unary i = (if i < 0 then CHR ''-'' # replicate (nat (- i)) (CHR ''i'') else CHR ''+'' # replicate (nat i) (CHR ''i''))"

definition read_unary :: "string \<Rightarrow> int" where
  "read_unary s = (case s of [] \<Rightarrow> 0 | c # r \<Rightarrow> if c = CHR ''-'' then - int (length r) else int (length r))"

definition marking_codec :: Codec where
  "marking_codec = \<lparr>
     json_encode = (\<lambda>(f, u, l, k). mark_field f @ mark_field u @ mark_field (unary l) @ mark_field (unary k)),
     json_decode = (\<lambda>s. case read_fields [] s of [f, u, l, k] \<Rightarrow> Some (f, u, read_unary l, read_unary k) | _ \<Rightarrow> None),
     base64_encode = (\<lambda>s. s), base64_decode = (\<lambda>s. Some s)\<rparr>"

lemma read_mark_last: "read_fields acc (mark_field s) = [acc @ s]"
  by (induction s arbitrary: acc rule: mark_field.induct) simp_all

lemma read_mark:
  "r \<noteq> [] \<Longrightarrow> read_fields acc (mark_field s @ r) = (acc @ s) # read_fields [] r"
proof (induction s arbitrary: acc)
  case Nil
  then show ?case by (cases r) simp_all
qed simp

lemma read_unary_unary [simp]: "read_unary (unary i) = i"
  by (simp add: read_unary_def unary_def)

lemma mark_field_not_Nil [simp]: "mark_field s \<noteq> []"
  by (cases s) simp_all

lemma codec_ok_marking: "codec_ok marking_codec"
  by (auto simp: codec_ok_def marking_codec_def read_mark read_mark_last)

theorem cursor_roundtrip_witness:
  "cursor_decode marking_codec (cursor_encode marking_codec \<lparr>cur_key = SortKey ''m.f'' ''u'' 3 0\<rparr>)
     = Inr \<lparr>cur_key = SortKey ''m.f'' ''u'' 3 0\<rparr>"
  using cursor_roundtrip [OF codec_ok_marking] by blast

end
