(* ===== verification/Adapters.thy ===== *)
theory Adapters
  imports Semnav_Prelude
begin

text \<open>
  The language adapters of \<open>src/adapters\<close>: symbol kinds and their labels (\<open>kind.rs\<close>), the
  adapter record with the trait's default methods (\<open>mod.rs\<close>) and the four built-in adapters,
  the adapters configured through the environment (\<open>custom.rs\<close>), and provisioning of a
  server (\<open>provision.rs\<close>) with the environment, the search path and npm as parameters.
\<close>

section \<open>Symbol kinds\<close>

datatype SymbolKind =
    SkFile | SkModule | SkNamespace | SkPackage | SkClass | SkMethod
  | SkProperty | SkField | SkConstructor | SkEnum | SkInterface | SkFunction
  | SkVariable | SkConstant | SkString | SkNumber | SkBoolean | SkArray
  | SkObject | SkKey | SkNull | SkEnumMember | SkStruct | SkEvent
  | SkOperator | SkTypeParameter

fun kind_number :: "SymbolKind \<Rightarrow> nat" where
  "kind_number SkFile = 1"
| "kind_number SkModule = 2"
| "kind_number SkNamespace = 3"
| "kind_number SkPackage = 4"
| "kind_number SkClass = 5"
| "kind_number SkMethod = 6"
| "kind_number SkProperty = 7"
| "kind_number SkField = 8"
| "kind_number SkConstructor = 9"
| "kind_number SkEnum = 10"
| "kind_number SkInterface = 11"
| "kind_number SkFunction = 12"
| "kind_number SkVariable = 13"
| "kind_number SkConstant = 14"
| "kind_number SkString = 15"
| "kind_number SkNumber = 16"
| "kind_number SkBoolean = 17"
| "kind_number SkArray = 18"
| "kind_number SkObject = 19"
| "kind_number SkKey = 20"
| "kind_number SkNull = 21"
| "kind_number SkEnumMember = 22"
| "kind_number SkStruct = 23"
| "kind_number SkEvent = 24"
| "kind_number SkOperator = 25"
| "kind_number SkTypeParameter = 26"

definition symbol_kinds :: "SymbolKind list" where
  "symbol_kinds = [SkFile, SkModule, SkNamespace, SkPackage, SkClass, SkMethod,
     SkProperty, SkField, SkConstructor, SkEnum, SkInterface, SkFunction,
     SkVariable, SkConstant, SkString, SkNumber, SkBoolean, SkArray,
     SkObject, SkKey, SkNull, SkEnumMember, SkStruct, SkEvent,
     SkOperator, SkTypeParameter]"

text \<open>\<open>SymbolKind::from_u32\<close>: the protocol values 1 to 26.\<close>

definition kind_from_u32 :: "u32 \<Rightarrow> SymbolKind option" where
  "kind_from_u32 v = (let n = unat v in
     if 1 \<le> n \<and> n \<le> 26 then Some (symbol_kinds ! (n - 1)) else None)"

fun kind_name :: "SymbolKind \<Rightarrow> string" where
  "kind_name SkFile = ''File''"
| "kind_name SkModule = ''Module''"
| "kind_name SkNamespace = ''Namespace''"
| "kind_name SkPackage = ''Package''"
| "kind_name SkClass = ''Class''"
| "kind_name SkMethod = ''Method''"
| "kind_name SkProperty = ''Property''"
| "kind_name SkField = ''Field''"
| "kind_name SkConstructor = ''Constructor''"
| "kind_name SkEnum = ''Enum''"
| "kind_name SkInterface = ''Interface''"
| "kind_name SkFunction = ''Function''"
| "kind_name SkVariable = ''Variable''"
| "kind_name SkConstant = ''Constant''"
| "kind_name SkString = ''String''"
| "kind_name SkNumber = ''Number''"
| "kind_name SkBoolean = ''Boolean''"
| "kind_name SkArray = ''Array''"
| "kind_name SkObject = ''Object''"
| "kind_name SkKey = ''Key''"
| "kind_name SkNull = ''Null''"
| "kind_name SkEnumMember = ''EnumMember''"
| "kind_name SkStruct = ''Struct''"
| "kind_name SkEvent = ''Event''"
| "kind_name SkOperator = ''Operator''"
| "kind_name SkTypeParameter = ''TypeParameter''"

datatype NodeKind = Standard SymbolKind | Custom string

fun to_label :: "NodeKind \<Rightarrow> string" where
  "to_label (Standard k) = kind_name k"
| "to_label (Custom label) = label"

text \<open>The default \<open>map_symbol_kind\<close>: pass-through, with a label for unknown values.\<close>

definition map_symbol_kind :: "u32 \<Rightarrow> NodeKind" where
  "map_symbol_kind v = (case kind_from_u32 v of
      Some k \<Rightarrow> Standard k
    | None \<Rightarrow> Custom (''Unknown('' @ show_nat (unat v) @ '')''))"

section \<open>Refinement via hover\<close>

definition hover_keywords :: "string list" where
  "hover_keywords = [''type'', ''interface'', ''class'', ''function'', ''const'', ''let'', ''var'',
     ''enum'', ''namespace'', ''module'']"

definition hover_modifiers :: "string list" where
  "hover_modifiers = [''export'', ''declare'', ''default'', ''public'', ''private'', ''protected'',
     ''readonly'', ''abstract'', ''async'', ''static'']"

definition construct_from_hover :: "string \<Rightarrow> string option" where
  "construct_from_hover text =
     (case List.find (\<lambda>l. l \<noteq> [] \<and> \<not> starts_with ''```'' l) (map trim_str (str_lines text)) of
        None \<Rightarrow> None
      | Some line \<Rightarrow>
          (case List.find (\<lambda>w. w \<notin> set hover_modifiers) (split_whitespace line) of
             None \<Rightarrow> None
           | Some w \<Rightarrow> if w \<in> set hover_keywords then Some w else None))"

section \<open>Adapters\<close>

record CommandSpec =
  cs_program :: string
  cs_args :: "string list"

record ServerPackage =
  sp_npm_package :: string
  sp_version :: string
  sp_peers :: "string list"

record LanguageAdapter =
  ad_language_name :: string
  ad_file_extensions :: "string list"
  ad_external_path_markers :: "string list"
  ad_server_command :: CommandSpec
  ad_server_package :: "ServerPackage option"

definition matches_uri :: "LanguageAdapter \<Rightarrow> string \<Rightarrow> bool" where
  "matches_uri a u = (case rsplit_once (CHR ''.'') u of
      None \<Rightarrow> False
    | Some (_, raw) \<Rightarrow>
        (let ext = CHR ''.'' # to_ascii_lowercase raw
         in list_ex (\<lambda>e. to_ascii_lowercase e = ext) (ad_file_extensions a)))"

definition is_external :: "LanguageAdapter \<Rightarrow> string \<Rightarrow> string \<Rightarrow> bool" where
  "is_external a u root_uri =
     (if \<not> starts_with root_uri u then True
      else list_ex (\<lambda>marker. str_contains marker u) (ad_external_path_markers a))"

definition PythonAdapter :: LanguageAdapter where
  "PythonAdapter = \<lparr>ad_language_name = ''python'', ad_file_extensions = [''.py''],
     ad_external_path_markers = [''/site-packages/'', ''/.venv/lib/'', ''/typeshed-fallback/''],
     ad_server_command = \<lparr>cs_program = ''pyright-langserver'', cs_args = [''--stdio'']\<rparr>,
     ad_server_package = Some \<lparr>sp_npm_package = ''pyright'', sp_version = ''1.1.409'', sp_peers = []\<rparr>\<rparr>"

definition TypeScriptAdapter :: LanguageAdapter where
  "TypeScriptAdapter = \<lparr>ad_language_name = ''typescript'', ad_file_extensions = [''.ts'', ''.tsx''],
     ad_external_path_markers = [''/node_modules/''],
     ad_server_command = \<lparr>cs_program = ''typescript-language-server'', cs_args = [''--stdio'']\<rparr>,
     ad_server_package = Some \<lparr>sp_npm_package = ''typescript-language-server'', sp_version = ''5.1.3'',
       sp_peers = [''typescript@6.0.3'']\<rparr>\<rparr>"

definition RustAdapter :: LanguageAdapter where
  "RustAdapter = \<lparr>ad_language_name = ''rust'', ad_file_extensions = [''.rs''],
     ad_external_path_markers = [''/target/'', ''/.cargo/registry/'', ''/.cargo/git/''],
     ad_server_command = \<lparr>cs_program = ''rust-analyzer'', cs_args = []\<rparr>, ad_server_package = None\<rparr>"

definition GoAdapter :: LanguageAdapter where
  "GoAdapter = \<lparr>ad_language_name = ''go'', ad_file_extensions = [''.go''],
     ad_external_path_markers = [''/vendor/'', ''/pkg/mod/''],
     ad_server_command = \<lparr>cs_program = ''gopls'', cs_args = []\<rparr>, ad_server_package = None\<rparr>"

section \<open>Adapters configured through the environment\<close>

type_synonym Env = "string \<Rightarrow> string option"

definition split_env_list :: "string option \<Rightarrow> string list" where
  "split_env_list value =
     filter (\<lambda>s. s \<noteq> []) (map trim_str (split_on (CHR '','') (case value of Some v \<Rightarrow> v | None \<Rightarrow> [])))"

definition custom_adapter :: "Env \<Rightarrow> string \<Rightarrow> LanguageAdapter option" where
  "custom_adapter env tag =
     (let tag_lower = to_ascii_lowercase tag; upper = to_ascii_uppercase tag_lower;
          extensions = split_env_list (env (''SEMNAV_LSP_'' @ upper @ ''_EXTENSIONS''))
      in if extensions = [] then None
         else Some \<lparr>ad_language_name = tag_lower, ad_file_extensions = extensions,
           ad_external_path_markers = split_env_list (env (''SEMNAV_LSP_'' @ upper @ ''_EXTERNAL_MARKERS'')),
           ad_server_command = \<lparr>cs_program = ''semnav-custom-'' @ upper @ ''-lsp-not-configured'', cs_args = []\<rparr>,
           ad_server_package = None\<rparr>)"

definition parse_custom_adapters :: "string \<Rightarrow> Env \<Rightarrow> LanguageAdapter list" where
  "parse_custom_adapters languages_spec env =
     List.map_filter (custom_adapter env)
       (filter (\<lambda>tag. tag \<noteq> []) (map trim_str (split_on (CHR '','') languages_spec)))"

definition custom_adapters :: "Env \<Rightarrow> LanguageAdapter list" where
  "custom_adapters env =
     parse_custom_adapters (case env ''SEMNAV_CUSTOM_LANGUAGES'' of Some s \<Rightarrow> s | None \<Rightarrow> []) env"

definition builtin_adapters :: "Env \<Rightarrow> LanguageAdapter list" where
  "builtin_adapters env = [PythonAdapter, TypeScriptAdapter, RustAdapter, GoAdapter] @ custom_adapters env"

definition select_for_uri :: "Env \<Rightarrow> string \<Rightarrow> LanguageAdapter option" where
  "select_for_uri env u = List.find (\<lambda>a. matches_uri a u) (builtin_adapters env)"

definition adapter_for_language :: "Env \<Rightarrow> string \<Rightarrow> LanguageAdapter option" where
  "adapter_for_language env language =
     List.find (\<lambda>a. ad_language_name a = language) (builtin_adapters env)"

section \<open>Provisioning\<close>

text \<open>
  The machine provisioning runs on: the environment, the programs on the search path, the
  files that exist, and what an npm install does (its exit status and the files afterwards;
  None when the process cannot be spawned). Directory creation may fail.
\<close>

record Host =
  h_env :: Env
  h_on_path :: "string \<Rightarrow> bool"
  h_exists :: "string \<Rightarrow> bool"
  h_mkdir_ok :: "string \<Rightarrow> bool"
  h_npm :: "string list \<Rightarrow> (bool \<times> (string \<Rightarrow> bool)) option"

datatype ProvisionError =
    NodeMissing | NpmMissing | ServersDirFailed | NpmSpawnFailed | NpmFailed
  | BinaryNotCreated | NotInstallable

datatype Resolved = OnPath | Isolated string | NeedsInstall

definition isolated_bin :: "string \<Rightarrow> string \<Rightarrow> string" where
  "isolated_bin servers_dir program = servers_dir @ ''/node_modules/.bin/'' @ program"

definition resolve_binary :: "Host \<Rightarrow> string \<Rightarrow> string \<Rightarrow> Resolved" where
  "resolve_binary h program servers_dir =
     (if h_on_path h program then OnPath
      else if h_exists h (isolated_bin servers_dir program) then Isolated (isolated_bin servers_dir program)
      else NeedsInstall)"

definition command_override_from_env :: "Host \<Rightarrow> string \<Rightarrow> string option" where
  "command_override_from_env h language_name =
     (case h_env h (''SEMNAV_LSP_'' @ to_ascii_uppercase language_name @ ''_COMMAND'') of
        Some s \<Rightarrow> if s = [] then None else Some s
      | None \<Rightarrow> None)"

definition extra_args_from_env :: "Host \<Rightarrow> string \<Rightarrow> string list" where
  "extra_args_from_env h language_name =
     (case h_env h (''SEMNAV_LSP_'' @ to_ascii_uppercase language_name @ ''_ARGS'') of
        Some s \<Rightarrow> split_whitespace s
      | None \<Rightarrow> [])"

definition require_runtime :: "Host \<Rightarrow> ProvisionError + unit" where
  "require_runtime h =
     (if \<not> h_on_path h ''node'' then Inl NodeMissing
      else if \<not> h_on_path h ''npm'' then Inl NpmMissing else Inr ())"

text \<open>A successful install returns the machine with the files npm left.\<close>

definition npm_install :: "Host \<Rightarrow> ServerPackage \<Rightarrow> string \<Rightarrow> ProvisionError + Host" where
  "npm_install h pkg servers_dir =
     bindR (require_runtime h) (\<lambda>_.
       if \<not> h_mkdir_ok h servers_dir then Inl ServersDirFailed
       else (case h_npm h ([''install'', ''--prefix'', servers_dir,
                 sp_npm_package pkg @ ''@'' @ sp_version pkg] @ sp_peers pkg) of
           None \<Rightarrow> Inl NpmSpawnFailed
         | Some (ok, files) \<Rightarrow> if ok then Inr (h\<lparr>h_exists := files\<rparr>) else Inl NpmFailed))"

definition resolve_program :: "Host \<Rightarrow> LanguageAdapter \<Rightarrow> string \<Rightarrow> ProvisionError + string" where
  "resolve_program h a servers_dir =
     (let program = cs_program (ad_server_command a) in
      case resolve_binary h program servers_dir of
        OnPath \<Rightarrow> Inr program
      | Isolated path \<Rightarrow> Inr path
      | NeedsInstall \<Rightarrow>
          (case ad_server_package a of
             None \<Rightarrow> Inl NotInstallable
           | Some pkg \<Rightarrow>
               bindR (npm_install h pkg servers_dir) (\<lambda>h'.
                 if h_exists h' (isolated_bin servers_dir program)
                 then Inr (isolated_bin servers_dir program) else Inl BinaryNotCreated)))"

text \<open>\<open>provision\<close>: the command line to spawn.\<close>

definition provision :: "Host \<Rightarrow> LanguageAdapter \<Rightarrow> string \<Rightarrow> ProvisionError + CommandSpec" where
  "provision h a servers_dir =
     bindR (case command_override_from_env h (ad_language_name a) of
              Some program \<Rightarrow> Inr program
            | None \<Rightarrow> resolve_program h a servers_dir)
       (\<lambda>program. Inr \<lparr>cs_program = program,
          cs_args = cs_args (ad_server_command a) @ extra_args_from_env h (ad_language_name a)\<rparr>)"

section \<open>Properties\<close>

lemma kind_from_number: "kind_from_u32 (of_nat (kind_number k)) = Some k"
  by (cases k) (simp_all add: kind_from_u32_def symbol_kinds_def)

lemma length_symbol_kinds [simp]: "length symbol_kinds = 26"
  by (simp add: symbol_kinds_def)

lemma kind_number_nth: "i < 26 \<Longrightarrow> kind_number (symbol_kinds ! i) = i + 1"
  by (simp add: symbol_kinds_def nth_Cons numeral_eq_Suc split: nat.splits)

lemma kind_from_u32_Some: "kind_from_u32 v = Some k \<longleftrightarrow> unat v = kind_number k"
proof
  assume "kind_from_u32 v = Some k"
  then have "1 \<le> unat v" "unat v \<le> 26" "k = symbol_kinds ! (unat v - 1)"
    by (auto simp: kind_from_u32_def Let_def split: if_splits)
  then show "unat v = kind_number k" using kind_number_nth [of "unat v - 1"] by simp
next
  assume "unat v = kind_number k"
  moreover have "of_nat (unat v) = v" by simp
  ultimately have "v = of_nat (kind_number k)" by metis
  then show "kind_from_u32 v = Some k" by (simp add: kind_from_number)
qed

lemma kind_number_inj: "kind_number a = kind_number b \<Longrightarrow> a = b"
  by (metis kind_from_number option.inject)

lemma kind_name_inj: "kind_name a = kind_name b \<Longrightarrow> a = b"
  by (cases a; cases b) simp_all

lemma kind_name_not_unknown: "kind_name k \<noteq> ''Unknown('' @ s"
  by (cases k) simp_all

lemma show_nat_inj: "show_nat m = show_nat n \<Longrightarrow> m = n"
  by (metis option.inject read_digits_show_nat)

text \<open>The stored label determines the protocol number. Two kind numbers, standard or not,
  get the same \<open>node_kind\<close> label only if they are the same number, so classification loses
  nothing, and each of the 26 standard numbers gets its own standard kind.\<close>

theorem kind_label_faithful:
  "(to_label (map_symbol_kind v) = to_label (map_symbol_kind w) \<longleftrightarrow> v = w) \<and>
   map_symbol_kind (of_nat (kind_number k)) = Standard k"
proof
  show "map_symbol_kind (of_nat (kind_number k)) = Standard k"
    by (simp add: map_symbol_kind_def kind_from_number)
  show "to_label (map_symbol_kind v) = to_label (map_symbol_kind w) \<longleftrightarrow> v = w"
  proof
    assume eq: "to_label (map_symbol_kind v) = to_label (map_symbol_kind w)"
    have unk: "to_label (map_symbol_kind x) = ''Unknown('' @ show_nat (unat x) @ '')''" if "kind_from_u32 x = None" for x
      using that by (simp add: map_symbol_kind_def)
    have std: "to_label (map_symbol_kind x) = kind_name a" if "kind_from_u32 x = Some a" for x a
      using that by (simp add: map_symbol_kind_def)
    show "v = w"
    proof (cases "kind_from_u32 v"; cases "kind_from_u32 w")
      fix a b assume "kind_from_u32 v = Some a" "kind_from_u32 w = Some b"
      then have "unat v = kind_number a" "unat w = kind_number b" "a = b"
        using eq std kind_name_inj by (auto simp: kind_from_u32_Some)
      then show ?thesis by (metis word_unat_eq_iff)
    next
      assume "kind_from_u32 v = None" "kind_from_u32 w = None"
      then have "show_nat (unat v) = show_nat (unat w)" using eq unk by simp
      then show ?thesis using show_nat_inj by (metis word_unat_eq_iff)
    next
      fix b assume "kind_from_u32 v = None" "kind_from_u32 w = Some b"
      then show ?thesis using eq unk std kind_name_not_unknown by metis
    next
      fix a assume "kind_from_u32 v = Some a" "kind_from_u32 w = None"
      then show ?thesis using eq unk std kind_name_not_unknown by metis
    qed
  qed simp
qed

text \<open>built-in languages cannot be hijacked. A file a built-in adapter matches is served by
  that adapter, whatever languages the environment adds, and every added adapter matches at
  least one extension.\<close>

theorem builtin_selection_stable:
  assumes "a \<in> {PythonAdapter, TypeScriptAdapter, RustAdapter, GoAdapter}" and "matches_uri a u"
  shows "select_for_uri env u = Some a \<and> (\<forall>c \<in> set (custom_adapters env). ad_file_extensions c \<noteq> [])"
proof
  obtain pre raw where r: "rsplit_once (CHR ''.'') u = Some (pre, raw)"
    using assms(2) by (auto simp: matches_uri_def split: option.splits)
  have low: "to_ascii_lowercase ''.py'' = ''.py''" "to_ascii_lowercase ''.ts'' = ''.ts''"
    "to_ascii_lowercase ''.tsx'' = ''.tsx''" "to_ascii_lowercase ''.rs'' = ''.rs''"
    "to_ascii_lowercase ''.go'' = ''.go''" by code_simp+
  have m: "matches_uri PythonAdapter u \<longleftrightarrow> to_ascii_lowercase raw = ''py''"
    "matches_uri TypeScriptAdapter u \<longleftrightarrow> to_ascii_lowercase raw = ''ts'' \<or> to_ascii_lowercase raw = ''tsx''"
    "matches_uri RustAdapter u \<longleftrightarrow> to_ascii_lowercase raw = ''rs''"
    "matches_uri GoAdapter u \<longleftrightarrow> to_ascii_lowercase raw = ''go''"
    using r low
    by (auto simp: matches_uri_def PythonAdapter_def TypeScriptAdapter_def RustAdapter_def GoAdapter_def)
  show "select_for_uri env u = Some a"
    using assms m by (auto simp: select_for_uri_def builtin_adapters_def)
  show "\<forall>c \<in> set (custom_adapters env). ad_file_extensions c \<noteq> []"
    by (auto simp: custom_adapters_def parse_custom_adapters_def custom_adapter_def Let_def
        List.map_filter_def split: if_splits)
qed

theorem builtin_selection_stable_witness:
  "select_for_uri (\<lambda>k. if k = ''SEMNAV_CUSTOM_LANGUAGES'' then Some ''mine'' else Some ''.rs'')
     ''file:///app/main.rs'' = Some RustAdapter"
proof -
  have "matches_uri RustAdapter ''file:///app/main.rs''" by code_simp
  then show ?thesis using builtin_selection_stable [of RustAdapter "''file:///app/main.rs''"] by simp
qed

lemma npm_install_Inr:
  assumes "npm_install h pkg dir = Inr h'"
  shows "\<exists>args files. h_npm h args = Some (True, files) \<and> h' = h\<lparr>h_exists := files\<rparr>"
proof -
  let ?args = "[''install'', ''--prefix'', dir, sp_npm_package pkg @ ''@'' @ sp_version pkg] @ sp_peers pkg"
  obtain ok files where "h_npm h ?args = Some (ok, files)"
    using assms by (auto simp: npm_install_def bindR_eq_Inr split: option.splits if_splits)
  with assms have "ok" "h' = h\<lparr>h_exists := files\<rparr>"
    by (auto simp: npm_install_def bindR_eq_Inr split: if_splits)
  with \<open>h_npm h ?args = Some (ok, files)\<close> have "h_npm h ?args = Some (True, files)" by simp
  with \<open>h' = h\<lparr>h_exists := files\<rparr>\<close> show ?thesis by blast
qed

text \<open>provisioning installs only as the last resort and never hands out a missing program.
  What npm would do is irrelevant when the command is overridden, found on the path, already
  installed, or not installable; and a command line that is handed out names the override, a
  program on the path, or a file that exists before or after the install.\<close>

theorem provision_last_resort:
  shows "(command_override_from_env h (ad_language_name a) \<noteq> None \<or>
      resolve_binary h (cs_program (ad_server_command a)) dir \<noteq> NeedsInstall \<or> ad_server_package a = None \<longrightarrow>
      provision (h\<lparr>h_npm := npm\<rparr>) a dir = provision h a dir) \<and>
    (provision h a dir = Inr c \<longrightarrow>
      command_override_from_env h (ad_language_name a) = Some (cs_program c) \<or>
      cs_program c = cs_program (ad_server_command a) \<and> h_on_path h (cs_program c) \<or>
      h_exists h (cs_program c) \<or>
      (\<exists>args files. h_npm h args = Some (True, files) \<and> files (cs_program c)))"
proof -
  have same: "command_override_from_env (h\<lparr>h_npm := npm\<rparr>) l = command_override_from_env h l"
    "extra_args_from_env (h\<lparr>h_npm := npm\<rparr>) l = extra_args_from_env h l"
    "resolve_binary (h\<lparr>h_npm := npm\<rparr>) p d = resolve_binary h p d" for l p d
    by (simp_all add: command_override_from_env_def extra_args_from_env_def resolve_binary_def)
  have "provision (h\<lparr>h_npm := npm\<rparr>) a dir = provision h a dir"
    if "command_override_from_env h (ad_language_name a) \<noteq> None \<or>
      resolve_binary h (cs_program (ad_server_command a)) dir \<noteq> NeedsInstall \<or> ad_server_package a = None"
    using that
    by (auto simp: provision_def same resolve_program_def Let_def split: option.splits Resolved.splits)
  moreover have "command_override_from_env h (ad_language_name a) = Some (cs_program c) \<or>
      cs_program c = cs_program (ad_server_command a) \<and> h_on_path h (cs_program c) \<or>
      h_exists h (cs_program c) \<or>
      (\<exists>args files. h_npm h args = Some (True, files) \<and> files (cs_program c))"
    if run: "provision h a dir = Inr c"
  proof (cases "command_override_from_env h (ad_language_name a)")
    case None
    with run have r: "resolve_program h a dir = Inr (cs_program c)"
      by (auto simp: provision_def bindR_eq_Inr)
    show ?thesis
    proof (cases "resolve_binary h (cs_program (ad_server_command a)) dir")
      case OnPath
      with r show ?thesis by (auto simp: resolve_program_def resolve_binary_def split: if_splits)
    next
      case (Isolated p)
      with r show ?thesis by (auto simp: resolve_program_def resolve_binary_def split: if_splits)
    next
      case NeedsInstall
      with r obtain pkg h' where "npm_install h pkg dir = Inr h'" "h_exists h' (cs_program c)"
        by (auto simp: resolve_program_def bindR_eq_Inr Let_def split: option.splits if_splits)
      then show ?thesis using npm_install_Inr by fastforce
    qed
  next
    case (Some p)
    with run show ?thesis by (auto simp: provision_def)
  qed
  ultimately show ?thesis by blast
qed

definition bare_host :: Host where
  "bare_host = \<lparr>h_env = Map.empty, h_on_path = (\<lambda>p. p = ''gopls''), h_exists = (\<lambda>_. False),
     h_mkdir_ok = (\<lambda>_. True), h_npm = (\<lambda>_. None)\<rparr>"

theorem provision_last_resort_witness:
  "provision (bare_host\<lparr>h_npm := (\<lambda>_. Some (False, \<lambda>_. True))\<rparr>) GoAdapter ''d'' = provision bare_host GoAdapter ''d''"
  using provision_last_resort [of bare_host GoAdapter "''d''"]
  by (simp add: resolve_binary_def bare_host_def GoAdapter_def)

end
