(* ===== verification/Symbols.thy ===== *)
theory Symbols
  imports Reconcile_Match Adapters
begin

text \<open>
  From a server's \<open>documentSymbol\<close> answer to the flat list the indexer stores
  (\<open>src/indexer/symbol.rs\<close>), and paths and file URIs (\<open>src/indexer/discovery.rs\<close>).
\<close>

section \<open>LSP symbols\<close>

record LspPosition =
  lp_line :: u32
  lp_character :: u32

record LspRange =
  lr_start :: LspPosition
  lr_end :: LspPosition

datatype DocumentSymbol =
  DocumentSymbol (ds_name: string) (ds_detail: "string option") (ds_kind: u32)
    (ds_tags: "u32 list option") (ds_range: LspRange) (ds_selection_range: LspRange)
    (ds_children: "DocumentSymbol list option")

record FlatSymbol =
  fl_fqn :: string
  fl_name :: string
  fl_kind :: u32
  fl_range :: Range
  fl_sel :: Range
  fl_detail :: "string option"
  fl_parent :: "nat option"

definition to_graph :: "LspRange \<Rightarrow> Range" where
  "to_graph r = \<lparr>start_line = i64_of_u32 (lp_line (lr_start r)),
     start_col = i64_of_u32 (lp_character (lr_start r)),
     end_line = i64_of_u32 (lp_line (lr_end r)),
     end_col = i64_of_u32 (lp_character (lr_end r))\<rparr>"

text \<open>\<open>rsplit('.').next()\<close> is the piece after the last separator.\<close>

definition last_segment :: "string \<Rightarrow> string" where
  "last_segment s = last (split_on (CHR ''.'') s)"

definition module_root :: "string \<Rightarrow> FlatSymbol" where
  "module_root module_path = \<lparr>fl_fqn = module_path, fl_name = last_segment module_path,
     fl_kind = of_nat (kind_number SkModule),
     fl_range = \<lparr>start_line = 0, start_col = 0, end_line = i64_max, end_col = i64_max\<rparr>,
     fl_sel = \<lparr>start_line = 0, start_col = 0, end_line = 0, end_col = 0\<rparr>,
     fl_detail = None, fl_parent = None\<rparr>"

section \<open>Flattening\<close>

definition flat_of :: "DocumentSymbol \<Rightarrow> string \<Rightarrow> nat option \<Rightarrow> FlatSymbol" where
  "flat_of s fqn parent = \<lparr>fl_fqn = fqn, fl_name = ds_name s, fl_kind = ds_kind s,
     fl_range = to_graph (ds_range s), fl_sel = to_graph (ds_selection_range s),
     fl_detail = ds_detail s, fl_parent = parent\<rparr>"

definition child_fqn :: "string \<Rightarrow> DocumentSymbol \<Rightarrow> string" where
  "child_fqn prefix s = prefix @ ''.'' @ ds_name s"

text \<open>\<open>flatten_one\<close> and its loop over the children; \<open>out\<close> is the vector built so far.\<close>

fun flatten_one :: "DocumentSymbol \<Rightarrow> string \<Rightarrow> nat option \<Rightarrow> FlatSymbol list \<Rightarrow> FlatSymbol list"
and flatten_all :: "DocumentSymbol list \<Rightarrow> string \<Rightarrow> nat option \<Rightarrow> FlatSymbol list \<Rightarrow> FlatSymbol list" where
  "flatten_one (DocumentSymbol n de k t r sr ch) prefix parent out =
     (let s = DocumentSymbol n de k t r sr ch; fqn = child_fqn prefix s; idx = length out;
          out' = out @ [flat_of s fqn parent]
      in (case ch of None \<Rightarrow> out' | Some cs \<Rightarrow> flatten_all cs fqn (Some idx) out'))"
| "flatten_all [] prefix parent out = out"
| "flatten_all (s # ss) prefix parent out =
     flatten_all ss prefix parent (flatten_one s prefix parent out)"

definition flatten_document_symbols :: "DocumentSymbol list \<Rightarrow> string \<Rightarrow> FlatSymbol list" where
  "flatten_document_symbols symbols module_path = flatten_all symbols module_path None []"

definition fingerprint_input :: "FlatSymbol \<Rightarrow> HashItem list" where
  "fingerprint_input s = [HStr (fl_name s), HU32 (fl_kind s), HOpt (fl_detail s),
     HSpan (span (fl_range s)), HSpan (span (fl_sel s))]"

definition signature_fingerprint :: "Hasher \<Rightarrow> FlatSymbol \<Rightarrow> string" where
  "signature_fingerprint H s = hex16 (H (fingerprint_input s))"

section \<open>Paths, URIs and module paths\<close>

definition path_to_uri :: "string \<Rightarrow> string" where
  "path_to_uri s = (if starts_with ''/'' s then ''file://'' @ s else ''file:///'' @ s)"

definition uri_to_path :: "string \<Rightarrow> string" where
  "uri_to_path u = (case strip_prefix ''file://'' u of Some p \<Rightarrow> p | None \<Rightarrow> u)"

definition module_path_from_uri :: "string \<Rightarrow> string \<Rightarrow> string" where
  "module_path_from_uri u root_uri =
     (let rel = (case strip_prefix root_uri u of Some r \<Rightarrow> r | None \<Rightarrow> u);
          stem = (case rsplit_once (CHR ''.'') rel of Some (base, _) \<Rightarrow> base | None \<Rightarrow> rel);
          stem' = (case strip_prefix ''/'' stem of Some r \<Rightarrow> r | None \<Rightarrow> stem)
      in map (\<lambda>c. if c = CHR ''/'' \<or> c = CHR 0x5C then CHR ''.'' else c) stem')"

section \<open>The shape of a flattened list\<close>

text \<open>
  Each element is a top-level symbol of the module or a child of an earlier element, and is
  named after its container.
\<close>

definition flat_ok :: "string \<Rightarrow> FlatSymbol list \<Rightarrow> bool" where
  "flat_ok m out \<longleftrightarrow> (\<forall>i < length out.
     (case fl_parent (out ! i) of
        None \<Rightarrow> fl_fqn (out ! i) = m @ ''.'' @ fl_name (out ! i)
      | Some p \<Rightarrow> p < i \<and> fl_fqn (out ! i) = fl_fqn (out ! p) @ ''.'' @ fl_name (out ! i)))"

text \<open>The prefix a call passes down belongs to the parent it passes down.\<close>

definition context_ok :: "string \<Rightarrow> string \<Rightarrow> nat option \<Rightarrow> FlatSymbol list \<Rightarrow> bool" where
  "context_ok m prefix parent out \<longleftrightarrow>
     (case parent of None \<Rightarrow> prefix = m | Some p \<Rightarrow> p < length out \<and> prefix = fl_fqn (out ! p))"

lemma flat_ok_snoc:
  assumes "flat_ok m out" and "context_ok m prefix parent out"
  shows "flat_ok m (out @ [flat_of s (child_fqn prefix s) parent])"
  using assms
  by (auto simp: flat_ok_def context_ok_def flat_of_def child_fqn_def nth_append less_Suc_eq
      split: option.splits)

lemma context_ok_append: "context_ok m prefix parent out \<Longrightarrow> context_ok m prefix parent (out @ xs)"
  by (auto simp: context_ok_def nth_append split: option.splits)

fun symbol_count :: "DocumentSymbol \<Rightarrow> nat" and symbols_count :: "DocumentSymbol list \<Rightarrow> nat" where
  "symbol_count (DocumentSymbol n de k t r sr ch) =
     Suc (case ch of None \<Rightarrow> 0 | Some cs \<Rightarrow> symbols_count cs)"
| "symbols_count [] = 0"
| "symbols_count (s # ss) = symbol_count s + symbols_count ss"

lemma flatten_ok:
  "flat_ok m out \<Longrightarrow> context_ok m prefix parent out \<Longrightarrow>
     flat_ok m (flatten_one s prefix parent out) \<and>
     (\<exists>xs. flatten_one s prefix parent out = out @ xs \<and> length xs = symbol_count s)"
  "flat_ok m out \<Longrightarrow> context_ok m prefix parent out \<Longrightarrow>
     flat_ok m (flatten_all ss prefix parent out) \<and>
     (\<exists>xs. flatten_all ss prefix parent out = out @ xs \<and> length xs = symbols_count ss)"
proof (induction s prefix parent out and ss prefix parent out rule: flatten_one_flatten_all.induct)
  case (1 n de k t r sr ch prefix parent out)
  let ?s = "DocumentSymbol n de k t r sr ch"
  let ?out = "out @ [flat_of ?s (child_fqn prefix ?s) parent]"
  have ok: "flat_ok m ?out" using "1.prems" by (rule flat_ok_snoc)
  show ?case
  proof (cases ch)
    case None
    with ok show ?thesis by (simp add: Let_def)
  next
    case (Some cs)
    have "context_ok m (child_fqn prefix ?s) (Some (length out)) ?out"
      by (simp add: context_ok_def flat_of_def)
    then have "flat_ok m (flatten_all cs (child_fqn prefix ?s) (Some (length out)) ?out) \<and>
       (\<exists>xs. flatten_all cs (child_fqn prefix ?s) (Some (length out)) ?out = ?out @ xs \<and> length xs = symbols_count cs)"
      using "1.IH" [OF refl refl refl refl Some ok] by simp
    then show ?thesis using Some by (auto simp: Let_def)
  qed
next
  case (2 prefix parent out)
  then show ?case by simp
next
  case (3 s ss prefix parent out)
  from "3.IH"(1) [OF "3.prems"] obtain xs where
    xs: "flat_ok m (flatten_one s prefix parent out)" "flatten_one s prefix parent out = out @ xs"
      "length xs = symbol_count s" by blast
  have "context_ok m prefix parent (flatten_one s prefix parent out)"
    unfolding xs(2) using "3.prems"(2) by (rule context_ok_append)
  from "3.IH"(2) [OF xs(1) this] show ?case using xs by auto
qed

text \<open>flattening loses no symbol and keeps the hierarchy. The flat list has one entry per
  symbol of the tree; a top-level entry is named \<open><module>.<name>\<close>, any other entry names a
  parent that precedes it and is called \<open><parent>.<name>\<close>. So ids can be threaded from parents
  to children in one pass.\<close>

theorem flatten_document_symbols_ok:
  "length (flatten_document_symbols symbols m) = symbols_count symbols \<and>
   (\<forall>i < length (flatten_document_symbols symbols m).
      case fl_parent (flatten_document_symbols symbols m ! i) of
        None \<Rightarrow> fl_fqn (flatten_document_symbols symbols m ! i) =
          m @ ''.'' @ fl_name (flatten_document_symbols symbols m ! i)
      | Some p \<Rightarrow> p < i \<and> fl_fqn (flatten_document_symbols symbols m ! i) =
          fl_fqn (flatten_document_symbols symbols m ! p) @ ''.'' @
          fl_name (flatten_document_symbols symbols m ! i))"
proof -
  have "flat_ok m (flatten_all symbols m None [])"
    and "length (flatten_all symbols m None []) = symbols_count symbols"
    using flatten_ok(2) [of m "[]" m None symbols] by (auto simp: flat_ok_def context_ok_def)
  then show ?thesis unfolding flatten_document_symbols_def flat_ok_def by blast
qed

definition line_lsp :: "nat \<Rightarrow> LspRange" where
  "line_lsp l = \<lparr>lr_start = \<lparr>lp_line = of_nat l, lp_character = 0\<rparr>,
     lr_end = \<lparr>lp_line = of_nat l, lp_character = 10\<rparr>\<rparr>"

definition class_tree :: "DocumentSymbol list" where
  "class_tree = [DocumentSymbol ''Repo'' None 5 None (line_lsp 0) (line_lsp 0)
     (Some [DocumentSymbol ''load'' None 12 None (line_lsp 1) (line_lsp 1) None])]"

theorem flatten_document_symbols_ok_witness:
  "fl_fqn (flatten_document_symbols class_tree ''app'' ! 1) = ''app.Repo.load''"
proof -
  have n: "symbols_count class_tree = 2" by (simp add: class_tree_def)
  have p: "fl_parent (flatten_document_symbols class_tree ''app'' ! 1) = Some 0"
    "fl_parent (flatten_document_symbols class_tree ''app'' ! 0) = None"
    "fl_name (flatten_document_symbols class_tree ''app'' ! 1) = ''load''"
    "fl_name (flatten_document_symbols class_tree ''app'' ! 0) = ''Repo''"
    by code_simp+
  have len: "length (flatten_document_symbols class_tree ''app'') = 2"
    and all: "\<forall>i < length (flatten_document_symbols class_tree ''app'').
      case fl_parent (flatten_document_symbols class_tree ''app'' ! i) of
        None \<Rightarrow> fl_fqn (flatten_document_symbols class_tree ''app'' ! i) =
          ''app'' @ ''.'' @ fl_name (flatten_document_symbols class_tree ''app'' ! i)
      | Some p \<Rightarrow> p < i \<and> fl_fqn (flatten_document_symbols class_tree ''app'' ! i) =
          fl_fqn (flatten_document_symbols class_tree ''app'' ! p) @ ''.'' @
          fl_name (flatten_document_symbols class_tree ''app'' ! i)"
    using flatten_document_symbols_ok [of class_tree "''app''"] n by simp_all
  show ?thesis using all [rule_format, of 0] all [rule_format, of 1] p by (simp add: len)
qed

section \<open>The module row covers every position\<close>

lemma module_root_contains:
  "range_contains (fl_range (module_root m)) (i64_of_u32 l) (i64_of_u32 c)"
proof -
  have "i64_of_u32 l < i64_max" using i64_of_u32_le_max [of l] by (simp add: u32_max_def i64_max_def)
  then show ?thesis using i64_of_u32_nonneg [of l] i64_of_u32_nonneg [of c]
    by (auto simp: module_root_def range_contains_def order.order_iff_strict)
qed

text \<open>Every position of an indexed file has a container. Once a valid row with the range of
  the module root is in the tables, positional lookup at any LSP position of the file answers
  some valid row of that file, so no occurrence outside the declarations is dropped.\<close>

theorem module_root_covers:
  assumes "row_order_ok ro" and "n \<in> set (db_nodes d)" and "n_uri n = u" and "n_valid n"
    and "n_range n = fl_range (module_root m)"
  shows "\<exists>k. find_node_by_position ro d u (i64_of_u32 line) (i64_of_u32 character) = Some k \<and>
    n_uri k = u \<and> n_valid k \<and> k \<in> set (db_nodes d)"
proof -
  define cs where "cs = ord_nodes ro (filter (\<lambda>n. n_uri n = u \<and> n_valid n \<and>
    range_contains (n_range n) (i64_of_u32 line) (i64_of_u32 character)) (db_nodes d))"
  have in_cs: "k \<in> set cs \<longleftrightarrow> k \<in> set (db_nodes d) \<and> n_uri k = u \<and> n_valid k \<and>
      range_contains (n_range k) (i64_of_u32 line) (i64_of_u32 character)" for k
    unfolding cs_def row_order_set(1) [OF assms(1)] by auto
  have "n \<in> set cs" using assms module_root_contains by (simp add: in_cs)
  then have "set (sort_key span_key cs) \<noteq> {}" by auto
  then obtain k ks where k: "sort_key span_key cs = k # ks" by (cases "sort_key span_key cs") auto
  then have "k \<in> set (sort_key span_key cs)" by simp
  then have "k \<in> set cs" by simp
  moreover have "find_node_by_position ro d u (i64_of_u32 line) (i64_of_u32 character) = Some k"
    unfolding find_node_by_position_def cs_def [symmetric] k by simp
  ultimately show ?thesis using in_cs by blast
qed

definition module_db :: Db where
  "module_db = empty_db\<lparr>db_nodes := [(row_at (Some 1) ''app'' ''u'' ''app'' 0 ''h'')
     \<lparr>n_range := fl_range (module_root ''app'')\<rparr>], db_node_seq := 1\<rparr>"

theorem module_root_covers_witness:
  "\<exists>k. find_node_by_position table_order module_db ''u'' (i64_of_u32 70) (i64_of_u32 3) = Some k \<and>
    n_uri k = ''u'' \<and> n_valid k \<and> k \<in> set (db_nodes module_db)"
  by (rule module_root_covers [OF row_order_ok_table_order, of "hd (db_nodes module_db)" _ _ "''app''"])
    (simp_all add: module_db_def row_at_def)

section \<open>Fingerprints and line shifts\<close>

definition shift_range :: "int \<Rightarrow> Range \<Rightarrow> Range" where
  "shift_range k r = r\<lparr>start_line := start_line r + k, end_line := end_line r + k\<rparr>"

definition shift_symbol :: "int \<Rightarrow> FlatSymbol \<Rightarrow> FlatSymbol" where
  "shift_symbol k s = s\<lparr>fl_range := shift_range k (fl_range s), fl_sel := shift_range k (fl_sel s)\<rparr>"

text \<open>The fingerprint is one of absolute positions. Moving a declaration by \<open>k\<close> lines changes
  the data that is hashed whenever \<open>k\<close> is not zero, so two fingerprints of the declaration
  before and after agree only if the hash function maps the two different inputs to the same
  value.\<close>

theorem signature_fingerprint_not_shift_invariant:
  "(fingerprint_input (shift_symbol k s) = fingerprint_input s \<longleftrightarrow> k = 0) \<and>
   (signature_fingerprint H (shift_symbol k s) = signature_fingerprint H s \<longleftrightarrow>
      H (fingerprint_input (shift_symbol k s)) = H (fingerprint_input s))"
  by (auto simp: fingerprint_input_def shift_symbol_def shift_range_def span_def
      signature_fingerprint_def hex16_inj)

end
