(* ===== verification/Lsp_Wire.thy ===== *)
theory Lsp_Wire
  imports Semnav_Prelude
begin

text \<open>
  The wire of a language server: JSON values, the JSON-RPC envelopes of
  \<open>src/lsp/proto.rs\<close> and the Content-Length framing of \<open>src/lsp/transport.rs\<close>, up to the
  reader task of \<open>src/lsp/client.rs\<close> that turns a byte stream into inbound events.
  Printing and parsing JSON text is the business of \<open>serde_json\<close> and a parameter here.
\<close>

section \<open>JSON values\<close>

text \<open>
  \<open>serde_json::Value\<close>. An object is the association list of its sorted map; a number that is
  not an integer is kept as its text, since the source only ever reads integers.
\<close>

datatype Json =
    JNull
  | JBool bool
  | JInt int
  | JReal string
  | JStr string
  | JArr "Json list"
  | JObj "(string \<times> Json) list"

text \<open>\<open>value.get(key)\<close>.\<close>

fun json_get :: "string \<Rightarrow> Json \<Rightarrow> Json option" where
  "json_get k (JObj kvs) = map_of kvs k"
| "json_get k _ = None"

fun as_str :: "Json \<Rightarrow> string option" where
  "as_str (JStr s) = Some s"
| "as_str _ = None"

fun as_array :: "Json \<Rightarrow> Json list option" where
  "as_array (JArr xs) = Some xs"
| "as_array _ = None"

text \<open>Integer fields of a given width.\<close>

fun as_i64 :: "Json \<Rightarrow> int option" where
  "as_i64 (JInt i) = (if - 9223372036854775808 \<le> i \<and> i \<le> i64_max then Some i else None)"
| "as_i64 _ = None"

fun as_u32 :: "Json \<Rightarrow> u32 option" where
  "as_u32 (JInt i) = (if 0 \<le> i \<and> i \<le> u32_max then Some (word_of_int i) else None)"
| "as_u32 _ = None"

text \<open>An \<open>Option<T>\<close> field with a default: absent and \<open>null\<close> are both \<open>None\<close>.\<close>

definition opt_field :: "(Json \<Rightarrow> 'a option) \<Rightarrow> string \<Rightarrow> Json \<Rightarrow> 'a option option" where
  "opt_field dec k j = (case json_get k j of
      None \<Rightarrow> Some None
    | Some JNull \<Rightarrow> Some None
    | Some v \<Rightarrow> map_option Some (dec v))"

definition req_field :: "(Json \<Rightarrow> 'a option) \<Rightarrow> string \<Rightarrow> Json \<Rightarrow> 'a option" where
  "req_field dec k j = Option.bind (json_get k j) dec"

text \<open>All elements decode, or the whole array does not.\<close>

fun decode_all :: "('j \<Rightarrow> 'a option) \<Rightarrow> 'j list \<Rightarrow> 'a list option" where
  "decode_all dec [] = Some []"
| "decode_all dec (x # xs) =
     (case dec x of None \<Rightarrow> None
      | Some y \<Rightarrow> map_option (Cons y) (decode_all dec xs))"

lemma decode_all_Some:
  "decode_all dec xs = Some ys \<longleftrightarrow> map dec xs = map Some ys"
  by (induction xs arbitrary: ys) (auto split: option.splits)

lemma decode_all_map [simp]: "(\<And>y. y \<in> set ys \<Longrightarrow> dec (enc y) = Some y) \<Longrightarrow> decode_all dec (map enc ys) = Some ys"
  by (simp add: decode_all_Some)

section \<open>Envelopes\<close>

record RpcError =
  er_code :: int
  er_message :: string
  er_data :: "Json option"

datatype Message =
    Request int string "Json option"
  | Response int Json
  | ErrorReply int RpcError
  | Notification string "Json option"

text \<open>\<open>skip_serializing_if = "Option::is_none"\<close>.\<close>

definition opt_entry :: "string \<Rightarrow> Json option \<Rightarrow> (string \<times> Json) list" where
  "opt_entry k v = (case v of None \<Rightarrow> [] | Some j \<Rightarrow> [(k, j)])"

definition error_value :: "RpcError \<Rightarrow> Json" where
  "error_value e = JObj ([(''code'', JInt (er_code e))] @ opt_entry ''data'' (er_data e) @
     [(''message'', JStr (er_message e))])"

fun message_value :: "Message \<Rightarrow> Json" where
  "message_value (Request i m p) =
     JObj ([(''id'', JInt i), (''jsonrpc'', JStr ''2.0''), (''method'', JStr m)] @ opt_entry ''params'' p)"
| "message_value (Response i r) =
     JObj [(''id'', JInt i), (''jsonrpc'', JStr ''2.0''), (''result'', r)]"
| "message_value (ErrorReply i e) =
     JObj [(''error'', error_value e), (''id'', JInt i), (''jsonrpc'', JStr ''2.0'')]"
| "message_value (Notification m p) =
     JObj ([(''jsonrpc'', JStr ''2.0''), (''method'', JStr m)] @ opt_entry ''params'' p)"

definition error_from_value :: "Json \<Rightarrow> RpcError option" where
  "error_from_value j =
     (case (req_field as_i64 ''code'' j, req_field as_str ''message'' j, opt_field Some ''data'' j) of
        (Some c, Some m, Some d) \<Rightarrow> Some \<lparr>er_code = c, er_message = m, er_data = d\<rparr>
      | _ \<Rightarrow> None)"

text \<open>The four variants are tried in the order of their declaration.\<close>

definition as_request :: "Json \<Rightarrow> Message option" where
  "as_request j =
     (case (req_field as_i64 ''id'' j, req_field as_str ''method'' j, opt_field Some ''params'' j) of
        (Some i, Some m, Some p) \<Rightarrow> Some (Request i m p)
      | _ \<Rightarrow> None)"

definition as_response :: "Json \<Rightarrow> Message option" where
  "as_response j =
     (case (req_field as_i64 ''id'' j, req_field Some ''result'' j) of
        (Some i, Some r) \<Rightarrow> Some (Response i r)
      | _ \<Rightarrow> None)"

definition as_error :: "Json \<Rightarrow> Message option" where
  "as_error j =
     (case (req_field as_i64 ''id'' j, req_field error_from_value ''error'' j) of
        (Some i, Some e) \<Rightarrow> Some (ErrorReply i e)
      | _ \<Rightarrow> None)"

definition as_notification :: "Json \<Rightarrow> Message option" where
  "as_notification j =
     (case (req_field as_str ''method'' j, opt_field Some ''params'' j) of
        (Some m, Some p) \<Rightarrow> Some (Notification m p)
      | _ \<Rightarrow> None)"

definition or_else :: "'a option \<Rightarrow> 'a option \<Rightarrow> 'a option" where
  "or_else a b = (case a of None \<Rightarrow> b | Some x \<Rightarrow> Some x)"

definition message_from_value :: "Json \<Rightarrow> Message option" where
  "message_from_value j =
     or_else (as_request j) (or_else (as_response j) (or_else (as_error j) (as_notification j)))"

text \<open>
  What a message must satisfy to be read back as itself: ids and codes of 64 bits, and no
  explicit \<open>null\<close> where the envelope has an option.
\<close>

definition i64_ok :: "int \<Rightarrow> bool" where
  "i64_ok i \<longleftrightarrow> - 9223372036854775808 \<le> i \<and> i \<le> i64_max"

fun message_ok :: "Message \<Rightarrow> bool" where
  "message_ok (Request i m p) \<longleftrightarrow> i64_ok i \<and> p \<noteq> Some JNull"
| "message_ok (Response i r) \<longleftrightarrow> i64_ok i"
| "message_ok (ErrorReply i e) \<longleftrightarrow> i64_ok i \<and> i64_ok (er_code e) \<and> er_data e \<noteq> Some JNull"
| "message_ok (Notification m p) \<longleftrightarrow> p \<noteq> Some JNull"

lemma opt_field_entry:
  "map_of kvs k = v \<Longrightarrow> v \<noteq> Some JNull \<Longrightarrow> opt_field Some k (JObj kvs) = Some v"
  by (auto simp: opt_field_def split: option.splits Json.splits)

lemma error_from_error_value:
  "i64_ok (er_code e) \<Longrightarrow> er_data e \<noteq> Some JNull \<Longrightarrow> error_from_value (error_value e) = Some e"
  by (cases "er_data e")
    (auto simp: error_from_value_def error_value_def opt_entry_def req_field_def opt_field_entry i64_ok_def)

lemmas envelope_defs = message_from_value_def or_else_def as_request_def as_response_def as_error_def
  as_notification_def req_field_def

lemma message_value_roundtrip: "message_ok m \<Longrightarrow> message_from_value (message_value m) = Some m"
proof (cases m)
  case (Request i me p)
  assume "message_ok m"
  with Request show ?thesis
    by (cases p) (auto simp: envelope_defs opt_entry_def opt_field_entry i64_ok_def)
next
  case (Response i r)
  assume "message_ok m"
  with Response show ?thesis by (auto simp: envelope_defs opt_field_def i64_ok_def)
next
  case (ErrorReply i e)
  assume "message_ok m"
  with ErrorReply show ?thesis
    by (auto simp: envelope_defs opt_field_def i64_ok_def error_from_error_value)
next
  case (Notification me p)
  assume "message_ok m"
  with Notification show ?thesis
    by (cases p) (auto simp: envelope_defs opt_entry_def opt_field_entry)
qed

section \<open>Framing\<close>

definition MAX_FRAME_SIZE :: nat where
  "MAX_FRAME_SIZE = 64 * 1024 * 1024"

text \<open>
  The text side of \<open>serde_json\<close>: what a message is printed as and what a body parses to. A
  printer and a parser fit together when a printed message reads back as its value.
\<close>

record Serde =
  sd_to_vec :: "Message \<Rightarrow> string"
  sd_from_slice :: "string \<Rightarrow> string + Json"

definition serde_ok :: "Serde \<Rightarrow> Message \<Rightarrow> bool" where
  "serde_ok sd m \<longleftrightarrow> sd_from_slice sd (sd_to_vec sd m) = Inr (message_value m)"

definition crlf :: string where
  "crlf = [cr, lf]"

definition frame_header :: "nat \<Rightarrow> string" where
  "frame_header n = ''Content-Length: '' @ show_nat n @ crlf @ crlf"

text \<open>The bytes \<open>write_message\<close> writes.\<close>

definition write_message :: "Serde \<Rightarrow> Message \<Rightarrow> string" where
  "write_message sd m = (let body = sd_to_vec sd m in frame_header (length body) @ body)"

text \<open>
  The rest of a byte stream: the bytes still to come, and whether the stream then breaks with
  an error instead of ending.
\<close>

record ByteStream =
  bs_bytes :: string
  bs_broken :: "string option"

datatype IoError =
    StreamError string
  | MissingContentLength
  | FrameTooLarge nat
  | UnexpectedEof
  | BadJson string

fun io_text :: "IoError \<Rightarrow> string" where
  "io_text (StreamError s) = s"
| "io_text MissingContentLength = ''missing Content-Length header''"
| "io_text (FrameTooLarge n) = ''frame too large: '' @ show_nat n @ '' bytes''"
| "io_text UnexpectedEof = ''early eof''"
| "io_text (BadJson s) = s"

text \<open>\<open>read_until(b'\n')\<close>: up to and including the first line feed, or to the end.\<close>

fun cut_line :: "string \<Rightarrow> string \<times> string" where
  "cut_line [] = ([], [])"
| "cut_line (c # cs) =
     (if c = lf then ([c], cs) else (case cut_line cs of (l, r) \<Rightarrow> (c # l, r)))"

definition has_line :: "string \<Rightarrow> bool" where
  "has_line s \<longleftrightarrow> lf \<in> set s"

definition read_until_lf :: "ByteStream \<Rightarrow> (IoError + string) \<times> ByteStream" where
  "read_until_lf b =
     (case (has_line (bs_bytes b), bs_broken b) of
        (False, Some e) \<Rightarrow> (Inl (StreamError e), b\<lparr>bs_bytes := []\<rparr>)
      | _ \<Rightarrow> (case cut_line (bs_bytes b) of (l, r) \<Rightarrow> (Inr l, b\<lparr>bs_bytes := r\<rparr>)))"

definition read_exact :: "nat \<Rightarrow> ByteStream \<Rightarrow> (IoError + string) \<times> ByteStream" where
  "read_exact n b =
     (if n \<le> length (bs_bytes b) then (Inr (take n (bs_bytes b)), b\<lparr>bs_bytes := drop n (bs_bytes b)\<rparr>)
      else (Inl (case bs_broken b of Some e \<Rightarrow> StreamError e | None \<Rightarrow> UnexpectedEof), b\<lparr>bs_bytes := []\<rparr>))"

definition trim_crlf :: "string \<Rightarrow> string" where
  "trim_crlf line = (if drop (length line - 2) line = crlf then take (length line - 2) line else line)"

text \<open>The length a header line declares: the last well-formed one wins.\<close>

definition header_length :: "string \<Rightarrow> nat option \<Rightarrow> nat option" where
  "header_length trimmed acc =
     (case strip_prefix ''Content-Length:'' trimmed of
        Some rest \<Rightarrow> (case parse_unsigned usize_lim (trim_str rest) of Some n \<Rightarrow> Some n | None \<Rightarrow> acc)
      | None \<Rightarrow> acc)"

lemma cut_line_append: "cut_line s = (l, r) \<Longrightarrow> s = l @ r"
  by (induction s arbitrary: l) (auto split: if_splits prod.splits)

lemma cut_line_shorter: "cut_line s = (l, r) \<Longrightarrow> l \<noteq> [] \<Longrightarrow> length r < length s"
  using cut_line_append by fastforce

text \<open>The header loop: \<open>Inr None\<close> is the end of the stream, \<open>Inr (Some n)\<close> the blank line.\<close>

function read_headers :: "nat option \<Rightarrow> ByteStream \<Rightarrow> (IoError + nat option option) \<times> ByteStream" where
  "read_headers acc b =
     (case read_until_lf b of
        (Inl e, b') \<Rightarrow> (Inl e, b')
      | (Inr line, b') \<Rightarrow>
          if line = [] then (Inr None, b')
          else (let trimmed = trim_crlf line in
                if trimmed = [] then (Inr (Some acc), b')
                else read_headers (header_length trimmed acc) b'))"
  by pat_completeness auto

lemma read_until_lf_shorter:
  "read_until_lf b = (Inr l, b') \<Longrightarrow> l \<noteq> [] \<Longrightarrow> length (bs_bytes b') < length (bs_bytes b)"
  by (auto simp: read_until_lf_def split: bool.splits option.splits prod.splits dest: cut_line_shorter)

termination read_headers
  by (relation "measure (\<lambda>(acc, b). length (bs_bytes b))")
    (auto dest: read_until_lf_shorter [OF sym])

declare read_headers.simps [simp del]

definition read_message :: "Serde \<Rightarrow> ByteStream \<Rightarrow> (IoError + Json option) \<times> ByteStream" where
  "read_message sd b =
     (case read_headers None b of
        (Inl e, b') \<Rightarrow> (Inl e, b')
      | (Inr None, b') \<Rightarrow> (Inr None, b')
      | (Inr (Some None), b') \<Rightarrow> (Inl MissingContentLength, b')
      | (Inr (Some (Some len)), b') \<Rightarrow>
          if MAX_FRAME_SIZE < len then (Inl (FrameTooLarge len), b')
          else (case read_exact len b' of
              (Inl e, b2) \<Rightarrow> (Inl e, b2)
            | (Inr buf, b2) \<Rightarrow>
                (case sd_from_slice sd buf of
                   Inl t \<Rightarrow> (Inl (BadJson t), b2)
                 | Inr v \<Rightarrow> (Inr (Some v), b2))))"

section \<open>The reader task\<close>

datatype Inbound = InMessage Message | InEof | InFailed string

lemma read_headers_shorter:
  "read_headers acc b = (Inr (Some n), b') \<Longrightarrow> length (bs_bytes b') < length (bs_bytes b)"
proof (induction acc b rule: read_headers.induct)
  case (1 acc b)
  obtain r b1 where r: "read_until_lf b = (r, b1)" by force
  show ?case
  proof (cases r)
    case (Inl e)
    with "1.prems" r show ?thesis by (subst (asm) read_headers.simps) simp
  next
    case (Inr line)
    show ?thesis
    proof (cases "line = [] \<or> trim_crlf line = []")
      case True
      with "1.prems" r Inr have "line \<noteq> []" and "b' = b1"
        by (subst (asm) read_headers.simps, auto simp: Let_def split: if_splits)+
      with r Inr read_until_lf_shorter show ?thesis by blast
    next
      case False
      with "1.prems" r Inr have "read_headers (header_length (trim_crlf line) acc) b1 = (Inr (Some n), b')"
        by (subst (asm) read_headers.simps) (auto simp: Let_def)
      then have "length (bs_bytes b') < length (bs_bytes b1)"
        using "1.IH" [OF r [symmetric] Inr _ refl] False by simp
      moreover have "length (bs_bytes b1) < length (bs_bytes b)"
        using r Inr False read_until_lf_shorter by blast
      ultimately show ?thesis by simp
    qed
  qed
qed

lemma read_message_shorter:
  assumes "read_message sd b = (Inr (Some v), b')"
  shows "length (bs_bytes b') < length (bs_bytes b)"
proof -
  from assms obtain n b1 where h: "read_headers None b = (Inr (Some n), b1)"
    and le: "length (bs_bytes b') \<le> length (bs_bytes b1)"
    by (auto simp: read_message_def read_exact_def split: prod.splits sum.splits option.splits if_splits)
  from read_headers_shorter [OF h] le show ?thesis by simp
qed

function reader_loop :: "Serde \<Rightarrow> ByteStream \<Rightarrow> Inbound list" where
  "reader_loop sd b =
     (case read_message sd b of
        (Inr (Some value), b') \<Rightarrow>
          (case message_from_value value of
             Some msg \<Rightarrow> InMessage msg # reader_loop sd b'
           | None \<Rightarrow> [InFailed ''unparseable message''])
      | (Inr None, b') \<Rightarrow> [InEof]
      | (Inl e, b') \<Rightarrow> [InFailed (io_text e)])"
  by pat_completeness auto

termination
  by (relation "measure (\<lambda>(sd, b). length (bs_bytes b))")
    (auto dest: read_message_shorter [OF sym])

declare reader_loop.simps [simp del]

section \<open>Frames read back\<close>

lemma cut_line_at: "lf \<notin> set p \<Longrightarrow> cut_line (p @ lf # r) = (p @ [lf], r)"
  by (induction p) auto

lemma cut_line_none: "lf \<notin> set p \<Longrightarrow> cut_line p = (p, [])"
  by (induction p) auto

lemma read_until_lf_at:
  "bs_bytes b = p @ lf # r \<Longrightarrow> lf \<notin> set p \<Longrightarrow> read_until_lf b = (Inr (p @ [lf]), b\<lparr>bs_bytes := r\<rparr>)"
  by (simp add: read_until_lf_def has_line_def cut_line_at)

lemma read_until_lf_end:
  "lf \<notin> set (bs_bytes b) \<Longrightarrow> bs_broken b = None \<Longrightarrow>
     read_until_lf b = (Inr (bs_bytes b), b\<lparr>bs_bytes := []\<rparr>)"
  by (simp add: read_until_lf_def has_line_def cut_line_none)

lemma trim_crlf_line [simp]: "trim_crlf (p @ [cr, lf]) = p"
  by (simp add: trim_crlf_def crlf_def)

lemma dropWhile_ws_digits:
  assumes "\<forall>c \<in> set s. \<not> is_ws c"
  shows "dropWhile is_ws s = s"
  using assms by (cases s) auto

lemma trim_number: "trim_str (CHR '' '' # show_nat n) = show_nat n"
proof -
  have nw: "\<forall>c \<in> set (show_nat n). \<not> is_ws c"
    using show_nat_digits digit_char_not_special(2) by blast
  then have "\<forall>c \<in> set (rev (show_nat n)). \<not> is_ws c" by simp
  then show ?thesis using nw
    by (simp add: trim_str_def trim_start_def trim_end_def dropWhile_ws_digits is_ws_def Let_def)
qed

lemma show_nat_no_lf: "lf \<notin> set (show_nat n)"
  using show_nat_digits digit_char_not_special(3) by metis

lemma header_length_declared:
  "n < usize_lim \<Longrightarrow> header_length (''Content-Length: '' @ show_nat n) acc = Some n"
  by (simp add: header_length_def trim_number parse_show_nat)

lemma lf_char: "lf = CHR 0x0A"
  by code_simp

abbreviation length_line :: "nat \<Rightarrow> string" where
  "length_line n \<equiv> ''Content-Length: '' @ show_nat n"

lemma length_line_no_lf: "lf \<notin> set (length_line n)"
proof -
  have "lf \<notin> set ''Content-Length: ''" by (simp add: lf_char)
  with show_nat_no_lf [of n] show ?thesis by (simp only: set_append Un_iff simp_thms not_False_eq_True)
qed

lemma read_headers_frame:
  assumes "n < usize_lim"
  shows "read_headers None \<lparr>bs_bytes = frame_header n @ rest, bs_broken = k\<rparr> =
    (Inr (Some (Some n)), \<lparr>bs_bytes = rest, bs_broken = k\<rparr>)"
proof -
  have first: "read_until_lf \<lparr>bs_bytes = frame_header n @ rest, bs_broken = k\<rparr> =
      (Inr (length_line n @ [cr, lf]), \<lparr>bs_bytes = cr # lf # rest, bs_broken = k\<rparr>)"
    by (subst read_until_lf_at [of _ "length_line n @ [cr]" "cr # lf # rest"])
      (use length_line_no_lf [of n] in \<open>auto simp: frame_header_def crlf_def\<close>)
  have second: "read_until_lf \<lparr>bs_bytes = cr # lf # rest, bs_broken = k\<rparr> =
      (Inr [cr, lf], \<lparr>bs_bytes = rest, bs_broken = k\<rparr>)"
    by (subst read_until_lf_at [of _ "[cr]" rest]) auto
  have "read_headers acc \<lparr>bs_bytes = cr # lf # rest, bs_broken = k\<rparr> =
      (Inr (Some acc), \<lparr>bs_bytes = rest, bs_broken = k\<rparr>)" for acc
    by (subst read_headers.simps) (simp add: second trim_crlf_def crlf_def)
  moreover have "trim_crlf (length_line n @ [cr, lf]) = length_line n"
    by (rule trim_crlf_line)
  moreover have "length_line n \<noteq> []" by simp
  ultimately show ?thesis
    by (subst read_headers.simps)
      (simp add: first header_length_declared [OF assms] Let_def del: append.simps append_assoc)
qed

lemma frame_limit: "n \<le> MAX_FRAME_SIZE \<Longrightarrow> n < usize_lim"
  by (simp add: MAX_FRAME_SIZE_def usize_lim_def)

lemma read_written:
  assumes "serde_ok sd m" and "length (sd_to_vec sd m) \<le> MAX_FRAME_SIZE"
  shows "read_message sd \<lparr>bs_bytes = write_message sd m @ rest, bs_broken = k\<rparr> =
    (Inr (Some (message_value m)), \<lparr>bs_bytes = rest, bs_broken = k\<rparr>)"
  using assms read_headers_frame [OF frame_limit [OF assms(2)], of "sd_to_vec sd m @ rest" k]
  by (simp add: read_message_def write_message_def Let_def read_exact_def serde_ok_def)

lemma reader_loop_messages:
  assumes "\<forall>m \<in> set ms. message_ok m \<and> serde_ok sd m \<and> length (sd_to_vec sd m) \<le> MAX_FRAME_SIZE"
  shows "reader_loop sd \<lparr>bs_bytes = concat (map (write_message sd) ms) @ rest, bs_broken = k\<rparr> =
    map InMessage ms @ reader_loop sd \<lparr>bs_bytes = rest, bs_broken = k\<rparr>"
  using assms
proof (induction ms)
  case Nil
  then show ?case by simp
next
  case (Cons m ms)
  then show ?case
    by (subst reader_loop.simps) (simp add: read_written message_value_roundtrip)
qed

lemma read_message_eof: "read_message sd \<lparr>bs_bytes = [], bs_broken = None\<rparr> =
    (Inr None, \<lparr>bs_bytes = [], bs_broken = None\<rparr>)"
  by (simp add: read_message_def, subst read_headers.simps) (simp add: read_until_lf_end)

text \<open>framing. A sequence of messages written one after the other to a stream is read back as
  exactly these messages in this order, followed by the end of the stream, as long as each
  body stays below the frame limit and the JSON text of each message parses to its value.\<close>

theorem framing_roundtrip:
  assumes "\<forall>m \<in> set ms. message_ok m \<and> serde_ok sd m \<and> length (sd_to_vec sd m) \<le> MAX_FRAME_SIZE"
  shows "reader_loop sd \<lparr>bs_bytes = concat (map (write_message sd) ms), bs_broken = None\<rparr> =
    map InMessage ms @ [InEof]"
proof -
  have "reader_loop sd \<lparr>bs_bytes = [], bs_broken = None\<rparr> = [InEof]"
    by (subst reader_loop.simps) (simp add: read_message_eof)
  with reader_loop_messages [OF assms, of "[]" None] show ?thesis by simp
qed

definition sample_serde :: "Message \<Rightarrow> Serde" where
  "sample_serde m = \<lparr>sd_to_vec = (\<lambda>_. ''{body}''), sd_from_slice = (\<lambda>_. Inr (message_value m))\<rparr>"

definition ping :: Message where
  "ping = Request 7 ''ping'' (Some (JObj [(''q'', JInt 1)]))"

lemma sample_ping:
  "message_ok ping \<and> serde_ok (sample_serde ping) ping \<and>
   length (sd_to_vec (sample_serde ping) ping) \<le> MAX_FRAME_SIZE"
  by (simp add: ping_def sample_serde_def serde_ok_def i64_ok_def i64_max_def MAX_FRAME_SIZE_def)

theorem framing_roundtrip_witness:
  "reader_loop (sample_serde ping)
     \<lparr>bs_bytes = concat (map (write_message (sample_serde ping)) [ping, ping]), bs_broken = None\<rparr> =
   [InMessage ping, InMessage ping, InEof]"
  using framing_roundtrip [of "[ping, ping]" "sample_serde ping"] sample_ping by simp

section \<open>Truncated frames\<close>

lemma trim_crlf_no_lf: "lf \<notin> set p \<Longrightarrow> trim_crlf p = p"
proof -
  assume p: "lf \<notin> set p"
  have "drop (length p - 2) p \<noteq> crlf"
  proof
    assume "drop (length p - 2) p = crlf"
    then have "lf \<in> set (drop (length p - 2) p)" by (simp add: crlf_def)
    with p show False by (meson in_set_dropD)
  qed
  then show ?thesis by (simp add: trim_crlf_def)
qed

lemma read_headers_cut_line:
  assumes "lf \<notin> set p"
  shows "read_headers acc \<lparr>bs_bytes = p, bs_broken = None\<rparr> = (Inr None, \<lparr>bs_bytes = [], bs_broken = None\<rparr>)"
proof -
  have nil: "read_headers acc \<lparr>bs_bytes = [], bs_broken = None\<rparr> =
      (Inr None, \<lparr>bs_bytes = [], bs_broken = None\<rparr>)" for acc
    by (subst read_headers.simps) (simp add: read_until_lf_end)
  show ?thesis
  proof (cases "p = []")
    case True
    with nil show ?thesis by simp
  next
    case False
    have "read_until_lf \<lparr>bs_bytes = p, bs_broken = None\<rparr> = (Inr p, \<lparr>bs_bytes = [], bs_broken = None\<rparr>)"
      using assms by (simp add: read_until_lf_end)
    with False assms nil show ?thesis
      by (subst read_headers.simps) (simp add: trim_crlf_no_lf Let_def)
  qed
qed

lemma cut_header_cases:
  assumes "lf \<notin> set l" and "k < length (l @ [cr, lf, cr, lf])"
  obtains (line) p where "take k (l @ [cr, lf, cr, lf]) = p" "lf \<notin> set p"
    | (rest) r where "take k (l @ [cr, lf, cr, lf]) = (l @ [cr]) @ lf # r" "lf \<notin> set r"
proof -
  have ne: "lf \<noteq> cr" by code_simp
  have "k \<le> length l \<or> k = length l + 1 \<or> k = length l + 2 \<or> k = length l + 3"
    using assms(2) by auto
  then show thesis
  proof (elim disjE)
    assume "k \<le> length l"
    then have "take k (l @ [cr, lf, cr, lf]) = take k l" by simp
    then show thesis using line [of "take k l"] assms(1) in_set_takeD by fast
  next
    assume "k = length l + 1"
    then show thesis using line [of "l @ [cr]"] assms(1) ne by simp
  next
    assume "k = length l + 2"
    then show thesis using rest [of "[]"] by simp
  next
    assume "k = length l + 3"
    then show thesis using rest [of "[cr]"] ne by simp
  qed
qed

lemma read_headers_cut_header:
  assumes "k < length (frame_header n)"
  shows "read_headers None \<lparr>bs_bytes = take k (frame_header n), bs_broken = None\<rparr> =
    (Inr None, \<lparr>bs_bytes = [], bs_broken = None\<rparr>)"
proof -
  define l where "l = length_line n"
  have l: "lf \<notin> set l" "l \<noteq> []" unfolding l_def by (rule length_line_no_lf, simp)
  have hdr: "frame_header n = l @ [cr, lf, cr, lf]" by (simp add: frame_header_def crlf_def l_def)
  have ne: "lf \<noteq> cr" by code_simp
  from assms have "k < length (l @ [cr, lf, cr, lf])" by (simp only: hdr)
  with l(1) show ?thesis unfolding hdr
  proof (cases rule: cut_header_cases)
    case (line p)
    show "read_headers None \<lparr>bs_bytes = take k (l @ [cr, lf, cr, lf]), bs_broken = None\<rparr> =
        (Inr None, \<lparr>bs_bytes = [], bs_broken = None\<rparr>)"
      unfolding line(1) by (rule read_headers_cut_line [OF line(2)])
  next
    case (rest r)
    have first: "read_until_lf \<lparr>bs_bytes = (l @ [cr]) @ lf # r, bs_broken = None\<rparr> =
        (Inr (l @ [cr, lf]), \<lparr>bs_bytes = r, bs_broken = None\<rparr>)"
      by (subst read_until_lf_at [of _ "l @ [cr]" r]) (use l(1) ne in auto)
    show "read_headers None \<lparr>bs_bytes = take k (l @ [cr, lf, cr, lf]), bs_broken = None\<rparr> =
        (Inr None, \<lparr>bs_bytes = [], bs_broken = None\<rparr>)"
      unfolding rest(1)
      by (subst read_headers.simps)
        (simp only: first prod.case sum.case, simp add: l(2) read_headers_cut_line [OF rest(2)] Let_def)
  qed
qed

text \<open>What a truncated frame reads as. When a stream ends inside a frame, the reader reports an
  error only if the cut is in the body. A cut anywhere in the header, even after some of its
  bytes, reads as the clean end of the stream.\<close>

theorem truncated_frame:
  assumes "length (sd_to_vec sd m) \<le> MAX_FRAME_SIZE" and "k < length (write_message sd m)"
  shows "read_message sd \<lparr>bs_bytes = take k (write_message sd m), bs_broken = None\<rparr> =
    ((if k < length (frame_header (length (sd_to_vec sd m))) then Inr None else Inl UnexpectedEof),
     \<lparr>bs_bytes = [], bs_broken = None\<rparr>)"
proof -
  let ?n = "length (sd_to_vec sd m)"
  let ?h = "frame_header ?n"
  show ?thesis
  proof (cases "k < length ?h")
    case True
    then have "take k (write_message sd m) = take k ?h" by (simp add: write_message_def Let_def)
    with True read_headers_cut_header [OF True] show ?thesis by (simp add: read_message_def)
  next
    case False
    then have cut: "take k (write_message sd m) = ?h @ take (k - length ?h) (sd_to_vec sd m)"
      by (simp add: write_message_def Let_def)
      have short: "k - length ?h < ?n" using assms(2) False by (simp add: write_message_def Let_def)
    have heads: "read_headers None \<lparr>bs_bytes = ?h @ take (k - length ?h) (sd_to_vec sd m), bs_broken = None\<rparr> =
        (Inr (Some (Some ?n)), \<lparr>bs_bytes = take (k - length ?h) (sd_to_vec sd m), bs_broken = None\<rparr>)"
      by (rule read_headers_frame [OF frame_limit [OF assms(1)]])
    have body: "read_exact ?n \<lparr>bs_bytes = take (k - length ?h) (sd_to_vec sd m), bs_broken = None\<rparr> =
        (Inl UnexpectedEof, \<lparr>bs_bytes = [], bs_broken = None\<rparr>)"
      using short by (simp add: read_exact_def)
    show ?thesis unfolding cut read_message_def heads using False assms(1) body by simp
  qed
qed

theorem truncated_frame_witness:
  "read_message (sample_serde ping)
     \<lparr>bs_bytes = take 9 (write_message (sample_serde ping) ping), bs_broken = None\<rparr> =
   (Inr None, \<lparr>bs_bytes = [], bs_broken = None\<rparr>)"
proof -
  have "9 < length (frame_header (length (sd_to_vec (sample_serde ping) ping)))"
    by (simp add: frame_header_def)
  then show ?thesis
    using truncated_frame [of "sample_serde ping" ping 9] sample_ping
    by (simp add: write_message_def Let_def)
qed

end
