(* ===== verification/Rpc_Mux.thy ===== *)
theory Rpc_Mux
  imports Semnav_Prelude
begin

text \<open>
  What a caller relies on when many calls share one connection. Both client actors of the
  program, \<open>src/lsp/client.rs\<close> and \<open>src/daemon/client.rs\<close>, pair requests and replies by id;
  this theory states that contract as an abstract machine, proves its guarantees once, and
  offers them to any actor whose steps simulate the machine.
\<close>

section \<open>The abstract machine\<close>

text \<open>
  Callers are known by tickets (the sending half of their reply channel). A ticket waits under
  the id its call was sent with, or has its reply.
\<close>

record ('i, 'r) Mux =
  mx_used :: "'i set"
  mx_pending :: "'i \<Rightarrow> nat option"
  mx_replies :: "nat \<Rightarrow> 'r option"
  mx_alive :: bool

definition mux_start :: "('i, 'r) Mux" where
  "mux_start = \<lparr>mx_used = {}, mx_pending = Map.empty, mx_replies = Map.empty, mx_alive = True\<rparr>"

datatype ('i, 'r) mux_label =
    MIssue 'i nat
  | MAnswer 'i 'r
  | MRefuse nat 'r
  | MClose 'r

definition mux_drain :: "'r \<Rightarrow> ('i \<Rightarrow> nat option) \<Rightarrow> (nat \<Rightarrow> 'r option) \<Rightarrow> nat \<Rightarrow> 'r option" where
  "mux_drain r pending replies = (\<lambda>t. if t \<in> ran pending then Some r else replies t)"

inductive mux_move :: "('i, 'r) Mux \<Rightarrow> ('i, 'r) mux_label \<Rightarrow> ('i, 'r) Mux \<Rightarrow> bool" where
  issue: "mx_alive m \<Longrightarrow> i \<notin> mx_used m \<Longrightarrow>
    mux_move m (MIssue i t) (m\<lparr>mx_used := insert i (mx_used m), mx_pending := (mx_pending m)(i \<mapsto> t)\<rparr>)"
| answer: "mx_alive m \<Longrightarrow> mx_pending m i = Some t \<Longrightarrow>
    mux_move m (MAnswer i r)
      (m\<lparr>mx_pending := (mx_pending m)(i := None), mx_replies := (mx_replies m)(t \<mapsto> r)\<rparr>)"
| refuse: "mx_alive m \<Longrightarrow> mux_move m (MRefuse t r) (m\<lparr>mx_replies := (mx_replies m)(t \<mapsto> r)\<rparr>)"
| close: "mx_alive m \<Longrightarrow>
    mux_move m (MClose r) (m\<lparr>mx_alive := False, mx_pending := Map.empty,
      mx_replies := mux_drain r (mx_pending m) (mx_replies m)\<rparr>)"

inductive_cases mux_moveE: "mux_move m l m'"

inductive mux_run :: "('i, 'r) Mux \<Rightarrow> ('i, 'r) mux_label list \<Rightarrow> ('i, 'r) Mux \<Rightarrow> bool" where
  idle: "mux_run m [] m"
| move: "mux_run m ls m' \<Longrightarrow> mux_move m' l m'' \<Longrightarrow> mux_run m (ls @ [l]) m''"

fun label_ticket :: "('i, 'r) mux_label \<Rightarrow> nat list" where
  "label_ticket (MIssue i t) = [t]"
| "label_ticket (MRefuse t r) = [t]"
| "label_ticket _ = []"

definition run_tickets :: "('i, 'r) mux_label list \<Rightarrow> nat list" where
  "run_tickets ls = concat (map label_ticket ls)"

lemma run_tickets_simps [simp]:
  "run_tickets [] = []"
  "run_tickets (ls @ ks) = run_tickets ls @ run_tickets ks"
  "run_tickets [l] = label_ticket l"
  by (simp_all add: run_tickets_def)

lemma mux_run_append: "mux_run m ks m'' \<Longrightarrow> mux_run m0 ls m \<Longrightarrow> mux_run m0 (ls @ ks) m''"
proof (induction rule: mux_run.induct)
  case (idle m)
  then show ?case by simp
next
  case (move m ls' m' l m'')
  then show ?case using mux_run.move by (metis append_assoc)
qed

section \<open>Its guarantees\<close>

text \<open>
  \<open>mux_inv ls m\<close>: the bookkeeping of \<open>m\<close> after the moves \<open>ls\<close>. Every ticket either waits or has
  its reply; a waiting ticket waits under the id it was issued with; every reply is one of the
  three kinds the machine gives.
\<close>

definition reply_origin :: "('i, 'r) mux_label list \<Rightarrow> nat \<Rightarrow> 'r \<Rightarrow> bool" where
  "reply_origin ls t r \<longleftrightarrow>
     (\<exists>i. MIssue i t \<in> set ls \<and> MAnswer i r \<in> set ls) \<or> MRefuse t r \<in> set ls \<or> MClose r \<in> set ls"

definition mux_inv :: "('i, 'r) mux_label list \<Rightarrow> ('i, 'r) Mux \<Rightarrow> bool" where
  "mux_inv ls m \<longleftrightarrow>
     ran (mx_pending m) \<union> dom (mx_replies m) = set (run_tickets ls) \<and>
     ran (mx_pending m) \<inter> dom (mx_replies m) = {} \<and>
     (\<forall>i j t. mx_pending m i = Some t \<and> mx_pending m j = Some t \<longrightarrow> i = j) \<and>
     (\<forall>i t. mx_pending m i = Some t \<longrightarrow> i \<in> mx_used m \<and> MIssue i t \<in> set ls) \<and>
     (\<forall>t r. mx_replies m t = Some r \<longrightarrow> reply_origin ls t r) \<and>
     (\<not> mx_alive m \<longrightarrow> mx_pending m = Map.empty) \<and>
     (\<forall>i. i \<in> mx_used m \<longleftrightarrow> (\<exists>t. MIssue i t \<in> set ls)) \<and>
     (\<forall>i t u. MIssue i t \<in> set ls \<and> MIssue i u \<in> set ls \<longrightarrow> t = u)"

lemma mux_inv_start: "mux_inv [] mux_start"
  by (simp add: mux_inv_def mux_start_def)

lemma reply_origin_snoc: "reply_origin ls t r \<Longrightarrow> reply_origin (ls @ [l]) t r"
  by (auto simp: reply_origin_def)

lemma ran_remove:
  assumes "m i = Some t" and "\<And>j. m j = Some t \<Longrightarrow> j = i"
  shows "ran (m(i := None)) = ran m - {t}"
proof (rule set_eqI)
  fix x
  have "x \<in> ran (m(i := None)) \<longleftrightarrow> (\<exists>j. j \<noteq> i \<and> m j = Some x)"
    by (auto simp: ran_def)
  also have "\<dots> \<longleftrightarrow> x \<in> ran m \<and> x \<noteq> t"
  proof
    assume "\<exists>j. j \<noteq> i \<and> m j = Some x"
    then obtain j where "j \<noteq> i" "m j = Some x" by blast
    with assms(2) show "x \<in> ran m \<and> x \<noteq> t" by (auto intro: ranI)
  next
    assume "x \<in> ran m \<and> x \<noteq> t"
    then obtain j where "m j = Some x" "x \<noteq> t" by (auto simp: ran_def)
    moreover from this have "j \<noteq> i" using assms(1) by auto
    ultimately show "\<exists>j. j \<noteq> i \<and> m j = Some x" by blast
  qed
  finally show "x \<in> ran (m(i := None)) \<longleftrightarrow> x \<in> ran m - {t}" by simp
qed

lemma reply_origin_new:
  "MIssue i t \<in> set ls \<Longrightarrow> reply_origin (ls @ [MAnswer i r]) t r"
  "reply_origin (ls @ [MRefuse t r]) t r"
  "reply_origin (ls @ [MClose r]) t r"
  by (auto simp: reply_origin_def)

lemma mux_invD:
  assumes "mux_inv ls m"
  shows "ran (mx_pending m) \<union> dom (mx_replies m) = set (run_tickets ls)"
    and "ran (mx_pending m) \<inter> dom (mx_replies m) = {}"
    and "mx_pending m i = Some t \<Longrightarrow> mx_pending m j = Some t \<Longrightarrow> i = j"
    and "mx_pending m i = Some t \<Longrightarrow> i \<in> mx_used m \<and> MIssue i t \<in> set ls"
    and "mx_replies m t = Some r \<Longrightarrow> reply_origin ls t r"
    and "\<not> mx_alive m \<Longrightarrow> mx_pending m = Map.empty"
    and "i \<in> mx_used m \<longleftrightarrow> (\<exists>t. MIssue i t \<in> set ls)"
    and "MIssue i t \<in> set ls \<Longrightarrow> MIssue i u \<in> set ls \<Longrightarrow> t = u"
proof -
  note h = assms [unfolded mux_inv_def]
  note h2 = conjunct2 [OF h] note h3 = conjunct2 [OF h2] note h4 = conjunct2 [OF h3]
  note h5 = conjunct2 [OF h4] note h6 = conjunct2 [OF h5] note h7 = conjunct2 [OF h6]
  show "ran (mx_pending m) \<union> dom (mx_replies m) = set (run_tickets ls)" by (rule conjunct1 [OF h])
  show "ran (mx_pending m) \<inter> dom (mx_replies m) = {}" by (rule conjunct1 [OF h2])
  show "mx_pending m i = Some t \<Longrightarrow> mx_pending m j = Some t \<Longrightarrow> i = j" using conjunct1 [OF h3] by simp
  show "mx_pending m i = Some t \<Longrightarrow> i \<in> mx_used m \<and> MIssue i t \<in> set ls" using conjunct1 [OF h4] by simp
  show "mx_replies m t = Some r \<Longrightarrow> reply_origin ls t r" using conjunct1 [OF h5] by simp
  show "\<not> mx_alive m \<Longrightarrow> mx_pending m = Map.empty" using conjunct1 [OF h6] by simp
  show "i \<in> mx_used m \<longleftrightarrow> (\<exists>t. MIssue i t \<in> set ls)" using conjunct1 [OF h7] by simp
  show "MIssue i t \<in> set ls \<Longrightarrow> MIssue i u \<in> set ls \<Longrightarrow> t = u" using conjunct2 [OF h7] by simp
qed

lemma mux_invI:
  assumes "ran (mx_pending m) \<union> dom (mx_replies m) = set (run_tickets ls)"
    and "ran (mx_pending m) \<inter> dom (mx_replies m) = {}"
    and "\<And>i j t. mx_pending m i = Some t \<Longrightarrow> mx_pending m j = Some t \<Longrightarrow> i = j"
    and "\<And>i t. mx_pending m i = Some t \<Longrightarrow> i \<in> mx_used m \<and> MIssue i t \<in> set ls"
    and "\<And>t r. mx_replies m t = Some r \<Longrightarrow> reply_origin ls t r"
    and "\<not> mx_alive m \<Longrightarrow> mx_pending m = Map.empty"
    and "\<And>i. i \<in> mx_used m \<longleftrightarrow> (\<exists>t. MIssue i t \<in> set ls)"
    and "\<And>i t u. MIssue i t \<in> set ls \<Longrightarrow> MIssue i u \<in> set ls \<Longrightarrow> t = u"
  shows "mux_inv ls m"
  using assms unfolding mux_inv_def by blast

lemma mux_inv_move:
  assumes inv: "mux_inv ls m" and mv: "mux_move m l m'"
    and fresh: "\<forall>t \<in> set (label_ticket l). t \<notin> set (run_tickets ls)"
  shows "mux_inv (ls @ [l]) m'"
  using mv
proof (cases rule: mux_moveE [consumes 1, case_names issue answer refuse close])
  case (issue i t)
  note D = mux_invD [OF inv]
  have t: "t \<notin> ran (mx_pending m)" "t \<notin> dom (mx_replies m)"
    using D(1) fresh issue(1) by auto
  have nt: "mx_pending m j \<noteq> Some t" for j using t(1) by (auto simp: ran_def)
  have "mx_pending m i = None"
    using D(4) issue(4) by (cases "mx_pending m i") auto
  then have ran': "ran ((mx_pending m)(i \<mapsto> t)) = insert t (ran (mx_pending m))"
    by simp
  show ?thesis
  proof (rule mux_invI)
    show "ran (mx_pending m') \<union> dom (mx_replies m') = set (run_tickets (ls @ [l]))"
      using D(1) issue(1,2) ran' by simp
    show "ran (mx_pending m') \<inter> dom (mx_replies m') = {}"
      using D(2) issue(2) ran' t by simp
    show "j = k" if "mx_pending m' j = Some u" "mx_pending m' k = Some u" for j k u
      using that D(3) issue(2) nt by (auto split: if_splits)
    show "j \<in> mx_used m' \<and> MIssue j u \<in> set (ls @ [l])" if "mx_pending m' j = Some u" for j u
      using that D(4) issue(1,2) by (auto split: if_splits)
    show "reply_origin (ls @ [l]) u r" if "mx_replies m' u = Some r" for u r
      using that issue(2) by (auto intro: reply_origin_snoc D(5))
    show "mx_pending m' = Map.empty" if "\<not> mx_alive m'" using that issue(2,3) by simp
    show "j \<in> mx_used m' \<longleftrightarrow> (\<exists>u. MIssue j u \<in> set (ls @ [l]))" for j
      using D(7) issue(1,2) by auto
    show "u = v" if "MIssue j u \<in> set (ls @ [l])" "MIssue j v \<in> set (ls @ [l])" for j u v
      using that D(7,8) issue(1,4) by auto
  qed
next
  case (answer i t r)
  note D = mux_invD [OF inv]
  have ran': "ran ((mx_pending m)(i := None)) = ran (mx_pending m) - {t}"
    using answer(4) D(3) by (intro ran_remove) auto
  have t: "t \<in> ran (mx_pending m)" using answer(4) by (auto simp: ran_def)
  have origin: "MIssue i t \<in> set ls" using D(4) answer(4) by blast
  show ?thesis
  proof (rule mux_invI)
    show "ran (mx_pending m') \<union> dom (mx_replies m') = set (run_tickets (ls @ [l]))"
      using D(1) answer(1,2) ran' t by auto
    show "ran (mx_pending m') \<inter> dom (mx_replies m') = {}"
      using D(2) answer(2) ran' by auto
    show "j = k" if "mx_pending m' j = Some u" "mx_pending m' k = Some u" for j k u
      using that D(3) answer(2) by (auto split: if_splits)
    show "j \<in> mx_used m' \<and> MIssue j u \<in> set (ls @ [l])" if "mx_pending m' j = Some u" for j u
      using that D(4) answer(2) by (auto split: if_splits)
    show "reply_origin (ls @ [l]) u q" if "mx_replies m' u = Some q" for u q
      using that answer(1,2) reply_origin_new(1) [OF origin]
      by (auto intro: reply_origin_snoc D(5) split: if_splits)
    show "mx_pending m' = Map.empty" if "\<not> mx_alive m'" using that answer(2,3) by simp
    show "j \<in> mx_used m' \<longleftrightarrow> (\<exists>u. MIssue j u \<in> set (ls @ [l]))" for j
      using D(7) answer(1,2) by auto
    show "u = v" if "MIssue j u \<in> set (ls @ [l])" "MIssue j v \<in> set (ls @ [l])" for j u v
      using that D(8) answer(1) by auto
  qed
next
  case (refuse t r)
  note D = mux_invD [OF inv]
  have t: "t \<notin> ran (mx_pending m)" using D(1) fresh refuse(1) by auto
  show ?thesis
  proof (rule mux_invI)
    show "ran (mx_pending m') \<union> dom (mx_replies m') = set (run_tickets (ls @ [l]))"
      using D(1) refuse(1,2) by auto
    show "ran (mx_pending m') \<inter> dom (mx_replies m') = {}"
      using D(2) refuse(2) t by auto
    show "reply_origin (ls @ [l]) u q" if "mx_replies m' u = Some q" for u q
      using that refuse(1,2) by (auto intro: reply_origin_snoc reply_origin_new D(5) split: if_splits)
  qed (use D(3,4,6,7,8) refuse in auto)
next
  case (close r)
  note D = mux_invD [OF inv]
  show ?thesis
  proof (rule mux_invI)
    show "ran (mx_pending m') \<union> dom (mx_replies m') = set (run_tickets (ls @ [l]))"
      using D(1) close(1,2) by (auto simp: mux_drain_def split: if_splits)
    show "reply_origin (ls @ [l]) u q" if "mx_replies m' u = Some q" for u q
      using that close(1,2)
      by (auto simp: mux_drain_def intro: reply_origin_snoc reply_origin_new D(5) split: if_splits)
  qed (use D(7,8) close in auto)
qed

lemma mux_run_inv:
  assumes "mux_run mux_start ls m" and "distinct (run_tickets ls)"
  shows "mux_inv ls m"
  using assms
proof (induction "mux_start :: ('a, 'b) Mux" ls m rule: mux_run.induct)
  case idle
  show ?case by (rule mux_inv_start)
next
  case (move ls m' l m'')
  then have "mux_inv ls m'" by simp
  moreover have "\<forall>t \<in> set (label_ticket l). t \<notin> set (run_tickets ls)" using move.prems by auto
  ultimately show ?case using move.hyps mux_inv_move by blast
qed

lemma mux_move_keeps_reply:
  assumes "mux_inv ls m" and "mux_move m l m'" and "\<forall>t \<in> set (label_ticket l). t \<notin> set (run_tickets ls)"
    and "mx_replies m t = Some r"
  shows "mx_replies m' t = Some r"
proof -
  have np: "t \<notin> ran (mx_pending m)" using mux_invD(2) [OF assms(1)] assms(4) by blast
  then have "mx_pending m i \<noteq> Some t" for i by (auto simp: ran_def)
  moreover have "t \<in> set (run_tickets ls)" using mux_invD(1) [OF assms(1)] assms(4) by blast
  ultimately show ?thesis using assms(3,4) np
    by (cases rule: mux_move.cases [OF assms(2)]) (auto simp: mux_drain_def)
qed

lemma mux_run_cont:
  assumes "mux_run m ks m'" and "mux_inv ls m" and "distinct (run_tickets (ls @ ks))"
  shows "mux_inv (ls @ ks) m' \<and> (\<forall>t r. mx_replies m t = Some r \<longrightarrow> mx_replies m' t = Some r)"
  using assms
proof (induction m ks m' rule: mux_run.induct)
  case (idle m)
  then show ?case by simp
next
  case (move m ks m' l m'')
  then have IH: "mux_inv (ls @ ks) m'" "\<forall>t r. mx_replies m t = Some r \<longrightarrow> mx_replies m' t = Some r"
    by auto
  have fresh: "\<forall>t \<in> set (label_ticket l). t \<notin> set (run_tickets (ls @ ks))" using move.prems(2) by auto
  have "mux_inv ((ls @ ks) @ [l]) m''" by (rule mux_inv_move [OF IH(1) move.hyps(2) fresh])
  moreover have "mx_replies m'' t = Some r" if "mx_replies m t = Some r" for t r
    using mux_move_keeps_reply [OF IH(1) move.hyps(2) fresh] IH(2) that by blast
  ultimately show ?case by simp
qed

section \<open>The interface\<close>

text \<open>
  An actor is run on a sequence of events. \<open>labels e s\<close> are the moves of the abstract machine
  that the actor makes on event \<open>e\<close> in state \<open>s\<close>.
\<close>

fun run_events :: "('e \<Rightarrow> 's \<Rightarrow> 's) \<Rightarrow> 'e list \<Rightarrow> 's \<Rightarrow> 's" where
  "run_events step [] s = s"
| "run_events step (e # es) s = run_events step es (step e s)"

fun run_labels :: "('e \<Rightarrow> 's \<Rightarrow> 's) \<Rightarrow> ('e \<Rightarrow> 's \<Rightarrow> 'l list) \<Rightarrow> 'e list \<Rightarrow> 's \<Rightarrow> 'l list" where
  "run_labels step labels [] s = []"
| "run_labels step labels (e # es) s = labels e s @ run_labels step labels es (step e s)"

lemma run_events_append [simp]:
  "run_events step (es @ fs) s = run_events step fs (run_events step es s)"
  by (induction es arbitrary: s) simp_all

lemma run_labels_append:
  "run_labels step labels (es @ fs) s =
     run_labels step labels es s @ run_labels step labels fs (run_events step es s)"
  by (induction es arbitrary: s) simp_all

locale rpc_mux =
  fixes step :: "'e \<Rightarrow> 's \<Rightarrow> 's"
    and start :: 's
    and ok :: "'s \<Rightarrow> bool"
    and view :: "'s \<Rightarrow> ('i, 'r) Mux"
    and labels :: "'e \<Rightarrow> 's \<Rightarrow> ('i, 'r) mux_label list"
    and asks :: "'e \<Rightarrow> nat list"
  assumes start_ok: "ok start"
    and start_view: "view start = mux_start"
    and step_ok: "ok s \<Longrightarrow> ok (step e s)"
    and simulates: "ok s \<Longrightarrow> mux_run (view s) (labels e s) (view (step e s))"
    and tickets: "ok s \<Longrightarrow> run_tickets (labels e s) = (if mx_alive (view s) then asks e else [])"
begin

lemma run_ok: "ok s \<Longrightarrow> ok (run_events step es s)"
  by (induction es arbitrary: s) (simp_all add: step_ok)

lemma run_simulates: "ok s \<Longrightarrow> mux_run (view s) (run_labels step labels es s) (view (run_events step es s))"
proof (induction es arbitrary: s)
  case Nil
  then show ?case by (simp add: mux_run.idle)
next
  case (Cons e es)
  then show ?case using mux_run_append [OF Cons.IH [OF step_ok]] simulates by simp
qed

lemma run_tickets_distinct:
  "ok s \<Longrightarrow> distinct (concat (map asks es)) \<Longrightarrow>
     distinct (run_tickets (run_labels step labels es s)) \<and>
     set (run_tickets (run_labels step labels es s)) \<subseteq> set (concat (map asks es))"
proof (induction es arbitrary: s)
  case Nil
  then show ?case by simp
next
  case (Cons e es)
  then have "distinct (run_tickets (run_labels step labels es (step e s)))"
    "set (run_tickets (run_labels step labels es (step e s))) \<subseteq> set (concat (map asks es))"
    using step_ok by auto
  then show ?case using Cons.prems tickets [OF Cons.prems(1)] by auto
qed

lemma run_inv:
  assumes "distinct (concat (map asks es))"
  shows "mux_inv (run_labels step labels es start) (view (run_events step es start))"
  using mux_run_inv run_simulates [OF start_ok, of es] start_view
    run_tickets_distinct [OF start_ok assms] by metis

text \<open>A ticket handed in while the actor runs waits or is answered, never both.\<close>

lemma waits_or_answered:
  assumes "distinct (concat (map asks es))" and "t \<in> set (run_tickets (run_labels step labels es start))"
  shows "(t \<in> ran (mx_pending (view (run_events step es start)))) \<noteq>
    (mx_replies (view (run_events step es start)) t \<noteq> None)"
  using mux_invD(1,2) [OF run_inv [OF assms(1)]] assms(2) by blast

lemma closed_answered:
  assumes "distinct (concat (map asks es))" and "t \<in> set (run_tickets (run_labels step labels es start))"
    and "\<not> mx_alive (view (run_events step es start))"
  shows "mx_replies (view (run_events step es start)) t \<noteq> None"
  using waits_or_answered [OF assms(1,2)] mux_invD(6) [OF run_inv [OF assms(1)] assms(3)] by simp

lemma reply_from:
  assumes "distinct (concat (map asks es))" and "mx_replies (view (run_events step es start)) t = Some r"
  shows "reply_origin (run_labels step labels es start) t r"
  by (rule mux_invD(5) [OF run_inv [OF assms(1)] assms(2)])

lemma reply_final:
  assumes "distinct (concat (map asks (es @ fs)))"
    and "mx_replies (view (run_events step es start)) t = Some r"
  shows "mx_replies (view (run_events step (es @ fs) start)) t = Some r"
proof -
  have d: "distinct (concat (map asks es))" using assms(1) by simp
  have "mux_run (view (run_events step es start)) (run_labels step labels fs (run_events step es start))
      (view (run_events step (es @ fs) start))"
    using run_simulates run_ok [OF start_ok] by simp
  moreover have "distinct (run_tickets (run_labels step labels es start @
      run_labels step labels fs (run_events step es start)))"
    using run_tickets_distinct [OF start_ok assms(1)] by (simp add: run_labels_append)
  ultimately show ?thesis using mux_run_cont run_inv [OF d] assms(2) by blast
qed

lemma id_of_one_ticket:
  assumes "distinct (concat (map asks es))"
    and "MIssue i t \<in> set (run_labels step labels es start)" "MIssue i u \<in> set (run_labels step labels es start)"
  shows "t = u"
  by (rule mux_invD(8) [OF run_inv [OF assms(1)] assms(2,3)])

end

end
