(* ===== verification/Lsp_Client.thy ===== *)
theory Lsp_Client
  imports Lsp_Wire Rpc_Mux
begin

text \<open>
  The client of one language server (\<open>src/lsp/client.rs\<close>): the actor that owns the server's
  stdio streams and pairs replies with requests, and the table of open documents its handles
  share.
\<close>

section \<open>The actor\<close>

text \<open>
  The locals of \<open>actor_loop\<close>. A reply channel is the ticket of its caller; \<open>la_replies\<close> holds
  what has been sent through it. \<open>la_written\<close> records what reached the server's stdin, a
  request with the ticket it was sent for. Ids are \<open>i64\<close> in the code; one connection would have to
  carry \<open>2 ^ 63\<close> requests to leave their range.
\<close>

type_synonym LspReply = "RpcError + Json"

record LspActor =
  la_next_id :: int
  la_pending :: "int \<Rightarrow> nat option"
  la_replies :: "nat \<Rightarrow> LspReply option"
  la_alive :: bool
  la_written :: "(nat option \<times> Message) list"

definition lsp_start :: LspActor where
  "lsp_start = \<lparr>la_next_id = 1, la_pending = Map.empty, la_replies = Map.empty, la_alive = True,
     la_written = []\<rparr>"

text \<open>
  What the \<open>select!\<close> of the loop picks: an inbound event, the end of the inbound channel, a
  command with the outcome of writing it (\<open>None\<close> is success), or the end of the command
  channel. A command of a stopped actor is never received.
\<close>

datatype LspEvent =
    EvInbound Inbound
  | EvInboundGone
  | EvRequest string "Json option" nat "string option"
  | EvNotify string "Json option" "string option"
  | EvCmdGone

definition write_failed :: "string \<Rightarrow> RpcError" where
  "write_failed e = \<lparr>er_code = - 32000, er_message = ''write failed: '' @ e, er_data = None\<rparr>"

definition closed_error :: "string option \<Rightarrow> RpcError" where
  "closed_error close_reason = \<lparr>er_code = - 32001,
     er_message = (case close_reason of Some r \<Rightarrow> r | None \<Rightarrow> ''client stream closed''),
     er_data = None\<rparr>"

definition send_reply :: "nat \<Rightarrow> LspReply \<Rightarrow> LspActor \<Rightarrow> LspActor" where
  "send_reply t r a = a\<lparr>la_replies := (la_replies a)(t \<mapsto> r)\<rparr>"

text \<open>\<open>dispatch_inbound\<close>.\<close>

definition resolve_pending :: "int \<Rightarrow> LspReply \<Rightarrow> LspActor \<Rightarrow> LspActor" where
  "resolve_pending i r a = (case la_pending a i of
      Some t \<Rightarrow> send_reply t r (a\<lparr>la_pending := (la_pending a)(i := None)\<rparr>)
    | None \<Rightarrow> a)"

fun dispatch_inbound :: "Message \<Rightarrow> LspActor \<Rightarrow> LspActor" where
  "dispatch_inbound (Response i v) a = resolve_pending i (Inr v) a"
| "dispatch_inbound (ErrorReply i e) a = resolve_pending i (Inl e) a"
| "dispatch_inbound _ a = a"

text \<open>Leaving the loop: everything still waiting fails with the reason.\<close>

definition lsp_close :: "string option \<Rightarrow> LspActor \<Rightarrow> LspActor" where
  "lsp_close close_reason a = a\<lparr>la_alive := False, la_pending := Map.empty,
     la_replies := mux_drain (Inl (closed_error close_reason)) (la_pending a) (la_replies a)\<rparr>"

fun lsp_event :: "LspEvent \<Rightarrow> LspActor \<Rightarrow> LspActor" where
  "lsp_event (EvInbound (InMessage msg)) a = dispatch_inbound msg a"
| "lsp_event (EvInbound InEof) a = lsp_close None a"
| "lsp_event (EvInbound (InFailed m)) a = lsp_close (Some m) a"
| "lsp_event EvInboundGone a = lsp_close None a"
| "lsp_event (EvRequest m p t wr) a =
     (let i = la_next_id a; a' = a\<lparr>la_next_id := i + 1\<rparr> in
      case wr of
        None \<Rightarrow> a'\<lparr>la_pending := (la_pending a')(i \<mapsto> t),
                  la_written := la_written a' @ [(Some t, Request i m p)]\<rparr>
      | Some e \<Rightarrow> send_reply t (Inl (write_failed e)) a')"
| "lsp_event (EvNotify m p wr) a =
     (case wr of None \<Rightarrow> a\<lparr>la_written := la_written a @ [(None, Notification m p)]\<rparr> | Some e \<Rightarrow> a)"
| "lsp_event EvCmdGone a = lsp_close None a"

definition lsp_step :: "LspEvent \<Rightarrow> LspActor \<Rightarrow> LspActor" where
  "lsp_step e a = (if la_alive a then lsp_event e a else a)"

section \<open>The actor is a multiplexer\<close>

definition lsp_view :: "LspActor \<Rightarrow> (int, LspReply) Mux" where
  "lsp_view a = \<lparr>mx_used = {i. 1 \<le> i \<and> i < la_next_id a \<and> (\<exists>t m p. (Some t, Request i m p) \<in> set (la_written a))},
     mx_pending = la_pending a, mx_replies = la_replies a, mx_alive = la_alive a\<rparr>"

text \<open>Ids are handed out in increasing order, so none is in use twice.\<close>

definition lsp_ok :: "LspActor \<Rightarrow> bool" where
  "lsp_ok a \<longleftrightarrow> 1 \<le> la_next_id a \<and>
     (\<forall>t i m p. (Some t, Request i m p) \<in> set (la_written a) \<longrightarrow> 1 \<le> i \<and> i < la_next_id a) \<and>
     (\<not> la_alive a \<longrightarrow> la_pending a = Map.empty)"

definition answer_label :: "int \<Rightarrow> LspReply \<Rightarrow> LspActor \<Rightarrow> (int, LspReply) mux_label list" where
  "answer_label i r a = (if la_pending a i = None then [] else [MAnswer i r])"

fun lsp_event_labels :: "LspEvent \<Rightarrow> LspActor \<Rightarrow> (int, LspReply) mux_label list" where
  "lsp_event_labels (EvInbound (InMessage (Response i v))) a = answer_label i (Inr v) a"
| "lsp_event_labels (EvInbound (InMessage (ErrorReply i e))) a = answer_label i (Inl e) a"
| "lsp_event_labels (EvInbound (InMessage _)) a = []"
| "lsp_event_labels (EvInbound InEof) a = [MClose (Inl (closed_error None))]"
| "lsp_event_labels (EvInbound (InFailed m)) a = [MClose (Inl (closed_error (Some m)))]"
| "lsp_event_labels EvInboundGone a = [MClose (Inl (closed_error None))]"
| "lsp_event_labels (EvRequest m p t wr) a =
     (case wr of None \<Rightarrow> [MIssue (la_next_id a) t] | Some e \<Rightarrow> [MRefuse t (Inl (write_failed e))])"
| "lsp_event_labels (EvNotify m p wr) a = []"
| "lsp_event_labels EvCmdGone a = [MClose (Inl (closed_error None))]"

definition lsp_labels :: "LspEvent \<Rightarrow> LspActor \<Rightarrow> (int, LspReply) mux_label list" where
  "lsp_labels e a = (if la_alive a then lsp_event_labels e a else [])"

fun lsp_asks :: "LspEvent \<Rightarrow> nat list" where
  "lsp_asks (EvRequest m p t wr) = [t]"
| "lsp_asks _ = []"

lemma mux_run_one: "mux_move m l m' \<Longrightarrow> mux_run m [l] m'"
  using mux_run.move [OF mux_run.idle] by fastforce

lemma resolve_simulates:
  assumes "la_alive a"
  shows "mux_run (lsp_view a) (answer_label i r a) (lsp_view (resolve_pending i r a))"
proof (cases "la_pending a i")
  case None
  then show ?thesis by (simp add: answer_label_def resolve_pending_def mux_run.idle)
next
  case (Some t)
  have "mux_move (lsp_view a) (MAnswer i r) (lsp_view (resolve_pending i r a))"
    using mux_move.answer [of "lsp_view a" i t r] assms Some
    by (simp add: lsp_view_def resolve_pending_def send_reply_def)
  with Some show ?thesis by (simp add: answer_label_def mux_run_one)
qed

lemma close_simulates:
  assumes "la_alive a"
  shows "mux_run (lsp_view a) [MClose (Inl (closed_error r))] (lsp_view (lsp_close r a))"
  using mux_move.close [of "lsp_view a" "Inl (closed_error r)"] assms
  by (intro mux_run_one) (simp add: lsp_view_def lsp_close_def)

lemma request_simulates:
  assumes "lsp_ok a" and "la_alive a"
  shows "mux_run (lsp_view a) (lsp_event_labels (EvRequest m p t wr) a) (lsp_view (lsp_event (EvRequest m p t wr) a))"
proof (cases wr)
  case None
  let ?i = "la_next_id a"
  have used: "{i. 1 \<le> i \<and> i < ?i + 1 \<and>
        (\<exists>u m' p'. (Some u, Request i m' p') \<in> set (la_written a @ [(Some t, Request ?i m p)]))} =
      insert ?i {i. 1 \<le> i \<and> i < ?i \<and> (\<exists>u m' p'. (Some u, Request i m' p') \<in> set (la_written a))}"
    using assms(1) by (auto simp: lsp_ok_def)
  have "mux_move (lsp_view a) (MIssue ?i t) (lsp_view (lsp_event (EvRequest m p t None) a))"
    using mux_move.issue [of "lsp_view a" ?i t] assms(2) used
    by (simp add: lsp_view_def Let_def)
  with None show ?thesis by (simp add: mux_run_one)
next
  case (Some e)
  have used: "{i. 1 \<le> i \<and> i < la_next_id a + 1 \<and> (\<exists>u m' p'. (Some u, Request i m' p') \<in> set (la_written a))} =
      {i. 1 \<le> i \<and> i < la_next_id a \<and> (\<exists>u m' p'. (Some u, Request i m' p') \<in> set (la_written a))}"
    using assms(1) by (auto simp: lsp_ok_def)
  have "mux_move (lsp_view a) (MRefuse t (Inl (write_failed e))) (lsp_view (lsp_event (EvRequest m p t (Some e)) a))"
    using mux_move.refuse [of "lsp_view a" t "Inl (write_failed e)"] assms(2) used
    by (simp add: lsp_view_def Let_def send_reply_def)
  with Some show ?thesis by (simp add: mux_run_one)
qed

lemma lsp_event_simulates:
  assumes "lsp_ok a" and "la_alive a"
  shows "mux_run (lsp_view a) (lsp_event_labels e a) (lsp_view (lsp_event e a))"
proof (cases e)
  case (EvInbound b)
  then show ?thesis
  proof (cases b)
    case (InMessage msg)
    then show ?thesis using EvInbound assms
      by (cases msg) (simp_all add: resolve_simulates mux_run.idle)
  qed (use EvInbound assms in \<open>simp_all add: close_simulates\<close>)
next
  case (EvRequest m p t wr)
  then show ?thesis using request_simulates [OF assms] by simp
next
  case (EvNotify m p wr)
  then show ?thesis by (cases wr) (simp_all add: lsp_view_def mux_run.idle)
qed (use assms in \<open>simp_all add: close_simulates\<close>)

lemma lsp_ok_event: "lsp_ok a \<Longrightarrow> la_alive a \<Longrightarrow> lsp_ok (lsp_event e a)"
proof (cases e)
  case (EvInbound b)
  assume "lsp_ok a" "la_alive a"
  then show ?thesis
  proof (cases b)
    case (InMessage msg)
    then show ?thesis using EvInbound \<open>lsp_ok a\<close> \<open>la_alive a\<close>
      by (cases msg) (simp_all add: lsp_ok_def resolve_pending_def send_reply_def split: option.splits)
  qed (use EvInbound \<open>lsp_ok a\<close> in \<open>simp_all add: lsp_ok_def lsp_close_def\<close>)
next
  case (EvRequest m p t wr)
  assume "lsp_ok a" "la_alive a"
  with EvRequest show ?thesis by (cases wr) (force simp: lsp_ok_def Let_def send_reply_def)+
next
  case (EvNotify m p wr)
  assume "lsp_ok a" "la_alive a"
  with EvNotify show ?thesis by (cases wr) (auto simp: lsp_ok_def)
qed (simp_all add: lsp_ok_def lsp_close_def)

interpretation lmux: rpc_mux lsp_step lsp_start lsp_ok lsp_view lsp_labels lsp_asks
proof unfold_locales
  show "lsp_ok lsp_start" by (simp add: lsp_ok_def lsp_start_def)
  show "lsp_view lsp_start = mux_start" by (simp add: lsp_view_def lsp_start_def mux_start_def)
  show "lsp_ok (lsp_step e a)" if "lsp_ok a" for e a
    using that by (simp add: lsp_step_def lsp_ok_event)
  show "mux_run (lsp_view a) (lsp_labels e a) (lsp_view (lsp_step e a))" if "lsp_ok a" for e a
    using that by (simp add: lsp_step_def lsp_labels_def lsp_event_simulates mux_run.idle)
  show "run_tickets (lsp_labels e a) = (if mx_alive (lsp_view a) then lsp_asks e else [])" for e a
    by (cases "(e, a)" rule: lsp_event_labels.cases)
      (auto simp: lsp_labels_def lsp_view_def answer_label_def run_tickets_def split: option.splits)
qed

section \<open>Replies reach their callers\<close>

abbreviation lsp_run :: "LspEvent list \<Rightarrow> LspActor" where
  "lsp_run es \<equiv> run_events lsp_step es lsp_start"

abbreviation lsp_trace :: "LspEvent list \<Rightarrow> (int, LspReply) mux_label list" where
  "lsp_trace es \<equiv> run_labels lsp_step lsp_labels es lsp_start"

lemma lsp_trace_snoc: "lsp_trace (es @ [e]) = lsp_trace es @ lsp_labels e (lsp_run es)"
  by (simp add: run_labels_append)

lemma label_issue:
  "MIssue i t \<in> set (lsp_labels e a) \<Longrightarrow>
     \<exists>m p. e = EvRequest m p t None \<and> i = la_next_id a \<and> la_alive a"
  by (cases "(e, a)" rule: lsp_event_labels.cases)
    (auto simp: lsp_labels_def answer_label_def split: option.splits if_splits)

lemma label_answer:
  "MAnswer i r \<in> set (lsp_labels e a) \<Longrightarrow>
     (\<exists>v. r = Inr v \<and> e = EvInbound (InMessage (Response i v))) \<or>
     (\<exists>x. r = Inl x \<and> e = EvInbound (InMessage (ErrorReply i x)))"
  by (cases "(e, a)" rule: lsp_event_labels.cases)
    (auto simp: lsp_labels_def answer_label_def split: option.splits if_splits)

lemma label_error:
  "MRefuse t r \<in> set (lsp_labels e a) \<Longrightarrow> \<exists>x. r = Inl x"
  "MClose r \<in> set (lsp_labels e a) \<Longrightarrow> \<exists>x. r = Inl x"
  by (cases "(e, a)" rule: lsp_event_labels.cases;
      auto simp: lsp_labels_def answer_label_def split: option.splits if_splits)+

lemma dispatch_written [simp]: "la_written (dispatch_inbound msg a) = la_written a"
  by (cases msg) (simp_all add: resolve_pending_def send_reply_def split: option.splits)

lemma written_mono: "x \<in> set (la_written a) \<Longrightarrow> x \<in> set (la_written (lsp_step e a))"
  by (cases "(e, a)" rule: lsp_event.cases)
    (auto simp: lsp_step_def lsp_close_def Let_def resolve_pending_def send_reply_def split: option.splits)

lemma written_request:
  "(Some t, Request i m p) \<in> set (la_written (lsp_step e a)) \<Longrightarrow>
     (Some t, Request i m p) \<in> set (la_written a) \<or> MIssue i t \<in> set (lsp_labels e a)"
  by (cases "(e, a)" rule: lsp_event.cases)
    (auto simp: lsp_step_def lsp_labels_def lsp_close_def Let_def resolve_pending_def send_reply_def split: option.splits if_splits)

lemma trace_issue:
  "MIssue i t \<in> set (lsp_trace es) \<longleftrightarrow> (\<exists>m p. (Some t, Request i m p) \<in> set (la_written (lsp_run es)))"
proof (induction es rule: rev_induct)
  case Nil
  then show ?case by (simp add: lsp_start_def)
next
  case (snoc e es)
  have new: "\<exists>m p. (Some t, Request i m p) \<in> set (la_written (lsp_step e (lsp_run es)))"
    if "MIssue i t \<in> set (lsp_labels e (lsp_run es))"
    using label_issue [OF that] by (auto simp: lsp_step_def Let_def) blast
  show ?case
    using snoc new written_mono written_request by (simp only: lsp_trace_snoc run_events_append) (fastforce)
qed

lemma trace_answer:
  "MAnswer i r \<in> set (lsp_trace es) \<Longrightarrow>
     (\<exists>v. r = Inr v \<and> EvInbound (InMessage (Response i v)) \<in> set es) \<or>
     (\<exists>x. r = Inl x \<and> EvInbound (InMessage (ErrorReply i x)) \<in> set es)"
proof (induction es rule: rev_induct)
  case Nil
  then show ?case by simp
next
  case (snoc e es)
  then show ?case using label_answer [of i r e "lsp_run es"] by (auto simp: lsp_trace_snoc)
qed

lemma trace_error:
  "MRefuse t (Inr v) \<notin> set (lsp_trace es)" "MClose (Inr v) \<notin> set (lsp_trace es)"
proof (induction es rule: rev_induct)
  case Nil
  { case 1 show ?case by simp next case 2 show ?case by simp }
next
  case (snoc e es)
  { case 1 show ?case using snoc label_error(1) [of t "Inr v" e "lsp_run es"] by (auto simp: lsp_trace_snoc)
  next case 2 show ?case using snoc label_error(2) [of "Inr v" e "lsp_run es"] by (auto simp: lsp_trace_snoc) }
qed

lemma taken_ticket:
  assumes "la_alive (lsp_run pre)"
  shows "t \<in> set (run_tickets (lsp_trace (pre @ EvRequest m p t wr # post)))"
  using lmux.tickets [OF lmux.run_ok [OF lmux.start_ok], of "EvRequest m p t wr" pre] assms
  by (simp add: run_labels_append lsp_view_def)

text \<open>a request of the client gets exactly one outcome. Whatever the interleaving of callers,
  inbound messages, write failures and the end of the stream, a request the running actor took
  either still waits or has been answered, and has been answered once the actor stops; and an
  answer never changes afterwards.\<close>

theorem lsp_request_outcome:
  assumes "distinct (concat (map lsp_asks (pre @ EvRequest m p t wr # post @ later)))"
    and "la_alive (lsp_run pre)"
  shows "((\<exists>i. la_pending (lsp_run (pre @ EvRequest m p t wr # post)) i = Some t) \<noteq>
      (la_replies (lsp_run (pre @ EvRequest m p t wr # post)) t \<noteq> None)) \<and>
    (\<not> la_alive (lsp_run (pre @ EvRequest m p t wr # post)) \<longrightarrow>
      la_replies (lsp_run (pre @ EvRequest m p t wr # post)) t \<noteq> None) \<and>
    (\<forall>r. la_replies (lsp_run (pre @ EvRequest m p t wr # post)) t = Some r \<longrightarrow>
      la_replies (lsp_run ((pre @ EvRequest m p t wr # post) @ later)) t = Some r)"
proof -
  let ?es = "pre @ EvRequest m p t wr # post"
  have dm: "distinct (concat (map lsp_asks (?es @ later)))"
    using assms(1) by (simp only: append_assoc append_Cons)
  then have d: "distinct (concat (map lsp_asks ?es))"
    by (simp only: map_append concat_append distinct_append)
  note taken = taken_ticket [OF assms(2), of t m p wr post]
  show ?thesis
    using lmux.waits_or_answered [OF d taken] lmux.closed_answered [OF d taken] lmux.reply_final [OF dm]
    by (simp add: lsp_view_def ran_def)
qed

theorem lsp_request_outcome_witness:
  "la_replies (lsp_run ([] @ EvRequest ''hover'' None 0 None # [EvInbound InEof])) 0 \<noteq> None"
proof -
  have a: "la_alive (lsp_run [])" by (simp add: lsp_start_def)
  have dead: "\<not> la_alive (lsp_run ([] @ EvRequest ''hover'' None 0 None # [EvInbound InEof]))"
    by (simp add: lsp_step_def lsp_start_def lsp_close_def Let_def)
  show ?thesis
    using lsp_request_outcome [of "[]" "''hover''" None 0 None "[EvInbound InEof]" "[]"] a dead by simp
qed

text \<open>No caller gets the reply of another. A result handed to a caller is the result of a
  response the server sent under the very id this caller's request was written with, and that
  id was written for no other caller.\<close>

theorem lsp_replies_paired:
  assumes "distinct (concat (map lsp_asks es))" and "la_replies (lsp_run es) t = Some (Inr v)"
  shows "\<exists>i m p. (Some t, Request i m p) \<in> set (la_written (lsp_run es)) \<and>
    EvInbound (InMessage (Response i v)) \<in> set es \<and>
    (\<forall>u m' p'. (Some u, Request i m' p') \<in> set (la_written (lsp_run es)) \<longrightarrow> u = t)"
proof -
  have "reply_origin (lsp_trace es) t (Inr v)"
    using lmux.reply_from [OF assms(1), of t "Inr v"] assms(2) by (simp add: lsp_view_def)
  then obtain i where i: "MIssue i t \<in> set (lsp_trace es)" "MAnswer i (Inr v) \<in> set (lsp_trace es)"
    using trace_error(1) [of t v es] trace_error(2) [of v es] by (auto simp: reply_origin_def)
  have "EvInbound (InMessage (Response i v)) \<in> set es" using trace_answer [OF i(2)] by auto
  moreover have "u = t" if "(Some u, Request i m' p') \<in> set (la_written (lsp_run es))" for u m' p'
    using lmux.id_of_one_ticket [OF assms(1)] trace_issue i(1) that by blast
  ultimately show ?thesis using trace_issue i(1) by blast
qed

definition two_callers :: "LspEvent list" where
  "two_callers = [EvRequest ''a'' None 0 None, EvRequest ''b'' None 1 None,
     EvInbound (InMessage (Response 2 (JStr ''for b''))), EvInbound (InMessage (Response 1 (JStr ''for a'')))]"

theorem lsp_replies_paired_witness:
  "\<exists>i m p. (Some 0, Request i m p) \<in> set (la_written (lsp_run two_callers)) \<and>
    EvInbound (InMessage (Response i (JStr ''for a''))) \<in> set two_callers \<and>
    (\<forall>u m' p'. (Some u, Request i m' p') \<in> set (la_written (lsp_run two_callers)) \<longrightarrow> u = 0)"
  by (rule lsp_replies_paired)
    (simp_all add: two_callers_def lsp_step_def lsp_start_def Let_def resolve_pending_def send_reply_def)

section \<open>Open documents\<close>

text \<open>
  \<open>open_docs\<close>: the version and text last announced of each document. \<open>ensure_document\<close> decides
  under the lock and then sends at most one notification. (A version is an \<open>i32\<close> in the code;
  it would take two billion edits of one document to leave its range.)
\<close>

type_synonym OpenDocs = "string \<Rightarrow> (int \<times> string) option"

datatype DocNote =
    DidOpen (dn_uri: string) string (dn_text: string)
  | DidChange (dn_uri: string) int (dn_text: string)

fun dn_version :: "DocNote \<Rightarrow> int" where
  "dn_version (DidOpen u l t) = 1"
| "dn_version (DidChange u v t) = v"

fun dn_is_open :: "DocNote \<Rightarrow> bool" where
  "dn_is_open (DidOpen u l t) = True"
| "dn_is_open (DidChange u v t) = False"

fun doc_message :: "DocNote \<Rightarrow> Message" where
  "doc_message (DidOpen u l t) = Notification ''textDocument/didOpen''
     (Some (JObj [(''textDocument'', JObj [(''languageId'', JStr l), (''text'', JStr t),
        (''uri'', JStr u), (''version'', JInt 1)])]))"
| "doc_message (DidChange u v t) = Notification ''textDocument/didChange''
     (Some (JObj [(''contentChanges'', JArr [JObj [(''text'', JStr t)]]),
        (''textDocument'', JObj [(''uri'', JStr u), (''version'', JInt v)])]))"

definition ensure_document :: "OpenDocs \<Rightarrow> string \<Rightarrow> string \<Rightarrow> string \<Rightarrow> OpenDocs \<times> DocNote option" where
  "ensure_document docs u l t =
     (case docs u of
        Some (version, existing) \<Rightarrow>
          if existing = t then (docs, None)
          else (docs(u \<mapsto> (version + 1, t)), Some (DidChange u (version + 1) t))
      | None \<Rightarrow> (docs(u \<mapsto> (1, t)), Some (DidOpen u l t)))"

text \<open>Calls made one after the other, each sending before the next decides.\<close>

fun ensure_all :: "(string \<times> string \<times> string) list \<Rightarrow> OpenDocs \<Rightarrow> OpenDocs \<times> DocNote list" where
  "ensure_all [] docs = (docs, [])"
| "ensure_all ((u, l, t) # cs) docs =
     (case ensure_document docs u l t of
        (docs', n) \<Rightarrow> (case ensure_all cs docs' of
          (docs2, ns) \<Rightarrow> (docs2, (case n of None \<Rightarrow> ns | Some m \<Rightarrow> m # ns))))"

definition notes_of :: "string \<Rightarrow> DocNote list \<Rightarrow> DocNote list" where
  "notes_of u ns = filter (\<lambda>n. dn_uri n = u) ns"

definition doc_history :: "string \<Rightarrow> OpenDocs \<Rightarrow> DocNote list \<Rightarrow> OpenDocs \<Rightarrow> bool" where
  "doc_history u docs ns docs' \<longleftrightarrow>
     (let v0 = (case docs u of None \<Rightarrow> 0 | Some (v, t) \<Rightarrow> v) in
      map dn_version (notes_of u ns) = map (\<lambda>k. v0 + int k + 1) [0..<length (notes_of u ns)] \<and>
      (\<forall>k < length (notes_of u ns). dn_is_open (notes_of u ns ! k) \<longleftrightarrow> k = 0 \<and> docs u = None) \<and>
      docs' u = (if notes_of u ns = [] then docs u
                 else Some (v0 + int (length (notes_of u ns)), dn_text (last (notes_of u ns)))))"

lemma doc_history_skip: "notes_of u ns = [] \<Longrightarrow> docs' u = docs u \<Longrightarrow> doc_history u docs ns docs'"
  by (simp add: doc_history_def)

lemma doc_history_step:
  assumes "doc_history u docs' ns docs2" and "dn_uri n = u"
    and "docs' u = Some (dn_version n, dn_text n)"
    and "dn_version n = (case docs u of None \<Rightarrow> 0 | Some (v, t) \<Rightarrow> v) + 1"
    and "dn_is_open n \<longleftrightarrow> docs u = None"
  shows "doc_history u docs (n # ns) docs2"
proof -
  have nn: "notes_of u (n # ns) = n # notes_of u ns" using assms(2) by (simp add: notes_of_def)
  show ?thesis
    using assms(1,3-5) unfolding doc_history_def nn Let_def
    by (auto simp: nth_Cons upt_conv_Cons map_Suc_upt [symmetric] o_def split: nat.splits if_splits
        simp del: upt_Suc)
qed

lemma ensure_all_history: "ensure_all cs docs = (docs', ns) \<Longrightarrow> doc_history u docs ns docs'"
proof (induction cs arbitrary: docs docs' ns)
  case Nil
  then show ?case by (simp add: doc_history_skip notes_of_def)
next
  case (Cons c cs)
  obtain w l t where c: "c = (w, l, t)" by (cases c)
  obtain d1 n where en: "ensure_document docs w l t = (d1, n)" by force
  obtain d2 ms where rest: "ensure_all cs d1 = (d2, ms)" by force
  have res: "docs' = d2" "ns = (case n of None \<Rightarrow> ms | Some m \<Rightarrow> m # ms)"
    using Cons.prems c en rest by auto
  have IH: "doc_history u d1 ms d2" by (rule Cons.IH [OF rest])
  show ?case
  proof (cases n)
    case None
    with en have "d1 = docs" by (auto simp: ensure_document_def split: option.splits if_splits)
    with IH res None show ?thesis by simp
  next
    case (Some m)
    have m: "dn_uri m = w" "d1 = docs(w \<mapsto> (dn_version m, dn_text m))"
      "dn_version m = (case docs w of None \<Rightarrow> 0 | Some (v, t) \<Rightarrow> v) + 1" "dn_is_open m \<longleftrightarrow> docs w = None"
      using en Some by (auto simp: ensure_document_def split: option.splits if_splits)
    show ?thesis
    proof (cases "w = u")
      case True
      then show ?thesis using doc_history_step [OF IH, of m docs] m res Some by simp
    next
      case False
      then have "notes_of u ns = notes_of u ms" "d1 u = docs u" using res Some m by (simp_all add: notes_of_def)
      then show ?thesis using IH res(1) by (simp only: doc_history_def)
    qed
  qed
qed

lemma ensure_all_text:
  "ensure_all cs docs = (docs', ns) \<Longrightarrow> filter (\<lambda>c. fst c = u) cs \<noteq> [] \<Longrightarrow>
     \<exists>v. docs' u = Some (v, snd (snd (last (filter (\<lambda>c. fst c = u) cs))))"
proof (induction cs arbitrary: docs docs' ns)
  case Nil
  then show ?case by simp
next
  case (Cons c cs)
  obtain w l t where c: "c = (w, l, t)" by (cases c)
  obtain d1 n where en: "ensure_document docs w l t = (d1, n)" by force
  obtain d2 ms where rest: "ensure_all cs d1 = (d2, ms)" by force
  have res: "docs' = d2" using Cons.prems c en rest by auto
  show ?case
  proof (cases "filter (\<lambda>c. fst c = u) cs = []")
    case True
    with Cons.prems(2) c have w: "w = u" by (auto split: if_splits)
    have "\<exists>v. d1 u = Some (v, t)"
      using en w by (auto simp: ensure_document_def split: option.splits if_splits)
    moreover have "d2 u = d1 u"
    proof -
      have "notes_of u ms = []" using rest True
      proof (induction cs arbitrary: d1 d2 ms)
        case Nil
        then show ?case by (simp add: notes_of_def)
      next
        case (Cons e es)
        obtain w' l' t' where e: "e = (w', l', t')" by (cases e)
        obtain d3 n' where en': "ensure_document d1 w' l' t' = (d3, n')" by force
        obtain d4 ms' where r': "ensure_all es d3 = (d4, ms')" by force
        have "notes_of u ms' = []" using Cons.IH [OF r'] Cons.prems(2) e by (auto split: if_splits)
        moreover have "\<forall>m. n' = Some m \<longrightarrow> dn_uri m \<noteq> u"
          using en' Cons.prems(2) e by (auto simp: ensure_document_def split: option.splits if_splits)
        ultimately show ?case using Cons.prems(1) e en' r' by (auto simp: notes_of_def split: option.splits)
      qed
      then show ?thesis using ensure_all_history [OF rest, of u] by (simp add: doc_history_def)
    qed
    ultimately show ?thesis using True w c res by simp
  next
    case False
    with Cons.IH [OF rest] c res show ?thesis by simp
  qed
qed

text \<open>what a server learns of a document. If the calls for a client are made one after the
  other, the notifications of each document are one \<open>didOpen\<close> with version 1 followed by
  \<open>didChange\<close>s with versions 2, 3, ... in order, and the text announced last is the text of
  the last call.\<close>

theorem document_versions:
  assumes "ensure_all calls Map.empty = (docs, sent)" and "filter (\<lambda>c. fst c = u) calls \<noteq> []"
  shows "notes_of u sent \<noteq> [] \<and>
    map dn_version (notes_of u sent) = map (\<lambda>k. int k + 1) [0..<length (notes_of u sent)] \<and>
    (\<forall>k < length (notes_of u sent). dn_is_open (notes_of u sent ! k) \<longleftrightarrow> k = 0) \<and>
    dn_text (last (notes_of u sent)) = snd (snd (last (filter (\<lambda>c. fst c = u) calls)))"
  using ensure_all_history [OF assms(1), of u] ensure_all_text [OF assms]
  by (auto simp: doc_history_def split: if_splits)

theorem document_versions_witness:
  "map dn_version (notes_of ''u'' (snd (ensure_all [(''u'', ''go'', ''a''), (''v'', ''go'', ''x''),
     (''u'', ''go'', ''a''), (''u'', ''go'', ''b'')] Map.empty))) = [1, 2]"
proof -
  let ?cs = "[(''u'', ''go'', ''a''), (''v'', ''go'', ''x''), (''u'', ''go'', ''a''), (''u'', ''go'', ''b'')]"
  obtain d ns where ns: "ensure_all ?cs Map.empty = (d, ns)" by force
  have two: "length (notes_of ''u'' ns) = 2" using ns by (auto simp: ensure_document_def notes_of_def)
  show ?thesis using document_versions [OF ns, of "''u''"] ns two by (simp add: upt_rec)
qed

section \<open>Open documents and concurrency\<close>

text \<open>
  The lock covers the decision, not the sending. With several tasks on clones of one client a
  task may be overtaken between the two: \<open>Decide c u l t\<close> is task \<open>c\<close> leaving the lock,
  \<open>SendNote c\<close> its message entering the channel.
\<close>

datatype DocStep = Decide nat string string string | SendNote nat

record DocWorld =
  dw_docs :: OpenDocs
  dw_held :: "nat \<Rightarrow> DocNote option"
  dw_wire :: "DocNote list"

fun doc_step :: "DocStep \<Rightarrow> DocWorld \<Rightarrow> DocWorld" where
  "doc_step (Decide c u l t) w =
     (case ensure_document (dw_docs w) u l t of
        (docs, n) \<Rightarrow> w\<lparr>dw_docs := docs, dw_held := (dw_held w)(c := n)\<rparr>)"
| "doc_step (SendNote c) w =
     (case dw_held w c of
        None \<Rightarrow> w
      | Some n \<Rightarrow> w\<lparr>dw_held := (dw_held w)(c := None), dw_wire := dw_wire w @ [n]\<rparr>)"

definition doc_world :: DocWorld where
  "doc_world = \<lparr>dw_docs = Map.empty, dw_held = Map.empty, dw_wire = []\<rparr>"

text \<open>The decisions alone are as in a sequential run, whatever the sends in between.\<close>

fun decided :: "DocStep list \<Rightarrow> (string \<times> string \<times> string) list" where
  "decided [] = []"
| "decided (Decide c u l t # ss) = (u, l, t) # decided ss"
| "decided (SendNote c # ss) = decided ss"

lemma doc_run_docs: "dw_docs (run_events doc_step ss w) = fst (ensure_all (decided ss) (dw_docs w))"
proof (induction ss arbitrary: w)
  case Nil
  then show ?case by simp
next
  case (Cons s ss)
  then show ?case by (cases s) (auto split: prod.splits option.splits)
qed

text \<open>two tasks that announce different texts of one unopened document can leave the server
  with the older one. There is an interleaving in which the server is told of version 2 before
  the document is opened with version 1; the table then records the second text at version 2,
  while the last text the server was given is the first.\<close>

theorem document_race:
  assumes "t \<noteq> t'"
  shows "\<exists>ss. decided ss = [(u, l, t), (u, l, t')] \<and>
    dw_wire (run_events doc_step ss doc_world) = [DidChange u 2 t', DidOpen u l t] \<and>
    dw_docs (run_events doc_step ss doc_world) u = Some (2, t')"
  by (rule exI [of _ "[Decide 0 u l t, Decide 1 u l t', SendNote 1, SendNote 0]"])
    (use assms in \<open>simp add: doc_world_def ensure_document_def\<close>)

theorem document_race_witness:
  "\<exists>ss. decided ss = [(''u'', ''go'', ''old''), (''u'', ''go'', ''new'')] \<and>
    dw_wire (run_events doc_step ss doc_world) = [DidChange ''u'' 2 ''new'', DidOpen ''u'' ''go'' ''old''] \<and>
    dw_docs (run_events doc_step ss doc_world) ''u'' = Some (2, ''new'')"
  by (rule document_race) simp

end
