(* ===== verification/Lsp_Query.thy ===== *)
theory Lsp_Query
  imports Symbols Lsp_Wire
begin

text \<open>
  The query-time surface of a language server (\<open>src/query/lsp_query.rs\<close>) and the symbol fetcher
  of the indexer (\<open>src/indexer/fetch.rs\<close>): the answer types, the decoders that even out the
  dialects of the servers, the client interface as a record of its eight calls, and the client
  over raw JSON-RPC requests that implements it.
\<close>

section \<open>Decoding ranges and locations\<close>

definition decode_position :: "Json \<Rightarrow> LspPosition option" where
  "decode_position j =
     (case (req_field as_u32 ''line'' j, req_field as_u32 ''character'' j) of
        (Some l, Some c) \<Rightarrow> Some \<lparr>lp_line = l, lp_character = c\<rparr>
      | _ \<Rightarrow> None)"

definition decode_range :: "Json \<Rightarrow> LspRange option" where
  "decode_range j =
     (case (req_field decode_position ''start'' j, req_field decode_position ''end'' j) of
        (Some s, Some e) \<Rightarrow> Some \<lparr>lr_start = s, lr_end = e\<rparr>
      | _ \<Rightarrow> None)"

definition decode_vec :: "(Json \<Rightarrow> 'a option) \<Rightarrow> Json \<Rightarrow> 'a list option" where
  "decode_vec dec j = Option.bind (as_array j) (decode_all dec)"

record Location =
  lo_uri :: string
  lo_range :: LspRange

definition decode_location :: "Json \<Rightarrow> Location option" where
  "decode_location j =
     (case (req_field as_str ''uri'' j, req_field decode_range ''range'' j) of
        (Some u, Some r) \<Rightarrow> Some \<lparr>lo_uri = u, lo_range = r\<rparr>
      | _ \<Rightarrow> None)"

record LocationLink =
  ll_target_uri :: string
  ll_target_range :: LspRange
  ll_target_selection_range :: "LspRange option"

definition decode_link :: "Json \<Rightarrow> LocationLink option" where
  "decode_link j =
     (case (req_field as_str ''targetUri'' j, req_field decode_range ''targetRange'' j,
            opt_field decode_range ''targetSelectionRange'' j) of
        (Some u, Some r, Some s) \<Rightarrow>
          Some \<lparr>ll_target_uri = u, ll_target_range = r, ll_target_selection_range = s\<rparr>
      | _ \<Rightarrow> None)"

text \<open>
  Why a query failed: its deadline passed (the \<open>QueryTimedOut\<close> marker, with the operation), or
  anything else, with the message it prints.
\<close>

datatype QueryError = QueryTimedOut string | QueryFailed string

definition is_timeout :: "QueryError \<Rightarrow> bool" where
  "is_timeout e = (case e of QueryTimedOut op \<Rightarrow> True | QueryFailed m \<Rightarrow> False)"

definition decoded :: "'a option \<Rightarrow> QueryError + 'a" where
  "decoded x = (case x of Some y \<Rightarrow> Inr y | None \<Rightarrow> Inl (QueryFailed ''invalid response''))"

text \<open>\<open>LocationLink[]\<close> or \<open>Location[]\<close>, told apart by the first element.\<close>

definition is_link_array :: "Json \<Rightarrow> bool" where
  "is_link_array raw =
     (case as_array raw of
        Some (f # _) \<Rightarrow> json_get ''targetUri'' f \<noteq> None
      | _ \<Rightarrow> False)"

definition link_location :: "LocationLink \<Rightarrow> Location" where
  "link_location l = \<lparr>lo_uri = ll_target_uri l,
     lo_range = (case ll_target_selection_range l of Some r \<Rightarrow> r | None \<Rightarrow> ll_target_range l)\<rparr>"

definition parse_locations :: "Json \<Rightarrow> QueryError + Location list" where
  "parse_locations raw =
     (if raw = JNull then Inr []
      else if is_link_array raw then decoded (map_option (map link_location) (decode_vec decode_link raw))
      else decoded (decode_vec decode_location raw))"

section \<open>Hover\<close>

record Hover =
  ho_value :: string

definition blank_line :: string where
  "blank_line = [lf, lf]"

fun markup_text :: "Json \<Rightarrow> string" where
  "markup_text (JStr s) = s"
| "markup_text (JArr a) = join_with blank_line (filter (\<lambda>s. s \<noteq> []) (map markup_text a))"
| "markup_text (JObj o') =
     (case Option.bind (map_of o' ''value'') as_str of Some s \<Rightarrow> s | None \<Rightarrow> [])"
| "markup_text _ = []"

definition parse_hover :: "Json \<Rightarrow> QueryError + Hover option" where
  "parse_hover raw =
     (if raw = JNull then Inr None
      else Inr (Some \<lparr>ho_value =
        markup_text (case json_get ''contents'' raw of Some c \<Rightarrow> c | None \<Rightarrow> JNull)\<rparr>))"

section \<open>Call hierarchy\<close>

record CallHierarchyItem =
  ci_name :: string
  ci_kind :: u32
  ci_uri :: string
  ci_range :: LspRange
  ci_selection_range :: LspRange
  ci_raw :: Json

definition decode_item :: "Json \<Rightarrow> CallHierarchyItem option" where
  "decode_item v =
     (case (req_field as_str ''name'' v, req_field as_u32 ''kind'' v, req_field as_str ''uri'' v,
            req_field decode_range ''range'' v, req_field decode_range ''selectionRange'' v) of
        (Some n, Some k, Some u, Some r, Some s) \<Rightarrow>
          Some \<lparr>ci_name = n, ci_kind = k, ci_uri = u, ci_range = r, ci_selection_range = s, ci_raw = v\<rparr>
      | _ \<Rightarrow> None)"

definition item_key :: "CallHierarchyItem \<Rightarrow> string \<times> u32 \<times> u32" where
  "item_key i = (ci_uri i, lp_line (lr_start (ci_selection_range i)),
     lp_character (lr_start (ci_selection_range i)))"

record IncomingCall =
  ic_from :: CallHierarchyItem
  ic_from_ranges :: "LspRange list"

record OutgoingCall =
  oc_to :: CallHierarchyItem
  oc_from_ranges :: "LspRange list"

text \<open>A call row: the item under \<open>key\<close>, and the ranges, which may be absent.\<close>

definition decode_call :: "string \<Rightarrow> Json \<Rightarrow> (CallHierarchyItem \<times> LspRange list) option" where
  "decode_call key j =
     (case (req_field decode_item key j,
            (case json_get ''fromRanges'' j of None \<Rightarrow> Some [] | Some v \<Rightarrow> decode_vec decode_range v)) of
        (Some i, Some rs) \<Rightarrow> Some (i, rs)
      | _ \<Rightarrow> None)"

definition parse_items :: "Json \<Rightarrow> QueryError + CallHierarchyItem list" where
  "parse_items raw =
     (if raw = JNull then Inr []
      else (case as_array raw of
          None \<Rightarrow> Inl (QueryFailed ''prepareCallHierarchy: expected array'')
        | Some xs \<Rightarrow> decoded (decode_all decode_item xs)))"

definition parse_incoming :: "Json \<Rightarrow> QueryError + IncomingCall list" where
  "parse_incoming raw =
     (if raw = JNull then Inr []
      else decoded (map_option (map (\<lambda>(i, rs). \<lparr>ic_from = i, ic_from_ranges = rs\<rparr>))
        (decode_vec (decode_call ''from'') raw)))"

definition parse_outgoing :: "Json \<Rightarrow> QueryError + OutgoingCall list" where
  "parse_outgoing raw =
     (if raw = JNull then Inr []
      else decoded (map_option (map (\<lambda>(i, rs). \<lparr>oc_to = i, oc_from_ranges = rs\<rparr>))
        (decode_vec (decode_call ''to'') raw)))"

section \<open>The client interface\<close>

text \<open>
  What a query asks of the world outside the database, in the order asked: the eight calls of
  the trait \<open>LspQueryClient\<close>, and reading or canonicalizing a path. Servers have state and files
  change, so an answer may depend on everything asked before.
\<close>

datatype Ask =
    AskOpen string string
  | AskDefinition string u32 u32
  | AskReferences string u32 u32 bool
  | AskImplementation string u32 u32
  | AskPrepare string u32 u32
  | AskIncoming CallHierarchyItem
  | AskOutgoing CallHierarchyItem
  | AskHover string u32 u32
  | AskRead string
  | AskCanon string

type_synonym 'a answer = "Ask list \<Rightarrow> QueryError + 'a"

record LspQueryClient =
  qc_open :: "string \<Rightarrow> string \<Rightarrow> unit answer"
  qc_definition :: "string \<Rightarrow> u32 \<Rightarrow> u32 \<Rightarrow> Location list answer"
  qc_references :: "string \<Rightarrow> u32 \<Rightarrow> u32 \<Rightarrow> bool \<Rightarrow> Location list answer"
  qc_implementation :: "string \<Rightarrow> u32 \<Rightarrow> u32 \<Rightarrow> Location list answer"
  qc_prepare :: "string \<Rightarrow> u32 \<Rightarrow> u32 \<Rightarrow> CallHierarchyItem list answer"
  qc_incoming :: "CallHierarchyItem \<Rightarrow> IncomingCall list answer"
  qc_outgoing :: "CallHierarchyItem \<Rightarrow> OutgoingCall list answer"
  qc_hover :: "string \<Rightarrow> u32 \<Rightarrow> u32 \<Rightarrow> Hover option answer"

section \<open>The client over a live connection\<close>

text \<open>
  What \<open>client.request\<close> under a deadline yields: a result, an error message, or the deadline.
\<close>

datatype Outcome = Answered Json | RequestError string | DeadlinePassed

record Connection =
  cn_request :: "Ask list \<Rightarrow> string \<Rightarrow> Json \<Rightarrow> Outcome"
  cn_ensure_document :: "Ask list \<Rightarrow> string \<Rightarrow> string \<Rightarrow> string \<Rightarrow> string + unit"

definition timed :: "string \<Rightarrow> Outcome \<Rightarrow> QueryError + Json" where
  "timed op x = (case x of
      Answered v \<Rightarrow> Inr v
    | RequestError m \<Rightarrow> Inl (QueryFailed m)
    | DeadlinePassed \<Rightarrow> Inl (QueryTimedOut op))"

definition position_value :: "u32 \<Rightarrow> u32 \<Rightarrow> Json" where
  "position_value line character = JObj [(''character'', JInt (uint character)), (''line'', JInt (uint line))]"

definition pos_params :: "string \<Rightarrow> u32 \<Rightarrow> u32 \<Rightarrow> Json" where
  "pos_params u line character = JObj [(''position'', position_value line character),
     (''textDocument'', JObj [(''uri'', JStr u)])]"

definition references_params :: "string \<Rightarrow> u32 \<Rightarrow> u32 \<Rightarrow> bool \<Rightarrow> Json" where
  "references_params u line character include_declaration =
     JObj [(''context'', JObj [(''includeDeclaration'', JBool include_declaration)]),
       (''position'', position_value line character), (''textDocument'', JObj [(''uri'', JStr u)])]"

definition item_params :: "CallHierarchyItem \<Rightarrow> Json" where
  "item_params i = JObj [(''item'', ci_raw i)]"

definition ask_json :: "Connection \<Rightarrow> Ask list \<Rightarrow> string \<Rightarrow> string \<Rightarrow> Json \<Rightarrow> (Json \<Rightarrow> QueryError + 'a) \<Rightarrow> QueryError + 'a" where
  "ask_json cn h meth op params parse = bindR (timed op (cn_request cn h meth params)) parse"

definition parse_references :: "Json \<Rightarrow> QueryError + Location list" where
  "parse_references raw = (if raw = JNull then Inr [] else decoded (decode_vec decode_location raw))"

definition client_lsp_query_client :: "Connection \<Rightarrow> string \<Rightarrow> LspQueryClient" where
  "client_lsp_query_client cn language_id = \<lparr>
     qc_open = (\<lambda>u text h. case cn_ensure_document cn h u language_id text of
        Inr x \<Rightarrow> Inr x | Inl e \<Rightarrow> Inl (QueryFailed (''didOpen/didChange failed: '' @ e))),
     qc_definition = (\<lambda>u l c h.
        ask_json cn h ''textDocument/definition'' ''definition'' (pos_params u l c) parse_locations),
     qc_references = (\<lambda>u l c d h.
        ask_json cn h ''textDocument/references'' ''references'' (references_params u l c d) parse_references),
     qc_implementation = (\<lambda>u l c h.
        ask_json cn h ''textDocument/implementation'' ''implementation'' (pos_params u l c) parse_locations),
     qc_prepare = (\<lambda>u l c h.
        ask_json cn h ''textDocument/prepareCallHierarchy'' ''prepareCallHierarchy'' (pos_params u l c) parse_items),
     qc_incoming = (\<lambda>i h.
        ask_json cn h ''callHierarchy/incomingCalls'' ''incomingCalls'' (item_params i) parse_incoming),
     qc_outgoing = (\<lambda>i h.
        ask_json cn h ''callHierarchy/outgoingCalls'' ''outgoingCalls'' (item_params i) parse_outgoing),
     qc_hover = (\<lambda>u l c h.
        ask_json cn h ''textDocument/hover'' ''hover'' (pos_params u l c) parse_hover)\<rparr>"

section \<open>What the decoders guarantee\<close>

definition range_value :: "LspRange \<Rightarrow> Json" where
  "range_value r = JObj [(''end'', position_value (lp_line (lr_end r)) (lp_character (lr_end r))),
     (''start'', position_value (lp_line (lr_start r)) (lp_character (lr_start r)))]"

definition location_value :: "Location \<Rightarrow> Json" where
  "location_value l = JObj [(''range'', range_value (lo_range l)), (''uri'', JStr (lo_uri l))]"

definition link_value :: "LocationLink \<Rightarrow> Json" where
  "link_value l = JObj ([(''targetRange'', range_value (ll_target_range l))] @
     opt_entry ''targetSelectionRange'' (map_option range_value (ll_target_selection_range l)) @
     [(''targetUri'', JStr (ll_target_uri l))])"

lemma uint_le_u32_max [simp]: "uint (w :: u32) \<le> u32_max"
  using i64_of_u32_le_max [of w] by (simp add: i64_of_u32_def)

lemma decode_position_value [simp]: "decode_position (position_value l c) = Some \<lparr>lp_line = l, lp_character = c\<rparr>"
  by (simp add: decode_position_def position_value_def req_field_def)

lemma decode_range_value [simp]: "decode_range (range_value r) = Some r"
  by (simp add: decode_range_def range_value_def req_field_def)

lemma range_value_not_null [simp]: "range_value r \<noteq> JNull"
  by (simp add: range_value_def)

lemma decode_location_value [simp]: "decode_location (location_value l) = Some l"
  by (simp add: decode_location_def location_value_def req_field_def)

lemma opt_field_present: "json_get k j = Some v \<Longrightarrow> v \<noteq> JNull \<Longrightarrow> opt_field dec k j = map_option Some (dec v)"
  by (cases v) (simp_all add: opt_field_def)

lemma decode_link_value [simp]: "decode_link (link_value l) = Some l"
  by (cases "ll_target_selection_range l")
    (simp_all add: decode_link_def link_value_def req_field_def opt_entry_def opt_field_present, simp add: opt_field_def)

text \<open>The two dialects of a definition answer mean the same locations. An array of
  \<open>Location\<close>s is read back as it is, an array of \<open>LocationLink\<close>s as the locations of its targets,
  where the identifier span is preferred to the full range, and \<open>null\<close> as no location.\<close>

theorem parse_locations_dialects:
  "parse_locations (JArr (map location_value ls)) = Inr ls \<and>
   parse_locations (JArr (map link_value ks)) =
     Inr (map (\<lambda>k. \<lparr>lo_uri = ll_target_uri k,
        lo_range = (case ll_target_selection_range k of Some r \<Rightarrow> r | None \<Rightarrow> ll_target_range k)\<rparr>) ks) \<and>
   parse_locations JNull = Inr []"
proof (intro conjI)
  have "\<not> is_link_array (JArr (map location_value ls))"
    by (cases ls) (simp_all add: is_link_array_def location_value_def)
  then show "parse_locations (JArr (map location_value ls)) = Inr ls"
    by (simp add: parse_locations_def decoded_def decode_vec_def)
  have "is_link_array (JArr (map link_value ks)) \<or> ks = []"
    by (cases ks) (simp_all add: is_link_array_def link_value_def opt_entry_def split: option.splits)
  then show "parse_locations (JArr (map link_value ks)) =
     Inr (map (\<lambda>k. \<lparr>lo_uri = ll_target_uri k,
        lo_range = (case ll_target_selection_range k of Some r \<Rightarrow> r | None \<Rightarrow> ll_target_range k)\<rparr>) ks)"
    by (auto simp: parse_locations_def decoded_def decode_vec_def link_location_def is_link_array_def)
  show "parse_locations JNull = Inr []" by (simp add: parse_locations_def)
qed

lemma decode_item_raw: "decode_item j = Some i \<Longrightarrow> ci_raw i = j"
  by (auto simp: decode_item_def split: option.splits)

text \<open>The opaque part of a call hierarchy item survives. Every item of a
  \<open>prepareCallHierarchy\<close> answer keeps the JSON it was sent as, so the follow-up request hands
  the server its own value back, fields unknown to the client included.\<close>

theorem call_hierarchy_echo:
  assumes "parse_items (JArr js) = Inr items"
  shows "map item_params items = map (\<lambda>j. JObj [(''item'', j)]) js"
proof -
  from assms have "map decode_item js = map Some items"
    by (auto simp: parse_items_def decoded_def decode_all_Some split: option.splits)
  then have "map ci_raw items = js"
  proof (induction js arbitrary: items)
    case Nil
    then show ?case by simp
  next
    case (Cons j js)
    then obtain i "is" where "items = i # is" "decode_item j = Some i" "map decode_item js = map Some is"
      by (cases items) auto
    with Cons.IH show ?case by (simp add: decode_item_raw)
  qed
  then show ?thesis by (auto simp: item_params_def)
qed

definition sample_item :: Json where
  "sample_item = JObj [(''data'', JInt 42), (''kind'', JInt 12), (''name'', JStr ''f''),
     (''range'', range_value (line_lsp 3)), (''selectionRange'', range_value (line_lsp 3)),
     (''uri'', JStr ''u'')]"

theorem call_hierarchy_echo_witness:
  "\<exists>items. parse_items (JArr [sample_item]) = Inr items \<and> length items = 1 \<and>
     map item_params items = [JObj [(''item'', sample_item)]]"
proof -
  have "\<exists>i. decode_item sample_item = Some i"
    by (simp add: sample_item_def decode_item_def req_field_def u32_max_def)
  then obtain i where "parse_items (JArr [sample_item]) = Inr [i]"
    by (auto simp: parse_items_def decoded_def)
  with call_hierarchy_echo [OF this] show ?thesis by auto
qed

lemma decoded_no_timeout [simp]: "decoded x \<noteq> Inl (QueryTimedOut op)"
  by (cases x) (simp_all add: decoded_def)

lemma parse_no_timeout [simp]:
  "parse_locations j \<noteq> Inl (QueryTimedOut op)" "parse_references j \<noteq> Inl (QueryTimedOut op)"
  "parse_items j \<noteq> Inl (QueryTimedOut op)" "parse_incoming j \<noteq> Inl (QueryTimedOut op)"
  "parse_outgoing j \<noteq> Inl (QueryTimedOut op)" "parse_hover j \<noteq> Inl (QueryTimedOut op)"
  by (auto simp: parse_locations_def parse_references_def parse_items_def parse_incoming_def
      parse_outgoing_def parse_hover_def split: option.splits)

definition answer_timed_out :: "QueryError + 'a \<Rightarrow> bool" where
  "answer_timed_out r = (case r of Inl e \<Rightarrow> is_timeout e | Inr x \<Rightarrow> False)"

lemma ask_json_timeout:
  assumes "\<And>j op. parse j \<noteq> Inl (QueryTimedOut op)"
  shows "answer_timed_out (ask_json cn h meth op params parse) \<longleftrightarrow> cn_request cn h meth params = DeadlinePassed"
proof (cases "cn_request cn h meth params")
  case (Answered v)
  then show ?thesis using assms [of v]
    by (auto simp: ask_json_def timed_def answer_timed_out_def is_timeout_def split: sum.splits QueryError.splits)
qed (simp_all add: ask_json_def timed_def answer_timed_out_def is_timeout_def)

text \<open>A timeout is reported exactly when the deadline of the request passed. Neither a server
  error nor an answer of an unexpected shape is mistaken for one, for any of the seven
  requests.\<close>

theorem timeout_iff_deadline:
  "(let c = client_lsp_query_client cn lang in
    (answer_timed_out (qc_definition c u l k h) \<longleftrightarrow>
       cn_request cn h ''textDocument/definition'' (pos_params u l k) = DeadlinePassed) \<and>
    (answer_timed_out (qc_references c u l k d h) \<longleftrightarrow>
       cn_request cn h ''textDocument/references'' (references_params u l k d) = DeadlinePassed) \<and>
    (answer_timed_out (qc_implementation c u l k h) \<longleftrightarrow>
       cn_request cn h ''textDocument/implementation'' (pos_params u l k) = DeadlinePassed) \<and>
    (answer_timed_out (qc_prepare c u l k h) \<longleftrightarrow>
       cn_request cn h ''textDocument/prepareCallHierarchy'' (pos_params u l k) = DeadlinePassed) \<and>
    (answer_timed_out (qc_incoming c i h) \<longleftrightarrow>
       cn_request cn h ''callHierarchy/incomingCalls'' (item_params i) = DeadlinePassed) \<and>
    (answer_timed_out (qc_outgoing c i h) \<longleftrightarrow>
       cn_request cn h ''callHierarchy/outgoingCalls'' (item_params i) = DeadlinePassed) \<and>
    (answer_timed_out (qc_hover c u l k h) \<longleftrightarrow>
       cn_request cn h ''textDocument/hover'' (pos_params u l k) = DeadlinePassed))"
  by (simp add: client_lsp_query_client_def ask_json_timeout)

section \<open>Document symbols\<close>

lemma decode_all_cong [fundef_cong]:
  "xs = ys \<Longrightarrow> (\<And>y. y \<in> set ys \<Longrightarrow> f y = g y) \<Longrightarrow> decode_all f xs = decode_all g ys"
  by (induction xs arbitrary: ys) (auto split: option.splits)

lemma json_get_size: "json_get k j = Some v \<Longrightarrow> size v < size j"
proof (cases j)
  case (JObj kvs)
  assume "json_get k j = Some v"
  with JObj have "(k, v) \<in> set kvs" by (simp add: map_of_SomeD)
  then have "size v < Suc (size_list (size_prod (\<lambda>_. 0) size) kvs)"
    by (induction kvs) auto
  with JObj show ?thesis by simp
qed auto

lemma json_arr_size: "x \<in> set xs \<Longrightarrow> size x < size (JArr xs)"
  by (induction xs) auto

function decode_symbol :: "Json \<Rightarrow> DocumentSymbol option" where
  "decode_symbol j =
     (let children = (case json_get ''children'' j of
            None \<Rightarrow> Some None
          | Some JNull \<Rightarrow> Some None
          | Some (JArr xs) \<Rightarrow> map_option Some (decode_all decode_symbol xs)
          | Some _ \<Rightarrow> None)
      in (case (req_field as_str ''name'' j, opt_field as_str ''detail'' j, req_field as_u32 ''kind'' j,
            opt_field (decode_vec as_u32) ''tags'' j, req_field decode_range ''range'' j,
            req_field decode_range ''selectionRange'' j, children) of
          (Some n, Some d, Some k, Some t, Some r, Some s, Some ch) \<Rightarrow>
            Some (DocumentSymbol n d k t r s ch)
        | _ \<Rightarrow> None))"
  by pat_completeness auto

termination
proof (relation "measure size")
  show "wf (measure (size :: Json \<Rightarrow> nat))" by simp
  fix j x2 xs z
  assume "json_get ''children'' j = Some x2" and "x2 = JArr xs" and "z \<in> set xs"
  then show "(z, j) \<in> measure size" using json_get_size json_arr_size by fastforce
qed

declare decode_symbol.simps [simp del]

text \<open>\<open>request_document_symbols\<close>, whose timeout and failures are plain error messages.\<close>

definition request_document_symbols :: "(string \<Rightarrow> Json \<Rightarrow> Outcome) \<Rightarrow> string \<Rightarrow> string + DocumentSymbol list" where
  "request_document_symbols request u =
     (case request ''textDocument/documentSymbol'' (JObj [(''textDocument'', JObj [(''uri'', JStr u)])]) of
        DeadlinePassed \<Rightarrow> Inl ''documentSymbol timed out''
      | RequestError m \<Rightarrow> Inl m
      | Answered raw \<Rightarrow>
          if raw = JNull then Inr []
          else (case decode_vec decode_symbol raw of
              Some ss \<Rightarrow> Inr ss
            | None \<Rightarrow> Inl ''invalid response''))"

text \<open>
  \<open>LspSymbolFetcher\<close>: the machine reads the file, a notification succeeds while the connection
  is open, and requests are answered.
\<close>

record FetchHost =
  fh_read :: "string \<Rightarrow> string + string"
  fh_notify :: "string \<Rightarrow> Json \<Rightarrow> string option"
  fh_request :: "string \<Rightarrow> Json \<Rightarrow> Outcome"

definition did_open_params :: "string \<Rightarrow> string \<Rightarrow> string \<Rightarrow> Json" where
  "did_open_params u language_id text =
     JObj [(''textDocument'', JObj [(''languageId'', JStr language_id), (''text'', JStr text),
       (''uri'', JStr u), (''version'', JInt 1)])]"

definition document_symbols :: "FetchHost \<Rightarrow> string \<Rightarrow> string \<Rightarrow> string + DocumentSymbol list" where
  "document_symbols fh language_id u =
     (case fh_read fh (uri_to_path u) of
        Inl e \<Rightarrow> Inl (''didOpen: cannot read '' @ uri_to_path u @ '': '' @ e)
      | Inr text \<Rightarrow>
          (case fh_notify fh ''textDocument/didOpen'' (did_open_params u language_id text) of
             Some e \<Rightarrow> Inl (''didOpen notify failed: '' @ e)
           | None \<Rightarrow> request_document_symbols (fh_request fh) u))"

end
