(* ===== verification/Pipeline.thy ===== *)
theory Pipeline
  imports Symbols
begin

text \<open>
  The index pipeline (\<open>src/indexer/pipeline.rs\<close>, \<open>src/indexer/discovery.rs\<close>): walk the
  workspace, fetch the symbols of each file of one language, write rows and \<open>contains\<close> edges.
  The walker is the \<open>ignore\<close> crate's and the fetcher a language server's; both are parameters.
\<close>

section \<open>Database calls as steps\<close>

text \<open>
  \<open>anyhow::Error\<close>, as far as a caller can tell: a failed database command, or a message.
\<close>

datatype AppError = DbFailed DbError | Failed string

text \<open>A call of the database handle: the actor runs the command and sends its one reply.\<close>

definition db_write :: "(Db \<Rightarrow> DbError + 'a \<times> Db) \<Rightarrow> (AppError, 'a, Db) qm" where
  "db_write f = (\<lambda>d. case f d of Inl e \<Rightarrow> (Inl (DbFailed e), d) | Inr (x, d') \<Rightarrow> (Inr x, d'))"

definition db_write_unit :: "(Db \<Rightarrow> DbError + Db) \<Rightarrow> (AppError, unit, Db) qm" where
  "db_write_unit f = (\<lambda>d. case f d of Inl e \<Rightarrow> (Inl (DbFailed e), d) | Inr d' \<Rightarrow> (Inr (), d'))"

definition db_update :: "(Db \<Rightarrow> Db) \<Rightarrow> (AppError, unit, Db) qm" where
  "db_update f = (\<lambda>d. (Inr (), f d))"

definition db_read :: "(Db \<Rightarrow> 'a) \<Rightarrow> (AppError, 'a, Db) qm" where
  "db_read f = (\<lambda>d. (Inr (f d), d))"

lemma keeps_db_read [keeps]: "keepsQ P (db_read f)"
  by (simp add: keepsQ_def db_read_def)

lemma keepsQ_Pair [keeps]: "keepsQ P (Pair r)"
  by (simp add: keepsQ_def)

lemma keeps_db_update: "(\<And>d. P d \<Longrightarrow> P (f d)) \<Longrightarrow> keepsQ P (db_update f)"
  by (simp add: keepsQ_def db_update_def)

lemma keeps_db_write: "(\<And>d x d'. P d \<Longrightarrow> f d = Inr (x, d') \<Longrightarrow> P d') \<Longrightarrow> keepsQ P (db_write f)"
  by (auto simp: keepsQ_def db_write_def split: sum.splits prod.splits)

lemma keeps_db_write_unit: "(\<And>d d'. P d \<Longrightarrow> f d = Inr d' \<Longrightarrow> P d') \<Longrightarrow> keepsQ P (db_write_unit f)"
  by (auto simp: keepsQ_def db_write_unit_def split: sum.splits)

lemma keeps_wf [keeps]:
  "keepsQ wf_db (db_write (upsert_node n))" "keepsQ wf_db (db_write (upsert_edge e))"
  "keepsQ wf_db (db_write_unit (set_callees_cache_hash i h))"
  "keepsQ wf_db (db_write_unit (mark_materialized i t))"
  "keepsQ wf_db (db_update (update_node_construct i c))"
  "keepsQ wf_db (db_update (update_node_signature i c))"
  "keepsQ wf_db (db_update (update_node_signature_by_fqn s c))"
  "keepsQ wf_db (db_update (invalidate_outgoing_calls i))"
  "keepsQ wf_db (db_update (set_meta s c))"
  by (blast intro: keeps_db_write keeps_db_write_unit keeps_db_update wf_db_pres)+

section \<open>Discovery\<close>

text \<open>An entry the walker yields; its type is unknown for some.\<close>

record WalkEntry =
  we_path :: string
  we_is_file :: "bool option"

fun discover_files :: "Env \<Rightarrow> (string + WalkEntry) list \<Rightarrow> string + string list" where
  "discover_files env [] = Inr []"
| "discover_files env (Inl e # ws) = Inl e"
| "discover_files env (Inr w # ws) =
     bindR (discover_files env ws) (\<lambda>uris.
       let is_file = (case we_is_file w of Some b \<Rightarrow> b | None \<Rightarrow> False); u = path_to_uri (we_path w)
       in Inr (if is_file \<and> select_for_uri env u \<noteq> None then u # uris else uris))"

section \<open>Indexing\<close>

record IndexStats =
  st_files_seen :: nat
  st_files_indexed :: nat
  st_symbols_upserted :: nat
  st_fetch_errors :: nat

definition index_stats_default :: IndexStats where
  "index_stats_default = \<lparr>st_files_seen = 0, st_files_indexed = 0, st_symbols_upserted = 0,
     st_fetch_errors = 0\<rparr>"

definition nth_opt :: "'a list \<Rightarrow> nat \<Rightarrow> 'a option" where
  "nth_opt xs i = (if i < length xs then Some (xs ! i) else None)"

definition index_node :: "Hasher \<Rightarrow> string \<Rightarrow> string \<Rightarrow> bool \<Rightarrow> FlatSymbol \<Rightarrow> int option \<Rightarrow> Node" where
  "index_node H u language ext s container = \<lparr>n_id = None, n_fqn = fl_fqn s, n_uri = u,
     n_name = fl_name s, n_language = language, n_kind = uint (fl_kind s),
     n_node_kind = to_label (map_symbol_kind (fl_kind s)), n_construct = None,
     n_container_id = container, n_range = fl_range s, n_sel = fl_sel s, n_signature = None,
     n_documentation = None, n_detail = fl_detail s,
     n_signature_hash = Some (signature_fingerprint H s), n_valid = True, n_orphan = False,
     n_generation = 0, n_is_external = ext\<rparr>"

text \<open>The first loop: rows, each child with the id of its parent's row.\<close>

fun upsert_rows :: "Hasher \<Rightarrow> string \<Rightarrow> string \<Rightarrow> bool \<Rightarrow> FlatSymbol list \<Rightarrow> int list \<Rightarrow> (AppError, int list, Db) qm" where
  "upsert_rows H u language ext [] ids = returnQ ids"
| "upsert_rows H u language ext (s # ss) ids =
     bindQ (db_write (upsert_node (index_node H u language ext s (Option.bind (fl_parent s) (nth_opt ids)))))
       (\<lambda>i. upsert_rows H u language ext ss (ids @ [i]))"

definition contains_edge :: "int \<Rightarrow> int \<Rightarrow> Edge" where
  "contains_edge src dst = \<lparr>e_id = None, e_src = src, e_dst = dst, e_type = ''contains'',
     e_site = None, e_valid = True\<rparr>"

text \<open>The second loop: one edge per child (\<open>ids[parent]\<close> panics out of range).\<close>

fun upsert_contains :: "int list \<Rightarrow> (nat \<times> FlatSymbol) list \<Rightarrow> (AppError, unit, Db) qm" where
  "upsert_contains ids [] = returnQ ()"
| "upsert_contains ids ((i, s) # rest) =
     (case fl_parent s of
        None \<Rightarrow> upsert_contains ids rest
      | Some p \<Rightarrow>
          if p < length ids \<and> i < length ids
          then bindQ (db_write (upsert_edge (contains_edge (ids ! p) (ids ! i)))) (\<lambda>_. upsert_contains ids rest)
          else failQ (DbFailed IndexPanic))"

definition upsert_symbol_tree :: "Hasher \<Rightarrow> FlatSymbol list \<Rightarrow> LanguageAdapter \<Rightarrow> string \<Rightarrow> string \<Rightarrow> (AppError, unit, Db) qm" where
  "upsert_symbol_tree H flat adapter u root_uri =
     bindQ (upsert_rows H u (ad_language_name adapter) (is_external adapter u root_uri) flat [])
       (\<lambda>ids. upsert_contains ids (enumerate 0 flat))"

text \<open>
  The fetcher: what it answers for a file, given how many files were fetched before it.
\<close>

type_synonym SymbolFetcher = "nat \<Rightarrow> string \<Rightarrow> string + DocumentSymbol list"

definition file_symbols :: "string \<Rightarrow> string \<Rightarrow> DocumentSymbol list \<Rightarrow> FlatSymbol list" where
  "file_symbols u root_uri symbols =
     (let module_path = module_path_from_uri u root_uri
      in flatten_document_symbols symbols module_path @ [module_root module_path])"

fun index_files :: "Hasher \<Rightarrow> Env \<Rightarrow> SymbolFetcher \<Rightarrow> string \<Rightarrow> string \<Rightarrow> string list \<Rightarrow> IndexStats \<Rightarrow> (AppError, IndexStats, Db) qm" where
  "index_files H env fetcher root_uri language [] stats = returnQ stats"
| "index_files H env fetcher root_uri language (u # us) stats =
     (case select_for_uri env u of
        None \<Rightarrow> index_files H env fetcher root_uri language us stats
      | Some adapter \<Rightarrow>
          if ad_language_name adapter \<noteq> language then index_files H env fetcher root_uri language us stats
          else (let seen = stats\<lparr>st_files_seen := st_files_seen stats + 1\<rparr> in
            case fetcher (st_files_seen stats) u of
              Inl e \<Rightarrow> index_files H env fetcher root_uri language us
                (seen\<lparr>st_fetch_errors := st_fetch_errors seen + 1\<rparr>)
            | Inr symbols \<Rightarrow>
                (let flat = file_symbols u root_uri symbols in
                 bindQ (upsert_symbol_tree H flat adapter u root_uri) (\<lambda>_.
                   index_files H env fetcher root_uri language us
                     (seen\<lparr>st_files_indexed := st_files_indexed seen + 1,
                           st_symbols_upserted := st_symbols_upserted seen + length flat\<rparr>)))))"

definition index_repository :: "Hasher \<Rightarrow> Env \<Rightarrow> (string \<Rightarrow> (string + WalkEntry) list) \<Rightarrow> SymbolFetcher \<Rightarrow> string \<Rightarrow> string \<Rightarrow> (AppError, IndexStats, Db) qm" where
  "index_repository H env walker fetcher root_uri language =
     (case discover_files env (walker (uri_to_path root_uri)) of
        Inl e \<Rightarrow> failQ (Failed e)
      | Inr files \<Rightarrow> index_files H env fetcher root_uri language files index_stats_default)"

section \<open>The pass keeps the store consistent and counts every file\<close>

lemma keeps_upsert_rows [keeps]: "keepsQ wf_db (upsert_rows H u language ext ss ids)"
  by (induction ss arbitrary: ids) (simp_all add: keeps)

lemma keeps_upsert_contains [keeps]: "keepsQ wf_db (upsert_contains ids es)"
  by (induction ids es rule: upsert_contains.induct) (auto intro!: keeps split: option.splits)

lemma keeps_upsert_symbol_tree [keeps]: "keepsQ wf_db (upsert_symbol_tree H flat adapter u root_uri)"
  by (simp add: upsert_symbol_tree_def keeps)

lemma keeps_index_files [keeps]: "keepsQ wf_db (index_files H env fetcher root_uri language us stats)"
  by (induction us arbitrary: stats) (auto intro!: keeps simp: Let_def split: option.splits sum.splits)

lemma keeps_index_repository [keeps]: "keepsQ wf_db (index_repository H env walker fetcher root_uri language)"
  by (auto intro!: keeps simp: index_repository_def split: sum.splits)

definition of_language :: "Env \<Rightarrow> string \<Rightarrow> string \<Rightarrow> bool" where
  "of_language env language u \<longleftrightarrow> (\<exists>a. select_for_uri env u = Some a \<and> ad_language_name a = language)"

text \<open>Only database errors leave the file loop.\<close>

definition db_errors_only :: "(AppError, 'a, Db) qm \<Rightarrow> bool" where
  "db_errors_only m \<longleftrightarrow> (\<forall>d e d'. m d = (Inl e, d') \<longrightarrow> (\<exists>x. e = DbFailed x))"

lemma db_errors_only_bind:
  "db_errors_only m \<Longrightarrow> (\<And>x. db_errors_only (f x)) \<Longrightarrow> db_errors_only (bindQ m f)"
  by (fastforce simp: db_errors_only_def bindQ_def split: prod.splits sum.splits)

lemma db_errors_only_basic:
  "db_errors_only (returnQ x)" "db_errors_only (failQ (DbFailed e))" "db_errors_only (db_write f)"
  "db_errors_only (Pair (Inr x))"
  by (auto simp: db_errors_only_def db_write_def split: sum.splits prod.splits)

lemma db_errors_only_rows: "db_errors_only (upsert_rows H u language ext ss ids)"
  by (induction ss arbitrary: ids) (simp_all add: db_errors_only_basic db_errors_only_bind)

lemma db_errors_only_contains: "db_errors_only (upsert_contains ids es)"
  by (induction ids es rule: upsert_contains.induct)
    (auto intro!: db_errors_only_basic db_errors_only_bind split: option.splits)

lemma db_errors_only_files: "db_errors_only (index_files H env fetcher root_uri language us stats)"
  by (induction us arbitrary: stats)
    (auto intro!: db_errors_only_basic db_errors_only_bind db_errors_only_rows db_errors_only_contains
      simp: Let_def upsert_symbol_tree_def split: option.splits sum.splits)

lemma index_files_stats:
  "index_files H env fetcher root_uri language us stats d = (Inr st, d') \<Longrightarrow>
     st_files_seen st = st_files_seen stats + length (filter (of_language env language) us) \<and>
     st_files_indexed st + st_fetch_errors st + st_files_seen stats =
       st_files_seen st + st_files_indexed stats + st_fetch_errors stats \<and>
     st_files_indexed stats + st_symbols_upserted st \<ge> st_files_indexed st + st_symbols_upserted stats"
proof (induction us arbitrary: stats d)
  case Nil
  then show ?case by simp
next
  case (Cons u us)
  show ?case
  proof (cases "of_language env language u")
    case False
    then have "index_files H env fetcher root_uri language (u # us) stats d =
        index_files H env fetcher root_uri language us stats d"
      by (auto simp: of_language_def split: option.splits)
    with Cons False show ?thesis by simp
  next
    case True
    then obtain a where a: "select_for_uri env u = Some a" "ad_language_name a = language"
      by (auto simp: of_language_def)
    let ?seen = "stats\<lparr>st_files_seen := st_files_seen stats + 1\<rparr>"
    show ?thesis
    proof (cases "fetcher (st_files_seen stats) u")
      case (Inl e)
      with a Cons.prems have "index_files H env fetcher root_uri language us
          (?seen\<lparr>st_fetch_errors := st_fetch_errors ?seen + 1\<rparr>) d = (Inr st, d')"
        by (simp add: Let_def)
      from Cons.IH [OF this] True show ?thesis by simp
    next
      case (Inr symbols)
      with a Cons.prems obtain d1 where "index_files H env fetcher root_uri language us
          (?seen\<lparr>st_files_indexed := st_files_indexed ?seen + 1, st_symbols_upserted :=
            st_symbols_upserted ?seen + length (file_symbols u root_uri symbols)\<rparr>) d1 = (Inr st, d')"
        by (auto simp: Let_def bindQ_eq_Inr)
      moreover have "1 \<le> length (file_symbols u root_uri symbols)" by (simp add: file_symbols_def Let_def)
      ultimately show ?thesis using Cons.IH True by fastforce
    qed
  qed
qed

lemma index_accounts_base:
  assumes "wf_db d" and "index_repository H env walker fetcher root_uri language d = (r, d')"
  shows "wf_db d' \<and>
    (case r of
       Inr st \<Rightarrow> (\<exists>files. discover_files env (walker (uri_to_path root_uri)) = Inr files \<and>
         st_files_seen st = length (filter (of_language env language) files)) \<and>
         st_files_seen st = st_files_indexed st + st_fetch_errors st \<and>
         st_files_indexed st \<le> st_symbols_upserted st
     | Inl e \<Rightarrow> (\<exists>x. e = DbFailed x) \<or>
         (\<exists>m. e = Failed m \<and> discover_files env (walker (uri_to_path root_uri)) = Inl m))"
proof (intro conjI)
  show "wf_db d'" by (rule keepsQ_D [OF keeps_index_repository assms])
  show "case r of
       Inr st \<Rightarrow> (\<exists>files. discover_files env (walker (uri_to_path root_uri)) = Inr files \<and>
         st_files_seen st = length (filter (of_language env language) files)) \<and>
         st_files_seen st = st_files_indexed st + st_fetch_errors st \<and>
         st_files_indexed st \<le> st_symbols_upserted st
     | Inl e \<Rightarrow> (\<exists>x. e = DbFailed x) \<or>
         (\<exists>m. e = Failed m \<and> discover_files env (walker (uri_to_path root_uri)) = Inl m)"
  proof (cases r)
    case (Inl e)
    show ?thesis
    proof (cases "discover_files env (walker (uri_to_path root_uri))")
      case (Inl m)
      with assms(2) \<open>r = Inl e\<close> show ?thesis by (simp add: index_repository_def)
    next
      case (Inr files)
      with assms(2) \<open>r = Inl e\<close> have "index_files H env fetcher root_uri language files index_stats_default d = (Inl e, d')"
        by (simp add: index_repository_def)
      then have "\<exists>x. e = DbFailed x"
        using db_errors_only_files [of H env fetcher root_uri language files index_stats_default]
        unfolding db_errors_only_def by blast
      with \<open>r = Inl e\<close> show ?thesis by simp
    qed
  next
    case (Inr st)
    with assms(2) obtain files where "discover_files env (walker (uri_to_path root_uri)) = Inr files"
      and "index_files H env fetcher root_uri language files index_stats_default d = (Inr st, d')"
      by (auto simp: index_repository_def split: sum.splits)
    with index_files_stats [OF this(2)] Inr show ?thesis by (simp add: index_stats_default_def)
  qed
qed

text \<open>an index pass accounts for every file and keeps the store consistent. Whatever the walker
  and the server answer and wherever it stops, the tables satisfy their constraints. If it
  finishes, each discovered file of the language was either indexed or counted as a fetch error,
  and each indexed file contributed at least its module row. If it fails, it is because of the
  walk or of a database command: an error of the language server never ends the pass.\<close>

theorem index_accounts:
  assumes "wf_db d" and "index_repository H env walker fetcher root_uri language d = (r, d')"
  shows "wf_db d' \<and>
    (case r of
       Inr st \<Rightarrow> (\<exists>files. discover_files env (walker (uri_to_path root_uri)) = Inr files \<and>
         st_files_seen st = length (filter (of_language env language) files)) \<and>
         st_files_seen st = st_files_indexed st + st_fetch_errors st \<and>
         st_files_indexed st \<le> st_symbols_upserted st
     | Inl e \<Rightarrow> (\<exists>x. e = DbFailed x) \<or>
         (\<exists>m. e = Failed m \<and> discover_files env (walker (uri_to_path root_uri)) = Inl m))"
  by (rule index_accounts_base [OF assms])

section \<open>A file new to the store\<close>

text \<open>The parts of the exact effect: the rows and edges a flat list becomes.\<close>

definition tree_row :: "Hasher \<Rightarrow> string \<Rightarrow> string \<Rightarrow> bool \<Rightarrow> int \<Rightarrow> FlatSymbol list \<Rightarrow> nat \<Rightarrow> Node" where
  "tree_row H u language ext base flat i =
     (index_node H u language ext (flat ! i) (map_option (\<lambda>p. base + int p) (fl_parent (flat ! i))))
       \<lparr>n_id := Some (base + int i)\<rparr>"

definition tree_edges :: "int \<Rightarrow> FlatSymbol list \<Rightarrow> nat \<Rightarrow> Edge list" where
  "tree_edges base flat k = concat (map (\<lambda>i. case fl_parent (flat ! i) of
      None \<Rightarrow> [] | Some p \<Rightarrow> [contains_edge (base + int p) (base + int i)]) [0..<k])"

definition number_edges :: "int \<Rightarrow> Edge list \<Rightarrow> Edge list" where
  "number_edges b es = map (\<lambda>(i, e). e\<lparr>e_id := Some (b + int i)\<rparr>) (enumerate 0 es)"

definition symbol_key :: "FlatSymbol \<Rightarrow> int \<times> int \<times> string" where
  "symbol_key s = (start_line (fl_range s), start_col (fl_range s), fl_name s)"

text \<open>No row of the file or with one of its names exists, and the list itself has no clash.\<close>

definition fresh_file :: "Db \<Rightarrow> string \<Rightarrow> FlatSymbol list \<Rightarrow> bool" where
  "fresh_file d u flat \<longleftrightarrow>
     distinct (map fl_fqn flat) \<and> distinct (map symbol_key flat) \<and>
     (\<forall>n \<in> set (db_nodes d). n_uri n \<noteq> u \<and> n_fqn n \<notin> set (map fl_fqn flat)) \<and>
     (\<forall>i < length flat. \<forall>p. fl_parent (flat ! i) = Some p \<longrightarrow> p < i)"

definition rows_added :: "Hasher \<Rightarrow> string \<Rightarrow> string \<Rightarrow> bool \<Rightarrow> FlatSymbol list \<Rightarrow> Db \<Rightarrow> nat \<Rightarrow> Db" where
  "rows_added H u language ext flat d k =
     d\<lparr>db_nodes := db_nodes d @ map (tree_row H u language ext (db_node_seq d + 1) flat) [0..<k],
       db_node_seq := db_node_seq d + int k\<rparr>"

definition edges_added :: "FlatSymbol list \<Rightarrow> int \<Rightarrow> nat \<Rightarrow> Db \<Rightarrow> Db" where
  "edges_added flat base k d =
     d\<lparr>db_edges := db_edges d @ number_edges (db_edge_seq d + 1) (tree_edges base flat k),
       db_edge_seq := db_edge_seq d + int (length (tree_edges base flat k))\<rparr>"

lemma tree_row_fields:
  "n_fqn (tree_row H u l x b flat i) = fl_fqn (flat ! i)" "n_uri (tree_row H u l x b flat i) = u"
  "n_id (tree_row H u l x b flat i) = Some (b + int i)"
  "phys_key (tree_row H u l x b flat i) = (u, symbol_key (flat ! i))"
  by (simp_all add: tree_row_def index_node_def phys_key_def symbol_key_def)

lemma distinct_map_nth: "distinct (map f xs) \<Longrightarrow> i < j \<Longrightarrow> j < length xs \<Longrightarrow> f (xs ! i) \<noteq> f (xs ! j)"
  by (auto simp: distinct_conv_nth)

lemma upsert_row_step:
  assumes "fresh_file d u flat" and "k < length flat"
  shows "upsert_node (index_node H u l x (flat ! k)
      (Option.bind (fl_parent (flat ! k)) (nth_opt (map (\<lambda>i. db_node_seq d + 1 + int i) [0..<k]))))
      (rows_added H u l x flat d k) = Inr (db_node_seq d + 1 + int k, rows_added H u l x flat d (Suc k))"
proof -
  let ?b = "db_node_seq d + 1"
  let ?dk = "rows_added H u l x flat d k"
  let ?c = "Option.bind (fl_parent (flat ! k)) (nth_opt (map (\<lambda>i. ?b + int i) [0..<k]))"
  let ?n = "index_node H u l x (flat ! k) ?c"
  have c: "?c = map_option (\<lambda>p. ?b + int p) (fl_parent (flat ! k))"
    using assms by (cases "fl_parent (flat ! k)") (auto simp: fresh_file_def nth_opt_def)
  have nodes: "db_nodes ?dk = db_nodes d @ map (tree_row H u l x ?b flat) [0..<k]"
    and seq: "db_node_seq ?dk = db_node_seq d + int k" by (simp_all add: rows_added_def)
  have "n_fqn m \<noteq> fl_fqn (flat ! k)" if "m \<in> set (db_nodes ?dk)" for m
    using that assms distinct_map_nth [of fl_fqn flat _ k]
    by (auto simp: nodes fresh_file_def tree_row_fields)
  then have f: "List.find (\<lambda>m. n_fqn m = n_fqn ?n) (db_nodes ?dk) = None"
    by (simp add: find_None index_node_def)
  have "phys_key m \<noteq> (u, symbol_key (flat ! k))" if "m \<in> set (db_nodes ?dk)" for m
    using that assms distinct_map_nth [of symbol_key flat _ k]
    by (auto simp: nodes fresh_file_def tree_row_fields) (auto simp: phys_key_def)
  then have p: "List.find (\<lambda>m. phys_key m = phys_key ?n) (db_nodes ?dk) = None"
    by (simp add: find_None index_node_def phys_key_def symbol_key_def)
  have row: "?n\<lparr>n_id := Some (?b + int k)\<rparr> = tree_row H u l x ?b flat k"
    by (simp add: tree_row_def c)
  have "container_ok (rows_added H u l x flat d (Suc k)) ?n"
  proof (cases "fl_parent (flat ! k)")
    case None
    then show ?thesis by (simp add: container_ok_def index_node_def c)
  next
    case (Some q)
    then have q: "q < k" using assms by (auto simp: fresh_file_def)
    then have "tree_row H u l x ?b flat q \<in> set (db_nodes (rows_added H u l x flat d (Suc k)))"
      by (simp add: rows_added_def)
    then have "node_exists (rows_added H u l x flat d (Suc k)) (?b + int q)"
      unfolding node_exists_def using tree_row_fields(3) by blast
    then show ?thesis using Some q by (simp add: container_ok_def index_node_def nth_opt_def)
  qed
  moreover have "rows_added H u l x flat d (Suc k) =
      ?dk\<lparr>db_nodes := db_nodes ?dk @ [?n\<lparr>n_id := Some (db_node_seq ?dk + 1)\<rparr>], db_node_seq := db_node_seq ?dk + 1\<rparr>"
    using row by (simp add: rows_added_def algebra_simps)
  ultimately show ?thesis
    unfolding upsert_node_def f p by (simp add: insert_node_def Let_def seq algebra_simps)
qed

lemma upsert_rows_fresh:
  assumes "fresh_file d u flat" and "k \<le> length flat"
  shows "upsert_rows H u l x (drop k flat) (map (\<lambda>i. db_node_seq d + 1 + int i) [0..<k]) (rows_added H u l x flat d k) =
    (Inr (map (\<lambda>i. db_node_seq d + 1 + int i) [0..<length flat]), rows_added H u l x flat d (length flat))"
  using assms(2)
proof (induction k rule: inc_induct)
  case base
  then show ?case by simp
next
  case (step k)
  then have "drop k flat = flat ! k # drop (Suc k) flat" by (simp add: Cons_nth_drop_Suc)
  then show ?case
    using step.IH upsert_row_step [OF assms(1) step(2), of H l x]
    by (simp add: bindQ_def db_write_def)
qed

lemma tree_edges_Suc:
  "tree_edges b flat (Suc k) = tree_edges b flat k @ (case fl_parent (flat ! k) of
     None \<Rightarrow> [] | Some p \<Rightarrow> [contains_edge (b + int p) (b + int k)])"
  by (simp add: tree_edges_def)

lemma number_edges_snoc:
  "number_edges b (es @ [e]) = number_edges b es @ [e\<lparr>e_id := Some (b + int (length es))\<rparr>]"
  by (simp add: number_edges_def enumerate_append_eq)

lemma tree_edges_dst: "e \<in> set (tree_edges b flat k) \<Longrightarrow> \<exists>i < k. e_dst e = b + int i"
  by (auto simp: tree_edges_def contains_edge_def split: option.splits)

lemma number_edges_dst: "e \<in> set (number_edges c es) \<Longrightarrow> \<exists>f \<in> set es. e_dst e = e_dst f"
  by (auto simp: number_edges_def enumerate_eq_zip dest: set_zip_rightD)

lemma upsert_edge_step:
  assumes fresh: "fresh_file d0 u flat" and k: "k < length flat" and par: "fl_parent (flat ! k) = Some p"
    and ids: "\<And>i. i < length flat \<Longrightarrow> node_exists d (b + int i)"
    and old: "\<And>e. e \<in> set (db_edges d) \<Longrightarrow> e_dst e < b"
  shows "upsert_edge (contains_edge (b + int p) (b + int k)) (edges_added flat b k d) =
    Inr (db_edge_seq d + 1 + int (length (tree_edges b flat k)), edges_added flat b (Suc k) d)"
proof -
  let ?e = "contains_edge (b + int p) (b + int k)"
  have pk: "p < k" using fresh k par by (auto simp: fresh_file_def)
  have "e_dst f \<noteq> b + int k" if "f \<in> set (db_edges (edges_added flat b k d))" for f
    using that old tree_edges_dst [of _ b flat k] number_edges_dst
    by (fastforce simp: edges_added_def)
  then have none: "List.find (same_edge ?e) (db_edges (edges_added flat b k d)) = None"
    by (auto simp: find_None same_edge_def contains_edge_def)
  have ex: "node_exists (edges_added flat b k d) i \<longleftrightarrow> node_exists d i" for i
    by (simp add: node_exists_def edges_added_def)
  show ?thesis
    unfolding upsert_edge_def none
    using ids [of p] ids [of k] pk k par
    by (simp add: Let_def ex)
      (simp add: contains_edge_def edge_types_def edges_added_def tree_edges_Suc number_edges_snoc)
qed

lemma upsert_contains_fresh:
  assumes fresh: "fresh_file d0 u flat" and "k \<le> length flat"
    and ids: "\<And>i. i < length flat \<Longrightarrow> node_exists d (b + int i)"
    and old: "\<And>e. e \<in> set (db_edges d) \<Longrightarrow> e_dst e < b"
  shows "upsert_contains (map (\<lambda>i. b + int i) [0..<length flat]) (drop k (enumerate 0 flat)) (edges_added flat b k d) =
    (Inr (), edges_added flat b (length flat) d)"
  using assms(2)
proof (induction k rule: inc_induct)
  case base
  then show ?case by simp
next
  case (step k)
  then have cons: "drop k (enumerate 0 flat) = (k, flat ! k) # drop (Suc k) (enumerate 0 flat)"
    by (simp add: Cons_nth_drop_Suc [symmetric] nth_enumerate_eq)
  show ?case
  proof (cases "fl_parent (flat ! k)")
    case None
    then have "edges_added flat b (Suc k) d = edges_added flat b k d" by (simp add: edges_added_def tree_edges_Suc)
    with None step.IH show ?thesis by (simp add: cons)
  next
    case (Some p)
    have "p < k" using fresh step(2) Some by (auto simp: fresh_file_def)
    with step(2) have "p < length flat" by simp
    then show ?thesis
      using Some step upsert_edge_step [OF fresh step(2) Some ids old]
      by (simp add: cons bindQ_def db_write_def)
  qed
qed

text \<open>Indexing a file that is new to the store adds exactly its symbols. There is one row per
  symbol, in the order of the list, carrying the symbol's name, position, kind and fingerprint
  and the id of its parent's row as container; one \<open>contains\<close> edge per child, from its parent;
  nothing else changes.\<close>

theorem index_fresh_file:
  assumes "wf_db d" and "fresh_file d u flat"
  shows "upsert_symbol_tree H flat adapter u root_uri d =
    (Inr (), d\<lparr>db_nodes := db_nodes d @ map (tree_row H u (ad_language_name adapter)
          (is_external adapter u root_uri) (db_node_seq d + 1) flat) [0..<length flat],
        db_node_seq := db_node_seq d + int (length flat),
        db_edges := db_edges d @ number_edges (db_edge_seq d + 1)
          (tree_edges (db_node_seq d + 1) flat (length flat)),
        db_edge_seq := db_edge_seq d + int (length (tree_edges (db_node_seq d + 1) flat (length flat)))\<rparr>)"
proof -
  let ?b = "db_node_seq d + 1"
  let ?l = "ad_language_name adapter" and ?x = "is_external adapter u root_uri"
  let ?d1 = "rows_added H u ?l ?x flat d (length flat)"
  have rows: "upsert_rows H u ?l ?x flat [] d = (Inr (map (\<lambda>i. ?b + int i) [0..<length flat]), ?d1)"
    using upsert_rows_fresh [OF assms(2), of 0 H ?l ?x] by (simp add: rows_added_def)
  have ids: "node_exists ?d1 (?b + int i)" if "i < length flat" for i
  proof -
    have "tree_row H u ?l ?x ?b flat i \<in> set (db_nodes ?d1)" using that by (simp add: rows_added_def)
    then show ?thesis unfolding node_exists_def using tree_row_fields(3) by blast
  qed
  have old: "e_dst e < ?b" if "e \<in> set (db_edges ?d1)" for e
  proof -
    have "e \<in> set (db_edges d)" using that by (simp add: rows_added_def)
    then have "Some (e_dst e) \<in> node_ids d" using assms(1) by (auto simp: wf_db_def wf_edges_def)
    then obtain n where "n \<in> set (db_nodes d)" "n_id n = Some (e_dst e)" by (auto simp: node_ids_iff)
    with wf_node_idD [OF assms(1)] show ?thesis by force
  qed
  have "upsert_contains (map (\<lambda>i. ?b + int i) [0..<length flat]) (enumerate 0 flat) ?d1 =
      (Inr (), edges_added flat ?b (length flat) ?d1)"
    using upsert_contains_fresh [OF assms(2), of 0 ?d1 ?b] ids old
    by (simp add: edges_added_def tree_edges_def number_edges_def)
  with rows show ?thesis
    by (simp add: upsert_symbol_tree_def bindQ_def edges_added_def rows_added_def)
qed

theorem index_fresh_file_witness:
  "map n_fqn (db_nodes (snd (upsert_symbol_tree const_hasher (flatten_document_symbols class_tree ''app'')
     PythonAdapter ''u'' ''r'' empty_db))) = [''app.Repo'', ''app.Repo.load'']"
proof -
  have flat: "flatten_document_symbols class_tree ''app'' =
      [flat_of (hd class_tree) ''app.Repo'' None,
       flat_of (hd (the (ds_children (hd class_tree)))) ''app.Repo.load'' (Some 0)]"
    by (simp add: flatten_document_symbols_def class_tree_def child_fqn_def flat_of_def)
  have "fresh_file empty_db ''u'' (flatten_document_symbols class_tree ''app'')"
    unfolding flat
    by (auto simp: fresh_file_def empty_db_def flat_of_def symbol_key_def class_tree_def less_Suc_eq)
  from index_fresh_file [OF wf_empty_db this, of const_hasher PythonAdapter "''r''"]
  show ?thesis by (simp add: flat tree_row_fields upt_rec empty_db_def flat_of_def)
qed

definition two_files :: "string \<Rightarrow> (string + WalkEntry) list" where
  "two_files root = [Inr \<lparr>we_path = ''/r/a.py'', we_is_file = Some True\<rparr>,
     Inr \<lparr>we_path = ''/r/b.py'', we_is_file = Some True\<rparr>]"

definition flaky_fetcher :: SymbolFetcher where
  "flaky_fetcher n u = (if n = 0 then Inl ''timed out'' else Inr class_tree)"

theorem index_accounts_witness:
  "st_files_seen (projr (fst (index_repository const_hasher Map.empty two_files flaky_fetcher
     ''file:///r'' ''python'' empty_db))) = 2"
proof -
  obtain r d' where run: "index_repository const_hasher Map.empty two_files flaky_fetcher
     ''file:///r'' ''python'' empty_db = (r, d')" by force
  have ok: "isl (fst (index_repository const_hasher Map.empty two_files flaky_fetcher
     ''file:///r'' ''python'' empty_db)) = False" by code_simp
  then obtain st where st: "r = Inr st" using run by (cases r) auto
  have files: "discover_files Map.empty (two_files (uri_to_path ''file:///r'')) =
      Inr [''file:///r/a.py'', ''file:///r/b.py'']" by code_simp
  have lang: "of_language Map.empty ''python'' u \<longleftrightarrow>
      map_option ad_language_name (select_for_uri Map.empty u) = Some ''python''" for u
    by (auto simp: of_language_def)
  have "map_option ad_language_name (select_for_uri Map.empty ''file:///r/a.py'') = Some ''python''"
    "map_option ad_language_name (select_for_uri Map.empty ''file:///r/b.py'') = Some ''python''"
    by code_simp+
  then show ?thesis using index_accounts [OF wf_empty_db run] st run files by (simp add: lang)
qed

section \<open>Names that meet\<close>

text \<open>a symbol that is named as its module and declared at the start of the file loses its row.
  The module row has the same physical key, so the upsert of the module row turns the symbol's
  row into the module's: of the two symbols counted, one row is left, under the module's name,
  and a lookup of the symbol's name finds nothing.\<close>

theorem module_row_takes_over:
  assumes "lp_line (lr_start r) = 0" and "lp_character (lr_start r) = 0"
  shows "\<exists>d'. upsert_symbol_tree H (flatten_document_symbols
        [DocumentSymbol (last_segment m) de k tags r sr None] m @ [module_root m])
        adapter u root_uri empty_db = (Inr (), d') \<and>
      length (db_nodes d') = 1 \<and> get_node_by_fqn d' (m @ ''.'' @ last_segment m) = None \<and>
      (\<exists>n. get_node_by_fqn d' m = Some n \<and> n_name n = last_segment m)"
proof -
  let ?s = "DocumentSymbol (last_segment m) de k tags r sr None"
  let ?l = "ad_language_name adapter" and ?x = "is_external adapter u root_uri"
  let ?f = "m @ ''.'' @ last_segment m"
  define s1 where "s1 = flat_of ?s ?f None"
  have flat: "flatten_document_symbols [?s] m = [s1]"
    by (simp add: flatten_document_symbols_def child_fqn_def s1_def)
  define n1 where "n1 = index_node H u ?l ?x s1 None"
  define n2 where "n2 = index_node H u ?l ?x (module_root m) None"
  define d1 where "d1 = empty_db\<lparr>db_nodes := [n1\<lparr>n_id := Some 1\<rparr>], db_node_seq := 1\<rparr>"
  have names: "n_fqn n1 = ?f" "n_fqn n2 = m" "n_name n1 = last_segment m" "n_name n2 = last_segment m"
    by (simp_all add: n1_def n2_def index_node_def s1_def flat_of_def module_root_def)
  have keys: "phys_key n1 = phys_key n2" using assms
    by (simp add: n1_def n2_def index_node_def s1_def flat_of_def module_root_def phys_key_def to_graph_def i64_of_u32_def)
  have up1: "upsert_node n1 empty_db = Inr (1, d1)"
    by (simp add: upsert_node_def insert_node_def empty_db_def d1_def container_ok_def n1_def index_node_def)
  define n3 where "n3 = (set_on_phys n2 (n1\<lparr>n_id := Some 1\<rparr>))\<lparr>n_id := Some 1\<rparr>"
  have n3: "n_fqn n3 = m" "n_name n3 = last_segment m" "n_container_id n3 = None"
    using names by (simp_all add: n3_def set_on_phys_def n2_def index_node_def)
  have "?f \<noteq> m" by simp
  moreover have "update_node 1 (set_on_phys n2) d1 = Inr (d1\<lparr>db_nodes := [n3]\<rparr>)"
    using n3 by (simp add: update_node_def get_node_def d1_def unique_clash_def container_ok_def Let_def n3_def)
  ultimately have up2: "upsert_node n2 d1 = Inr (1, d1\<lparr>db_nodes := [n3]\<rparr>)"
    using names keys by (simp add: upsert_node_def d1_def phys_key_def)
  have parents: "fl_parent s1 = None" "fl_parent (module_root m) = None"
    by (simp_all add: flat_of_def module_root_def s1_def)
  have "upsert_symbol_tree H (flatten_document_symbols [?s] m @ [module_root m]) adapter u root_uri empty_db =
      (Inr (), d1\<lparr>db_nodes := [n3]\<rparr>)"
    using up1 up2 parents
    by (simp add: upsert_symbol_tree_def flat bindQ_def db_write_def n1_def [symmetric] n2_def [symmetric])
  then show ?thesis using n3 by (auto simp: get_node_by_fqn_def)
qed

theorem module_row_takes_over_witness:
  "\<exists>d'. upsert_symbol_tree const_hasher (flatten_document_symbols
        [DocumentSymbol (last_segment ''main'') None 12 None (line_lsp 0) (line_lsp 0) None] ''main'' @
        [module_root ''main'']) PythonAdapter ''u'' ''r'' empty_db = (Inr (), d') \<and>
      length (db_nodes d') = 1 \<and> get_node_by_fqn d' (''main'' @ ''.'' @ last_segment ''main'') = None \<and>
      (\<exists>n. get_node_by_fqn d' ''main'' = Some n \<and> n_name n = last_segment ''main'')"
  by (rule module_row_takes_over) (simp_all add: line_lsp_def)

text \<open>re-indexing can stop at a symbol that moved to where another of its name was. A symbol
  whose name has a row, but whose new position and simple name are those of another row of the
  file, is refused with a UNIQUE violation; the upsert has no fallback for it, and the error
  leaves the loop, so the rest of the pass is not run.\<close>

theorem reindex_moved_symbol_refused:
  assumes "wf_db d" and "m1 \<in> set (db_nodes d)" and "m2 \<in> set (db_nodes d)" and "n_fqn m1 \<noteq> n_fqn m2"
    and "n_fqn (index_node H u l x s c) = n_fqn m1"
    and "phys_key (index_node H u l x s c) = phys_key m2"
  shows "upsert_node (index_node H u l x s c) d = Inl UniqueViolation \<and>
    (c = None \<and> fl_parent s = None \<longrightarrow>
      upsert_rows H u l x (s # rest) [] d = (Inl (DbFailed UniqueViolation), d))"
proof -
  let ?n = "index_node H u l x s c"
  obtain i where i: "n_id m1 = Some i" using wf_node_idD [OF assms(1,2)] by blast
  have found: "List.find (\<lambda>m. n_fqn m = n_fqn ?n) (db_nodes d) = Some m1"
    using assms(2,5) wf_node_eqI(2) [OF assms(1)] by (intro find_unique) auto
  have get: "get_node d i = Some m1" using get_node_Some [OF assms(1)] assms(2) i by simp
  have "n_id m2 \<noteq> Some i" using wf_node_eqI(1) [OF assms(1,2,3)] i assms(4) by auto
  moreover have "phys_key ((set_on_fqn ?n m1)\<lparr>n_id := Some i\<rparr>) = phys_key m2"
    using assms(6) by (simp add: phys_key_def set_on_fqn_def)
  ultimately have "unique_clash d ((set_on_fqn ?n m1)\<lparr>n_id := Some i\<rparr>)"
    unfolding unique_clash_def using assms(3) by (intro bexI [of _ m2]) auto
  then have up: "upsert_node ?n d = Inl UniqueViolation"
    unfolding upsert_node_def found by (simp add: i update_node_def get Let_def)
  then show ?thesis by (auto simp: bindQ_def db_write_def)
qed

definition two_methods :: Db where
  "two_methods = empty_db\<lparr>db_nodes := [row_at (Some 1) ''m.A.f'' ''u'' ''f'' 1 ''h'',
     row_at (Some 2) ''m.B.f'' ''u'' ''f'' 3 ''h''], db_node_seq := 2\<rparr>"

definition moved_method :: FlatSymbol where
  "moved_method = \<lparr>fl_fqn = ''m.A.f'', fl_name = ''f'', fl_kind = 12, fl_range = line_range 3,
     fl_sel = line_range 3, fl_detail = None, fl_parent = None\<rparr>"

theorem reindex_moved_symbol_refused_witness:
  "upsert_rows const_hasher ''u'' ''python'' False [moved_method] [] two_methods =
     (Inl (DbFailed UniqueViolation), two_methods)"
proof -
  have "wf_db two_methods"
    by (auto simp: two_methods_def wf_db_def wf_nodes_def wf_edges_def wf_caches_def rows_ok_def
        empty_db_def row_at_def phys_key_def line_range_def)
  from reindex_moved_symbol_refused [OF this, of "hd (db_nodes two_methods)" "db_nodes two_methods ! 1"
      const_hasher "''u''" "''python''" False moved_method None "[]"]
  show ?thesis
    by (simp add: two_methods_def moved_method_def row_at_def index_node_def phys_key_def line_range_def)
qed

end
