(* ===== verification/Resolver.thy ===== *)
theory Resolver
  imports Lsp_Query Pipeline Paging "HOL-Library.Option_ord"
begin

text \<open>
  On-demand edge construction (\<open>src/query/resolver.rs\<close>) and the confinement of file access to
  the workspace (\<open>src/query/mod.rs\<close>): asking the language server, attaching what it finds to
  indexed rows, and grouping rows for the answer.
\<close>

section \<open>The world of a query\<close>

text \<open>
  A query runs over the database and a conversation with the outside: the state keeps what has
  been asked so far, and the outside's answers may depend on it.
\<close>

record World =
  w_db :: Db
  w_asks :: "Ask list"

type_synonym 'a query = "(AppError, 'a, World) qm"

definition on_db :: "(AppError, 'a, Db) qm \<Rightarrow> 'a query" where
  "on_db m = (\<lambda>w. case m (w_db w) of (r, d) \<Rightarrow> (r, w\<lparr>w_db := d\<rparr>))"

definition ask :: "Ask \<Rightarrow> (Ask list \<Rightarrow> 'a) \<Rightarrow> 'a query" where
  "ask a f = (\<lambda>w. (Inr (f (w_asks w)), w\<lparr>w_asks := w_asks w @ [a]\<rparr>))"

text \<open>
  \<open>QueryEngine\<close>, with what it uses of the standard library and third-party crates: the engine's
  row order, the hash function, the similarity score, the cursor codec, and the file system's
  reading and canonicalizing of paths.
\<close>

record QueryEngine =
  qe_root_uri :: string
  qe_order :: RowOrder
  qe_hash :: Hasher
  qe_similar :: Similar
  qe_codec :: Codec
  qe_read :: "string \<Rightarrow> Ask list \<Rightarrow> string option"
  qe_canon :: "string \<Rightarrow> Ask list \<Rightarrow> string option"

section \<open>Paths\<close>

datatype Component = RootDir | CurDir | ParentDir | Normal string

text \<open>
  \<open>Path::components\<close>: empty pieces vanish, and a \<open>.\<close> survives only at the start of a relative
  path.
\<close>

definition piece_component :: "string \<Rightarrow> Component option" where
  "piece_component p =
     (if p = [] \<or> p = ''.'' then None else if p = ''..'' then Some ParentDir else Some (Normal p))"

definition path_components :: "string \<Rightarrow> Component list" where
  "path_components s =
     (let pieces = split_on (CHR ''/'') s; rest = List.map_filter piece_component pieces
      in if starts_with ''/'' s then RootDir # rest
         else if hd pieces = ''.'' then CurDir # rest else rest)"

fun component_string :: "Component \<Rightarrow> string" where
  "component_string RootDir = []"
| "component_string CurDir = ''.''"
| "component_string ParentDir = ''..''"
| "component_string (Normal p) = p"

definition path_string :: "Component list \<Rightarrow> string" where
  "path_string cs = (if cs = [RootDir] then ''/'' else join_with ''/'' (map component_string cs))"

text \<open>\<open>PathBuf::pop\<close> leaves a root and an empty path as they are.\<close>

definition path_pop :: "Component list \<Rightarrow> Component list" where
  "path_pop cs = (if cs = [] \<or> last cs = RootDir then cs else butlast cs)"

definition normalize_step :: "Component list \<Rightarrow> Component \<Rightarrow> Component list" where
  "normalize_step result c = (case c of
      ParentDir \<Rightarrow> path_pop result
    | CurDir \<Rightarrow> result
    | other \<Rightarrow> result @ [other])"

definition lexically_normalize :: "Component list \<Rightarrow> Component list" where
  "lexically_normalize cs = foldl normalize_step [] cs"

definition canonicalize :: "QueryEngine \<Rightarrow> string \<Rightarrow> (string option) query" where
  "canonicalize qe s = ask (AskCanon s) (qe_canon qe s)"

definition confine :: "QueryEngine \<Rightarrow> string \<Rightarrow> (string + Component list) query" where
  "confine qe u =
     (let root = uri_to_path (qe_root_uri qe); candidate = uri_to_path u in
      bindQ (canonicalize qe root) (\<lambda>cr.
        let rootp = path_components (case cr of Some r \<Rightarrow> r | None \<Rightarrow> root);
            normalized = lexically_normalize (path_components candidate)
        in bindQ (canonicalize qe (path_string normalized)) (\<lambda>cc.
          let resolved = (case cc of Some c \<Rightarrow> path_components c | None \<Rightarrow> normalized)
          in returnQ (if starts_with rootp resolved then Inr resolved
                      else Inl (''path escapes workspace root: '' @ u)))))"

definition read_path :: "QueryEngine \<Rightarrow> Component list \<Rightarrow> (string option) query" where
  "read_path qe p = ask (AskRead (path_string p)) (qe_read qe (path_string p))"

definition read_file_text :: "QueryEngine \<Rightarrow> string \<Rightarrow> (string option) query" where
  "read_file_text qe u = bindQ (confine qe u) (\<lambda>r.
     case r of Inl e \<Rightarrow> returnQ None | Inr p \<Rightarrow> read_path qe p)"

definition open_document :: "LspQueryClient \<Rightarrow> string \<Rightarrow> string \<Rightarrow> (QueryError + unit) query" where
  "open_document c u text = ask (AskOpen u text) (qc_open c u text)"

definition ensure_open :: "QueryEngine \<Rightarrow> LspQueryClient \<Rightarrow> string \<Rightarrow> unit query" where
  "ensure_open qe c u = bindQ (read_file_text qe u) (\<lambda>t.
     case t of None \<Rightarrow> returnQ () | Some text \<Rightarrow> bindQ (open_document c u text) (\<lambda>_. returnQ ()))"

section \<open>Anchors\<close>

text \<open>A failed request counts as an empty answer; whether it timed out is kept.\<close>

definition or_empty :: "QueryError + 'a list \<Rightarrow> 'a list \<times> bool" where
  "or_empty r = (case r of Inr xs \<Rightarrow> (xs, False) | Inl e \<Rightarrow> ([], is_timeout e))"

definition node_at :: "QueryEngine \<Rightarrow> string \<Rightarrow> LspPosition \<Rightarrow> (Node option) query" where
  "node_at qe u p = on_db (db_read (\<lambda>d. find_node_by_position (qe_order qe) d u
     (i64_of_u32 (lp_line p)) (i64_of_u32 (lp_character p))))"

definition node_of_location :: "QueryEngine \<Rightarrow> Location \<Rightarrow> (Node option) query" where
  "node_of_location qe l = node_at qe (lo_uri l) (lr_start (lo_range l))"

fun first_indexed :: "QueryEngine \<Rightarrow> Location list \<Rightarrow> (Node option) query" where
  "first_indexed qe [] = returnQ None"
| "first_indexed qe (l # ls) = bindQ (node_of_location qe l) (\<lambda>n.
     case n of Some node \<Rightarrow> returnQ (Some node) | None \<Rightarrow> first_indexed qe ls)"

definition definition_anchor :: "QueryEngine \<Rightarrow> LspQueryClient \<Rightarrow> string \<Rightarrow> u32 \<Rightarrow> u32 \<Rightarrow> (Node option \<times> bool) query" where
  "definition_anchor qe c u line character =
     bindQ (ask (AskDefinition u line character) (qc_definition c u line character)) (\<lambda>r.
       let (locs, timed_out) = or_empty r in
       bindQ (first_indexed qe locs) (\<lambda>n.
         case n of
           Some node \<Rightarrow> returnQ (Some node, timed_out)
         | None \<Rightarrow> bindQ (node_at qe u \<lparr>lp_line = line, lp_character = character\<rparr>)
             (\<lambda>m. returnQ (m, timed_out))))"

section \<open>Materializing edges\<close>

definition located_edge :: "int \<Rightarrow> int \<Rightarrow> string \<Rightarrow> Site option \<Rightarrow> Edge" where
  "located_edge src dst edge_type site = \<lparr>e_id = None, e_src = src, e_dst = dst,
     e_type = edge_type, e_site = site, e_valid = True\<rparr>"

definition lsp_range_to_range :: "LspRange \<Rightarrow> Range" where
  "lsp_range_to_range r = \<lparr>start_line = i64_of_u32 (lp_line (lr_start r)),
     start_col = i64_of_u32 (lp_character (lr_start r)),
     end_line = i64_of_u32 (lp_line (lr_end r)), end_col = i64_of_u32 (lp_character (lr_end r))\<rparr>"

definition put_edge :: "Edge \<Rightarrow> unit query" where
  "put_edge e = bindQ (on_db (db_write (upsert_edge e))) (\<lambda>_. returnQ ())"

text \<open>The identifier position of a row, as sent to the server.\<close>

definition sel_line :: "Node \<Rightarrow> u32" where
  "sel_line n = u32_of_i64 (start_line (n_sel n))"

definition sel_col :: "Node \<Rightarrow> u32" where
  "sel_col n = u32_of_i64 (start_col (n_sel n))"

text \<open>\<open>let Some(node) = ... else continue; let Some(id) = node.id else continue\<close>.\<close>

definition with_row :: "Node option query \<Rightarrow> (Node \<Rightarrow> int \<Rightarrow> unit query) \<Rightarrow> unit query" where
  "with_row m f = bindQ m (\<lambda>n. case n of
      None \<Rightarrow> returnQ ()
    | Some node \<Rightarrow> (case n_id node of None \<Rightarrow> returnQ () | Some i \<Rightarrow> f node i))"

definition materialize_references :: "QueryEngine \<Rightarrow> LspQueryClient \<Rightarrow> int \<Rightarrow> Node \<Rightarrow> bool query" where
  "materialize_references qe c anchor_id anchor =
     bindQ (ask (AskReferences (n_uri anchor) (sel_line anchor) (sel_col anchor) True)
         (qc_references c (n_uri anchor) (sel_line anchor) (sel_col anchor) True)) (\<lambda>r.
       let (locs, timed_out) = or_empty r in
       bindQ (for_each locs (\<lambda>l. with_row (node_of_location qe l) (\<lambda>_ container_id.
           put_edge (located_edge container_id anchor_id ''references''
             (Some \<lparr>s_uri = lo_uri l, s_range = lsp_range_to_range (lo_range l)\<rparr>)))))
         (\<lambda>_. returnQ timed_out))"

text \<open>The zero-width selection range of a call from outside every declaration.\<close>

definition is_module_sentinel :: "LspRange \<Rightarrow> bool" where
  "is_module_sentinel r \<longleftrightarrow> lp_line (lr_start r) = 0 \<and> lp_character (lr_start r) = 0 \<and>
     lp_line (lr_end r) = 0 \<and> lp_character (lr_end r) = 0"

definition caller_of :: "QueryEngine \<Rightarrow> CallHierarchyItem \<Rightarrow> (Node option) query" where
  "caller_of qe i =
     (if is_module_sentinel (ci_selection_range i)
      then on_db (db_read (\<lambda>d. get_node_by_fqn d (module_path_from_uri (ci_uri i) (qe_root_uri qe))))
      else node_at qe (ci_uri i) (lr_start (ci_selection_range i)))"

definition call_edges_from :: "string \<Rightarrow> int \<Rightarrow> int \<Rightarrow> LspRange list \<Rightarrow> unit query" where
  "call_edges_from u src dst ranges = for_each ranges (\<lambda>r.
     put_edge (located_edge src dst ''calls'' (Some \<lparr>s_uri = u, s_range = lsp_range_to_range r\<rparr>)))"

definition corrects_interfaces :: "string \<Rightarrow> bool" where
  "corrects_interfaces language \<longleftrightarrow> language \<in> {''typescript'', ''go''}"

definition is_interface_row :: "Node \<Rightarrow> bool query" where
  "is_interface_row callee = (case n_container_id callee of
      None \<Rightarrow> returnQ False
    | Some container \<Rightarrow> on_db (db_read (\<lambda>d. case get_node d container of
        Some k \<Rightarrow> n_node_kind k = ''Interface'' | None \<Rightarrow> False)))"

definition concrete_of :: "QueryEngine \<Rightarrow> int \<Rightarrow> Location \<Rightarrow> (int option) query" where
  "concrete_of qe callee_id l = bindQ (node_of_location qe l) (\<lambda>n.
     case n of
       None \<Rightarrow> returnQ None
     | Some node \<Rightarrow> (case n_id node of
         None \<Rightarrow> returnQ None
       | Some i \<Rightarrow> bindQ (put_edge (located_edge callee_id i ''implements'' None)) (\<lambda>_. returnQ (Some i))))"

definition resolve_outgoing_callee :: "QueryEngine \<Rightarrow> LspQueryClient \<Rightarrow> Node \<Rightarrow> Node \<Rightarrow> int \<Rightarrow> (int list \<times> bool) query" where
  "resolve_outgoing_callee qe c anchor callee callee_id =
     (if \<not> corrects_interfaces (n_language anchor) then returnQ ([callee_id], False)
      else bindQ (is_interface_row callee) (\<lambda>iface.
        if \<not> iface then returnQ ([callee_id], False)
        else bindQ (ensure_open qe c (n_uri callee)) (\<lambda>_.
          bindQ (ask (AskImplementation (n_uri callee) (sel_line callee) (sel_col callee))
              (qc_implementation c (n_uri callee) (sel_line callee) (sel_col callee))) (\<lambda>r.
            let (locs, timed_out) = or_empty r in
            bindQ (mapQ (concrete_of qe callee_id) locs) (\<lambda>ids.
              let concrete_ids = List.map_filter (\<lambda>x. x) ids in
              returnQ (if concrete_ids = [] then [callee_id] else concrete_ids, timed_out))))))"

definition materialize_incoming :: "QueryEngine \<Rightarrow> LspQueryClient \<Rightarrow> int \<Rightarrow> CallHierarchyItem \<Rightarrow> bool query" where
  "materialize_incoming qe c anchor_id item =
     bindQ (ask (AskIncoming item) (qc_incoming c item)) (\<lambda>r.
       let (calls, timed_out) = or_empty r in
       bindQ (for_each calls (\<lambda>call. with_row (caller_of qe (ic_from call)) (\<lambda>_ caller_id.
           call_edges_from (ci_uri (ic_from call)) caller_id anchor_id (ic_from_ranges call))))
         (\<lambda>_. returnQ timed_out))"

text \<open>One outgoing call; the flag collects the timeouts of the corrections.\<close>

definition materialize_outgoing_call :: "QueryEngine \<Rightarrow> LspQueryClient \<Rightarrow> int \<Rightarrow> Node \<Rightarrow> OutgoingCall \<Rightarrow> bool \<Rightarrow> bool query" where
  "materialize_outgoing_call qe c anchor_id anchor call timed_out =
     bindQ (node_at qe (ci_uri (oc_to call)) (lr_start (ci_selection_range (oc_to call)))) (\<lambda>n.
       case n of
         None \<Rightarrow> returnQ timed_out
       | Some callee \<Rightarrow> (case n_id callee of
           None \<Rightarrow> returnQ timed_out
         | Some callee_id \<Rightarrow> bindQ (resolve_outgoing_callee qe c anchor callee callee_id) (\<lambda>(targets, t).
             bindQ (for_each targets (\<lambda>target.
                 call_edges_from (n_uri anchor) anchor_id target (oc_from_ranges call)))
               (\<lambda>_. returnQ (timed_out \<or> t)))))"

definition materialize_outgoing :: "QueryEngine \<Rightarrow> LspQueryClient \<Rightarrow> int \<Rightarrow> Node \<Rightarrow> CallHierarchyItem \<Rightarrow> bool query" where
  "materialize_outgoing qe c anchor_id anchor item =
     bindQ (ask (AskOutgoing item) (qc_outgoing c item)) (\<lambda>r.
       let (calls, timed_out) = or_empty r in
       foldQ (materialize_outgoing_call qe c anchor_id anchor) calls timed_out)"

definition materialize_call_edges :: "QueryEngine \<Rightarrow> LspQueryClient \<Rightarrow> int \<Rightarrow> Node \<Rightarrow> Direction \<Rightarrow> bool query" where
  "materialize_call_edges qe c anchor_id anchor direction =
     bindQ (ask (AskPrepare (n_uri anchor) (sel_line anchor) (sel_col anchor))
         (qc_prepare c (n_uri anchor) (sel_line anchor) (sel_col anchor))) (\<lambda>r.
       let (items, timed_out) = or_empty r in
       (case items of
          [] \<Rightarrow> returnQ timed_out
        | item # _ \<Rightarrow>
            bindQ (case direction of
                Incoming \<Rightarrow> materialize_incoming qe c anchor_id item
              | Outgoing \<Rightarrow> materialize_outgoing qe c anchor_id anchor item)
              (\<lambda>t. returnQ (timed_out \<or> t))))"

section \<open>Grouping\<close>

text \<open>
  \<open>node_cmp\<close> and \<open>site_cmp\<close> compare by these keys; \<open>None\<close> sorts before every site.
\<close>

definition neighbor_key :: "Neighbor \<Rightarrow> (string \<times> string \<times> int \<times> int) \<times> (string \<times> int \<times> int) option" where
  "neighbor_key p = (node_sort_key (fst p), site_key (snd p))"

definition group_step :: "(Node \<times> Site list) list \<Rightarrow> Neighbor \<Rightarrow> (Node \<times> Site list) list" where
  "group_step out p =
     (let sites = (case snd p of None \<Rightarrow> [] | Some s \<Rightarrow> [s]) in
      if out \<noteq> [] \<and> node_sort_key (fst (last out)) = node_sort_key (fst p)
      then butlast out @ [(fst (last out), snd (last out) @ sites)]
      else out @ [(fst p, sites)])"

definition group_by_node :: "Neighbor list \<Rightarrow> (Node \<times> Site list) list" where
  "group_by_node ns = foldl group_step [] (sort_key neighbor_key ns)"

end
