(* ===== verification/Query_Ops.thy ===== *)
theory Query_Ops
  imports Resolver
begin

text \<open>
  The query operations (\<open>src/query/ops.rs\<close>). Each takes an optional language-server client: with
  none it serves what the database holds, with one it constructs edges first.
\<close>

section \<open>Hints and listings\<close>

definition FQN_HINT_LIMIT :: nat where
  "FQN_HINT_LIMIT = 10"

definition hint_fqns_for :: "QueryEngine \<Rightarrow> string \<Rightarrow> (string list) query" where
  "hint_fqns_for qe f =
     (let leaf = last_segment f in
      bindQ (on_db (db_read (\<lambda>d. list_nodes (qe_order qe) d None))) (\<lambda>nodes.
        let hits = (\<lambda>mode. filter (\<lambda>n. \<not> n_is_external n \<and>
              mode_matches (qe_similar qe) mode leaf False (n_fqn n)) nodes);
            matched = (if hits Segment = [] then hits Fuzzy else hits Segment)
        in returnQ (take FQN_HINT_LIMIT (remdups_adj (sort (map n_fqn matched))))))"

definition hint_fqns_for_symref :: "QueryEngine \<Rightarrow> SymbolRef \<Rightarrow> (string list) query" where
  "hint_fqns_for_symref qe symref = (case symref of
      Fqn f \<Rightarrow> hint_fqns_for qe f
    | At u l c \<Rightarrow> returnQ [])"

definition encode_next :: "QueryEngine \<Rightarrow> Cursor option \<Rightarrow> string option" where
  "encode_next qe next = map_option (cursor_encode (qe_codec qe)) next"

definition find_symbol :: "QueryEngine \<Rightarrow> string \<Rightarrow> MatchMode \<Rightarrow> bool \<Rightarrow> bool \<Rightarrow> Filter \<Rightarrow> Page \<Rightarrow> FindSymbolResult query" where
  "find_symbol qe pattern mode ignore_case brief filt page =
     bindQ (on_db (db_read (\<lambda>d. list_nodes (qe_order qe) d (f_language filt)))) (\<lambda>nodes.
       let hits = filter (\<lambda>n. mode_matches (qe_similar qe) mode pattern ignore_case (n_fqn n) \<and>
             filter_matches filt n) nodes;
           (page_items, next) = paginate hits page key_from_node
       in returnQ (if brief
         then \<lparr>fs_nodes = [], fs_fqns = map n_fqn page_items, fs_next_cursor = encode_next qe next\<rparr>
         else \<lparr>fs_nodes = map dto_from_node page_items, fs_fqns = [], fs_next_cursor = encode_next qe next\<rparr>))"

section \<open>Reading a range of lines\<close>

definition clamp_lines :: "string list \<Rightarrow> u32 \<Rightarrow> u32 \<Rightarrow> nat \<times> nat" where
  "clamp_lines lines first past =
     (let total = length lines; start = min (unat first) total
      in (start, min (max (unat past) start) total))"

definition range_result :: "string \<Rightarrow> string \<Rightarrow> u32 \<Rightarrow> u32 \<Rightarrow> ReadRangeResult" where
  "range_result u text first past =
     (let lines = str_lines text; (start, end') = clamp_lines lines first past
      in \<lparr>rr_uri = u, rr_content = join_with [lf] (take (end' - start) (drop start lines)),
        rr_range = \<lparr>r_start = \<lparr>p_line = of_nat start, p_character = 0\<rparr>,
                    r_end = \<lparr>p_line = of_nat end', p_character = 0\<rparr>\<rparr>,
        rr_total_lines = of_nat (length lines)\<rparr>)"

definition read_range :: "QueryEngine \<Rightarrow> string \<Rightarrow> u32 \<Rightarrow> u32 \<Rightarrow> ReadRangeResult query" where
  "read_range qe u first past = bindQ (confine qe u) (\<lambda>r.
     case r of
       Inl e \<Rightarrow> failQ (Failed (''read_range: '' @ e))
     | Inr p \<Rightarrow> bindQ (read_path qe p) (\<lambda>t.
         case t of
           None \<Rightarrow> failQ (Failed (''read_range: cannot read '' @ u))
         | Some text \<Rightarrow> returnQ (range_result u text first past)))"

section \<open>Definitions\<close>

text \<open>Refining a row found by a definition query from its hover text.\<close>

definition refine_construct :: "int \<Rightarrow> string \<Rightarrow> Node \<Rightarrow> Node query" where
  "refine_construct i hover_text node =
     (case (n_construct node, construct_from_hover hover_text) of
        (None, Some c) \<Rightarrow> bindQ (on_db (db_update (update_node_construct i c)))
            (\<lambda>_. returnQ (node\<lparr>n_construct := Some c\<rparr>))
      | _ \<Rightarrow> returnQ node)"

definition refine_signature :: "int \<Rightarrow> string \<Rightarrow> Node \<Rightarrow> Node query" where
  "refine_signature i hover_text node =
     (let signature = trim_str hover_text in
      if n_signature node = None \<and> signature \<noteq> []
      then bindQ (on_db (db_update (update_node_signature i signature)))
        (\<lambda>_. returnQ (node\<lparr>n_signature := Some signature\<rparr>))
      else returnQ node)"

definition refine_from_hover :: "QueryEngine \<Rightarrow> LspQueryClient \<Rightarrow> int \<Rightarrow> Node \<Rightarrow> Node query" where
  "refine_from_hover qe c i node =
     bindQ (ensure_open qe c (n_uri node)) (\<lambda>_.
       bindQ (ask (AskHover (n_uri node) (sel_line node) (sel_col node))
           (qc_hover c (n_uri node) (sel_line node) (sel_col node))) (\<lambda>h.
         case h of
           Inr (Some hover) \<Rightarrow> bindQ (refine_construct i (ho_value hover) node)
             (refine_signature i (ho_value hover))
         | _ \<Rightarrow> returnQ node))"

definition definition_target :: "QueryEngine \<Rightarrow> LspQueryClient \<Rightarrow> Location \<Rightarrow> (NodeDto option) query" where
  "definition_target qe c l = bindQ (node_of_location qe l) (\<lambda>n.
     case n of
       None \<Rightarrow> returnQ None
     | Some node \<Rightarrow> bindQ
         (case n_id node of
            Some i \<Rightarrow> if n_construct node = None \<or> n_signature node = None
              then refine_from_hover qe c i node else returnQ node
          | None \<Rightarrow> returnQ node)
         (\<lambda>node'. returnQ (Some (dto_from_node node'))))"

definition find_definition :: "QueryEngine \<Rightarrow> SymbolRef \<Rightarrow> LspQueryClient option \<Rightarrow> (FindDefinitionResult \<times> bool) query" where
  "find_definition qe symref client = (case symref of
      Fqn f \<Rightarrow> bindQ (on_db (db_read (\<lambda>d. get_node_by_fqn d f))) (\<lambda>n.
        returnQ (\<lparr>fd_nodes = (case n of None \<Rightarrow> [] | Some node \<Rightarrow> [dto_from_node node])\<rparr>, False))
    | At u line character \<Rightarrow>
        (case client of
           None \<Rightarrow> returnQ (\<lparr>fd_nodes = []\<rparr>, False)
         | Some c \<Rightarrow> bindQ (ensure_open qe c u) (\<lambda>_.
             bindQ (ask (AskDefinition u line character) (qc_definition c u line character)) (\<lambda>r.
               let (locs, timed_out) = or_empty r in
               bindQ (mapQ (definition_target qe c) locs) (\<lambda>ns.
                 returnQ (\<lparr>fd_nodes = List.map_filter (\<lambda>x. x) ns\<rparr>, timed_out))))))"

section \<open>Anchors and cached answers\<close>

definition resolve_anchor_id :: "QueryEngine \<Rightarrow> SymbolRef \<Rightarrow> LspQueryClient option \<Rightarrow> ((int \<times> Node) option \<times> bool) query" where
  "resolve_anchor_id qe symref client = bindQ
     (case symref of
        Fqn f \<Rightarrow> bindQ (on_db (db_read (\<lambda>d. get_node_by_fqn d f))) (\<lambda>n. returnQ (n, False))
      | At u line character \<Rightarrow>
          (case client of
             Some c \<Rightarrow> definition_anchor qe c u line character
           | None \<Rightarrow> bindQ (node_at qe u \<lparr>lp_line = line, lp_character = character\<rparr>)
               (\<lambda>n. returnQ (n, False))))
     (\<lambda>(anchor, timed_out). returnQ
       (Option.bind anchor (\<lambda>node. map_option (\<lambda>i. (i, node)) (n_id node)), timed_out))"

definition neighbors_of :: "QueryEngine \<Rightarrow> int \<Rightarrow> string \<Rightarrow> Direction \<Rightarrow> (Neighbor list) query" where
  "neighbors_of qe i t dir = on_db (db_read (\<lambda>d. get_neighbors (qe_order qe) d i t dir))"

definition grouped_page :: "Filter \<Rightarrow> Page \<Rightarrow> Neighbor list \<Rightarrow> (Node \<times> Site list) list \<times> Cursor option" where
  "grouped_page filt page neighbors =
     paginate (filter (\<lambda>g. filter_matches filt (fst g)) (group_by_node neighbors)) page
       (\<lambda>g. key_from_node (fst g))"

definition references_from_cache :: "QueryEngine \<Rightarrow> int \<Rightarrow> Filter \<Rightarrow> Page \<Rightarrow> FindReferencesResult query" where
  "references_from_cache qe i filt page = bindQ (neighbors_of qe i ''references'' Incoming) (\<lambda>ns.
     let (page_items, next) = grouped_page filt page ns in
     returnQ \<lparr>fr_references = map (\<lambda>(n, sites). \<lparr>rg_node = dto_from_node n,
         rg_sites = map (\<lambda>s. range_dto (s_range s)) sites\<rparr>) page_items,
       fr_next_cursor = encode_next qe next, fr_hint_fqns = []\<rparr>)"

definition read_calls_page :: "QueryEngine \<Rightarrow> int \<Rightarrow> Direction \<Rightarrow> Filter \<Rightarrow> Page \<Rightarrow> CallGraphResult query" where
  "read_calls_page qe i dir filt page = bindQ (neighbors_of qe i ''calls'' dir) (\<lambda>ns.
     let (page_items, next) = grouped_page filt page ns in
     returnQ \<lparr>cr_items = map (\<lambda>(n, sites). \<lparr>cg_node = dto_from_node n,
         cg_call_sites = map (\<lambda>s. range_dto (s_range s)) sites\<rparr>) page_items,
       cr_next_cursor = encode_next qe next, cr_hint_fqns = []\<rparr>)"

definition callers_from_cache :: "QueryEngine \<Rightarrow> int \<Rightarrow> Filter \<Rightarrow> Page \<Rightarrow> CallGraphResult query" where
  "callers_from_cache qe i filt page = read_calls_page qe i Incoming filt page"

section \<open>References, callers, callees\<close>

text \<open>\<open>timed_out |= ...\<close> when there is a client.\<close>

definition with_client :: "LspQueryClient option \<Rightarrow> (LspQueryClient \<Rightarrow> bool query) \<Rightarrow> bool query" where
  "with_client client f = (case client of None \<Rightarrow> returnQ False | Some c \<Rightarrow> f c)"

definition find_references :: "QueryEngine \<Rightarrow> SymbolRef \<Rightarrow> Filter \<Rightarrow> Page \<Rightarrow> LspQueryClient option \<Rightarrow> (FindReferencesResult \<times> bool) query" where
  "find_references qe symref filt page client =
     bindQ (resolve_anchor_id qe symref client) (\<lambda>(a, timed_out). case a of
         None \<Rightarrow> bindQ (hint_fqns_for_symref qe symref) (\<lambda>hints.
           returnQ (\<lparr>fr_references = [], fr_next_cursor = None, fr_hint_fqns = hints\<rparr>, timed_out))
       | Some (anchor_id, anchor) \<Rightarrow>
           bindQ (with_client client (\<lambda>c. bindQ (ensure_open qe c (n_uri anchor))
               (\<lambda>_. materialize_references qe c anchor_id anchor))) (\<lambda>t.
             bindQ (references_from_cache qe anchor_id filt page) (\<lambda>res.
               returnQ (res, timed_out \<or> t))))"

definition call_graph :: "QueryEngine \<Rightarrow> SymbolRef \<Rightarrow> Direction \<Rightarrow> Filter \<Rightarrow> Page \<Rightarrow> LspQueryClient option \<Rightarrow> (CallGraphResult \<times> bool) query" where
  "call_graph qe symref dir filt page client =
     bindQ (resolve_anchor_id qe symref client) (\<lambda>(a, timed_out). case a of
         None \<Rightarrow> bindQ (hint_fqns_for_symref qe symref) (\<lambda>hints.
           returnQ (\<lparr>cr_items = [], cr_next_cursor = None, cr_hint_fqns = hints\<rparr>, timed_out))
       | Some (anchor_id, anchor) \<Rightarrow>
           bindQ (with_client client (\<lambda>c. bindQ (ensure_open qe c (n_uri anchor))
               (\<lambda>_. materialize_call_edges qe c anchor_id anchor dir))) (\<lambda>t.
             bindQ (read_calls_page qe anchor_id dir filt page) (\<lambda>res.
               returnQ (res, timed_out \<or> t))))"

definition find_callers :: "QueryEngine \<Rightarrow> SymbolRef \<Rightarrow> Filter \<Rightarrow> Page \<Rightarrow> LspQueryClient option \<Rightarrow> (CallGraphResult \<times> bool) query" where
  "find_callers qe symref filt page client = call_graph qe symref Incoming filt page client"

definition content_hash :: "QueryEngine \<Rightarrow> string \<Rightarrow> string" where
  "content_hash qe text = hex16 (qe_hash qe [HStr text])"

definition open_text :: "LspQueryClient \<Rightarrow> string \<Rightarrow> string option \<Rightarrow> unit query" where
  "open_text c u text = (case text of
      None \<Rightarrow> returnQ ()
    | Some t \<Rightarrow> bindQ (open_document c u t) (\<lambda>_. returnQ ()))"

text \<open>Throwing away an anchor's outgoing calls and asking for them anew.\<close>

definition refresh_outgoing :: "QueryEngine \<Rightarrow> LspQueryClient \<Rightarrow> int \<Rightarrow> Node \<Rightarrow> bool query" where
  "refresh_outgoing qe c anchor_id anchor =
     bindQ (on_db (db_update (invalidate_outgoing_calls anchor_id)))
       (\<lambda>_. materialize_call_edges qe c anchor_id anchor Outgoing)"

definition store_hash :: "int \<Rightarrow> string \<Rightarrow> unit query" where
  "store_hash i h = on_db (db_write_unit (set_callees_cache_hash i h))"

definition cached_hash :: "int \<Rightarrow> (string option) query" where
  "cached_hash i = on_db (db_read (\<lambda>d. get_callees_cache_hash d i))"

definition freshen_callees :: "QueryEngine \<Rightarrow> LspQueryClient \<Rightarrow> int \<Rightarrow> Node \<Rightarrow> bool query" where
  "freshen_callees qe c anchor_id anchor =
     bindQ (read_file_text qe (n_uri anchor)) (\<lambda>text.
       bindQ (open_text c (n_uri anchor) text) (\<lambda>_.
         case text of
           Some t \<Rightarrow> (let h = content_hash qe t in
             bindQ (cached_hash anchor_id) (\<lambda>cached.
               if cached = Some h then returnQ False
               else bindQ (refresh_outgoing qe c anchor_id anchor)
                 (\<lambda>timed_out. bindQ (store_hash anchor_id h) (\<lambda>_. returnQ timed_out))))
         | None \<Rightarrow> refresh_outgoing qe c anchor_id anchor))"

definition find_callees :: "QueryEngine \<Rightarrow> SymbolRef \<Rightarrow> Filter \<Rightarrow> Page \<Rightarrow> LspQueryClient option \<Rightarrow> (CallGraphResult \<times> bool) query" where
  "find_callees qe symref filt page client =
     bindQ (resolve_anchor_id qe symref client) (\<lambda>(a, timed_out). case a of
         None \<Rightarrow> bindQ (hint_fqns_for_symref qe symref) (\<lambda>hints.
           returnQ (\<lparr>cr_items = [], cr_next_cursor = None, cr_hint_fqns = hints\<rparr>, timed_out))
       | Some (anchor_id, anchor) \<Rightarrow>
           bindQ (with_client client (\<lambda>c. freshen_callees qe c anchor_id anchor)) (\<lambda>t.
             bindQ (read_calls_page qe anchor_id Outgoing filt page) (\<lambda>res.
               returnQ (res, timed_out \<or> t))))"

section \<open>Call paths\<close>

text \<open>
  \<open>expand_outgoing_calls\<close>, with the remaining budget as argument and part of the result:
  (usable, timed out, budget left).
\<close>

definition expand_outgoing_calls :: "QueryEngine \<Rightarrow> int \<Rightarrow> Node \<Rightarrow> LspQueryClient option \<Rightarrow> nat \<Rightarrow> (bool \<times> bool \<times> nat) query" where
  "expand_outgoing_calls qe anchor_id anchor client budget = (case client of
      None \<Rightarrow> returnQ (False, False, budget)
    | Some c \<Rightarrow>
        bindQ (read_file_text qe (n_uri anchor)) (\<lambda>text.
          bindQ (open_text c (n_uri anchor) text) (\<lambda>_.
            let h = map_option (content_hash qe) text in
            bindQ (case h of None \<Rightarrow> returnQ False
                   | Some hash \<Rightarrow> bindQ (cached_hash anchor_id) (\<lambda>cached. returnQ (cached = Some hash))) (\<lambda>hit.
              if hit then returnQ (True, False, budget)
              else if budget = 0 then returnQ (False, False, budget)
              else bindQ (refresh_outgoing qe c anchor_id anchor) (\<lambda>timed_out.
                bindQ (case h of None \<Rightarrow> returnQ () | Some hash \<Rightarrow> store_hash anchor_id hash) (\<lambda>_.
                  returnQ (True, timed_out, budget - 1)))))))"

record Search =
  se_visited :: "int list"
  se_queue :: "(int \<times> Node \<times> Node list) list"
  se_budget :: nat
  se_limit_reached :: bool
  se_timed_out :: bool

text \<open>The loop over the callees of one node: the target found, or the search continued.\<close>

fun scan_callees :: "int \<Rightarrow> Node list \<Rightarrow> (Node \<times> Site list) list \<Rightarrow> Search \<Rightarrow> Node list + Search" where
  "scan_callees to_id path [] s = Inr s"
| "scan_callees to_id path ((callee, sites) # rest) s =
     (case n_id callee of
        None \<Rightarrow> scan_callees to_id path rest s
      | Some i \<Rightarrow>
          if i = to_id then Inl (path @ [callee])
          else if i \<in> set (se_visited s) then scan_callees to_id path rest s
          else scan_callees to_id path rest
            (s\<lparr>se_visited := i # se_visited s, se_queue := se_queue s @ [(i, callee, path @ [callee])]\<rparr>))"

text \<open>
  The \<open>while let\<close> loop: \<open>Inl path\<close> when the target was found, \<open>Inr\<close> of the exhausted search
  otherwise. The fuel bounds the number of nodes taken from the queue; \<open>None\<close> would mean it
  ran out.
\<close>

fun search_calls :: "nat \<Rightarrow> QueryEngine \<Rightarrow> int \<Rightarrow> nat \<Rightarrow> LspQueryClient option \<Rightarrow> Search \<Rightarrow> ((Node list \<times> bool + Search) option) query" where
  "search_calls 0 qe to_id max_depth client s = returnQ None"
| "search_calls (Suc fuel) qe to_id max_depth client s =
     (case se_queue s of
        [] \<Rightarrow> returnQ (Some (Inr s))
      | (i, node, path) # queue \<Rightarrow>
          (let s1 = s\<lparr>se_queue := queue\<rparr> in
           if max_depth < length path
           then search_calls fuel qe to_id max_depth client (s1\<lparr>se_limit_reached := True\<rparr>)
           else bindQ (expand_outgoing_calls qe i node client (se_budget s1)) (\<lambda>(usable, t, budget).
             let s2 = s1\<lparr>se_budget := budget, se_timed_out := se_timed_out s1 \<or> t,
                   se_limit_reached := se_limit_reached s1 \<or> \<not> usable\<rparr> in
             bindQ (neighbors_of qe i ''calls'' Outgoing) (\<lambda>ns.
               case scan_callees to_id path (group_by_node ns) s2 of
                 Inl found \<Rightarrow> returnQ (Some (Inl (found, se_timed_out s2)))
               | Inr s3 \<Rightarrow> search_calls fuel qe to_id max_depth client s3))))"

definition path_result :: "bool \<Rightarrow> NodeDto list \<Rightarrow> bool \<Rightarrow> string list \<Rightarrow> string list \<Rightarrow> FindCallPathResult" where
  "path_result reachable path limit_reached from_hints to_hints = \<lparr>cp_reachable = reachable,
     cp_path = path, cp_limit_reached = limit_reached, cp_from_hint_fqns = from_hints,
     cp_to_hint_fqns = to_hints\<rparr>"

definition search_start :: "int \<Rightarrow> Node \<Rightarrow> nat \<Rightarrow> bool \<Rightarrow> Search" where
  "search_start from_id from_node max_lsp_calls timed_out = \<lparr>se_visited = [from_id],
     se_queue = [(from_id, from_node, [from_node])], se_budget = max_lsp_calls,
     se_limit_reached = False, se_timed_out = timed_out\<rparr>"

definition node_count :: "nat query" where
  "node_count = on_db (db_read (\<lambda>d. length (db_nodes d)))"

text \<open>Every queued node is a different row, so the rows of the table and one more are enough fuel.\<close>

definition path_search :: "QueryEngine \<Rightarrow> int \<Rightarrow> Node \<Rightarrow> int \<Rightarrow> nat \<Rightarrow> nat \<Rightarrow> bool \<Rightarrow> LspQueryClient option \<Rightarrow> ((Node list \<times> bool + Search) option) query" where
  "path_search qe from_id from_node to_id max_depth max_lsp_calls timed_out client =
     bindQ node_count (\<lambda>n. search_calls (n + 1) qe to_id max_depth client
       (search_start from_id from_node max_lsp_calls timed_out))"

definition hint_if_missing :: "QueryEngine \<Rightarrow> SymbolRef \<Rightarrow> bool \<Rightarrow> (string list) query" where
  "hint_if_missing qe symref missing = (if missing then hint_fqns_for_symref qe symref else returnQ [])"

definition find_call_path :: "QueryEngine \<Rightarrow> SymbolRef \<Rightarrow> SymbolRef \<Rightarrow> nat \<Rightarrow> nat \<Rightarrow> LspQueryClient option \<Rightarrow> ((FindCallPathResult \<times> bool) option) query" where
  "find_call_path qe from_ref to_ref max_depth max_lsp_calls client =
     bindQ (resolve_anchor_id qe from_ref client) (\<lambda>(from_anchor, t1).
       bindQ (resolve_anchor_id qe to_ref client) (\<lambda>(to_anchor, t2).
         case (from_anchor, to_anchor) of
           (Some (from_id, from_node), Some (to_id, to_node)) \<Rightarrow>
             if from_id = to_id
             then returnQ (Some (path_result True [dto_from_node from_node] False [] [], t1 \<or> t2))
             else bindQ (path_search qe from_id from_node to_id max_depth max_lsp_calls (t1 \<or> t2) client) (\<lambda>r.
               returnQ (map_option (\<lambda>x. case x of
                   Inl (found, t) \<Rightarrow> (path_result True (map dto_from_node found) False [] [], t)
                 | Inr s \<Rightarrow> (path_result False [] (se_limit_reached s) [] [], se_timed_out s)) r))
         | _ \<Rightarrow> bindQ (hint_if_missing qe from_ref (from_anchor = None)) (\<lambda>fh.
             bindQ (hint_if_missing qe to_ref (to_anchor = None)) (\<lambda>th.
               returnQ (Some (path_result False [] False fh th, t1 \<or> t2))))))"

end
