(* ===== verification/Query_Frame.thy ===== *)
theory Query_Frame
  imports Query_Ops Graph_Props
begin

text \<open>
  What the query operations may change. A step owns some edges: it leaves every other edge, and
  every row, as it found them. The locale \<open>edge_owner\<close> states this discipline for any set of
  owned edges; it is used with all edges (the store stays consistent) and with the outgoing
  calls of one row (expanding a row does not disturb another).
\<close>

section \<open>The discipline\<close>

definition frame :: "(Edge \<Rightarrow> bool) \<Rightarrow> World \<Rightarrow> World \<Rightarrow> bool" where
  "frame own w w' \<longleftrightarrow> (wf_db (w_db w) \<longrightarrow>
     wf_db (w_db w') \<and> db_nodes (w_db w') = db_nodes (w_db w) \<and>
     (\<forall>e. \<not> own e \<longrightarrow> (e \<in> set (db_edges (w_db w')) \<longleftrightarrow> e \<in> set (db_edges (w_db w)))))"

lemma preorder_frame [steps]: "preorder_rel (frame own)"
  by (auto simp: preorder_rel_def frame_def)

lemma stepsQ_ask [steps]: "stepsQ (frame own) (ask a f)"
  by (simp add: stepsQ_def ask_def frame_def)

lemma stepsQ_on_db:
  "(\<And>w. R w (w\<lparr>w_db := snd (m (w_db w))\<rparr>)) \<Longrightarrow> stepsQ R (on_db m)"
  by (simp add: stepsQ_def on_db_def split: prod.splits) (metis snd_conv)

lemma stepsQ_db_read [steps]: "stepsQ (frame own) (on_db (db_read f))"
  by (rule stepsQ_on_db) (simp add: db_read_def frame_def)

lemma stepsQ_store_hash [steps]: "stepsQ (frame own) (store_hash i h)"
  unfolding store_hash_def
proof (rule stepsQ_on_db)
  fix w :: World
  show "frame own w (w\<lparr>w_db := snd (db_write_unit (set_callees_cache_hash i h) (w_db w))\<rparr>)"
  proof (cases "set_callees_cache_hash i h (w_db w)")
    case (Inl e)
    then show ?thesis by (simp add: db_write_unit_def frame_def)
  next
    case (Inr d')
    then have "db_nodes d' = db_nodes (w_db w)" "db_edges d' = db_edges (w_db w)"
      by (auto simp: set_callees_cache_hash_def split: if_splits)
    with Inr show ?thesis by (auto simp: db_write_unit_def frame_def intro: set_callees_cache_hash_wf)
  qed
qed

lemmas resolver_steps = read_file_text_def confine_def canonicalize_def read_path_def ensure_open_def
  open_document_def open_text_def Let_def

lemma stepsQ_ensure_open [steps]: "stepsQ (frame own) (ensure_open qe c u)"
  unfolding resolver_steps by (intro steps | simp add: steps split: sum.split)+

lemma stepsQ_read_file_text [steps]: "stepsQ (frame own) (read_file_text qe u)"
  unfolding resolver_steps by (intro steps | simp add: steps split: sum.split)+

lemma stepsQ_open_text [steps]: "stepsQ (frame own) (open_text c u t)"
  unfolding resolver_steps by (intro steps)

lemma stepsQ_node_at [steps]: "stepsQ (frame own) (node_at qe u p)" "stepsQ (frame own) (node_of_location qe l)"
  "stepsQ (frame own) (neighbors_of qe i t dir)" "stepsQ (frame own) (cached_hash i)"
  unfolding node_of_location_def node_at_def neighbors_of_def cached_hash_def by (intro steps)+

lemma stepsQ_with_row [steps]:
  "stepsQ (frame own) m \<Longrightarrow> (\<And>n i. stepsQ (frame own) (f n i)) \<Longrightarrow> stepsQ (frame own) (with_row m f)"
  unfolding with_row_def by (intro steps)

lemma stepsQ_first_indexed [steps]: "stepsQ (frame own) (first_indexed qe ls)"
  by (induction ls) (simp_all, (intro steps | assumption)+)

lemma stepsQ_resolve_anchor [steps]: "stepsQ (frame own) (resolve_anchor_id qe symref client)"
  unfolding resolve_anchor_id_def definition_anchor_def Let_def
  by (cases symref; cases client; simp; intro steps)

locale edge_owner =
  fixes own :: "Edge \<Rightarrow> bool"
  assumes own_key: "edge_key e = edge_key f \<Longrightarrow> own e \<longleftrightarrow> own f"
begin

lemma put_edge_frame [steps]:
  assumes "own e"
  shows "stepsQ (frame own) (put_edge e)"
proof -
  have "stepsQ (frame own) (on_db (db_write (upsert_edge e)))"
  proof (rule stepsQ_on_db)
    fix w :: World
    show "frame own w (w\<lparr>w_db := snd (db_write (upsert_edge e) (w_db w))\<rparr>)"
    proof (cases "upsert_edge e (w_db w)")
      case (Inl x)
      then show ?thesis by (simp add: db_write_def frame_def)
    next
      case (Inr p)
      obtain i d' where p: "p = (i, d')" by (cases p)
      have up: "upsert_edge e (w_db w) = Inr (i, d')" using Inr p by simp
      have "db_nodes d' = db_nodes (w_db w) \<and>
          (\<forall>f. \<not> own f \<longrightarrow> (f \<in> set (db_edges d') \<longleftrightarrow> f \<in> set (db_edges (w_db w))))"
        if wf: "wf_db (w_db w)"
        using up
      proof (cases rule: upsert_edge_cases)
        case (reactivate f)
        have owned: "own g" if "g \<in> set (db_edges (w_db w))" "e_id g = Some i" for g
          using own_key [of g e] wf_edge_eqI(1) [OF wf that(1) reactivate(1)] that(2) reactivate(2,3) assms
          by auto
        have "own (g\<lparr>e_valid := e_valid e, e_site := e_site e\<rparr>)"
          if "g \<in> set (db_edges (w_db w))" "e_id g = Some i" for g
        proof -
          have "g = f" using wf_edge_eqI(1) [OF wf that(1) reactivate(1)] that(2) reactivate(3) by simp
          then have "edge_key (g\<lparr>e_valid := e_valid e, e_site := e_site e\<rparr>) = edge_key e"
            using reactivate(2) by (simp add: edge_key_def)
          with own_key assms show ?thesis by blast
        qed
        then show ?thesis using owned reactivate(4) by (auto simp: image_iff)
      next
        case insert
        have "own (e\<lparr>e_id := Some i\<rparr>)" using own_key [of "e\<lparr>e_id := Some i\<rparr>" e] assms by (simp add: edge_key_def)
        then show ?thesis using insert by auto
      qed
      then show ?thesis using up upsert_edge_wf by (auto simp: db_write_def frame_def)
    qed
  qed
  then show ?thesis unfolding put_edge_def by (intro steps)
qed

lemma invalidate_calls_frame [steps]:
  assumes "\<And>e. e_src e = i \<Longrightarrow> e_type e = ''calls'' \<Longrightarrow> own e"
  shows "stepsQ (frame own) (on_db (db_update (invalidate_outgoing_calls i)))"
proof (rule stepsQ_on_db)
  fix w :: World
  have "f \<in> set (db_edges (invalidate_outgoing_calls i (w_db w))) \<longleftrightarrow> f \<in> set (db_edges (w_db w))" if "\<not> own f" for f
  proof -
    have "\<not> (e_src f = i \<and> e_type f = ''calls'')" using assms that by blast
    then show ?thesis by (auto simp: invalidate_outgoing_calls_def image_iff)
  qed
  moreover have "db_nodes (invalidate_outgoing_calls i (w_db w)) = db_nodes (w_db w)"
    by (simp add: invalidate_outgoing_calls_def)
  ultimately show "frame own w (w\<lparr>w_db := snd (db_update (invalidate_outgoing_calls i) (w_db w))\<rparr>)"
    by (auto simp: db_update_def frame_def invalidate_outgoing_calls_wf)
qed

lemma materialize_references_frame [steps]:
  assumes "\<And>src s. own (located_edge src anchor_id ''references'' s)"
  shows "stepsQ (frame own) (materialize_references qe c anchor_id anchor)"
  unfolding materialize_references_def Let_def using assms by (intro steps) auto

lemma call_edges_from_frame [steps]:
  assumes "\<And>s. own (located_edge src dst ''calls'' s)"
  shows "stepsQ (frame own) (call_edges_from u src dst rs)"
  unfolding call_edges_from_def using assms by (intro steps) auto

lemma resolve_outgoing_callee_frame [steps]:
  assumes "\<And>src dst s. own (located_edge src dst ''implements'' s)"
  shows "stepsQ (frame own) (resolve_outgoing_callee qe c anchor callee callee_id)"
proof -
  have "stepsQ (frame own) (concrete_of qe callee_id l)" for l
    unfolding concrete_of_def using assms by (intro steps) auto
  then show ?thesis
    unfolding resolve_outgoing_callee_def is_interface_row_def Let_def by (intro steps) auto
qed

lemma materialize_incoming_frame [steps]:
  assumes "\<And>src s. own (located_edge src anchor_id ''calls'' s)"
  shows "stepsQ (frame own) (materialize_incoming qe c anchor_id item)"
  unfolding materialize_incoming_def caller_of_def Let_def using assms by (intro steps) auto

lemma stepsQ_fold:
  "(\<And>x b. stepsQ (frame own) (f x b)) \<Longrightarrow> stepsQ (frame own) (foldQ f xs b)"
  by (induction xs arbitrary: b) (simp_all add: steps)

lemma materialize_outgoing_frame [steps]:
  assumes "\<And>dst s. own (located_edge anchor_id dst ''calls'' s)"
    and "\<And>src dst s. own (located_edge src dst ''implements'' s)"
  shows "stepsQ (frame own) (materialize_outgoing qe c anchor_id anchor item)"
proof -
  have "stepsQ (frame own) (materialize_outgoing_call qe c anchor_id anchor call b)" for call b
    unfolding materialize_outgoing_call_def using assms by (intro steps) auto
  then show ?thesis unfolding materialize_outgoing_def Let_def by (intro steps stepsQ_fold)
qed

lemma materialize_call_edges_frame:
  assumes "\<And>src s. dir = Incoming \<Longrightarrow> own (located_edge src anchor_id ''calls'' s)"
    and "\<And>dst s. dir = Outgoing \<Longrightarrow> own (located_edge anchor_id dst ''calls'' s)"
    and "\<And>src dst s. dir = Outgoing \<Longrightarrow> own (located_edge src dst ''implements'' s)"
  shows "stepsQ (frame own) (materialize_call_edges qe c anchor_id anchor dir)"
proof (cases dir)
  case Incoming
  then have "stepsQ (frame own) (materialize_incoming qe c anchor_id item)" for item
    using assms(1) by (intro materialize_incoming_frame) auto
  then show ?thesis unfolding materialize_call_edges_def Let_def Incoming Direction.case
    by (intro stepsQ_bind stepsQ_ask preorder_frame stepsQ_prod stepsQ_list stepsQ_return)
next
  case Outgoing
  then have "stepsQ (frame own) (materialize_outgoing qe c anchor_id anchor item)" for item
    using assms(2,3) by (intro materialize_outgoing_frame) auto
  then show ?thesis unfolding materialize_call_edges_def Let_def Outgoing Direction.case
    by (intro stepsQ_bind stepsQ_ask preorder_frame stepsQ_prod stepsQ_list stepsQ_return)
qed

lemma refresh_outgoing_frame:
  assumes "\<And>e. e_src e = anchor_id \<Longrightarrow> e_type e = ''calls'' \<Longrightarrow> own e"
    and "\<And>src dst s. own (located_edge src dst ''implements'' s)"
  shows "stepsQ (frame own) (refresh_outgoing qe c anchor_id anchor)"
proof -
  have "own (located_edge anchor_id dst ''calls'' s)" for dst s
    using assms(1) by (simp add: located_edge_def)
  then have "stepsQ (frame own) (materialize_call_edges qe c anchor_id anchor Outgoing)"
    using assms(2) by (intro materialize_call_edges_frame) auto
  moreover have "stepsQ (frame own) (on_db (db_update (invalidate_outgoing_calls anchor_id)))"
    by (rule invalidate_calls_frame) (rule assms(1))
  ultimately show ?thesis unfolding refresh_outgoing_def
    by (intro stepsQ_bind preorder_frame)
qed

lemma expand_frame:
  assumes "\<And>e. e_src e = anchor_id \<Longrightarrow> e_type e = ''calls'' \<Longrightarrow> own e"
    and "\<And>src dst s. own (located_edge src dst ''implements'' s)"
  shows "stepsQ (frame own) (expand_outgoing_calls qe anchor_id anchor client b)"
proof -
  have "stepsQ (frame own) (refresh_outgoing qe c anchor_id anchor)" for c
    using assms by (rule refresh_outgoing_frame)
  then show ?thesis unfolding expand_outgoing_calls_def Let_def
    by (intro stepsQ_option stepsQ_bind preorder_frame stepsQ_read_file_text stepsQ_open_text
        stepsQ_return stepsQ_if stepsQ_node_at stepsQ_store_hash)
qed

end

end
