(* ===== verification/Query_Total.thy ===== *)
theory Query_Total
  imports Query_Frame
begin

text \<open>
  The queries always answer. Over a consistent store no graph query fails, whatever the language
  server answers, because every edge it writes joins rows that exist; and the rows stay what
  they were. (\<open>read_range\<close>, which reports unreadable files, and the refinement of a row by
  \<open>find_definition\<close> are treated apart.)
\<close>

section \<open>The invariant\<close>

text \<open>A consistent store whose rows are \<open>N\<close>.\<close>

definition rows_are :: "Node list \<Rightarrow> World \<Rightarrow> bool" where
  "rows_are N w \<longleftrightarrow> wf_db (w_db w) \<and> db_nodes (w_db w) = N"

definition row_id :: "Node list \<Rightarrow> int \<Rightarrow> bool" where
  "row_id N i \<longleftrightarrow> (\<exists>n \<in> set N. n_id n = Some i)"

definition row_in :: "Node list \<Rightarrow> Node option \<Rightarrow> bool" where
  "row_in N x \<longleftrightarrow> (\<forall>n. x = Some n \<longrightarrow> n \<in> set N)"

lemma rows_are_ids: "rows_are N w \<Longrightarrow> Some i \<in> node_ids (w_db w) \<longleftrightarrow> row_id N i"
  by (auto simp: rows_are_def row_id_def node_ids_iff)

lemma row_idI: "n \<in> set N \<Longrightarrow> n_id n = Some i \<Longrightarrow> row_id N i"
  by (auto simp: row_id_def)

lemma totalQ_ask: "(\<And>h. Q (f h)) \<Longrightarrow> totalQ (rows_are N) (ask a f) Q"
  by (simp add: totalQ_def ask_def rows_are_def)

lemma totalQ_read:
  "(\<And>d. wf_db d \<Longrightarrow> db_nodes d = N \<Longrightarrow> Q (f d)) \<Longrightarrow> totalQ (rows_are N) (on_db (db_read f)) Q"
  by (simp add: totalQ_def on_db_def db_read_def rows_are_def)

lemma totalQ_any: "totalQ (rows_are N) (on_db (db_read f)) (\<lambda>_. True)"
  by (rule totalQ_read) simp

lemma find_node_by_position_in:
  assumes "row_order_ok ro" and "find_node_by_position ro d u l c = Some n"
  shows "n \<in> set (db_nodes d) \<and> n_valid n \<and> n_uri n = u"
  using find_node_by_position_innermost [OF assms(1), of d u l c] assms(2) by (simp add: covers_def)

lemma totalQ_node_at:
  "row_order_ok (qe_order qe) \<Longrightarrow> totalQ (rows_are N) (node_at qe u p) (row_in N)"
  "row_order_ok (qe_order qe) \<Longrightarrow> totalQ (rows_are N) (node_of_location qe l) (row_in N)"
  unfolding node_of_location_def node_at_def
  by (rule totalQ_read, auto simp: row_in_def dest: find_node_by_position_in)+

lemma totalQ_put_edge:
  assumes "row_id N s" "row_id N t" "ty \<in> set edge_types"
  shows "totalQ (rows_are N) (put_edge (located_edge s t ty site)) (\<lambda>_. True)"
proof -
  have "totalQ (rows_are N) (on_db (db_write (upsert_edge (located_edge s t ty site)))) (\<lambda>_. True)"
    unfolding totalQ_def
  proof (intro allI impI)
    fix w :: World
    assume w: "rows_are N w"
    let ?e = "located_edge s t ty site"
    have wf: "wf_db (w_db w)" and ids: "Some s \<in> node_ids (w_db w)" "Some t \<in> node_ids (w_db w)"
      using w assms(1,2) rows_are_ids by (auto simp: rows_are_def)
    have "\<exists>i d'. upsert_edge ?e (w_db w) = Inr (i, d')"
    proof (cases "List.find (same_edge ?e) (db_edges (w_db w))")
      case None
      then show ?thesis using ids assms(3)
        by (simp add: upsert_edge_def Let_def node_exists_iff located_edge_def)
    next
      case (Some f)
      then have "f \<in> set (db_edges (w_db w))" by (simp add: find_SomeD)
      then obtain i where "e_id f = Some i" using wf by (auto simp: wf_db_def wf_edges_def rows_ok_def)
      with Some show ?thesis by (simp add: upsert_edge_def)
    qed
    then obtain i d' where up: "upsert_edge ?e (w_db w) = Inr (i, d')" by blast
    then have "wf_db d'" "db_nodes d' = db_nodes (w_db w)"
      using upsert_edge_wf [OF wf up] upsert_edge_result [OF wf up] by auto
    with up w show "\<exists>x w'. on_db (db_write (upsert_edge ?e)) w = (Inr x, w') \<and> rows_are N w' \<and> True"
      by (simp add: on_db_def db_write_def rows_are_def)
  qed
  then show ?thesis unfolding put_edge_def by (rule totalQ_bind) (rule totalQ_return, rule TrueI)
qed

section \<open>The steps\<close>

lemma totalQ_confine: "totalQ (rows_are N) (confine qe u) (\<lambda>_. True)"
  unfolding confine_def canonicalize_def Let_def
  by (intro totalQ_bind [OF totalQ_ask, of "\<lambda>_. True"] totalQ_return TrueI)

lemma totalQ_read_file_text: "totalQ (rows_are N) (read_file_text qe u) (\<lambda>_. True)"
  unfolding read_file_text_def read_path_def
  by (intro totalQ_bind [OF totalQ_confine] totalQ_sum totalQ_return totalQ_ask TrueI)

lemma totalQ_open_text: "totalQ (rows_are N) (open_text c u t) (\<lambda>_. True)"
  unfolding open_text_def open_document_def
  by (intro totalQ_option totalQ_bind [OF totalQ_ask, of "\<lambda>_. True"] totalQ_return TrueI)

lemma totalQ_ensure_open: "totalQ (rows_are N) (ensure_open qe c u) (\<lambda>_. True)"
  unfolding ensure_open_def open_document_def
  by (intro totalQ_bind [OF totalQ_read_file_text] totalQ_option
      totalQ_bind [OF totalQ_ask, of "\<lambda>_. True"] totalQ_return TrueI)

lemma totalQ_with_row:
  assumes "totalQ (rows_are N) m (row_in N)"
    and "\<And>n i. n \<in> set N \<Longrightarrow> n_id n = Some i \<Longrightarrow> totalQ (rows_are N) (f n i) (\<lambda>_. True)"
  shows "totalQ (rows_are N) (with_row m f) (\<lambda>_. True)"
  unfolding with_row_def
  by (rule totalQ_bind [OF assms(1)]) (auto intro!: totalQ_return totalQ_option assms(2) simp: row_in_def)

lemma totalQ_first_indexed:
  "row_order_ok (qe_order qe) \<Longrightarrow> totalQ (rows_are N) (first_indexed qe ls) (row_in N)"
proof (induction ls)
  case Nil
  then show ?case by (simp add: totalQ_Pair row_in_def)
next
  case (Cons l ls)
  then show ?case
    by (auto intro!: totalQ_bind [OF totalQ_node_at(2)] totalQ_option totalQ_return)
qed

lemma totalQ_definition_anchor:
  assumes "row_order_ok (qe_order qe)"
  shows "totalQ (rows_are N) (definition_anchor qe c u l k) (\<lambda>x. row_in N (fst x))"
  unfolding definition_anchor_def Let_def
  by (rule totalQ_bind [OF totalQ_ask, of "\<lambda>_. True"])
    (auto intro!: totalQ_prod totalQ_bind [OF totalQ_first_indexed] totalQ_option totalQ_return
      totalQ_bind [OF totalQ_node_at(1)] assms)

text \<open>An anchor is a row with its id.\<close>

definition anchor_in :: "Node list \<Rightarrow> (int \<times> Node) option \<Rightarrow> bool" where
  "anchor_in N a \<longleftrightarrow> (\<forall>i n. a = Some (i, n) \<longrightarrow> n \<in> set N \<and> n_id n = Some i)"

lemma totalQ_resolve_anchor:
  assumes "row_order_ok (qe_order qe)"
  shows "totalQ (rows_are N) (resolve_anchor_id qe symref client) (\<lambda>x. anchor_in N (fst x))"
proof -
  have by_fqn: "totalQ (rows_are N) (on_db (db_read (\<lambda>d. get_node_by_fqn d f))) (row_in N)" for f
    by (rule totalQ_read) (auto simp: row_in_def get_node_by_fqn_Some)
  have "totalQ (rows_are N) (case symref of
        Fqn f \<Rightarrow> bindQ (on_db (db_read (\<lambda>d. get_node_by_fqn d f))) (\<lambda>n. returnQ (n, False))
      | At u line character \<Rightarrow>
          (case client of
             Some c \<Rightarrow> definition_anchor qe c u line character
           | None \<Rightarrow> bindQ (node_at qe u \<lparr>lp_line = line, lp_character = character\<rparr>)
               (\<lambda>n. returnQ (n, False)))) (\<lambda>x. row_in N (fst x))"
    by (cases symref)
      (auto intro!: totalQ_bind [OF by_fqn] totalQ_bind [OF totalQ_node_at(1)] totalQ_return
        totalQ_option totalQ_definition_anchor assms)
  then show ?thesis unfolding resolve_anchor_id_def
    by (rule totalQ_bind)
      (auto intro!: totalQ_prod totalQ_return simp: row_in_def anchor_in_def split: option.splits bind_splits)
qed

lemma edge_types_used [simp]:
  "''calls'' \<in> set edge_types" "''references'' \<in> set edge_types" "''implements'' \<in> set edge_types"
  by (simp_all add: edge_types_def)

lemma totalQ_materialize_references:
  assumes "row_order_ok (qe_order qe)" and "row_id N i"
  shows "totalQ (rows_are N) (materialize_references qe c i anchor) (\<lambda>_. True)"
  unfolding materialize_references_def Let_def
  by (rule totalQ_bind [OF totalQ_ask, of "\<lambda>_. True"])
    (auto intro!: totalQ_prod totalQ_bind [OF totalQ_for_each] totalQ_with_row totalQ_node_at
      totalQ_put_edge totalQ_return assms intro: row_idI)

lemma totalQ_call_edges_from:
  "row_id N s \<Longrightarrow> row_id N t \<Longrightarrow> totalQ (rows_are N) (call_edges_from u s t rs) (\<lambda>_. True)"
  unfolding call_edges_from_def by (intro totalQ_for_each totalQ_put_edge) simp_all

lemma totalQ_materialize_incoming:
  assumes "row_order_ok (qe_order qe)" and "row_id N i"
  shows "totalQ (rows_are N) (materialize_incoming qe c i item) (\<lambda>_. True)"
proof -
  have "totalQ (rows_are N) (caller_of qe k) (row_in N)" for k
    unfolding caller_of_def
    by (auto intro!: totalQ_if totalQ_read totalQ_node_at assms simp: row_in_def get_node_by_fqn_Some)
  then show ?thesis
    unfolding materialize_incoming_def Let_def
    by (intro totalQ_bind [OF totalQ_ask, of "\<lambda>_. True"] totalQ_prod totalQ_bind [OF totalQ_for_each]
        totalQ_with_row totalQ_call_edges_from totalQ_return assms TrueI) (auto intro: row_idI)
qed

lemma set_map_filter_id: "set (List.map_filter (\<lambda>x. x) xs) = {y. Some y \<in> set xs}"
  by (force simp: map_filter_def)

lemma totalQ_resolve_outgoing_callee:
  assumes "row_order_ok (qe_order qe)" and "row_id N i"
  shows "totalQ (rows_are N) (resolve_outgoing_callee qe c anchor callee i) (\<lambda>x. \<forall>j \<in> set (fst x). row_id N j)"
proof -
  have concrete: "totalQ (rows_are N) (concrete_of qe i l) (\<lambda>x. \<forall>j. x = Some j \<longrightarrow> row_id N j)" for l
    unfolding concrete_of_def
    by (rule totalQ_bind [OF totalQ_node_at(2) [OF assms(1)]])
      (auto intro!: totalQ_option totalQ_return totalQ_bind [OF totalQ_put_edge] assms intro: row_idI
        simp: row_in_def)
  have iface: "totalQ (rows_are N) (is_interface_row callee) (\<lambda>_. True)"
    unfolding is_interface_row_def by (intro totalQ_option totalQ_return totalQ_read TrueI)
  show ?thesis
    unfolding resolve_outgoing_callee_def Let_def
    by (auto intro!: totalQ_if totalQ_return totalQ_bind [OF iface] totalQ_bind [OF totalQ_ensure_open]
        totalQ_bind [OF totalQ_ask, of "\<lambda>_. True"] totalQ_prod totalQ_bind [OF totalQ_map [OF concrete]]
        simp: assms set_map_filter_id split: if_splits)
qed

lemma totalQ_materialize_outgoing:
  assumes "row_order_ok (qe_order qe)" and "row_id N i"
  shows "totalQ (rows_are N) (materialize_outgoing qe c i anchor item) (\<lambda>_. True)"
proof -
  have "totalQ (rows_are N) (materialize_outgoing_call qe c i anchor call b) (\<lambda>_. True)" for call b
    unfolding materialize_outgoing_call_def
    by (rule totalQ_bind [OF totalQ_node_at(1) [OF assms(1)]])
      (auto intro!: totalQ_option totalQ_return totalQ_bind [OF totalQ_resolve_outgoing_callee]
        totalQ_prod totalQ_bind [OF totalQ_for_each] totalQ_call_edges_from assms intro: row_idI
        simp: row_in_def)
  then show ?thesis
    unfolding materialize_outgoing_def Let_def
    by (intro totalQ_bind [OF totalQ_ask, of "\<lambda>_. True"] totalQ_prod totalQ_fold TrueI)
qed

lemma totalQ_materialize_call_edges:
  assumes "row_order_ok (qe_order qe)" and "row_id N i"
  shows "totalQ (rows_are N) (materialize_call_edges qe c i anchor dir) (\<lambda>_. True)"
  unfolding materialize_call_edges_def Let_def
  by (rule totalQ_bind [OF totalQ_ask, of "\<lambda>_. True"], simp)
    (cases dir; auto intro!: totalQ_prod totalQ_list totalQ_return
      totalQ_bind [OF totalQ_materialize_incoming] totalQ_bind [OF totalQ_materialize_outgoing] assms)

section \<open>The operations\<close>

lemma totalQ_resolver_reads:
  "totalQ (rows_are N) (neighbors_of qe i t dir) (\<lambda>_. True)"
  "totalQ (rows_are N) (cached_hash i) (\<lambda>_. True)"
  "totalQ (rows_are N) node_count (\<lambda>k. k = length N)"
  unfolding neighbors_of_def cached_hash_def node_count_def by (rule totalQ_read, simp)+

lemma totalQ_neighbors:
  assumes "row_order_ok (qe_order qe)"
  shows "totalQ (rows_are N) (neighbors_of qe i t dir) (\<lambda>ns. fst ` set ns \<subseteq> set N)"
  unfolding neighbors_of_def
  by (rule totalQ_read) (auto simp: get_neighbors_iff [OF assms])

lemma totalQ_invalidate: "totalQ (rows_are N) (on_db (db_update (invalidate_outgoing_calls i))) (\<lambda>_. True)"
proof -
  have "db_nodes (invalidate_outgoing_calls i d) = db_nodes d" for d
    by (simp add: invalidate_outgoing_calls_def)
  then show ?thesis
    by (simp add: totalQ_def on_db_def db_update_def rows_are_def invalidate_outgoing_calls_wf)
qed

lemma totalQ_refresh_outgoing:
  assumes "row_order_ok (qe_order qe)" and "row_id N i"
  shows "totalQ (rows_are N) (refresh_outgoing qe c i anchor) (\<lambda>_. True)"
  unfolding refresh_outgoing_def
  by (intro totalQ_bind [OF totalQ_invalidate] totalQ_materialize_call_edges assms)

lemma totalQ_store_hash:
  assumes "row_id N i"
  shows "totalQ (rows_are N) (store_hash i h) (\<lambda>_. True)"
  unfolding totalQ_def
proof (intro allI impI)
  fix w :: World
  assume w: "rows_are N w"
  then have "Some i \<in> node_ids (w_db w)" using assms rows_are_ids by blast
  then obtain d' where d': "set_callees_cache_hash i h (w_db w) = Inr d'" and "db_nodes d' = db_nodes (w_db w)"
    by (simp add: set_callees_cache_hash_def node_exists_iff)
  moreover have "wf_db d'" using w d' set_callees_cache_hash_wf by (auto simp: rows_are_def)
  ultimately show "\<exists>x w'. store_hash i h w = (Inr x, w') \<and> rows_are N w' \<and> True"
    using w by (simp add: store_hash_def on_db_def db_write_unit_def rows_are_def)
qed

lemma totalQ_freshen_callees:
  assumes "row_order_ok (qe_order qe)" and "row_id N i"
  shows "totalQ (rows_are N) (freshen_callees qe c i anchor) (\<lambda>_. True)"
  unfolding freshen_callees_def Let_def
  by (intro totalQ_bind [OF totalQ_read_file_text] totalQ_bind [OF totalQ_open_text] totalQ_option
      totalQ_bind [OF totalQ_resolver_reads(2)] totalQ_if totalQ_return totalQ_refresh_outgoing
      totalQ_bind [OF totalQ_refresh_outgoing] totalQ_bind [OF totalQ_store_hash] assms TrueI)

lemma totalQ_expand:
  assumes "row_order_ok (qe_order qe)" and "row_id N i"
  shows "totalQ (rows_are N) (expand_outgoing_calls qe i anchor client b) (\<lambda>_. True)"
proof -
  have hash: "totalQ (rows_are N) (case h of None \<Rightarrow> returnQ () | Some hash \<Rightarrow> store_hash i hash) (\<lambda>_. True)" for h
    by (intro totalQ_option totalQ_return totalQ_store_hash assms TrueI)
  have hit: "totalQ (rows_are N) (case h of None \<Rightarrow> returnQ False
      | Some hash \<Rightarrow> bindQ (cached_hash i) (\<lambda>cached. returnQ (cached = Some hash))) (\<lambda>_. True)" for h
    by (intro totalQ_option totalQ_return totalQ_bind [OF totalQ_resolver_reads(2)] TrueI)
  show ?thesis
    unfolding expand_outgoing_calls_def Let_def
    by (intro totalQ_option totalQ_return TrueI totalQ_bind [OF totalQ_read_file_text]
        totalQ_bind [OF totalQ_open_text] totalQ_bind [OF hit] totalQ_if
        totalQ_bind [OF totalQ_refresh_outgoing] totalQ_bind [OF hash] assms)
qed

lemma totalQ_hints: "totalQ (rows_are N) (hint_fqns_for_symref qe symref) (\<lambda>_. True)"
  unfolding hint_fqns_for_symref_def hint_fqns_for_def Let_def
  by (cases symref) (auto intro!: totalQ_return totalQ_bind [OF totalQ_any])

lemma totalQ_pages:
  "totalQ (rows_are N) (references_from_cache qe i filt page) (\<lambda>_. True)"
  "totalQ (rows_are N) (read_calls_page qe i dir filt page) (\<lambda>_. True)"
  unfolding references_from_cache_def read_calls_page_def
  by (rule totalQ_bind [OF totalQ_resolver_reads(1)], simp add: split_def Let_def totalQ_Pair totalQ_return)+

text \<open>What every graph query does with its anchor.\<close>

lemma totalQ_anchored:
  assumes "row_order_ok (qe_order qe)"
    and "\<And>t. totalQ (rows_are N) (f t) (\<lambda>_. True)"
    and "\<And>i n t. n \<in> set N \<Longrightarrow> n_id n = Some i \<Longrightarrow> totalQ (rows_are N) (g i n t) (\<lambda>_. True)"
  shows "totalQ (rows_are N) (bindQ (resolve_anchor_id qe symref client)
    (\<lambda>(a, t). case a of None \<Rightarrow> f t | Some (i, n) \<Rightarrow> g i n t)) (\<lambda>_. True)"
  by (rule totalQ_bind [OF totalQ_resolve_anchor [OF assms(1)]])
    (auto intro!: assms(2,3) totalQ_option simp: anchor_in_def split: option.split)

lemma totalQ_with_client:
  "(\<And>c. totalQ (rows_are N) (f c) (\<lambda>_. True)) \<Longrightarrow> totalQ (rows_are N) (with_client client f) (\<lambda>_. True)"
  unfolding with_client_def by (intro totalQ_option totalQ_return TrueI)

lemma totalQ_find_references:
  assumes "row_order_ok (qe_order qe)"
  shows "totalQ (rows_are N) (find_references qe symref filt page client) (\<lambda>_. True)"
  unfolding find_references_def
  by (intro totalQ_anchored totalQ_bind [OF totalQ_hints] totalQ_return TrueI
      totalQ_bind [OF totalQ_with_client] totalQ_bind [OF totalQ_ensure_open]
      totalQ_materialize_references totalQ_bind [OF totalQ_pages(1)] assms row_idI)

lemma totalQ_call_graph:
  assumes "row_order_ok (qe_order qe)"
  shows "totalQ (rows_are N) (call_graph qe symref dir filt page client) (\<lambda>_. True)"
  unfolding call_graph_def
  by (intro totalQ_anchored totalQ_bind [OF totalQ_hints] totalQ_return TrueI
      totalQ_bind [OF totalQ_with_client] totalQ_bind [OF totalQ_ensure_open]
      totalQ_materialize_call_edges totalQ_bind [OF totalQ_pages(2)] assms row_idI)

lemma totalQ_find_callees:
  assumes "row_order_ok (qe_order qe)"
  shows "totalQ (rows_are N) (find_callees qe symref filt page client) (\<lambda>_. True)"
  unfolding find_callees_def
  by (intro totalQ_anchored totalQ_bind [OF totalQ_hints] totalQ_return TrueI
      totalQ_bind [OF totalQ_with_client] totalQ_freshen_callees
      totalQ_bind [OF totalQ_pages(2)] assms row_idI)

end
