(* ===== verification/Grouping.thy ===== *)
theory Grouping
  imports Query_Frame
begin

text \<open>
  Neighbour rows grouped for the answer: one group per row, in sort-key order, holding exactly
  that row's sites; and so the pages of an answer cover it.
\<close>

section \<open>Groups\<close>

abbreviation row_key :: "Neighbor \<Rightarrow> string \<times> string \<times> int \<times> int" where
  "row_key p \<equiv> node_sort_key (fst p)"

text \<open>The runs of rows of equal key, as the loop collects them.\<close>

function key_groups :: "Neighbor list \<Rightarrow> (Node \<times> Site list) list" where
  "key_groups [] = []"
| "key_groups (p # ps) =
     (fst p, List.map_filter snd (p # takeWhile (\<lambda>q. row_key q = row_key p) ps)) #
       key_groups (dropWhile (\<lambda>q. row_key q = row_key p) ps)"
  by pat_completeness auto
termination key_groups
  by (relation "measure length") (auto simp: less_Suc_eq_le length_dropWhile_le)

lemma foldl_group_step:
  "foldl group_step (out @ [(n, ss)]) ps =
     out @ (n, ss @ List.map_filter snd (takeWhile (\<lambda>q. row_key q = node_sort_key n) ps)) #
       key_groups (dropWhile (\<lambda>q. row_key q = node_sort_key n) ps)"
proof (induction ps arbitrary: out n ss)
  case Nil
  then show ?case by (simp add: map_filter_simps)
next
  case (Cons p ps)
  show ?case
  proof (cases "row_key p = node_sort_key n")
    case True
    then have "group_step (out @ [(n, ss)]) p =
        out @ [(n, ss @ (case snd p of None \<Rightarrow> [] | Some s \<Rightarrow> [s]))]"
      by (simp add: group_step_def)
    with True Cons.IH show ?thesis by (cases "snd p") (simp_all add: map_filter_simps)
  next
    case False
    let ?sites = "case snd p of None \<Rightarrow> [] | Some s \<Rightarrow> [s]"
    have "group_step (out @ [(n, ss)]) p = (out @ [(n, ss)]) @ [(fst p, ?sites)]"
      using False by (simp add: group_step_def)
    then have "foldl group_step (out @ [(n, ss)]) (p # ps) =
        foldl group_step ((out @ [(n, ss)]) @ [(fst p, ?sites)]) ps" by simp
    also have "\<dots> = (out @ [(n, ss)]) @
        (fst p, ?sites @ List.map_filter snd (takeWhile (\<lambda>q. row_key q = row_key p) ps)) #
        key_groups (dropWhile (\<lambda>q. row_key q = row_key p) ps)" by (rule Cons.IH)
    finally show ?thesis using False by (cases "snd p") (simp_all add: map_filter_simps)
  qed
qed

lemma group_by_node_groups: "group_by_node ns = key_groups (sort_key neighbor_key ns)"
proof (cases "sort_key neighbor_key ns")
  case Nil
  then show ?thesis by (simp add: group_by_node_def)
next
  case (Cons p ps)
  have "group_step [] p = [] @ [(fst p, case snd p of None \<Rightarrow> [] | Some s \<Rightarrow> [s])]"
    by (simp add: group_step_def)
  then show ?thesis unfolding group_by_node_def Cons foldl_Cons
    by (simp only: foldl_group_step) (cases "snd p"; simp add: map_filter_simps)
qed

lemma equal_run:
  assumes "sorted (map f xs)" and "\<forall>q \<in> set xs. c \<le> f q"
  shows "takeWhile (\<lambda>q. f q = c) xs = filter (\<lambda>q. f q = c) xs \<and>
    dropWhile (\<lambda>q. f q = c) xs = filter (\<lambda>q. f q \<noteq> c) xs"
  using assms
proof (induction xs)
  case (Cons x xs)
  show ?case
  proof (cases "f x = c")
    case True
    with Cons show ?thesis by simp
  next
    case False
    have "f q \<noteq> c" if "q \<in> set xs" for q using Cons.prems False that by force
    with False show ?thesis by (simp add: filter_empty_conv filter_id_conv)
  qed
qed simp

lemma sorted_run:
  assumes "sorted (map f (p # ps))"
  shows "takeWhile (\<lambda>q. f q = f p) ps = filter (\<lambda>q. f q = f p) ps"
    and "dropWhile (\<lambda>q. f q = f p) ps = filter (\<lambda>q. f q \<noteq> f p) ps"
  using equal_run [of f ps "f p"] assms by simp_all

lemma prod_le_fst: "p \<le> q \<Longrightarrow> fst p \<le> fst (q :: 'a::order \<times> 'b::ord)"
  by (auto simp: less_eq_prod_def)

lemma key_groups_sorted:
  "sorted (map row_key ps) \<Longrightarrow> sorted_wrt (<) (map (\<lambda>g. node_sort_key (fst g)) (key_groups ps)) \<and>
     (\<lambda>g. node_sort_key (fst g)) ` set (key_groups ps) = row_key ` set ps \<and>
     fst ` set (key_groups ps) \<subseteq> fst ` set ps"
proof (induction ps rule: key_groups.induct)
  case (2 p ps)
  let ?rest = "filter (\<lambda>q. row_key q \<noteq> row_key p) ps"
  have drop: "dropWhile (\<lambda>q. row_key q = row_key p) ps = ?rest"
    by (rule sorted_run(2)) (rule "2.prems")
  have "sorted (map row_key ?rest)" using "2.prems" by (simp add: sorted_wrt_filter sorted_map)
  with 2 drop have ih: "sorted_wrt (<) (map (\<lambda>g. node_sort_key (fst g)) (key_groups ?rest))"
    "(\<lambda>g. node_sort_key (fst g)) ` set (key_groups ?rest) = row_key ` set ?rest"
    "fst ` set (key_groups ?rest) \<subseteq> fst ` set ?rest" by simp_all
  have "row_key p < row_key q" if "q \<in> set ?rest" for q
    using that "2.prems" by (auto simp: less_le)
  then have "\<forall>x \<in> row_key ` set ?rest. row_key p < x" by blast
  then have "\<forall>x \<in> (\<lambda>g. node_sort_key (fst g)) ` set (key_groups ?rest). row_key p < x" unfolding ih(2) .
  then have one: "sorted_wrt (<) (map (\<lambda>g. node_sort_key (fst g)) (key_groups (p # ps)))"
    unfolding key_groups.simps drop using ih(1) by simp
  have "row_key ` set (p # ps) = insert (row_key p) (row_key ` set ?rest)"
    by auto
  then have two: "(\<lambda>g. node_sort_key (fst g)) ` set (key_groups (p # ps)) = row_key ` set (p # ps)"
    unfolding key_groups.simps drop using ih(2) by simp
  have "fst ` set ?rest \<subseteq> fst ` set ps" by auto
  then have three: "fst ` set (key_groups (p # ps)) \<subseteq> fst ` set (p # ps)"
    unfolding key_groups.simps drop using ih(3) by auto
  from one two three show ?case by blast
qed simp

lemma key_groups_sites:
  "sorted (map row_key ps) \<Longrightarrow> inj_on node_sort_key (fst ` set ps) \<Longrightarrow> (n, sites) \<in> set (key_groups ps) \<Longrightarrow>
     sites = List.map_filter snd (filter (\<lambda>q. fst q = n) ps)"
proof (induction ps rule: key_groups.induct)
  case (2 p ps)
  let ?rest = "filter (\<lambda>q. row_key q \<noteq> row_key p) ps"
  have run: "takeWhile (\<lambda>q. row_key q = row_key p) ps = filter (\<lambda>q. row_key q = row_key p) ps"
    "dropWhile (\<lambda>q. row_key q = row_key p) ps = ?rest"
    by (rule sorted_run, rule "2.prems")+
  have same: "row_key q = row_key p \<longleftrightarrow> fst q = fst p" if "q \<in> set ps" for q
    by (rule inj_on_eq_iff [OF "2.prems"(2)]) (use that in simp_all)
  have sorted: "sorted (map row_key ?rest)" using "2.prems"(1) by (simp add: sorted_wrt_filter sorted_map)
  have inj: "inj_on node_sort_key (fst ` set ?rest)"
    by (rule inj_on_subset [OF "2.prems"(2)]) auto
  show ?case
  proof (cases "(n, sites) \<in> set (key_groups ?rest)")
    case True
    then have "n \<in> fst ` set ?rest" using key_groups_sorted [OF sorted] by force
    then have "n \<noteq> fst p" by auto
    moreover have "sites = List.map_filter snd (filter (\<lambda>q. fst q = n) ?rest)"
      by (rule "2.IH" [unfolded run(2)]) (rule sorted inj True)+
    moreover have "filter (\<lambda>q. fst q = n) ?rest = filter (\<lambda>q. fst q = n) ps"
      using \<open>n \<noteq> fst p\<close> same by (simp add: conj_commute) (metis (mono_tags, lifting) filter_cong)
    ultimately show ?thesis by simp
  next
    case False
    then have "n = fst p" "sites = List.map_filter snd (p # filter (\<lambda>q. row_key q = row_key p) ps)"
      using "2.prems"(3) unfolding key_groups.simps run by simp_all
    moreover have "filter (\<lambda>q. row_key q = row_key p) ps = filter (\<lambda>q. fst q = fst p) ps"
      using same by (metis (mono_tags, lifting) filter_cong)
    ultimately show ?thesis by simp
  qed
qed simp

lemma sorted_neighbor_key: "sorted (map row_key (sort_key neighbor_key ns))"
proof -
  have le: "row_key p \<le> row_key q" if "neighbor_key p \<le> neighbor_key q" for p q
    using prod_le_fst [OF that] by (simp add: neighbor_key_def)
  have wrt: "sorted_wrt (\<lambda>p q. neighbor_key p \<le> neighbor_key q) (sort_key neighbor_key ns)"
    using sorted_sort_key [of neighbor_key ns] unfolding sorted_map .
  show ?thesis unfolding sorted_map by (rule sorted_wrt_mono_rel [OF _ wrt]) (rule le)
qed

section \<open>Groups of a consistent store\<close>

text \<open>The sites of the relation of type \<open>t\<close> between row \<open>i\<close> and the row \<open>n\<close> on its other side.\<close>

definition relation_edges :: "Db \<Rightarrow> int \<Rightarrow> string \<Rightarrow> Direction \<Rightarrow> Node \<Rightarrow> Edge set" where
  "relation_edges d i t dir n = {e \<in> set (db_edges d). e_valid e \<and> e_type e = t \<and>
     edge_anchor dir e = i \<and> n_id n = Some (edge_end dir e)}"

lemma neighbor_rows_of_store:
  assumes "row_order_ok ro" and "wf_db d"
  shows "inj_on node_sort_key (fst ` set (get_neighbors ro d i t dir))"
proof (rule inj_onI)
  fix m n
  assume "m \<in> fst ` set (get_neighbors ro d i t dir)" "n \<in> fst ` set (get_neighbors ro d i t dir)"
    and "node_sort_key m = node_sort_key n"
  then have "m \<in> set (db_nodes d)" "n \<in> set (db_nodes d)" "n_fqn m = n_fqn n"
    by (auto simp: get_neighbors_iff [OF assms(1)] node_sort_key_def)
  with wf_node_eqI(2) [OF assms(2)] show "m = n" by blast
qed

lemma groups_ascending:
  "ascending (\<lambda>g. key_from_node (fst g)) (filter P (group_by_node ns))"
proof -
  have "sorted_wrt (<) (map (\<lambda>g. node_sort_key (fst g)) (group_by_node ns))"
    unfolding group_by_node_groups using key_groups_sorted [OF sorted_neighbor_key] by blast
  then have "ascending (\<lambda>g. key_from_node (fst g)) (group_by_node ns)"
    by (simp add: ascending_def less_SortKey_def sorted_wrt_map)
  then show ?thesis by (simp add: ascending_def sorted_wrt_filter)
qed

interpretation gn: sorted_listing "\<lambda>ns. filter P (group_by_node ns)" "\<lambda>g. key_from_node (fst g)"
  "\<lambda>_. True" for P
  by unfold_locales (rule groups_ascending)

lemma map_filter_set: "x \<in> set (List.map_filter f xs) \<longleftrightarrow> (\<exists>y \<in> set xs. f y = Some x)"
  by (force simp: map_filter_def)

lemma group_members:
  assumes "row_order_ok ro" and "wf_db d"
  shows "fst ` set (group_by_node (get_neighbors ro d i t dir)) = {n \<in> set (db_nodes d). n_valid n \<and>
      relation_edges d i t dir n \<noteq> {}}"
proof -
  let ?ns = "get_neighbors ro d i t dir"
  have mem: "fst ` set (group_by_node ?ns) = fst ` set ?ns"
  proof -
    have keys: "(\<lambda>g. node_sort_key (fst g)) ` set (group_by_node ?ns) = row_key ` set ?ns"
      and sub: "fst ` set (group_by_node ?ns) \<subseteq> fst ` set ?ns"
      unfolding group_by_node_groups using key_groups_sorted [OF sorted_neighbor_key [of ?ns]] by simp_all
    have "n \<in> fst ` set (group_by_node ?ns)" if "n \<in> fst ` set ?ns" for n
    proof -
      have "node_sort_key n \<in> node_sort_key ` fst ` set (group_by_node ?ns)"
        using keys that by (auto simp: image_image)
      then obtain m where m: "m \<in> fst ` set (group_by_node ?ns)" "node_sort_key n = node_sort_key m" by auto
      then have "n = m" using inj_onD [OF neighbor_rows_of_store [OF assms], of n m i t dir] that sub by blast
      with m show ?thesis by simp
    qed
    with sub show ?thesis by blast
  qed
  have "n \<in> fst ` set ?ns \<longleftrightarrow> n \<in> set (db_nodes d) \<and> n_valid n \<and> relation_edges d i t dir n \<noteq> {}" for n
  proof -
    have "n \<in> fst ` set ?ns \<longleftrightarrow> (\<exists>s. (n, s) \<in> set ?ns)" by force
    then show ?thesis by (auto simp: get_neighbors_iff [OF assms(1)] relation_edges_def)
  qed
  then show ?thesis unfolding mem by blast
qed

lemma group_sites:
  assumes "row_order_ok ro" and "wf_db d" and "(n, sites) \<in> set (group_by_node (get_neighbors ro d i t dir))"
  shows "set sites = {s. \<exists>e \<in> relation_edges d i t dir n. e_site e = Some s}"
proof -
  let ?ns = "get_neighbors ro d i t dir"
  have "inj_on node_sort_key (fst ` set (sort_key neighbor_key ?ns))"
    using neighbor_rows_of_store [OF assms(1,2)] by simp
  then have "sites = List.map_filter snd (filter (\<lambda>q. fst q = n) (sort_key neighbor_key ?ns))"
    using key_groups_sites [OF sorted_neighbor_key] assms(3) unfolding group_by_node_groups by blast
  then have "s \<in> set sites \<longleftrightarrow> (n, Some s) \<in> set ?ns" for s by (force simp: map_filter_set)
  moreover have "n \<in> set (db_nodes d)" "n_valid n"
    using assms(3) group_members [OF assms(1,2), of i t dir] by force+
  ultimately show ?thesis
    unfolding get_neighbors_iff [OF assms(1)] by (auto simp: relation_edges_def)
qed

section \<open>Following the cursors\<close>

text \<open>
  A caller that asks for a page, decodes the cursor token of the answer and asks again, with at
  most \<open>n\<close> requests; \<open>None\<close> when a request fails, a token is refused or the requests run out.
\<close>

fun follow_tokens :: "nat \<Rightarrow> Codec \<Rightarrow> (Page \<Rightarrow> ('i list \<times> string option) query) \<Rightarrow> Page \<Rightarrow> World \<Rightarrow> 'i list list option" where
  "follow_tokens 0 c q page w = None"
| "follow_tokens (Suc n) c q page w =
     (case q page w of
        (Inl e, w') \<Rightarrow> None
      | (Inr (xs, None), w') \<Rightarrow> Some [xs]
      | (Inr (xs, Some t), w') \<Rightarrow> (case cursor_decode c t of
            Inl e \<Rightarrow> None
          | Inr cur \<Rightarrow> map_option (\<lambda>ps. xs # ps) (follow_tokens n c q (page\<lparr>pg_cursor := Some cur\<rparr>) w')))"

text \<open>What a paginated operation answers, as the caller sees it.\<close>

definition symbol_page :: "FindSymbolResult \<Rightarrow> NodeDto list \<times> string option" where
  "symbol_page r = (fs_nodes r, fs_next_cursor r)"

definition reference_page :: "FindReferencesResult \<Rightarrow> ReferenceGroup list \<times> string option" where
  "reference_page r = (fr_references r, fr_next_cursor r)"

definition call_page :: "CallGraphResult \<Rightarrow> CallGraphNode list \<times> string option" where
  "call_page r = (cr_items r, cr_next_cursor r)"

definition ask_page :: "('r \<Rightarrow> 'i list \<times> string option) \<Rightarrow> (Page \<Rightarrow> 'r query) \<Rightarrow> Page \<Rightarrow> ('i list \<times> string option) query" where
  "ask_page view q page = bindQ (q page) (\<lambda>r. returnQ (view r))"

lemma cursor_decode_encode: "codec_ok c \<Longrightarrow> cursor_decode c (cursor_encode c cur) = Inr cur"
  by (cases cur; cases "cur_key cur") (simp add: codec_ok_def cursor_encode_def cursor_decode_def key_tuple_def)

lemma follow_tokens_pages:
  assumes "codec_ok c"
    and "\<And>page. q page w =
      (Inr (map g (fst (paginate items page key)), map_option (cursor_encode c) (snd (paginate items page key))), w)"
  shows "follow_tokens n c q page w = map_option (map (map g)) (follow_pages n items page key)"
proof (induction n arbitrary: page)
  case (Suc n)
  then show ?case
    by (cases "paginate items page key"; cases "snd (paginate items page key)")
      (simp_all add: assms(2) cursor_decode_encode [OF assms(1)] option.map_comp comp_def)
qed simp

text \<open>An operation that answers pages of an ascending listing is covered by its tokens.\<close>

lemma tokens_cover:
  assumes "codec_ok c" and "pg_cursor page = None" and "ascending key items"
    and "\<And>page. q page w =
      (Inr (map g (fst (paginate items page key)), map_option (cursor_encode c) (snd (paginate items page key))), w)"
  shows "\<exists>ps. follow_tokens (Suc (length items)) c q page w = Some ps \<and> concat ps = map g items \<and>
    (\<forall>p \<in> set ps. length p \<le> page_limit page) \<and> (\<forall>p \<in> set (butlast ps). length p = page_limit page)"
proof -
  obtain ps where ps: "follow_pages (Suc (length items)) items page key = Some ps" "concat ps = items"
      "\<forall>p \<in> set ps. length p \<le> page_limit page" "\<forall>p \<in> set (butlast ps). length p = page_limit page"
    using follow_pages_at [OF assms(3), of 0 page "Suc (length items)"] assms(2) by (auto simp: cursor_at_def)
  have "follow_tokens (Suc (length items)) c q page w = Some (map (map g) ps)"
    using follow_tokens_pages [where q = q and w = w, OF assms(1,4), of "Suc (length items)" page] ps(1) by simp
  then show ?thesis using ps(2-4) by (auto simp: map_concat [symmetric] map_butlast [symmetric])
qed

definition symbol_hits :: "QueryEngine \<Rightarrow> Db \<Rightarrow> string \<Rightarrow> MatchMode \<Rightarrow> bool \<Rightarrow> Filter \<Rightarrow> Node list" where
  "symbol_hits qe d pattern mode ic filt =
     filter (\<lambda>n. mode_matches (qe_similar qe) mode pattern ic (n_fqn n) \<and> filter_matches filt n)
       (list_nodes (qe_order qe) d (f_language filt))"

lemma find_symbol_run:
  "ask_page symbol_page (find_symbol qe pattern mode ic False filt) page w =
     (let p = paginate (symbol_hits qe (w_db w) pattern mode ic filt) page key_from_node
      in (Inr (map dto_from_node (fst p), map_option (cursor_encode (qe_codec qe)) (snd p)), w))"
  by (simp add: ask_page_def find_symbol_def on_db_def db_read_def bindQ_def symbol_page_def encode_next_def
      symbol_hits_def Let_def split: prod.split)

definition grouped_listing :: "QueryEngine \<Rightarrow> Db \<Rightarrow> int \<Rightarrow> string \<Rightarrow> Direction \<Rightarrow> Filter \<Rightarrow> (Node \<times> Site list) list" where
  "grouped_listing qe d i t dir filt =
     filter (\<lambda>g. filter_matches filt (fst g)) (group_by_node (get_neighbors (qe_order qe) d i t dir))"

definition reference_group :: "Node \<times> Site list \<Rightarrow> ReferenceGroup" where
  "reference_group g = \<lparr>rg_node = dto_from_node (fst g), rg_sites = map (\<lambda>s. range_dto (s_range s)) (snd g)\<rparr>"

definition call_group :: "Node \<times> Site list \<Rightarrow> CallGraphNode" where
  "call_group g = \<lparr>cg_node = dto_from_node (fst g), cg_call_sites = map (\<lambda>s. range_dto (s_range s)) (snd g)\<rparr>"

lemma references_from_cache_run:
  "ask_page reference_page (references_from_cache qe i filt) page w =
     (let p = paginate (grouped_listing qe (w_db w) i ''references'' Incoming filt) page (\<lambda>g. key_from_node (fst g))
      in (Inr (map reference_group (fst p), map_option (cursor_encode (qe_codec qe)) (snd p)), w))"
  by (simp add: ask_page_def references_from_cache_def neighbors_of_def on_db_def db_read_def bindQ_def
      reference_page_def encode_next_def grouped_page_def grouped_listing_def Let_def reference_group_def
      split: prod.split)

lemma read_calls_page_run:
  "ask_page call_page (read_calls_page qe i dir filt) page w =
     (let p = paginate (grouped_listing qe (w_db w) i ''calls'' dir filt) page (\<lambda>g. key_from_node (fst g))
      in (Inr (map call_group (fst p), map_option (cursor_encode (qe_codec qe)) (snd p)), w))"
  by (simp add: ask_page_def read_calls_page_def neighbors_of_def on_db_def db_read_def bindQ_def
      call_page_def encode_next_def grouped_page_def grouped_listing_def Let_def call_group_def
      split: prod.split)

text \<open>paging through a symbol search misses nothing and repeats nothing. Over a consistent store,
  a caller that feeds each cursor token back gets, after finitely many requests, pages whose
  concatenation is the list of all valid rows that match the pattern and the filter, in sort-key
  order; every page but the last holds exactly the requested number of rows.\<close>

theorem find_symbol_pages_cover:
  fixes qe :: QueryEngine
  assumes "row_order_ok (qe_order qe)" and "codec_ok (qe_codec qe)" and "wf_db (w_db w)"
    and "pg_cursor page = None"
  shows "\<exists>ps. follow_tokens (Suc (length (symbol_hits qe (w_db w) pattern mode ic filt))) (qe_codec qe)
      (ask_page symbol_page (find_symbol qe pattern mode ic False filt)) page w = Some ps \<and>
    concat ps = map dto_from_node (symbol_hits qe (w_db w) pattern mode ic filt) \<and>
    sorted_wrt (<) (map key_from_node (symbol_hits qe (w_db w) pattern mode ic filt)) \<and>
    (\<forall>n. n \<in> set (symbol_hits qe (w_db w) pattern mode ic filt) \<longleftrightarrow> n \<in> set (db_nodes (w_db w)) \<and> n_valid n \<and>
       mode_matches (qe_similar qe) mode pattern ic (n_fqn n) \<and> filter_matches filt n) \<and>
    (\<forall>p \<in> set ps. length p \<le> page_limit page) \<and>
    (\<forall>p \<in> set (butlast ps). length p = page_limit page)"
proof -
  have asc: "ascending key_from_node (symbol_hits qe (w_db w) pattern mode ic filt)"
    unfolding symbol_hits_def
    using ln.listing_ascending [of "qe_order qe" "(w_db w, f_language filt)"] assms(1,3) by simp
  moreover have "n \<in> set (symbol_hits qe (w_db w) pattern mode ic filt) \<longleftrightarrow> n \<in> set (db_nodes (w_db w)) \<and>
      n_valid n \<and> mode_matches (qe_similar qe) mode pattern ic (n_fqn n) \<and> filter_matches filt n" for n
    by (auto simp: symbol_hits_def list_nodes_def row_order_set [OF assms(1)] filter_matches_def split: option.splits)
  moreover have "\<exists>ps. follow_tokens (Suc (length (symbol_hits qe (w_db w) pattern mode ic filt))) (qe_codec qe)
      (ask_page symbol_page (find_symbol qe pattern mode ic False filt)) page w = Some ps \<and>
    concat ps = map dto_from_node (symbol_hits qe (w_db w) pattern mode ic filt) \<and>
    (\<forall>p \<in> set ps. length p \<le> page_limit page) \<and> (\<forall>p \<in> set (butlast ps). length p = page_limit page)"
    by (rule tokens_cover [OF assms(2,4) asc]) (simp add: find_symbol_run Let_def)
  ultimately show ?thesis by (simp add: ascending_def sorted_wrt_map)
qed

text \<open>C23: The pages of a relation cover it. Over a consistent store, following the cursor tokens of
  the cached callers, callees or references of a row gives, after finitely many requests, every
  group of the listing once; the groups are exactly the valid rows joined to the anchor by a
  valid edge of the type and admitted by the filter, each with exactly the sites of those edges.\<close>

theorem relation_pages_cover:
  fixes qe :: QueryEngine
  assumes "row_order_ok (qe_order qe)" and "codec_ok (qe_codec qe)" and "wf_db (w_db w)"
    and "pg_cursor page = None"
  shows "(\<exists>ps. follow_tokens (Suc (length (grouped_listing qe (w_db w) i ''calls'' dir filt))) (qe_codec qe)
        (ask_page call_page (read_calls_page qe i dir filt)) page w = Some ps \<and>
      concat ps = map call_group (grouped_listing qe (w_db w) i ''calls'' dir filt) \<and>
      (\<forall>p \<in> set (butlast ps). length p = page_limit page)) \<and>
    (\<exists>ps. follow_tokens (Suc (length (grouped_listing qe (w_db w) i ''references'' Incoming filt))) (qe_codec qe)
        (ask_page reference_page (references_from_cache qe i filt)) page w = Some ps \<and>
      concat ps = map reference_group (grouped_listing qe (w_db w) i ''references'' Incoming filt) \<and>
      (\<forall>p \<in> set (butlast ps). length p = page_limit page)) \<and>
    fst ` set (grouped_listing qe (w_db w) i t dir filt) = {n \<in> set (db_nodes (w_db w)). n_valid n \<and>
      filter_matches filt n \<and> relation_edges (w_db w) i t dir n \<noteq> {}} \<and>
    (\<forall>(n, sites) \<in> set (grouped_listing qe (w_db w) i t dir filt).
      set sites = {s. \<exists>e \<in> relation_edges (w_db w) i t dir n. e_site e = Some s})"
proof (intro conjI)
  have asc: "ascending (\<lambda>g. key_from_node (fst g)) (grouped_listing qe (w_db w) i ty dr filt)" for ty dr
    unfolding grouped_listing_def by (rule gn.listing_ascending) simp
  show "\<exists>ps. follow_tokens (Suc (length (grouped_listing qe (w_db w) i ''calls'' dir filt))) (qe_codec qe)
      (ask_page call_page (read_calls_page qe i dir filt)) page w = Some ps \<and>
    concat ps = map call_group (grouped_listing qe (w_db w) i ''calls'' dir filt) \<and>
    (\<forall>p \<in> set (butlast ps). length p = page_limit page)"
    (is "\<exists>ps. follow_tokens (Suc (length ?listing)) _ _ _ _ = _ \<and> _")
  proof -
    have "\<exists>ps. follow_tokens (Suc (length ?listing)) (qe_codec qe) (ask_page call_page (read_calls_page qe i dir filt)) page w = Some ps \<and>
        concat ps = map call_group ?listing \<and> (\<forall>p \<in> set ps. length p \<le> page_limit page) \<and>
        (\<forall>p \<in> set (butlast ps). length p = page_limit page)"
      by (rule tokens_cover [OF assms(2,4) asc]) (simp add: read_calls_page_run Let_def)
    then show ?thesis by blast
  qed
  show "\<exists>ps. follow_tokens (Suc (length (grouped_listing qe (w_db w) i ''references'' Incoming filt))) (qe_codec qe)
      (ask_page reference_page (references_from_cache qe i filt)) page w = Some ps \<and>
    concat ps = map reference_group (grouped_listing qe (w_db w) i ''references'' Incoming filt) \<and>
    (\<forall>p \<in> set (butlast ps). length p = page_limit page)"
    (is "\<exists>ps. follow_tokens (Suc (length ?listing)) _ _ _ _ = _ \<and> _")
  proof -
    have "\<exists>ps. follow_tokens (Suc (length ?listing)) (qe_codec qe) (ask_page reference_page (references_from_cache qe i filt)) page w = Some ps \<and>
        concat ps = map reference_group ?listing \<and> (\<forall>p \<in> set ps. length p \<le> page_limit page) \<and>
        (\<forall>p \<in> set (butlast ps). length p = page_limit page)"
      by (rule tokens_cover [OF assms(2,4) asc]) (simp add: references_from_cache_run Let_def)
    then show ?thesis by blast
  qed
  show "fst ` set (grouped_listing qe (w_db w) i t dir filt) = {n \<in> set (db_nodes (w_db w)). n_valid n \<and>
      filter_matches filt n \<and> relation_edges (w_db w) i t dir n \<noteq> {}}"
  proof -
    have split: "fst ` set (filter (\<lambda>g. P (fst g)) gs) = {n \<in> fst ` set gs. P n}"
      for P :: "Node \<Rightarrow> bool" and gs :: "(Node \<times> Site list) list" by auto
    show ?thesis unfolding grouped_listing_def split group_members [OF assms(1,3)] by blast
  qed
  show "\<forall>(n, sites) \<in> set (grouped_listing qe (w_db w) i t dir filt).
      set sites = {s. \<exists>e \<in> relation_edges (w_db w) i t dir n. e_site e = Some s}"
    using group_sites [OF assms(1,3)] unfolding grouped_listing_def by auto
qed

definition sample_engine :: QueryEngine where
  "sample_engine = \<lparr>qe_root_uri = ''file:///w'', qe_order = table_order, qe_hash = (\<lambda>_. 0),
     qe_similar = (\<lambda>_ _. False), qe_codec = marking_codec, qe_read = (\<lambda>p _. Some ''x''), qe_canon = (\<lambda>p _. Some p)\<rparr>"

lemma sample_engine_simps [simp]:
  "qe_order sample_engine = table_order" "qe_codec sample_engine = marking_codec"
  by (simp_all add: sample_engine_def)

definition nested_world :: World where
  "nested_world = \<lparr>w_db = nested_db, w_asks = []\<rparr>"

lemma nested_world_wf [simp]: "wf_db (w_db nested_world)"
  by (simp add: nested_world_def nested_db_wf)

theorem find_symbol_pages_cover_witness:
  "\<exists>ps. follow_tokens (Suc (length (symbol_hits sample_engine (w_db nested_world) ''m'' Contains False default_filter)))
      marking_codec (ask_page symbol_page (find_symbol sample_engine ''m'' Contains False False default_filter))
      \<lparr>pg_limit = 1, pg_cursor = None\<rparr> nested_world = Some ps \<and>
    concat ps = map dto_from_node (symbol_hits sample_engine (w_db nested_world) ''m'' Contains False default_filter)"
proof -
  have "pg_cursor \<lparr>pg_limit = 1, pg_cursor = None\<rparr> = None" "row_order_ok (qe_order sample_engine)"
    "codec_ok (qe_codec sample_engine)" by (simp_all add: codec_ok_marking)
  from find_symbol_pages_cover [OF this(2,3) nested_world_wf this(1), of "''m''" Contains False default_filter]
  show ?thesis unfolding sample_engine_simps by blast
qed

theorem relation_pages_cover_witness:
  "\<exists>ps. follow_tokens (Suc (length (grouped_listing sample_engine (w_db nested_world) 1 ''calls'' Outgoing default_filter)))
      marking_codec (ask_page call_page (read_calls_page sample_engine 1 Outgoing default_filter))
      \<lparr>pg_limit = 1, pg_cursor = None\<rparr> nested_world = Some ps \<and>
    concat ps = map call_group (grouped_listing sample_engine (w_db nested_world) 1 ''calls'' Outgoing default_filter)"
proof -
  have "pg_cursor \<lparr>pg_limit = 1, pg_cursor = None\<rparr> = None" "row_order_ok (qe_order sample_engine)"
    "codec_ok (qe_codec sample_engine)" by (simp_all add: codec_ok_marking)
  from conjunct1 [OF relation_pages_cover [OF this(2,3) nested_world_wf this(1)], of 1 Outgoing default_filter]
  show ?thesis unfolding sample_engine_simps by blast
qed

end
