(* ===== verification/Call_Path.thy ===== *)
theory Call_Path
  imports Query_Total Grouping
begin

text \<open>
  The call-path search. It returns, and what it returns is right: a path it finds is a chain of
  stored calls of the smallest length, and when it reports no path without having hit a limit
  the target is not reachable. Its requests stay within the budget.
\<close>

section \<open>The graph of calls\<close>

definition calls_to :: "Db \<Rightarrow> int \<Rightarrow> int \<Rightarrow> bool" where
  "calls_to d i j \<longleftrightarrow> (\<exists>n \<in> set (db_nodes d). n_id n = Some j \<and> n_valid n) \<and>
     (\<exists>e \<in> set (db_edges d). e_valid e \<and> e_type e = ''calls'' \<and> e_src e = i \<and> e_dst e = j)"

definition calls_rel :: "Db \<Rightarrow> (int \<times> int) set" where
  "calls_rel d = {(i, j). calls_to d i j}"

text \<open>The edges that expanding row \<open>a\<close> may touch: everything but the calls of other rows.\<close>

definition own_calls :: "int \<Rightarrow> Edge \<Rightarrow> bool" where
  "own_calls a e \<longleftrightarrow> e_type e \<noteq> ''calls'' \<or> e_src e = a"

interpretation oc: edge_owner "own_calls a" for a
  by unfold_locales (auto simp: own_calls_def edge_key_def)

lemma expand_keeps_calls:
  assumes "expand_outgoing_calls qe a node client b w = (r, w')" and "wf_db (w_db w)" and "i \<noteq> a"
  shows "calls_to (w_db w') i j \<longleftrightarrow> calls_to (w_db w) i j"
proof -
  have "stepsQ (frame (own_calls a)) (expand_outgoing_calls qe a node client b)"
    by (rule oc.expand_frame) (auto simp: own_calls_def located_edge_def)
  from stepsQ_D [OF this assms(1)] assms(2)
  have nodes: "db_nodes (w_db w') = db_nodes (w_db w)" and
    edges: "\<And>e. \<not> own_calls a e \<Longrightarrow> e \<in> set (db_edges (w_db w')) \<longleftrightarrow> e \<in> set (db_edges (w_db w))"
    by (auto simp: frame_def)
  have "(e \<in> set (db_edges (w_db w')) \<and> e_type e = ''calls'' \<and> e_src e = i) \<longleftrightarrow>
      (e \<in> set (db_edges (w_db w)) \<and> e_type e = ''calls'' \<and> e_src e = i)" for e
    using edges [of e] assms(3) by (auto simp: own_calls_def)
  then show ?thesis unfolding calls_to_def nodes by blast
qed

lemma callee_groups:
  assumes "row_order_ok ro" and "wf_db d"
  shows "(\<exists>sites. (n, sites) \<in> set (group_by_node (get_neighbors ro d i ''calls'' Outgoing))) \<longleftrightarrow>
    n \<in> set (db_nodes d) \<and> (\<exists>j. n_id n = Some j \<and> calls_to d i j)"
proof -
  have "(\<exists>sites. (n, sites) \<in> set (group_by_node (get_neighbors ro d i ''calls'' Outgoing))) \<longleftrightarrow>
      n \<in> fst ` set (group_by_node (get_neighbors ro d i ''calls'' Outgoing))" by force
  also have "\<dots> \<longleftrightarrow> n \<in> set (db_nodes d) \<and> n_valid n \<and> relation_edges d i ''calls'' Outgoing n \<noteq> {}"
    unfolding group_members [OF assms] by simp
  also have "\<dots> \<longleftrightarrow> n \<in> set (db_nodes d) \<and> (\<exists>j. n_id n = Some j \<and> calls_to d i j)"
    using wf_node_eqI(1) [OF assms(2), of n] unfolding relation_edges_def calls_to_def edge_anchor_def edge_end_def
    by (simp add: Bex_def) metis
  finally show ?thesis .
qed

section \<open>Scanning the callees of one row\<close>

lemma scan_callees_found:
  "scan_callees to_id path gs s = Inl p \<Longrightarrow>
     \<exists>callee sites. (callee, sites) \<in> set gs \<and> n_id callee = Some to_id \<and> p = path @ [callee]"
proof (induction to_id path gs s rule: scan_callees.induct)
  case (2 to_id path callee sites rest s)
  then show ?case by (auto split: option.splits if_splits)
qed simp

text \<open>What scanning adds to the queue.\<close>

definition scan_adds :: "Node list \<Rightarrow> (Node \<times> Site list) list \<Rightarrow> Search \<Rightarrow> Search \<Rightarrow> (int \<times> Node \<times> Node list) list \<Rightarrow> bool" where
  "scan_adds path gs s s' new \<longleftrightarrow>
     s' = s\<lparr>se_visited := rev (map fst new) @ se_visited s, se_queue := se_queue s @ new\<rparr> \<and>
     distinct (map fst new) \<and> set (map fst new) \<inter> set (se_visited s) = {} \<and>
     (\<forall>(i, n, q) \<in> set new. (\<exists>sites. (n, sites) \<in> set gs) \<and> n_id n = Some i \<and> q = path @ [n]) \<and>
     (\<forall>(n, sites) \<in> set gs. \<forall>i. n_id n = Some i \<longrightarrow> i \<in> set (se_visited s) \<union> set (map fst new))"

lemma scan_callees_done:
  "scan_callees to_id path gs s = Inr s' \<Longrightarrow>
     (\<exists>new. scan_adds path gs s s' new) \<and> (\<forall>(n, sites) \<in> set gs. n_id n \<noteq> Some to_id)"
proof (induction to_id path gs s rule: scan_callees.induct)
  case (1 to_id path s)
  then show ?case by (auto simp: scan_adds_def intro!: exI [of _ "[]"])
next
  case (2 to_id path callee sites rest s)
  show ?case
  proof (cases "n_id callee")
    case None
    with 2 obtain new where "scan_adds path rest s s' new" "\<forall>(n, sites) \<in> set rest. n_id n \<noteq> Some to_id" by auto
    with None show ?thesis by (intro conjI exI [of _ new]) (auto simp: scan_adds_def)
  next
    case (Some i)
    with "2.prems" have ne: "i \<noteq> to_id" by (auto split: if_splits)
    show ?thesis
    proof (cases "i \<in> set (se_visited s)")
      case True
      with 2 Some ne obtain new where "scan_adds path rest s s' new"
        "\<forall>(n, sites) \<in> set rest. n_id n \<noteq> Some to_id" by auto
      with Some True ne show ?thesis by (intro conjI exI [of _ new]) (auto simp: scan_adds_def)
    next
      case False
      let ?s = "s\<lparr>se_visited := i # se_visited s, se_queue := se_queue s @ [(i, callee, path @ [callee])]\<rparr>"
      have "scan_callees to_id path rest ?s = Inr s'" using "2.prems" Some ne False by simp
      then obtain new where "scan_adds path rest ?s s' new"
        "\<forall>(n, sites) \<in> set rest. n_id n \<noteq> Some to_id" using "2.IH"(3) Some ne False by blast
      with Some False ne show ?thesis
        by (intro conjI exI [of _ "(i, callee, path @ [callee]) # new"]) (auto simp: scan_adds_def)
    qed
  qed
qed

section \<open>The invariant of the search\<close>

text \<open>
  Ghosts: the rows expanded \<open>E\<close>, the rows dropped at the depth limit \<open>K\<close>, and the distance \<open>\<delta>\<close>
  of every row seen. A queued path is a chain of calls whose sources have been expanded.
\<close>

definition call_step :: "Db \<Rightarrow> int set \<Rightarrow> Node \<Rightarrow> Node \<Rightarrow> bool" where
  "call_step d E a b \<longleftrightarrow> (\<exists>i j. n_id a = Some i \<and> n_id b = Some j \<and> i \<in> E \<and> calls_to d i j)"

definition call_chain :: "Db \<Rightarrow> int set \<Rightarrow> Node \<Rightarrow> Node \<Rightarrow> Node list \<Rightarrow> bool" where
  "call_chain d E a b path \<longleftrightarrow> path \<noteq> [] \<and> hd path = a \<and> last path = b \<and>
     set path \<subseteq> set (db_nodes d) \<and> successively (call_step d E) path"

definition queue_ids :: "Search \<Rightarrow> int set" where
  "queue_ids s = fst ` set (se_queue s)"

definition graph_inv :: "Node \<Rightarrow> int set \<Rightarrow> (int \<Rightarrow> nat) \<Rightarrow> Search \<Rightarrow> Db \<Rightarrow> bool" where
  "graph_inv a E \<delta> s d \<longleftrightarrow>
     (\<forall>(i, n, p) \<in> set (se_queue s). n \<in> set (db_nodes d) \<and> n_id n = Some i \<and> call_chain d E a n p \<and>
        length p = Suc (\<delta> i)) \<and>
     (\<forall>i \<in> E. \<forall>j. calls_to d i j \<longrightarrow> j \<in> set (se_visited s) \<and> \<delta> j \<le> Suc (\<delta> i))"

definition visited_inv :: "Node list \<Rightarrow> int \<Rightarrow> int \<Rightarrow> int set \<Rightarrow> int set \<Rightarrow> Search \<Rightarrow> bool" where
  "visited_inv N from_id to_id E K s \<longleftrightarrow>
     set (se_visited s) = E \<union> K \<union> queue_ids s \<and> distinct (map fst (se_queue s)) \<and>
     (E \<union> K) \<inter> queue_ids s = {} \<and> from_id \<in> set (se_visited s) \<and> to_id \<notin> set (se_visited s) \<and>
     (\<forall>i \<in> set (se_visited s). row_id N i)"

definition level_inv :: "int \<Rightarrow> nat \<Rightarrow> int set \<Rightarrow> int set \<Rightarrow> (int \<Rightarrow> nat) \<Rightarrow> Search \<Rightarrow> bool" where
  "level_inv from_id maxd E K \<delta> s \<longleftrightarrow> \<delta> from_id = 0 \<and> (\<forall>k \<in> K. maxd \<le> \<delta> k) \<and>
     (K \<noteq> {} \<longrightarrow> se_limit_reached s) \<and> sorted (map (\<lambda>q. \<delta> (fst q)) (se_queue s)) \<and>
     (case se_queue s of [] \<Rightarrow> True | q # _ \<Rightarrow>
        (\<forall>i \<in> E \<union> K. \<delta> i \<le> \<delta> (fst q)) \<and> (\<forall>i \<in> queue_ids s. \<delta> i \<le> Suc (\<delta> (fst q))))"

definition search_inv :: "Node list \<Rightarrow> int \<Rightarrow> Node \<Rightarrow> int \<Rightarrow> nat \<Rightarrow> int set \<Rightarrow> int set \<Rightarrow> (int \<Rightarrow> nat) \<Rightarrow> Search \<Rightarrow> World \<Rightarrow> bool" where
  "search_inv N from_id a to_id maxd E K \<delta> s w \<longleftrightarrow> rows_are N w \<and> graph_inv a E \<delta> s (w_db w) \<and>
     visited_inv N from_id to_id E K s \<and> level_inv from_id maxd E K \<delta> s"

lemma search_invD:
  assumes "search_inv N from_id a to_id maxd E K \<delta> s w"
  shows "rows_are N w" and "graph_inv a E \<delta> s (w_db w)" and "visited_inv N from_id to_id E K s"
    and "level_inv from_id maxd E K \<delta> s" and "wf_db (w_db w)" and "db_nodes (w_db w) = N"
    and "from_id \<in> set (se_visited s)" and "to_id \<notin> set (se_visited s)" and "\<delta> from_id = 0"
  using assms unfolding search_inv_def visited_inv_def level_inv_def rows_are_def by blast+

lemma search_inv_start:
  assumes "rows_are N w" and "a \<in> set N" and "n_id a = Some from_id" and "from_id \<noteq> to_id"
  shows "search_inv N from_id a to_id maxd {} {} (\<lambda>_. 0) (search_start from_id a b t) w"
  using assms
  by (simp add: search_inv_def graph_inv_def visited_inv_def level_inv_def search_start_def queue_ids_def
      call_chain_def row_idI rows_are_def)

lemma call_chain_mono:
  "call_chain d E a b p \<Longrightarrow> E \<subseteq> E' \<Longrightarrow> call_chain d E' a b p"
  unfolding call_chain_def call_step_def by (auto elim!: successively_mono)

lemma call_chain_cong:
  assumes "call_chain d E a b p" and "db_nodes d' = db_nodes d"
    and "\<And>i j. i \<in> E \<Longrightarrow> calls_to d' i j \<longleftrightarrow> calls_to d i j"
  shows "call_chain d' E a b p"
  using assms unfolding call_chain_def call_step_def by (auto elim!: successively_mono)

lemma call_chain_snoc:
  assumes "call_chain d E a b p" and "n_id b = Some i" and "calls_to d i j"
    and "n \<in> set (db_nodes d)" and "n_id n = Some j"
  shows "call_chain d (insert i E) a n (p @ [n])"
  using assms call_chain_mono [OF assms(1), of "insert i E"]
  by (auto simp: call_chain_def successively_append_iff call_step_def)

lemma search_inv_flags:
  "search_inv N from_id a to_id maxd E K \<delta> s w \<Longrightarrow> (se_limit_reached s \<longrightarrow> l) \<Longrightarrow>
     search_inv N from_id a to_id maxd E K \<delta> (s\<lparr>se_budget := b, se_timed_out := t, se_limit_reached := l\<rparr>) w"
  by (auto simp: search_inv_def graph_inv_def visited_inv_def level_inv_def queue_ids_def split: list.splits)

lemma search_inv_expand:
  assumes inv: "search_inv N from_id a to_id maxd E K \<delta> s w"
    and x: "expand_outgoing_calls qe i node client b w = (r, w')" and i: "i \<notin> E" and rows: "rows_are N w'"
  shows "search_inv N from_id a to_id maxd E K \<delta> s w'"
proof -
  have wf: "wf_db (w_db w)" and nodes: "db_nodes (w_db w') = db_nodes (w_db w)"
    using inv rows by (simp_all add: search_inv_def rows_are_def)
  have keep: "calls_to (w_db w') k j \<longleftrightarrow> calls_to (w_db w) k j" if "k \<in> E" for k j
    using expand_keeps_calls [OF x wf] i that by metis
  have "graph_inv a E \<delta> s (w_db w)" using inv by (simp add: search_inv_def)
  then have "graph_inv a E \<delta> s (w_db w')"
    unfolding graph_inv_def nodes split_def by (simp add: keep call_chain_cong [OF _ nodes keep])
  with inv rows show ?thesis by (simp add: search_inv_def)
qed

text \<open>Taking the head off the queue; the queue stays sorted by distance.\<close>

lemma level_tail:
  assumes "level_inv from_id maxd E K \<delta> s" and "se_queue s = (i, n, p) # q" and "x \<in> set q"
  shows "\<delta> i \<le> \<delta> (fst x)" and "\<delta> (fst x) \<le> Suc (\<delta> i)"
    and "\<And>k. k \<in> E \<union> K \<Longrightarrow> \<delta> k \<le> \<delta> i"
  using assms by (auto simp: level_inv_def queue_ids_def)

lemma level_head:
  "level_inv from_id maxd E K \<delta> s \<Longrightarrow> se_queue s = (i, n, p) # q \<Longrightarrow> k \<in> E \<union> K \<Longrightarrow> \<delta> k \<le> \<delta> i"
  by (auto simp: level_inv_def)

lemma level_inv_next:
  assumes "sorted (map (\<lambda>q. \<delta> (fst q)) queue)" and "\<delta> from_id = 0"
    and "\<forall>k \<in> K. maxd \<le> \<delta> k" and "K \<noteq> {} \<longrightarrow> se_limit_reached s" and "se_queue s = queue"
    and "\<And>x k. x \<in> set queue \<Longrightarrow> k \<in> E \<union> K \<Longrightarrow> \<delta> k \<le> \<delta> (fst x)"
    and "\<And>x y. x \<in> set queue \<Longrightarrow> y \<in> set queue \<Longrightarrow> \<delta> (fst y) \<le> Suc (\<delta> (fst x))"
  shows "level_inv from_id maxd E K \<delta> s"
  using assms unfolding level_inv_def queue_ids_def by (cases queue) auto

lemma search_inv_drop:
  assumes inv: "search_inv N from_id a to_id maxd E K \<delta> s w" and q: "se_queue s = (i, n, p) # q"
    and deep: "maxd < length p"
  shows "search_inv N from_id a to_id maxd E (insert i K) \<delta> (s\<lparr>se_queue := q, se_limit_reached := True\<rparr>) w"
proof -
  let ?s = "s\<lparr>se_queue := q, se_limit_reached := True\<rparr>"
  have g: "graph_inv a E \<delta> s (w_db w)" and v: "visited_inv N from_id to_id E K s"
    and l: "level_inv from_id maxd E K \<delta> s" and r: "rows_are N w" using inv by (simp_all add: search_inv_def)
  have "graph_inv a E \<delta> ?s (w_db w)" using g q by (simp add: graph_inv_def)
  moreover have "visited_inv N from_id to_id E (insert i K) ?s"
    using v q unfolding visited_inv_def queue_ids_def by auto
  moreover have "level_inv from_id maxd E (insert i K) \<delta> ?s"
  proof (rule level_inv_next [where queue = q])
    have "length p = Suc (\<delta> i)" using g q by (simp add: graph_inv_def)
    then have "maxd \<le> \<delta> i" using deep by simp
    then show "\<forall>k \<in> insert i K. maxd \<le> \<delta> k" using l by (simp add: level_inv_def)
    show "\<And>x k. x \<in> set q \<Longrightarrow> k \<in> E \<union> insert i K \<Longrightarrow> \<delta> k \<le> \<delta> (fst x)"
      using level_tail [OF l q] by (metis UnE UnI1 UnI2 insertE order_trans)
    show "\<And>x y. x \<in> set q \<Longrightarrow> y \<in> set q \<Longrightarrow> \<delta> (fst y) \<le> Suc (\<delta> (fst x))"
      using level_tail(1,2) [OF l q] by (meson Suc_le_mono order_trans)
  qed (use l q in \<open>simp_all add: level_inv_def\<close>)
  ultimately show ?thesis using r by (simp add: search_inv_def)
qed

text \<open>Expanding the head: its callees not seen before join the queue one step further out.\<close>

definition scan_step :: "Db \<Rightarrow> int \<Rightarrow> int \<Rightarrow> Node list \<Rightarrow> (int \<times> Node \<times> Node list) list \<Rightarrow> Search \<Rightarrow> Search \<Rightarrow> (int \<times> Node \<times> Node list) list \<Rightarrow> bool" where
  "scan_step d to_id i p q s s' new \<longleftrightarrow>
     set (se_visited s') = set (map fst new) \<union> set (se_visited s) \<and> se_queue s' = q @ new \<and>
     se_limit_reached s' = se_limit_reached s \<and>
     distinct (map fst new) \<and> set (map fst new) \<inter> set (se_visited s) = {} \<and>
     (\<forall>(j, m, path) \<in> set new. m \<in> set (db_nodes d) \<and> n_id m = Some j \<and> calls_to d i j \<and> path = p @ [m]) \<and>
     (\<forall>j. calls_to d i j \<longrightarrow> j \<in> set (se_visited s) \<union> set (map fst new) \<and> j \<noteq> to_id)"

definition one_further :: "(int \<times> Node \<times> Node list) list \<Rightarrow> int \<Rightarrow> (int \<Rightarrow> nat) \<Rightarrow> int \<Rightarrow> nat" where
  "one_further new i \<delta> = (\<lambda>j. if j \<in> set (map fst new) then Suc (\<delta> i) else \<delta> j)"

lemma scan_step_scan:
  assumes ro: "row_order_ok ro" and wf: "wf_db d"
    and adds: "scan_adds p (group_by_node (get_neighbors ro d i ''calls'' Outgoing)) (s\<lparr>se_queue := q\<rparr>) s' new"
    and other: "\<forall>(m, sites) \<in> set (group_by_node (get_neighbors ro d i ''calls'' Outgoing)). n_id m \<noteq> Some to_id"
  shows "scan_step d to_id i p q s s' new"
proof -
  note callees = callee_groups [OF ro wf, where i = i]
  have "m \<in> set (db_nodes d) \<and> n_id m = Some j \<and> calls_to d i j \<and> path = p @ [m]" if "(j, m, path) \<in> set new" for j m path
    using adds that callees [of m] unfolding scan_adds_def by fastforce
  moreover have "j \<in> set (se_visited s) \<union> set (map fst new)" "j \<noteq> to_id" if call: "calls_to d i j" for j
  proof -
    obtain m where "m \<in> set (db_nodes d)" "n_id m = Some j" using call by (auto simp: calls_to_def)
    then have "\<exists>sites. (m, sites) \<in> set (group_by_node (get_neighbors ro d i ''calls'' Outgoing))"
      using callees [of m] call by blast
    then show "j \<in> set (se_visited s) \<union> set (map fst new)" "j \<noteq> to_id"
      using adds other \<open>n_id m = Some j\<close> unfolding scan_adds_def by fastforce+
  qed
  ultimately show ?thesis using adds unfolding scan_step_def scan_adds_def by auto
qed

lemma scan_stepD:
  assumes "scan_step d to_id i p q s s' new"
  shows "set (se_visited s') = set (map fst new) \<union> set (se_visited s)" and "se_queue s' = q @ new"
    and "se_limit_reached s' = se_limit_reached s" and "distinct (map fst new)"
    and "set (map fst new) \<inter> set (se_visited s) = {}"
    and "\<And>j m path. (j, m, path) \<in> set new \<Longrightarrow>
      m \<in> set (db_nodes d) \<and> n_id m = Some j \<and> calls_to d i j \<and> path = p @ [m]"
    and "\<And>j. calls_to d i j \<Longrightarrow> j \<in> set (se_visited s) \<union> set (map fst new)"
    and "\<And>j. calls_to d i j \<Longrightarrow> j \<noteq> to_id"
  using assms unfolding scan_step_def by blast+

lemma one_further_old:
  "scan_step d to_id i p q s s' new \<Longrightarrow> j \<in> set (se_visited s) \<Longrightarrow> one_further new i \<delta> j = \<delta> j"
  using scan_stepD(5) [of d to_id i p q s s' new] by (auto simp: one_further_def)

lemma one_further_new: "x \<in> set new \<Longrightarrow> one_further new i \<delta> (fst x) = Suc (\<delta> i)"
  by (simp add: one_further_def)

lemma visited_parts:
  assumes "visited_inv N from_id to_id E K s" and "se_queue s = (i, n, p) # q"
  shows "set (se_visited s) = E \<union> K \<union> insert i (fst ` set q)" and "i \<in> set (se_visited s)"
    and "fst ` set q \<subseteq> set (se_visited s)"
  using assms by (auto simp: visited_inv_def queue_ids_def)

lemma visited_near:
  assumes l: "level_inv from_id maxd E K \<delta> s" and v: "visited_inv N from_id to_id E K s"
    and q: "se_queue s = (i, n, p) # q" and j: "j \<in> set (se_visited s)"
  shows "\<delta> j \<le> Suc (\<delta> i)"
proof -
  have "j \<in> E \<union> K \<or> j = i \<or> j \<in> fst ` set q" using j visited_parts(1) [OF v q] by blast
  then consider "j \<in> E \<union> K" | "j = i" | x where "x \<in> set q" "j = fst x" by blast
  then show ?thesis
  proof cases
    case 1
    with level_head [OF l q] show ?thesis by (simp add: le_Suc_eq)
  next
    case 2
    then show ?thesis by simp
  next
    case (3 x)
    with level_tail(2) [OF l q] show ?thesis by simp
  qed
qed

lemma scan_graph:
  assumes inv: "search_inv N from_id a to_id maxd E K \<delta> s w" and q: "se_queue s = (i, n, p) # q"
    and st: "scan_step (w_db w) to_id i p q s s' new"
  shows "graph_inv a (insert i E) (one_further new i \<delta>) s' (w_db w)"
proof -
  let ?d = "w_db w" let ?\<delta> = "one_further new i \<delta>"
  note g = search_invD(2) [OF inv] and vis = visited_parts [OF search_invD(3) [OF inv] q]
  have head: "n_id n = Some i" "call_chain ?d E a n p" "length p = Suc (\<delta> i)"
    using g q by (simp_all add: graph_inv_def)
  have queued: "m \<in> set (db_nodes ?d) \<and> n_id m = Some j \<and> call_chain ?d (insert i E) a m path \<and> length path = Suc (?\<delta> j)"
    if "(j, m, path) \<in> set q \<or> (j, m, path) \<in> set new" for j m path
    using that
  proof
    assume "(j, m, path) \<in> set q"
    then have "m \<in> set (db_nodes ?d) \<and> n_id m = Some j \<and> call_chain ?d E a m path \<and> length path = Suc (\<delta> j)"
      and "j \<in> set (se_visited s)" using g q vis(3) by (force simp: graph_inv_def)+
    then show ?thesis using one_further_old [OF st] call_chain_mono [of ?d E a m path "insert i E"] by auto
  next
    assume new: "(j, m, path) \<in> set new"
    with one_further_new [OF new] scan_stepD(6) [OF st new] call_chain_snoc [OF head(2,1)] head(3)
    show ?thesis by auto
  qed
  have closed: "j \<in> set (se_visited s') \<and> ?\<delta> j \<le> Suc (?\<delta> k)" if k: "k \<in> insert i E" and call: "calls_to ?d k j" for k j
  proof -
    have \<delta>k: "?\<delta> k = \<delta> k" by (rule one_further_old [OF st]) (use k vis in blast)
    have "k \<noteq> i \<longrightarrow> j \<in> set (se_visited s) \<and> \<delta> j \<le> Suc (\<delta> k)"
      using g k call by (auto simp: graph_inv_def)
    then have "j \<in> set (map fst new) \<and> k = i \<or> j \<in> set (se_visited s) \<and> \<delta> j \<le> Suc (\<delta> k)"
      using scan_stepD(7) [OF st] visited_near [OF search_invD(4,3) [OF inv] q] call by blast
    then show ?thesis
    proof (elim disjE conjE)
      assume "j \<in> set (map fst new)" "k = i"
      moreover from this have "?\<delta> j = Suc (\<delta> i)" by (simp add: one_further_def)
      ultimately show ?thesis unfolding scan_stepD(1) [OF st] \<delta>k by simp
    next
      assume "j \<in> set (se_visited s)" "\<delta> j \<le> Suc (\<delta> k)"
      then show ?thesis unfolding scan_stepD(1) [OF st] \<delta>k using one_further_old [OF st, of j \<delta>] by simp
    qed
  qed
  show ?thesis unfolding graph_inv_def scan_stepD(2) [OF st]
    using queued closed by (intro conjI ballI allI impI) (clarsimp, blast+)
qed

lemma scan_visited:
  assumes inv: "search_inv N from_id a to_id maxd E K \<delta> s w" and q: "se_queue s = (i, n, p) # q"
    and st: "scan_step (w_db w) to_id i p q s s' new"
  shows "visited_inv N from_id to_id (insert i E) K s'"
  unfolding visited_inv_def
proof (intro conjI)
  note v = search_invD(3) [OF inv] note vis = visited_parts [OF v q]
  note vs = scan_stepD(1) [OF st] and fresh = scan_stepD(4,5) [OF st]
  have ids: "queue_ids s = insert i (fst ` set q)" "queue_ids s' = fst ` set q \<union> set (map fst new)"
    unfolding queue_ids_def q scan_stepD(2) [OF st] by (simp_all add: image_Un)
  have apart: "fst ` set q \<inter> set (map fst new) = {}" "i \<notin> set (map fst new)"
    using fresh(2) vis(2,3) by blast+
  have distinct: "distinct (i # map fst q)" and disj: "(E \<union> K) \<inter> queue_ids s = {}"
    using v q by (simp_all add: visited_inv_def)
  have new_id: "calls_to (w_db w) i j \<and> row_id N j" if "j \<in> set (map fst new)" for j
    using that scan_stepD(6) [OF st] search_invD(6) [OF inv] by (fastforce intro: row_idI)
  show "set (se_visited s') = insert i E \<union> K \<union> queue_ids s'" unfolding vs vis(1) ids by blast
  show "distinct (map fst (se_queue s'))" using distinct fresh(1) apart(1) unfolding scan_stepD(2) [OF st] by simp
  have "i \<notin> fst ` set q" using distinct by simp
  then show "(insert i E \<union> K) \<inter> queue_ids s' = {}"
    using disj fresh(2) vis(1) apart(2) unfolding ids by blast
  show "from_id \<in> set (se_visited s')" using vs search_invD(7) [OF inv] by blast
  show "to_id \<notin> set (se_visited s')" using vs search_invD(8) [OF inv] new_id scan_stepD(8) [OF st] by blast
  show "\<forall>j \<in> set (se_visited s'). row_id N j" using vs new_id v unfolding visited_inv_def by blast
qed

lemma scan_level:
  assumes inv: "search_inv N from_id a to_id maxd E K \<delta> s w" and q: "se_queue s = (i, n, p) # q"
    and st: "scan_step (w_db w) to_id i p q s s' new"
  shows "level_inv from_id maxd (insert i E) K (one_further new i \<delta>) s'"
proof (rule level_inv_next [OF _ _ _ _ scan_stepD(2) [OF st]])
  let ?\<delta> = "one_further new i \<delta>"
  note l = search_invD(4) [OF inv] and vis = visited_parts [OF search_invD(3) [OF inv] q]
  have vq: "?\<delta> (fst x) = \<delta> (fst x)" if "x \<in> set q" for x
    by (rule one_further_old [OF st]) (use that vis(3) in blast)
  have band: "\<delta> i \<le> ?\<delta> (fst x) \<and> ?\<delta> (fst x) \<le> Suc (\<delta> i)" if "x \<in> set (q @ new)" for x
    using that vq [of x] one_further_new [of x new i \<delta>] level_tail(1,2) [OF l q, of x] by fastforce
  have ek: "?\<delta> k = \<delta> k \<and> \<delta> k \<le> \<delta> i" if "k \<in> insert i E \<union> K" for k
    using one_further_old [OF st, of k \<delta>] level_head [OF l q, of k] that vis(1,2) by blast
  have "sorted (map (\<lambda>x. ?\<delta> (fst x)) q)" using l q vq by (simp add: level_inv_def cong: map_cong)
  moreover have "map (\<lambda>x. ?\<delta> (fst x)) new = replicate (length new) (Suc (\<delta> i))"
    using one_further_new [of _ new i \<delta>] by (simp add: map_replicate_const [symmetric] cong: map_cong)
  moreover have "\<forall>x \<in> set (map (\<lambda>x. ?\<delta> (fst x)) q). x \<le> Suc (\<delta> i)" using vq level_tail(2) [OF l q] by simp
  ultimately show "sorted (map (\<lambda>x. ?\<delta> (fst x)) (q @ new))" by (auto simp: sorted_append)
  show "?\<delta> from_id = 0" using one_further_old [OF st search_invD(7) [OF inv]] search_invD(9) [OF inv] by simp
  show "\<forall>k \<in> K. maxd \<le> ?\<delta> k" using ek l by (simp add: level_inv_def)
  show "K \<noteq> {} \<longrightarrow> se_limit_reached s'" using l scan_stepD(3) [OF st] by (simp add: level_inv_def)
  show "?\<delta> k \<le> ?\<delta> (fst x)" if "x \<in> set (q @ new)" "k \<in> insert i E \<union> K" for x k
    using band [OF that(1)] ek [OF that(2)] by simp
  show "?\<delta> (fst y) \<le> Suc (?\<delta> (fst x))" if "x \<in> set (q @ new)" "y \<in> set (q @ new)" for x y
    using band [OF that(1)] band [OF that(2)] by simp
qed

lemma search_inv_scan:
  assumes "search_inv N from_id a to_id maxd E K \<delta> s w" and "se_queue s = (i, n, p) # q"
    and "scan_step (w_db w) to_id i p q s s' new"
  shows "search_inv N from_id a to_id maxd (insert i E) K (one_further new i \<delta>) s' w"
  using scan_graph [OF assms] scan_visited [OF assms] scan_level [OF assms] search_invD(1) [OF assms(1)]
  by (simp add: search_inv_def)

section \<open>The outcome of the search\<close>

text \<open>A path that is right: stored calls from the start to the target, within the depth, and shortest.\<close>

definition shortest_path :: "Db \<Rightarrow> int \<Rightarrow> Node \<Rightarrow> int \<Rightarrow> nat \<Rightarrow> Node list \<Rightarrow> bool" where
  "shortest_path d from_id a to_id maxd path \<longleftrightarrow>
     (\<exists>b. n_id b = Some to_id \<and> call_chain d UNIV a b path) \<and> length path \<le> Suc maxd \<and>
     (\<forall>k. Suc k < length path \<longrightarrow> (from_id, to_id) \<notin> calls_rel d ^^ k)"

lemma walk_stays_expanded:
  assumes inv: "search_inv N from_id a to_id maxd E K \<delta> s w" and q: "se_queue s = (i, n, p) # q"
    and shallow: "length p \<le> maxd"
  shows "(from_id, v) \<in> calls_rel (w_db w) ^^ k \<Longrightarrow> k \<le> \<delta> i \<Longrightarrow> v \<in> set (se_visited s) \<and> \<delta> v \<le> k"
proof (induction k arbitrary: v)
  case 0
  then show ?case using search_invD(7,9) [OF inv] by simp
next
  case (Suc k)
  then obtain u where u: "(from_id, u) \<in> calls_rel (w_db w) ^^ k" "(u, v) \<in> calls_rel (w_db w)" by auto
  with Suc have uk: "u \<in> set (se_visited s)" "\<delta> u \<le> k" by simp_all
  have l: "level_inv from_id maxd E K \<delta> s" and vi: "visited_inv N from_id to_id E K s"
    and g: "graph_inv a E \<delta> s (w_db w)" using inv by (simp_all add: search_inv_def)
  have "length p = Suc (\<delta> i)" using g q by (simp add: graph_inv_def)
  then have "\<delta> i < maxd" using shallow by simp
  then have "u \<notin> K" using uk(2) Suc.prems(2) l by (force simp: level_inv_def)
  moreover have "u \<notin> queue_ids s"
    using level_tail(1) [OF l q] uk(2) Suc.prems(2) q by (force simp: queue_ids_def)
  ultimately have "u \<in> E" using uk(1) vi by (auto simp: visited_inv_def)
  then have "v \<in> set (se_visited s) \<and> \<delta> v \<le> Suc (\<delta> u)" using g u(2) by (auto simp: graph_inv_def calls_rel_def)
  then show ?case using uk(2) by auto
qed

lemma search_found:
  assumes inv: "search_inv N from_id a to_id maxd E K \<delta> s w" and q: "se_queue s = (i, n, p) # q"
    and shallow: "length p \<le> maxd" and call: "calls_to (w_db w) i to_id"
    and m: "m \<in> set N" "n_id m = Some to_id"
  shows "shortest_path (w_db w) from_id a to_id maxd (p @ [m])"
proof -
  note g = search_invD(2) [OF inv] and r = search_invD(6) [OF inv] and to = search_invD(8) [OF inv]
  have head: "n_id n = Some i" "call_chain (w_db w) E a n p" "length p = Suc (\<delta> i)"
    using g q by (simp_all add: graph_inv_def)
  have "call_chain (w_db w) UNIV a m (p @ [m])"
    by (rule call_chain_mono [OF call_chain_snoc [OF head(2,1) call]]) (use m r in simp_all)
  moreover have "(from_id, to_id) \<notin> calls_rel (w_db w) ^^ k" if "Suc k < length (p @ [m])" for k
  proof
    assume "(from_id, to_id) \<in> calls_rel (w_db w) ^^ k"
    moreover have "k \<le> \<delta> i" using that head(3) by simp
    ultimately show False using walk_stays_expanded [OF inv q shallow] to by blast
  qed
  ultimately show ?thesis using m(2) shallow by (auto simp: shortest_path_def)
qed

lemma search_exhausted:
  assumes inv: "search_inv N from_id a to_id maxd E K \<delta> s w" and q: "se_queue s = []"
    and limit: "\<not> se_limit_reached s"
  shows "(from_id, to_id) \<notin> (calls_rel (w_db w))\<^sup>*"
proof -
  have vis: "set (se_visited s) = E"
    using search_invD(3,4) [OF inv] q limit by (auto simp: visited_inv_def level_inv_def queue_ids_def)
  have to: "to_id \<notin> E" and start: "from_id \<in> E" using search_invD(7,8) [OF inv] vis by simp_all
  have "v \<in> E" if "(from_id, v) \<in> (calls_rel (w_db w))\<^sup>*" for v
    using that
  proof induction
    case base
    show ?case by (rule start)
  next
    case (step u v)
    then have "v \<in> set (se_visited s)" using search_invD(2) [OF inv] by (auto simp: graph_inv_def calls_rel_def)
    then show ?case by (simp add: vis)
  qed
  with to show ?thesis by blast
qed

text \<open>The loop. Rows not yet seen and rows queued bound the rounds it takes.\<close>

definition search_size :: "Node list \<Rightarrow> Search \<Rightarrow> nat" where
  "search_size N s = length (se_queue s) + card ({i. row_id N i} - set (se_visited s))"

lemma finite_row_ids: "finite {i. row_id N i}"
proof -
  have "{i. row_id N i} = (\<lambda>n. the (n_id n)) ` {n \<in> set N. n_id n \<noteq> None}"
    by (force simp: row_id_def image_iff)
  then show ?thesis by simp
qed

lemma search_size_scan:
  assumes "scan_adds p gs (s\<lparr>se_queue := q\<rparr>) s' new" and "se_queue s = x # q"
    and "\<forall>i \<in> set (map fst new). row_id N i"
  shows "search_size N s' < search_size N s"
proof -
  have new: "distinct (map fst new)" "set (map fst new) \<inter> set (se_visited s) = {}"
    "se_queue s' = q @ new" "se_visited s' = rev (map fst new) @ se_visited s"
    using assms(1) unfolding scan_adds_def by simp_all
  let ?U = "{i. row_id N i} - set (se_visited s)"
  have sub: "set (map fst new) \<subseteq> ?U" using assms(3) new(2) by auto
  have "card (set (map fst new)) = length new" using distinct_card [OF new(1)] by simp
  then have "card (?U - set (map fst new)) = card ?U - length new"
    using card_Diff_subset [OF _ sub] finite_row_ids by simp
  moreover have "length new \<le> card ?U"
    using card_mono [OF _ sub] finite_row_ids [of N] \<open>card (set (map fst new)) = length new\<close> by simp
  moreover have "{i. row_id N i} - set (se_visited s') = ?U - set (map fst new)" using new(4) by auto
  ultimately show ?thesis using new(3) assms(2) by (simp add: search_size_def)
qed

definition search_result :: "int \<Rightarrow> Node \<Rightarrow> int \<Rightarrow> nat \<Rightarrow> Db \<Rightarrow> (Node list \<times> bool) + Search \<Rightarrow> bool" where
  "search_result from_id a to_id maxd d r \<longleftrightarrow> (case r of
      Inl (path, t) \<Rightarrow> shortest_path d from_id a to_id maxd path
    | Inr s \<Rightarrow> \<not> se_limit_reached s \<longrightarrow> (from_id, to_id) \<notin> (calls_rel d)\<^sup>*)"

text \<open>One round on a row within the depth: the target is found, or the search goes on, smaller.\<close>

lemma search_round:
  assumes ro: "row_order_ok (qe_order qe)" and inv: "search_inv N from_id a to_id maxd E K \<delta> s w"
    and q: "se_queue s = (i, n, p) # q" and shallow: "length p \<le> maxd"
  shows "(\<exists>found t w1. search_calls (Suc fuel) qe to_id maxd client s w = (Inr (Some (Inl (found, t))), w1) \<and>
      rows_are N w1 \<and> shortest_path (w_db w1) from_id a to_id maxd found) \<or>
    (\<exists>E' \<delta>' s' w1. search_calls (Suc fuel) qe to_id maxd client s w = search_calls fuel qe to_id maxd client s' w1 \<and>
      search_inv N from_id a to_id maxd E' K \<delta>' s' w1 \<and> search_size N s' < search_size N s)"
proof -
  note v = search_invD(3) [OF inv]
  have i: "i \<notin> E" "row_id N i" using v q visited_parts(2) [OF v q] by (auto simp: visited_inv_def queue_ids_def)
  with totalQ_D [OF totalQ_expand [OF ro] search_invD(1) [OF inv]]
  obtain u t b w1 where x: "expand_outgoing_calls qe i n client (se_budget s) w = (Inr (u, t, b), w1)"
    and rows: "rows_are N w1" by (metis prod_cases3)
  let ?l = "se_limit_reached s \<or> \<not> u"
  let ?s = "s\<lparr>se_budget := b, se_timed_out := se_timed_out s \<or> t, se_limit_reached := ?l\<rparr>"
  let ?s1 = "s\<lparr>se_queue := q, se_budget := b, se_timed_out := se_timed_out s \<or> t, se_limit_reached := ?l\<rparr>"
  let ?gs = "group_by_node (get_neighbors (qe_order qe) (w_db w1) i ''calls'' Outgoing)"
  have inv1: "search_inv N from_id a to_id maxd E K \<delta> ?s w1"
    by (rule search_inv_flags [OF search_inv_expand [OF inv x i(1) rows]]) simp
  have q1: "se_queue ?s = (i, n, p) # q" using q by simp
  have eq: "?s1 = ?s\<lparr>se_queue := q\<rparr>" by (cases s) simp
  note wf1 = search_invD(5) [OF inv1]
  have "neighbors_of qe i ''calls'' Outgoing w1 = (Inr (get_neighbors (qe_order qe) (w_db w1) i ''calls'' Outgoing), w1)"
    by (simp add: neighbors_of_def on_db_def db_read_def)
  then have run: "search_calls (Suc fuel) qe to_id maxd client s w =
      (case scan_callees to_id p ?gs ?s1 of Inl found \<Rightarrow> returnQ (Some (Inl (found, se_timed_out s \<or> t)))
       | Inr s3 \<Rightarrow> search_calls fuel qe to_id maxd client s3) w1"
    using shallow q x by (simp add: bindQ_def Let_def split: sum.split)
  show ?thesis
  proof (cases "scan_callees to_id p ?gs ?s1")
    case (Inl found)
    then obtain m sites where m: "(m, sites) \<in> set ?gs" "n_id m = Some to_id" "found = p @ [m]"
      using scan_callees_found by blast
    then have "m \<in> set (db_nodes (w_db w1))" "calls_to (w_db w1) i to_id"
      using callee_groups [OF ro wf1, of m i] by auto
    with search_found [OF inv1 q1 shallow] m search_invD(6) [OF inv1]
    have "shortest_path (w_db w1) from_id a to_id maxd found" by simp
    then show ?thesis unfolding run Inl using rows by simp
  next
    case (Inr s3)
    then obtain new where adds: "scan_adds p ?gs (?s\<lparr>se_queue := q\<rparr>) s3 new"
      and other: "\<forall>(m, sites) \<in> set ?gs. n_id m \<noteq> Some to_id"
      using scan_callees_done [OF Inr [unfolded eq]] by blast
    note st = scan_step_scan [OF ro wf1 adds other]
    note inv3 = search_inv_scan [OF inv1 q1 st]
    have "\<forall>j \<in> set (map fst new). row_id N j"
      using search_invD(3) [OF inv3] scan_stepD(1) [OF st] by (auto simp: visited_inv_def)
    then have "search_size N s3 < search_size N ?s" by (rule search_size_scan [OF adds q1])
    then have "search_size N s3 < search_size N s" by (simp add: search_size_def)
    with inv3 show ?thesis unfolding run Inr by auto
  qed
qed

lemma search_calls_correct:
  assumes ro: "row_order_ok (qe_order qe)"
  shows "search_inv N from_id a to_id maxd E K \<delta> s w \<Longrightarrow> search_size N s < fuel \<Longrightarrow>
    \<exists>r w'. search_calls fuel qe to_id maxd client s w = (Inr (Some r), w') \<and> rows_are N w' \<and>
      search_result from_id a to_id maxd (w_db w') r"
proof (induction fuel arbitrary: s w E K \<delta>)
  case (Suc fuel)
  note inv = Suc.prems(1)
  show ?case
  proof (cases "se_queue s")
    case Nil
    then show ?thesis using search_exhausted [OF inv] search_invD(1) [OF inv] by (simp add: search_result_def)
  next
    case (Cons x q)
    obtain i n p where q: "se_queue s = (i, n, p) # q" using Cons by (cases x) auto
    show ?thesis
    proof (cases "maxd < length p")
      case True
      let ?s = "s\<lparr>se_queue := q, se_limit_reached := True\<rparr>"
      have "search_size N ?s < fuel" using Suc.prems(2) q by (simp add: search_size_def)
      from Suc.IH [OF search_inv_drop [OF inv q True] this] True q show ?thesis by simp
    next
      case False
      then have "length p \<le> maxd" by simp
      from search_round [OF ro inv q this, where fuel = fuel and client = client]
      show ?thesis
      proof (elim disjE exE conjE)
        fix found t w1
        assume "search_calls (Suc fuel) qe to_id maxd client s w = (Inr (Some (Inl (found, t))), w1)"
          "rows_are N w1" "shortest_path (w_db w1) from_id a to_id maxd found"
        then show ?thesis by (simp add: search_result_def del: search_calls.simps)
      next
        fix E' \<delta>' s' w1
        assume run: "search_calls (Suc fuel) qe to_id maxd client s w = search_calls fuel qe to_id maxd client s' w1"
          and next_inv: "search_inv N from_id a to_id maxd E' K \<delta>' s' w1" and "search_size N s' < search_size N s"
        then have "search_size N s' < fuel" using Suc.prems(2) by simp
        from Suc.IH [OF next_inv this] show ?thesis unfolding run .
      qed
    qed
  qed
qed simp

lemma path_search_correct:
  assumes "row_order_ok (qe_order qe)" and "rows_are N w" and "a \<in> set N" and "n_id a = Some from_id"
    and "from_id \<noteq> to_id"
  shows "\<exists>r w'. path_search qe from_id a to_id maxd b t client w = (Inr (Some r), w') \<and> rows_are N w' \<and>
      search_result from_id a to_id maxd (w_db w') r"
proof -
  have ids: "{i. row_id N i} = (\<lambda>n. the (n_id n)) ` set N"
  proof -
    have "\<exists>i. n_id n = Some i" if "n \<in> set N" for n
      using assms(2) that wf_node_idD [of "w_db w" n] by (auto simp: rows_are_def)
    then show ?thesis by (force simp: row_id_def image_iff)
  qed
  let ?s = "search_start from_id a b t"
  have "card ({i. row_id N i} - {from_id}) < card {i. row_id N i}"
    using assms(3,4) by (intro card_Diff1_less finite_row_ids) (auto simp: row_id_def)
  also have "\<dots> \<le> length N" unfolding ids by (meson card_image_le card_length finite_set le_trans)
  finally have size: "search_size N ?s < length N + 1"
    by (simp add: search_size_def search_start_def)
  have "node_count w = (Inr (length N), w)" using assms(2) by (simp add: node_count_def on_db_def db_read_def rows_are_def)
  with search_calls_correct [OF assms(1) search_inv_start [OF assms(2-5)] size] show ?thesis
    unfolding path_search_def by (simp add: bindQ_def del: search_calls.simps)
qed

end
