(* ===== verification/Query_Asks.thy ===== *)
theory Query_Asks
  imports Query_Ops
begin

text \<open>
  What the query operations ask of the outside. The locale \<open>ask_discipline\<close> carries a relation
  on worlds through every operation that only asks harmless things; \<open>full_discipline\<close> carries it
  through all of them. It is used with "sends no call-hierarchy preparation", "reads no file
  outside the workspace" and "asks the server for nothing".
\<close>

section \<open>Carrying a relation through the operations\<close>

lemma stepsQ_foldQ:
  "preorder_rel R \<Longrightarrow> (\<And>x b. stepsQ R (f x b)) \<Longrightarrow> stepsQ R (foldQ f xs b)"
  by (induction xs arbitrary: b) (simp_all add: stepsQ_return stepsQ_bind)

lemma stepsQ_direction:
  "stepsQ R a \<Longrightarrow> stepsQ R b \<Longrightarrow> stepsQ R (case dir of Incoming \<Rightarrow> a | Outgoing \<Rightarrow> b)"
  by (cases dir) simp_all

definition harmless :: "Ask \<Rightarrow> bool" where
  "harmless a = (case a of AskPrepare u l k \<Rightarrow> False | AskRead s \<Rightarrow> False | _ \<Rightarrow> True)"

definition after_ask :: "Ask \<Rightarrow> World \<Rightarrow> World" where
  "after_ask a w = w\<lparr>w_asks := w_asks w @ [a]\<rparr>"

locale ask_discipline =
  fixes R :: "World \<Rightarrow> World \<Rightarrow> bool" and qe :: QueryEngine
  assumes preorder [steps]: "preorder_rel R"
    and db_change: "R w (w\<lparr>w_db := d\<rparr>)"
    and harmless_ask: "harmless a \<Longrightarrow> R w (after_ask a w)"
    and read_step [steps]: "stepsQ R (read_file_text qe u)"
begin

lemma db_step [steps]: "stepsQ R (on_db m)"
  unfolding stepsQ_def on_db_def using db_change by (auto split: prod.split)

lemma ask_step: "R w (after_ask a w) \<Longrightarrow> R w (snd (ask a f w))"
  by (simp add: ask_def after_ask_def)

lemma asks [steps]:
  "stepsQ R (ask (AskOpen u t) f1)" "stepsQ R (ask (AskDefinition u l k) f2)"
  "stepsQ R (ask (AskReferences u l k b) f3)" "stepsQ R (ask (AskImplementation u l k) f4)"
  "stepsQ R (ask (AskIncoming i) f5)" "stepsQ R (ask (AskOutgoing i) f6)" "stepsQ R (ask (AskHover u l k) f7)"
  unfolding stepsQ_def by (intro allI ask_step harmless_ask, simp add: harmless_def)+

lemma documents [steps]:
  "stepsQ R (open_text c u t)" "stepsQ R (ensure_open qe c u)" "stepsQ R (node_of_location qe l)"
  "stepsQ R (node_at qe u p)" "stepsQ R (cached_hash i)" "stepsQ R (store_hash i h)" "stepsQ R (put_edge e)"
  "stepsQ R (neighbors_of qe i ty dir)" "stepsQ R node_count"
  unfolding ensure_open_def open_document_def open_text_def node_of_location_def node_at_def cached_hash_def
    store_hash_def put_edge_def neighbors_of_def node_count_def
  by (intro steps)+

lemma with_row [steps]: "stepsQ R m \<Longrightarrow> (\<And>n i. stepsQ R (f n i)) \<Longrightarrow> stepsQ R (with_row m f)"
  unfolding with_row_def by (intro steps)

lemma call_edges [steps]: "stepsQ R (call_edges_from u i j rs)"
  unfolding call_edges_from_def by (intro steps)

lemma references [steps]: "stepsQ R (materialize_references qe c i n)"
  unfolding materialize_references_def Let_def by (intro steps)

lemma incoming [steps]: "stepsQ R (materialize_incoming qe c i item)"
  unfolding materialize_incoming_def caller_of_def Let_def by (intro steps)

lemma outgoing [steps]: "stepsQ R (materialize_outgoing qe c i n item)"
proof -
  have "stepsQ R (resolve_outgoing_callee qe c n m j)" for m j
    unfolding resolve_outgoing_callee_def is_interface_row_def concrete_of_def Let_def by (intro steps)
  then have "stepsQ R (materialize_outgoing_call qe c i n call b)" for call b
    unfolding materialize_outgoing_call_def by (intro steps)
  then show ?thesis unfolding materialize_outgoing_def Let_def
    by (intro stepsQ_bind preorder asks stepsQ_prod stepsQ_foldQ)
qed

lemma anchors [steps]: "stepsQ R (definition_anchor qe c u l k)" "stepsQ R (resolve_anchor_id qe symref client)"
proof -
  have first: "stepsQ R (first_indexed qe ls)" for ls
    by (induction ls) (simp_all add: steps)
  show anchor: "stepsQ R (definition_anchor qe c u l k)" for c u l k
    unfolding definition_anchor_def Let_def by (intro first steps)
  show "stepsQ R (resolve_anchor_id qe symref client)"
    unfolding resolve_anchor_id_def by (cases symref; simp; intro anchor steps)
qed

lemma hints [steps]: "stepsQ R (hint_fqns_for_symref qe symref)" "stepsQ R (hint_if_missing qe symref m)"
proof -
  show "stepsQ R (hint_fqns_for_symref qe symref)"
    unfolding hint_fqns_for_symref_def hint_fqns_for_def Let_def by (cases symref; simp; intro steps)
  then show "stepsQ R (hint_if_missing qe symref m)" unfolding hint_if_missing_def by (intro stepsQ_if steps)
qed

lemma pages [steps]: "stepsQ R (references_from_cache qe i filt page)" "stepsQ R (read_calls_page qe i dir filt page)"
  unfolding references_from_cache_def read_calls_page_def by (intro steps)+

lemma definition_op: "stepsQ R (find_definition qe symref client)"
proof -
  have "stepsQ R (refine_construct i h n)" "stepsQ R (refine_signature i h n)" for i h n
    unfolding refine_construct_def refine_signature_def Let_def by (intro steps)+
  then have "stepsQ R (refine_from_hover qe c i n)" for c i n
    unfolding refine_from_hover_def by (intro steps)
  then have "stepsQ R (definition_target qe c l)" for c l
    unfolding definition_target_def by (intro steps)
  then show ?thesis unfolding find_definition_def Let_def by (cases symref; simp; intro steps)
qed

lemma references_op: "stepsQ R (find_references qe symref filt page client)"
  unfolding find_references_def with_client_def by (intro steps)

end

locale full_discipline = ask_discipline +
  assumes prepare_ask: "R w (after_ask (AskPrepare u l k) w)"
begin

lemma prepare_step: "stepsQ R (ask (AskPrepare u l k) f)"
  unfolding stepsQ_def by (intro allI ask_step prepare_ask)

lemma call_edges_op [steps]: "stepsQ R (materialize_call_edges qe c i n dir)"
  unfolding materialize_call_edges_def Let_def
  by (intro stepsQ_bind preorder prepare_step stepsQ_prod stepsQ_list stepsQ_return stepsQ_direction incoming outgoing)

lemma refresh [steps]: "stepsQ R (refresh_outgoing qe c i n)"
  unfolding refresh_outgoing_def by (intro steps)

lemma call_graph_op: "stepsQ R (call_graph qe symref dir filt page client)"
  unfolding call_graph_def with_client_def by (intro steps)

lemma callees_op: "stepsQ R (find_callees qe symref filt page client)"
proof -
  have "stepsQ R (freshen_callees qe c i n)" for c i n
    unfolding freshen_callees_def Let_def by (intro steps)
  then show ?thesis unfolding find_callees_def with_client_def by (intro steps)
qed

lemma search_op: "stepsQ R (search_calls fuel qe to_id maxd client s)"
proof (induction fuel arbitrary: s)
  case (Suc fuel)
  have "stepsQ R (expand_outgoing_calls qe i n client b)" for i n b
    unfolding expand_outgoing_calls_def Let_def by (intro steps)
  with Suc show ?case unfolding search_calls.simps Let_def
    by (intro stepsQ_list stepsQ_return stepsQ_prod stepsQ_if stepsQ_bind stepsQ_sum preorder documents)
qed (simp add: steps)

lemma call_path_op: "stepsQ R (find_call_path qe f t maxd b client)"
  unfolding find_call_path_def path_search_def
  by (intro stepsQ_bind preorder stepsQ_prod anchors stepsQ_option stepsQ_if stepsQ_return documents search_op hints)

end

end
