(* ===== verification/Query_Props.thy ===== *)
theory Query_Props
  imports Call_Path Query_Asks
begin

text \<open>
  The properties of the query operations: they answer, a call path they report is right, an
  honest "no" is a proof, the request budget holds, and what the callee cache remembers.
\<close>

section \<open>Every query answers\<close>

text \<open>A query that answers leaves a consistent store with the same rows.\<close>

definition answers :: "'a query \<Rightarrow> World \<Rightarrow> bool" where
  "answers m w \<longleftrightarrow> (\<exists>r w'. m w = (Inr r, w') \<and> wf_db (w_db w') \<and> db_nodes (w_db w') = db_nodes (w_db w))"

lemma answersI: "totalQ (rows_are (db_nodes (w_db w))) m Q \<Longrightarrow> wf_db (w_db w) \<Longrightarrow> answers m w"
  using totalQ_D [of "rows_are (db_nodes (w_db w))" m Q w] by (auto simp: answers_def rows_are_def)

lemma totalQ_path_search:
  assumes "row_order_ok (qe_order qe)" and "a \<in> set N" and "n_id a = Some i" and "i \<noteq> j"
  shows "totalQ (rows_are N) (path_search qe i a j maxd b t client) (\<lambda>r. r \<noteq> None)"
  unfolding totalQ_def using path_search_correct [OF assms(1) _ assms(2-4)] by fast

lemma totalQ_find_call_path:
  assumes "row_order_ok (qe_order qe)"
  shows "totalQ (rows_are N) (find_call_path qe f t maxd b client) (\<lambda>r. r \<noteq> None)"
proof -
  have hint: "totalQ (rows_are N) (hint_if_missing qe s m) (\<lambda>_. True)" for s m
    unfolding hint_if_missing_def by (intro totalQ_if totalQ_hints totalQ_return TrueI)
  show ?thesis
    unfolding find_call_path_def
    by (rule totalQ_bind [OF totalQ_resolve_anchor [OF assms]], clarsimp split del: if_split,
        rule totalQ_bind [OF totalQ_resolve_anchor [OF assms]])
      (auto intro!: totalQ_if totalQ_return totalQ_bind [OF hint] totalQ_bind [OF totalQ_path_search [OF assms]]
        simp: anchor_in_def split: option.splits)
qed

text \<open>C4: A graph query always answers. Over a consistent store, whatever the language server answers,
  refuses or times out on, and with or without one, finding references, callers, callees and call
  paths returns a result rather than an error, the path search ends, and the store afterwards is
  consistent and has the rows it had: queries write edges only, and only between existing rows.\<close>

theorem queries_never_fail:
  assumes "row_order_ok (qe_order qe)" and "wf_db (w_db w)"
  shows "answers (find_references qe symref filt page client) w \<and>
    answers (call_graph qe symref dir filt page client) w \<and>
    answers (find_callees qe symref filt page client) w \<and>
    (\<exists>r w'. find_call_path qe symref to_ref maxd budget client w = (Inr (Some r), w') \<and>
       wf_db (w_db w') \<and> db_nodes (w_db w') = db_nodes (w_db w))"
proof (intro conjI)
  show "answers (find_references qe symref filt page client) w"
    by (rule answersI [OF totalQ_find_references [OF assms(1)] assms(2)])
  show "answers (call_graph qe symref dir filt page client) w"
    by (rule answersI [OF totalQ_call_graph [OF assms(1)] assms(2)])
  show "answers (find_callees qe symref filt page client) w"
    by (rule answersI [OF totalQ_find_callees [OF assms(1)] assms(2)])
  have "rows_are (db_nodes (w_db w)) w" using assms(2) by (simp add: rows_are_def)
  from totalQ_D [OF totalQ_find_call_path [OF assms(1)] this, of symref to_ref maxd budget client]
  show "\<exists>r w'. find_call_path qe symref to_ref maxd budget client w = (Inr (Some r), w') \<and>
       wf_db (w_db w') \<and> db_nodes (w_db w') = db_nodes (w_db w)"
    by (auto simp: rows_are_def)
qed

text \<open>A client whose every answer is an error.\<close>

definition failing_client :: LspQueryClient where
  "failing_client = \<lparr>qc_open = (\<lambda>_ _ _. Inl (QueryFailed ''down'')),
     qc_definition = (\<lambda>_ _ _ _. Inl (QueryFailed ''down'')), qc_references = (\<lambda>_ _ _ _ _. Inl (QueryFailed ''down'')),
     qc_implementation = (\<lambda>_ _ _ _. Inl (QueryFailed ''down'')), qc_prepare = (\<lambda>_ _ _ _. Inl (QueryFailed ''down'')),
     qc_incoming = (\<lambda>_ _. Inl (QueryFailed ''down'')), qc_outgoing = (\<lambda>_ _. Inl (QueryFailed ''down'')),
     qc_hover = (\<lambda>_ _ _ _. Inl (QueryFailed ''down''))\<rparr>"

theorem queries_never_fail_witness:
  "answers (find_callees sample_engine (Fqn ''m.A.f'') default_filter default_page (Some failing_client)) nested_world"
  using queries_never_fail [of sample_engine nested_world "Fqn ''m.A.f''" default_filter default_page "Some failing_client"
      Outgoing "Fqn ''m.A''" 3 2] by simp

section \<open>Call paths\<close>

lemma shortest_path_self:
  "a \<in> set (db_nodes d) \<Longrightarrow> n_id a = Some i \<Longrightarrow> shortest_path d i a i maxd [a]"
  by (auto simp: shortest_path_def call_chain_def)

text \<open>C2: A call path is right, and so is an honest "no". When both ends resolve, the search returns.
  A path it reports leads from one end to the other over valid stored calls between existing
  rows, has at most \<open>max_depth\<close> hops, and no shorter chain of stored calls joins the ends. When it
  reports no path and no limit was reached, no chain of stored calls of any length joins them.\<close>

theorem call_path_correct:
  assumes "row_order_ok (qe_order qe)" and "wf_db (w_db w)"
    and "resolve_anchor_id qe from_ref client w = (Inr (Some (i, a), t1), w1)"
    and "resolve_anchor_id qe to_ref client w1 = (Inr (Some (j, b), t2), w2)"
  shows "\<exists>res t w'. find_call_path qe from_ref to_ref maxd budget client w = (Inr (Some (res, t)), w') \<and>
    (if cp_reachable res
     then \<exists>path. cp_path res = map dto_from_node path \<and> shortest_path (w_db w') i a j maxd path
     else cp_limit_reached res \<or> (i, j) \<notin> (calls_rel (w_db w'))\<^sup>*)"
proof -
  define N where "N = db_nodes (w_db w)"
  have w0: "rows_are N w" using assms(2) by (simp add: N_def rows_are_def)
  from totalQ_D [OF totalQ_resolve_anchor [OF assms(1)] w0, of from_ref client] assms(3)
  have w1: "rows_are N w1" and a: "a \<in> set N" "n_id a = Some i" by (auto simp: anchor_in_def)
  from totalQ_D [OF totalQ_resolve_anchor [OF assms(1)] w1, of to_ref client] assms(4)
  have w2: "rows_are N w2" and b: "b \<in> set N" "n_id b = Some j" by (auto simp: anchor_in_def)
  show ?thesis
  proof (cases "i = j")
    case True
    then show ?thesis using assms(3,4) a w2
      by (auto simp: find_call_path_def bindQ_def path_result_def rows_are_def intro!: exI [of _ "[a]"] shortest_path_self)
  next
    case False
    from path_search_correct [OF assms(1) w2 a False, of maxd budget "t1 \<or> t2" client]
    obtain r w' where r: "path_search qe i a j maxd budget (t1 \<or> t2) client w2 = (Inr (Some r), w')"
      and ok: "search_result i a j maxd (w_db w') r" by blast
    show ?thesis
    proof (cases r)
      case (Inl p)
      obtain path t where p: "p = (path, t)" by (cases p)
      with r Inl ok assms(3,4) False show ?thesis
        by (auto simp: find_call_path_def bindQ_def path_result_def search_result_def)
    next
      case (Inr s)
      with r ok assms(3,4) False show ?thesis
        by (auto simp: find_call_path_def bindQ_def path_result_def search_result_def)
    qed
  qed
qed

definition edge_world :: World where
  "edge_world = \<lparr>w_db = nested_db\<lparr>db_edges := [\<lparr>e_id = Some 1, e_src = 1, e_dst = 2, e_type = ''calls'',
     e_site = None, e_valid = True\<rparr>], db_edge_seq := 1\<rparr>, w_asks = []\<rparr>"

lemma edge_world_wf: "wf_db (w_db edge_world)"
  by (simp add: edge_world_def nested_db_def empty_db_def row_at_def line_range_def wf_db_def wf_nodes_def
      wf_edges_def wf_caches_def rows_ok_def node_ids_def phys_key_def edge_types_def)

lemma edge_world_anchors:
  "resolve_anchor_id sample_engine (Fqn ''m.A'') None edge_world = (Inr (Some (1, db_nodes nested_db ! 0), False), edge_world)"
  "resolve_anchor_id sample_engine (Fqn ''m.A.f'') None edge_world = (Inr (Some (2, db_nodes nested_db ! 1), False), edge_world)"
  by (simp_all add: resolve_anchor_id_def bindQ_def on_db_def db_read_def get_node_by_fqn_def edge_world_def
      nested_db_def row_at_def)

theorem call_path_correct_witness:
  "\<exists>res t w'. find_call_path sample_engine (Fqn ''m.A'') (Fqn ''m.A.f'') 3 2 None edge_world = (Inr (Some (res, t)), w') \<and>
    (if cp_reachable res
     then \<exists>path. cp_path res = map dto_from_node path \<and>
       shortest_path (w_db w') 1 (db_nodes nested_db ! 0) 2 3 path
     else cp_limit_reached res \<or> (1, 2) \<notin> (calls_rel (w_db w'))\<^sup>*)"
  by (rule call_path_correct [OF _ edge_world_wf edge_world_anchors]) simp

section \<open>The request budget\<close>

definition prepares :: "World \<Rightarrow> nat" where
  "prepares w = length (filter (\<lambda>x. case x of AskPrepare u l c \<Rightarrow> True | _ \<Rightarrow> False) (w_asks w))"

definition same_prepares :: "World \<Rightarrow> World \<Rightarrow> bool" where
  "same_prepares w w' \<longleftrightarrow> prepares w' = prepares w"

lemma preorder_same_prepares [steps]: "preorder_rel same_prepares"
  by (simp add: preorder_rel_def same_prepares_def)

interpretation pr: ask_discipline same_prepares qe for qe
proof
  show "preorder_rel same_prepares" by (rule preorder_same_prepares)
  show "same_prepares w (w\<lparr>w_db := d\<rparr>)" for w d by (simp add: same_prepares_def prepares_def)
  show quiet: "same_prepares w (after_ask a w)" if "harmless a" for a w
    using that by (cases a) (simp_all add: harmless_def same_prepares_def prepares_def after_ask_def)
  have "stepsQ same_prepares (ask (AskCanon x) f)" "stepsQ same_prepares (ask (AskRead x) f)" for x f
    by (simp_all add: stepsQ_def ask_def same_prepares_def prepares_def)
  then show "stepsQ same_prepares (read_file_text qe u)" for u
    unfolding read_file_text_def confine_def canonicalize_def read_path_def Let_def
    by (intro stepsQ_bind preorder_same_prepares stepsQ_sum stepsQ_return stepsQ_if)
qed

text \<open>A step spends at most a budget, and what its value leaves of it is still to be spent.\<close>

definition spends :: "nat \<Rightarrow> ('a \<Rightarrow> nat) \<Rightarrow> 'a query \<Rightarrow> bool" where
  "spends b left m \<longleftrightarrow> (\<forall>w. case m w of
      (Inl e, w') \<Rightarrow> prepares w' \<le> prepares w + b
    | (Inr x, w') \<Rightarrow> prepares w' + left x \<le> prepares w + b)"

lemma spends_return: "left x \<le> b \<Longrightarrow> spends b left (returnQ x)"
  by (simp add: spends_def)

lemma spends_bind:
  assumes "spends b left m" and "\<And>x. spends (left x) right (f x)"
  shows "spends b right (bindQ m f)"
  unfolding spends_def
proof
  fix w
  obtain r w1 where m: "m w = (r, w1)" by force
  show "case bindQ m f w of (Inl e, w') \<Rightarrow> prepares w' \<le> prepares w + b
    | (Inr x, w') \<Rightarrow> prepares w' + right x \<le> prepares w + b"
  proof (cases r)
    case (Inl e)
    then show ?thesis using m assms(1) unfolding spends_def by (auto simp: bindQ_def dest: spec [of _ w])
  next
    case (Inr x)
    then have one: "prepares w1 + left x \<le> prepares w + b"
      using m assms(1) unfolding spends_def by (auto dest: spec [of _ w])
    obtain q w2 where f: "f x w1 = (q, w2)" by force
    have "case f x w1 of (Inl e, w') \<Rightarrow> prepares w' \<le> prepares w1 + left x
      | (Inr y, w') \<Rightarrow> prepares w' + right y \<le> prepares w1 + left x"
      using assms(2) [of x] by (simp add: spends_def)
    with one m f Inr show ?thesis by (cases q) (simp_all add: bindQ_def)
  qed
qed

lemma spends_quiet:
  assumes "stepsQ same_prepares m"
  shows "spends b (\<lambda>_. b) m"
  unfolding spends_def
proof
  fix w
  obtain r w' where m: "m w = (r, w')" by force
  with stepsQ_D [OF assms m] show "case m w of (Inl e, w') \<Rightarrow> prepares w' \<le> prepares w + b
      | (Inr x, w') \<Rightarrow> prepares w' + b \<le> prepares w + b"
    by (cases r) (simp_all add: same_prepares_def)
qed

lemma spends_option:
  "(z = None \<Longrightarrow> spends b left a) \<Longrightarrow> (\<And>x. z = Some x \<Longrightarrow> spends b left (f x)) \<Longrightarrow>
     spends b left (case z of None \<Rightarrow> a | Some x \<Rightarrow> f x)"
  by (cases z) simp_all

lemma spends_if: "(c \<Longrightarrow> spends b left m) \<Longrightarrow> (\<not> c \<Longrightarrow> spends b left m') \<Longrightarrow> spends b left (if c then m else m')"
  by simp

lemma spends_refresh: "spends (Suc b) (\<lambda>_. b) (refresh_outgoing qe c i n)"
proof -
  have one: "spends (Suc b) (\<lambda>_. b) (ask (AskPrepare u l k) f)" for u l k f
    by (simp add: spends_def ask_def prepares_def)
  have rest: "stepsQ same_prepares (case x of (items, timed_out) \<Rightarrow> case items of [] \<Rightarrow> returnQ timed_out
      | item # _ \<Rightarrow> bindQ (case Outgoing of Incoming \<Rightarrow> materialize_incoming qe c i item
          | Outgoing \<Rightarrow> materialize_outgoing qe c i n item) (\<lambda>t. returnQ (timed_out \<or> t)))" for x
    unfolding Direction.case by (intro stepsQ_prod stepsQ_list stepsQ_return stepsQ_bind preorder_same_prepares pr.outgoing)
  show ?thesis
    unfolding refresh_outgoing_def materialize_call_edges_def Let_def
    by (rule spends_bind [OF spends_quiet [OF pr.db_step]], rule spends_bind [OF one],
        rule spends_quiet, rule rest)
qed

lemma spends_expand: "spends b (\<lambda>(u, t, b'). b') (expand_outgoing_calls qe i n client b)"
proof -
  have hit: "stepsQ same_prepares (case h of None \<Rightarrow> returnQ False
      | Some hash \<Rightarrow> bindQ (cached_hash i) (\<lambda>cached. returnQ (cached = Some hash)))"
    and store: "stepsQ same_prepares (case h of None \<Rightarrow> returnQ () | Some hash \<Rightarrow> store_hash i hash)" for h
    by (intro stepsQ_option stepsQ_return stepsQ_bind preorder_same_prepares pr.documents)+
  have miss: "spends b (\<lambda>(u, t, b'). b') (bindQ (refresh_outgoing qe c i n) (\<lambda>timed_out.
      bindQ (case h of None \<Rightarrow> returnQ () | Some hash \<Rightarrow> store_hash i hash) (\<lambda>_. returnQ (True, timed_out, b - 1))))"
    if "b \<noteq> 0" for c h
  proof -
    have b: "Suc (b - 1) = b" using that by simp
    have "spends (Suc (b - 1)) (\<lambda>(u, t, b'). b') (bindQ (refresh_outgoing qe c i n) (\<lambda>timed_out.
      bindQ (case h of None \<Rightarrow> returnQ () | Some hash \<Rightarrow> store_hash i hash) (\<lambda>_. returnQ (True, timed_out, b - 1))))"
      by (intro spends_bind [OF spends_refresh] spends_bind [OF spends_quiet [OF store]] spends_return) simp
    then show ?thesis unfolding b .
  qed
  show ?thesis
    unfolding expand_outgoing_calls_def Let_def
    by (intro spends_option spends_return spends_bind [OF spends_quiet [OF pr.read_step]]
        spends_bind [OF spends_quiet [OF pr.documents(1)]] spends_bind [OF spends_quiet [OF hit]]
        spends_if miss) simp_all
qed

lemma scan_callees_budget: "scan_callees to_id path gs s = Inr s' \<Longrightarrow> se_budget s' = se_budget s"
  by (induction to_id path gs s rule: scan_callees.induct) (auto split: option.splits if_splits)

lemma spends_search: "spends (se_budget s) (\<lambda>_. 0) (search_calls fuel qe to_id maxd client s)"
proof (induction fuel arbitrary: s)
  case (Suc fuel)
  have round: "spends b (\<lambda>_. 0) (bindQ (neighbors_of qe i ''calls'' Outgoing) (\<lambda>ns.
      case scan_callees to_id path (group_by_node ns) s2 of
        Inl found \<Rightarrow> returnQ (Some (Inl (found, t))) | Inr s3 \<Rightarrow> search_calls fuel qe to_id maxd client s3))"
    if "se_budget s2 = b" for b i path s2 t
  proof (rule spends_bind [OF spends_quiet])
    show "stepsQ same_prepares (neighbors_of qe i ''calls'' Outgoing)" by (rule pr.documents)
    show "spends b (\<lambda>_. 0) (case scan_callees to_id path (group_by_node ns) s2 of
        Inl found \<Rightarrow> returnQ (Some (Inl (found, t))) | Inr s3 \<Rightarrow> search_calls fuel qe to_id maxd client s3)" for ns
      using Suc scan_callees_budget [of to_id path "group_by_node ns" s2] that
      by (cases "scan_callees to_id path (group_by_node ns) s2") (auto intro: spends_return)
  qed
  show ?case
  proof (cases "se_queue s")
    case (Cons x q)
    obtain i n p where x: "x = (i, n, p)" by (cases x)
    show ?thesis
    proof (cases "maxd < length p")
      case True
      with Cons x Suc [of "s\<lparr>se_queue := q, se_limit_reached := True\<rparr>"] show ?thesis by simp
    next
      case False
      with Cons x show ?thesis
        by (simp add: Let_def)
          (rule spends_bind [OF spends_expand], clarsimp simp: split_paired_all, rule round, simp)
    qed
  qed (simp add: spends_def)
qed (simp add: spends_return)

text \<open>C22: The request budget holds. One call-path query sends at most \<open>max_lsp_calls\<close> call-hierarchy
  preparations to the language server, however large the graph, whatever the answers and whether
  or not the query succeeds; with a budget of zero it sends none.\<close>

theorem call_path_budget:
  "prepares (snd (find_call_path qe from_ref to_ref maxd max_lsp_calls client w)) \<le> prepares w + max_lsp_calls"
proof -
  have search: "spends max_lsp_calls (\<lambda>_. 0) (path_search qe i a j maxd max_lsp_calls t client)" for i a j t
    unfolding path_search_def node_count_def
    by (rule spends_bind [OF spends_quiet [OF pr.db_step]])
      (use spends_search [of "search_start i a max_lsp_calls t"] in \<open>simp add: search_start_def del: search_calls.simps\<close>)
  have "spends max_lsp_calls (\<lambda>_. 0) (find_call_path qe from_ref to_ref maxd max_lsp_calls client)"
    unfolding find_call_path_def
    by (rule spends_bind [OF spends_quiet [OF pr.anchors(2)]], clarsimp split del: if_split,
        rule spends_bind [OF spends_quiet [OF pr.anchors(2)]])
      (auto intro!: spends_return spends_bind [OF search] spends_bind [OF spends_quiet [OF pr.hints(2)]] split: option.split)
  then show ?thesis unfolding spends_def
    by (cases "find_call_path qe from_ref to_ref maxd max_lsp_calls client w")
      (drule spec [of _ w], simp split: sum.splits)
qed

section \<open>What the callee cache remembers\<close>

text \<open>The valid calls stored for a row.\<close>

definition stored_calls :: "Db \<Rightarrow> int \<Rightarrow> Edge set" where
  "stored_calls d i = {e \<in> set (db_edges d). e_src e = i \<and> e_type e = ''calls'' \<and> e_valid e}"

lemma stored_calls_invalidated: "stored_calls (invalidate_outgoing_calls i d) i = {}"
proof -
  define f :: "Edge \<Rightarrow> Edge" where "f e = (if e_src e = i \<and> e_type e = ''calls'' then e\<lparr>e_valid := False\<rparr> else e)" for e
  have no: "\<not> (e_src (f e) = i \<and> e_type (f e) = ''calls'' \<and> e_valid (f e))" for e
    by (cases "e_src e = i \<and> e_type e = ''calls''") (auto simp: f_def)
  have eq: "set (db_edges (invalidate_outgoing_calls i d)) = f ` set (db_edges d)"
    by (simp add: invalidate_outgoing_calls_def f_def [abs_def])
  show ?thesis unfolding stored_calls_def eq using no by blast
qed

lemma set_callees_cache_hash_ok:
  "Some i \<in> node_ids d \<Longrightarrow> set_callees_cache_hash i h d = Inr (d\<lparr>db_callees := (db_callees d)(i := Some h)\<rparr>)"
  by (simp add: set_callees_cache_hash_def node_exists_iff)

text \<open>Freshening a row whose file reads as \<open>text\<close> when the cache holds its hash.\<close>

lemma freshen_hit:
  assumes "read_file_text qe (n_uri n) w = (Inr (Some text), w1)"
    and "db_callees (w_db w1) i = Some (content_hash qe text)"
  shows "freshen_callees qe c i n w = (Inr False, w1\<lparr>w_asks := w_asks w1 @ [AskOpen (n_uri n) text]\<rparr>)"
  using assms
  by (simp add: freshen_callees_def bindQ_def open_text_def open_document_def ask_def Let_def cached_hash_def
      on_db_def db_read_def get_callees_cache_hash_def)

text \<open>C35: An error is remembered as "calls nothing". When the call-hierarchy request for a row whose
  file is readable fails, by an error reply or by its deadline, asking for the callees succeeds,
  drops the calls stored for the row and records the hash of the file as fresh; only a passed
  deadline is reported, and only this once. From then on, as long as the file reads the same,
  asking again, even through a client that would answer, sends no call-hierarchy request, leaves
  the store as it is and reports no timeout.\<close>

theorem failed_request_cached:
  assumes "read_file_text qe (n_uri n) w = (Inr (Some text), w1)" and "Some i \<in> node_ids (w_db w1)"
    and "db_callees (w_db w1) i \<noteq> Some (content_hash qe text)"
    and "\<And>u l k h. qc_prepare c u l k h = Inl e"
  shows "\<exists>w2. freshen_callees qe c i n w = (Inr (is_timeout e), w2) \<and> stored_calls (w_db w2) i = {} \<and>
    db_callees (w_db w2) i = Some (content_hash qe text) \<and>
    (\<forall>c' v v1. read_file_text qe (n_uri n) v = (Inr (Some text), v1) \<longrightarrow> w_db v1 = w_db w2 \<longrightarrow>
       (\<exists>v2. freshen_callees qe c' i n v = (Inr False, v2) \<and> w_db v2 = w_db w2 \<and> prepares v2 = prepares v1))"
proof -
  let ?h = "content_hash qe text"
  let ?d = "invalidate_outgoing_calls i (w_db w1)"
  let ?asks = "w_asks w1 @ [AskOpen (n_uri n) text, AskPrepare (n_uri n) (sel_line n) (sel_col n)]"
  let ?w2 = "\<lparr>w_db = ?d\<lparr>db_callees := (db_callees ?d)(i := Some ?h)\<rparr>, w_asks = ?asks\<rparr>"
  have ids: "Some i \<in> node_ids ?d"
    using assms(2) by (simp add: node_ids_def invalidate_outgoing_calls_def)
  have "freshen_callees qe c i n w = (Inr (is_timeout e), ?w2)"
    using assms(1,3) by (simp add: freshen_callees_def bindQ_def open_text_def open_document_def ask_def Let_def
        cached_hash_def on_db_def db_read_def get_callees_cache_hash_def refresh_outgoing_def db_update_def
        materialize_call_edges_def assms(4) or_empty_def store_hash_def db_write_unit_def
        set_callees_cache_hash_ok [OF ids])
  moreover have "stored_calls (w_db ?w2) i = {}"
    using stored_calls_invalidated [of i "w_db w1"] by (simp add: stored_calls_def)
  moreover have "\<exists>v2. freshen_callees qe c' i n v = (Inr False, v2) \<and> w_db v2 = w_db ?w2 \<and> prepares v2 = prepares v1"
    if "read_file_text qe (n_uri n) v = (Inr (Some text), v1)" "w_db v1 = w_db ?w2" for c' v v1
    using freshen_hit [OF that(1), of i c'] that(2) by (simp add: prepares_def)
  ultimately show ?thesis by (intro exI [of _ ?w2]) simp
qed

definition file_node :: Node where
  "file_node = row_at (Some 1) ''a.f'' ''file:///w/a.py'' ''f'' 4 ''b''"

definition file_world :: World where
  "file_world = \<lparr>w_db = empty_db\<lparr>db_nodes := [file_node], db_node_seq := 1\<rparr>, w_asks = []\<rparr>"

lemma sample_read:
  "read_file_text sample_engine (n_uri file_node) w =
     (Inr (Some ''x''), w\<lparr>w_asks := w_asks w @ [AskCanon ''/w'', AskCanon ''/w/a.py'', AskRead ''/w/a.py'']\<rparr>)"
  by (simp add: read_file_text_def confine_def bindQ_def canonicalize_def ask_def read_path_def sample_engine_def
      uri_to_path_def path_components_def piece_component_def lexically_normalize_def normalize_step_def
      path_string_def map_filter_simps starts_with_def Let_def file_node_def row_at_def)

theorem failed_request_cached_witness:
  "\<exists>w2. freshen_callees sample_engine failing_client 1 file_node file_world = (Inr False, w2) \<and>
    stored_calls (w_db w2) 1 = {} \<and> db_callees (w_db w2) 1 = Some (content_hash sample_engine ''x'')"
  using failed_request_cached [OF sample_read, of 1 file_world failing_client "QueryFailed ''down''"]
  by (simp add: failing_client_def file_world_def node_ids_def empty_db_def is_timeout_def)
    (auto simp: file_node_def row_at_def)

end
