(* ===== verification/Confinement.thy ===== *)
theory Confinement
  imports Query_Asks Grouping
begin

text \<open>
  The gate between client-supplied locations and the file system: no operation reads a file that
  is not below the workspace root, and the reading of a range of lines.
\<close>

section \<open>Clean paths\<close>

text \<open>An absolute path with no \<open>.\<close> and no \<open>..\<close> left, whose pieces are names.\<close>

definition file_name_ok :: "string \<Rightarrow> bool" where
  "file_name_ok p \<longleftrightarrow> p \<noteq> [] \<and> p \<noteq> ''.'' \<and> p \<noteq> ''..'' \<and> CHR ''/'' \<notin> set p"

definition clean_path :: "Component list \<Rightarrow> bool" where
  "clean_path cs \<longleftrightarrow> (\<exists>ps. cs = RootDir # map Normal ps \<and> (\<forall>p \<in> set ps. file_name_ok p))"

lemma clean_path_root: "clean_path [RootDir]"
  by (simp add: clean_path_def)

lemma clean_path_snoc: "clean_path cs \<Longrightarrow> file_name_ok p \<Longrightarrow> clean_path (cs @ [Normal p])"
  unfolding clean_path_def by (elim exE conjE) (rule_tac x = "ps @ [p]" in exI, auto)

lemma clean_path_pop:
  assumes "clean_path cs"
  shows "clean_path (path_pop cs)"
proof -
  obtain ps where ps: "cs = RootDir # map Normal ps" "\<forall>p \<in> set ps. file_name_ok p"
    using assms by (auto simp: clean_path_def)
  show ?thesis
  proof (cases ps rule: rev_cases)
    case Nil
    with ps show ?thesis by (simp add: path_pop_def clean_path_root)
  next
    case (snoc qs q)
    with ps have "path_pop cs = RootDir # map Normal qs" by (simp add: path_pop_def butlast_append)
    with ps snoc show ?thesis by (auto simp: clean_path_def)
  qed
qed

lemma clean_path_no_parent: "clean_path cs \<Longrightarrow> ParentDir \<notin> set cs"
  by (auto simp: clean_path_def)

text \<open>The components of a string: names are clean, and an absolute string starts at the root.\<close>

lemma piece_component_cases:
  "List.map_filter piece_component ps =
     map (\<lambda>p. if p = ''..'' then ParentDir else Normal p) (filter (\<lambda>p. p \<noteq> [] \<and> p \<noteq> ''.'') ps)"
  by (induction ps) (simp_all add: map_filter_simps piece_component_def)

lemma absolute_components:
  assumes "starts_with ''/'' s"
  shows "\<exists>ps. path_components s = RootDir # map (\<lambda>p. if p = ''..'' then ParentDir else Normal p) ps \<and>
    (\<forall>p \<in> set ps. p \<noteq> [] \<and> p \<noteq> ''.'' \<and> CHR ''/'' \<notin> set p)"
  using assms split_on_no_sep [of _ "CHR ''/''" s]
  unfolding path_components_def Let_def piece_component_cases
  by (intro exI [of _ "filter (\<lambda>p. p \<noteq> [] \<and> p \<noteq> ''.'') (split_on (CHR ''/'') s)"]) auto

lemma absolute_clean:
  assumes "starts_with ''/'' s" and "ParentDir \<notin> set (path_components s)"
  shows "clean_path (path_components s)"
proof -
  obtain ps where ps: "path_components s = RootDir # map (\<lambda>p. if p = ''..'' then ParentDir else Normal p) ps"
    "\<forall>p \<in> set ps. p \<noteq> [] \<and> p \<noteq> ''.'' \<and> CHR ''/'' \<notin> set p" using absolute_components [OF assms(1)] by blast
  have "p \<noteq> ''..''" if "p \<in> set ps" for p using assms(2) that unfolding ps(1) by force
  then have "path_components s = RootDir # map Normal ps" "\<forall>p \<in> set ps. file_name_ok p"
    using ps by (auto simp: file_name_ok_def)
  then show ?thesis by (auto simp: clean_path_def)
qed

text \<open>Normalizing an absolute path leaves a clean one; a relative one stays relative.\<close>

lemma normalize_clean:
  "clean_path acc \<Longrightarrow> (\<forall>c \<in> set cs. c \<noteq> RootDir \<and> (\<forall>p. c = Normal p \<longrightarrow> file_name_ok p)) \<Longrightarrow>
     clean_path (foldl normalize_step acc cs)"
  by (induction cs arbitrary: acc)
    (auto simp: normalize_step_def clean_path_snoc clean_path_pop split: Component.splits)

lemma normalize_relative:
  "RootDir \<notin> set acc \<Longrightarrow> RootDir \<notin> set cs \<Longrightarrow> RootDir \<notin> set (foldl normalize_step acc cs)"
  by (induction cs arbitrary: acc)
    (auto simp: normalize_step_def path_pop_def split: Component.splits dest: in_set_butlastD)

lemma lexically_normalize_components:
  "clean_path (lexically_normalize (path_components s)) \<or> RootDir \<notin> set (lexically_normalize (path_components s))"
proof (cases "starts_with ''/'' s")
  case True
  then obtain ps where ps: "path_components s = RootDir # map (\<lambda>p. if p = ''..'' then ParentDir else Normal p) ps"
    "\<forall>p \<in> set ps. p \<noteq> [] \<and> p \<noteq> ''.'' \<and> CHR ''/'' \<notin> set p" using absolute_components by blast
  have "clean_path (foldl normalize_step [RootDir] (map (\<lambda>p. if p = ''..'' then ParentDir else Normal p) ps))"
    by (rule normalize_clean [OF clean_path_root]) (use ps(2) in \<open>auto simp: file_name_ok_def\<close>)
  then show ?thesis unfolding ps(1) lexically_normalize_def by (simp add: normalize_step_def)
next
  case False
  then have "RootDir \<notin> set (path_components s)"
    by (auto simp: path_components_def Let_def piece_component_cases)
  then show ?thesis unfolding lexically_normalize_def using normalize_relative [of "[]"] by simp
qed

text \<open>A clean path is read back from its string: what is checked is what is opened.\<close>

lemma split_on_append: "c \<notin> set p \<Longrightarrow> split_on c (p @ c # s) = p # split_on c s"
  by (induction p) auto

lemma split_on_none: "c \<notin> set p \<Longrightarrow> split_on c p = [p]"
  by (induction p) auto

lemma split_join: "ps \<noteq> [] \<Longrightarrow> \<forall>p \<in> set ps. c \<notin> set p \<Longrightarrow> split_on c (join_with [c] ps) = ps"
  by (induction "[c]" ps rule: join_with.induct) (simp_all add: split_on_append split_on_none)

lemma clean_path_string:
  assumes "clean_path cs"
  shows "path_components (path_string cs) = cs"
proof -
  obtain ps where cs: "cs = RootDir # map Normal ps" and ok: "\<forall>p \<in> set ps. file_name_ok p"
    using assms by (auto simp: clean_path_def)
  show ?thesis
  proof (cases ps)
    case Nil
    then show ?thesis by (simp add: cs path_string_def path_components_def piece_component_cases starts_with_def)
  next
    case (Cons p qs)
    have str: "path_string cs = CHR ''/'' # join_with ''/'' ps"
      unfolding cs path_string_def Cons by (simp add: comp_def)
    have "split_on (CHR ''/'') (join_with ''/'' ps) = ps"
      by (rule split_join) (use Cons ok in \<open>auto simp: file_name_ok_def\<close>)
    then have "split_on (CHR ''/'') (path_string cs) = [] # ps" by (simp add: str)
    moreover have "filter (\<lambda>p. p \<noteq> [] \<and> p \<noteq> ''.'') ps = ps" using ok by (auto simp: filter_id_conv file_name_ok_def)
    moreover have "map (\<lambda>p. if p = ''..'' then ParentDir else Normal p) ps = map Normal ps"
      using ok by (auto simp: file_name_ok_def)
    moreover have "starts_with ''/'' (path_string cs)" by (simp add: str starts_with_iff)
    ultimately show ?thesis by (simp add: path_components_def piece_component_cases cs)
  qed
qed

section \<open>Reads stay inside\<close>

text \<open>
  What is relied on of \<open>std::fs::canonicalize\<close>: it answers an absolute path without \<open>..\<close>
  pieces, and the workspace root keeps resolving to the same directory \<open>r\<close>.
\<close>

definition canonical_ok :: "QueryEngine \<Rightarrow> string \<Rightarrow> bool" where
  "canonical_ok qe r \<longleftrightarrow>
     (\<forall>s h c. qe_canon qe s h = Some c \<longrightarrow> starts_with ''/'' c \<and> ParentDir \<notin> set (path_components c)) \<and>
     (\<forall>h. qe_canon qe (uri_to_path (qe_root_uri qe)) h = Some r)"

definition inside :: "string \<Rightarrow> string \<Rightarrow> bool" where
  "inside r s \<longleftrightarrow> (\<exists>names. path_components s = path_components r @ map Normal names)"

definition reads_inside :: "string \<Rightarrow> World \<Rightarrow> World \<Rightarrow> bool" where
  "reads_inside r w w' \<longleftrightarrow> (\<exists>new. w_asks w' = w_asks w @ new \<and> (\<forall>s. AskRead s \<in> set new \<longrightarrow> inside r s))"

lemma reads_inside_trans: "reads_inside r u v \<Longrightarrow> reads_inside r v w \<Longrightarrow> reads_inside r u w"
  unfolding reads_inside_def by (elim exE conjE) (rule_tac x = "new @ newa" in exI, auto)

lemma preorder_reads_inside: "preorder_rel (reads_inside r)"
  using reads_inside_trans by (fastforce simp: preorder_rel_def reads_inside_def)

lemma clean_prefix:
  assumes "clean_path q" and "starts_with p q" and "clean_path p"
  shows "\<exists>names. q = p @ map Normal names"
proof -
  obtain x where q: "q = p @ x" using assms(2) by (auto simp: starts_with_iff)
  obtain ps qs where "p = RootDir # map Normal ps" "q = RootDir # map Normal qs"
    using assms(1,3) by (auto simp: clean_path_def)
  with q have "x = map Normal (drop (length ps) qs)"
    by (metis append_Cons append_eq_conv_conj drop_map length_map list.inject)
  with q show ?thesis by blast
qed

lemma confine_inside:
  assumes "canonical_ok qe r" and "confine qe u w = (Inr (Inr p), w')"
  shows "clean_path p \<and> inside r (path_string p)"
proof -
  let ?n = "lexically_normalize (path_components (uri_to_path u))"
  have r: "starts_with ''/'' r" "ParentDir \<notin> set (path_components r)"
    using assms(1) unfolding canonical_ok_def by blast+
  note rc = absolute_clean [OF r]
  have p: "starts_with (path_components r) p"
    and from_n: "p = ?n \<or> (\<exists>h c. qe_canon qe (path_string ?n) h = Some c \<and> p = path_components c)"
    using assms by (auto simp: confine_def canonicalize_def ask_def bindQ_def Let_def canonical_ok_def
        split: if_splits option.splits)
  from from_n consider "p = ?n" | s h c where "qe_canon qe s h = Some c" "p = path_components c" by blast
  then have "clean_path p"
  proof cases
    case 1
    have "RootDir \<in> set p" using p rc by (auto simp: starts_with_iff clean_path_def)
    with 1 lexically_normalize_components [of "uri_to_path u"] show ?thesis by blast
  next
    case 2
    with assms(1) absolute_clean [of c] show ?thesis unfolding canonical_ok_def by blast
  qed
  with clean_prefix [OF _ p rc] clean_path_string show ?thesis by (auto simp: inside_def)
qed

lemma reads_inside_ask: "(\<And>s. a \<noteq> AskRead s) \<Longrightarrow> reads_inside r w (after_ask a w)"
  by (auto simp: reads_inside_def after_ask_def)

lemma read_path_inside:
  "inside r (path_string p) \<Longrightarrow> stepsQ (reads_inside r) (read_path qe p)"
  by (auto simp: stepsQ_def read_path_def ask_def reads_inside_def)

lemma confined_read:
  assumes "canonical_ok qe r" and "\<And>e. stepsQ (reads_inside r) (f (Inl e))"
    and "\<And>p. inside r (path_string p) \<Longrightarrow> stepsQ (reads_inside r) (f (Inr p))"
  shows "stepsQ (reads_inside r) (bindQ (confine qe u) f)"
  unfolding stepsQ_def
proof
  fix w
  obtain x w1 where c: "confine qe u w = (Inr x, w1)"
    by (auto simp: confine_def canonicalize_def ask_def bindQ_def Let_def)
  have "w_asks w1 = w_asks w @ drop (length (w_asks w)) (w_asks w1) \<and>
      (\<forall>s. AskRead s \<notin> set (drop (length (w_asks w)) (w_asks w1)))"
    using c by (auto simp: confine_def canonicalize_def ask_def bindQ_def Let_def)
  then have "reads_inside r w w1" unfolding reads_inside_def by blast
  moreover have "reads_inside r w1 (snd (f x w1))"
    using assms(2,3) confine_inside [OF assms(1)] c by (cases x) (auto simp: stepsQ_def)
  ultimately show "reads_inside r w (snd (bindQ (confine qe u) f w))"
    using c reads_inside_trans by (simp add: bindQ_Inr)
qed

interpretation ri: full_discipline "\<lambda>w w'. canonical_ok qe r \<longrightarrow> reads_inside r w w'" qe for qe r
proof
  show "preorder_rel (\<lambda>w w'. canonical_ok qe r \<longrightarrow> reads_inside r w w')"
    using preorder_reads_inside [of r] unfolding preorder_rel_def by blast
  show "canonical_ok qe r \<longrightarrow> reads_inside r w (w\<lparr>w_db := d\<rparr>)" for w d
    by (simp add: reads_inside_def)
  show "canonical_ok qe r \<longrightarrow> reads_inside r w (after_ask a w)" if "harmless a" for a w
    using that reads_inside_ask [of a r w] by (cases a) (simp_all add: harmless_def)
  show "canonical_ok qe r \<longrightarrow> reads_inside r w (after_ask (AskPrepare u l k) w)" for w u l k
    by (simp add: reads_inside_ask)
  show "stepsQ (\<lambda>w w'. canonical_ok qe r \<longrightarrow> reads_inside r w w') (read_file_text qe u)" for u
  proof (cases "canonical_ok qe r")
    case True
    have "stepsQ (reads_inside r) (read_file_text qe u)"
      unfolding read_file_text_def
      by (rule confined_read [OF True]) (simp_all add: stepsQ_return preorder_reads_inside read_path_inside)
    then show ?thesis by (simp add: stepsQ_def)
  qed (simp add: stepsQ_def)
qed

lemma read_range_inside:
  assumes "canonical_ok qe r"
  shows "stepsQ (reads_inside r) (read_range qe u first past)"
  unfolding read_range_def
  by (rule confined_read [OF assms])
    (auto intro!: stepsQ_bind stepsQ_option stepsQ_return stepsQ_fail read_path_inside preorder_reads_inside)

text \<open>C11: No query reads outside the workspace. Whatever locations a caller or the language server
  supplies (with \<open>..\<close>, doubled slashes or relative pieces, existing or not), every file that any
  operation asks the file system for has a path that is the root's path followed by plain names.\<close>

theorem reads_confined:
  assumes "canonical_ok qe r"
  shows "reads_inside r w (snd (read_range qe u first past w)) \<and>
    reads_inside r w (snd (find_definition qe symref client w)) \<and>
    reads_inside r w (snd (find_references qe symref filt page client w)) \<and>
    reads_inside r w (snd (call_graph qe symref dir filt page client w)) \<and>
    reads_inside r w (snd (find_callees qe symref filt page client w)) \<and>
    reads_inside r w (snd (find_call_path qe symref to_ref maxd budget client w))"
  using read_range_inside [OF assms, of u first past] assms
    ri.definition_op [of qe r symref client] ri.references_op [of qe r symref filt page client]
    ri.call_graph_op [of qe r symref dir filt page client] ri.callees_op [of qe r symref filt page client]
    ri.call_path_op [of qe r symref to_ref maxd budget client]
  unfolding stepsQ_def by blast

lemma sample_canonical_ok: "canonical_ok (sample_engine\<lparr>qe_canon := (\<lambda>s h. if s = ''/w'' then Some ''/w'' else None)\<rparr>) ''/w''"
  by (simp add: canonical_ok_def sample_engine_def uri_to_path_def path_components_def piece_component_def
      map_filter_simps starts_with_def)

theorem reads_confined_witness:
  "reads_inside ''/w'' nested_world (snd (read_range
     (sample_engine\<lparr>qe_canon := (\<lambda>s h. if s = ''/w'' then Some ''/w'' else None)\<rparr>)
     ''file:///w/../etc/passwd'' 0 9 nested_world))"
  using reads_confined [OF sample_canonical_ok] by blast

section \<open>Reading a range of lines\<close>

lemma filter_upt_interval: "filter (\<lambda>k. a \<le> k \<and> k < b) [0..<n] = [min a n..<min (max b (min a n)) n]"
proof (induction n)
  case (Suc n)
  then show ?case by (cases "a \<le> n \<and> n < b") (auto simp: min_def max_def le_Suc_eq)
qed simp

lemma take_drop_nth: "b \<le> length xs \<Longrightarrow> take (b - a) (drop a xs) = map (nth xs) [a..<b]"
  by (rule nth_equalityI) auto

lemma range_result_content:
  "rr_content (range_result u text first past) = join_with [lf] (map (nth (str_lines text))
     (filter (\<lambda>k. unat first \<le> k \<and> k < unat past) [0..<length (str_lines text)]))"
  by (simp add: range_result_def clamp_lines_def Let_def filter_upt_interval take_drop_nth)

lemma range_result_span:
  assumes "length (str_lines text) < 2 ^ 32"
  shows "unat (rr_total_lines (range_result u text first past)) = length (str_lines text)"
    and "unat (p_line (r_start (rr_range (range_result u text first past)))) = min (unat first) (length (str_lines text))"
    and "unat (p_line (r_end (rr_range (range_result u text first past)))) =
      min (max (unat past) (min (unat first) (length (str_lines text)))) (length (str_lines text))"
  using assms by (simp_all add: range_result_def clamp_lines_def Let_def unat_of_nat take_bit_eq_mod)

text \<open>a range read is the lines asked for. When the location lies in the workspace and the file can
  be read, the content is exactly the lines whose number is at least the first and below the
  last requested, joined by line feeds; for a file of fewer than 2^32 lines the line count is
  exact and the covered span is the requested one clipped to the file. A first line past the end
  or a last line before the first gives an empty content, not an error; a location outside the
  workspace and an unreadable file are errors.\<close>

theorem read_range_lines:
  "(case confine qe u w of
      (Inl e, w1) \<Rightarrow> False
    | (Inr (Inl e), w1) \<Rightarrow> read_range qe u first past w = (Inl (Failed (''read_range: '' @ e)), w1)
    | (Inr (Inr p), w1) \<Rightarrow> (case qe_read qe (path_string p) (w_asks w1) of
          None \<Rightarrow> fst (read_range qe u first past w) = Inl (Failed (''read_range: cannot read '' @ u))
        | Some text \<Rightarrow> (\<exists>res. fst (read_range qe u first past w) = Inr res \<and> rr_uri res = u \<and>
            rr_content res = join_with [lf] (map (nth (str_lines text))
              (filter (\<lambda>k. unat first \<le> k \<and> k < unat past) [0..<length (str_lines text)])) \<and>
            (length (str_lines text) < 2 ^ 32 \<longrightarrow>
              unat (rr_total_lines res) = length (str_lines text) \<and>
              unat (p_line (r_start (rr_range res))) = min (unat first) (length (str_lines text)) \<and>
              unat (p_line (r_end (rr_range res))) =
                min (max (unat past) (min (unat first) (length (str_lines text)))) (length (str_lines text))))))"
proof -
  obtain x w1 where c: "confine qe u w = (Inr x, w1)"
    by (auto simp: confine_def canonicalize_def ask_def bindQ_def Let_def)
  show ?thesis
  proof (cases x)
    case (Inl e)
    with c show ?thesis by (simp add: read_range_def bindQ_def)
  next
    case (Inr p)
    show ?thesis
    proof (cases "qe_read qe (path_string p) (w_asks w1)")
      case None
      with c Inr show ?thesis by (simp add: read_range_def bindQ_def read_path_def ask_def)
    next
      case (Some t)
      with c Inr have run: "fst (read_range qe u first past w) = Inr (range_result u t first past)"
        by (simp add: read_range_def bindQ_def read_path_def ask_def)
      have "rr_uri (range_result u t first past) = u" by (simp add: range_result_def Let_def split_def)
      with run c Inr Some range_result_content range_result_span show ?thesis by simp
    qed
  qed
qed

lemma sample_lines: "str_lines ''abc'' = [''abc'']"
  by code_simp

theorem read_range_lines_witness:
  "\<exists>res. fst (read_range (sample_engine\<lparr>qe_read := (\<lambda>p h. Some ''abc'')\<rparr>) ''file:///w/a'' 0 1 nested_world) = Inr res \<and>
    unat (rr_total_lines res) = 1"
  using read_range_lines [where qe = "sample_engine\<lparr>qe_read := (\<lambda>p h. Some ''abc'')\<rparr>" and u = "''file:///w/a''"
      and w = nested_world and first = 0 and past = 1]
  by (simp add: sample_engine_def confine_def canonicalize_def ask_def bindQ_def Let_def uri_to_path_def
      path_components_def piece_component_def lexically_normalize_def normalize_step_def path_string_def
      map_filter_simps starts_with_def sample_lines nested_world_def) auto

end
