(* ===== verification/Server_Process.thy ===== *)
theory Server_Process
  imports Adapters Lsp_Wire
begin

text \<open>
  The language-server child process (\<open>src/lsp/server.rs\<close>): the graceful shutdown escalation and
  its exit watch; and the handshake and its deadlines (\<open>src/lsp/handshake.rs\<close>). Times are in
  milliseconds.
\<close>

section \<open>The process as its watcher sees it\<close>

text \<open>What is done to the process, and when.\<close>

datatype ProcessAct = ActShutdownRequest | ActExitNotification | ActSigterm | ActSigkill

type_synonym ActLog = "(nat \<times> ProcessAct) list"

text \<open>
  The child, given what was done to it: when the exit watch publishes its end, if ever; when
  the \<open>shutdown\<close> request is answered, if ever; and from when on the queue of the client takes
  the exit notification, or is closed. The queue holds 64 commands: while the child does not read its
  input, the writer of the client is stuck, and a full queue stays full (\<open>None\<close>: for good).
\<close>

record ServerProcess =
  sp_exit_at :: "ActLog \<Rightarrow> nat option"
  sp_reply_at :: "nat option"
  sp_room_at :: "nat option"
  sp_pid :: "nat option"

definition SHUTDOWN_GRACE :: nat where
  "SHUTDOWN_GRACE = 5000"

definition is_exited :: "ServerProcess \<Rightarrow> ActLog \<Rightarrow> nat \<Rightarrow> bool" where
  "is_exited p acts t = (case sp_exit_at p acts of None \<Rightarrow> False | Some e \<Rightarrow> e \<le> t)"

text \<open>Whether the end was published within the grace, and when the wait is over.\<close>

definition wait_exit_bounded :: "ServerProcess \<Rightarrow> ActLog \<Rightarrow> nat \<Rightarrow> nat \<Rightarrow> bool \<times> nat" where
  "wait_exit_bounded p acts grace t =
     (if is_exited p acts t then (True, t)
      else (case sp_exit_at p acts of
          Some e \<Rightarrow> if e \<le> t + grace then (True, e) else (False, t + grace)
        | None \<Rightarrow> (False, t + grace)))"

text \<open>A signal reaches the child only while its end is unpublished and its pid is known.\<close>

definition signal :: "ServerProcess \<Rightarrow> ProcessAct \<Rightarrow> nat \<Rightarrow> ActLog \<Rightarrow> ActLog" where
  "signal p sig t acts =
     (if is_exited p acts t then acts
      else (case sp_pid p of Some pid \<Rightarrow> acts @ [(t, sig)] | None \<Rightarrow> acts))"

text \<open>The end of the \<open>shutdown\<close> request: its answer, or the deadline.\<close>

definition request_done :: "ServerProcess \<Rightarrow> nat \<Rightarrow> nat \<Rightarrow> nat" where
  "request_done p grace t =
     (case sp_reply_at p of Some r \<Rightarrow> if r \<le> t + grace then max t r else t + grace | None \<Rightarrow> t + grace)"

text \<open>The send of the exit notification, which is awaited without a deadline.\<close>

definition notify_done :: "ServerProcess \<Rightarrow> nat \<Rightarrow> nat option" where
  "notify_done p t = map_option (max t) (sp_room_at p)"

definition kill_stage :: "ServerProcess \<Rightarrow> nat \<Rightarrow> nat \<Rightarrow> ActLog \<Rightarrow> ActLog \<times> nat" where
  "kill_stage p grace t acts =
     (let acts' = signal p ActSigkill t acts in (acts', snd (wait_exit_bounded p acts' grace t)))"

definition terminate_stage :: "ServerProcess \<Rightarrow> nat \<Rightarrow> nat \<Rightarrow> ActLog \<Rightarrow> ActLog \<times> nat" where
  "terminate_stage p grace t acts =
     (let acts' = signal p ActSigterm t acts; (gone, t') = wait_exit_bounded p acts' grace t
      in if gone then (acts', t') else kill_stage p grace t' acts')"

text \<open>What is done, and when the shutdown returns (\<open>None\<close>: never).\<close>

definition shutdown_process :: "ServerProcess \<Rightarrow> nat \<Rightarrow> nat \<Rightarrow> ActLog \<times> nat option" where
  "shutdown_process p grace t =
     (if is_exited p [] t then ([], Some t)
      else (case notify_done p (request_done p grace t) of
          None \<Rightarrow> ([(t, ActShutdownRequest)], None)
        | Some t1 \<Rightarrow>
            let acts = [(t, ActShutdownRequest), (t1, ActExitNotification)];
                (gone, t2) = wait_exit_bounded p acts grace t1;
                (acts', t') = (if gone then (acts, t2) else terminate_stage p grace t2 acts)
            in (acts', Some t')))"

text \<open>\<open>wait_for_exit\<close>: a watch dropped without an outcome counts as a crash.\<close>

record ServerExit =
  sx_success :: bool
  sx_code :: "int option"

definition wait_for_exit :: "ServerExit option \<Rightarrow> ServerExit" where
  "wait_for_exit published =
     (case published of Some x \<Rightarrow> x | None \<Rightarrow> \<lparr>sx_success = False, sx_code = None\<rparr>)"

section \<open>The escalation\<close>

lemma wait_exit_boundedD:
  assumes "wait_exit_bounded p acts grace t = (gone, t')"
  shows "t \<le> t'" and "t' \<le> t + grace" and "gone \<longleftrightarrow> is_exited p acts t'" and "\<not> gone \<Longrightarrow> t' = t + grace"
  using assms by (auto simp: wait_exit_bounded_def is_exited_def split: if_splits option.splits)

lemma request_done_bounds: "t \<le> request_done p grace t" "request_done p grace t \<le> t + grace"
  by (auto simp: request_done_def split: option.splits)

lemma is_exited_later: "is_exited p acts t \<Longrightarrow> t \<le> t' \<Longrightarrow> is_exited p acts t'"
  by (auto simp: is_exited_def split: option.splits)

text \<open>
  An act log is orderly when every signal in it was sent while the end was unpublished, and at
  least a grace after the act before it.
\<close>

definition orderly :: "ServerProcess \<Rightarrow> nat \<Rightarrow> ActLog \<Rightarrow> bool" where
  "orderly p grace acts \<longleftrightarrow> (\<forall>k < length acts. snd (acts ! k) \<in> {ActSigterm, ActSigkill} \<longrightarrow>
     0 < k \<and> fst (acts ! (k - 1)) + grace \<le> fst (acts ! k) \<and> \<not> is_exited p (take k acts) (fst (acts ! k)))"

lemma orderly_snoc:
  assumes "orderly p grace acts" and "acts \<noteq> []" and "fst (last acts) + grace \<le> t" and "\<not> is_exited p acts t"
  shows "orderly p grace (acts @ [(t, a)])"
  using assms unfolding orderly_def
  by (auto simp: nth_append less_Suc_eq last_conv_nth)

lemma orderly_signal:
  assumes "orderly p grace acts" and "acts \<noteq> []" and "fst (last acts) + grace \<le> t"
  shows "orderly p grace (signal p a t acts)"
  using assms orderly_snoc by (simp add: signal_def split: option.split)

lemma signal_cases:
  assumes "sp_pid p \<noteq> None"
  shows "signal p a t acts = acts \<and> is_exited p acts t \<or>
    signal p a t acts = acts @ [(t, a)] \<and> \<not> is_exited p acts t"
  using assms by (auto simp: signal_def)

text \<open>No process outlives a SIGKILL by more than the grace.\<close>

definition dies_when_killed :: "ServerProcess \<Rightarrow> nat \<Rightarrow> bool" where
  "dies_when_killed p grace \<longleftrightarrow>
     (\<forall>log s. \<exists>e \<le> s + grace. sp_exit_at p (log @ [(s, ActSigkill)]) = Some e)"

lemma kill_stage_bounds:
  assumes "kill_stage p grace t acts = (acts', t')" and "orderly p grace acts" and "acts \<noteq> []"
    and "fst (last acts) + grace \<le> t" and "sp_pid p \<noteq> None"
  shows "t' \<le> t + grace \<and> orderly p grace acts' \<and> (acts' = acts \<or> acts' = acts @ [(t, ActSigkill)]) \<and>
    (dies_when_killed p grace \<longrightarrow> is_exited p acts' t')"
proof -
  let ?acts = "signal p ActSigkill t acts"
  obtain gone u where w: "wait_exit_bounded p ?acts grace t = (gone, u)" by force
  then have res: "acts' = ?acts" "t' = u" using assms(1) by (simp_all add: kill_stage_def Let_def)
  have "is_exited p ?acts u" if dies: "dies_when_killed p grace"
    using signal_cases [OF assms(5), of ActSigkill t acts]
  proof
    assume "?acts = acts \<and> is_exited p acts t"
    with w show ?thesis by (simp add: wait_exit_bounded_def)
  next
    assume "?acts = acts @ [(t, ActSigkill)] \<and> \<not> is_exited p acts t"
    then have sent: "?acts = acts @ [(t, ActSigkill)]" by blast
    obtain e where e: "e \<le> t + grace" "sp_exit_at p ?acts = Some e"
      using dies unfolding dies_when_killed_def sent by blast
    have "gone" using w e unfolding wait_exit_bounded_def is_exited_def by (simp split: if_splits)
    with wait_exit_boundedD(3) [OF w] show ?thesis by blast
  qed
  then show ?thesis
    unfolding res
    using orderly_signal [OF assms(2-4)] wait_exit_boundedD(2) [OF w] signal_cases [OF assms(5), of ActSigkill t acts]
    by blast
qed

lemma terminate_stage_bounds:
  assumes "terminate_stage p grace t acts = (acts', t')" and "orderly p grace acts" and "acts \<noteq> []"
    and "fst (last acts) + grace \<le> t" and "sp_pid p \<noteq> None"
  shows "t' \<le> t + 2 * grace \<and> orderly p grace acts' \<and>
    (acts' = acts \<or> acts' = acts @ [(t, ActSigterm)] \<or> acts' = acts @ [(t, ActSigterm), (t + grace, ActSigkill)]) \<and>
    (dies_when_killed p grace \<longrightarrow> is_exited p acts' t')"
proof -
  let ?acts = "signal p ActSigterm t acts"
  obtain gone t3 where w: "wait_exit_bounded p ?acts grace t = (gone, t3)" by force
  note wd = wait_exit_boundedD [OF w]
  have o: "orderly p grace ?acts" by (rule orderly_signal [OF assms(2-4)])
  have ne: "?acts \<noteq> []" using assms(3) by (simp add: signal_def split: option.split)
  have sig: "?acts = acts \<and> is_exited p acts t \<or> ?acts = acts @ [(t, ActSigterm)]"
    using signal_cases [OF assms(5)] by blast
  show ?thesis
  proof (cases gone)
    case True
    with assms(1) w wd(2,3) o sig show ?thesis by (auto simp: terminate_stage_def Let_def)
  next
    case False
    then have t3: "t3 = t + grace" "\<not> is_exited p ?acts t3" using wd by blast+
    then have sig': "?acts = acts @ [(t, ActSigterm)]" using sig is_exited_later [of p acts t t3] wd(1) by metis
    then have "fst (last ?acts) + grace \<le> t3" using t3 by simp
    moreover have "kill_stage p grace t3 ?acts = (acts', t')" using assms(1) w False by (simp add: terminate_stage_def Let_def)
    ultimately show ?thesis using kill_stage_bounds [OF _ o ne _ assms(5)] t3 sig' by fastforce
  qed
qed

text \<open>C39: Shutting a server down ends in time, if the exit notification can be sent at all, and never
  signals a stranger. The shutdown does not return exactly when the child has not ended by itself and
  the queue of the client never takes the notification; then the request was all that was
  done, and no signal is ever sent. Otherwise it is over three graces after the notification was
  sent, which is at the end of the request, within a grace, or as soon as the queue has room; what it
  did is an initial segment of request, exit notification, SIGTERM, SIGKILL; each signal comes at
  least a grace after the step before it and only while the child's end is not yet published, that
  is, while its pid cannot have been reused. If the child dies when killed, it is gone when the
  shutdown returns.\<close>

theorem shutdown_escalation:
  assumes "shutdown_process p grace t = (acts, r)" and "sp_pid p \<noteq> None"
  shows "(r = None \<longleftrightarrow> \<not> is_exited p [] t \<and> sp_room_at p = None) \<and>
    (case r of
       None \<Rightarrow> acts = [(t, ActShutdownRequest)]
     | Some t' \<Rightarrow> t' \<le> (case sp_room_at p of None \<Rightarrow> t | Some s \<Rightarrow> max (t + grace) s + 3 * grace) \<and> orderly p grace acts \<and>
         (\<exists>k. map snd acts = take k [ActShutdownRequest, ActExitNotification, ActSigterm, ActSigkill]) \<and>
         (dies_when_killed p grace \<longrightarrow> is_exited p acts t'))"
proof (cases "is_exited p [] t \<or> sp_room_at p = None")
  case True
  with assms(1) show ?thesis
    by (auto simp: shutdown_process_def orderly_def notify_done_def intro: exI [of _ 0] split: option.split if_splits)
next
  case False
  then obtain s where s: "sp_room_at p = Some s" "\<not> is_exited p [] t" by auto
  define t1 where "t1 = max (request_done p grace t) s"
  define asks where "asks = [(t, ActShutdownRequest), (t1, ActExitNotification)]"
  have t1: "t1 \<le> max (t + grace) s" "notify_done p (request_done p grace t) = Some t1"
    using request_done_bounds(2) [of p grace t] s(1) by (auto simp: t1_def notify_done_def)
  have asks: "asks \<noteq> []" "fst (last asks) = t1" "orderly p grace asks"
    by (auto simp: asks_def orderly_def less_Suc_eq nth_Cons split: nat.splits)
  obtain gone t2 where w: "wait_exit_bounded p asks grace t1 = (gone, t2)" by force
  note wd = wait_exit_boundedD [OF w]
  obtain t' where r: "r = Some t'" and run: "(if gone then (asks, t2) else terminate_stage p grace t2 asks) = (acts, t')"
    using assms(1) s(2) t1(2) w by (auto simp: shutdown_process_def asks_def [symmetric] Let_def split: prod.splits)
  have "t' \<le> t1 + 3 * grace \<and> orderly p grace acts \<and>
      (\<exists>k. map snd acts = take k [ActShutdownRequest, ActExitNotification, ActSigterm, ActSigkill]) \<and>
      (dies_when_killed p grace \<longrightarrow> is_exited p acts t')"
  proof (cases gone)
    case True
    with run have "acts = asks" "t' = t2" by simp_all
    with True wd asks show ?thesis by (auto simp: asks_def intro!: exI [of _ 2])
  next
    case gone: False
    then have t2: "t2 = t1 + grace" using wd by blast
    have le: "fst (last asks) + grace \<le> t2" using asks t2 by simp
    from run gone terminate_stage_bounds [OF _ asks(3,1) le assms(2)]
    have b: "t' \<le> t2 + 2 * grace" "orderly p grace acts"
      "acts = asks \<or> acts = asks @ [(t2, ActSigterm)] \<or> acts = asks @ [(t2, ActSigterm), (t2 + grace, ActSigkill)]"
      "dies_when_killed p grace \<longrightarrow> is_exited p acts t'"
      by simp_all
    have "\<exists>k. map snd acts = take k [ActShutdownRequest, ActExitNotification, ActSigterm, ActSigkill]"
      using b(3) by (auto simp: asks_def intro: exI [of _ 2] exI [of _ 3] exI [of _ 4])
    with b(1,2,4) t2 show ?thesis by auto
  qed
  with r s t1(1) show ?thesis by auto
qed

text \<open>A child that ignores everything but SIGKILL, and dies of that only at the end of the grace.\<close>

definition stubborn :: ServerProcess where
  "stubborn = \<lparr>sp_exit_at = (\<lambda>acts. case rev acts of (t, ActSigkill) # _ \<Rightarrow> Some (t + 5000) | _ \<Rightarrow> None),
     sp_reply_at = None, sp_room_at = Some 0, sp_pid = Some 7\<rparr>"

lemmas shutdown_eval = shutdown_process_def terminate_stage_def kill_stage_def signal_def wait_exit_bounded_def is_exited_def
  stubborn_def request_done_def notify_done_def SHUTDOWN_GRACE_def Let_def

theorem shutdown_escalation_witness:
  "snd (shutdown_process stubborn SHUTDOWN_GRACE 0) = Some 20000 \<and>
   is_exited stubborn (fst (shutdown_process stubborn SHUTDOWN_GRACE 0)) 20000"
proof -
  have run: "shutdown_process stubborn SHUTDOWN_GRACE 0 =
      ([(0, ActShutdownRequest), (5000, ActExitNotification), (10000, ActSigterm), (15000, ActSigkill)], Some 20000)"
    by (simp add: shutdown_eval)
  have "dies_when_killed stubborn SHUTDOWN_GRACE" "sp_pid stubborn \<noteq> None"
    by (simp_all add: dies_when_killed_def stubborn_def SHUTDOWN_GRACE_def)
  with shutdown_escalation [OF run] show ?thesis by (simp add: run)
qed

text \<open>Even for a child that is always written to, the worst case is four graces, not three. One that
  answers nothing is asked to shut down for a whole grace before the exit notification, so SIGTERM
  comes after ten seconds and SIGKILL after fifteen, and the escalation can take twenty.\<close>

theorem shutdown_takes_four_graces:
  "shutdown_process stubborn SHUTDOWN_GRACE 0 =
     ([(0, ActShutdownRequest), (SHUTDOWN_GRACE, ActExitNotification), (2 * SHUTDOWN_GRACE, ActSigterm),
       (3 * SHUTDOWN_GRACE, ActSigkill)], Some (4 * SHUTDOWN_GRACE))"
  by (simp add: shutdown_eval)

section \<open>The handshake\<close>

definition DEFAULT_INITIALIZE_TIMEOUT :: nat where "DEFAULT_INITIALIZE_TIMEOUT = 60"
definition DEFAULT_DOCUMENT_SYMBOL_TIMEOUT :: nat where "DEFAULT_DOCUMENT_SYMBOL_TIMEOUT = 30"
definition DEFAULT_QUERY_TIMEOUT :: nat where "DEFAULT_QUERY_TIMEOUT = 150"

text \<open>Whole seconds from the environment, else the default.\<close>

definition timeout_from_env :: "Env \<Rightarrow> string \<Rightarrow> nat \<Rightarrow> nat" where
  "timeout_from_env env var dflt =
     (case Option.bind (env var) (parse_unsigned (2 ^ 64)) of Some n \<Rightarrow> n | None \<Rightarrow> dflt)"

definition initialize_timeout_from_env :: "Env \<Rightarrow> nat" where
  "initialize_timeout_from_env env = timeout_from_env env ''SEMNAV_INITIALIZE_TIMEOUT_SECS'' DEFAULT_INITIALIZE_TIMEOUT"

definition document_symbol_timeout_from_env :: "Env \<Rightarrow> nat" where
  "document_symbol_timeout_from_env env =
     timeout_from_env env ''SEMNAV_DOCUMENT_SYMBOL_TIMEOUT_SECS'' DEFAULT_DOCUMENT_SYMBOL_TIMEOUT"

definition query_timeout_from_env :: "Env \<Rightarrow> nat" where
  "query_timeout_from_env env = timeout_from_env env ''SEMNAV_QUERY_TIMEOUT_SECS'' DEFAULT_QUERY_TIMEOUT"

definition build_initialize_params :: "int \<Rightarrow> string \<Rightarrow> string \<Rightarrow> Json" where
  "build_initialize_params pid root_uri workspace_name = JObj [
     (''processId'', JInt pid), (''rootUri'', JStr root_uri),
     (''workspaceFolders'', JArr [JObj [(''uri'', JStr root_uri), (''name'', JStr workspace_name)]]),
     (''capabilities'', JObj [
        (''workspace'', JObj [(''workspaceFolders'', JBool True)]),
        (''textDocument'', JObj [
           (''documentSymbol'', JObj [(''hierarchicalDocumentSymbolSupport'', JBool True)]),
           (''definition'', JObj [(''linkSupport'', JBool True)]),
           (''typeDefinition'', JObj [(''linkSupport'', JBool True)]),
           (''implementation'', JObj [(''linkSupport'', JBool True)]),
           (''hover'', JObj []), (''callHierarchy'', JObj [])])])]"

text \<open>
  The handshake over a connection: what the request yields within the deadline (\<open>None\<close> when the
  deadline passes first), and whether the notification could be sent.
\<close>

definition initialize_with_timeout :: "(nat \<Rightarrow> Json \<Rightarrow> (string + Json) option) \<Rightarrow> string option \<Rightarrow> int \<Rightarrow> string \<Rightarrow> string \<Rightarrow> nat \<Rightarrow> string + Json" where
  "initialize_with_timeout request notify pid root_uri workspace_name deadline =
     (case request deadline (build_initialize_params pid root_uri workspace_name) of
        None \<Rightarrow> Inl (''initialize timed out after '' @ (if deadline = 0 then ''0ns'' else show_nat deadline @ ''s''))
      | Some (Inl e) \<Rightarrow> Inl e
      | Some (Inr result) \<Rightarrow> (case notify of Some e \<Rightarrow> Inl (''initialized notification failed: '' @ e) | None \<Rightarrow> Inr result))"

definition initialize :: "Env \<Rightarrow> (nat \<Rightarrow> Json \<Rightarrow> (string + Json) option) \<Rightarrow> string option \<Rightarrow> int \<Rightarrow> string \<Rightarrow> string \<Rightarrow> string + Json" where
  "initialize env request notify pid root_uri workspace_name =
     initialize_with_timeout request notify pid root_uri workspace_name (initialize_timeout_from_env env)"

end
