(* ===== verification/Supervisor.thy ===== *)
theory Supervisor
  imports Server_Process Pipeline
begin

text \<open>
  The per-language supervisor (\<open>src/lsp/supervisor.rs\<close>): the health state machine with its
  exponential backoff, as a step function over what can wake the actor; and one language's index
  pass through it (\<open>src/indexer/runner.rs\<close>). Times are in seconds.
\<close>

section \<open>States, policies, outcomes\<close>

datatype ServerState = NotStarted | Starting | Healthy | Restarting | Down

fun state_str :: "ServerState \<Rightarrow> string" where
  "state_str NotStarted = ''not_started''"
| "state_str Starting = ''starting''"
| "state_str Healthy = ''healthy''"
| "state_str Restarting = ''restarting''"
| "state_str Down = ''down''"

datatype StartError = Provision string | SpawnOrInit string

datatype AcquireError = DownError string | RestartingError | StartFailed string

datatype FailureKind = ChildExit | Transport | Timeout

text \<open>Classifying an error by its text.\<close>

definition failure_kind_from :: "string \<Rightarrow> FailureKind" where
  "failure_kind_from msg = (if str_contains ''timed out'' msg then Timeout else Transport)"

record RestartPolicy =
  rp_backoff :: "nat list"
  rp_max_failures :: u32
  rp_down_retry :: nat

definition default_real :: RestartPolicy where
  "default_real = \<lparr>rp_backoff = [1, 2, 4, 8, 16], rp_max_failures = 5, rp_down_retry = 30\<rparr>"

definition nth_backoff :: "RestartPolicy \<Rightarrow> u32 \<Rightarrow> nat" where
  "nth_backoff p n = rp_backoff p ! min (unat n) 4"

text \<open>A started server: its client, and whether there is a process to keep alive.\<close>

record StartedServer =
  ss_client :: nat
  ss_keep_alive :: bool

text \<open>
  The actor's locals; \<open>sv_clock\<close> is the time, \<open>sv_meta\<close> what was recorded, \<open>sv_released\<close> the processes
  handed to the graceful escalation, \<open>sv_started\<close> those ever started, \<open>sv_running\<close> whether the loop
  runs.
\<close>

record Supervisor =
  sv_language :: string
  sv_policy :: RestartPolicy
  sv_state :: ServerState
  sv_client :: "nat option"
  sv_exit :: "nat option"
  sv_keepalive :: "nat option"
  sv_failures :: u32
  sv_last_success :: int
  sv_timer :: "nat option"
  sv_clock :: nat
  sv_meta :: "(string \<times> string) list"
  sv_released :: "nat list"
  sv_started :: "nat list"
  sv_running :: bool

definition spawn_supervisor :: "string \<Rightarrow> RestartPolicy \<Rightarrow> nat \<Rightarrow> Supervisor" where
  "spawn_supervisor language policy now = \<lparr>sv_language = language, sv_policy = policy,
     sv_state = NotStarted, sv_client = None, sv_exit = None, sv_keepalive = None, sv_failures = 0,
     sv_last_success = 0, sv_timer = None, sv_clock = now, sv_meta = [], sv_released = [],
     sv_started = [], sv_running = True\<rparr>"

section \<open>The steps of the actor\<close>

definition show_i64 :: "int \<Rightarrow> string" where
  "show_i64 i = (if i < 0 then CHR ''-'' # show_nat (nat (- i)) else show_nat (nat i))"

definition record_state :: "Supervisor \<Rightarrow> Supervisor" where
  "record_state s = s\<lparr>sv_meta := sv_meta s @
     [(sv_language s @ ''.lsp_status'', state_str (sv_state s)),
      (sv_language s @ ''.lsp_consecutive_failures'', show_nat (unat (sv_failures s))),
      (sv_language s @ ''.lsp_last_success_at'', show_i64 (sv_last_success s))]\<rparr>"

definition drop_current :: "Supervisor \<Rightarrow> Supervisor" where
  "drop_current s = s\<lparr>sv_client := None, sv_exit := None, sv_keepalive := None\<rparr>"

text \<open>The held process, if any, goes to a detached escalation.\<close>

definition release :: "Supervisor \<Rightarrow> Supervisor" where
  "release s = (case sv_keepalive s of
      None \<Rightarrow> s | Some i \<Rightarrow> s\<lparr>sv_keepalive := None, sv_released := sv_released s @ [i]\<rparr>)"

definition drop_current_gracefully :: "Supervisor \<Rightarrow> Supervisor" where
  "drop_current_gracefully s = release (s\<lparr>sv_client := None, sv_exit := None\<rparr>)"

definition shutdown_graceful :: "Supervisor \<Rightarrow> Supervisor" where
  "shutdown_graceful s = (release s)\<lparr>sv_client := None, sv_exit := None, sv_timer := None\<rparr>"

definition saturating_succ :: "u32 \<Rightarrow> u32" where
  "saturating_succ n = (if n = - 1 then n else n + 1)"

definition transition_after_anomaly :: "Supervisor \<Rightarrow> Supervisor" where
  "transition_after_anomaly s =
     (let s1 = drop_current_gracefully s;
          s2 = s1\<lparr>sv_failures := saturating_succ (sv_failures s1)\<rparr>
      in record_state
        (if rp_max_failures (sv_policy s2) \<le> sv_failures s2
         then s2\<lparr>sv_state := Down, sv_timer := Some (sv_clock s2 + rp_down_retry (sv_policy s2))\<rparr>
         else s2\<lparr>sv_state := Restarting,
                 sv_timer := Some (sv_clock s2 + nth_backoff (sv_policy s2) (sv_failures s2 - 1))\<rparr>))"

text \<open>What the factory's \<open>start\<close> yields, how long it takes, and the wall clock afterwards.\<close>

record Attempt =
  at_result :: "StartError + StartedServer"
  at_takes :: nat
  at_now_secs :: int

definition set_healthy :: "StartedServer \<Rightarrow> int \<Rightarrow> Supervisor \<Rightarrow> Supervisor" where
  "set_healthy server now s = s\<lparr>sv_client := Some (ss_client server), sv_exit := Some (ss_client server),
     sv_keepalive := (if ss_keep_alive server then Some (ss_client server) else None),
     sv_state := Healthy, sv_failures := 0, sv_last_success := now,
     sv_started := (if ss_keep_alive server then sv_started s @ [ss_client server] else sv_started s)\<rparr>"

datatype StartOutcome = Started nat | ProvisionFailed | SpawnOrInitFailed

definition attempt_start :: "Attempt \<Rightarrow> Supervisor \<Rightarrow> StartOutcome \<times> Supervisor" where
  "attempt_start a s0 =
     (let s = s0\<lparr>sv_clock := sv_clock s0 + at_takes a\<rparr> in
      case at_result a of
        Inr server \<Rightarrow> (Started (ss_client server), record_state (set_healthy server (at_now_secs a) s))
      | Inl (Provision msg) \<Rightarrow>
          (ProvisionFailed, record_state ((drop_current s)\<lparr>sv_state := Down, sv_timer := None\<rparr>))
      | Inl (SpawnOrInit msg) \<Rightarrow> (SpawnOrInitFailed, transition_after_anomaly s))"

definition on_restart_timer :: "Attempt \<Rightarrow> Supervisor \<Rightarrow> Supervisor" where
  "on_restart_timer a s = snd (attempt_start a s)"

definition start_and_settle :: "Attempt \<Rightarrow> Supervisor \<Rightarrow> (AcquireError + nat) \<times> Supervisor" where
  "start_and_settle a s =
     (case attempt_start a s of
        (Started client, s') \<Rightarrow> (Inr client, s')
      | (ProvisionFailed, s') \<Rightarrow> (Inl (DownError (sv_language s' @
          '' language server provision failed; runtime must be installed before retry'')), s')
      | (SpawnOrInitFailed, s') \<Rightarrow>
          if sv_state s' = Down
          then (Inl (DownError (sv_language s' @ '' language server start failed repeatedly; now down'')), s')
          else (Inl (StartFailed (sv_language s' @ '' language server start failed; restarting'')), s'))"

definition handle_acquire :: "Attempt \<Rightarrow> Supervisor \<Rightarrow> (AcquireError + nat) \<times> Supervisor" where
  "handle_acquire a s = (case sv_state s of
      Healthy \<Rightarrow> (case sv_client s of
          Some client \<Rightarrow> (Inr client, s)
        | None \<Rightarrow> (Inl (StartFailed ''healthy state had no client''), s))
    | Restarting \<Rightarrow> (Inl RestartingError, s)
    | Down \<Rightarrow> (Inl (DownError (sv_language s @ '' language server is down after '' @
        show_nat (unat (sv_failures s)) @ '' consecutive failures'')), s)
    | NotStarted \<Rightarrow> start_and_settle a (record_state (s\<lparr>sv_state := Starting\<rparr>))
    | Starting \<Rightarrow> (Inl RestartingError, s))"

text \<open>What can wake the loop: the exit watch, the timer, a message, or the last handle going.\<close>

datatype SupEvent =
    ExitSeen
  | TimerFired Attempt
  | Acquire Attempt
  | ReportFailure FailureKind
  | Shutdown
  | HandlesDropped

fun sup_event :: "SupEvent \<Rightarrow> Supervisor \<Rightarrow> (AcquireError + nat) option \<times> Supervisor" where
  "sup_event ExitSeen s = (None, if sv_state s = Healthy then transition_after_anomaly s else s)"
| "sup_event (TimerFired a) s = (None, on_restart_timer a (s\<lparr>sv_timer := None\<rparr>))"
| "sup_event (Acquire a) s = (case handle_acquire a s of (r, s') \<Rightarrow> (Some r, s'))"
| "sup_event (ReportFailure kind) s = (None, if sv_state s = Healthy then transition_after_anomaly s else s)"
| "sup_event Shutdown s = (None, (shutdown_graceful s)\<lparr>sv_running := False\<rparr>)"
| "sup_event HandlesDropped s = (None, (shutdown_graceful s)\<lparr>sv_running := False\<rparr>)"

text \<open>
  The loop: time passes; the exit watch can fire only while one is held, the timer only once its
  deadline has passed, a message any time.
\<close>

inductive sup_step :: "Supervisor \<Rightarrow> Supervisor \<Rightarrow> bool" where
  tick: "sv_running s \<Longrightarrow> sup_step s (s\<lparr>sv_clock := sv_clock s + d\<rparr>)"
| exit: "sv_running s \<Longrightarrow> sv_exit s \<noteq> None \<Longrightarrow> sup_step s (snd (sup_event ExitSeen s))"
| timer: "sv_running s \<Longrightarrow> sv_timer s = Some t \<Longrightarrow> t \<le> sv_clock s \<Longrightarrow> sup_step s (snd (sup_event (TimerFired a) s))"
| message: "sv_running s \<Longrightarrow> (\<And>a. e \<noteq> TimerFired a) \<Longrightarrow> e \<noteq> ExitSeen \<Longrightarrow> sup_step s (snd (sup_event e s))"

inductive_cases sup_stepE: "sup_step s s'"

text \<open>\<open>SupervisorHandle::acquire\<close>: once the actor has stopped, the send or the reply fails.\<close>

definition acquire :: "Attempt \<Rightarrow> Supervisor \<Rightarrow> (AcquireError + nat) \<times> Supervisor" where
  "acquire a s = (if sv_running s then handle_acquire a s else (Inl (DownError ''supervisor actor closed''), s))"

text \<open>\<open>SupervisorHandle::shutdown\<close>.\<close>

definition shutdown :: "Supervisor \<Rightarrow> Supervisor" where
  "shutdown s = (if sv_running s then snd (sup_event Shutdown s) else s)"

section \<open>The real factory\<close>

definition workspace_name_for :: "string \<Rightarrow> string" where
  "workspace_name_for root_uri =
     (case List.find (\<lambda>seg. seg \<noteq> [] \<and> CHR '':'' \<notin> set seg)
        (rev (split_on (CHR ''/'') (trim_end_char (CHR ''/'') root_uri))) of
        Some seg \<Rightarrow> seg | None \<Rightarrow> ''workspace'')"

text \<open>
  \<open>RealServerFactory::start\<close>: the adapter, its provisioned command, the process (\<open>spawn\<close>) and the
  handshake over it (\<open>shake\<close>).
\<close>

definition real_start :: "Env \<Rightarrow> Host \<Rightarrow> string \<Rightarrow> string \<Rightarrow> (CommandSpec \<Rightarrow> string + nat) \<Rightarrow> (nat \<Rightarrow> string + Json) \<Rightarrow> StartError + StartedServer" where
  "real_start env host language servers_dir spawn shake =
     (case adapter_for_language env language of
        None \<Rightarrow> Inl (Provision (''no adapter for '' @ language))
      | Some adapter \<Rightarrow> (case provision host adapter servers_dir of
          Inl e \<Rightarrow> Inl (Provision ''provision: '')
        | Inr cmd \<Rightarrow> (case spawn cmd of
            Inl e \<Rightarrow> Inl (SpawnOrInit (''spawn: '' @ e))
          | Inr server \<Rightarrow> (case shake server of
              Inl e \<Rightarrow> Inl (SpawnOrInit (''initialize: '' @ e))
            | Inr v \<Rightarrow> Inr \<lparr>ss_client = server, ss_keep_alive = True\<rparr>))))"

end
