(* ===== verification/Supervisor_Props.thy ===== *)
theory Supervisor_Props
  imports Supervisor
begin

text \<open>
  The supervisor's contract: the invariant of its states, the ownership of the processes it
  starts, the schedule of its retries, and the names its factory hands to the server.
\<close>

section \<open>The invariant\<close>

definition holds_nothing :: "Supervisor \<Rightarrow> bool" where
  "holds_nothing s \<longleftrightarrow> sv_client s = None \<and> sv_exit s = None \<and> sv_keepalive s = None"

text \<open>What each state means between two turns of the loop.\<close>

fun state_ok :: "ServerState \<Rightarrow> Supervisor \<Rightarrow> bool" where
  "state_ok NotStarted s \<longleftrightarrow> holds_nothing s \<and> sv_failures s = 0 \<and> sv_timer s = None \<and> sv_started s = []"
| "state_ok Starting s \<longleftrightarrow> False"
| "state_ok Healthy s \<longleftrightarrow> sv_client s \<noteq> None \<and> sv_exit s = sv_client s \<and>
     (sv_keepalive s = None \<or> sv_keepalive s = sv_client s) \<and> sv_failures s = 0 \<and> sv_timer s = None"
| "state_ok Restarting s \<longleftrightarrow> holds_nothing s \<and> sv_timer s \<noteq> None \<and>
     0 < sv_failures s \<and> sv_failures s < rp_max_failures (sv_policy s)"
| "state_ok Down s \<longleftrightarrow> holds_nothing s \<and>
     (sv_timer s \<noteq> None \<longrightarrow> 0 < sv_failures s \<and> rp_max_failures (sv_policy s) \<le> sv_failures s)"

text \<open>The state rows at the end of what was recorded are those of the present state.\<close>

definition recorded :: "Supervisor \<Rightarrow> bool" where
  "recorded s \<longleftrightarrow> (if sv_state s = NotStarted then sv_meta s = []
     else \<exists>earlier. sv_meta s = earlier @
       [(sv_language s @ ''.lsp_status'', state_str (sv_state s)),
        (sv_language s @ ''.lsp_consecutive_failures'', show_nat (unat (sv_failures s))),
        (sv_language s @ ''.lsp_last_success_at'', show_i64 (sv_last_success s))])"

definition the_list :: "'a option \<Rightarrow> 'a list" where
  "the_list x = (case x of None \<Rightarrow> [] | Some a \<Rightarrow> [a])"

lemma the_list_simps [simp]: "the_list None = []" "the_list (Some a) = [a]"
  by (simp_all add: the_list_def)

text \<open>Every process ever started was handed to the escalation, or is the one held.\<close>

definition owned :: "Supervisor \<Rightarrow> bool" where
  "owned s \<longleftrightarrow> sv_started s = sv_released s @ the_list (sv_keepalive s)"

definition sup_inv :: "Supervisor \<Rightarrow> bool" where
  "sup_inv s \<longleftrightarrow> owned s \<and> recorded s \<and>
     (if sv_running s then state_ok (sv_state s) s else holds_nothing s \<and> sv_timer s = None)"

lemmas sup_frame = record_state_def drop_current_def release_def drop_current_gracefully_def
  shutdown_graceful_def set_healthy_def

lemma saturating_succ_unat: "n \<noteq> - 1 \<Longrightarrow> unat (saturating_succ n) = Suc (unat n)"
  using unatSuc [of n] by (metis add.commute add_eq_0_iff2 saturating_succ_def)

lemma saturating_succ_max [simp]: "saturating_succ (- 1) = - 1"
  by (simp add: saturating_succ_def)

lemma saturating_succ_pos: "0 < saturating_succ n"
proof (cases "n = - 1")
  case True
  then show ?thesis by (simp add: word_gt_0)
next
  case False
  then show ?thesis by (simp add: word_less_nat_alt saturating_succ_unat)
qed

lemma owned_release:
  "owned s \<Longrightarrow> owned (release s) \<and> sv_keepalive (release s) = None"
  by (auto simp: owned_def release_def split: option.splits)

lemma release_frame [simp]:
  "sv_running (release s) = sv_running s" "sv_policy (release s) = sv_policy s"
  "sv_state (release s) = sv_state s" "sv_meta (release s) = sv_meta s"
  "sv_language (release s) = sv_language s" "sv_failures (release s) = sv_failures s"
  "sv_client (release s) = sv_client s" "sv_exit (release s) = sv_exit s"
  "sv_clock (release s) = sv_clock s" "sv_timer (release s) = sv_timer s"
  "sv_last_success (release s) = sv_last_success s" "sv_started (release s) = sv_started s"
  by (simp_all add: release_def split: option.splits)

lemma recorded_record_state: "sv_state s \<noteq> NotStarted \<Longrightarrow> recorded (record_state s)"
  by (simp add: recorded_def record_state_def)

lemma anomaly_inv:
  assumes "owned s" and "sv_running s"
  shows "sup_inv (transition_after_anomaly s)"
proof -
  let ?s = "s\<lparr>sv_client := None, sv_exit := None\<rparr>"
  have o: "owned (release ?s)" "sv_keepalive (release ?s) = None"
    using owned_release [of ?s] assms(1) by (simp_all add: owned_def)
  then show ?thesis
    using assms(2) saturating_succ_pos [of "sv_failures s"]
    by (simp add: sup_inv_def transition_after_anomaly_def drop_current_gracefully_def Let_def record_state_def
        recorded_def owned_def holds_nothing_def not_le)
qed

lemma attempt_inv:
  assumes "owned s" and "holds_nothing s" and "sv_running s" and "sv_timer s = None"
  shows "sup_inv (snd (attempt_start a s))"
proof (cases "at_result a")
  case (Inr server)
  with assms show ?thesis
    by (simp add: attempt_start_def Let_def sup_inv_def set_healthy_def record_state_def recorded_def owned_def
        holds_nothing_def)
next
  case (Inl e)
  show ?thesis
  proof (cases e)
    case (Provision msg)
    with Inl assms show ?thesis
      by (simp add: attempt_start_def Let_def sup_inv_def drop_current_def record_state_def recorded_def owned_def
          holds_nothing_def)
  next
    case (SpawnOrInit msg)
    have "sup_inv (transition_after_anomaly (s\<lparr>sv_clock := sv_clock s + at_takes a\<rparr>))"
      by (rule anomaly_inv) (use assms in \<open>simp_all add: owned_def\<close>)
    with Inl SpawnOrInit show ?thesis by (simp add: attempt_start_def Let_def)
  qed
qed

lemma start_and_settle_snd: "snd (start_and_settle a s) = snd (attempt_start a s)"
  by (simp add: start_and_settle_def split: prod.splits StartOutcome.splits)

lemma state_ok_holds: "state_ok st s \<Longrightarrow> st \<noteq> Healthy \<Longrightarrow> holds_nothing s"
  by (cases st) auto

lemma acquire_inv:
  assumes "sup_inv s" and "sv_running s"
  shows "sup_inv (snd (handle_acquire a s))"
proof (cases "sv_state s = NotStarted")
  case True
  let ?s = "record_state (s\<lparr>sv_state := Starting\<rparr>)"
  have "sup_inv (snd (attempt_start a ?s))"
    by (rule attempt_inv) (use assms True in \<open>simp_all add: sup_inv_def owned_def holds_nothing_def record_state_def\<close>)
  with True show ?thesis by (simp add: handle_acquire_def start_and_settle_snd)
next
  case False
  then have "snd (handle_acquire a s) = s"
    by (cases "sv_state s") (simp_all add: handle_acquire_def split: option.split)
  with assms show ?thesis by simp
qed

lemma stop_inv: "sup_inv s \<Longrightarrow> sup_inv ((shutdown_graceful s)\<lparr>sv_running := False\<rparr>)"
  using owned_release [of s]
  by (simp add: sup_inv_def shutdown_graceful_def owned_def recorded_def holds_nothing_def)

lemma state_ok_clock [simp]: "state_ok st (s\<lparr>sv_clock := c\<rparr>) = state_ok st s"
  by (cases st) (simp_all add: holds_nothing_def)

lemma tick_inv:
  assumes "sup_inv s"
  shows "sup_inv (s\<lparr>sv_clock := c\<rparr>)"
  using assms by (auto simp: sup_inv_def owned_def recorded_def holds_nothing_def split: if_splits)

lemma timer_inv:
  assumes "sup_inv s" and "sv_running s" and "sv_timer s = Some t"
  shows "sup_inv (snd (sup_event (TimerFired a) s))"
proof -
  have "holds_nothing s" using assms by (cases "sv_state s") (auto simp: sup_inv_def)
  then show ?thesis
    using assms attempt_inv [of "s\<lparr>sv_timer := None\<rparr>" a]
    unfolding sup_event.simps on_restart_timer_def snd_conv
    by (simp add: sup_inv_def [of s] owned_def holds_nothing_def)
qed

lemma sup_step_inv:
  assumes "sup_step s s'" and "sup_inv s"
  shows "sup_inv s'"
  using assms(1)
proof (cases rule: sup_step.cases)
  case (tick d)
  with assms(2) tick_inv show ?thesis by blast
next
  case exit
  with assms(2) anomaly_inv [of s] show ?thesis by (simp add: sup_inv_def)
next
  case (timer t a)
  with assms(2) timer_inv show ?thesis by blast
next
  case (message e)
  show ?thesis
  proof (cases e)
    case (Acquire a)
    with message assms(2) acquire_inv [of s a] show ?thesis by (simp split: prod.splits)
  next
    case (ReportFailure k)
    with message assms(2) anomaly_inv [of s] show ?thesis by (simp add: sup_inv_def)
  qed (use message assms(2) stop_inv in auto)
qed

lemma spawn_inv: "sup_inv (spawn_supervisor language policy now)"
  by (simp add: spawn_supervisor_def sup_inv_def owned_def recorded_def holds_nothing_def)

lemma reachable_inv:
  assumes "sup_step\<^sup>*\<^sup>* (spawn_supervisor language policy now) s"
  shows "sup_inv s"
  using assms by (induction rule: rtranclp_induct) (auto intro: spawn_inv sup_step_inv)

text \<open>C26: The health states of a supervisor mean what they say. However it was driven, a running
  supervisor between two turns of its loop is never seen in \<open>Starting\<close>; it is \<open>Healthy\<close> exactly
  when it holds a client, then with its exit watch, no failure counted and no timer; in
  \<open>Restarting\<close> and armed \<open>Down\<close> it holds nothing and a retry is scheduled; what it recorded last in
  the index metadata is its present state.\<close>

theorem supervisor_states:
  assumes "sup_step\<^sup>*\<^sup>* (spawn_supervisor language policy now) s" and "sv_running s"
  shows "state_ok (sv_state s) s \<and> sv_state s \<noteq> Starting \<and> (sv_state s = Healthy \<longleftrightarrow> sv_client s \<noteq> None) \<and>
    (sv_state s = Restarting \<longrightarrow> sv_timer s \<noteq> None) \<and> recorded s"
proof -
  have ok: "state_ok (sv_state s) s" "recorded s"
    using reachable_inv [OF assms(1)] assms(2) by (simp_all add: sup_inv_def)
  then show ?thesis by (cases "sv_state s") (auto simp: holds_nothing_def)
qed

definition attempt_ok :: "nat \<Rightarrow> Attempt" where
  "attempt_ok i = \<lparr>at_result = Inr \<lparr>ss_client = i, ss_keep_alive = True\<rparr>, at_takes = 1, at_now_secs = 1700000000\<rparr>"

definition attempt_fails :: Attempt where
  "attempt_fails = \<lparr>at_result = Inl (SpawnOrInit ''spawn''), at_takes = 0, at_now_secs = 0\<rparr>"

text \<open>A server starts, exits, and is started again a second later.\<close>

definition restarted :: Supervisor where
  "restarted = snd (sup_event (TimerFired (attempt_ok 8))
     ((snd (sup_event ExitSeen (snd (sup_event (Acquire (attempt_ok 7))
       (spawn_supervisor ''go'' default_real 0)))))\<lparr>sv_clock := 1 + 1\<rparr>))"

lemmas sup_run = sup_event.simps handle_acquire_def start_and_settle_def attempt_start_def attempt_ok_def
  attempt_fails_def on_restart_timer_def transition_after_anomaly_def saturating_succ_def sup_frame
  spawn_supervisor_def default_real_def nth_backoff_def Let_def

lemma restarted_reachable:
  "sup_step\<^sup>*\<^sup>* (spawn_supervisor ''go'' default_real 0) restarted"
proof -
  let ?s0 = "spawn_supervisor ''go'' default_real 0"
  let ?s1 = "snd (sup_event (Acquire (attempt_ok 7)) ?s0)"
  let ?s2 = "snd (sup_event ExitSeen ?s1)"
  let ?s3 = "?s2\<lparr>sv_clock := sv_clock ?s2 + 1\<rparr>"
  have 1: "sup_step ?s0 ?s1" by (rule sup_step.message) (simp_all add: spawn_supervisor_def)
  have 2: "sup_step ?s1 ?s2" by (rule sup_step.exit) (simp_all add: sup_run)
  have 3: "sup_step ?s2 ?s3" by (rule sup_step.tick) (simp add: sup_run)
  have clock: "sv_clock ?s2 = 1" by (simp add: sup_run)
  have 4: "sup_step ?s3 (snd (sup_event (TimerFired (attempt_ok 8)) ?s3))"
    by (rule sup_step.timer [of _ 2]) (simp_all add: sup_run word_le_nat_alt)
  show ?thesis
    using 1 2 3 4 unfolding restarted_def clock [symmetric]
    by (meson rtranclp.rtrancl_into_rtrancl rtranclp.rtrancl_refl)
qed

lemma restarted_facts: "sv_running restarted" "sv_state restarted = Healthy" "sv_client restarted = Some 8"
  "sv_started restarted = [7, 8]" "sv_released restarted = [7]"
  by (simp_all add: restarted_def sup_run)

theorem supervisor_states_witness:
  "state_ok (sv_state restarted) restarted \<and> sv_client restarted = Some 8"
  using supervisor_states [OF restarted_reachable restarted_facts(1)] restarted_facts(3) by blast

text \<open>C13: No server process is leaked, and none is shut down twice. However the supervisor was driven,
  the processes it ever started are, in order, those it handed to the shutdown escalation and then
  the one it still holds; once the loop has ended, all of them were handed over.\<close>

theorem supervisor_owns_processes:
  assumes "sup_step\<^sup>*\<^sup>* (spawn_supervisor language policy now) s"
  shows "sv_started s = sv_released s @ the_list (sv_keepalive s) \<and>
    (\<not> sv_running s \<longrightarrow> sv_started s = sv_released s \<and> sv_timer s = None)"
  using reachable_inv [OF assms] by (auto simp: sup_inv_def owned_def holds_nothing_def split: if_splits)

theorem supervisor_owns_processes_witness:
  "sv_started restarted = sv_released restarted @ the_list (sv_keepalive restarted) \<and> sv_released restarted = [7]"
  using supervisor_owns_processes [OF restarted_reachable] restarted_facts by blast

section \<open>The retry schedule\<close>

text \<open>The waits of a supervisor whose every attempt, made as its timer fires, goes as given.\<close>

fun retry_waits :: "Attempt list \<Rightarrow> Supervisor \<Rightarrow> nat list" where
  "retry_waits [] s = []"
| "retry_waits (a # as) s = (case sv_timer s of None \<Rightarrow> []
    | Some t \<Rightarrow> (t - sv_clock s) # retry_waits as (snd (sup_event (TimerFired a) (s\<lparr>sv_clock := t\<rparr>))))"

definition spawn_fails :: "Attempt \<Rightarrow> bool" where
  "spawn_fails a \<longleftrightarrow> (case at_result a of Inl (SpawnOrInit msg) \<Rightarrow> True | _ \<Rightarrow> False)"

definition wait_after :: "u32 \<Rightarrow> nat" where
  "wait_after f = (if 5 \<le> f then 30 else nth_backoff default_real (f - 1))"

definition due :: "u32 \<Rightarrow> Supervisor \<Rightarrow> bool" where
  "due f s \<longleftrightarrow> sv_policy s = default_real \<and> sv_failures s = f \<and> sv_timer s = Some (sv_clock s + wait_after f)"

fun wait_list :: "nat \<Rightarrow> u32 \<Rightarrow> nat list" where
  "wait_list 0 f = []"
| "wait_list (Suc n) f = wait_after f # wait_list n (saturating_succ f)"

lemma policy_default_simps [simp]:
  "rp_max_failures default_real = 5" "rp_down_retry default_real = 30"
  by (simp_all add: default_real_def)

lemma due_after_anomaly:
  assumes "sv_policy s = default_real"
  shows "due (saturating_succ (sv_failures s)) (transition_after_anomaly s)"
  using assms
  by (simp add: due_def wait_after_def transition_after_anomaly_def drop_current_gracefully_def Let_def record_state_def)

lemma due_after_failure:
  assumes "spawn_fails a" and "sv_policy s = default_real"
  shows "due (saturating_succ (sv_failures s)) (snd (attempt_start a s))"
  using assms due_after_anomaly [of "s\<lparr>sv_clock := sv_clock s + at_takes a\<rparr>"]
  by (auto simp: spawn_fails_def attempt_start_def Let_def split: sum.splits StartError.splits)

lemma retry_waits_due:
  assumes "due f s" and "\<forall>a \<in> set as. spawn_fails a"
  shows "retry_waits as s = wait_list (length as) f"
  using assms
proof (induction as arbitrary: f s)
  case (Cons a as)
  let ?s = "s\<lparr>sv_clock := sv_clock s + wait_after f, sv_timer := None\<rparr>"
  have "due (saturating_succ (sv_failures ?s)) (snd (attempt_start a ?s))"
    by (rule due_after_failure) (use Cons.prems in \<open>simp_all add: due_def\<close>)
  with Cons show ?case by (simp add: due_def on_restart_timer_def)
qed simp

lemma wait_list_down: "5 \<le> f \<Longrightarrow> wait_list n f = replicate n 30"
proof (induction n arbitrary: f)
  case (Suc n)
  have "5 \<le> saturating_succ f"
    using Suc.prems by (cases "f = - 1") (simp_all add: word_le_nat_alt saturating_succ_unat)
  with Suc show ?case by (simp add: wait_after_def)
qed simp

lemma wait_list_first: "wait_list n 1 = take n ([1, 2, 4, 8] @ replicate n 30)"
proof -
  have w: "wait_after 1 = 1" "wait_after 2 = 2" "wait_after 3 = 4" "wait_after 4 = 8"
    by (simp_all add: wait_after_def nth_backoff_def default_real_def word_le_nat_alt)
  have f: "saturating_succ 1 = 2" "saturating_succ 2 = 3" "saturating_succ 3 = 4" "saturating_succ 4 = 5"
    by (simp_all add: saturating_succ_def)
  have tail: "wait_list k 5 = replicate k 30" for k by (rule wait_list_down) simp
  consider "n = 0" | "n = 1" | "n = 2" | "n = 3" | k where "n = Suc (Suc (Suc (Suc k)))"
    by (metis One_nat_def Suc_1 Suc_eq_plus1 add_2_eq_Suc' eval_nat_numeral(3) nat.exhaust)
  then show ?thesis
  proof cases
    case (5 k)
    have "take k (replicate 4 x @ replicate k x) = replicate k x" for x :: nat
      by (simp flip: replicate_add)
    then have "take k (30 # 30 # 30 # 30 # replicate k 30) = replicate k (30 :: nat)" by (simp add: eval_nat_numeral)
    with 5 show ?thesis by (simp add: w f tail)
  qed (simp_all add: w f tail numeral_2_eq_2 numeral_3_eq_3)
qed

text \<open>the retries of a server that will not start are bounded in rate and never stop. From the first
  failing acquire, with every later attempt failing too, the supervisor waits 1, 2, 4 and 8
  seconds, and from the fifth failure on it is down and tries every 30 seconds, however many
  attempts there are; it never waits the 16 seconds of the last backoff slot.\<close>

theorem retry_schedule:
  assumes "spawn_fails a" and "\<forall>b \<in> set as. spawn_fails b"
  shows "retry_waits as (snd (sup_event (Acquire a) (spawn_supervisor language default_real now))) =
      take (length as) ([1, 2, 4, 8] @ replicate (length as) 30)"
proof -
  let ?s = "record_state ((spawn_supervisor language default_real now)\<lparr>sv_state := Starting\<rparr>)"
  have "due (saturating_succ (sv_failures ?s)) (snd (attempt_start a ?s))"
    by (rule due_after_failure) (use assms in \<open>simp_all add: record_state_def spawn_supervisor_def\<close>)
  then have "due 1 (snd (attempt_start a ?s))"
    by (simp add: record_state_def spawn_supervisor_def saturating_succ_def)
  moreover have "snd (sup_event (Acquire a) (spawn_supervisor language default_real now)) = snd (attempt_start a ?s)"
    using start_and_settle_snd [of a ?s]
    by (simp add: handle_acquire_def spawn_supervisor_def case_prod_beta)
  ultimately show ?thesis using retry_waits_due assms(2) wait_list_first by metis
qed

theorem retry_schedule_witness:
  "retry_waits (replicate 7 attempt_fails) (snd (sup_event (Acquire attempt_fails) (spawn_supervisor ''go'' default_real 0))) =
     [1, 2, 4, 8, 30, 30, 30]"
proof -
  have f: "spawn_fails attempt_fails" "\<forall>b \<in> set (replicate 7 attempt_fails). spawn_fails b"
    by (simp_all add: spawn_fails_def attempt_fails_def)
  show ?thesis using retry_schedule [OF f, of "''go''" 0] by (simp add: eval_nat_numeral)
qed

section \<open>A failed provision is final; the workspace name\<close>

text \<open>a failed provision is final. Once an attempt to start has failed in provisioning, the
  supervisor is down with no retry armed, and stays so: every later acquire is refused, whatever
  happens before it, and no process is started again.\<close>

theorem provision_failure_is_final:
  assumes "sup_step\<^sup>*\<^sup>* (spawn_supervisor language policy now) s" and "sv_running s"
    and "sv_state s = Down" and "sv_timer s = None"
    and "sup_step\<^sup>*\<^sup>* s s'"
  shows "sv_state s' = Down \<and> sv_timer s' = None \<and> sv_started s' = sv_started s \<and>
    (\<exists>why. handle_acquire a s' = (Inl (DownError why), s'))"
proof -
  have hold: "holds_nothing s" using reachable_inv [OF assms(1)] assms(2,3) by (simp add: sup_inv_def)
  from assms(5) have "sv_state s' = Down \<and> sv_timer s' = None \<and> holds_nothing s' \<and> sv_started s' = sv_started s"
  proof (induction rule: rtranclp_induct)
    case base
    with assms hold show ?case by blast
  next
    case (step u v)
    from step.hyps(2) show ?case
    proof (cases rule: sup_step.cases)
      case (message e)
      with step.IH show ?thesis
        by (cases e) (auto simp: handle_acquire_def shutdown_graceful_def holds_nothing_def release_def)
    qed (use step.IH in \<open>auto simp: holds_nothing_def\<close>)
  qed
  then show ?thesis by (simp add: handle_acquire_def)
qed

definition no_runtime :: Attempt where
  "no_runtime = \<lparr>at_result = Inl (Provision ''npm''), at_takes = 0, at_now_secs = 0\<rparr>"

definition unprovisioned :: Supervisor where
  "unprovisioned = snd (sup_event (Acquire no_runtime) (spawn_supervisor ''go'' default_real 0))"

theorem provision_failure_is_final_witness:
  "\<exists>why. handle_acquire (attempt_ok 7) unprovisioned = (Inl (DownError why), unprovisioned)"
proof -
  have "sup_step (spawn_supervisor ''go'' default_real 0) unprovisioned"
    unfolding unprovisioned_def by (rule sup_step.message) (simp_all add: spawn_supervisor_def)
  then have r: "sup_step\<^sup>*\<^sup>* (spawn_supervisor ''go'' default_real 0) unprovisioned" by blast
  have "sv_running unprovisioned" "sv_state unprovisioned = Down" "sv_timer unprovisioned = None"
    by (simp_all add: unprovisioned_def no_runtime_def sup_run)
  from provision_failure_is_final [OF r this rtranclp.rtrancl_refl] show ?thesis by blast
qed

lemma workspace_name_shape:
  "workspace_name_for root \<noteq> [] \<and> CHR '':'' \<notin> set (workspace_name_for root)"
  by (auto simp: workspace_name_for_def find_Some_iff split: option.split)

end
