(* ===== verification/Runner.thy ===== *)
theory Runner
  imports Supervisor_Props
begin

text \<open>
  One language's index pass (\<open>src/indexer/runner.rs\<close>): a supervisor of its own, the client it hands
  out, the pass over that client, and the teardown.
\<close>

section \<open>The pass under its supervisor\<close>

text \<open>
  The machine a pass runs on: the environment, the host provisioning sees, the walker, the process
  table (\<open>spawn\<close>), the handshake of a started server with a root and a workspace name, and what
  its symbol fetcher answers.
\<close>

record Machine =
  ma_env :: Env
  ma_host :: Host
  ma_walker :: "string \<Rightarrow> (string + WalkEntry) list"
  ma_spawn :: "CommandSpec \<Rightarrow> string + nat"
  ma_shake :: "nat \<Rightarrow> string \<Rightarrow> string \<Rightarrow> string + Json"
  ma_fetcher :: "nat \<Rightarrow> string \<Rightarrow> SymbolFetcher"
  ma_start_secs :: nat
  ma_now_secs :: int

definition factory_attempt :: "Machine \<Rightarrow> string \<Rightarrow> string \<Rightarrow> string \<Rightarrow> Attempt" where
  "factory_attempt m language servers_dir root_uri =
     \<lparr>at_result = real_start (ma_env m) (ma_host m) language servers_dir (ma_spawn m)
        (\<lambda>server. ma_shake m server root_uri (workspace_name_for root_uri)),
      at_takes = ma_start_secs m, at_now_secs = ma_now_secs m\<rparr>"

text \<open>
  What the supervisor meets while the pass runs beside it: its exit watch, its timer (time having
  passed), messages.
\<close>

fun sup_turn :: "SupEvent \<Rightarrow> Supervisor \<Rightarrow> Supervisor" where
  "sup_turn ExitSeen s = (if sv_exit s = None then s else snd (sup_event ExitSeen s))"
| "sup_turn (TimerFired a) s = (case sv_timer s of None \<Rightarrow> s
    | Some t \<Rightarrow> snd (sup_event (TimerFired a) (s\<lparr>sv_clock := max (sv_clock s) t\<rparr>)))"
| "sup_turn e s = snd (sup_event e s)"

text \<open>\<open>MetaStore for DbActor\<close>: what a supervisor recorded meanwhile reaches the metadata table.\<close>

definition flush_meta :: "Supervisor \<Rightarrow> Supervisor \<Rightarrow> Db \<Rightarrow> Db" where
  "flush_meta before after d = fold (\<lambda>(k, v). set_meta k v) (drop (length (sv_meta before)) (sv_meta after)) d"

text \<open>The text of an error, as its \<open>Display\<close> gives it, is a parameter.\<close>

definition index_pass ::
  "Hasher \<Rightarrow> Machine \<Rightarrow> (AppError \<Rightarrow> string) \<Rightarrow> SupEvent list \<Rightarrow> string \<Rightarrow> string \<Rightarrow> string \<Rightarrow> Db \<Rightarrow>
     (AppError + IndexStats) \<times> Supervisor option \<times> Db" where
  "index_pass H m show_error meanwhile language root_uri servers_dir d =
     (if adapter_for_language (ma_env m) language = None
      then (Inl (Failed (''no built-in adapter for language '' @ language)), None, d)
      else (case handle_acquire (factory_attempt m language servers_dir root_uri)
                   (spawn_supervisor language default_real 0) of
        (Inl e, sv) \<Rightarrow> (Inl (Failed (''acquire LSP client for '' @ language)),
          Some (snd (sup_event HandlesDropped sv)), d)
      | (Inr client, sv) \<Rightarrow>
          (let sv' = fold sup_turn meanwhile sv in
           case index_repository H (ma_env m) (ma_walker m) (ma_fetcher m client language) root_uri language d of
             (Inr stats, d') \<Rightarrow> (Inr stats, Some (snd (sup_event Shutdown sv')), d')
           | (Inl e, d') \<Rightarrow> (Inl e, Some (snd (sup_event Shutdown
               (snd (sup_event (ReportFailure (failure_kind_from (show_error e))) sv')))), d'))))"

text \<open>
  The metadata the supervisor writes beside the pass has keys of its own, so it is put into the table
  at the end.
\<close>

definition index_language ::
  "Hasher \<Rightarrow> Machine \<Rightarrow> (AppError \<Rightarrow> string) \<Rightarrow> SupEvent list \<Rightarrow> string \<Rightarrow> string \<Rightarrow> string \<Rightarrow> Db \<Rightarrow>
     (AppError + IndexStats) \<times> Supervisor option \<times> Db" where
  "index_language H m show_error meanwhile language root_uri servers_dir d =
     (case index_pass H m show_error meanwhile language root_uri servers_dir d of
        (r, None, d') \<Rightarrow> (r, None, d')
      | (r, Some sv, d') \<Rightarrow> (r, Some sv, flush_meta (spawn_supervisor language default_real 0) sv d'))"

lemma wf_flush_meta: "wf_db d \<Longrightarrow> wf_db (flush_meta a b d)"
proof -
  have "wf_db d \<Longrightarrow> wf_db (fold (\<lambda>(k, v). set_meta k v) kvs d)" for kvs
    by (induction kvs arbitrary: d) (auto intro: set_meta_wf)
  then show "wf_db d \<Longrightarrow> wf_db (flush_meta a b d)" by (simp add: flush_meta_def)
qed

section \<open>Teardown\<close>

definition in_flight :: "SupEvent \<Rightarrow> bool" where
  "in_flight e \<longleftrightarrow> e \<noteq> Shutdown \<and> e \<noteq> HandlesDropped"

lemma attempt_running [simp]: "sv_running (snd (attempt_start a s)) = sv_running s"
  by (simp add: attempt_start_def Let_def transition_after_anomaly_def set_healthy_def record_state_def
      drop_current_def drop_current_gracefully_def split: sum.split StartError.split)

lemma anomaly_running [simp]: "sv_running (transition_after_anomaly s) = sv_running s"
  by (simp add: transition_after_anomaly_def Let_def record_state_def drop_current_gracefully_def)

lemma acquire_running [simp]: "sv_running (snd (handle_acquire a s)) = sv_running s"
  by (cases "sv_state s")
    (simp_all add: handle_acquire_def start_and_settle_snd record_state_def split: option.split)

lemma sup_turn_running:
  assumes "in_flight e"
  shows "sv_running (sup_turn e s) = sv_running s"
  using assms
  by (cases e) (auto simp: in_flight_def on_restart_timer_def case_prod_beta split: option.split)

lemma sup_turn_inv:
  assumes "sup_inv s" and "sv_running s"
  shows "sup_inv (sup_turn e s)"
proof (cases e)
  case ExitSeen
  with assms show ?thesis using sup_step_inv [OF sup_step.exit [of s]] by (cases "sv_exit s") auto
next
  case (TimerFired a)
  show ?thesis
  proof (cases "sv_timer s")
    case None
    with TimerFired assms show ?thesis by simp
  next
    case (Some t)
    have "sup_inv (snd (sup_event (TimerFired a) (s\<lparr>sv_clock := max (sv_clock s) t\<rparr>)))"
      by (rule timer_inv [OF tick_inv [OF assms(1)], of _ t]) (simp_all add: assms Some)
    with TimerFired Some show ?thesis by simp
  qed
next
  case (Acquire a)
  with assms show ?thesis using sup_step_inv [OF sup_step.message [of s e]] by simp
next
  case (ReportFailure k)
  with assms show ?thesis using sup_step_inv [OF sup_step.message [of s e]] by simp
next
  case Shutdown
  with assms show ?thesis using sup_step_inv [OF sup_step.message [of s e]] by simp
next
  case HandlesDropped
  with assms show ?thesis using sup_step_inv [OF sup_step.message [of s e]] by simp
qed

lemma drive_inv:
  assumes "sup_inv s" and "sv_running s" and "\<forall>e \<in> set es. in_flight e"
  shows "sup_inv (fold sup_turn es s) \<and> sv_running (fold sup_turn es s)"
  using assms by (induction es arbitrary: s) (simp_all add: sup_turn_inv sup_turn_running)

text \<open>What is left of a supervisor that was stopped.\<close>

definition reaped :: "Supervisor \<Rightarrow> bool" where
  "reaped s \<longleftrightarrow> \<not> sv_running s \<and> sv_started s = sv_released s \<and> sv_timer s = None"

lemma reaped_stop:
  assumes "sup_inv s"
  shows "reaped ((shutdown_graceful s)\<lparr>sv_running := False\<rparr>)"
proof -
  have "sup_inv ((shutdown_graceful s)\<lparr>sv_running := False\<rparr>)" using assms by (rule stop_inv)
  then show ?thesis by (simp add: reaped_def sup_inv_def [of "_ \<lparr>sv_running := False\<rparr>"] owned_def holds_nothing_def)
qed

lemma index_pass_reaps:
  assumes "index_pass H m show_error meanwhile language root_uri servers_dir d = (r, sv, d')"
    and "wf_db d" and "\<forall>e \<in> set meanwhile. in_flight e"
  shows "wf_db d' \<and> (case sv of None \<Rightarrow> adapter_for_language (ma_env m) language = None \<and> d' = d
      | Some s \<Rightarrow> reaped s) \<and>
    (\<forall>e. r = Inl e \<longrightarrow> (\<exists>x. e = DbFailed x) \<or> e = Failed (''no built-in adapter for language '' @ language) \<or>
       e = Failed (''acquire LSP client for '' @ language) \<or>
       (\<exists>msg. e = Failed msg \<and> discover_files (ma_env m) (ma_walker m (uri_to_path root_uri)) = Inl msg))"
proof (cases "adapter_for_language (ma_env m) language")
  case None
  with assms show ?thesis by (auto simp: index_pass_def)
next
  case (Some adapter)
  let ?s0 = "spawn_supervisor language default_real 0"
  obtain q s where acq: "handle_acquire (factory_attempt m language servers_dir root_uri) ?s0 = (q, s)" by force
  have run0: "sv_running ?s0" by (simp add: spawn_supervisor_def)
  have s: "sup_inv s" "sv_running s"
    using acquire_inv [OF spawn_inv run0, of "factory_attempt m language servers_dir root_uri"]
      acquire_running [of "factory_attempt m language servers_dir root_uri" ?s0] acq run0
    by simp_all
  show ?thesis
  proof (cases q)
    case (Inl e)
    with assms(1) Some acq have "sv = Some ((shutdown_graceful s)\<lparr>sv_running := False\<rparr>)" "d' = d"
      "r = Inl (Failed (''acquire LSP client for '' @ language))"
      by (simp_all add: index_pass_def)
    with reaped_stop [OF s(1)] assms(2) show ?thesis by simp
  next
    case (Inr client)
    let ?sv = "fold sup_turn meanwhile s"
    have drv: "sup_inv ?sv" "sv_running ?sv" using drive_inv [OF s assms(3)] by blast+
    have told: "sup_inv (snd (sup_event (ReportFailure k) ?sv))" for k
      by (rule sup_step_inv [OF sup_step.message drv(1)]) (simp_all add: drv(2))
    obtain ir d1 where ix: "index_repository H (ma_env m) (ma_walker m) (ma_fetcher m client language) root_uri language d = (ir, d1)"
      by force
    note acc = index_accounts_base [OF assms(2) ix]
    show ?thesis
    proof (cases ir)
      case (Inl e)
      let ?told = "snd (sup_event (ReportFailure (failure_kind_from (show_error e))) ?sv)"
      from Inl assms(1) Some acq \<open>q = Inr client\<close> ix
      have "r = Inl e" "d' = d1" "sv = Some ((shutdown_graceful ?told)\<lparr>sv_running := False\<rparr>)"
        by (simp_all add: index_pass_def Let_def)
      with reaped_stop [OF told] acc Inl show ?thesis by auto
    next
      case (Inr stats)
      with assms(1) Some acq \<open>q = Inr client\<close> ix
      have "r = Inr stats" "d' = d1" "sv = Some ((shutdown_graceful ?sv)\<lparr>sv_running := False\<rparr>)"
        by (simp_all add: index_pass_def Let_def)
      with reaped_stop [OF drv(1)] acc show ?thesis by auto
    qed
  qed
qed

lemma index_language_reaps:
  assumes "index_language H m show_error meanwhile language root_uri servers_dir d = (r, sv, d')"
    and "wf_db d" and "\<forall>e \<in> set meanwhile. in_flight e"
  shows "wf_db d' \<and> (case sv of None \<Rightarrow> adapter_for_language (ma_env m) language = None \<and> d' = d
      | Some s \<Rightarrow> reaped s) \<and>
    (\<forall>e. r = Inl e \<longrightarrow> (\<exists>x. e = DbFailed x) \<or> e = Failed (''no built-in adapter for language '' @ language) \<or>
       e = Failed (''acquire LSP client for '' @ language) \<or>
       (\<exists>msg. e = Failed msg \<and> discover_files (ma_env m) (ma_walker m (uri_to_path root_uri)) = Inl msg))"
proof -
  obtain r1 sv1 d1 where pass: "index_pass H m show_error meanwhile language root_uri servers_dir d = (r1, sv1, d1)"
    by (metis prod_cases3)
  have "r = r1" "sv = sv1" "d' = (case sv1 of None \<Rightarrow> d1 | Some s \<Rightarrow> flush_meta (spawn_supervisor language default_real 0) s d1)"
    using assms(1) pass by (auto simp: index_language_def split: option.splits)
  with index_pass_reaps [OF pass assms(2,3)] wf_flush_meta show ?thesis by (auto split: option.splits)
qed

text \<open>A one-shot index pass always cleans up after itself, and no trouble of the language server
  aborts it. Whatever the machine does and whatever the supervisor meets meanwhile, the pass
  leaves no supervisor running, every server process it had started has been handed to the
  shutdown escalation, and the tables satisfy their constraints. If it fails, it is for a missing
  adapter, for the acquisition of a client, or for the walk or a database command: the error
  reported to the supervisor as a transport or timeout anomaly is never one of the server.\<close>

theorem index_language_cleans_up:
  assumes "index_language H m show_error meanwhile language root_uri servers_dir d = (r, sv, d')"
    and "wf_db d" and "\<forall>e \<in> set meanwhile. in_flight e"
  shows "wf_db d' \<and> (case sv of None \<Rightarrow> adapter_for_language (ma_env m) language = None \<and> d' = d
      | Some s \<Rightarrow> reaped s) \<and>
    (\<forall>e. r = Inl e \<longrightarrow> (\<exists>x. e = DbFailed x) \<or> e = Failed (''no built-in adapter for language '' @ language) \<or>
       e = Failed (''acquire LSP client for '' @ language) \<or>
       (\<exists>msg. e = Failed msg \<and> discover_files (ma_env m) (ma_walker m (uri_to_path root_uri)) = Inl msg))"
  using assms by (rule index_language_reaps)

definition go_machine :: Machine where
  "go_machine = \<lparr>ma_env = Map.empty, ma_host = bare_host, ma_walker = (\<lambda>_. []), ma_spawn = (\<lambda>_. Inr 7),
     ma_shake = (\<lambda>_ _ _. Inr JNull), ma_fetcher = (\<lambda>_ _ _ _. Inl ''down''), ma_start_secs = 2, ma_now_secs = 0\<rparr>"

lemma go_starts:
  "adapter_for_language Map.empty ''go'' = Some GoAdapter"
  "provision bare_host GoAdapter ''d'' = Inr \<lparr>cs_program = ''gopls'', cs_args = []\<rparr>"
  by (simp_all add: adapter_for_language_def builtin_adapters_def PythonAdapter_def TypeScriptAdapter_def
      RustAdapter_def GoAdapter_def provision_def command_override_from_env_def resolve_program_def
      resolve_binary_def extra_args_from_env_def bare_host_def bindR_def)

theorem index_language_cleans_up_witness:
  "\<exists>s d. index_language const_hasher go_machine (\<lambda>_. []) [ExitSeen] ''go'' ''file:///r/'' ''d'' empty_db =
       (Inr index_stats_default, Some s, d) \<and> reaped s \<and> sv_released s = [7]"
proof -
  let ?a = "\<lparr>at_result = Inr \<lparr>ss_client = 7, ss_keep_alive = True\<rparr>, at_takes = 2, at_now_secs = 0\<rparr>"
  have a: "factory_attempt go_machine ''go'' ''d'' ''file:///r/'' = ?a"
    by (simp add: factory_attempt_def real_start_def go_machine_def go_starts)
  have m: "ma_env go_machine = Map.empty" "ma_walker go_machine = (\<lambda>_. [])" by (simp_all add: go_machine_def)
  have ix: "index_repository const_hasher Map.empty (\<lambda>_. []) f ''file:///r/'' ''go'' empty_db =
      (Inr index_stats_default, empty_db)" for f
    by (simp add: index_repository_def returnQ_def)
  obtain s1 where acq: "handle_acquire ?a (spawn_supervisor ''go'' default_real 0) = (Inr 7, s1)"
    and s1: "sv_exit s1 = Some 7" "sv_keepalive s1 = Some 7" "sv_released s1 = []" "sv_state s1 = Healthy"
    by (simp add: sup_run)
  define s where "s = (shutdown_graceful (transition_after_anomaly s1))\<lparr>sv_running := False\<rparr>"
  have run: "index_language const_hasher go_machine (\<lambda>_. []) [ExitSeen] ''go'' ''file:///r/'' ''d'' empty_db =
       (Inr index_stats_default, Some s, flush_meta (spawn_supervisor ''go'' default_real 0) s empty_db)"
    by (simp add: index_language_def index_pass_def m go_starts a acq ix s1 s_def Let_def)
  have "reaped s"
    using index_language_cleans_up [OF run wf_empty_db] by (simp add: in_flight_def)
  moreover have "sv_released s = [7]"
    using s1 by (simp add: s_def shutdown_graceful_def release_def transition_after_anomaly_def
        drop_current_gracefully_def record_state_def Let_def)
  ultimately show ?thesis using run by blast
qed

end
