(* ===== verification/Runtime.thy ===== *)
theory Runtime
  imports Query_Total Runner "HOL-Library.AList"
begin

text \<open>
  The query-time runtime (\<open>src/query/pool.rs\<close>): the query engine over a pool of supervisors, one
  per language, created when first needed; the cache-first answers with their background
  refreshes; the enrichment of answers with signatures; and the degradations reported with them.
\<close>

section \<open>Degradations\<close>

datatype DegradeReason = LspUnavailable | LspTimeout

datatype LspStatus = StatusDown | StatusDegraded

record Degradation =
  dg_reason :: DegradeReason
  dg_status :: LspStatus

definition degradation_from :: "AcquireError \<Rightarrow> Degradation" where
  "degradation_from e = \<lparr>dg_reason = LspUnavailable, dg_status =
     (case e of DownError why \<Rightarrow> StatusDown | RestartingError \<Rightarrow> StatusDegraded | StartFailed why \<Rightarrow> StatusDegraded)\<rparr>"

definition timeout_degradation :: "bool \<Rightarrow> Degradation option" where
  "timeout_degradation timed_out =
     (if timed_out then Some \<lparr>dg_reason = LspTimeout, dg_status = StatusDegraded\<rparr> else None)"

text \<open>\<open>Option::or\<close>.\<close>

definition or_else :: "'a option \<Rightarrow> 'a option \<Rightarrow> 'a option" where
  "or_else x y = (case x of Some a \<Rightarrow> Some a | None \<Rightarrow> y)"

section \<open>The runtime\<close>

datatype RefreshKind = RefreshCalls Direction | RefreshReferences

text \<open>A spawned refresh that has not finished.\<close>

record Refresh =
  rf_anchor_id :: int
  rf_edge_type :: string
  rf_kind :: RefreshKind
  rf_anchor :: Node
  rf_language :: string
  rf_client :: nat

text \<open>
  What the runtime is built from: the engine, the environment the adapters are read from, what an
  attempt to start the server of a language yields (given the supervisor as it stands), and the
  query client over a server's connection.
\<close>

record QueryRuntime =
  qr_engine :: QueryEngine
  qr_env :: Env
  qr_attempt :: "string \<Rightarrow> Supervisor \<Rightarrow> Attempt"
  qr_client :: "string \<Rightarrow> nat \<Rightarrow> LspQueryClient"

text \<open>
  Its state. The pool is a hash map in the code, whose order of iteration is unspecified; here it
  is kept in the order of creation. \<open>rt_retired\<close> keeps the supervisors that were shut down and
  taken out of the pool.
\<close>

record Runtime =
  rt_world :: World
  rt_pool :: "(string \<times> Supervisor) list"
  rt_refreshing :: "(int \<times> string) list"
  rt_tasks :: "Refresh list"
  rt_active :: nat
  rt_retired :: "Supervisor list"

definition open_runtime :: "World \<Rightarrow> Runtime" where
  "open_runtime w = \<lparr>rt_world = w, rt_pool = [], rt_refreshing = [], rt_tasks = [], rt_active = 0, rt_retired = []\<rparr>"

type_synonym 'a runtime = "(AppError, 'a, Runtime) qm"

definition on_world :: "'a query \<Rightarrow> 'a runtime" where
  "on_world m = (\<lambda>r. case m (rt_world r) of (x, w) \<Rightarrow> (x, r\<lparr>rt_world := w\<rparr>))"

text \<open>The query-activity gate, held for the body of a query.\<close>

definition enter_query :: "'a runtime \<Rightarrow> 'a runtime" where
  "enter_query m = (\<lambda>r. case m (r\<lparr>rt_active := rt_active r + 1\<rparr>) of
     (x, r') \<Rightarrow> (x, r'\<lparr>rt_active := rt_active r' - 1\<rparr>))"

definition supervisor_for :: "Runtime \<Rightarrow> string \<Rightarrow> Supervisor" where
  "supervisor_for r language =
     (case map_of (rt_pool r) language of Some s \<Rightarrow> s | None \<Rightarrow> spawn_supervisor language default_real 0)"

text \<open>A supervisor of the pool moves on.\<close>

definition put_supervisor :: "string \<Rightarrow> Supervisor \<Rightarrow> Runtime \<Rightarrow> Runtime" where
  "put_supervisor language s r = r\<lparr>rt_pool := AList.update language s (rt_pool r),
     rt_world := (rt_world r)\<lparr>w_db := flush_meta (supervisor_for r language) s (w_db (rt_world r))\<rparr>\<rparr>"

definition acquire_opt :: "QueryRuntime \<Rightarrow> string option \<Rightarrow> (Degradation + (string \<times> nat) option) runtime" where
  "acquire_opt qr lang = (case lang of
      None \<Rightarrow> returnQ (Inr None)
    | Some l \<Rightarrow> (\<lambda>r.
        let s = supervisor_for r l; (q, s') = acquire (qr_attempt qr l s) s
        in (Inr (case q of Inl e \<Rightarrow> Inl (degradation_from e) | Inr c \<Rightarrow> Inr (Some (l, c))), put_supervisor l s' r)))"

text \<open>The outcome as a client, if any, and a degradation, if any.\<close>

definition split_acquired :: "Degradation + (string \<times> nat) option \<Rightarrow> (string \<times> nat) option \<times> Degradation option" where
  "split_acquired q = (case q of Inr c \<Rightarrow> (c, None) | Inl d \<Rightarrow> (None, Some d))"

definition language_at :: "QueryRuntime \<Rightarrow> string \<Rightarrow> string option" where
  "language_at qr u = map_option ad_language_name (select_for_uri (qr_env qr) u)"

definition client_for :: "QueryRuntime \<Rightarrow> SymbolRef \<Rightarrow> ((string \<times> nat) option \<times> Degradation option) runtime" where
  "client_for qr symref = bindQ
     (case symref of
        At u l k \<Rightarrow> returnQ (language_at qr u)
      | Fqn f \<Rightarrow> on_world (on_db (db_read (\<lambda>d. map_option n_language (get_node_by_fqn d f)))))
     (\<lambda>lang. bindQ (acquire_opt qr lang) (\<lambda>q. returnQ (split_acquired q)))"

definition wrapper :: "QueryRuntime \<Rightarrow> (string \<times> nat) option \<Rightarrow> LspQueryClient option" where
  "wrapper qr client = map_option (\<lambda>(l, c). qr_client qr l c) client"

section \<open>Background refreshes\<close>

text \<open>A refresh is spawned unless one is in flight for its anchor and relation.\<close>

definition spawn_refresh :: "int \<Rightarrow> string \<Rightarrow> RefreshKind \<Rightarrow> Node \<Rightarrow> string \<times> nat \<Rightarrow> bool runtime" where
  "spawn_refresh i edge_type kind anchor client = (\<lambda>r. (Inr True,
     if (i, edge_type) \<in> set (rt_refreshing r) then r
     else r\<lparr>rt_refreshing := (i, edge_type) # rt_refreshing r,
            rt_tasks := \<lparr>rf_anchor_id = i, rf_edge_type = edge_type, rf_kind = kind, rf_anchor = anchor,
              rf_language = fst client, rf_client = snd client\<rparr> # rt_tasks r\<rparr>))"

definition refresh_work :: "QueryRuntime \<Rightarrow> Refresh \<Rightarrow> bool query" where
  "refresh_work qr t = (let c = qr_client qr (rf_language t) (rf_client t) in
     case rf_kind t of
       RefreshCalls dir \<Rightarrow> materialize_call_edges (qr_engine qr) c (rf_anchor_id t) (rf_anchor t) dir
     | RefreshReferences \<Rightarrow> materialize_references (qr_engine qr) c (rf_anchor_id t) (rf_anchor t))"

text \<open>The body of a spawned task: an error is only logged, and the key is released either way.\<close>

definition run_refresh :: "QueryRuntime \<Rightarrow> Refresh \<Rightarrow> Runtime \<Rightarrow> Runtime" where
  "run_refresh qr t r = r\<lparr>rt_world := snd (refresh_work qr t (rt_world r)),
     rt_refreshing := removeAll (rf_anchor_id t, rf_edge_type t) (rt_refreshing r), rt_tasks := remove1 t (rt_tasks r)\<rparr>"

section \<open>Signatures\<close>

text \<open>\<open>backfill_signatures\<close>: \<open>opened\<close> are the documents opened so far.\<close>

definition hover_signature :: "QueryError + Hover option \<Rightarrow> string option" where
  "hover_signature h = (case h of
      Inr (Some hover) \<Rightarrow> (let s = trim_str (ho_value hover) in if s = [] then None else Some s)
    | _ \<Rightarrow> None)"

definition backfill_one :: "QueryEngine \<Rightarrow> LspQueryClient \<Rightarrow> string list \<Rightarrow> NodeDto \<Rightarrow> NodeDto query" where
  "backfill_one qe c opened n =
     bindQ (if nd_uri n \<in> set opened then returnQ () else ensure_open qe c (nd_uri n)) (\<lambda>_.
       let p = r_start (nd_selection_range n) in
       bindQ (ask (AskHover (nd_uri n) (p_line p) (p_character p)) (qc_hover c (nd_uri n) (p_line p) (p_character p))) (\<lambda>h.
         case hover_signature h of
           None \<Rightarrow> returnQ n
         | Some s \<Rightarrow> bindQ (on_db (db_update (update_node_signature_by_fqn (nd_fqn n) s)))
             (\<lambda>_. returnQ (n\<lparr>nd_signature := Some s\<rparr>))))"

fun backfill_signatures :: "QueryEngine \<Rightarrow> string \<Rightarrow> LspQueryClient \<Rightarrow> string list \<Rightarrow> NodeDto list \<Rightarrow> (NodeDto list) query" where
  "backfill_signatures qe language c opened [] = returnQ []"
| "backfill_signatures qe language c opened (n # ns) =
     (if nd_signature n \<noteq> None \<or> nd_language n \<noteq> language
      then bindQ (backfill_signatures qe language c opened ns) (\<lambda>rest. returnQ (n # rest))
      else bindQ (backfill_one qe c opened n) (\<lambda>n'.
        bindQ (backfill_signatures qe language c (nd_uri n # opened) ns) (\<lambda>rest. returnQ (n' # rest))))"

text \<open>One language after the other; a hash set in the code, so in an unspecified order.\<close>

fun backfill_languages :: "QueryRuntime \<Rightarrow> string list \<Rightarrow> NodeDto list \<Rightarrow> (NodeDto list) runtime" where
  "backfill_languages qr [] nodes = returnQ nodes"
| "backfill_languages qr (l # ls) nodes = bindQ (acquire_opt qr (Some l)) (\<lambda>q.
     case q of
       Inr (Some (lang, c)) \<Rightarrow>
         bindQ (on_world (backfill_signatures (qr_engine qr) lang (qr_client qr lang c) [] nodes)) (backfill_languages qr ls)
     | _ \<Rightarrow> backfill_languages qr ls nodes)"

definition backfill_signatures_by_language :: "QueryRuntime \<Rightarrow> NodeDto list \<Rightarrow> (NodeDto list) runtime" where
  "backfill_signatures_by_language qr nodes =
     backfill_languages qr (remdups (map nd_language (filter (\<lambda>n. nd_signature n = None) nodes))) nodes"

text \<open>The nodes of a call-graph page, enriched in place.\<close>

definition backfill_calls :: "QueryRuntime \<Rightarrow> bool \<Rightarrow> string \<times> nat \<Rightarrow> CallGraphResult \<Rightarrow> CallGraphResult query" where
  "backfill_calls qr with_signature client res =
     (if with_signature
      then bindQ (backfill_signatures (qr_engine qr) (fst client) (qr_client qr (fst client) (snd client)) [] (map cg_node (cr_items res)))
        (\<lambda>ns. returnQ (res\<lparr>cr_items := map (\<lambda>(i, n). i\<lparr>cg_node := n\<rparr>) (zip (cr_items res) ns)\<rparr>))
      else returnQ res)"

section \<open>The operations\<close>

record FindSymbolOptions =
  so_brief :: bool
  so_with_signature :: bool

definition rt_find_symbol :: "QueryRuntime \<Rightarrow> string \<Rightarrow> MatchMode \<Rightarrow> bool \<Rightarrow> FindSymbolOptions \<Rightarrow> Filter \<Rightarrow> Page \<Rightarrow> FindSymbolResult runtime" where
  "rt_find_symbol qr pattern mode ignore_case opts filt page =
     bindQ (on_world (find_symbol (qr_engine qr) pattern mode ignore_case (so_brief opts) filt page)) (\<lambda>res.
       if so_with_signature opts
       then bindQ (backfill_signatures_by_language qr (fs_nodes res)) (\<lambda>ns. returnQ (res\<lparr>fs_nodes := ns\<rparr>))
       else returnQ res)"

definition rt_read_range :: "QueryRuntime \<Rightarrow> string \<Rightarrow> u32 \<Rightarrow> u32 \<Rightarrow> ReadRangeResult runtime" where
  "rt_read_range qr u first past = on_world (read_range (qr_engine qr) u first past)"

definition definition_body :: "QueryRuntime \<Rightarrow> SymbolRef \<Rightarrow> (FindDefinitionResult \<times> Degradation option) runtime" where
  "definition_body qr symref =
     bindQ (acquire_opt qr (case symref of Fqn f \<Rightarrow> None | At u l k \<Rightarrow> language_at qr u)) (\<lambda>q.
       let (client, degradation) = split_acquired q in
       bindQ (on_world (find_definition (qr_engine qr) symref (wrapper qr client))) (\<lambda>(res, timed_out).
         returnQ (res, or_else degradation (timeout_degradation timed_out))))"

definition rt_find_definition :: "QueryRuntime \<Rightarrow> SymbolRef \<Rightarrow> (FindDefinitionResult \<times> Degradation option) runtime" where
  "rt_find_definition qr symref = (case symref of
      Fqn f \<Rightarrow> definition_body qr symref
    | At u l k \<Rightarrow> enter_query (definition_body qr symref))"

text \<open>
  \<open>find_references\<close> and \<open>find_callers\<close> have one shape: resolve the anchor; without a client read
  the cache; with one, materialize a cold anchor first, and refresh in the background. They
  differ in the relation, its reader, the answer without an anchor and the enrichment.
\<close>

record 'r Relation =
  rl_edge_type :: string
  rl_kind :: RefreshKind
  rl_none :: "string list \<Rightarrow> 'r"
  rl_read :: "int \<Rightarrow> 'r query"
  rl_enrich :: "string \<times> nat \<Rightarrow> 'r \<Rightarrow> 'r query"

definition refresh_of :: "'r Relation \<Rightarrow> int \<Rightarrow> Node \<Rightarrow> string \<times> nat \<Rightarrow> Refresh" where
  "refresh_of rl i anchor client = \<lparr>rf_anchor_id = i, rf_edge_type = rl_edge_type rl, rf_kind = rl_kind rl,
     rf_anchor = anchor, rf_language = fst client, rf_client = snd client\<rparr>"

definition cold_answer :: "QueryRuntime \<Rightarrow> 'r Relation \<Rightarrow> int \<Rightarrow> Node \<Rightarrow> string \<times> nat \<Rightarrow> bool \<Rightarrow> ('r \<times> Degradation option \<times> bool) runtime" where
  "cold_answer qr rl i anchor client timed_out =
     bindQ (on_world (refresh_work qr (refresh_of rl i anchor client))) (\<lambda>t.
       bindQ (on_world (on_db (db_write_unit (mark_materialized i (rl_edge_type rl))))) (\<lambda>_.
         bindQ (on_world (rl_read rl i)) (\<lambda>res.
           bindQ (on_world (rl_enrich rl client res)) (\<lambda>res'.
             bindQ (spawn_refresh i (rl_edge_type rl) (rl_kind rl) anchor client) (\<lambda>_.
               returnQ (res', timeout_degradation (timed_out \<or> t), True))))))"

definition warm_answer :: "'r Relation \<Rightarrow> int \<Rightarrow> Node \<Rightarrow> string \<times> nat \<Rightarrow> bool \<Rightarrow> ('r \<times> Degradation option \<times> bool) runtime" where
  "warm_answer rl i anchor client timed_out =
     bindQ (on_world (rl_read rl i)) (\<lambda>res.
       bindQ (on_world (rl_enrich rl client res)) (\<lambda>res'.
         bindQ (spawn_refresh i (rl_edge_type rl) (rl_kind rl) anchor client) (\<lambda>refreshing.
           returnQ (res', timeout_degradation timed_out, refreshing))))"

definition live_answer :: "QueryRuntime \<Rightarrow> 'r Relation \<Rightarrow> int \<Rightarrow> Node \<Rightarrow> string \<times> nat \<Rightarrow> bool \<Rightarrow> ('r \<times> Degradation option \<times> bool) runtime" where
  "live_answer qr rl i anchor client timed_out =
     bindQ (on_world (ensure_open (qr_engine qr) (qr_client qr (fst client) (snd client)) (n_uri anchor))) (\<lambda>_.
       bindQ (on_world (on_db (db_read (\<lambda>d. is_materialized d i (rl_edge_type rl))))) (\<lambda>warm.
         if warm then warm_answer rl i anchor client timed_out else cold_answer qr rl i anchor client timed_out))"

definition anchored_answer :: "QueryRuntime \<Rightarrow> 'r Relation \<Rightarrow> SymbolRef \<Rightarrow> (string \<times> nat) option \<times> Degradation option \<Rightarrow> ('r \<times> Degradation option \<times> bool) runtime" where
  "anchored_answer qr rl symref acquired = (case acquired of (client, degradation) \<Rightarrow>
     bindQ (on_world (resolve_anchor_id (qr_engine qr) symref (wrapper qr client))) (\<lambda>(a, timed_out).
       case a of
         None \<Rightarrow> bindQ (on_world (hint_fqns_for_symref (qr_engine qr) symref)) (\<lambda>hints.
           returnQ (rl_none rl hints, or_else degradation (timeout_degradation timed_out), False))
       | Some (i, anchor) \<Rightarrow> (case client of
           None \<Rightarrow> bindQ (on_world (rl_read rl i)) (\<lambda>res. returnQ (res, degradation, False))
         | Some c \<Rightarrow> live_answer qr rl i anchor c timed_out)))"

definition cache_first :: "QueryRuntime \<Rightarrow> 'r Relation \<Rightarrow> SymbolRef \<Rightarrow> ('r \<times> Degradation option \<times> bool) runtime" where
  "cache_first qr rl symref = enter_query (bindQ (client_for qr symref) (anchored_answer qr rl symref))"

definition references_relation :: "QueryRuntime \<Rightarrow> Filter \<Rightarrow> Page \<Rightarrow> FindReferencesResult Relation" where
  "references_relation qr filt page = \<lparr>rl_edge_type = ''references'', rl_kind = RefreshReferences,
     rl_none = (\<lambda>hints. \<lparr>fr_references = [], fr_next_cursor = None, fr_hint_fqns = hints\<rparr>),
     rl_read = (\<lambda>i. references_from_cache (qr_engine qr) i filt page), rl_enrich = (\<lambda>c res. returnQ res)\<rparr>"

definition callers_relation :: "QueryRuntime \<Rightarrow> Filter \<Rightarrow> Page \<Rightarrow> bool \<Rightarrow> CallGraphResult Relation" where
  "callers_relation qr filt page with_signature = \<lparr>rl_edge_type = ''calls'', rl_kind = RefreshCalls Incoming,
     rl_none = (\<lambda>hints. \<lparr>cr_items = [], cr_next_cursor = None, cr_hint_fqns = hints\<rparr>),
     rl_read = (\<lambda>i. callers_from_cache (qr_engine qr) i filt page), rl_enrich = backfill_calls qr with_signature\<rparr>"

definition rt_find_references :: "QueryRuntime \<Rightarrow> SymbolRef \<Rightarrow> Filter \<Rightarrow> Page \<Rightarrow> (FindReferencesResult \<times> Degradation option \<times> bool) runtime" where
  "rt_find_references qr symref filt page = cache_first qr (references_relation qr filt page) symref"

definition rt_find_callers :: "QueryRuntime \<Rightarrow> SymbolRef \<Rightarrow> Filter \<Rightarrow> Page \<Rightarrow> bool \<Rightarrow> (CallGraphResult \<times> Degradation option \<times> bool) runtime" where
  "rt_find_callers qr symref filt page with_signature = cache_first qr (callers_relation qr filt page with_signature) symref"

definition rt_find_callees :: "QueryRuntime \<Rightarrow> SymbolRef \<Rightarrow> Filter \<Rightarrow> Page \<Rightarrow> bool \<Rightarrow> (CallGraphResult \<times> Degradation option) runtime" where
  "rt_find_callees qr symref filt page with_signature = enter_query (bindQ (client_for qr symref) (\<lambda>(client, degradation).
     bindQ (on_world (find_callees (qr_engine qr) symref filt page (wrapper qr client))) (\<lambda>(res, timed_out).
       bindQ (case client of None \<Rightarrow> returnQ res | Some c \<Rightarrow> on_world (backfill_calls qr with_signature c res)) (\<lambda>res'.
         returnQ (res', or_else degradation (timeout_degradation timed_out))))))"

definition rt_find_call_path :: "QueryRuntime \<Rightarrow> SymbolRef \<Rightarrow> SymbolRef \<Rightarrow> nat \<Rightarrow> nat \<Rightarrow> ((FindCallPathResult \<times> Degradation option) option) runtime" where
  "rt_find_call_path qr from_ref to_ref max_depth max_lsp_calls = enter_query (bindQ (client_for qr from_ref) (\<lambda>(client, degradation).
     bindQ (on_world (find_call_path (qr_engine qr) from_ref to_ref max_depth max_lsp_calls (wrapper qr client))) (\<lambda>x.
       returnQ (map_option (\<lambda>(res, timed_out). (res, or_else degradation (timeout_degradation timed_out))) x))))"

section \<open>Maintenance\<close>

definition shutdown_all :: "Runtime \<Rightarrow> Runtime" where
  "shutdown_all r = r\<lparr>rt_pool := map (\<lambda>(l, s). (l, shutdown s)) (rt_pool r)\<rparr>"

definition taken :: "string option \<Rightarrow> (string \<times> Supervisor) list \<Rightarrow> (string \<times> Supervisor) list" where
  "taken language pool = (case language of None \<Rightarrow> pool | Some l \<Rightarrow> filter (\<lambda>p. fst p = l) pool)"

definition restart_language :: "string option \<Rightarrow> Runtime \<Rightarrow> string list \<times> Runtime" where
  "restart_language language r =
     (map fst (taken language (rt_pool r)),
      r\<lparr>rt_pool := (case language of None \<Rightarrow> [] | Some l \<Rightarrow> filter (\<lambda>p. fst p \<noteq> l) (rt_pool r)),
        rt_retired := map (\<lambda>p. shutdown (snd p)) (taken language (rt_pool r)) @ rt_retired r\<rparr>)"

definition acquire_for_watcher :: "QueryRuntime \<Rightarrow> string \<Rightarrow> ((string \<times> nat) option) runtime" where
  "acquire_for_watcher qr language = bindQ (acquire_opt qr (Some language)) (\<lambda>q.
     returnQ (case q of Inl d \<Rightarrow> None | Inr c \<Rightarrow> c))"

text \<open>One turn of the supervisor of a language between two operations.\<close>

definition wake_supervisor :: "string \<Rightarrow> SupEvent \<Rightarrow> Runtime \<Rightarrow> Runtime" where
  "wake_supervisor l e r = (case map_of (rt_pool r) l of
      None \<Rightarrow> r
    | Some s \<Rightarrow> if sv_running s then put_supervisor l (sup_turn e s) r else r)"

end
