(* ===== verification/Runtime_Inv.thy ===== *)
theory Runtime_Inv
  imports Runtime
begin

text \<open>
  The invariant of the runtime: the store stays consistent, the pool holds one well-behaved
  supervisor per language, no server process escapes, and at most one refresh is in flight for an
  anchor and a relation.
\<close>

section \<open>Queries keep the store consistent\<close>

definition wf_world :: "World \<Rightarrow> bool" where
  "wf_world w \<longleftrightarrow> wf_db (w_db w)"

lemma keeps_ask [keeps]: "keepsQ wf_world (ask a f)"
  by (simp add: keepsQ_def ask_def wf_world_def)

lemma keeps_on_db [keeps]: "keepsQ wf_db m \<Longrightarrow> keepsQ wf_world (on_db m)"
  by (fastforce simp: keepsQ_def on_db_def wf_world_def split: prod.splits)

lemma keepsQ_list [keeps]:
  "keepsQ P a \<Longrightarrow> (\<And>y ys. keepsQ P (f y ys)) \<Longrightarrow> keepsQ P (case z of [] \<Rightarrow> a | y # ys \<Rightarrow> f y ys)"
  by (cases z) simp_all

lemma keepsQ_direction [keeps]:
  "keepsQ P a \<Longrightarrow> keepsQ P b \<Longrightarrow> keepsQ P (case dir of Incoming \<Rightarrow> a | Outgoing \<Rightarrow> b)"
  by (cases dir) simp_all

lemma keepsQ_symref [keeps]:
  "(\<And>f. keepsQ P (a f)) \<Longrightarrow> (\<And>u l k. keepsQ P (b u l k)) \<Longrightarrow>
     keepsQ P (case r of Fqn f \<Rightarrow> a f | At u l k \<Rightarrow> b u l k)"
  by (cases r) simp_all

lemma keeps_documents [keeps]:
  "keepsQ wf_world (confine qe u)" "keepsQ wf_world (read_file_text qe u)" "keepsQ wf_world (ensure_open qe c u)"
  "keepsQ wf_world (open_text c u t)" "keepsQ wf_world (put_edge e)" "keepsQ wf_world (node_at qe u p)"
  "keepsQ wf_world (node_of_location qe l)" "keepsQ wf_world (neighbors_of qe i ty dir)"
  "keepsQ wf_world (cached_hash i)" "keepsQ wf_world (store_hash i h)" "keepsQ wf_world node_count"
proof -
  show confine: "keepsQ wf_world (confine qe u)" for u
    unfolding confine_def canonicalize_def Let_def by (intro keeps)
  show read: "keepsQ wf_world (read_file_text qe u)" for u
    unfolding read_file_text_def read_path_def by (intro keeps confine)
  show "keepsQ wf_world (ensure_open qe c u)"
    unfolding ensure_open_def open_document_def by (intro keeps read)
  show "keepsQ wf_world (open_text c u t)"
    unfolding open_text_def open_document_def by (intro keeps)
  show "keepsQ wf_world (put_edge e)" unfolding put_edge_def by (intro keeps)
  show "keepsQ wf_world (node_at qe u p)" unfolding node_at_def by (intro keeps)
  show "keepsQ wf_world (node_of_location qe l)" unfolding node_of_location_def node_at_def by (intro keeps)
  show "keepsQ wf_world (neighbors_of qe i ty dir)" unfolding neighbors_of_def by (intro keeps)
  show "keepsQ wf_world (cached_hash i)" unfolding cached_hash_def by (intro keeps)
  show "keepsQ wf_world (store_hash i h)" unfolding store_hash_def by (intro keeps)
  show "keepsQ wf_world node_count" unfolding node_count_def by (intro keeps)
qed

lemma keeps_with_row [keeps]:
  "keepsQ wf_world m \<Longrightarrow> (\<And>n i. keepsQ wf_world (f n i)) \<Longrightarrow> keepsQ wf_world (with_row m f)"
  unfolding with_row_def by (intro keeps)

lemma keeps_anchor [keeps]: "keepsQ wf_world (resolve_anchor_id qe symref client)"
proof -
  have first: "keepsQ wf_world (first_indexed qe ls)" for ls
    by (induction ls) (auto intro!: keeps)
  have "keepsQ wf_world (definition_anchor qe c u l k)" for c u l k
    unfolding definition_anchor_def Let_def by (intro keeps first)
  then show ?thesis unfolding resolve_anchor_id_def by (intro keeps)
qed

lemma keeps_materialize [keeps]:
  "keepsQ wf_world (materialize_references qe c i anchor)" "keepsQ wf_world (materialize_call_edges qe c i anchor dir)"
proof -
  show "keepsQ wf_world (materialize_references qe c i anchor)"
    unfolding materialize_references_def Let_def by (intro keeps)
  have edges: "keepsQ wf_world (call_edges_from u a b rs)" for u a b rs
    unfolding call_edges_from_def by (intro keeps)
  have inc: "keepsQ wf_world (materialize_incoming qe c i item)" for item
    unfolding materialize_incoming_def caller_of_def Let_def by (intro keeps edges)
  have "keepsQ wf_world (resolve_outgoing_callee qe c n m j)" for n m j
    unfolding resolve_outgoing_callee_def is_interface_row_def concrete_of_def Let_def by (intro keeps)
  then have "keepsQ wf_world (materialize_outgoing_call qe c i anchor call b)" for call b
    unfolding materialize_outgoing_call_def by (intro keeps edges)
  then have "keepsQ wf_world (materialize_outgoing qe c i anchor item)" for item
    unfolding materialize_outgoing_def Let_def by (intro keeps)
  with inc show "keepsQ wf_world (materialize_call_edges qe c i anchor dir)"
    unfolding materialize_call_edges_def Let_def by (intro keeps)
qed

lemma keeps_pages [keeps]:
  "keepsQ wf_world (references_from_cache qe i filt page)" "keepsQ wf_world (read_calls_page qe i dir filt page)"
  "keepsQ wf_world (hint_fqns_for_symref qe symref)" "keepsQ wf_world (hint_if_missing qe symref b)"
proof -
  show "keepsQ wf_world (references_from_cache qe i filt page)" "keepsQ wf_world (read_calls_page qe i dir filt page)"
    unfolding references_from_cache_def read_calls_page_def Let_def by (intro keeps)+
  show h: "keepsQ wf_world (hint_fqns_for_symref qe symref)"
    unfolding hint_fqns_for_symref_def hint_fqns_for_def Let_def by (intro keeps)
  show "keepsQ wf_world (hint_if_missing qe symref b)" unfolding hint_if_missing_def by (intro keeps h)
qed

lemma keeps_operations [keeps]:
  "keepsQ wf_world (find_symbol qe pattern mode ic brief filt page)" "keepsQ wf_world (read_range qe u a b)"
  "keepsQ wf_world (find_definition qe symref client)" "keepsQ wf_world (find_callees qe symref filt page client)"
proof -
  show "keepsQ wf_world (find_symbol qe pattern mode ic brief filt page)"
    unfolding find_symbol_def Let_def by (intro keeps)
  show "keepsQ wf_world (read_range qe u a b)"
    unfolding read_range_def read_path_def by (intro keeps)
  have "keepsQ wf_world (refine_from_hover qe c i n)" for c i n
    unfolding refine_from_hover_def refine_construct_def refine_signature_def Let_def
    by (intro keeps)
  then have "keepsQ wf_world (definition_target qe c l)" for c l
    unfolding definition_target_def by (intro keeps)
  then show "keepsQ wf_world (find_definition qe symref client)"
    unfolding find_definition_def Let_def by (intro keeps)
  have "keepsQ wf_world (freshen_callees qe c i n)" for c i n
    unfolding freshen_callees_def refresh_outgoing_def Let_def by (intro keeps)
  then show "keepsQ wf_world (find_callees qe symref filt page client)"
    unfolding find_callees_def with_client_def by (intro keeps)
qed

lemma keeps_search [keeps]: "keepsQ wf_world (search_calls fuel qe to_id maxd client s)"
proof (induction fuel arbitrary: s)
  case 0
  show ?case by (simp add: keeps)
next
  case (Suc fuel)
  have "keepsQ wf_world (expand_outgoing_calls qe i n client b)" for i n b
    unfolding expand_outgoing_calls_def refresh_outgoing_def Let_def by (intro keeps)
  then show ?case by (auto intro!: keeps Suc.IH simp: Let_def split: prod.split)
qed

lemma keeps_call_path [keeps]: "keepsQ wf_world (find_call_path qe a b maxd budget client)"
  unfolding find_call_path_def path_search_def by (intro keeps)

lemma keeps_backfill [keeps]: "keepsQ wf_world (backfill_signatures qe language c opened ns)"
proof (induction ns arbitrary: opened)
  case Nil
  show ?case by (simp add: keeps)
next
  case (Cons n ns)
  have "keepsQ wf_world (backfill_one qe c opened n)"
    unfolding backfill_one_def Let_def by (intro keeps)
  then show ?case unfolding backfill_signatures.simps by (intro keeps Cons.IH)
qed

section \<open>The invariant\<close>

definition pool_ok :: "(string \<times> Supervisor) list \<Rightarrow> bool" where
  "pool_ok pool \<longleftrightarrow> distinct (map fst pool) \<and> (\<forall>p \<in> set pool. sup_inv (snd p) \<and> sv_language (snd p) = fst p)"

definition task_key :: "Refresh \<Rightarrow> int \<times> string" where
  "task_key t = (rf_anchor_id t, rf_edge_type t)"

definition refreshes_ok :: "Runtime \<Rightarrow> bool" where
  "refreshes_ok r \<longleftrightarrow> distinct (rt_refreshing r) \<and> map task_key (rt_tasks r) = rt_refreshing r"

text \<open>\<open>n\<close> queries hold the gate.\<close>

definition rt_inv :: "nat \<Rightarrow> Runtime \<Rightarrow> bool" where
  "rt_inv n r \<longleftrightarrow> wf_world (rt_world r) \<and> pool_ok (rt_pool r) \<and> refreshes_ok r \<and>
     (\<forall>s \<in> set (rt_retired r). reaped s) \<and> rt_active r = n"

lemma keeps_on_world [keeps]: "keepsQ wf_world m \<Longrightarrow> keepsQ (rt_inv n) (on_world m)"
  by (fastforce simp: keepsQ_def on_world_def rt_inv_def refreshes_ok_def split: prod.splits)

lemma rt_inv_active: "rt_inv m r \<Longrightarrow> rt_inv n (r\<lparr>rt_active := n\<rparr>)"
  by (simp add: rt_inv_def refreshes_ok_def)

lemma keeps_enter [keeps]:
  assumes "keepsQ (rt_inv (n + 1)) m"
  shows "keepsQ (rt_inv n) (enter_query m)"
  unfolding keepsQ_def
proof (intro allI impI)
  fix r
  assume "rt_inv n r"
  then have "rt_inv (n + 1) (r\<lparr>rt_active := rt_active r + 1\<rparr>)"
    using rt_inv_active [of n r "n + 1"] by (simp add: rt_inv_def)
  then have inner: "rt_inv (n + 1) (snd (m (r\<lparr>rt_active := rt_active r + 1\<rparr>)))"
    using assms by (simp add: keepsQ_def)
  then have "rt_active (snd (m (r\<lparr>rt_active := rt_active r + 1\<rparr>))) = n + 1" by (simp add: rt_inv_def)
  then show "rt_inv n (snd (enter_query m r))"
    using rt_inv_active [OF inner, of n] by (simp add: enter_query_def case_prod_beta)
qed

lemma keeps_spawn_refresh [keeps]: "keepsQ (rt_inv n) (spawn_refresh i t k a c)"
  by (auto simp: keepsQ_def spawn_refresh_def rt_inv_def refreshes_ok_def task_key_def)

lemma map_of_in_pool: "pool_ok pool \<Longrightarrow> map_of pool l = Some s \<Longrightarrow> sup_inv s \<and> sv_language s = l"
  using map_of_SomeD by (fastforce simp: pool_ok_def)

lemma pool_ok_update:
  assumes "pool_ok pool" and "sup_inv s" and "sv_language s = l"
  shows "pool_ok (AList.update l s pool)"
proof -
  have "set (AList.update l s pool) \<subseteq> insert (l, s) (set pool)"
    by (induction pool) (auto split: if_splits)
  with assms show ?thesis by (fastforce simp: pool_ok_def distinct_update)
qed

lemma rt_inv_put:
  assumes "rt_inv n r" and "sup_inv s" and "sv_language s = l"
  shows "rt_inv n (put_supervisor l s r)"
  using assms pool_ok_update wf_flush_meta
  by (simp add: rt_inv_def put_supervisor_def refreshes_ok_def wf_world_def)

lemma supervisor_for_inv: "rt_inv n r \<Longrightarrow> sup_inv (supervisor_for r l) \<and> sv_language (supervisor_for r l) = l"
  using map_of_in_pool spawn_inv
  by (auto simp: supervisor_for_def rt_inv_def spawn_supervisor_def split: option.split)

lemma acquire_frame:
  assumes "sup_inv s"
  shows "sup_inv (snd (acquire a s)) \<and> sv_language (snd (acquire a s)) = sv_language s"
proof -
  have lang: "sv_language (snd (attempt_start a s)) = sv_language s" for s
    by (simp add: attempt_start_def Let_def transition_after_anomaly_def set_healthy_def record_state_def
        drop_current_def drop_current_gracefully_def split: sum.split StartError.split)
  have "sv_language (snd (handle_acquire a s)) = sv_language s"
    by (cases "sv_state s")
      (simp_all add: handle_acquire_def start_and_settle_snd lang record_state_def split: option.split)
  then show ?thesis using acquire_inv [OF assms] assms by (simp add: acquire_def)
qed

lemma keeps_acquire_opt [keeps]: "keepsQ (rt_inv n) (acquire_opt qr lang)"
proof (cases lang)
  case None
  then show ?thesis by (simp add: acquire_opt_def keeps)
next
  case (Some l)
  have "rt_inv n (put_supervisor l (snd (acquire (qr_attempt qr l s) s)) r)"
    if "rt_inv n r" "s = supervisor_for r l" for r s
    using that supervisor_for_inv [OF that(1), of l] acquire_frame [of s "qr_attempt qr l s"] rt_inv_put by simp
  then show ?thesis using Some by (auto simp: acquire_opt_def keepsQ_def Let_def case_prod_beta)
qed

lemma keeps_client_for [keeps]: "keepsQ (rt_inv n) (client_for qr symref)"
  unfolding client_for_def by (intro keeps)

lemma keeps_refresh_work [keeps]: "keepsQ wf_world (refresh_work qr t)"
  unfolding refresh_work_def Let_def by (cases "rf_kind t") (simp_all add: keeps)

lemma keeps_backfill_calls [keeps]: "keepsQ wf_world (backfill_calls qr b c res)"
  unfolding backfill_calls_def by (intro keeps)

definition relation_ok :: "'r Relation \<Rightarrow> bool" where
  "relation_ok rl \<longleftrightarrow> (\<forall>i. keepsQ wf_world (rl_read rl i)) \<and> (\<forall>c res. keepsQ wf_world (rl_enrich rl c res))"

lemma relations_ok:
  "relation_ok (references_relation qr filt page)" "relation_ok (callers_relation qr filt page b)"
  by (simp_all add: relation_ok_def references_relation_def callers_relation_def callers_from_cache_def keeps)

lemma keeps_cache_first [keeps]:
  assumes "relation_ok rl"
  shows "keepsQ (rt_inv n) (cache_first qr rl symref)"
proof -
  have r: "keepsQ wf_world (rl_read rl i)" "keepsQ wf_world (rl_enrich rl c res)" for i c res
    using assms unfolding relation_ok_def by blast+
  have "keepsQ (rt_inv k) (cold_answer qr rl i a c t)" "keepsQ (rt_inv k) (warm_answer rl i a c t)" for k i a c t
    unfolding cold_answer_def warm_answer_def by (intro keeps r)+
  then have "keepsQ (rt_inv k) (live_answer qr rl i a c t)" for k i a c t
    unfolding live_answer_def by (intro keeps)
  then show ?thesis unfolding cache_first_def anchored_answer_def by (intro keeps r)
qed

lemma keeps_backfill_languages [keeps]: "keepsQ (rt_inv n) (backfill_languages qr ls nodes)"
  by (induction ls arbitrary: nodes) (auto intro!: keeps)

lemma keeps_runtime_operations [keeps]:
  "keepsQ (rt_inv n) (rt_find_symbol qr pattern mode ic opts filt page)" "keepsQ (rt_inv n) (rt_read_range qr u a b)"
  "keepsQ (rt_inv n) (rt_find_definition qr symref)" "keepsQ (rt_inv n) (rt_find_references qr symref filt page)"
  "keepsQ (rt_inv n) (rt_find_callers qr symref filt page ws)" "keepsQ (rt_inv n) (rt_find_callees qr symref filt page ws)"
  "keepsQ (rt_inv n) (rt_find_call_path qr symref to_ref maxd budget)" "keepsQ (rt_inv n) (acquire_for_watcher qr l)"
proof -
  show "keepsQ (rt_inv n) (rt_find_symbol qr pattern mode ic opts filt page)"
    unfolding rt_find_symbol_def backfill_signatures_by_language_def by (intro keeps)
  have "keepsQ (rt_inv k) (definition_body qr symref)" for k
    unfolding definition_body_def Let_def by (intro keeps)
  then show "keepsQ (rt_inv n) (rt_find_definition qr symref)"
    unfolding rt_find_definition_def by (intro keeps)
qed (simp_all add: rt_read_range_def rt_find_references_def rt_find_callers_def rt_find_callees_def
    rt_find_call_path_def acquire_for_watcher_def keeps relations_ok)

section \<open>The runtime at work\<close>

text \<open>
  What happens to a runtime: operations, a supervisor waking up, a spawned refresh running to its
  end, restarts and the final shutdown.
\<close>

datatype RtEvent =
    FindSymbol string MatchMode bool FindSymbolOptions Filter Page
  | FindDefinition SymbolRef
  | FindReferences SymbolRef Filter Page
  | FindCallers SymbolRef Filter Page bool
  | FindCallees SymbolRef Filter Page bool
  | FindCallPath SymbolRef SymbolRef nat nat
  | ReadRange string u32 u32
  | AcquireForWatcher string
  | WakeSupervisor string SupEvent
  | RefreshRuns nat
  | RestartLanguage "string option"
  | ShutdownAll

fun rt_event :: "QueryRuntime \<Rightarrow> RtEvent \<Rightarrow> Runtime \<Rightarrow> Runtime" where
  "rt_event qr (FindSymbol p m ic opts filt page) r = snd (rt_find_symbol qr p m ic opts filt page r)"
| "rt_event qr (FindDefinition symref) r = snd (rt_find_definition qr symref r)"
| "rt_event qr (FindReferences symref filt page) r = snd (rt_find_references qr symref filt page r)"
| "rt_event qr (FindCallers symref filt page ws) r = snd (rt_find_callers qr symref filt page ws r)"
| "rt_event qr (FindCallees symref filt page ws) r = snd (rt_find_callees qr symref filt page ws r)"
| "rt_event qr (FindCallPath a b maxd budget) r = snd (rt_find_call_path qr a b maxd budget r)"
| "rt_event qr (ReadRange u a b) r = snd (rt_read_range qr u a b r)"
| "rt_event qr (AcquireForWatcher l) r = snd (acquire_for_watcher qr l r)"
| "rt_event qr (WakeSupervisor l e) r = (if in_flight e then wake_supervisor l e r else r)"
| "rt_event qr (RefreshRuns k) r = (if k < length (rt_tasks r) then run_refresh qr (rt_tasks r ! k) r else r)"
| "rt_event qr (RestartLanguage lang) r = snd (restart_language lang r)"
| "rt_event qr ShutdownAll r = shutdown_all r"

lemma keepsQ_snd: "keepsQ P m \<Longrightarrow> P s \<Longrightarrow> P (snd (m s))"
  by (simp add: keepsQ_def)

lemma run_refresh_inv:
  assumes "rt_inv n r" and "t \<in> set (rt_tasks r)"
  shows "rt_inv n (run_refresh qr t r)"
proof -
  have d: "distinct (map task_key (rt_tasks r))" "map task_key (rt_tasks r) = rt_refreshing r"
    using assms(1) by (simp_all add: rt_inv_def refreshes_ok_def)
  have "map task_key (remove1 t ts) = removeAll (task_key t) (map task_key ts) \<and> distinct (removeAll (task_key t) (map task_key ts))"
    if "t \<in> set ts" "distinct (map task_key ts)" for ts
    using that
  proof (induction ts)
    case (Cons u us)
    show ?case
    proof (cases "u = t")
      case True
      with Cons.prems show ?thesis by (simp add: removeAll_id)
    next
      case False
      with Cons.prems have t: "t \<in> set us" by simp
      with Cons.prems have "task_key u \<noteq> task_key t" by auto
      with False Cons t show ?thesis by (auto simp: distinct_removeAll)
    qed
  qed simp
  from this [OF assms(2) d(1)] have "refreshes_ok (run_refresh qr t r)"
    by (simp add: refreshes_ok_def run_refresh_def d(2) [symmetric] task_key_def [of t, symmetric])
  moreover have "wf_world (snd (refresh_work qr t (rt_world r)))"
    using assms(1) keepsQ_snd [OF keeps_refresh_work] by (simp add: rt_inv_def)
  ultimately show ?thesis using assms(1) by (simp add: rt_inv_def run_refresh_def)
qed

lemma sup_turn_language: "sv_language (sup_turn e s) = sv_language s"
proof -
  have anomaly: "sv_language (transition_after_anomaly s) = sv_language s" for s
    by (simp add: transition_after_anomaly_def Let_def record_state_def drop_current_gracefully_def)
  have start: "sv_language (snd (attempt_start a s)) = sv_language s" for a s
    by (simp add: attempt_start_def Let_def anomaly set_healthy_def record_state_def drop_current_def
        split: sum.split StartError.split)
  have "sv_language (snd (handle_acquire a s)) = sv_language s" for a
    by (cases "sv_state s")
      (simp_all add: handle_acquire_def start_and_settle_snd start record_state_def split: option.split)
  then show ?thesis
    by (cases e) (auto simp: anomaly start on_restart_timer_def shutdown_graceful_def case_prod_beta split: option.split)
qed

lemma shutdown_frame:
  assumes "sup_inv s"
  shows "sup_inv (shutdown s) \<and> reaped (shutdown s) \<and> sv_language (shutdown s) = sv_language s"
proof (cases "sv_running s")
  case True
  with assms show ?thesis
    using stop_inv [of s] reaped_stop [of s] by (simp add: shutdown_def shutdown_graceful_def)
next
  case False
  with assms show ?thesis
    by (simp add: shutdown_def reaped_def sup_inv_def owned_def holds_nothing_def)
qed

lemma wake_inv:
  assumes "rt_inv n r"
  shows "rt_inv n (wake_supervisor l e r)"
proof (cases "map_of (rt_pool r) l")
  case None
  with assms show ?thesis by (simp add: wake_supervisor_def)
next
  case (Some s)
  then have s: "sup_inv s" "sv_language s = l"
    using assms map_of_in_pool [of "rt_pool r" l s] by (simp_all add: rt_inv_def)
  then show ?thesis
    using Some assms sup_turn_inv [of s e] sup_turn_language [of e s] rt_inv_put
    by (simp add: wake_supervisor_def)
qed

lemma restart_inv:
  assumes "rt_inv n r"
  shows "rt_inv n (snd (restart_language lang r))"
proof -
  have ok: "pool_ok (rt_pool r)" using assms by (simp add: rt_inv_def)
  have "set (taken lang (rt_pool r)) \<subseteq> set (rt_pool r)" by (auto simp: taken_def split: option.split)
  moreover have "reaped (shutdown (snd p))" if "p \<in> set (rt_pool r)" for p
    using ok that shutdown_frame [of "snd p"] by (simp add: pool_ok_def)
  ultimately have reaped: "\<forall>p \<in> set (taken lang (rt_pool r)). reaped (shutdown (snd p))" by blast
  have kept: "pool_ok (filter f (rt_pool r))" for f
    using ok by (simp add: pool_ok_def distinct_map_filter)
  have "pool_ok (case lang of None \<Rightarrow> [] | Some l \<Rightarrow> filter (\<lambda>p. fst p \<noteq> l) (rt_pool r))"
    using kept by (cases lang) (simp_all add: pool_ok_def)
  with assms reaped show ?thesis
    unfolding rt_inv_def restart_language_def refreshes_ok_def by (simp add: ball_Un)
qed

lemma shutdown_all_inv:
  assumes "rt_inv n r"
  shows "rt_inv n (shutdown_all r)"
proof -
  have ok: "pool_ok (rt_pool r)" using assms by (simp add: rt_inv_def)
  have names: "map fst (map (\<lambda>(l, s). (l, shutdown s)) (rt_pool r)) = map fst (rt_pool r)" by (simp add: case_prod_beta)
  have "sup_inv (shutdown (snd p)) \<and> sv_language (shutdown (snd p)) = fst p" if "p \<in> set (rt_pool r)" for p
    using ok that shutdown_frame [of "snd p"] by (simp add: pool_ok_def)
  then have "pool_ok (map (\<lambda>(l, s). (l, shutdown s)) (rt_pool r))"
    unfolding pool_ok_def names using ok by (simp add: pool_ok_def case_prod_beta)
  with assms show ?thesis by (simp add: rt_inv_def shutdown_all_def refreshes_ok_def)
qed

lemma rt_event_inv: "rt_inv n r \<Longrightarrow> rt_inv n (rt_event qr e r)"
  by (cases e) (simp_all add: keepsQ_snd [OF keeps_runtime_operations(1)] keepsQ_snd [OF keeps_runtime_operations(2)]
      keepsQ_snd [OF keeps_runtime_operations(3)] keepsQ_snd [OF keeps_runtime_operations(4)]
      keepsQ_snd [OF keeps_runtime_operations(5)] keepsQ_snd [OF keeps_runtime_operations(6)]
      keepsQ_snd [OF keeps_runtime_operations(7)] keepsQ_snd [OF keeps_runtime_operations(8)]
      wake_inv run_refresh_inv restart_inv shutdown_all_inv)

lemma rt_run_inv: "rt_inv n r \<Longrightarrow> rt_inv n (fold (rt_event qr) es r)"
  by (induction es arbitrary: r) (simp_all add: rt_event_inv)

lemma open_runtime_inv: "wf_world w \<Longrightarrow> rt_inv 0 (open_runtime w)"
  by (simp add: open_runtime_def rt_inv_def pool_ok_def refreshes_ok_def)

end
