(* ===== verification/Runtime_Props.thy ===== *)
theory Runtime_Props
  imports Runtime_Inv Query_Props
begin

text \<open>
  What a caller of the runtime gets: a query answers from the store as it is afterwards, and says
  how far the language server contributed; no query fails because a server does.
\<close>

section \<open>Reaching a result\<close>

definition reaches :: "('e, 'a, 's) qm \<Rightarrow> 's \<Rightarrow> ('a \<Rightarrow> 's \<Rightarrow> bool) \<Rightarrow> bool" where
  "reaches m s Q \<longleftrightarrow> (\<exists>x s'. m s = (Inr x, s') \<and> Q x s')"

lemma reaches_bind:
  "reaches m s (\<lambda>x s'. reaches (f x) s' Q) \<Longrightarrow> reaches (bindQ m f) s Q"
  by (auto simp: reaches_def bindQ_Inr)

lemma reaches_bindI:
  "reaches m s P \<Longrightarrow> (\<And>x s'. P x s' \<Longrightarrow> reaches (f x) s' Q) \<Longrightarrow> reaches (bindQ m f) s Q"
  by (fastforce simp: reaches_def bindQ_Inr)

lemma reaches_return [simp]: "reaches (returnQ x) s Q \<longleftrightarrow> Q x s"
  by (simp add: reaches_def returnQ_def)

lemma reaches_weaken: "reaches m s P \<Longrightarrow> (\<And>x s'. P x s' \<Longrightarrow> Q x s') \<Longrightarrow> reaches m s Q"
  by (auto simp: reaches_def)

lemma reaches_total: "totalQ P m Q \<Longrightarrow> P s \<Longrightarrow> reaches m s (\<lambda>x s'. Q x \<and> P s')"
  by (auto simp: reaches_def totalQ_def)

lemma reaches_then_return:
  "totalQ P m Q \<Longrightarrow> P s \<Longrightarrow> reaches (bindQ m (\<lambda>x. returnQ (g x))) s (\<lambda>_ _. True)"
  by (auto simp: reaches_def bindQ_Inr returnQ_def dest: totalQ_D)

lemma reaches_on_world: "reaches m (rt_world r) (\<lambda>x w. Q x (r\<lparr>rt_world := w\<rparr>)) \<Longrightarrow> reaches (on_world m) r Q"
  by (auto simp: reaches_def on_world_def)

lemma reaches_enter:
  "reaches m (r\<lparr>rt_active := rt_active r + 1\<rparr>) (\<lambda>x r'. Q x (r'\<lparr>rt_active := rt_active r' - 1\<rparr>)) \<Longrightarrow> reaches (enter_query m) r Q"
  by (auto simp: reaches_def enter_query_def)

section \<open>Clients\<close>

lemma flush_meta_frame [simp]:
  "db_nodes (flush_meta a b d) = db_nodes d" "db_edges (flush_meta a b d) = db_edges d"
  "db_materialized (flush_meta a b d) = db_materialized d"
proof -
  have "db_nodes (fold (\<lambda>(k, v). set_meta k v) kvs d) = db_nodes d \<and> db_edges (fold (\<lambda>(k, v). set_meta k v) kvs d) = db_edges d \<and>
      db_materialized (fold (\<lambda>(k, v). set_meta k v) kvs d) = db_materialized d" for kvs
    by (induction kvs arbitrary: d) (auto simp: set_meta_def)
  then show "db_nodes (flush_meta a b d) = db_nodes d" "db_edges (flush_meta a b d) = db_edges d"
    "db_materialized (flush_meta a b d) = db_materialized d"
    by (simp_all add: flush_meta_def)
qed

text \<open>The tables a query reads.\<close>

definition same_rows :: "Db \<Rightarrow> Db \<Rightarrow> bool" where
  "same_rows d d' \<longleftrightarrow> db_nodes d' = db_nodes d \<and> db_edges d' = db_edges d \<and> db_materialized d' = db_materialized d"

lemma same_rows_refl [simp]: "same_rows d d"
  by (simp add: same_rows_def)

lemma acquire_opt_Some:
  assumes "acquire (qr_attempt qr l (supervisor_for r l)) (supervisor_for r l) = (q, s')"
  shows "acquire_opt qr (Some l) r =
    (Inr (case q of Inl e \<Rightarrow> Inl (degradation_from e) | Inr c \<Rightarrow> Inr (Some (l, c))), put_supervisor l s' r)"
  using assms by (simp add: acquire_opt_def)

lemma client_for_fqn:
  assumes "get_node_by_fqn (w_db (rt_world r)) f = Some n"
    and "acquire (qr_attempt qr (n_language n) (supervisor_for r (n_language n))) (supervisor_for r (n_language n)) = (q, s')"
  shows "client_for qr (Fqn f) r =
    (Inr (split_acquired (case q of Inl e \<Rightarrow> Inl (degradation_from e) | Inr c \<Rightarrow> Inr (Some (n_language n, c)))),
      put_supervisor (n_language n) s' r)"
  using assms acquire_opt_Some [OF assms(2)]
  by (simp add: client_for_def bindQ_def on_world_def on_db_def db_read_def returnQ_def)

lemma put_supervisor_frame [simp]:
  "w_asks (rt_world (put_supervisor l s r)) = w_asks (rt_world r)"
  "rt_refreshing (put_supervisor l s r) = rt_refreshing r" "rt_tasks (put_supervisor l s r) = rt_tasks r"
  "rt_active (put_supervisor l s r) = rt_active r"
  by (simp_all add: put_supervisor_def)

lemma put_supervisor_rows [simp]: "same_rows (w_db (rt_world r)) (w_db (rt_world (put_supervisor l s r)))"
  by (simp add: put_supervisor_def same_rows_def)

lemma supervisor_for_active [simp]: "supervisor_for (r\<lparr>rt_active := k\<rparr>) l = supervisor_for r l"
  by (simp add: supervisor_for_def)

section \<open>Opening a document\<close>

definition document_ask :: "Ask \<Rightarrow> bool" where
  "document_ask a = (case a of AskCanon s \<Rightarrow> True | AskRead s \<Rightarrow> True | AskOpen u t \<Rightarrow> True | _ \<Rightarrow> False)"

definition asks_only :: "(Ask \<Rightarrow> bool) \<Rightarrow> World \<Rightarrow> World \<Rightarrow> bool" where
  "asks_only ok w w' \<longleftrightarrow> w_db w' = w_db w \<and> (\<exists>more. w_asks w' = w_asks w @ more \<and> list_all ok more)"

lemma preorder_asks_only [steps]: "preorder_rel (asks_only ok)"
  by (fastforce simp: preorder_rel_def asks_only_def)

lemma steps_document_ask: "document_ask a \<Longrightarrow> stepsQ (asks_only document_ask) (ask a f)"
  by (auto simp: stepsQ_def asks_only_def ask_def)

lemma ensure_open_effect:
  "reaches (ensure_open qe c u) w (\<lambda>x w'. asks_only document_ask w w')"
proof -
  have "stepsQ (asks_only document_ask) (ensure_open qe c u)"
    unfolding ensure_open_def read_file_text_def confine_def canonicalize_def read_path_def open_document_def Let_def
    by (intro steps steps_document_ask) (simp_all add: document_ask_def)
  then have "asks_only document_ask w (snd (ensure_open qe c u w))" by (simp add: stepsQ_def)
  moreover have "\<exists>x w'. ensure_open qe c u w = (Inr x, w')"
    by (auto simp: ensure_open_def read_file_text_def confine_def canonicalize_def read_path_def open_document_def Let_def
        bindQ_def ask_def returnQ_def split: option.split sum.split)
  ultimately show ?thesis by (auto simp: reaches_def)
qed

section \<open>Relations that are plain readers\<close>

text \<open>The answer is read from the store and is not enriched.\<close>

definition plain_reader :: "'r Relation \<Rightarrow> bool" where
  "plain_reader rl \<longleftrightarrow> (\<forall>c res. rl_enrich rl c res = returnQ res) \<and> (\<forall>i w. \<exists>res. rl_read rl i w = (Inr res, w))"

lemma plain_readers:
  "plain_reader (references_relation qr filt page)" "plain_reader (callers_relation qr filt page False)"
  by (auto simp: plain_reader_def references_relation_def callers_relation_def callers_from_cache_def
      references_from_cache_def read_calls_page_def neighbors_of_def on_db_def db_read_def bindQ_def returnQ_def
      backfill_calls_def Let_def split: prod.splits)

definition stored_answer :: "'r Relation \<Rightarrow> int \<Rightarrow> 'r \<Rightarrow> Runtime \<Rightarrow> bool" where
  "stored_answer rl i res r \<longleftrightarrow> rl_read rl i (rt_world r) = (Inr res, rt_world r)"

lemma reaches_read:
  assumes "plain_reader rl"
  shows "reaches (on_world (rl_read rl i)) r (\<lambda>res r'. r' = r \<and> stored_answer rl i res r)"
proof -
  obtain res where "rl_read rl i (rt_world r) = (Inr res, rt_world r)"
    using assms unfolding plain_reader_def by blast
  then show ?thesis by (simp add: reaches_def on_world_def stored_answer_def)
qed

lemma enrich_plain: "plain_reader rl \<Longrightarrow> on_world (rl_enrich rl c res) = returnQ res"
  by (cases c) (auto simp: plain_reader_def on_world_def returnQ_def)

definition refreshes :: "int \<Rightarrow> 'r Relation \<Rightarrow> Runtime \<Rightarrow> bool" where
  "refreshes i rl r \<longleftrightarrow> (i, rl_edge_type rl) \<in> set (rt_refreshing r)"

lemma reaches_spawn:
  "reaches (spawn_refresh i (rl_edge_type rl) k a c) r (\<lambda>b r'. b \<and> rt_world r' = rt_world r \<and> refreshes i rl r')"
  by (auto simp: reaches_def spawn_refresh_def refreshes_def)

lemma warm_reaches:
  assumes "plain_reader rl"
  shows "reaches (warm_answer rl i anchor c t) r (\<lambda>(res, dg, fl) r'. stored_answer rl i res r' \<and>
    dg = timeout_degradation t \<and> fl \<and> rt_world r' = rt_world r \<and> refreshes i rl r')"
  unfolding warm_answer_def enrich_plain [OF assms]
  by (rule reaches_bindI [OF reaches_read [OF assms]], simp, rule reaches_bind, simp,
      rule reaches_bindI [OF reaches_spawn])
    (auto simp: stored_answer_def)

lemma mark_reaches:
  assumes "Some i \<in> node_ids (w_db (rt_world r))"
  shows "reaches (on_world (on_db (db_write_unit (mark_materialized i ty)))) r
    (\<lambda>_ r'. is_materialized (w_db (rt_world r')) i ty \<and> db_nodes (w_db (rt_world r')) = db_nodes (w_db (rt_world r)) \<and>
       db_edges (w_db (rt_world r')) = db_edges (w_db (rt_world r)))"
  using assms
  by (auto simp: reaches_def on_world_def on_db_def db_write_unit_def mark_materialized_def is_materialized_def node_exists_iff)

lemma refresh_reaches:
  assumes "row_order_ok (qe_order (qr_engine qr))" and "rows_are N w" and "row_id N (rf_anchor_id t)"
  shows "reaches (refresh_work qr t) w (\<lambda>_ w'. rows_are N w')"
proof (cases "rf_kind t")
  case (RefreshCalls dir)
  then show ?thesis
    using reaches_total [OF totalQ_materialize_call_edges [OF assms(1,3)] assms(2)]
    by (simp add: refresh_work_def Let_def)
next
  case RefreshReferences
  then show ?thesis
    using reaches_total [OF totalQ_materialize_references [OF assms(1,3)] assms(2)]
    by (simp add: refresh_work_def Let_def)
qed

section \<open>Cold anchors\<close>

definition materialized :: "int \<Rightarrow> 'r Relation \<Rightarrow> Runtime \<Rightarrow> bool" where
  "materialized i rl r \<longleftrightarrow> is_materialized (w_db (rt_world r)) i (rl_edge_type rl)"

text \<open>What the answer over a cold anchor has seen: the relation asked for, from a world that differs
  from the one given by documents only; the edges are those that left.\<close>

definition asked_for :: "QueryRuntime \<Rightarrow> 'r Relation \<Rightarrow> int \<Rightarrow> Node \<Rightarrow> string \<times> nat \<Rightarrow> World \<Rightarrow> bool \<Rightarrow> Runtime \<Rightarrow> bool" where
  "asked_for qr rl i anchor c w t r \<longleftrightarrow> (\<exists>w1 w2. asks_only document_ask w w1 \<and>
     refresh_work qr (refresh_of rl i anchor c) w1 = (Inr t, w2) \<and>
     db_edges (w_db (rt_world r)) = db_edges (w_db w2) \<and> db_nodes (w_db (rt_world r)) = db_nodes (w_db w2))"

lemma cold_reaches:
  assumes "plain_reader rl" and "row_order_ok (qe_order (qr_engine qr))"
    and "rows_are N (rt_world r)" and "row_id N i" and "asks_only document_ask w (rt_world r)"
  shows "reaches (cold_answer qr rl i anchor c t0) r (\<lambda>(res, dg, fl) r'. stored_answer rl i res r' \<and> fl \<and>
    refreshes i rl r' \<and> materialized i rl r' \<and> (\<exists>t. dg = timeout_degradation (t0 \<or> t) \<and> asked_for qr rl i anchor c w t r'))"
proof -
  let ?task = "refresh_of rl i anchor c"
  have "rf_anchor_id ?task = i" by (simp add: refresh_of_def)
  with refresh_reaches [OF assms(2,3), of ?task] assms(4)
  obtain t w2 where work: "refresh_work qr ?task (rt_world r) = (Inr t, w2)" and w2: "rows_are N w2"
    by (auto simp: reaches_def)
  have ids: "Some i \<in> node_ids (w_db w2)" using rows_are_ids [OF w2] assms(4) by blast
  have step: "on_world (refresh_work qr ?task) r = (Inr t, r\<lparr>rt_world := w2\<rparr>)"
    by (simp add: on_world_def work)
  have mark: "reaches (on_world (on_db (db_write_unit (mark_materialized i (rl_edge_type rl))))) (r\<lparr>rt_world := w2\<rparr>)
      (\<lambda>_ r'. materialized i rl r' \<and> asked_for qr rl i anchor c w t r')"
    by (rule reaches_weaken [OF mark_reaches]) (use ids assms(5) work in \<open>auto simp: materialized_def asked_for_def\<close>)
  show ?thesis
    unfolding cold_answer_def enrich_plain [OF assms(1)]
  proof (rule reaches_bind, unfold reaches_def [of "on_world (refresh_work qr ?task)"] step, intro exI conjI, rule refl,
      rule reaches_bindI [OF mark], rule reaches_bindI [OF reaches_read [OF assms(1)]])
    fix u r1 res r2
    assume 1: "materialized i rl r1 \<and> asked_for qr rl i anchor c w t r1" and 2: "r2 = r1 \<and> stored_answer rl i res r1"
    show "reaches (bindQ (returnQ res) (\<lambda>res'. bindQ (spawn_refresh i (rl_edge_type rl) (rl_kind rl) anchor c)
        (\<lambda>_. returnQ (res', timeout_degradation (t0 \<or> t), True)))) r2
      (\<lambda>(res, dg, fl) r'. stored_answer rl i res r' \<and> fl \<and> refreshes i rl r' \<and> materialized i rl r' \<and>
         (\<exists>t. dg = timeout_degradation (t0 \<or> t) \<and> asked_for qr rl i anchor c w t r'))"
      by (rule reaches_bind, simp, rule reaches_bindI [OF reaches_spawn])
        (use 1 2 in \<open>auto simp: stored_answer_def materialized_def asked_for_def\<close>)
  qed
qed

section \<open>The contract of the cache-first answers\<close>

text \<open>The three ways an answer comes about.\<close>

definition cache_only :: "AcquireError \<Rightarrow> Runtime \<Rightarrow> Degradation option \<Rightarrow> bool \<Rightarrow> Runtime \<Rightarrow> bool" where
  "cache_only e r dg fl r' \<longleftrightarrow> dg = Some (degradation_from e) \<and> \<not> fl \<and> w_asks (rt_world r') = w_asks (rt_world r) \<and>
     same_rows (w_db (rt_world r)) (w_db (rt_world r')) \<and> rt_refreshing r' = rt_refreshing r"

definition served_warm :: "int \<Rightarrow> 'r Relation \<Rightarrow> Runtime \<Rightarrow> Degradation option \<Rightarrow> bool \<Rightarrow> Runtime \<Rightarrow> bool" where
  "served_warm i rl r dg fl r' \<longleftrightarrow> dg = None \<and> fl \<and> refreshes i rl r' \<and>
     same_rows (w_db (rt_world r)) (w_db (rt_world r')) \<and>
     (\<exists>more. w_asks (rt_world r') = w_asks (rt_world r) @ more \<and> list_all document_ask more)"

definition served_cold :: "QueryRuntime \<Rightarrow> int \<Rightarrow> Node \<Rightarrow> 'r Relation \<Rightarrow> string \<times> nat \<Rightarrow> Runtime \<Rightarrow> Degradation option \<Rightarrow> bool \<Rightarrow> Runtime \<Rightarrow> bool" where
  "served_cold qr i n rl c r dg fl r' \<longleftrightarrow> fl \<and> refreshes i rl r' \<and> materialized i rl r' \<and>
     (\<exists>w t. same_rows (w_db (rt_world r)) (w_db w) \<and> w_asks w = w_asks (rt_world r) \<and>
        dg = timeout_degradation t \<and> asked_for qr rl i n c w t r')"

lemma resolve_fqn:
  assumes "get_node_by_fqn (w_db w) f = Some n" and "n_id n = Some i"
  shows "resolve_anchor_id qe (Fqn f) client w = (Inr (Some (i, n), False), w)"
  using assms by (simp add: resolve_anchor_id_def bindQ_def on_db_def db_read_def returnQ_def)

lemma get_node_by_fqn_rows: "db_nodes d = db_nodes d' \<Longrightarrow> get_node_by_fqn d f = get_node_by_fqn d' f"
  by (simp add: get_node_by_fqn_def)

lemma live_reaches:
  assumes "plain_reader rl" and "row_order_ok (qe_order (qr_engine qr))" and "rows_are N (rt_world r)" and "row_id N i"
  shows "reaches (live_answer qr rl i n c False) r (\<lambda>(res, dg, fl) r'. stored_answer rl i res r' \<and>
    (if materialized i rl r then served_warm i rl r dg fl r' else served_cold qr i n rl c r dg fl r'))"
  unfolding live_answer_def
proof (rule reaches_bindI)
  show "reaches (on_world (ensure_open (qr_engine qr) (qr_client qr (fst c) (snd c)) (n_uri n))) r
      (\<lambda>_ r1. asks_only document_ask (rt_world r) (rt_world r1))"
    by (rule reaches_on_world) (simp add: ensure_open_effect)
next
  fix x and r1 :: Runtime
  assume "asks_only document_ask (rt_world r) (rt_world r1)"
  then have r1: "asks_only document_ask (rt_world r) (rt_world r1)" "w_db (rt_world r1) = w_db (rt_world r)"
    by (simp_all add: asks_only_def)
  let ?warm = "materialized i rl r"
  have probe: "on_world (on_db (db_read (\<lambda>d. is_materialized d i (rl_edge_type rl)))) r1 = (Inr ?warm, r1)"
    by (simp add: on_world_def on_db_def db_read_def materialized_def r1(2))
  have rows: "rows_are N (rt_world r1)" using assms(3) r1(2) by (simp add: rows_are_def)
  have "reaches (if ?warm then warm_answer rl i n c False else cold_answer qr rl i n c False) r1
      (\<lambda>(res, dg, fl) r'. stored_answer rl i res r' \<and>
        (if ?warm then served_warm i rl r dg fl r' else served_cold qr i n rl c r dg fl r'))"
  proof (cases ?warm)
    case True
    then show ?thesis
      using r1 by (auto intro!: reaches_weaken [OF warm_reaches [OF assms(1)]]
          simp: served_warm_def asks_only_def timeout_degradation_def)
  next
    case False
    then show ?thesis
      by (auto intro!: reaches_weaken [OF cold_reaches [OF assms(1,2) rows assms(4) r1(1)]] exI [of _ "rt_world r"]
        simp: served_cold_def)
  qed
  with probe show "reaches (bindQ (on_world (on_db (db_read (\<lambda>d. is_materialized d i (rl_edge_type rl)))))
      (\<lambda>warm. if warm then warm_answer rl i n c False else cold_answer qr rl i n c False)) r1
      (\<lambda>(res, dg, fl) r'. stored_answer rl i res r' \<and>
        (if ?warm then served_warm i rl r dg fl r' else served_cold qr i n rl c r dg fl r'))"
    by (intro reaches_bind) (simp add: reaches_def [of "on_world _"])
qed

lemma stored_answer_active [simp]: "stored_answer rl i res (r\<lparr>rt_active := k\<rparr>) = stored_answer rl i res r"
  by (simp add: stored_answer_def)

lemma same_rows_trans: "same_rows a b \<Longrightarrow> same_rows b c \<Longrightarrow> same_rows a c"
  by (simp add: same_rows_def)

definition answered :: "QueryRuntime \<Rightarrow> 'r Relation \<Rightarrow> int \<Rightarrow> Node \<Rightarrow> AcquireError + nat \<Rightarrow> Runtime \<Rightarrow> 'r \<times> Degradation option \<times> bool \<Rightarrow> Runtime \<Rightarrow> bool" where
  "answered qr rl i n q r x r' \<longleftrightarrow> (case x of (res, dg, fl) \<Rightarrow> stored_answer rl i res r' \<and>
    (case q of
       Inl e \<Rightarrow> cache_only e r dg fl r'
     | Inr c \<Rightarrow> if materialized i rl r then served_warm i rl r dg fl r'
         else served_cold qr i n rl (n_language n, c) r dg fl r'))"

lemma answered_frame:
  assumes "answered qr rl i n q r1 x r'" and "same_rows (w_db (rt_world r)) (w_db (rt_world r1))"
    and "w_asks (rt_world r1) = w_asks (rt_world r)" and "rt_refreshing r1 = rt_refreshing r"
  shows "answered qr rl i n q r x (r'\<lparr>rt_active := k\<rparr>)"
proof -
  have mat: "materialized i rl r1 = materialized i rl r"
    using assms(2) by (simp add: materialized_def is_materialized_def same_rows_def)
  obtain res dg fl where x: "x = (res, dg, fl)" by (cases x)
  have st: "stored_answer rl i res (r'\<lparr>rt_active := k\<rparr>)" using assms(1) x by (simp add: answered_def)
  have "cache_only e r1 dg fl r' \<Longrightarrow> cache_only e r dg fl (r'\<lparr>rt_active := k\<rparr>)" for e
    using assms(2-4) by (auto simp: cache_only_def intro: same_rows_trans)
  moreover have "served_warm i rl r1 dg fl r' \<Longrightarrow> served_warm i rl r dg fl (r'\<lparr>rt_active := k\<rparr>)"
    using assms(2,3) by (auto simp: served_warm_def refreshes_def intro: same_rows_trans)
  moreover have "served_cold qr i n rl c r1 dg fl r' \<Longrightarrow> served_cold qr i n rl c r dg fl (r'\<lparr>rt_active := k\<rparr>)" for c
  proof -
    assume "served_cold qr i n rl c r1 dg fl r'"
    then obtain w t where w: "same_rows (w_db (rt_world r1)) (w_db w)" "w_asks w = w_asks (rt_world r1)"
      "dg = timeout_degradation t" "asked_for qr rl i n c w t r'" and "fl" "refreshes i rl r'" "materialized i rl r'"
      unfolding served_cold_def by blast
    moreover have "same_rows (w_db (rt_world r)) (w_db w)" using assms(2) w(1) by (rule same_rows_trans)
    moreover have "w_asks w = w_asks (rt_world r)" using w(2) assms(3) by simp
    moreover have "asked_for qr rl i n c w t (r'\<lparr>rt_active := k\<rparr>)" using w(4) by (simp add: asked_for_def)
    ultimately show "served_cold qr i n rl c r dg fl (r'\<lparr>rt_active := k\<rparr>)"
      unfolding served_cold_def refreshes_def materialized_def by auto
  qed
  ultimately show ?thesis using assms(1) x st mat by (auto simp: answered_def split: sum.splits if_splits)
qed

lemma anchored_reaches:
  assumes "plain_reader rl" and "row_order_ok (qe_order (qr_engine qr))" and "wf_db (w_db (rt_world r))"
    and "get_node_by_fqn (w_db (rt_world r)) f = Some n" and "n_id n = Some i"
  shows "reaches (anchored_answer qr rl (Fqn f) (split_acquired (case q of Inl e \<Rightarrow> Inl (degradation_from e)
      | Inr c \<Rightarrow> Inr (Some (n_language n, c))))) r (answered qr rl i n q r)"
proof -
  have step: "on_world (resolve_anchor_id (qr_engine qr) (Fqn f) c) r = (Inr (Some (i, n), False), r)" for c
    by (simp add: on_world_def resolve_fqn [OF assms(4,5)])
  show ?thesis
  proof (cases q)
    case (Inl e)
    have "reaches (bindQ (on_world (rl_read rl i)) (\<lambda>res. returnQ (res, Some (degradation_from e), False))) r
        (answered qr rl i n q r)"
      by (rule reaches_bindI [OF reaches_read [OF assms(1)]]) (simp add: answered_def Inl cache_only_def)
    with Inl show ?thesis
      by (simp add: anchored_answer_def split_acquired_def, intro reaches_bind)
        (simp add: reaches_def [of "on_world (resolve_anchor_id _ _ _)"] step)
  next
    case (Inr c)
    have N: "rows_are (db_nodes (w_db (rt_world r))) (rt_world r)" using assms(3) by (simp add: rows_are_def)
    have "n \<in> set (db_nodes (w_db (rt_world r)))" using assms(3,4) by (simp add: get_node_by_fqn_Some)
    with assms(5) have id: "row_id (db_nodes (w_db (rt_world r))) i" by (rule row_idI [rotated])
    have "reaches (live_answer qr rl i n (n_language n, c) False) r (answered qr rl i n q r)"
      by (rule reaches_weaken [OF live_reaches [OF assms(1,2) N id]]) (auto simp: answered_def Inr)
    with Inr show ?thesis
      by (simp add: anchored_answer_def split_acquired_def, intro reaches_bind)
        (simp add: reaches_def [of "on_world (resolve_anchor_id _ _ _)"] step)
  qed
qed

text \<open>C20: A cache-first answer never lies about where it comes from. Asked for the references or callers
  of a row, the runtime answers with the page of the store as it is when the answer is given. If
  the server of the row's language cannot be had, that is the store as it was, nothing is asked
  of any server and the degradation names the reason. If the relation was asked for before, it is
  again the store as it was: nothing but opening the document is waited for, and a refresh is in
  flight. Otherwise the server is asked first, the relation is marked, and a refresh follows.\<close>

theorem cache_first_contract:
  assumes "plain_reader rl" and "row_order_ok (qe_order (qr_engine qr))" and "wf_db (w_db (rt_world r))"
    and "get_node_by_fqn (w_db (rt_world r)) f = Some n" and "n_id n = Some i"
    and "acquire (qr_attempt qr (n_language n) (supervisor_for r (n_language n))) (supervisor_for r (n_language n)) = (q, s')"
  shows "\<exists>res dg fl r'. cache_first qr rl (Fqn f) r = (Inr (res, dg, fl), r') \<and> stored_answer rl i res r' \<and>
    (case q of
       Inl e \<Rightarrow> cache_only e r dg fl r'
     | Inr c \<Rightarrow> if materialized i rl r then served_warm i rl r dg fl r'
         else served_cold qr i n rl (n_language n, c) r dg fl r')"
proof -
  let ?r0 = "r\<lparr>rt_active := rt_active r + 1\<rparr>"
  let ?r1 = "put_supervisor (n_language n) s' ?r0"
  have rows: "same_rows (w_db (rt_world r)) (w_db (rt_world ?r1))"
    using put_supervisor_rows [of ?r0 "n_language n" s'] by simp
  have anchor: "get_node_by_fqn (w_db (rt_world ?r1)) f = Some n"
    using assms(4) rows get_node_by_fqn_rows [of "w_db (rt_world ?r1)" "w_db (rt_world r)" f] by (simp add: same_rows_def)
  have wf: "wf_db (w_db (rt_world ?r1))" using assms(3) by (simp add: put_supervisor_def wf_flush_meta)
  have client: "client_for qr (Fqn f) ?r0 = (Inr (split_acquired (case q of Inl e \<Rightarrow> Inl (degradation_from e)
      | Inr c \<Rightarrow> Inr (Some (n_language n, c)))), ?r1)"
    by (rule client_for_fqn) (use assms(4,6) in simp_all)
  have "reaches (cache_first qr rl (Fqn f)) r (answered qr rl i n q r)"
    unfolding cache_first_def
  proof (rule reaches_enter, rule reaches_bind, unfold reaches_def [of "client_for qr (Fqn f)"] client, intro exI conjI, rule refl)
    show "reaches (anchored_answer qr rl (Fqn f) (split_acquired (case q of Inl e \<Rightarrow> Inl (degradation_from e)
        | Inr c \<Rightarrow> Inr (Some (n_language n, c))))) ?r1 (\<lambda>x r'. answered qr rl i n q r x (r'\<lparr>rt_active := rt_active r' - 1\<rparr>))"
    proof (rule reaches_weaken [OF anchored_reaches [OF assms(1,2) wf anchor assms(5)]])
      fix x r'
      assume "answered qr rl i n q ?r1 x r'"
      then show "answered qr rl i n q r x (r'\<lparr>rt_active := rt_active r' - 1\<rparr>)"
        by (rule answered_frame [OF _ rows]) simp_all
    qed
  qed
  then show ?thesis unfolding reaches_def answered_def by (auto split: prod.splits)
qed

section \<open>No query fails because of a server\<close>

definition rt_rows :: "Node list \<Rightarrow> Runtime \<Rightarrow> bool" where
  "rt_rows N r \<longleftrightarrow> rows_are N (rt_world r)"

definition rt_wf :: "Runtime \<Rightarrow> bool" where
  "rt_wf r \<longleftrightarrow> wf_world (rt_world r)"

lemma total_lift: "totalQ (rows_are N) m Q \<Longrightarrow> totalQ (rt_rows N) (on_world m) Q"
  by (fastforce simp: totalQ_def on_world_def rt_rows_def)

lemma total_lift_wf: "totalQ wf_world m Q \<Longrightarrow> totalQ rt_wf (on_world m) Q"
  by (fastforce simp: totalQ_def on_world_def rt_wf_def)

lemma total_wf: "(\<And>N. totalQ (rows_are N) m Q) \<Longrightarrow> totalQ wf_world m Q"
  by (fastforce simp: totalQ_def rows_are_def wf_world_def)

lemma total_client_for: "totalQ (rt_rows N) (client_for qr symref) (\<lambda>_. True)"
proof -
  have "rt_rows N (put_supervisor l s r)" if "rt_rows N r" for l s r
    using that by (simp add: rt_rows_def rows_are_def put_supervisor_def wf_flush_meta)
  then have "totalQ (rt_rows N) (acquire_opt qr lang) (\<lambda>_. True)" for lang
    by (cases lang) (auto simp: acquire_opt_def totalQ_def Let_def case_prod_beta)
  then show ?thesis unfolding client_for_def
    by (cases symref) (auto intro!: totalQ_bind [OF total_lift [OF totalQ_any]] totalQ_bind totalQ_return)
qed

lemma total_backfill: "totalQ wf_world (backfill_signatures qe l c opened ns) (\<lambda>_. True)"
proof (induction ns arbitrary: opened)
  case Nil
  show ?case by (simp add: totalQ_Pair totalQ_return)
next
  case (Cons n ns)
  have ask: "totalQ wf_world (ask x g) (\<lambda>_. True)" for x and g :: "Ask list \<Rightarrow> QueryError + Hover option"
    by (rule total_wf [OF totalQ_ask]) simp
  have upd: "totalQ wf_world (on_db (db_update (update_node_signature_by_fqn f s))) (\<lambda>_. True)" for f s
    by (simp add: totalQ_def wf_world_def on_db_def db_update_def update_node_signature_by_fqn_wf)
  have "totalQ wf_world (backfill_one qe c opened n) (\<lambda>_. True)"
    unfolding backfill_one_def Let_def
    by (rule totalQ_bind [of _ _ "\<lambda>_. True"])
      (auto intro!: totalQ_if totalQ_return total_wf [OF totalQ_ensure_open] totalQ_bind [OF ask] totalQ_option totalQ_bind [OF upd])
  then show ?case unfolding backfill_signatures.simps
    by (intro totalQ_if totalQ_bind [OF Cons.IH] totalQ_bind totalQ_return TrueI)
qed

lemma total_backfill_calls: "totalQ wf_world (backfill_calls qr b c res) (\<lambda>_. True)"
  unfolding backfill_calls_def by (intro totalQ_if totalQ_return totalQ_bind [OF total_backfill] TrueI)

definition total_relation :: "'r Relation \<Rightarrow> bool" where
  "total_relation rl \<longleftrightarrow> (\<forall>N i. totalQ (rows_are N) (rl_read rl i) (\<lambda>_. True)) \<and>
     (\<forall>c res. totalQ wf_world (rl_enrich rl c res) (\<lambda>_. True))"

lemma total_relations:
  "total_relation (references_relation qr filt page)" "total_relation (callers_relation qr filt page b)"
  by (simp_all add: total_relation_def references_relation_def callers_relation_def callers_from_cache_def
      totalQ_pages totalQ_return totalQ_Pair total_backfill_calls)

lemma enrich_then:
  assumes "total_relation rl" and "rt_rows N r" and "\<And>res' r1. reaches (f res') r1 (\<lambda>_ _. True)"
  shows "reaches (bindQ (on_world (rl_enrich rl c res)) f) r (\<lambda>_ _. True)"
proof -
  have "totalQ wf_world (rl_enrich rl c res) (\<lambda>_. True)" using assms(1) unfolding total_relation_def by blast
  moreover have "rt_wf r" using assms(2) by (simp add: rt_wf_def rt_rows_def rows_are_def wf_world_def)
  ultimately show ?thesis by (rule reaches_bindI [OF reaches_total [OF total_lift_wf]]) (rule assms(3))
qed

lemma spawn_return: "reaches (bindQ (spawn_refresh i t k a c) (\<lambda>b. returnQ (g b))) r (\<lambda>_ _. True)"
  by (simp add: reaches_def spawn_refresh_def bindQ_def returnQ_def)

lemma live_answers:
  assumes "total_relation rl" and "row_order_ok (qe_order (qr_engine qr))" and "rt_rows N r" and "row_id N i"
  shows "reaches (live_answer qr rl i n c t) r (\<lambda>_ _. True)"
proof -
  have read: "totalQ (rt_rows N) (on_world (rl_read rl i)) (\<lambda>_. True)"
    using assms(1) by (intro total_lift) (simp add: total_relation_def)
  have work: "totalQ (rt_rows N) (on_world (refresh_work qr (refresh_of rl i n c))) (\<lambda>_. True)"
    unfolding refresh_work_def Let_def using assms(2,4)
    by (cases "rl_kind rl") (simp_all add: refresh_of_def total_lift totalQ_materialize_references totalQ_materialize_call_edges)
  have mark: "totalQ (rt_rows N) (on_world (on_db (db_write_unit (mark_materialized i ty)))) (\<lambda>_. True)" for ty
  proof (rule total_lift, unfold totalQ_def, intro allI impI)
    fix w
    assume w: "rows_are N w"
    then have "Some i \<in> node_ids (w_db w)" using assms(4) rows_are_ids by blast
    then have "\<exists>d'. mark_materialized i ty (w_db w) = Inr d' \<and> db_nodes d' = db_nodes (w_db w)"
      by (simp add: mark_materialized_def node_exists_iff)
    then obtain d' where d': "mark_materialized i ty (w_db w) = Inr d'" "db_nodes d' = db_nodes (w_db w)" by blast
    moreover have "wf_db d'" using w d'(1) mark_materialized_wf by (auto simp: rows_are_def)
    ultimately show "\<exists>x w'. on_db (db_write_unit (mark_materialized i ty)) w = (Inr x, w') \<and> rows_are N w' \<and> True"
      using w by (simp add: on_db_def db_write_unit_def rows_are_def)
  qed
  have opened: "totalQ (rt_rows N) (on_world (ensure_open qe d u)) (\<lambda>_. True)" for qe d u
    by (rule total_lift [OF totalQ_ensure_open])
  have probe: "totalQ (rt_rows N) (on_world (on_db (db_read g))) (\<lambda>_. True)" for g :: "Db \<Rightarrow> bool"
    by (rule total_lift [OF totalQ_any])
  note ask = reaches_bindI [OF reaches_total]
  have warm: "reaches (warm_answer rl i n c t) r (\<lambda>_ _. True)" if "rt_rows N r" for r
    unfolding warm_answer_def
    by (rule ask [OF read that]) (auto intro: enrich_then [OF assms(1)] spawn_return)
  have cold: "reaches (cold_answer qr rl i n c t) r (\<lambda>_ _. True)" if "rt_rows N r" for r
    unfolding cold_answer_def
    by (rule ask [OF work that], rule ask [OF mark], simp, rule ask [OF read], simp)
      (auto intro: enrich_then [OF assms(1)] spawn_return)
  show ?thesis
    unfolding live_answer_def
    by (rule ask [OF opened assms(3)], rule ask [OF probe], simp) (simp add: warm cold)
qed

definition always_answers :: "'a runtime \<Rightarrow> Runtime \<Rightarrow> bool" where
  "always_answers m r \<longleftrightarrow> (\<exists>x r'. m r = (Inr x, r') \<and> wf_db (w_db (rt_world r')))"

lemma always_answersI:
  assumes "reaches m r (\<lambda>_ _. True)" and "keepsQ (rt_inv n) m" and "rt_inv n r"
  shows "always_answers m r"
proof -
  obtain x r' where m: "m r = (Inr x, r')" using assms(1) by (auto simp: reaches_def)
  have "rt_inv n r'" by (rule keepsQ_D [OF assms(2,3) m])
  with m show ?thesis by (simp add: always_answers_def rt_inv_def wf_world_def)
qed

lemma cache_first_answers:
  assumes "total_relation rl" and "row_order_ok (qe_order (qr_engine qr))" and "wf_world (rt_world r)"
  shows "reaches (cache_first qr rl symref) r (\<lambda>_ _. True)"
proof -
  let ?N = "db_nodes (w_db (rt_world r))"
  have N: "rt_rows ?N (r\<lparr>rt_active := k\<rparr>)" for k using assms(3) by (simp add: rt_rows_def rows_are_def wf_world_def)
  have "reaches (anchored_answer qr rl symref q) r1 (\<lambda>_ _. True)" if r1: "rt_rows ?N r1" for q r1
  proof -
    obtain client dg where q: "q = (client, dg)" by (cases q)
    have read: "totalQ (rt_rows ?N) (on_world (rl_read rl i)) (\<lambda>_. True)" for i
      using assms(1) by (intro total_lift) (simp add: total_relation_def)
    show ?thesis
      unfolding anchored_answer_def q prod.case
    proof (rule reaches_bindI [OF reaches_total [OF total_lift [OF totalQ_resolve_anchor [OF assms(2)]] r1]])
      fix x :: "(int \<times> Node) option \<times> bool" and r2
      assume x: "anchor_in ?N (fst x) \<and> rt_rows ?N r2"
      obtain a t where at: "x = (a, t)" by (cases x)
      show "reaches (case x of (a, timed_out) \<Rightarrow> (case a of
            None \<Rightarrow> bindQ (on_world (hint_fqns_for_symref (qr_engine qr) symref)) (\<lambda>hints.
              returnQ (rl_none rl hints, or_else dg (timeout_degradation timed_out), False))
          | Some (i, anchor) \<Rightarrow> (case client of
              None \<Rightarrow> bindQ (on_world (rl_read rl i)) (\<lambda>res. returnQ (res, dg, False))
            | Some c \<Rightarrow> live_answer qr rl i anchor c timed_out))) r2 (\<lambda>_ _. True)"
      proof (cases a)
        case None
        with at show ?thesis
          by (simp add: reaches_then_return [OF total_lift [OF totalQ_hints] conjunct2 [OF x]])
      next
        case (Some p)
        obtain i n where p: "p = (i, n)" by (cases p)
        with at Some x have "row_id ?N i" by (auto simp: anchor_in_def row_id_def)
        then show ?thesis
          using at Some p live_answers [OF assms(1,2) conjunct2 [OF x]]
            reaches_then_return [OF read conjunct2 [OF x]]
          by (cases client) simp_all
      qed
    qed
  qed
  then show ?thesis
    unfolding cache_first_def
    by (intro reaches_enter reaches_bindI [OF reaches_total [OF total_client_for N]]) simp
qed

lemma callees_answers:
  assumes "row_order_ok (qe_order (qr_engine qr))" and "wf_world (rt_world r)"
  shows "reaches (rt_find_callees qr symref filt page ws) r (\<lambda>_ _. True)"
proof -
  let ?N = "db_nodes (w_db (rt_world r))"
  have N: "rt_rows ?N (r\<lparr>rt_active := k\<rparr>)" for k using assms(2) by (simp add: rt_rows_def rows_are_def wf_world_def)
  note ask = reaches_bindI [OF reaches_total]
  have "reaches (bindQ (case client of None \<Rightarrow> returnQ res | Some c \<Rightarrow> on_world (backfill_calls qr ws c res))
      (\<lambda>res'. returnQ (res', dg))) r1 (\<lambda>_ _. True)" if "rt_rows ?N r1" for client res dg r1
  proof (cases client)
    case None
    then show ?thesis by (auto intro: reaches_bindI)
  next
    case (Some c)
    have "rt_wf r1" using that by (simp add: rt_wf_def rt_rows_def rows_are_def wf_world_def)
    then show ?thesis using Some by (simp add: reaches_then_return [OF total_lift_wf [OF total_backfill_calls]])
  qed
  then show ?thesis
    unfolding rt_find_callees_def
    by (intro reaches_enter ask [OF total_client_for N])
      (auto intro!: ask [OF total_lift [OF totalQ_find_callees [OF assms(1)]]] split: prod.split)
qed

text \<open>no query fails because a server does. Over a consistent store, whatever the supervisors, the
  servers and the refreshes in flight are doing, finding references, callers and callees, with or
  without signatures, returns a result rather than an error, and leaves the store consistent.\<close>

theorem runtime_always_answers:
  assumes "row_order_ok (qe_order (qr_engine qr))" and "rt_inv n r"
  shows "always_answers (rt_find_references qr symref filt page) r \<and>
    always_answers (rt_find_callers qr symref filt page ws) r \<and>
    always_answers (rt_find_callees qr symref filt page ws) r"
proof (intro conjI)
  have wf: "wf_world (rt_world r)" using assms(2) by (simp add: rt_inv_def)
  show "always_answers (rt_find_references qr symref filt page) r"
    by (rule always_answersI [OF _ keeps_runtime_operations(4) assms(2)])
      (simp add: rt_find_references_def cache_first_answers total_relations assms(1) wf)
  show "always_answers (rt_find_callers qr symref filt page ws) r"
    by (rule always_answersI [OF _ keeps_runtime_operations(5) assms(2)])
      (simp add: rt_find_callers_def cache_first_answers total_relations assms(1) wf)
  show "always_answers (rt_find_callees qr symref filt page ws) r"
    by (rule always_answersI [OF callees_answers [OF assms(1) wf] keeps_runtime_operations(6) assms(2)])
qed

section \<open>A small runtime\<close>

text \<open>A server that starts, and a query client that never gets an answer out of it.\<close>

definition small_runtime :: QueryRuntime where
  "small_runtime = \<lparr>qr_engine = sample_engine, qr_env = Map.empty, qr_attempt = (\<lambda>_ _. attempt_ok 7),
     qr_client = (\<lambda>_ _. failing_client)\<rparr>"

lemma small_runtime_simps [simp]:
  "qr_engine small_runtime = sample_engine" "qr_attempt small_runtime l s = attempt_ok 7"
  by (simp_all add: small_runtime_def)

theorem runtime_always_answers_witness:
  "always_answers (rt_find_callers small_runtime (Fqn ''m.A'') default_filter default_page True) (open_runtime nested_world)"
proof -
  have "rt_inv 0 (open_runtime nested_world)" by (rule open_runtime_inv) (simp add: wf_world_def)
  from runtime_always_answers [OF _ this, of small_runtime "Fqn ''m.A''" default_filter default_page True]
  show ?thesis by simp
qed

lemma first_acquire:
  "\<exists>s'. acquire (attempt_ok 7) (supervisor_for (open_runtime w) l) = (Inr 7, s')"
  by (simp add: acquire_def supervisor_for_def open_runtime_def sup_run)

theorem cache_first_contract_witness:
  "\<exists>res dg r'. cache_first small_runtime (references_relation small_runtime default_filter default_page) (Fqn ''m.A'')
       (open_runtime nested_world) = (Inr (res, dg, True), r') \<and>
     materialized 1 (references_relation small_runtime default_filter default_page) r'"
proof -
  let ?rl = "references_relation small_runtime default_filter default_page"
  let ?r = "open_runtime nested_world" and ?n = "db_nodes nested_db ! 0"
  have row: "get_node_by_fqn (w_db (rt_world ?r)) ''m.A'' = Some ?n" "n_id ?n = Some 1"
    by (simp_all add: open_runtime_def nested_world_def nested_db_def get_node_by_fqn_def row_at_def)
  obtain s' where acq: "acquire (qr_attempt small_runtime (n_language ?n) (supervisor_for ?r (n_language ?n)))
      (supervisor_for ?r (n_language ?n)) = (Inr 7, s')"
    using first_acquire by fastforce
  have cold: "\<not> materialized 1 ?rl ?r"
    by (simp add: materialized_def is_materialized_def open_runtime_def nested_world_def nested_db_def empty_db_def)
  have wf: "wf_db (w_db (rt_world ?r))" by (simp add: open_runtime_def)
  have ord: "row_order_ok (qe_order (qr_engine small_runtime))" by simp
  from cache_first_contract [OF plain_readers(1) [of small_runtime default_filter default_page] ord wf row acq] cold
  show ?thesis by (auto simp: served_cold_def)
qed

text \<open>The runtime keeps its house in order. From a consistent store, after any sequence of queries,
  wake-ups, background refreshes and restarts, the store is consistent, there is one supervisor
  per language in a meaningful state, every supervisor that was restarted is stopped with all its
  processes handed to the shutdown escalation, at most one refresh is in flight for an anchor and
  a relation, and no query still holds the gate of the watcher.\<close>

theorem runtime_invariant:
  assumes "wf_db (w_db w)"
  shows "rt_inv 0 (fold (rt_event qr) es (open_runtime w))"
  using rt_run_inv [OF open_runtime_inv] assms by (simp add: wf_world_def)

text \<open>Two queries, a crash of the server between them, a refresh and a restart.\<close>

theorem runtime_invariant_witness:
  "rt_inv 0 (fold (rt_event small_runtime)
     [FindReferences (Fqn ''m.A'') default_filter default_page, WakeSupervisor [] ExitSeen,
      FindCallers (Fqn ''m.A'') default_filter default_page True, RefreshRuns 0, RestartLanguage None]
     (open_runtime nested_world))"
  by (rule runtime_invariant) simp

end
