(* ===== verification/Drift.thy ===== *)
theory Drift
  imports Runtime_Props Reconcile_Again
begin

text \<open>
  Catching up with the disk (\<open>src/indexer/reconcile.rs\<close>): fetching a file's symbols and reconciling
  its rows, for the watcher, which trusts what it gets, and for the pass over the whole root at
  startup, which does not.
\<close>

section \<open>The site\<close>

text \<open>
  The state a pass works on: the runtime, the files of the disk by path, and the documents whose
  symbols were asked for, with the text announced, in order. \<open>si_waits\<close> counts the times a pass
  let the rest of the process run.
\<close>

record Site =
  si_rt :: Runtime
  si_disk :: "string \<Rightarrow> string option"
  si_requests :: "(string \<times> string) list"
  si_waits :: nat

type_synonym 'a tracked = "(AppError, 'a, Site) qm"

text \<open>
  The runtime; what \<open>ensure_document\<close> and then \<open>request_document_symbols\<close> yield over the
  connection of a language, given the requests before; the walk of the root; the order in which a
  hash set is iterated; and what happens while a pass waits, sleeping or for queries to finish.
\<close>

record Tracker =
  tk_runtime :: QueryRuntime
  tk_symbols :: "string \<Rightarrow> nat \<Rightarrow> (string \<times> string) list \<Rightarrow> string \<Rightarrow> string \<Rightarrow> string + DocumentSymbol list"
  tk_walk :: "(string \<Rightarrow> string option) \<Rightarrow> string \<Rightarrow> (string + WalkEntry) list"
  tk_order :: "string list \<Rightarrow> string list"
  tk_meanwhile :: "nat \<Rightarrow> Site \<Rightarrow> Site"

abbreviation tk_engine :: "Tracker \<Rightarrow> QueryEngine" where
  "tk_engine tk \<equiv> qr_engine (tk_runtime tk)"

abbreviation tk_env :: "Tracker \<Rightarrow> Env" where
  "tk_env tk \<equiv> qr_env (tk_runtime tk)"

abbreviation si_db :: "Site \<Rightarrow> Db" where
  "si_db s \<equiv> w_db (rt_world (si_rt s))"

definition on_runtime :: "'a runtime \<Rightarrow> 'a tracked" where
  "on_runtime m = (\<lambda>s. case m (si_rt s) of (x, r) \<Rightarrow> (x, s\<lparr>si_rt := r\<rparr>))"

definition on_store :: "(AppError, 'a, Db) qm \<Rightarrow> 'a tracked" where
  "on_store m = on_runtime (on_world (on_db m))"

definition wait_until_query_idle :: "Tracker \<Rightarrow> unit tracked" where
  "wait_until_query_idle tk = (\<lambda>s. (Inr (), (tk_meanwhile tk (si_waits s) s)\<lparr>si_waits := si_waits s + 1\<rparr>))"

section \<open>Reading a file\<close>

text \<open>\<open>fs::read\<close> yields the bytes; \<open>fs::read_to_string\<close> fails unless they are UTF-8.\<close>

definition continuation :: "nat \<Rightarrow> bool" where
  "continuation b \<longleftrightarrow> 0x80 \<le> b \<and> b \<le> 0xBF"

fun utf8_bytes :: "nat list \<Rightarrow> bool" where
  "utf8_bytes [] = True"
| "utf8_bytes (a # bs) =
     (if a < 0x80 then utf8_bytes bs
      else if 0xC2 \<le> a \<and> a \<le> 0xDF then
        (case bs of b # rest \<Rightarrow> continuation b \<and> utf8_bytes rest | _ \<Rightarrow> False)
      else if 0xE0 \<le> a \<and> a \<le> 0xEF then
        (case bs of b # c # rest \<Rightarrow> continuation b \<and> continuation c \<and> (a = 0xE0 \<longrightarrow> 0xA0 \<le> b) \<and>
            (a = 0xED \<longrightarrow> b \<le> 0x9F) \<and> utf8_bytes rest | _ \<Rightarrow> False)
      else if 0xF0 \<le> a \<and> a \<le> 0xF4 then
        (case bs of b # c # d # rest \<Rightarrow> continuation b \<and> continuation c \<and> continuation d \<and>
            (a = 0xF0 \<longrightarrow> 0x90 \<le> b) \<and> (a = 0xF4 \<longrightarrow> b \<le> 0x8F) \<and> utf8_bytes rest | _ \<Rightarrow> False)
      else False)"

definition read_bytes :: "(string \<Rightarrow> string option) \<Rightarrow> string \<Rightarrow> string option" where
  "read_bytes disk u = disk (uri_to_path u)"

definition read_to_string :: "(string \<Rightarrow> string option) \<Rightarrow> string \<Rightarrow> string option" where
  "read_to_string disk u = (case read_bytes disk u of
      None \<Rightarrow> None
    | Some bytes \<Rightarrow> if utf8_bytes (map of_char bytes) then Some bytes else None)"

definition current_content_hash :: "Hasher \<Rightarrow> (string \<Rightarrow> string option) \<Rightarrow> string \<Rightarrow> string option" where
  "current_content_hash H disk u = map_option (\<lambda>bytes. hex16 (H [HBytes bytes])) (read_bytes disk u)"

definition content_hash_meta_key :: "string \<Rightarrow> string" where
  "content_hash_meta_key u = ''startup_drift_content_hash::'' @ u"

section \<open>Fetching\<close>

record FetchedSymbols =
  fe_language :: string
  fe_is_external :: bool
  fe_module_fqn :: string
  fe_file_exists :: bool
  fe_real_symbol_count :: nat
  fe_symbols :: "ReconcileSymbol list"

datatype FetchOutcome = FetchUnsupported | FetchLspUnavailable | Fetched FetchedSymbols

definition reconcile_symbol :: "Hasher \<Rightarrow> FlatSymbol \<Rightarrow> ReconcileSymbol" where
  "reconcile_symbol H s = \<lparr>rs_fqn = fl_fqn s, rs_name = fl_name s, rs_kind = uint (fl_kind s),
     rs_node_kind = to_label (map_symbol_kind (fl_kind s)), rs_range = fl_range s, rs_sel = fl_sel s,
     rs_detail = fl_detail s, rs_signature_hash = signature_fingerprint H s, rs_parent = fl_parent s\<rparr>"

definition ask_symbols :: "Tracker \<Rightarrow> string \<times> nat \<Rightarrow> string \<Rightarrow> string \<Rightarrow> (DocumentSymbol list) tracked" where
  "ask_symbols tk client u text = (\<lambda>s.
     (case tk_symbols tk (fst client) (snd client) (si_requests s) u text of
        Inl e \<Rightarrow> Inl (Failed e) | Inr symbols \<Rightarrow> Inr symbols,
      s\<lparr>si_requests := si_requests s @ [(u, text)]\<rparr>))"

definition fetched_from :: "Hasher \<Rightarrow> LanguageAdapter \<Rightarrow> string \<Rightarrow> string \<Rightarrow> bool \<Rightarrow> DocumentSymbol list \<Rightarrow> FetchedSymbols" where
  "fetched_from H adapter root_uri u file_exists symbols =
     (let module_path = module_path_from_uri u root_uri;
          flat = flatten_document_symbols symbols module_path;
          all = (if file_exists then flat @ [module_root module_path] else flat)
      in \<lparr>fe_language = ad_language_name adapter, fe_is_external = is_external adapter u root_uri,
          fe_module_fqn = module_path, fe_file_exists = file_exists, fe_real_symbol_count = length flat,
          fe_symbols = map (reconcile_symbol H) all\<rparr>)"

definition fetch_uri_symbols :: "Tracker \<Rightarrow> string \<Rightarrow> string \<Rightarrow> FetchOutcome tracked" where
  "fetch_uri_symbols tk root_uri u = (case select_for_uri (tk_env tk) u of
      None \<Rightarrow> returnQ FetchUnsupported
    | Some adapter \<Rightarrow>
        bindQ (on_runtime (acquire_for_watcher (tk_runtime tk) (ad_language_name adapter))) (\<lambda>c.
          case c of
            None \<Rightarrow> returnQ FetchLspUnavailable
          | Some client \<Rightarrow> bindQ (\<lambda>s. (Inr (read_to_string (si_disk s) u), s)) (\<lambda>text.
              bindQ (ask_symbols tk client u (case text of Some t \<Rightarrow> t | None \<Rightarrow> [])) (\<lambda>symbols.
                returnQ (Fetched (fetched_from (qe_hash (tk_engine tk)) adapter root_uri u (text \<noteq> None) symbols))))))"

definition commit_symbols :: "Tracker \<Rightarrow> string \<Rightarrow> FetchedSymbols \<Rightarrow> ReconcileOutcome tracked" where
  "commit_symbols tk u f = on_store (\<lambda>d.
     case reconcile_file_symbols (qe_order (tk_engine tk)) (qe_hash (tk_engine tk)) u (fe_language f)
            (fe_is_external f) (fe_symbols f) d of
       (Inl e, d') \<Rightarrow> (Inl (DbFailed e), d')
     | (Inr oc, d') \<Rightarrow> (Inr oc, d'))"

section \<open>One file\<close>

text \<open>The watcher's step.\<close>

definition reconcile_uri :: "Tracker \<Rightarrow> string \<Rightarrow> string \<Rightarrow> unit tracked" where
  "reconcile_uri tk root_uri u = bindQ (fetch_uri_symbols tk root_uri u) (\<lambda>outcome.
     case outcome of
       FetchUnsupported \<Rightarrow> returnQ ()
     | FetchLspUnavailable \<Rightarrow> returnQ ()
     | Fetched f \<Rightarrow> bindQ (commit_symbols tk u f) (\<lambda>_. returnQ ()))"

datatype DriftAttempt = DriftCommitted | DriftSuspiciousEmpty | DriftLspUnavailable

text \<open>The startup pass's step, after the content was found changed.\<close>

definition commit_drift :: "Tracker \<Rightarrow> string \<Rightarrow> string option \<Rightarrow> FetchedSymbols \<Rightarrow> DriftAttempt tracked" where
  "commit_drift tk u current_hash f = bindQ (commit_symbols tk u f) (\<lambda>_.
     bindQ (on_store (db_update (set_meta (content_hash_meta_key u)
              (case current_hash of Some h \<Rightarrow> h | None \<Rightarrow> [])))) (\<lambda>_.
       returnQ DriftCommitted))"

definition judge_drift :: "Tracker \<Rightarrow> string \<Rightarrow> string option \<Rightarrow> FetchOutcome \<Rightarrow> DriftAttempt tracked" where
  "judge_drift tk u current_hash outcome = (case outcome of
      FetchUnsupported \<Rightarrow> returnQ DriftCommitted
    | FetchLspUnavailable \<Rightarrow> returnQ DriftLspUnavailable
    | Fetched f \<Rightarrow>
        if fe_file_exists f \<and> fe_real_symbol_count f = 0
        then bindQ (on_store (db_read (\<lambda>d. count_real_nodes d u (fe_module_fqn f)))) (\<lambda>n.
          if 0 < n then returnQ DriftSuspiciousEmpty else commit_drift tk u current_hash f)
        else commit_drift tk u current_hash f)"

definition drift_attempt :: "Tracker \<Rightarrow> string \<Rightarrow> string \<Rightarrow> DriftAttempt tracked" where
  "drift_attempt tk root_uri u =
     (if select_for_uri (tk_env tk) u = None then returnQ DriftCommitted
      else bindQ (\<lambda>s. (Inr (current_content_hash (qe_hash (tk_engine tk)) (si_disk s) u), s)) (\<lambda>current_hash.
        bindQ (on_store (db_read (\<lambda>d. get_meta d (content_hash_meta_key u)))) (\<lambda>recorded.
          if current_hash \<noteq> None \<and> recorded = current_hash then returnQ DriftCommitted
          else bindQ (fetch_uri_symbols tk root_uri u) (judge_drift tk u current_hash))))"

section \<open>The startup pass\<close>

definition drift_candidates :: "string list \<Rightarrow> string list \<Rightarrow> string list" where
  "drift_candidates discovered known = remdups (discovered @ known)"

definition suspicious_retry_attempts :: nat where
  "suspicious_retry_attempts = 5"

record DriftReport =
  dp_checked :: nat
  dp_failures :: nat
  dp_skipped :: "string list"

fun drift_first :: "Tracker \<Rightarrow> string \<Rightarrow> string list \<Rightarrow> nat \<Rightarrow> string list \<Rightarrow> (nat \<times> string list) tracked" where
  "drift_first tk root_uri [] failures suspicious = returnQ (failures, suspicious)"
| "drift_first tk root_uri (u # us) failures suspicious =
     bindQ (wait_until_query_idle tk) (\<lambda>_. bindQ (tryQ (drift_attempt tk root_uri u)) (\<lambda>r.
       case r of
         Inr DriftCommitted \<Rightarrow> drift_first tk root_uri us failures suspicious
       | Inr _ \<Rightarrow> drift_first tk root_uri us failures (suspicious @ [u])
       | Inl e \<Rightarrow> drift_first tk root_uri us (failures + 1) suspicious))"

text \<open>The retries of one file: was it resolved, and how many failures there are by then.\<close>

fun drift_retry :: "Tracker \<Rightarrow> string \<Rightarrow> string \<Rightarrow> nat \<Rightarrow> nat \<Rightarrow> (bool \<times> nat) tracked" where
  "drift_retry tk root_uri u 0 failures = returnQ (False, failures)"
| "drift_retry tk root_uri u (Suc n) failures =
     bindQ (wait_until_query_idle tk) (\<lambda>_. bindQ (tryQ (drift_attempt tk root_uri u)) (\<lambda>r.
       case r of
         Inr DriftCommitted \<Rightarrow> returnQ (True, failures)
       | Inr _ \<Rightarrow> drift_retry tk root_uri u n failures
       | Inl e \<Rightarrow> returnQ (True, failures + 1)))"

fun drift_second :: "Tracker \<Rightarrow> string \<Rightarrow> string list \<Rightarrow> nat \<Rightarrow> string list \<Rightarrow> (nat \<times> string list) tracked" where
  "drift_second tk root_uri [] failures skipped = returnQ (failures, skipped)"
| "drift_second tk root_uri (u # us) failures skipped =
     bindQ (drift_retry tk root_uri u suspicious_retry_attempts failures) (\<lambda>(resolved, failures').
       drift_second tk root_uri us failures' (if resolved then skipped else skipped @ [u]))"

definition drift_over :: "Tracker \<Rightarrow> string \<Rightarrow> string list \<Rightarrow> DriftReport tracked" where
  "drift_over tk root_uri uris = bindQ (drift_first tk root_uri uris 0 []) (\<lambda>(failures, suspicious).
     bindQ (drift_second tk root_uri suspicious failures []) (\<lambda>(failures', skipped).
       returnQ \<lparr>dp_checked = length uris, dp_failures = failures', dp_skipped = skipped\<rparr>))"

definition reconcile_startup_drift :: "Tracker \<Rightarrow> string \<Rightarrow> string \<Rightarrow> DriftReport tracked" where
  "reconcile_startup_drift tk root root_uri = (\<lambda>s.
     case discover_files (tk_env tk) (tk_walk tk (si_disk s) root) of
       Inl e \<Rightarrow> (Inl (Failed e), s)
     | Inr discovered \<Rightarrow> bindQ (on_store (db_read (known_uris (qe_order (tk_engine tk))))) (\<lambda>known.
         drift_over tk root_uri (tk_order tk (drift_candidates discovered known))) s)"

end
