(* ===== verification/Reconcile_Meta.thy ===== *)
theory Reconcile_Meta
  imports Reconcile_Spec
begin

text \<open>
  A reconcile (\<open>reconcile_file_symbols\<close> of \<open>src/graph/db.rs\<close>) never touches the metadata table:
  the health of servers and the content hashes recorded there are other writers' alone.
\<close>

section \<open>A reconcile leaves the metadata alone\<close>

lemma foldR_keeps:
  assumes "foldR f xs s = Inr t" and "\<And>x s t. f x s = Inr t \<Longrightarrow> g t = g s"
  shows "g t = g s"
  using assms by (induction xs arbitrary: s) (auto simp: bindR_eq_Inr)

lemma node_writes_meta:
  "update_node i f d = Inr d' \<Longrightarrow> db_meta d' = db_meta d"
  "upsert_node n d = Inr (j, d') \<Longrightarrow> db_meta d' = db_meta d"
  "upsert_edge e d = Inr (j, d') \<Longrightarrow> db_meta d' = db_meta d"
  "db_meta (delete_node i d) = db_meta d" "db_meta (invalidate_edges i d) = db_meta d"
  "db_meta (drop_callees u d) = db_meta d"
  by (auto simp: update_node_def upsert_node_def insert_node_def upsert_edge_def delete_node_def invalidate_edges_def drop_callees_def
      Let_def split: option.splits if_splits)

lemma reconcile_keeps_meta:
  assumes "reconcile_file_symbols ro H u lang ext syms d = (r, d')"
  shows "db_meta d' = db_meta d"
proof -
  have park: "db_meta t = db_meta s" if "park_row n s = Inr t" for n s t
    using that node_writes_meta(1) by (auto simp: park_row_def split: option.splits)
  have claimed: "db_meta e' = db_meta e" if "apply_claimed s c old e oc = Inr (k, e', oc')" for s c old e oc k e' oc'
    using that by (auto simp: apply_claimed_def bindR_eq_Inr node_writes_meta(5) dest: node_writes_meta(1)
        split: option.splits if_splits)
  have fresh: "db_meta e' = db_meta e" if "apply_fresh u lang ext s c e oc = Inr (k, e', oc')" for s c e oc k e' oc'
    using that by (auto simp: apply_fresh_def bindR_eq_Inr dest: node_writes_meta(2))
  have p3: "db_meta (fst t) = db_meta (fst s)" if "pass3_step u lang ext olds syms asg i s = Inr t" for olds asg i and s t :: Pass3State
    using that by (cases s) (auto simp: pass3_step_def bindR_eq_Inr dest!: claimed fresh split: option.splits)
  have p4: "db_meta (fst t) = db_meta (fst s)" if "pass4_step olds used j s = Inr t" for olds used j s t
    using that by (cases s) (auto simp: pass4_step_def bindR_eq_Inr node_writes_meta(4) dest: node_writes_meta(1)
        split: option.splits if_splits)
  have p5: "db_meta t = db_meta s" if "pass5_step syms ids i s = Inr t" for ids i s t
    using that by (auto simp: pass5_step_def bindR_eq_Inr dest: node_writes_meta(3) split: option.splits)
  have "db_meta e = db_meta d" if tx: "reconcile_tx ro H u lang ext syms d = Inr (oc, e)" for oc e
  proof -
    obtain olds asg used d1 d2 ids oc2 d3 where
      1: "park_all olds (drop_callees u d) = Inr d1" and
      3: "pass3 u lang ext olds syms asg d1 = Inr (d2, ids, oc2)" and
      4: "pass4 olds used (d2, oc2) = Inr (d3, oc)" and 5: "pass5 syms ids d3 = Inr e"
      using tx unfolding reconcile_tx_Inr by blast
    have "db_meta d1 = db_meta d"
      using foldR_keeps [OF 1 [unfolded park_all_def], of db_meta] park node_writes_meta(6) by fastforce
    moreover have "db_meta d2 = db_meta d1"
      using foldR_keeps [OF 3 [unfolded pass3_def], of "\<lambda>s. db_meta (fst s)"] p3 by fastforce
    moreover have "db_meta d3 = db_meta d2"
      using foldR_keeps [OF 4 [unfolded pass4_def], of "\<lambda>s. db_meta (fst s)"] p4 by fastforce
    moreover have "db_meta e = db_meta d3"
      using foldR_keeps [OF 5 [unfolded pass5_def], of db_meta] p5 by fastforce
    ultimately show ?thesis by simp
  qed
  then show ?thesis
    using assms by (auto simp: reconcile_file_symbols_def split: sum.splits)
qed

end
