(* ===== verification/Drift_Props.thy ===== *)
theory Drift_Props
  imports Drift Reconcile_Meta
begin

text \<open>
  Neither a server that does not answer nor one that is still warming up loses rows; the startup
  pass does a bounded amount of work, and once it went through, the next one does none.
\<close>

section \<open>What fetching changes\<close>

text \<open>The keys a supervisor records its state under.\<close>

definition status_key :: "string \<Rightarrow> string \<Rightarrow> bool" where
  "status_key l k \<longleftrightarrow> k \<in> {l @ ''.lsp_status'', l @ ''.lsp_consecutive_failures'', l @ ''.lsp_last_success_at''}"

definition records :: "Supervisor \<Rightarrow> Supervisor \<Rightarrow> bool" where
  "records s t \<longleftrightarrow> sv_language t = sv_language s \<and>
     (\<exists>kvs. sv_meta t = sv_meta s @ kvs \<and> (\<forall>p \<in> set kvs. status_key (sv_language s) (fst p)))"

lemma records_trans: "records a b \<Longrightarrow> records b c \<Longrightarrow> records a c"
  by (auto simp: records_def)

lemma records_frame: "sv_language t = sv_language s \<Longrightarrow> sv_meta t = sv_meta s \<Longrightarrow> records s t"
  by (simp add: records_def)

lemma records_state: "records s (record_state s)"
  by (auto simp: records_def record_state_def status_key_def)

lemma records_anomaly: "records s (transition_after_anomaly s)"
  unfolding transition_after_anomaly_def Let_def
  by (rule records_trans [OF records_frame records_state])
    (simp_all add: drop_current_gracefully_def release_def split: option.split)

lemma records_attempt: "records s (snd (attempt_start a s))"
proof (cases "at_result a")
  case (Inl e)
  show ?thesis
  proof (cases e)
    case (Provision msg)
    with Inl show ?thesis
      by (simp add: attempt_start_def Let_def, intro records_trans [OF records_frame records_state])
        (simp_all add: drop_current_def)
  next
    case (SpawnOrInit msg)
    with Inl show ?thesis
      by (simp add: attempt_start_def Let_def, intro records_trans [OF records_frame records_anomaly]) simp_all
  qed
next
  case (Inr server)
  then show ?thesis
    by (simp add: attempt_start_def Let_def, intro records_trans [OF records_frame records_state])
      (simp_all add: set_healthy_def)
qed

lemma records_acquire: "records s (snd (acquire a s))"
proof -
  have "records s (snd (start_and_settle a (record_state (s\<lparr>sv_state := Starting\<rparr>))))"
    by (simp add: start_and_settle_snd, rule records_trans [OF records_trans [OF records_frame records_state] records_attempt])
      simp_all
  then show ?thesis
    by (cases "sv_state s") (auto simp: acquire_def handle_acquire_def records_frame split: option.split)
qed

section \<open>Acquiring a client and asking\<close>

text \<open>No language is named like the key of a content hash.\<close>

definition plain_languages :: "Env \<Rightarrow> bool" where
  "plain_languages env \<longleftrightarrow> (\<forall>a \<in> set (builtin_adapters env). CHR '':'' \<notin> set (ad_language_name a))"

lemma select_plain:
  "plain_languages env \<Longrightarrow> select_for_uri env u = Some a \<Longrightarrow> CHR '':'' \<notin> set (ad_language_name a)"
  unfolding plain_languages_def select_for_uri_def by (blast dest: find_SomeD)

lemma status_key_not_hash: "CHR '':'' \<notin> set l \<Longrightarrow> status_key l k \<Longrightarrow> k \<noteq> content_hash_meta_key v"
proof
  assume l: "CHR '':'' \<notin> set l" and k: "status_key l k" and eq: "k = content_hash_meta_key v"
  have "CHR '':'' \<notin> set k" using l k by (auto simp: status_key_def)
  moreover have "CHR '':'' \<in> set (content_hash_meta_key v)" by (simp add: content_hash_meta_key_def)
  ultimately show False using eq by simp
qed

lemma content_hash_meta_key_inj [simp]: "content_hash_meta_key u = content_hash_meta_key v \<longleftrightarrow> u = v"
  by (simp add: content_hash_meta_key_def)

lemma flush_meta_other:
  assumes "records s t" and "CHR '':'' \<notin> set (sv_language s)"
  shows "get_meta (flush_meta s t d) (content_hash_meta_key v) = get_meta d (content_hash_meta_key v)"
proof -
  obtain kvs where kvs: "sv_meta t = sv_meta s @ kvs" "\<forall>p \<in> set kvs. status_key (sv_language s) (fst p)"
    using assms(1) by (auto simp: records_def)
  have "get_meta (fold (\<lambda>(k, w). set_meta k w) xs e) (content_hash_meta_key v) = get_meta e (content_hash_meta_key v)"
    if "\<forall>p \<in> set xs. status_key (sv_language s) (fst p)" for xs e
    using that
  proof (induction xs arbitrary: e)
    case (Cons p xs)
    then have "fst p \<noteq> content_hash_meta_key v" using status_key_not_hash [OF assms(2)] by simp
    with Cons show ?case by (cases p) (simp add: set_meta_def get_meta_def)
  qed simp
  then show ?thesis using kvs by (simp add: flush_meta_def)
qed

text \<open>What looking at the file \<open>u\<close> may change: rows, disk and recorded hashes stay; \<open>u\<close> was asked for at most once.\<close>

definition looked_at :: "string \<Rightarrow> Site \<Rightarrow> Site \<Rightarrow> bool" where
  "looked_at u s s' \<longleftrightarrow> same_rows (si_db s) (si_db s') \<and> si_disk s' = si_disk s \<and> si_waits s' = si_waits s \<and>
     (\<forall>v. get_meta (si_db s') (content_hash_meta_key v) = get_meta (si_db s) (content_hash_meta_key v)) \<and>
     (si_requests s' = si_requests s \<or> (\<exists>t. si_requests s' = si_requests s @ [(u, t)]))"

lemma looked_at_refl [simp]: "looked_at u s s"
  by (simp add: looked_at_def)

lemma supervisor_language: "rt_inv n r \<Longrightarrow> sv_language (supervisor_for r l) = l"
  using supervisor_for_inv by blast

lemma acquire_looked_at:
  assumes "rt_inv n (si_rt s)" and "CHR '':'' \<notin> set l"
    and "on_runtime (acquire_for_watcher qr l) s = (c, s')"
  shows "looked_at u s s' \<and> rt_inv n (si_rt s') \<and> si_requests s' = si_requests s \<and> is_ok c"
proof -
  let ?sv = "supervisor_for (si_rt s) l"
  obtain q t where acq: "acquire (qr_attempt qr l ?sv) ?sv = (q, t)" by force
  have s': "s' = s\<lparr>si_rt := put_supervisor l t (si_rt s)\<rparr>" and ok: "is_ok c"
    using assms(3) acquire_opt_Some [OF acq]
    by (auto simp: on_runtime_def acquire_for_watcher_def bindQ_Inr)
  have "records ?sv t" using records_acquire [of ?sv "qr_attempt qr l ?sv"] acq by simp
  then have "get_meta (si_db s') (content_hash_meta_key v) = get_meta (si_db s) (content_hash_meta_key v)" for v
    using flush_meta_other [of ?sv t] supervisor_language [OF assms(1)] assms(2)
    by (simp add: s' put_supervisor_def)
  moreover have "rt_inv n (si_rt s')"
    using keepsQ_snd [OF keeps_acquire_opt assms(1), of qr "Some l"] acquire_opt_Some [OF acq] s' by simp
  ultimately show ?thesis using ok by (simp add: looked_at_def s')
qed

lemma fetch_looked_at:
  assumes "rt_inv n (si_rt s)" and "plain_languages (tk_env tk)" and "fetch_uri_symbols tk root_uri u s = (r, s')"
  shows "looked_at u s s' \<and> rt_inv n (si_rt s')"
proof (cases "select_for_uri (tk_env tk) u")
  case None
  with assms show ?thesis by (simp add: fetch_uri_symbols_def)
next
  case (Some a)
  obtain c s1 where acq: "on_runtime (acquire_for_watcher (tk_runtime tk) (ad_language_name a)) s = (c, s1)" by force
  have one: "looked_at u s s1" "rt_inv n (si_rt s1)" "si_requests s1 = si_requests s" "is_ok c"
    using acquire_looked_at [OF assms(1) select_plain [OF assms(2) Some] acq] by blast+
  then obtain c' where c: "c = Inr c'" by (cases c) simp_all
  have "si_rt s' = si_rt s1" "si_disk s' = si_disk s1" "si_waits s' = si_waits s1"
    "si_requests s' = si_requests s1 \<or> (\<exists>t. si_requests s' = si_requests s1 @ [(u, t)])"
    using assms(3) acq c Some
    by (auto simp: fetch_uri_symbols_def bindQ_def ask_symbols_def returnQ_def split: option.splits sum.splits)
  with one show ?thesis by (simp add: looked_at_def)
qed

lemma fetched_facts:
  assumes "fetch_uri_symbols tk root_uri u s = (Inr (Fetched f), s')"
  obtains symbols adapter where "select_for_uri (tk_env tk) u = Some adapter"
    and "f = fetched_from (qe_hash (tk_engine tk)) adapter root_uri u (read_to_string (si_disk s) u \<noteq> None) symbols"
    and "\<And>t. read_to_string (si_disk s) u = Some t \<Longrightarrow> si_requests s' = si_requests s @ [(u, t)]"
proof -
  obtain adapter where a: "select_for_uri (tk_env tk) u = Some adapter"
    using assms by (cases "select_for_uri (tk_env tk) u") (simp_all add: fetch_uri_symbols_def)
  obtain c s1 where acq: "on_runtime (acquire_for_watcher (tk_runtime tk) (ad_language_name adapter)) s = (Inr (Some c), s1)"
    using assms a by (auto simp: fetch_uri_symbols_def bindQ_def split: prod.splits sum.splits option.splits)
  then have same: "si_disk s1 = si_disk s" "si_requests s1 = si_requests s"
    by (auto simp: on_runtime_def split: prod.splits)
  obtain symbols where f: "f = fetched_from (qe_hash (tk_engine tk)) adapter root_uri u (read_to_string (si_disk s) u \<noteq> None) symbols"
    using assms a acq same
    by (auto simp: fetch_uri_symbols_def bindQ_def ask_symbols_def returnQ_def split: sum.splits)
  have "si_requests s' = si_requests s @ [(u, t)]" if "read_to_string (si_disk s) u = Some t" for t
    using assms a acq same that
    by (auto simp: fetch_uri_symbols_def bindQ_def ask_symbols_def returnQ_def split: sum.splits)
  with a f show ?thesis by (rule that)
qed

section \<open>One attempt of the startup pass\<close>

definition batch_of :: "Tracker \<Rightarrow> string \<Rightarrow> FetchedSymbols \<Rightarrow> Db \<Rightarrow> (DbError + ReconcileOutcome) \<times> Db" where
  "batch_of tk u f d = reconcile_file_symbols (qe_order (tk_engine tk)) (qe_hash (tk_engine tk)) u (fe_language f)
     (fe_is_external f) (fe_symbols f) d"

definition recorded_hash :: "Tracker \<Rightarrow> string \<Rightarrow> Site \<Rightarrow> string" where
  "recorded_hash tk u s = (case current_content_hash (qe_hash (tk_engine tk)) (si_disk s) u of Some h \<Rightarrow> h | None \<Rightarrow> [])"

lemma commit_symbols_eq:
  "commit_symbols tk u f s = (case batch_of tk u f (si_db s) of
      (Inl e, d') \<Rightarrow> (Inl (DbFailed e), s\<lparr>si_rt := (si_rt s)\<lparr>rt_world := (rt_world (si_rt s))\<lparr>w_db := d'\<rparr>\<rparr>\<rparr>)
    | (Inr oc, d') \<Rightarrow> (Inr oc, s\<lparr>si_rt := (si_rt s)\<lparr>rt_world := (rt_world (si_rt s))\<lparr>w_db := d'\<rparr>\<rparr>\<rparr>))"
  by (simp add: commit_symbols_def batch_of_def on_store_def on_runtime_def on_world_def on_db_def
      split: prod.split sum.split)

lemma batch_failed: "batch_of tk u f d = (Inl e, d') \<Longrightarrow> d' = d"
  by (auto simp: batch_of_def reconcile_file_symbols_def split: sum.splits)

lemma on_store_eqs:
  "on_store (db_update g) s = (Inr (), s\<lparr>si_rt := (si_rt s)\<lparr>rt_world := (rt_world (si_rt s))\<lparr>w_db := g (si_db s)\<rparr>\<rparr>\<rparr>)"
  "on_store (db_read h) s = (Inr (h (si_db s)), s)"
  by (simp_all add: on_store_def on_runtime_def on_world_def on_db_def db_update_def db_read_def)

text \<open>A commit: the batch went through and the hash is on record.\<close>

definition committed :: "Tracker \<Rightarrow> string \<Rightarrow> FetchedSymbols \<Rightarrow> Site \<Rightarrow> Site \<Rightarrow> Site \<Rightarrow> bool" where
  "committed tk u f s s1 s' \<longleftrightarrow> (\<exists>oc d. batch_of tk u f (si_db s1) = (Inr oc, d) \<and>
     s' = s1\<lparr>si_rt := (si_rt s1)\<lparr>rt_world := (rt_world (si_rt s1))\<lparr>w_db :=
       set_meta (content_hash_meta_key u) (recorded_hash tk u s) d\<rparr>\<rparr>\<rparr>)"

lemma commit_drift_cases:
  "commit_drift tk u (current_content_hash (qe_hash (tk_engine tk)) (si_disk s) u) f s1 = (r, s') \<Longrightarrow>
   (s' = s1 \<and> (\<exists>e. r = Inl e)) \<or> (r = Inr DriftCommitted \<and> committed tk u f s s1 s')"
  using batch_failed [of tk u f "si_db s1"]
  by (auto simp: commit_drift_def bindQ_def commit_symbols_eq on_store_eqs committed_def recorded_hash_def
      split: prod.splits sum.splits)

definition content_unchanged :: "Tracker \<Rightarrow> string \<Rightarrow> Site \<Rightarrow> bool" where
  "content_unchanged tk u s \<longleftrightarrow> current_content_hash (qe_hash (tk_engine tk)) (si_disk s) u \<noteq> None \<and>
     get_meta (si_db s) (content_hash_meta_key u) = current_content_hash (qe_hash (tk_engine tk)) (si_disk s) u"

lemma drift_attempt_cases:
  assumes "drift_attempt tk root_uri u s = (r, s')"
  shows "(s' = s \<and> r = Inr DriftCommitted \<and> (select_for_uri (tk_env tk) u = None \<or> content_unchanged tk u s)) \<or>
    (\<not> content_unchanged tk u s \<and> (\<exists>q s1. fetch_uri_symbols tk root_uri u s = (q, s1) \<and>
       (s' = s1 \<and> (\<exists>e. r = Inl e) \<or> s' = s1 \<and> q = Inr FetchLspUnavailable \<and> r = Inr DriftLspUnavailable \<or>
        (\<exists>f. q = Inr (Fetched f) \<and>
          (s' = s1 \<and> r = Inr DriftSuspiciousEmpty \<and> fe_file_exists f \<and> fe_real_symbol_count f = 0 \<and>
             0 < count_real_nodes (si_db s1) u (fe_module_fqn f) \<or>
           r = Inr DriftCommitted \<and> committed tk u f s s1 s' \<and>
             \<not> (fe_file_exists f \<and> fe_real_symbol_count f = 0 \<and> 0 < count_real_nodes (si_db s1) u (fe_module_fqn f)))))))"
proof (cases "select_for_uri (tk_env tk) u = None \<or> content_unchanged tk u s")
  case True
  with assms show ?thesis
    by (auto simp: drift_attempt_def bindQ_def on_store_eqs content_unchanged_def split: if_splits)
next
  case False
  let ?h = "current_content_hash (qe_hash (tk_engine tk)) (si_disk s) u"
  obtain q s1 where fetch: "fetch_uri_symbols tk root_uri u s = (q, s1)" by force
  have run: "bindQ (fetch_uri_symbols tk root_uri u) (judge_drift tk u ?h) s = (r, s')"
    using assms False by (auto simp: drift_attempt_def bindQ_def on_store_eqs content_unchanged_def split: if_splits)
  have some: "select_for_uri (tk_env tk) u \<noteq> None" "\<not> content_unchanged tk u s" using False by simp_all
  show ?thesis
  proof (cases q)
    case (Inl e)
    with run fetch some show ?thesis by (auto simp: bindQ_Inl)
  next
    case (Inr outcome)
    with run fetch have judge: "judge_drift tk u ?h outcome s1 = (r, s')" by (simp add: bindQ_Inr)
    show ?thesis
    proof (cases outcome)
      case FetchUnsupported
      with fetch Inr some show ?thesis
        by (auto simp: fetch_uri_symbols_def bindQ_def ask_symbols_def split: option.splits sum.splits prod.splits)
    next
      case FetchLspUnavailable
      with judge fetch Inr some show ?thesis by (auto simp: judge_drift_def)
    next
      case (Fetched f)
      let ?odd = "fe_file_exists f \<and> fe_real_symbol_count f = 0 \<and> 0 < count_real_nodes (si_db s1) u (fe_module_fqn f)"
      show ?thesis
      proof (cases ?odd)
        case True
        with judge Fetched fetch Inr some show ?thesis
          by (auto simp: judge_drift_def bindQ_def on_store_eqs)
      next
        case odd: False
        then have "commit_drift tk u ?h f s1 = (r, s')"
          using judge Fetched by (auto simp: judge_drift_def bindQ_def on_store_eqs split: if_splits)
        from commit_drift_cases [OF this] odd Fetched fetch Inr some show ?thesis by blast
      qed
    qed
  qed
qed

lemma drift_attempt_unchanged:
  "select_for_uri (tk_env tk) u = None \<or> content_unchanged tk u s \<Longrightarrow> drift_attempt tk root_uri u s = (Inr DriftCommitted, s)"
  by (auto simp: drift_attempt_def bindQ_def on_store_eqs content_unchanged_def)

lemma count_real_nodes_rows: "same_rows d d' \<Longrightarrow> count_real_nodes d' u m = count_real_nodes d u m"
  by (simp add: count_real_nodes_def same_rows_def)

lemma committed_frame:
  assumes "committed tk u f s s1 s'" and "rt_inv n (si_rt s1)"
  shows "rt_inv n (si_rt s') \<and> si_disk s' = si_disk s1 \<and> si_waits s' = si_waits s1 \<and> si_requests s' = si_requests s1 \<and>
    get_meta (si_db s') (content_hash_meta_key u) = Some (recorded_hash tk u s) \<and>
    (\<forall>v. v \<noteq> u \<longrightarrow> get_meta (si_db s') (content_hash_meta_key v) = get_meta (si_db s1) (content_hash_meta_key v))"
proof -
  obtain oc d where b: "batch_of tk u f (si_db s1) = (Inr oc, d)"
    and s': "s' = s1\<lparr>si_rt := (si_rt s1)\<lparr>rt_world := (rt_world (si_rt s1))\<lparr>w_db :=
       set_meta (content_hash_meta_key u) (recorded_hash tk u s) d\<rparr>\<rparr>\<rparr>"
    using assms(1) by (auto simp: committed_def)
  have meta: "db_meta d = db_meta (si_db s1)" using reconcile_keeps_meta b by (simp add: batch_of_def)
  have "wf_db (si_db s1)" using assms(2) by (simp add: rt_inv_def wf_world_def)
  then have "wf_db (snd (batch_of tk u f (si_db s1)))" unfolding batch_of_def by (rule reconcile_file_symbols_wf)
  then have "wf_db d" using b by simp
  then have "rt_inv n (si_rt s')"
    using assms(2) by (simp add: s' rt_inv_def wf_world_def refreshes_ok_def set_meta_wf)
  then show ?thesis
    using meta by (simp add: s' get_meta_def set_meta_def)
qed

text \<open>What an attempt on \<open>u\<close> leaves as it was, whatever its outcome.\<close>

lemma drift_attempt_frame:
  assumes "rt_inv n (si_rt s)" and "plain_languages (tk_env tk)" and "drift_attempt tk root_uri u s = (r, s')"
  shows "rt_inv n (si_rt s') \<and> si_disk s' = si_disk s \<and> si_waits s' = si_waits s \<and>
    (si_requests s' = si_requests s \<or> (\<exists>t. si_requests s' = si_requests s @ [(u, t)])) \<and>
    (\<forall>v. v \<noteq> u \<longrightarrow> get_meta (si_db s') (content_hash_meta_key v) = get_meta (si_db s) (content_hash_meta_key v))"
  using drift_attempt_cases [OF assms(3)]
proof (elim disjE conjE exE, goal_cases)
  case 1
  with assms show ?case by simp
next
  case 2
  with assms show ?case by simp
next
  case (3 q s1)
  then show ?case using fetch_looked_at [OF assms(1,2) 3(2)] by (auto simp: looked_at_def)
next
  case (4 q s1)
  then show ?case using fetch_looked_at [OF assms(1,2) 4(2)] by (auto simp: looked_at_def)
next
  case (5 q s1 f)
  then show ?case using fetch_looked_at [OF assms(1,2) 5(2)] by (auto simp: looked_at_def)
next
  case (6 q s1 f)
  then show ?case
    using fetch_looked_at [OF assms(1,2) 6(2)] committed_frame [of tk u f s s1 s' n] by (auto simp: looked_at_def)
qed

text \<open>A commit leaves the file's content on record, whatever made it one.\<close>

lemma committed_attempt:
  assumes "rt_inv n (si_rt s)" and "plain_languages (tk_env tk)" and "drift_attempt tk root_uri u s = (Inr DriftCommitted, s')"
  shows "s' = s \<and> (select_for_uri (tk_env tk) u = None \<or> content_unchanged tk u s) \<or>
    get_meta (si_db s') (content_hash_meta_key u) = Some (recorded_hash tk u s)"
  using drift_attempt_cases [OF assms(3)]
proof (elim disjE conjE exE, goal_cases)
  case (6 q s1 f)
  then have "rt_inv n (si_rt s1)" using fetch_looked_at [OF assms(1,2) 6(2)] by blast
  with 6 committed_frame [of tk u f s s1 s' n] show ?case by blast
qed auto

text \<open>What the server answered cannot be right: no symbol, for a readable file that has rows.\<close>

definition suspicious_fetch :: "string \<Rightarrow> string \<Rightarrow> Site \<Rightarrow> FetchedSymbols \<Rightarrow> bool" where
  "suspicious_fetch root_uri u s f \<longleftrightarrow> read_to_string (si_disk s) u \<noteq> None \<and> fe_real_symbol_count f = 0 \<and>
     0 < count_real_nodes (si_db s) u (module_path_from_uri u root_uri)"

lemma suspicious_fetched:
  assumes "fetch_uri_symbols tk root_uri u s = (Inr (Fetched f), s1)" and "same_rows (si_db s) (si_db s1)"
  shows "suspicious_fetch root_uri u s f \<longleftrightarrow>
    fe_file_exists f \<and> fe_real_symbol_count f = 0 \<and> 0 < count_real_nodes (si_db s1) u (fe_module_fqn f)"
proof -
  obtain symbols adapter where
    "f = fetched_from (qe_hash (tk_engine tk)) adapter root_uri u (read_to_string (si_disk s) u \<noteq> None) symbols"
    using fetched_facts [OF assms(1)] by metis
  then show ?thesis by (simp add: suspicious_fetch_def fetched_from_def Let_def count_real_nodes_rows [OF assms(2)])
qed

text \<open>C12: The outcome of an attempt is truthful, and only a commit touches rows or the recorded content.
  With \<open>f\<close> the symbols this attempt fetched from the server: it is reported suspicious only if the
  file can be read, \<open>f\<close> has no symbol and the file has rows on record; unavailable only if no
  client was to be had; and committed either without a change, for a file no adapter knows or
  whose content is on record, or after the batch of \<open>f\<close>, and no other, went through the transaction,
  with the content recorded, and never if \<open>f\<close> is suspicious.\<close>

theorem drift_attempt_contract:
  assumes "rt_inv n (si_rt s)" and "plain_languages (tk_env tk)" and "drift_attempt tk root_uri u s = (r, s')"
  shows "(r \<noteq> Inr DriftCommitted \<longrightarrow> same_rows (si_db s) (si_db s') \<and>
       get_meta (si_db s') (content_hash_meta_key u) = get_meta (si_db s) (content_hash_meta_key u)) \<and>
    (r = Inr DriftLspUnavailable \<longrightarrow> fst (fetch_uri_symbols tk root_uri u s) = Inr FetchLspUnavailable) \<and>
    (r = Inr DriftSuspiciousEmpty \<longrightarrow> (\<exists>f. fst (fetch_uri_symbols tk root_uri u s) = Inr (Fetched f) \<and> suspicious_fetch root_uri u s f)) \<and>
    (r = Inr DriftCommitted \<longrightarrow>
       s' = s \<and> (select_for_uri (tk_env tk) u = None \<or> content_unchanged tk u s) \<or>
       (\<exists>f s1 oc d. fetch_uri_symbols tk root_uri u s = (Inr (Fetched f), s1) \<and> \<not> suspicious_fetch root_uri u s f \<and>
          same_rows (si_db s) (si_db s1) \<and> batch_of tk u f (si_db s1) = (Inr oc, d) \<and>
          si_db s' = set_meta (content_hash_meta_key u) (recorded_hash tk u s) d))"
  using drift_attempt_cases [OF assms(3)]
proof (elim disjE conjE exE, goal_cases)
  case 1
  then show ?case by simp
next
  case 2
  then show ?case by simp
next
  case (3 q s1)
  then show ?case using fetch_looked_at [OF assms(1,2) 3(2)] by (auto simp: looked_at_def)
next
  case (4 q s1)
  then show ?case using fetch_looked_at [OF assms(1,2) 4(2)] by (auto simp: looked_at_def)
next
  case (5 q s1 f)
  then have look: "looked_at u s s1" using fetch_looked_at [OF assms(1,2) 5(2)] by simp
  then have rows: "same_rows (si_db s) (si_db s1)" by (simp add: looked_at_def)
  with 5 have "suspicious_fetch root_uri u s f" using suspicious_fetched by blast
  with 5 look show ?case by (auto simp: looked_at_def)
next
  case (6 q s1 f)
  have rows: "same_rows (si_db s) (si_db s1)" using fetch_looked_at [OF assms(1,2) 6(2)] by (auto simp: looked_at_def)
  with 6 have "\<not> suspicious_fetch root_uri u s f" using suspicious_fetched by blast
  moreover obtain oc d where "batch_of tk u f (si_db s1) = (Inr oc, d)"
    "si_db s' = set_meta (content_hash_meta_key u) (recorded_hash tk u s) d"
    using 6 by (auto simp: committed_def)
  ultimately show ?case using 6 rows by blast
qed

section \<open>The work of a pass\<close>

definition times_asked :: "string \<Rightarrow> Site \<Rightarrow> nat" where
  "times_asked u s = length (filter (\<lambda>p. fst p = u) (si_requests s))"

text \<open>Whatever happens while a pass waits keeps the runtime in order and asks for no symbols.\<close>

definition patient :: "Tracker \<Rightarrow> nat \<Rightarrow> bool" where
  "patient tk n \<longleftrightarrow> (\<forall>k s. rt_inv n (si_rt s) \<longrightarrow>
     rt_inv n (si_rt (tk_meanwhile tk k s)) \<and> si_requests (tk_meanwhile tk k s) = si_requests s)"

text \<open>And changes neither a file nor a recorded hash.\<close>

definition undisturbed :: "Tracker \<Rightarrow> bool" where
  "undisturbed tk \<longleftrightarrow> (\<forall>k s. si_disk (tk_meanwhile tk k s) = si_disk s \<and>
     (\<forall>u. get_meta (si_db (tk_meanwhile tk k s)) (content_hash_meta_key u) = get_meta (si_db s) (content_hash_meta_key u)))"

text \<open>Nothing to do for a file: unknown to the adapters, missing, or as recorded.\<close>

definition quiet :: "Tracker \<Rightarrow> string \<Rightarrow> Site \<Rightarrow> bool" where
  "quiet tk u s \<longleftrightarrow> select_for_uri (tk_env tk) u = None \<or> read_bytes (si_disk s) u = None \<or> content_unchanged tk u s"

definition stays_quiet :: "Tracker \<Rightarrow> Site \<Rightarrow> Site \<Rightarrow> bool" where
  "stays_quiet tk s s' \<longleftrightarrow> undisturbed tk \<longrightarrow> (\<forall>u. quiet tk u s \<longrightarrow> quiet tk u s')"

lemma stays_quiet_trans: "stays_quiet tk a b \<Longrightarrow> stays_quiet tk b c \<Longrightarrow> stays_quiet tk a c"
  by (simp add: stays_quiet_def)

lemma attempt_after_waiting:
  assumes "patient tk n" and "plain_languages (tk_env tk)" and "rt_inv n (si_rt s)"
  obtains q s' where "bindQ (wait_until_query_idle tk) (\<lambda>_. bindQ (tryQ (drift_attempt tk root_uri u)) f) s = f q s'"
    and "rt_inv n (si_rt s')" and "si_waits s' = si_waits s + 1" and "stays_quiet tk s s'"
    and "\<And>v. times_asked v s' \<le> times_asked v s + (if v = u then 1 else 0)"
    and "q = Inr DriftCommitted \<Longrightarrow> undisturbed tk \<Longrightarrow> quiet tk u s'"
proof -
  define s1 where "s1 = (tk_meanwhile tk (si_waits s) s)\<lparr>si_waits := si_waits s + 1\<rparr>"
  have inv1: "rt_inv n (si_rt s1)" and req1: "si_requests s1 = si_requests s"
    using assms(1,3) by (simp_all add: patient_def s1_def)
  have same1: "si_disk s1 = si_disk s \<and> (\<forall>v. get_meta (si_db s1) (content_hash_meta_key v) = get_meta (si_db s) (content_hash_meta_key v))"
    if "undisturbed tk" using that by (simp add: undisturbed_def s1_def)
  obtain q s' where at: "drift_attempt tk root_uri u s1 = (q, s')" by force
  note frame = drift_attempt_frame [OF inv1 assms(2) at]
  have eq: "bindQ (wait_until_query_idle tk) (\<lambda>_. bindQ (tryQ (drift_attempt tk root_uri u)) f) s = f q s'"
    using at by (simp add: bindQ_def wait_until_query_idle_def tryQ_def s1_def)
  have fine: "quiet tk u s'" if "q = Inr DriftCommitted"
    using committed_attempt [OF inv1 assms(2), of root_uri u s'] at frame that
    by (auto simp: quiet_def content_unchanged_def recorded_hash_def current_content_hash_def split: option.splits)
  have quiet: "quiet tk v s'" if "undisturbed tk" "quiet tk v s" for v
  proof -
    have one: "quiet tk v s1" using that same1 by (simp add: quiet_def content_unchanged_def)
    show ?thesis
    proof (cases "v = u")
      case False
      with one frame show ?thesis by (simp add: quiet_def content_unchanged_def)
    next
      case True
      show ?thesis
      proof (cases "select_for_uri (tk_env tk) u = None \<or> content_unchanged tk u s1")
        case True
        then have "s' = s1" using drift_attempt_unchanged at by fastforce
        with one show ?thesis by simp
      next
        case False
        with one \<open>v = u\<close> have "read_bytes (si_disk s1) v = None" by (auto simp: quiet_def)
        with frame show ?thesis by (simp add: quiet_def)
      qed
    qed
  qed
  have "times_asked v s' \<le> times_asked v s + (if v = u then 1 else 0)" for v
    using frame req1 by (auto simp: times_asked_def)
  moreover have "si_waits s' = si_waits s + 1" using frame by (simp add: s1_def)
  ultimately show ?thesis using that [OF eq] frame quiet fine by (simp add: stays_quiet_def)
qed

lemma drift_first_run:
  assumes "patient tk n" and "plain_languages (tk_env tk)" and "rt_inv n (si_rt s)"
    and "drift_first tk root_uri us failures suspicious s = (r, s')"
  shows "\<exists>failures' odd. r = Inr (failures', suspicious @ odd) \<and> failures \<le> failures' \<and>
    failures' + length odd \<le> failures + length us \<and> set odd \<subseteq> set us \<and> (distinct us \<longrightarrow> distinct odd) \<and>
    rt_inv n (si_rt s') \<and> si_waits s' = si_waits s + length us \<and> stays_quiet tk s s' \<and>
    (\<forall>v. times_asked v s' \<le> times_asked v s + count_list us v) \<and>
    (failures' = failures \<and> undisturbed tk \<longrightarrow> (\<forall>u \<in> set us. quiet tk u s' \<or> u \<in> set odd))"
  using assms(3,4)
proof (induction us arbitrary: failures suspicious s)
  case Nil
  then show ?case by (intro exI [of _ failures] exI [of _ "[]"]) (auto simp: stays_quiet_def)
next
  case (Cons u us)
  define f where "f = (\<lambda>r :: AppError + DriftAttempt. case r of
         Inr DriftCommitted \<Rightarrow> drift_first tk root_uri us failures suspicious
       | Inr _ \<Rightarrow> drift_first tk root_uri us failures (suspicious @ [u])
       | Inl e \<Rightarrow> drift_first tk root_uri us (failures + 1) suspicious)"
  have run: "bindQ (wait_until_query_idle tk) (\<lambda>_. bindQ (tryQ (drift_attempt tk root_uri u)) f) s = (r, s')"
    using Cons.prems(2) by (simp only: drift_first.simps f_def)
  from attempt_after_waiting [OF assms(1,2) Cons.prems(1)] obtain q s1 where
    eq: "bindQ (wait_until_query_idle tk) (\<lambda>_. bindQ (tryQ (drift_attempt tk root_uri u)) f) s = f q s1"
    and inv: "rt_inv n (si_rt s1)" and w: "si_waits s1 = si_waits s + 1" and st: "stays_quiet tk s s1"
    and ask: "\<And>v. times_asked v s1 \<le> times_asked v s + (if v = u then 1 else 0)"
    and ok: "q = Inr DriftCommitted \<Longrightarrow> undisturbed tk \<Longrightarrow> quiet tk u s1" by blast
  have fq: "f q s1 = (r, s')" using run eq by simp
  have rest: ?case
    if go: "drift_first tk root_uri us F (suspicious @ new) s1 = (r, s')" and new: "set new \<subseteq> {u}" "distinct new"
      and F: "failures \<le> F" "F + length new \<le> failures + 1"
      and settled: "F = failures \<Longrightarrow> undisturbed tk \<Longrightarrow> quiet tk u s1 \<or> u \<in> set new" for F new
  proof -
    obtain failures' od where ih: "r = Inr (failures', (suspicious @ new) @ od)" "F \<le> failures'"
      "failures' + length od \<le> F + length us" "set od \<subseteq> set us" "distinct us \<longrightarrow> distinct od"
      "rt_inv n (si_rt s')" "si_waits s' = si_waits s1 + length us" "stays_quiet tk s1 s'"
      "\<forall>v. times_asked v s' \<le> times_asked v s1 + count_list us v"
      "failures' = F \<and> undisturbed tk \<longrightarrow> (\<forall>u \<in> set us. quiet tk u s' \<or> u \<in> set od)"
      using Cons.IH [OF inv go] by blast
    have "times_asked v s' \<le> times_asked v s + count_list (u # us) v" for v
      using ask [of v] ih(9) [rule_format, of v] by (simp split: if_splits)
    moreover have "failures' = failures \<and> undisturbed tk \<longrightarrow> (\<forall>v \<in> set (u # us). quiet tk v s' \<or> v \<in> set (new @ od))"
      using settled F ih(2,8,10) by (auto simp: stays_quiet_def)
    ultimately show ?thesis
      using ih w F new stays_quiet_trans [OF st ih(8)]
      by (intro exI [of _ failures'] exI [of _ "new @ od"]) auto
  qed
  consider "q = Inr DriftCommitted" | "q \<noteq> Inr DriftCommitted" "\<exists>a. q = Inr a" | e where "q = Inl e"
    by (cases q) auto
  then show ?case
  proof cases
    case 1
    with fq ok show ?thesis by (intro rest [of failures "[]"]) (simp_all add: f_def)
  next
    case 2
    with fq show ?thesis by (intro rest [of failures "[u]"]) (auto simp: f_def split: DriftAttempt.splits)
  next
    case 3
    with fq show ?thesis by (intro rest [of "failures + 1" "[]"]) (simp_all add: f_def)
  qed
qed

lemma drift_retry_run:
  assumes "patient tk n" and "plain_languages (tk_env tk)" and "rt_inv n (si_rt s)"
    and "drift_retry tk root_uri u k failures s = (r, s')"
  shows "\<exists>resolved failures'. r = Inr (resolved, failures') \<and> failures \<le> failures' \<and>
    failures' \<le> failures + (if resolved then 1 else 0) \<and>
    rt_inv n (si_rt s') \<and> si_waits s' \<le> si_waits s + k \<and> stays_quiet tk s s' \<and>
    (\<forall>v. times_asked v s' \<le> times_asked v s + (if v = u then k else 0)) \<and>
    (failures' = failures \<and> resolved \<and> undisturbed tk \<longrightarrow> quiet tk u s')"
  using assms(3,4)
proof (induction k arbitrary: s)
  case 0
  then show ?case by (intro exI [of _ False] exI [of _ failures]) (auto simp: stays_quiet_def)
next
  case (Suc k)
  define f where "f = (\<lambda>r :: AppError + DriftAttempt. case r of
         Inr DriftCommitted \<Rightarrow> (returnQ (True, failures) :: (bool \<times> nat) tracked)
       | Inr _ \<Rightarrow> drift_retry tk root_uri u k failures
       | Inl e \<Rightarrow> returnQ (True, failures + 1))"
  have run: "bindQ (wait_until_query_idle tk) (\<lambda>_. bindQ (tryQ (drift_attempt tk root_uri u)) f) s = (r, s')"
    using Suc.prems(2) by (simp only: drift_retry.simps f_def)
  from attempt_after_waiting [OF assms(1,2) Suc.prems(1)] obtain q s1 where
    eq: "bindQ (wait_until_query_idle tk) (\<lambda>_. bindQ (tryQ (drift_attempt tk root_uri u)) f) s = f q s1"
    and inv: "rt_inv n (si_rt s1)" and w: "si_waits s1 = si_waits s + 1" and st: "stays_quiet tk s s1"
    and ask: "\<And>v. times_asked v s1 \<le> times_asked v s + (if v = u then 1 else 0)"
    and ok: "q = Inr DriftCommitted \<Longrightarrow> undisturbed tk \<Longrightarrow> quiet tk u s1" by blast
  have fq: "f q s1 = (r, s')" using run eq by simp
  show ?case
  proof (cases "q \<noteq> Inr DriftCommitted \<and> (\<exists>a. q = Inr a)")
    case True
    with fq have "drift_retry tk root_uri u k failures s1 = (r, s')"
      by (auto simp: f_def split: DriftAttempt.splits)
    from Suc.IH [OF inv this] obtain resolved failures' where ih: "r = Inr (resolved, failures')" "failures \<le> failures'"
      "failures' \<le> failures + (if resolved then 1 else 0)" "rt_inv n (si_rt s')" "si_waits s' \<le> si_waits s1 + k"
      "stays_quiet tk s1 s'" "\<forall>v. times_asked v s' \<le> times_asked v s1 + (if v = u then k else 0)"
      "failures' = failures \<and> resolved \<and> undisturbed tk \<longrightarrow> quiet tk u s'" by blast
    have "\<forall>v. times_asked v s' \<le> times_asked v s + (if v = u then Suc k else 0)"
    proof
      fix v
      show "times_asked v s' \<le> times_asked v s + (if v = u then Suc k else 0)"
        using ih(7) [rule_format, of v] ask [of v] by (simp split: if_splits)
    qed
    with ih w stays_quiet_trans [OF st ih(6)] show ?thesis by simp
  next
    case False
    have "times_asked v s1 \<le> times_asked v s + (if v = u then Suc k else 0)" for v
      using ask [of v] by (simp split: if_splits)
    note asks = this
    show ?thesis
    proof (cases q)
      case (Inl e)
      with fq have "r = Inr (True, failures + 1)" "s' = s1" by (simp_all add: f_def)
      with inv w st asks show ?thesis by (intro exI [of _ True] exI [of _ "failures + 1"]) simp
    next
      case (Inr a)
      with False fq have "r = Inr (True, failures)" "s' = s1" by (simp_all add: f_def)
      with False Inr inv w st asks ok show ?thesis by (intro exI [of _ True] exI [of _ failures]) simp
    qed
  qed
qed

lemma drift_second_run:
  assumes "patient tk n" and "plain_languages (tk_env tk)" and "rt_inv n (si_rt s)"
    and "drift_second tk root_uri us failures skipped s = (r, s')"
  shows "\<exists>failures' left. r = Inr (failures', skipped @ left) \<and> failures \<le> failures' \<and>
    failures' + length left \<le> failures + length us \<and> set left \<subseteq> set us \<and>
    rt_inv n (si_rt s') \<and> si_waits s' \<le> si_waits s + 5 * length us \<and> stays_quiet tk s s' \<and>
    (\<forall>v. times_asked v s' \<le> times_asked v s + 5 * count_list us v) \<and>
    (failures' = failures \<and> left = [] \<and> undisturbed tk \<longrightarrow> (\<forall>u \<in> set us. quiet tk u s'))"
  using assms(3,4)
proof (induction us arbitrary: failures skipped s)
  case Nil
  then show ?case by (intro exI [of _ failures] exI [of _ "[]"]) (auto simp: stays_quiet_def)
next
  case (Cons u us)
  obtain q s1 where go: "drift_retry tk root_uri u 5 failures s = (q, s1)" by force
  from drift_retry_run [OF assms(1,2) Cons.prems(1) go] obtain resolved F where one: "q = Inr (resolved, F)"
    "failures \<le> F" "F \<le> failures + (if resolved then 1 else 0)" "rt_inv n (si_rt s1)" "si_waits s1 \<le> si_waits s + 5"
    "stays_quiet tk s s1" "\<forall>v. times_asked v s1 \<le> times_asked v s + (if v = u then 5 else 0)"
    "F = failures \<and> resolved \<and> undisturbed tk \<longrightarrow> quiet tk u s1" by blast
  let ?new = "if resolved then [] else [u]"
  have rest: "drift_second tk root_uri us F (skipped @ ?new) s1 = (r, s')"
    using Cons.prems(2) go one(1) by (simp add: suspicious_retry_attempts_def bindQ_Inr split: if_splits)
  from Cons.IH [OF one(4) rest] obtain failures' od where ih: "r = Inr (failures', (skipped @ ?new) @ od)" "F \<le> failures'"
    "failures' + length od \<le> F + length us" "set od \<subseteq> set us" "rt_inv n (si_rt s')"
    "si_waits s' \<le> si_waits s1 + 5 * length us" "stays_quiet tk s1 s'"
    "\<forall>v. times_asked v s' \<le> times_asked v s1 + 5 * count_list us v"
    "failures' = F \<and> od = [] \<and> undisturbed tk \<longrightarrow> (\<forall>u \<in> set us. quiet tk u s')" by blast
  have "times_asked v s' \<le> times_asked v s + 5 * count_list (u # us) v" for v
    using one(7) [rule_format, of v] ih(8) [rule_format, of v] by (simp split: if_splits)
  moreover have "failures' = failures \<and> ?new @ od = [] \<and> undisturbed tk \<longrightarrow> (\<forall>v \<in> set (u # us). quiet tk v s')"
    using one(2,8) ih(2,7,9) by (auto simp: stays_quiet_def split: if_splits)
  ultimately show ?case
    using one(2,3,5) ih stays_quiet_trans [OF one(6) ih(7)]
    by (intro exI [of _ failures'] exI [of _ "?new @ od"]) (auto split: if_splits)
qed

lemma distinct_count: "distinct xs \<Longrightarrow> count_list xs v = (if v \<in> set xs then 1 else 0)"
  by (induction xs) auto

lemma drift_over_run:
  assumes "patient tk n" and "plain_languages (tk_env tk)" and "rt_inv n (si_rt s)" and "distinct uris"
    and "drift_over tk root_uri uris s = (r, s')"
  shows "\<exists>rep. r = Inr rep \<and> dp_checked rep = length uris \<and> dp_failures rep + length (dp_skipped rep) \<le> length uris \<and>
    set (dp_skipped rep) \<subseteq> set uris \<and> rt_inv n (si_rt s') \<and> si_waits s' \<le> si_waits s + 6 * length uris \<and>
    (\<forall>v. times_asked v s' \<le> times_asked v s + (if v \<in> set uris then 6 else 0)) \<and>
    (dp_failures rep = 0 \<and> dp_skipped rep = [] \<and> undisturbed tk \<longrightarrow> (\<forall>u \<in> set uris. quiet tk u s'))"
proof -
  obtain q s1 where go1: "drift_first tk root_uri uris 0 [] s = (q, s1)" by force
  from drift_first_run [OF assms(1-3) go1] obtain F od where one: "q = Inr (F, od)" "F + length od \<le> length uris"
    "set od \<subseteq> set uris" "distinct od" "rt_inv n (si_rt s1)" "si_waits s1 = si_waits s + length uris" "stays_quiet tk s s1"
    "\<forall>v. times_asked v s1 \<le> times_asked v s + count_list uris v"
    "F = 0 \<and> undisturbed tk \<longrightarrow> (\<forall>u \<in> set uris. quiet tk u s1 \<or> u \<in> set od)" using assms(4) by auto
  obtain q2 s2 where go2: "drift_second tk root_uri od F [] s1 = (q2, s2)" by force
  from drift_second_run [OF assms(1,2) one(5) go2] obtain G left where two: "q2 = Inr (G, left)" "F \<le> G"
    "G + length left \<le> F + length od" "set left \<subseteq> set od" "rt_inv n (si_rt s2)" "si_waits s2 \<le> si_waits s1 + 5 * length od"
    "stays_quiet tk s1 s2" "\<forall>v. times_asked v s2 \<le> times_asked v s1 + 5 * count_list od v"
    "G = F \<and> left = [] \<and> undisturbed tk \<longrightarrow> (\<forall>u \<in> set od. quiet tk u s2)" by auto
  have eq: "r = Inr \<lparr>dp_checked = length uris, dp_failures = G, dp_skipped = left\<rparr>" "s' = s2"
    using assms(5) go1 go2 one(1) two(1) by (simp_all add: drift_over_def bindQ_Inr)
  have "times_asked v s2 \<le> times_asked v s + (if v \<in> set uris then 6 else 0)" for v
    using one(3,4) one(8) [rule_format, of v] two(8) [rule_format, of v] assms(4) by (auto simp: distinct_count split: if_splits)
  moreover have "G = 0 \<and> left = [] \<and> undisturbed tk \<longrightarrow> (\<forall>u \<in> set uris. quiet tk u s2)"
    using one(9) two(2,7,9) by (auto simp: stays_quiet_def)
  ultimately show ?thesis using eq one two by auto
qed

section \<open>The startup pass\<close>

definition startup_files :: "Tracker \<Rightarrow> string \<Rightarrow> Site \<Rightarrow> string list" where
  "startup_files tk root s = (case discover_files (tk_env tk) (tk_walk tk (si_disk s) root) of
      Inl e \<Rightarrow> []
    | Inr found \<Rightarrow> tk_order tk (drift_candidates found (known_uris (qe_order (tk_engine tk)) (si_db s))))"

definition reorders :: "Tracker \<Rightarrow> bool" where
  "reorders tk \<longleftrightarrow> (\<forall>xs. mset (tk_order tk xs) = mset xs)"

lemma startup_files_distinct: "reorders tk \<Longrightarrow> distinct (startup_files tk root s)"
proof -
  assume "reorders tk"
  then have "mset (tk_order tk (drift_candidates found known)) = mset (drift_candidates found known)" for found known
    by (simp add: reorders_def)
  then have "distinct (tk_order tk (drift_candidates found known))" for found known
    using mset_eq_imp_distinct_iff by (fastforce simp: drift_candidates_def)
  then show ?thesis by (simp add: startup_files_def split: sum.split)
qed

lemma startup_run:
  "reconcile_startup_drift tk root root_uri s = (case discover_files (tk_env tk) (tk_walk tk (si_disk s) root) of
      Inl e \<Rightarrow> (Inl (Failed e), s)
    | Inr found \<Rightarrow> drift_over tk root_uri (startup_files tk root s) s)"
  by (simp add: reconcile_startup_drift_def startup_files_def bindQ_def on_store_eqs split: sum.split)

text \<open>The startup pass ends in bounded work and loses nothing from its books: it fails only if the
  root cannot be walked, before doing anything; otherwise it checks every file found or on record
  once, asks for the symbols of each at most six times and of no other file, waits at most six
  times per file, counts at most one failure or skip per file, and leaves the runtime in order.\<close>

theorem drift_pass_bounded:
  assumes "patient tk n" and "plain_languages (tk_env tk)" and "rt_inv n (si_rt s)" and "reorders tk"
    and "reconcile_startup_drift tk root root_uri s = (r, s')"
  shows "case r of
      Inl e \<Rightarrow> s' = s \<and> (\<exists>msg. e = Failed msg \<and> discover_files (tk_env tk) (tk_walk tk (si_disk s) root) = Inl msg)
    | Inr rep \<Rightarrow> dp_checked rep = length (startup_files tk root s) \<and>
        dp_failures rep + length (dp_skipped rep) \<le> dp_checked rep \<and>
        set (dp_skipped rep) \<subseteq> set (startup_files tk root s) \<and>
        (\<forall>v. times_asked v s' \<le> times_asked v s + (if v \<in> set (startup_files tk root s) then 6 else 0)) \<and>
        si_waits s' \<le> si_waits s + 6 * dp_checked rep \<and> rt_inv n (si_rt s')"
proof (cases "discover_files (tk_env tk) (tk_walk tk (si_disk s) root)")
  case (Inl e)
  with assms(5) show ?thesis by (auto simp: startup_run)
next
  case (Inr found)
  with assms(5) have "drift_over tk root_uri (startup_files tk root s) s = (r, s')" by (simp add: startup_run)
  from drift_over_run [OF assms(1-3) startup_files_distinct [OF assms(4)] this] show ?thesis
    by (elim exE conjE) simp
qed

text \<open>C21: A second startup pass is free. If a pass settled every file, and nothing changes on disk, then a
  pass over files the first one knew and that exist asks no language server for anything, fails on
  no file and skips none.\<close>

theorem drift_second_pass_free:
  assumes "patient tk n" and "undisturbed tk" and "plain_languages (tk_env tk)" and "rt_inv n (si_rt s)" and "reorders tk"
    and first: "reconcile_startup_drift tk root root_uri s = (Inr rep, s')"
    and clean: "dp_failures rep = 0" "dp_skipped rep = []"
    and known: "\<forall>u \<in> set (startup_files tk root s'). u \<in> set (startup_files tk root s) \<and> read_bytes (si_disk s') u \<noteq> None"
  shows "\<exists>again s''. reconcile_startup_drift tk root root_uri s' = (again, s'') \<and> si_requests s'' = si_requests s' \<and>
    (\<forall>rep'. again = Inr rep' \<longrightarrow> dp_failures rep' = 0 \<and> dp_skipped rep' = [])"
proof -
  have "\<exists>found. discover_files (tk_env tk) (tk_walk tk (si_disk s) root) = Inr found"
    using first by (auto simp: startup_run split: sum.splits)
  then have run: "drift_over tk root_uri (startup_files tk root s) s = (Inr rep, s')" using first by (auto simp: startup_run)
  from drift_over_run [OF assms(1,3,4) startup_files_distinct [OF assms(5)] this]
  have inv: "rt_inv n (si_rt s')" and quiet: "\<forall>u \<in> set (startup_files tk root s). quiet tk u s'"
    using clean assms(2) by auto
  have settled: "\<forall>u \<in> set (startup_files tk root s'). select_for_uri (tk_env tk) u = None \<or> content_unchanged tk u s'"
    using known quiet unfolding quiet_def by blast
  have calm: "content_unchanged tk u (tk_meanwhile tk k t) \<longleftrightarrow> content_unchanged tk u t" for u k t
    using assms(2) by (simp add: undisturbed_def content_unchanged_def)
  have over: "\<exists>t'. drift_first tk root_uri us 0 [] t = (Inr (0, []), t') \<and> si_requests t' = si_requests t"
    if "\<forall>u \<in> set us. select_for_uri (tk_env tk) u = None \<or> content_unchanged tk u t" "rt_inv n (si_rt t)" for us t
    using that
  proof (induction us arbitrary: t)
    case (Cons u us)
    let ?t = "(tk_meanwhile tk (si_waits t) t)\<lparr>si_waits := si_waits t + 1\<rparr>"
    have frame: "content_unchanged tk v ?t \<longleftrightarrow> content_unchanged tk v t" for v
      using calm by (simp add: content_unchanged_def)
    then have "drift_attempt tk root_uri u ?t = (Inr DriftCommitted, ?t)"
      using Cons.prems(1) by (intro drift_attempt_unchanged) simp
    then have "drift_first tk root_uri (u # us) 0 [] t = drift_first tk root_uri us 0 [] ?t"
      by (simp add: bindQ_def wait_until_query_idle_def tryQ_def)
    moreover have "rt_inv n (si_rt ?t)" "si_requests ?t = si_requests t"
      using assms(1) Cons.prems(2) by (simp_all add: patient_def)
    ultimately show ?case using Cons.IH [of ?t] Cons.prems(1) frame by simp
  qed simp
  obtain t' where t': "drift_first tk root_uri (startup_files tk root s') 0 [] s' = (Inr (0, []), t')" "si_requests t' = si_requests s'"
    using over [OF settled inv] by blast
  then have "drift_over tk root_uri (startup_files tk root s') s' =
      (Inr \<lparr>dp_checked = length (startup_files tk root s'), dp_failures = 0, dp_skipped = []\<rparr>, t')"
    by (simp add: drift_over_def bindQ_Inr)
  then show ?thesis using t'(2) by (simp add: startup_run split: sum.split)
qed

section \<open>An edit the startup pass misses\<close>

lemma reconcile_uri_keeps_hashes:
  assumes "rt_inv n (si_rt s)" and "plain_languages (tk_env tk)" and "reconcile_uri tk root_uri u s = (r, s')"
  shows "get_meta (si_db s') (content_hash_meta_key v) = get_meta (si_db s) (content_hash_meta_key v)"
proof -
  obtain q s1 where fetch: "fetch_uri_symbols tk root_uri u s = (q, s1)" by force
  have one: "get_meta (si_db s1) (content_hash_meta_key v) = get_meta (si_db s) (content_hash_meta_key v)"
    using fetch_looked_at [OF assms(1,2) fetch] by (simp add: looked_at_def)
  have "get_meta (si_db s2) k = get_meta (si_db s1) k" if "commit_symbols tk u f s1 = (x, s2)" for f x s2 k
  proof -
    obtain b d where "batch_of tk u f (si_db s1) = (b, d)" by force
    with that reconcile_keeps_meta show ?thesis
      by (auto simp: commit_symbols_eq batch_of_def get_meta_def split: sum.splits)
  qed
  with one fetch assms(3) show ?thesis
    by (auto simp: reconcile_uri_def bindQ_def split: sum.splits prod.splits FetchOutcome.splits)
qed

text \<open>C40: The watcher does not record the content it reconciled. If a file with recorded content is
  edited while the watcher runs, and the edit is undone while no daemon runs, the startup pass
  takes the file for unchanged: it asks for nothing and keeps the rows of the undone edit.\<close>

theorem undone_edit_missed:
  assumes "rt_inv n (si_rt s)" and "plain_languages (tk_env tk)" and "content_unchanged tk u s"
    and "reconcile_uri tk root_uri u (s\<lparr>si_disk := edited\<rparr>) = (r, s1)"
  shows "drift_attempt tk root_uri u (s1\<lparr>si_disk := si_disk s\<rparr>) = (Inr DriftCommitted, s1\<lparr>si_disk := si_disk s\<rparr>)"
proof (rule drift_attempt_unchanged)
  have "get_meta (si_db s1) (content_hash_meta_key u) = get_meta (si_db s) (content_hash_meta_key u)"
    using reconcile_uri_keeps_hashes [OF _ assms(2,4), of n] assms(1) by simp
  with assms(3) show "select_for_uri (tk_env tk) u = None \<or> content_unchanged tk u (s1\<lparr>si_disk := si_disk s\<rparr>)"
    by (simp add: content_unchanged_def)
qed

section \<open>A small site\<close>

text \<open>One Go file; the server of the small runtime answers with a class and its method.\<close>

definition go_tracker :: Tracker where
  "go_tracker = \<lparr>tk_runtime = small_runtime, tk_symbols = (\<lambda>_ _ _ _ _. Inr class_tree),
     tk_walk = (\<lambda>_ _. [Inr \<lparr>we_path = ''/r/a.go'', we_is_file = Some True\<rparr>]), tk_order = (\<lambda>xs. xs), tk_meanwhile = (\<lambda>_ s. s)\<rparr>"

definition go_site :: Site where
  "go_site = \<lparr>si_rt = open_runtime \<lparr>w_db = empty_db, w_asks = []\<rparr>, si_disk = [''/r/a.go'' \<mapsto> ''x''], si_requests = [], si_waits = 0\<rparr>"

lemma go_site_inv: "rt_inv 0 (si_rt go_site)"
  by (simp add: go_site_def open_runtime_inv wf_world_def wf_empty_db)

lemma go_tracker_simps [simp]:
  "tk_runtime go_tracker = small_runtime" "qr_env small_runtime = Map.empty" "tk_symbols go_tracker l c rs u t = Inr class_tree"
  "tk_walk go_tracker d r = [Inr \<lparr>we_path = ''/r/a.go'', we_is_file = Some True\<rparr>]" "tk_order go_tracker xs = xs"
  "tk_meanwhile go_tracker k s = s"
  by (simp_all add: go_tracker_def small_runtime_def)

lemma go_laws: "patient go_tracker 0" "undisturbed go_tracker" "plain_languages Map.empty" "reorders go_tracker"
  by (simp_all add: patient_def undisturbed_def reorders_def plain_languages_def builtin_adapters_def custom_adapters_def
      parse_custom_adapters_def PythonAdapter_def TypeScriptAdapter_def RustAdapter_def GoAdapter_def)
    (simp add: split_on.simps map_filter_simps trim_str_def trim_start_def trim_end_def)?

lemma go_select: "select_for_uri Map.empty ''file:///r/a.go'' = Some GoAdapter"
  by code_simp

lemma go_files: "discover_files Map.empty [Inr \<lparr>we_path = ''/r/a.go'', we_is_file = Some True\<rparr>] = Inr [''file:///r/a.go'']"
  by code_simp

lemma go_utf8: "read_to_string disk ''file:///r/a.go'' = Some [c]"
  if "disk ''/r/a.go'' = Some [c]" "c \<in> {CHR ''x'', CHR ''y''}" for disk
proof -
  have "uri_to_path ''file:///r/a.go'' = ''/r/a.go''" by code_simp
  with that show ?thesis by (auto simp: read_to_string_def read_bytes_def)
qed

definition go_fetched :: FetchedSymbols where
  "go_fetched = fetched_from (\<lambda>_. 0) GoAdapter ''file:///r'' ''file:///r/a.go'' True class_tree"

lemma go_fetch:
  assumes "si_rt s = open_runtime w" and "si_disk s ''/r/a.go'' = Some [c]" and "c \<in> {CHR ''x'', CHR ''y''}"
  obtains s1 where "fetch_uri_symbols go_tracker ''file:///r'' ''file:///r/a.go'' s = (Inr (Fetched go_fetched), s1)"
    and "same_rows (w_db w) (si_db s1)"
proof -
  obtain t where acq: "acquire (qr_attempt small_runtime ''go'' (supervisor_for (si_rt s) ''go'')) (supervisor_for (si_rt s) ''go'') = (Inr 7, t)"
    using first_acquire assms(1) by fastforce
  have go: "ad_language_name GoAdapter = ''go''" by (simp add: GoAdapter_def)
  have "qe_hash sample_engine = (\<lambda>_. 0)" by (simp add: sample_engine_def)
  then have "fetch_uri_symbols go_tracker ''file:///r'' ''file:///r/a.go'' s =
      (Inr (Fetched go_fetched), s\<lparr>si_rt := put_supervisor ''go'' t (si_rt s), si_requests := si_requests s @ [(''file:///r/a.go'', [c])]\<rparr>)"
    using acquire_opt_Some [OF acq] go_utf8 [of "si_disk s" c, OF assms(2,3)]
    by (simp add: fetch_uri_symbols_def go_select bindQ_def on_runtime_def acquire_for_watcher_def go ask_symbols_def go_fetched_def)
  moreover have "same_rows (w_db w) (w_db (rt_world (put_supervisor ''go'' t (si_rt s))))"
    using put_supervisor_rows [of "open_runtime w"] assms(1) by (simp add: open_runtime_def)
  ultimately show ?thesis using that by simp
qed

lemma go_module: "module_path_from_uri ''file:///r/a.go'' ''file:///r'' = ''a''"
  by code_simp

lemma go_symbols:
  "map rs_fqn (fe_symbols go_fetched) = [''a.Repo'', ''a.Repo.load'', ''a'']"
  "map rs_name (fe_symbols go_fetched) = [''Repo'', ''load'', ''a'']"
  "map (\<lambda>s. start_line (rs_range s)) (fe_symbols go_fetched) = [0, 1, 0]"
  "map rs_parent (fe_symbols go_fetched) = [None, Some 0, None]"
  by (simp_all add: go_fetched_def fetched_from_def Let_def go_module flatten_document_symbols_def class_tree_def child_fqn_def flat_of_def
      reconcile_symbol_def module_root_def last_segment_def line_lsp_def to_graph_def i64_of_u32_def)

lemma map_nth_eq: "map g xs = ys \<Longrightarrow> i < length ys \<Longrightarrow> g (xs ! i) = ys ! i"
  by auto

lemma go_good:
  assumes "db_nodes d = []"
  shows "good_batch ''file:///r/a.go'' d (fe_symbols go_fetched)"
proof -
  let ?syms = "fe_symbols go_fetched"
  have len: "length ?syms = 3" using arg_cong [OF go_symbols(1), of length] by simp
  have "map (\<lambda>p. snd (snd p)) (map sym_phys ?syms) = map rs_name ?syms" by (simp only: map_map comp_def sym_phys_def snd_conv)
  moreover have "distinct (map rs_name ?syms)" unfolding go_symbols(2) by simp
  ultimately have "distinct (map sym_phys ?syms)" by (metis distinct_map)
  moreover have "p < i" if "i < 3" "rs_parent (?syms ! i) = Some p" for i p
    using map_nth_eq [OF go_symbols(4), of i] that by (auto simp: less_Suc_eq numeral_3_eq_3)
  moreover have "0 \<le> start_line (rs_range s)" if "s \<in> set ?syms" for s
  proof -
    have "start_line (rs_range s) \<in> set (map (\<lambda>s. start_line (rs_range s)) ?syms)" using that by simp
    then show ?thesis unfolding go_symbols(3) by auto
  qed
  ultimately show ?thesis
    using assms len by (simp add: good_batch_def go_symbols(1))
qed

lemma go_batch:
  assumes "wf_db d" and "db_nodes d = []"
  shows "\<exists>oc d'. batch_of go_tracker ''file:///r/a.go'' go_fetched d = (Inr oc, d') \<and> (\<forall>n \<in> set (db_nodes d'). n_uri n = ''file:///r/a.go'')"
proof -
  let ?u = "''file:///r/a.go''" and ?syms = "fe_symbols go_fetched"
  let ?olds = "nodes_by_uri table_order d ?u"
  have none: "?olds = []" by (simp add: nodes_by_uri_def table_order_def assms(2))
  then have clash: "no_restore_clash table_order (\<lambda>_. 0) ?u d ?syms" by (simp add: no_restore_clash_def)
  from reconcile_ok [OF row_order_ok_table_order assms(1) go_good [OF assms(2)] clash, of "fe_language go_fetched" "fe_is_external go_fetched"]
  obtain oc d' ids where run: "reconcile_tx table_order (\<lambda>_. 0) ?u (fe_language go_fetched) (fe_is_external go_fetched) ?syms d = Inr (oc, d')"
    and rec: "reconciled table_order (\<lambda>_. 0) ?u (fe_language go_fetched) (fe_is_external go_fetched) ?syms d ids d'" by blast
  obtain D where rows: "set (db_nodes d') = drop_container D ` ({n \<in> set (db_nodes d). n_uri n \<noteq> ?u} \<union>
       sym_row ?u (fe_language go_fetched) (fe_is_external go_fetched) ?olds ?syms (snd (match_symbols (\<lambda>_. 0) ?olds ?syms)) ids ` {..<length ?syms} \<union>
       orphaned_rows ?olds (fst (match_symbols (\<lambda>_. 0) ?olds ?syms)) (length ?olds))"
    by (rule reconciled_rows [OF rec refl refl])
  have row: "n_uri (sym_row ?u (fe_language go_fetched) (fe_is_external go_fetched) ?olds ?syms
      (snd (match_symbols (\<lambda>_. 0) ?olds ?syms)) ids i) = ?u" if "i < length ?syms" for i
    by (rule sym_row_uri [OF row_order_ok_table_order assms(1) refl that])
  have "n_uri n = ?u" if "n \<in> set (db_nodes d')" for n
    using that row unfolding rows by (auto simp: none assms(2) orphaned_rows_def)
  moreover have "batch_of go_tracker ?u go_fetched d = (Inr oc, d')"
    using run by (simp add: batch_of_def reconcile_file_symbols_def sample_engine_def)
  ultimately show ?thesis by blast
qed

abbreviation go_uri :: string where
  "go_uri \<equiv> ''file:///r/a.go''"

lemma go_commit:
  assumes "si_rt s = open_runtime w" and "wf_db (w_db w)" and "db_nodes (w_db w) = []"
    and "si_disk s ''/r/a.go'' = Some [c]" and "c \<in> {CHR ''x'', CHR ''y''}"
  obtains s1 oc d where "fetch_uri_symbols go_tracker ''file:///r'' go_uri s = (Inr (Fetched go_fetched), s1)"
    and "batch_of go_tracker go_uri go_fetched (si_db s1) = (Inr oc, d)" and "\<forall>n \<in> set (db_nodes d). n_uri n = go_uri"
proof -
  obtain s1 where f: "fetch_uri_symbols go_tracker ''file:///r'' go_uri s = (Inr (Fetched go_fetched), s1)"
    and rows: "same_rows (w_db w) (si_db s1)" using go_fetch [OF assms(1,4,5)] by blast
  have "rt_inv 0 (si_rt s)" using assms(1,2) by (simp add: open_runtime_inv wf_world_def)
  then have "rt_inv 0 (si_rt s1)" using fetch_looked_at [OF _ _ f] go_laws(3) by simp
  then have "wf_db (si_db s1)" by (simp add: rt_inv_def wf_world_def)
  moreover have "db_nodes (si_db s1) = []" using rows assms(3) by (simp add: same_rows_def)
  ultimately show ?thesis using go_batch [of "si_db s1"] that [OF f] by blast
qed

abbreviation go_site_at :: "nat \<Rightarrow> Site" where
  "go_site_at k \<equiv> go_site\<lparr>si_waits := k\<rparr>"

lemma go_attempt:
  obtains s' where "drift_attempt go_tracker ''file:///r'' go_uri (go_site_at k) = (Inr DriftCommitted, s')"
    and "\<forall>n \<in> set (db_nodes (si_db s')). n_uri n = go_uri" and "si_disk s' = si_disk go_site"
proof -
  let ?s = "go_site_at k"
  have rt: "si_rt ?s = open_runtime \<lparr>w_db = empty_db, w_asks = []\<rparr>" "si_disk ?s ''/r/a.go'' = Some [CHR ''x'']"
    by (simp_all add: go_site_def)
  obtain s1 oc d where f: "fetch_uri_symbols go_tracker ''file:///r'' go_uri ?s = (Inr (Fetched go_fetched), s1)"
    and b: "batch_of go_tracker go_uri go_fetched (si_db s1) = (Inr oc, d)" and u: "\<forall>n \<in> set (db_nodes d). n_uri n = go_uri"
    by (rule go_commit [OF rt(1) _ _ rt(2)]) (simp_all add: wf_empty_db, simp add: empty_db_def)
  have fresh: "get_meta (si_db go_site) k = None" for k
    by (simp add: go_site_def open_runtime_def get_meta_def empty_db_def)
  have "fe_real_symbol_count go_fetched \<noteq> 0"
    by (simp add: go_fetched_def fetched_from_def Let_def flatten_document_symbols_def class_tree_def)
  then have "\<exists>s'. drift_attempt go_tracker ''file:///r'' go_uri ?s = (Inr DriftCommitted, s') \<and> db_nodes (si_db s') = db_nodes d"
    using f b by (auto simp: drift_attempt_def go_select bindQ_def on_store_eqs fresh judge_drift_def commit_drift_def commit_symbols_eq set_meta_def)
  then obtain s' where s': "drift_attempt go_tracker ''file:///r'' go_uri ?s = (Inr DriftCommitted, s')"
    and same: "db_nodes (si_db s') = db_nodes d" by blast
  have "rt_inv 0 (si_rt ?s)" using go_site_inv by simp
  then have "si_disk s' = si_disk go_site" using drift_attempt_frame [OF _ _ s'] go_laws(3) by simp
  moreover have "\<forall>n \<in> set (db_nodes (si_db s')). n_uri n = go_uri" unfolding same by (rule u)
  ultimately show ?thesis using that [OF s'] by blast
qed

theorem drift_attempt_contract_witness:
  "\<exists>s'. drift_attempt go_tracker ''file:///r'' go_uri (go_site_at 2) = (Inr DriftCommitted, s') \<and>
     get_meta (si_db s') (content_hash_meta_key go_uri) = Some (recorded_hash go_tracker go_uri (go_site_at 2))"
proof -
  obtain s' where run: "drift_attempt go_tracker ''file:///r'' go_uri (go_site_at 2) = (Inr DriftCommitted, s')"
    by (rule go_attempt)
  have "rt_inv 0 (si_rt (go_site_at 2))" using go_site_inv by simp
  moreover have "\<not> content_unchanged go_tracker go_uri (go_site_at 2)"
    by (auto simp: content_unchanged_def get_meta_def go_site_def open_runtime_def empty_db_def)
  ultimately have "\<not> content_unchanged go_tracker go_uri (go_site_at 2)" "rt_inv 0 (si_rt (go_site_at 2))" by blast+
  then have "\<exists>d. si_db s' = set_meta (content_hash_meta_key go_uri) (recorded_hash go_tracker go_uri (go_site_at 2)) d"
    using drift_attempt_contract [OF _ _ run, of 0] go_laws(3) by (auto simp: go_select)
  with run show ?thesis by (auto simp: get_meta_def set_meta_def)
qed

lemma remdups_single: "set ks \<subseteq> {u} \<Longrightarrow> remdups (u # ks) = [u]"
  by (induction ks) auto

lemma go_candidates:
  assumes "\<forall>n \<in> set (db_nodes (si_db s)). n_uri n = go_uri"
  shows "startup_files go_tracker r s = [go_uri]"
proof -
  have "set (known_uris table_order (si_db s)) \<subseteq> {go_uri}"
    using assms by (auto simp: known_uris_def table_order_def)
  note one = remdups_single [OF this]
  have "drift_candidates [go_uri] (known_uris table_order (si_db s)) = [go_uri]"
    unfolding drift_candidates_def append_Cons append_Nil by (rule one)
  then show ?thesis by (simp add: startup_files_def go_files del: discover_files.simps)
qed

lemma go_pass:
  obtains s' where "reconcile_startup_drift go_tracker ''/r'' ''file:///r'' go_site =
      (Inr \<lparr>dp_checked = 1, dp_failures = 0, dp_skipped = []\<rparr>, s')"
    and "\<forall>n \<in> set (db_nodes (si_db s')). n_uri n = go_uri" and "si_disk s' = si_disk go_site"
proof -
  have files: "startup_files go_tracker ''/r'' go_site = [go_uri]"
    by (rule go_candidates) (simp add: go_site_def open_runtime_def empty_db_def)
  have waits: "si_waits go_site = 0" by (simp add: go_site_def)
  obtain s1 where s1: "drift_attempt go_tracker ''file:///r'' go_uri (go_site_at 1) = (Inr DriftCommitted, s1)"
    and u: "\<forall>n \<in> set (db_nodes (si_db s1)). n_uri n = go_uri" "si_disk s1 = si_disk go_site"
    by (rule go_attempt)
  have "reconcile_startup_drift go_tracker ''/r'' ''file:///r'' go_site =
      (Inr \<lparr>dp_checked = 1, dp_failures = 0, dp_skipped = []\<rparr>, s1)"
    using s1 by (simp add: startup_run go_files files drift_over_def bindQ_def wait_until_query_idle_def tryQ_def waits
        del: discover_files.simps)
  with u show ?thesis using that by blast
qed

theorem drift_pass_bounded_witness:
  "\<exists>s' rep. reconcile_startup_drift go_tracker ''/r'' ''file:///r'' go_site = (Inr rep, s') \<and> times_asked go_uri s' \<le> 6 \<and> rt_inv 0 (si_rt s')"
proof -
  obtain s' where run: "reconcile_startup_drift go_tracker ''/r'' ''file:///r'' go_site =
      (Inr \<lparr>dp_checked = 1, dp_failures = 0, dp_skipped = []\<rparr>, s')" by (rule go_pass)
  from drift_pass_bounded [OF go_laws(1) _ go_site_inv go_laws(4) run] go_laws(3)
  have "times_asked go_uri s' \<le> times_asked go_uri go_site + 6" "rt_inv 0 (si_rt s')" by (auto split: if_splits)
  then show ?thesis using run by (auto simp: times_asked_def go_site_def)
qed

theorem drift_second_pass_free_witness:
  "\<exists>rep s' again s''. reconcile_startup_drift go_tracker ''/r'' ''file:///r'' go_site = (Inr rep, s') \<and>
     reconcile_startup_drift go_tracker ''/r'' ''file:///r'' s' = (again, s'') \<and> si_requests s'' = si_requests s'"
proof -
  obtain s' where run: "reconcile_startup_drift go_tracker ''/r'' ''file:///r'' go_site =
      (Inr \<lparr>dp_checked = 1, dp_failures = 0, dp_skipped = []\<rparr>, s')"
    and u: "\<forall>n \<in> set (db_nodes (si_db s')). n_uri n = go_uri" and disk: "si_disk s' = si_disk go_site" by (rule go_pass)
  have path: "uri_to_path go_uri = ''/r/a.go''" by code_simp
  have "startup_files go_tracker ''/r'' s' = [go_uri]" by (rule go_candidates [OF u])
  moreover have "startup_files go_tracker ''/r'' go_site = [go_uri]"
    by (rule go_candidates) (simp add: go_site_def open_runtime_def empty_db_def)
  moreover have "read_bytes (si_disk s') go_uri \<noteq> None" by (simp add: disk read_bytes_def path go_site_def)
  ultimately show ?thesis
    using drift_second_pass_free [OF go_laws(1,2) _ go_site_inv go_laws(4) run] go_laws(3) run by fastforce
qed

text \<open>The recorded content is that of a file \<open>x\<close>, which an editor overwrites with \<open>y\<close>.\<close>

definition recorded_site :: Site where
  "recorded_site = go_site\<lparr>si_rt := open_runtime \<lparr>w_db = set_meta (content_hash_meta_key go_uri) (hex16 0) empty_db, w_asks = []\<rparr>\<rparr>"

theorem undone_edit_missed_witness:
  "\<exists>r s1. reconcile_uri go_tracker ''file:///r'' go_uri (recorded_site\<lparr>si_disk := [''/r/a.go'' \<mapsto> ''y'']\<rparr>) = (r, s1) \<and>
     drift_attempt go_tracker ''file:///r'' go_uri (s1\<lparr>si_disk := si_disk recorded_site\<rparr>) =
       (Inr DriftCommitted, s1\<lparr>si_disk := si_disk recorded_site\<rparr>)"
proof -
  obtain r s1 where run: "reconcile_uri go_tracker ''file:///r'' go_uri (recorded_site\<lparr>si_disk := [''/r/a.go'' \<mapsto> ''y'']\<rparr>) = (r, s1)"
    by force
  have inv: "rt_inv 0 (si_rt recorded_site)"
    by (simp add: recorded_site_def open_runtime_inv wf_world_def wf_empty_db set_meta_wf)
  have path: "uri_to_path go_uri = ''/r/a.go''" by code_simp
  have "content_unchanged go_tracker go_uri recorded_site"
    by (simp add: content_unchanged_def current_content_hash_def read_bytes_def path recorded_site_def go_site_def open_runtime_def
        get_meta_def set_meta_def sample_engine_def)
  from undone_edit_missed [OF inv _ this run] go_laws(3) run show ?thesis by simp
qed

end
