(* ===== verification/Watcher.thy ===== *)
theory Watcher
  imports Drift_Props
begin

text \<open>
  The filesystem watcher (\<open>src/indexer/watcher.rs\<close>): an actor that collects changed files, lets a
  burst settle, and reconciles them one after the other.
\<close>

section \<open>Events\<close>

datatype EventKind = EventAny | EventAccess | EventCreate | EventModify | EventRemove | EventOther

text \<open>What the callback of \<open>notify\<close> hands on.\<close>

definition relevant_event :: "EventKind \<Rightarrow> bool" where
  "relevant_event k \<longleftrightarrow> k \<in> {EventAny, EventCreate, EventModify, EventRemove}"

text \<open>
  What the actor is built from: the root as given and as canonicalized, if it can be; the
  root's ignore rules and the question whether a path is a directory (the crate \<open>ignore\<close> and the
  file system).
\<close>

record WatchConfig =
  wc_root :: string
  wc_canonical :: "string option"
  wc_ignored :: "string \<Rightarrow> bool \<Rightarrow> bool"
  wc_is_dir :: "string \<Rightarrow> bool"
  wc_root_uri :: string

definition canonical_root :: "WatchConfig \<Rightarrow> string" where
  "canonical_root cfg = (case wc_canonical cfg of Some c \<Rightarrow> c | None \<Rightarrow> wc_root cfg)"

text \<open>\<open>Path::join\<close>: an absolute second part replaces the first.\<close>

definition path_join :: "string \<Rightarrow> string \<Rightarrow> string" where
  "path_join a b = (if starts_with ''/'' b then b else if a = [] \<or> last a = CHR ''/'' then a @ b else a @ ''/'' @ b)"

text \<open>The rest of a path after the canonical root is written with single separators.\<close>

definition rebase_onto_literal_root :: "WatchConfig \<Rightarrow> string \<Rightarrow> string" where
  "rebase_onto_literal_root cfg p =
     (case strip_prefix (path_components (canonical_root cfg)) (path_components p) of
        Some rel \<Rightarrow> path_join (wc_root cfg) (path_string rel)
      | None \<Rightarrow> p)"

definition watch_filter :: "Env \<Rightarrow> WatchConfig \<Rightarrow> string \<Rightarrow> string option" where
  "watch_filter env cfg p =
     (let path = rebase_onto_literal_root cfg p; u = path_to_uri path
      in if wc_ignored cfg path (wc_is_dir cfg path) then None
         else if select_for_uri env u = None then None else Some u)"

section \<open>The actor\<close>

definition debounce_ms :: nat where
  "debounce_ms = 300"

text \<open>
  \<open>wt_log\<close> is a history: what was accepted, and each call of \<open>reconcile_uri\<close> with the site before it,
  its result and the site after it, in order. \<open>wt_messages\<close> counts the shutdowns waiting, \<open>wt_acked\<close>
  those answered.
\<close>

datatype WatchLog = Accepted string | Attempted string Site "AppError + unit" Site

record Watcher =
  wt_site :: Site
  wt_pending :: "string list"
  wt_debounce :: "nat option"
  wt_clock :: nat
  wt_events :: "string list"
  wt_messages :: nat
  wt_handles_dropped :: bool
  wt_running :: bool
  wt_acked :: nat
  wt_log :: "WatchLog list"

definition watch_spawn :: "Site \<Rightarrow> Watcher" where
  "watch_spawn s = \<lparr>wt_site = s, wt_pending = [], wt_debounce = None, wt_clock = 0, wt_events = [], wt_messages = 0,
     wt_handles_dropped = False, wt_running = True, wt_acked = 0, wt_log = []\<rparr>"

text \<open>The set of pending files; the order in which a hash set is drained is the tracker's.\<close>

definition add_pending :: "string \<Rightarrow> string list \<Rightarrow> string list" where
  "add_pending u us = (if u \<in> set us then us else us @ [u])"

definition on_path :: "Env \<Rightarrow> WatchConfig \<Rightarrow> string \<Rightarrow> Watcher \<Rightarrow> Watcher" where
  "on_path env cfg p w = (case watch_filter env cfg p of
      None \<Rightarrow> w
    | Some u \<Rightarrow> w\<lparr>wt_pending := add_pending u (wt_pending w), wt_debounce := Some (wt_clock w + debounce_ms),
        wt_log := wt_log w @ [Accepted u]\<rparr>)"

text \<open>The batch: an error is only logged. It yields the calls made.\<close>

fun reconcile_batch :: "Tracker \<Rightarrow> string \<Rightarrow> string list \<Rightarrow> (WatchLog list) tracked" where
  "reconcile_batch tk root_uri [] = returnQ []"
| "reconcile_batch tk root_uri (u # us) = bindQ (wait_until_query_idle tk) (\<lambda>_ s.
     case reconcile_uri tk root_uri u s of (r, s') \<Rightarrow>
       bindQ (reconcile_batch tk root_uri us) (\<lambda>calls. returnQ (Attempted u s r s' # calls)) s')"

definition on_debounce :: "Tracker \<Rightarrow> WatchConfig \<Rightarrow> Watcher \<Rightarrow> Watcher" where
  "on_debounce tk cfg w = (case reconcile_batch tk (wc_root_uri cfg) (tk_order tk (wt_pending w)) (wt_site w) of
      (calls, s) \<Rightarrow> w\<lparr>wt_debounce := None, wt_pending := [], wt_site := s,
        wt_log := wt_log w @ (case calls of Inr cs \<Rightarrow> cs | Inl e \<Rightarrow> [])\<rparr>)"

text \<open>
  One turn of the \<open>biased\<close> select: a shutdown first, then the end of the handles, then an event,
  then the timer; \<open>None\<close> when nothing is ready. (The sender of events lives as long as the actor.)
\<close>

definition watch_turn :: "Tracker \<Rightarrow> WatchConfig \<Rightarrow> Watcher \<Rightarrow> Watcher option" where
  "watch_turn tk cfg w =
     (if 0 < wt_messages w
      then Some (w\<lparr>wt_messages := wt_messages w - 1, wt_acked := wt_acked w + 1, wt_running := False\<rparr>)
      else if wt_handles_dropped w then Some (w\<lparr>wt_running := False\<rparr>)
      else (case wt_events w of
          p # ps \<Rightarrow> Some (on_path (tk_env tk) cfg p (w\<lparr>wt_events := ps\<rparr>))
        | [] \<Rightarrow> (case wt_debounce w of
            Some t \<Rightarrow> if t \<le> wt_clock w then Some (on_debounce tk cfg w) else None
          | None \<Rightarrow> None)))"

text \<open>The actor beside everything else: events, time, messages, the runtime at work, edits on disk.\<close>

inductive watch_step :: "Tracker \<Rightarrow> WatchConfig \<Rightarrow> Watcher \<Rightarrow> Watcher \<Rightarrow> bool" for tk cfg where
  turn: "wt_running w \<Longrightarrow> watch_turn tk cfg w = Some w' \<Longrightarrow> watch_step tk cfg w w'"
| event: "relevant_event k \<Longrightarrow> length (wt_events w) < 256 \<Longrightarrow> watch_step tk cfg w (w\<lparr>wt_events := wt_events w @ [p]\<rparr>)"
| tick: "watch_step tk cfg w (w\<lparr>wt_clock := wt_clock w + d\<rparr>)"
| shut: "wt_running w \<Longrightarrow> wt_messages w < 8 \<Longrightarrow> watch_step tk cfg w (w\<lparr>wt_messages := wt_messages w + 1\<rparr>)"
| dropped: "watch_step tk cfg w (w\<lparr>wt_handles_dropped := True\<rparr>)"
| query: "watch_step tk cfg w (w\<lparr>wt_site := (wt_site w)\<lparr>si_rt := rt_event (tk_runtime tk) e (si_rt (wt_site w))\<rparr>\<rparr>)"
| edit: "watch_step tk cfg w (w\<lparr>wt_site := (wt_site w)\<lparr>si_disk := disk\<rparr>\<rparr>)"

inductive watch_steps :: "Tracker \<Rightarrow> WatchConfig \<Rightarrow> Watcher \<Rightarrow> Watcher \<Rightarrow> bool" for tk cfg where
  start: "watch_steps tk cfg w w"
| further: "watch_steps tk cfg w w1 \<Longrightarrow> watch_step tk cfg w1 w2 \<Longrightarrow> watch_steps tk cfg w w2"

section \<open>Nothing accepted is forgotten\<close>

definition about :: "string \<Rightarrow> WatchLog \<Rightarrow> bool" where
  "about u e \<longleftrightarrow> (case e of Accepted v \<Rightarrow> v = u | Attempted v s r s' \<Rightarrow> v = u)"

text \<open>An edit of \<open>u\<close> was accepted and no reconcile of \<open>u\<close> attempted since.\<close>

definition outstanding :: "string \<Rightarrow> WatchLog list \<Rightarrow> bool" where
  "outstanding u es \<longleftrightarrow> (let mine = filter (about u) es in mine \<noteq> [] \<and> last mine = Accepted u)"

definition watch_inv :: "Watcher \<Rightarrow> bool" where
  "watch_inv w \<longleftrightarrow> rt_inv 0 (si_rt (wt_site w)) \<and> distinct (wt_pending w) \<and>
     (wt_pending w = [] \<longleftrightarrow> wt_debounce w = None) \<and> (\<forall>u. u \<in> set (wt_pending w) \<longleftrightarrow> outstanding u (wt_log w)) \<and>
     (\<forall>t. wt_debounce w = Some t \<longrightarrow> t \<le> wt_clock w + debounce_ms)"

lemma outstanding_accepted: "outstanding u (es @ [Accepted v]) \<longleftrightarrow> u = v \<or> outstanding u es"
  by (auto simp: outstanding_def about_def Let_def)

text \<open>The calls of a batch: one for each file in turn, after a wait, from the site the call before it left.\<close>

definition after_wait :: "Tracker \<Rightarrow> Site \<Rightarrow> Site" where
  "after_wait tk s = (tk_meanwhile tk (si_waits s) s)\<lparr>si_waits := si_waits s + 1\<rparr>"

definition one_attempt :: "Tracker \<Rightarrow> string \<Rightarrow> string \<Rightarrow> Site \<Rightarrow> WatchLog" where
  "one_attempt tk root_uri u s = (case reconcile_uri tk root_uri u (after_wait tk s) of
      (r, s') \<Rightarrow> Attempted u (after_wait tk s) r s')"

definition attempt_in_turn :: "Tracker \<Rightarrow> string \<Rightarrow> string list \<Rightarrow> Site list \<Rightarrow> WatchLog list \<Rightarrow> bool" where
  "attempt_in_turn tk root_uri us sites calls \<longleftrightarrow> length sites = length us + 1 \<and> length calls = length us \<and>
     (\<forall>k < length us. calls ! k = one_attempt tk root_uri (us ! k) (sites ! k) \<and>
        sites ! Suc k = snd (reconcile_uri tk root_uri (us ! k) (after_wait tk (sites ! k))))"

lemma batch_calls:
  obtains calls sites where "reconcile_batch tk root_uri us s = (Inr calls, last sites)"
    and "attempt_in_turn tk root_uri us sites calls" and "hd sites = s"
proof -
  have "\<exists>calls sites. reconcile_batch tk root_uri us s = (Inr calls, last sites) \<and>
      attempt_in_turn tk root_uri us sites calls \<and> sites \<noteq> [] \<and> hd sites = s"
  proof (induction us arbitrary: s)
    case Nil
    show ?case by (intro exI [of _ "[]"] exI [of _ "[s]"]) (simp add: attempt_in_turn_def returnQ_def)
  next
    case (Cons u us)
    obtain r s' where run: "reconcile_uri tk root_uri u (after_wait tk s) = (r, s')" by force
    obtain calls sites where rest: "reconcile_batch tk root_uri us s' = (Inr calls, last sites)"
      "attempt_in_turn tk root_uri us sites calls" "sites \<noteq> []" "hd sites = s'"
      using Cons.IH by blast
    have "attempt_in_turn tk root_uri (u # us) (s # sites) (Attempted u (after_wait tk s) r s' # calls)"
      using rest(2-4) run by (auto simp: attempt_in_turn_def one_attempt_def less_Suc_eq_0_disj hd_conv_nth)
    with rest run show ?case
      by (intro exI [of _ "Attempted u (after_wait tk s) r s' # calls"] exI [of _ "s # sites"])
        (simp add: bindQ_def wait_until_query_idle_def after_wait_def returnQ_def)
  qed
  then show ?thesis using that by blast
qed

lemma about_attempt [simp]: "about u (one_attempt tk root_uri v s) \<longleftrightarrow> v = u" "one_attempt tk root_uri v s \<noteq> Accepted u"
    "Accepted u \<noteq> one_attempt tk root_uri v s"
  by (simp_all add: one_attempt_def about_def split: prod.split)

lemma outstanding_attempts:
  assumes "attempt_in_turn tk root_uri us sites calls"
  shows "outstanding u (es @ calls) \<longleftrightarrow> u \<notin> set us \<and> outstanding u es"
proof -
  have calls: "calls = map (\<lambda>k. one_attempt tk root_uri (us ! k) (sites ! k)) [0..<length us]"
    using assms by (intro nth_equalityI) (simp_all add: attempt_in_turn_def)
  have "filter (about u) calls = [] \<longleftrightarrow> u \<notin> set us" unfolding calls by (auto simp: filter_empty_conv in_set_conv_nth)
  moreover have "last (filter (about u) calls) \<noteq> Accepted u" if "filter (about u) calls \<noteq> []"
    using last_in_set [OF that] unfolding calls by auto
  ultimately show ?thesis by (auto simp: outstanding_def Let_def last_append)
qed

lemma reconcile_uri_frame:
  assumes "rt_inv n (si_rt s)" and "plain_languages (tk_env tk)" and "reconcile_uri tk root_uri u s = (r, s')"
  shows "rt_inv n (si_rt s')"
proof -
  obtain q s1 where fetch: "fetch_uri_symbols tk root_uri u s = (q, s1)" by force
  have inv: "rt_inv n (si_rt s1)" using fetch_looked_at [OF assms(1,2) fetch] by simp
  have "rt_inv n (si_rt s2)" if "commit_symbols tk u f s1 = (x, s2)" for f x s2
  proof -
    have "wf_db (snd (batch_of tk u f (si_db s1)))"
      unfolding batch_of_def using inv by (intro reconcile_file_symbols_wf) (simp add: rt_inv_def wf_world_def)
    with that inv show ?thesis
      by (auto simp: commit_symbols_eq rt_inv_def wf_world_def refreshes_ok_def split: prod.splits sum.splits)
  qed
  with inv fetch assms(3) show ?thesis
    by (auto simp: reconcile_uri_def bindQ_def split: sum.splits prod.splits FetchOutcome.splits)
qed

text \<open>
  What a call did: the batch fetched went through the transaction; or nothing could be fetched, or the
  batch was refused, and the rows are as they were. The disk is not touched.
\<close>

fun truthful :: "Tracker \<Rightarrow> string \<Rightarrow> WatchLog \<Rightarrow> bool" where
  "truthful tk root_uri (Accepted u) = True"
| "truthful tk root_uri (Attempted u s r s') = (si_disk s' = si_disk s \<and>
     (case fetch_uri_symbols tk root_uri u s of
        (Inr (Fetched f), s1) \<Rightarrow> same_rows (si_db s) (si_db s1) \<and>
          (case batch_of tk u f (si_db s1) of
             (Inr oc, d) \<Rightarrow> r = Inr () \<and> si_db s' = d
           | (Inl e, d) \<Rightarrow> r = Inl (DbFailed e) \<and> same_rows (si_db s) (si_db s'))
      | (Inr _, s1) \<Rightarrow> r = Inr () \<and> same_rows (si_db s) (si_db s')
      | (Inl e, s1) \<Rightarrow> r = Inl e \<and> same_rows (si_db s) (si_db s')))"

lemma reconcile_uri_truthful:
  assumes "rt_inv n (si_rt s)" and "plain_languages (tk_env tk)" and "reconcile_uri tk root_uri u s = (r, s')"
  shows "truthful tk root_uri (Attempted u s r s')"
proof -
  obtain q s1 where fetch: "fetch_uri_symbols tk root_uri u s = (q, s1)" by force
  have look: "same_rows (si_db s) (si_db s1)" "si_disk s1 = si_disk s"
    using fetch_looked_at [OF assms(1,2) fetch] by (simp_all add: looked_at_def)
  with fetch assms(3) show ?thesis
    by (auto dest: batch_failed simp: reconcile_uri_def bindQ_def returnQ_def commit_symbols_eq split: sum.splits prod.splits FetchOutcome.splits)
qed

lemma attempts_inv:
  assumes "patient tk n" and "plain_languages (tk_env tk)" and "attempt_in_turn tk root_uri us sites calls"
    and "rt_inv n (si_rt (hd sites))"
  shows "rt_inv n (si_rt (last sites)) \<and> (\<forall>e \<in> set calls. truthful tk root_uri e)"
proof -
  have len: "length sites = length us + 1" "length calls = length us" "sites \<noteq> []"
    using assms(3) by (auto simp: attempt_in_turn_def)
  have wait: "rt_inv n (si_rt (after_wait tk s))" if "rt_inv n (si_rt s)" for s
    using assms(1) that by (simp add: patient_def after_wait_def)
  have inv: "rt_inv n (si_rt (sites ! k))" if "k \<le> length us" for k
    using that
  proof (induction k)
    case 0
    then show ?case using assms(4) len by (simp add: hd_conv_nth)
  next
    case (Suc k)
    then have "sites ! Suc k = snd (reconcile_uri tk root_uri (us ! k) (after_wait tk (sites ! k)))"
      using assms(3) by (simp add: attempt_in_turn_def)
    with Suc show ?case using reconcile_uri_frame [OF wait assms(2)] by (metis Suc_leD prod.collapse)
  qed
  have "truthful tk root_uri (calls ! k)" if "k < length us" for k
  proof -
    obtain r s' where run: "reconcile_uri tk root_uri (us ! k) (after_wait tk (sites ! k)) = (r, s')" by force
    then have "calls ! k = Attempted (us ! k) (after_wait tk (sites ! k)) r s'"
      using assms(3) that by (simp add: attempt_in_turn_def one_attempt_def)
    then show ?thesis using reconcile_uri_truthful [OF wait [OF inv] assms(2) run] that by simp
  qed
  then have "\<forall>e \<in> set calls. truthful tk root_uri e" using len(2) by (auto simp: in_set_conv_nth simp del: truthful.simps)
  moreover have "last sites = sites ! length us" using len by (simp add: last_conv_nth)
  ultimately show ?thesis using inv by simp
qed

text \<open>The timer's turn, by its calls.\<close>

lemma on_debounce_calls:
  obtains calls sites where "on_debounce tk cfg w = w\<lparr>wt_debounce := None, wt_pending := [], wt_site := last sites,
      wt_log := wt_log w @ calls\<rparr>"
    and "attempt_in_turn tk (wc_root_uri cfg) (tk_order tk (wt_pending w)) sites calls" and "hd sites = wt_site w"
  by (rule batch_calls [of tk "wc_root_uri cfg" "tk_order tk (wt_pending w)" "wt_site w"]) (simp add: on_debounce_def)

lemma shuffled: "reorders tk \<Longrightarrow> set (tk_order tk xs) = set xs \<and> (distinct (tk_order tk xs) \<longleftrightarrow> distinct xs)"
  unfolding reorders_def by (metis mset_eq_imp_distinct_iff mset_eq_setD)

lemma watch_turn_inv:
  assumes "patient tk 0" and "plain_languages (tk_env tk)" and "reorders tk"
    and "watch_inv w" and "watch_turn tk cfg w = Some w'"
  shows "watch_inv w'"
proof -
  have deb: "watch_inv (on_debounce tk cfg w)"
  proof -
    obtain calls sites where c: "on_debounce tk cfg w = w\<lparr>wt_debounce := None, wt_pending := [], wt_site := last sites,
        wt_log := wt_log w @ calls\<rparr>"
      "attempt_in_turn tk (wc_root_uri cfg) (tk_order tk (wt_pending w)) sites calls" "hd sites = wt_site w"
      by (rule on_debounce_calls)
    show ?thesis
      using assms(4) shuffled [OF assms(3), of "wt_pending w"] attempts_inv [OF assms(1,2) c(2)] c(3)
      by (simp add: c(1) watch_inv_def outstanding_attempts [OF c(2)])
  qed
  have path: "watch_inv (on_path env cfg p (w\<lparr>wt_events := ps\<rparr>))" for env p ps
    using assms(4) by (auto simp: watch_inv_def on_path_def outstanding_accepted add_pending_def split: option.split)
  show ?thesis
    using assms(4,5) deb path
    by (auto simp: watch_turn_def watch_inv_def split: if_splits list.splits option.splits)
qed

lemma watch_step_inv:
  assumes "patient tk 0" and "plain_languages (tk_env tk)" and "reorders tk"
    and "watch_step tk cfg w w'" and "watch_inv w"
  shows "watch_inv w'"
  using assms(4,5)
proof (cases rule: watch_step.cases)
  case turn
  then show ?thesis using watch_turn_inv [OF assms(1-3,5)] by blast
next
  case (query e)
  with assms(5) rt_event_inv show ?thesis by (simp add: watch_inv_def)
qed (auto simp: watch_inv_def)

text \<open>The history stays truthful.\<close>

lemma watch_turn_truthful:
  assumes "patient tk 0" and "plain_languages (tk_env tk)" and "watch_inv w" and "watch_turn tk cfg w = Some w'"
    and "\<forall>e \<in> set (wt_log w). truthful tk (wc_root_uri cfg) e"
  shows "\<forall>e \<in> set (wt_log w'). truthful tk (wc_root_uri cfg) e"
proof -
  have "\<forall>e \<in> set (wt_log (on_debounce tk cfg w)). truthful tk (wc_root_uri cfg) e"
  proof -
    obtain calls sites where c: "on_debounce tk cfg w = w\<lparr>wt_debounce := None, wt_pending := [], wt_site := last sites,
        wt_log := wt_log w @ calls\<rparr>"
      "attempt_in_turn tk (wc_root_uri cfg) (tk_order tk (wt_pending w)) sites calls" "hd sites = wt_site w"
      by (rule on_debounce_calls)
    then show ?thesis using attempts_inv [OF assms(1,2) c(2)] assms(3,5) by (auto simp: watch_inv_def)
  qed
  moreover have "\<forall>e \<in> set (wt_log (on_path env cfg p (w\<lparr>wt_events := ps\<rparr>))). truthful tk (wc_root_uri cfg) e" for env p ps
    using assms(5) by (auto simp: on_path_def split: option.split)
  ultimately show ?thesis
    using assms(4,5) by (auto simp: watch_turn_def simp del: truthful.simps split: if_splits list.splits option.splits)
qed

text \<open>C24: No accepted edit is passed over, and the history says what became of it. However events, time,
  shutdowns, queries and edits on disk interleave with the watcher, the files pending are exactly
  those with an edit accepted and no reconcile attempted since, and a timer of at most the
  debounce time is armed whenever there is one; every attempt on record either brought the batch it
  fetched through the transaction, or fetched nothing or was refused, with the rows as they were;
  and the runtime stays in order. (An edit whose attempt fetched nothing is not tried again.)\<close>

theorem watcher_forgets_nothing:
  assumes "patient tk 0" and "plain_languages (tk_env tk)" and "reorders tk" and "rt_inv 0 (si_rt s)"
    and "watch_steps tk cfg (watch_spawn s) w"
  shows "watch_inv w \<and> (\<forall>e \<in> set (wt_log w). truthful tk (wc_root_uri cfg) e)"
  using assms(5)
proof (induction "watch_spawn s" w rule: watch_steps.induct)
  case start
  show ?case using assms(4) by (simp add: watch_inv_def watch_spawn_def outstanding_def)
next
  case (further w1 w2)
  then have inv: "watch_inv w2" using watch_step_inv [OF assms(1-3)] by blast
  from further(3) have "\<forall>e \<in> set (wt_log w2). truthful tk (wc_root_uri cfg) e"
  proof (cases rule: watch_step.cases)
    case turn
    then show ?thesis using watch_turn_truthful [OF assms(1,2)] further(2) by blast
  qed (use further(2) in \<open>simp_all del: truthful.simps\<close>)
  with inv show ?case by simp
qed

section \<open>A burst settles\<close>

definition one_turn :: "Tracker \<Rightarrow> WatchConfig \<Rightarrow> Watcher \<Rightarrow> Watcher" where
  "one_turn tk cfg w = (if wt_running w then case watch_turn tk cfg w of Some w' \<Rightarrow> w' | None \<Rightarrow> w else w)"

definition accepted :: "Env \<Rightarrow> WatchConfig \<Rightarrow> string list \<Rightarrow> string list" where
  "accepted env cfg ps = List.map_filter (watch_filter env cfg) ps"

definition undisturbed_actor :: "Watcher \<Rightarrow> bool" where
  "undisturbed_actor w \<longleftrightarrow> wt_running w \<and> wt_messages w = 0 \<and> \<not> wt_handles_dropped w"

lemma events_drain:
  assumes "undisturbed_actor w" and "watch_inv w"
  shows "\<exists>w1. (one_turn tk cfg ^^ length (wt_events w)) w = w1 \<and> undisturbed_actor w1 \<and> wt_events w1 = [] \<and>
    wt_clock w1 = wt_clock w \<and> wt_site w1 = wt_site w \<and> watch_inv w1 \<and>
    wt_log w1 = wt_log w @ map Accepted (accepted (tk_env tk) cfg (wt_events w)) \<and>
    set (wt_pending w1) = set (wt_pending w) \<union> set (accepted (tk_env tk) cfg (wt_events w))"
  using assms
proof (induction "wt_events w" arbitrary: w)
  case Nil
  then show ?case by (simp add: accepted_def map_filter_simps flip: Nil.hyps)
next
  case (Cons p ps)
  let ?w = "on_path (tk_env tk) cfg p (w\<lparr>wt_events := ps\<rparr>)"
  have turn: "one_turn tk cfg w = ?w"
    using Cons.hyps(2) Cons.prems(1) by (simp add: one_turn_def watch_turn_def undisturbed_actor_def flip: Cons.hyps(2))
  have w: "undisturbed_actor ?w" "wt_events ?w = ps" "wt_clock ?w = wt_clock w" "wt_site ?w = wt_site w"
    "wt_log ?w = wt_log w @ map Accepted (accepted (tk_env tk) cfg [p])"
    "set (wt_pending ?w) = set (wt_pending w) \<union> set (accepted (tk_env tk) cfg [p])"
    using Cons.prems(1)
    by (auto simp: on_path_def undisturbed_actor_def accepted_def map_filter_simps add_pending_def split: option.split)
  have inv: "watch_inv ?w"
    using Cons.prems(2) by (auto simp: watch_inv_def on_path_def outstanding_accepted add_pending_def split: option.split)
  have cons: "accepted (tk_env tk) cfg (p # ps) = accepted (tk_env tk) cfg [p] @ accepted (tk_env tk) cfg ps"
    by (simp add: accepted_def map_filter_simps split: option.split)
  have "(one_turn tk cfg ^^ length (wt_events w)) w = (one_turn tk cfg ^^ length ps) ?w"
    by (simp add: turn funpow_swap1 flip: Cons.hyps(2))
  with Cons.hyps(1) [of ?w] w inv show ?case by (simp add: cons Un_assoc flip: Cons.hyps(2))
qed

text \<open>C25: A burst of events is coalesced and served. A running watcher without messages works off the
  events queued, and once the debounce time has passed its next turn calls \<open>reconcile_uri\<close> exactly
  once for every file pending or accepted, in some order, each call from the site its predecessor
  left, whatever the results of the earlier ones; the results are on record, nothing is pending.\<close>

theorem watcher_settles:
  assumes "watch_inv w" and "undisturbed_actor w" and "reorders tk" and "debounce_ms \<le> d"
    and w1: "w1 = (one_turn tk cfg ^^ length (wt_events w)) w"
    and w2: "w2 = one_turn tk cfg (w1\<lparr>wt_clock := wt_clock w1 + d\<rparr>)"
  shows "\<exists>uris sites calls. distinct uris \<and> set uris = set (wt_pending w) \<union> set (accepted (tk_env tk) cfg (wt_events w)) \<and>
    attempt_in_turn tk (wc_root_uri cfg) uris sites calls \<and> hd sites = wt_site w \<and> wt_site w2 = last sites \<and>
    wt_log w2 = wt_log w @ map Accepted (accepted (tk_env tk) cfg (wt_events w)) @ calls \<and>
    wt_pending w2 = [] \<and> wt_events w2 = [] \<and> undisturbed_actor w2"
proof -
  note one = events_drain [OF assms(2,1), of tk cfg, folded w1]
  let ?w = "w1\<lparr>wt_clock := wt_clock w1 + d\<rparr>"
  show ?thesis
  proof (cases "wt_debounce w1")
    case None
    then have none: "wt_pending w1 = []" using one by (auto simp: watch_inv_def)
    have "w2 = ?w" using None one by (auto simp: w2 one_turn_def watch_turn_def undisturbed_actor_def)
    then show ?thesis using one none
      by (intro exI [of _ "[]"] exI [of _ "[wt_site w]"]) (auto simp: undisturbed_actor_def attempt_in_turn_def)
  next
    case (Some t)
    then have "t \<le> wt_clock w1 + d" using one assms(4) by (auto simp: watch_inv_def)
    then have w2: "w2 = on_debounce tk cfg ?w"
      using Some one by (auto simp: w2 one_turn_def watch_turn_def undisturbed_actor_def)
    obtain calls sites where c: "on_debounce tk cfg ?w = ?w\<lparr>wt_debounce := None, wt_pending := [], wt_site := last sites,
        wt_log := wt_log ?w @ calls\<rparr>"
      "attempt_in_turn tk (wc_root_uri cfg) (tk_order tk (wt_pending ?w)) sites calls" "hd sites = wt_site ?w"
      by (rule on_debounce_calls)
    have fields: "wt_site w2 = last sites" "wt_log w2 = wt_log w1 @ calls" "wt_pending w2 = []" "wt_events w2 = wt_events w1"
      "undisturbed_actor w2 = undisturbed_actor w1"
      unfolding w2 c(1) by (simp_all add: undisturbed_actor_def)
    have "distinct (wt_pending w1)" using one by (simp add: watch_inv_def)
    then show ?thesis
      using one shuffled [OF assms(3), of "wt_pending w1"] c(2,3)
      by (intro exI [of _ "tk_order tk (wt_pending w1)"] exI [of _ sites] exI [of _ calls]) (simp add: fields)
  qed
qed

section \<open>A small watcher\<close>

definition go_config :: WatchConfig where
  "go_config = \<lparr>wc_root = ''/r'', wc_canonical = Some ''/p/r'', wc_ignored = (\<lambda>_ _. False), wc_is_dir = (\<lambda>_. False),
     wc_root_uri = ''file:///r''\<rparr>"

text \<open>The path of the event is below the canonical root, the file is known by its literal path.\<close>

lemma go_accepts: "watch_filter Map.empty go_config ''/p/r/a.go'' = Some go_uri"
  by code_simp

definition two_saves :: Watcher where
  "two_saves = (watch_spawn go_site)\<lparr>wt_events := [''/p/r/a.go'', ''/p/r/a.go'']\<rparr>"

lemma two_saves_steps: "watch_steps go_tracker go_config (watch_spawn go_site) two_saves"
proof -
  let ?w = "watch_spawn go_site"
  have "watch_step go_tracker go_config ?w (?w\<lparr>wt_events := wt_events ?w @ [''/p/r/a.go'']\<rparr>)"
    by (rule watch_step.event [of EventModify]) (simp_all add: relevant_event_def watch_spawn_def)
  moreover have "watch_step go_tracker go_config (?w\<lparr>wt_events := [''/p/r/a.go'']\<rparr>)
      ((?w\<lparr>wt_events := [''/p/r/a.go'']\<rparr>)\<lparr>wt_events := wt_events (?w\<lparr>wt_events := [''/p/r/a.go'']\<rparr>) @ [''/p/r/a.go'']\<rparr>)"
    by (rule watch_step.event [of EventModify]) (simp_all add: relevant_event_def watch_spawn_def)
  ultimately show ?thesis
    using watch_steps.further [OF watch_steps.further [OF watch_steps.start]] by (simp add: two_saves_def watch_spawn_def)
qed

lemma one_turn_step: "watch_steps tk cfg w0 w \<Longrightarrow> watch_steps tk cfg w0 (one_turn tk cfg w)"
  unfolding one_turn_def by (auto intro: watch_steps.further watch_step.turn split: option.split)

text \<open>The two saves are taken in, the time passes, the batch runs.\<close>

definition two_saves_served :: Watcher where
  "two_saves_served = (let w = one_turn go_tracker go_config (one_turn go_tracker go_config two_saves) in
     one_turn go_tracker go_config (w\<lparr>wt_clock := wt_clock w + debounce_ms\<rparr>))"

lemma two_saves_served_steps: "watch_steps go_tracker go_config (watch_spawn go_site) two_saves_served"
  unfolding two_saves_served_def Let_def
  by (intro one_turn_step watch_steps.further [OF _ watch_step.tick] two_saves_steps)

theorem watcher_forgets_nothing_witness:
  "watch_inv two_saves_served \<and> list_all (truthful go_tracker (wc_root_uri go_config)) (wt_log two_saves_served)"
  using watcher_forgets_nothing [OF go_laws(1) _ go_laws(4) go_site_inv two_saves_served_steps]
  by (simp add: go_laws(3) list_all_iff del: truthful.simps)

theorem watcher_settles_witness:
  "\<exists>(w2 :: Watcher) s r s'. wt_log w2 = [Accepted go_uri, Accepted go_uri, Attempted go_uri s r s'] \<and>
     reconcile_uri go_tracker (wc_root_uri go_config) go_uri s = (r, s') \<and> wt_site w2 = s' \<and> wt_pending w2 = []"
proof -
  have inv: "watch_inv two_saves"
    using go_site_inv by (simp add: watch_inv_def two_saves_def watch_spawn_def outstanding_def)
  have quiet: "undisturbed_actor two_saves" by (simp add: undisturbed_actor_def two_saves_def watch_spawn_def)
  have acc: "accepted (tk_env go_tracker) go_config (wt_events two_saves) = [go_uri, go_uri]"
    by (simp add: two_saves_def accepted_def map_filter_simps go_accepts)
  define w1 where "w1 = (one_turn go_tracker go_config ^^ length (wt_events two_saves)) two_saves"
  define w2 where "w2 = one_turn go_tracker go_config (w1\<lparr>wt_clock := wt_clock w1 + debounce_ms\<rparr>)"
  obtain uris sites calls where u: "distinct uris" "set uris = set (wt_pending two_saves) \<union> set [go_uri, go_uri]"
    and c: "attempt_in_turn go_tracker (wc_root_uri go_config) uris sites calls" "wt_site w2 = last sites"
      "wt_log w2 = wt_log two_saves @ map Accepted [go_uri, go_uri] @ calls" "wt_pending w2 = []"
    using watcher_settles [OF inv quiet go_laws(4) order.refl w1_def w2_def, unfolded acc]
    by (elim exE conjE) (rule that)
  have "set uris = {go_uri}" using u(2) by (simp add: two_saves_def watch_spawn_def)
  moreover have "ys = [x]" if "distinct ys" "set ys = {x}" for ys and x :: string
    using that by (cases ys; cases "tl ys") auto
  ultimately have uris: "uris = [go_uri]" using u(1) by simp
  obtain s0 s1 where sites: "sites = [s0, s1]" using c(1) uris by (auto simp: attempt_in_turn_def length_Suc_conv numeral_eq_Suc)
  obtain r s' where run: "reconcile_uri go_tracker (wc_root_uri go_config) go_uri (after_wait go_tracker s0) = (r, s')" by force
  have "calls = [Attempted go_uri (after_wait go_tracker s0) r s']" "s1 = s'"
    using c(1) uris sites run by (auto simp: attempt_in_turn_def one_attempt_def length_Suc_conv)
  with c(2-4) sites run show ?thesis
    by (intro exI [of _ w2] exI [of _ "after_wait go_tracker s0"] exI [of _ r] exI [of _ s']) (simp add: two_saves_def watch_spawn_def)
qed

end
