(* ===== verification/Mcp.thy ===== *)
theory Mcp
  imports Runtime_Props
begin

text \<open>
  The tools (\<open>src/mcp/dto.rs\<close>, \<open>src/mcp/server.rs\<close>): the requests as they arrive, their reshaping into
  the runtime's own types with defaults and bounds, the answers, and the eight operations of the
  server. \<open>src/daemon/server.rs\<close> dispatches the same requests, \<open>src/mcp/proxy.rs\<close> forwards them.
\<close>

section \<open>Requests\<close>

datatype ErrorData = InvalidParams string | InternalError string

definition error_message :: "ErrorData \<Rightarrow> string" where
  "error_message e = (case e of InvalidParams m \<Rightarrow> m | InternalError m \<Rightarrow> m)"

record AtRef =
  at_uri :: string
  at_line :: u32
  at_character :: u32

definition at_symbol :: "AtRef \<Rightarrow> SymbolRef" where
  "at_symbol a = At (at_uri a) (at_line a) (at_character a)"

record SymbolRefInput =
  sr_fqn :: "string option"
  sr_at :: "AtRef option"

definition symbol_of_input :: "SymbolRefInput \<Rightarrow> ErrorData + SymbolRef" where
  "symbol_of_input i = (case (sr_fqn i, sr_at i) of
      (Some f, None) \<Rightarrow> Inr (Fqn f)
    | (None, Some a) \<Rightarrow> Inr (at_symbol a)
    | (Some f, Some a) \<Rightarrow> Inl (InvalidParams ''symbol ref must not specify both fqn and at'')
    | (None, None) \<Rightarrow> Inl (InvalidParams ''symbol ref must specify fqn or at''))"

record FindDefinitionInput =
  fd_at :: AtRef

definition definition_symbol :: "FindDefinitionInput \<Rightarrow> SymbolRef" where
  "definition_symbol i = at_symbol (fd_at i)"

record FilterInput =
  fi_language :: "string option"
  fi_kind :: "string list option"
  fi_include_external :: bool

definition filter_of_input :: "FilterInput \<Rightarrow> Filter" where
  "filter_of_input i = \<lparr>f_language = fi_language i, f_kind = fi_kind i, f_include_external = fi_include_external i\<rparr>"

record PageInput =
  pi_limit :: "u32 option"
  pi_cursor :: "string option"

text \<open>\<open>Ord::clamp\<close>.\<close>

definition clamp :: "u32 \<Rightarrow> u32 \<Rightarrow> u32 \<Rightarrow> u32" where
  "clamp lo hi x = (if x < lo then lo else if hi < x then hi else x)"

definition unwrap_or :: "'a \<Rightarrow> 'a option \<Rightarrow> 'a" where
  "unwrap_or d x = (case x of Some a \<Rightarrow> a | None \<Rightarrow> d)"

text \<open>The codec of cursor tokens and the texts of the errors shown to a client.\<close>

record Tools =
  to_runtime :: QueryRuntime
  to_show_error :: "AppError \<Rightarrow> string"
  to_show_cursor :: "CursorError \<Rightarrow> string"

definition into_page :: "Tools \<Rightarrow> PageInput \<Rightarrow> ErrorData + Page" where
  "into_page to i =
     bindR (case pi_cursor i of
        None \<Rightarrow> Inr None
      | Some token \<Rightarrow> (case cursor_decode (qe_codec (qr_engine (to_runtime to))) token of
          Inl e \<Rightarrow> Inl (InvalidParams (''invalid cursor: '' @ to_show_cursor to e))
        | Inr c \<Rightarrow> Inr (Some c)))
     (\<lambda>cursor. Inr \<lparr>pg_limit = unat (clamp 1 (of_nat MAX_PAGE_LIMIT) (unwrap_or 100 (pi_limit i))), pg_cursor = cursor\<rparr>)"

record FindSymbolInput =
  fy_pattern :: string
  fy_match_mode :: MatchMode
  fy_ignore_case :: bool
  fy_brief :: bool
  fy_with_signature :: bool
  fy_filter :: FilterInput
  fy_page :: PageInput

definition find_symbol_parts :: "Tools \<Rightarrow> FindSymbolInput \<Rightarrow> ErrorData + string \<times> MatchMode \<times> bool \<times> FindSymbolOptions \<times> Filter \<times> Page" where
  "find_symbol_parts to i = bindR (into_page to (fy_page i)) (\<lambda>page.
     Inr (fy_pattern i, fy_match_mode i, fy_ignore_case i,
          \<lparr>so_brief = fy_brief i, so_with_signature = fy_with_signature i\<rparr>, filter_of_input (fy_filter i), page))"

record SymbolQueryInput =
  sq_symbol :: SymbolRefInput
  sq_filter :: FilterInput
  sq_page :: PageInput

definition symbol_query_parts :: "Tools \<Rightarrow> SymbolQueryInput \<Rightarrow> ErrorData + SymbolRef \<times> Filter \<times> Page" where
  "symbol_query_parts to i = bindR (into_page to (sq_page i)) (\<lambda>page.
     bindR (symbol_of_input (sq_symbol i)) (\<lambda>symref. Inr (symref, filter_of_input (sq_filter i), page)))"

record CallGraphQueryInput =
  cq_query :: SymbolQueryInput
  cq_with_signature :: bool

definition call_graph_parts :: "Tools \<Rightarrow> CallGraphQueryInput \<Rightarrow> ErrorData + SymbolRef \<times> Filter \<times> Page \<times> bool" where
  "call_graph_parts to i = bindR (symbol_query_parts to (cq_query i)) (\<lambda>(symref, filt, page).
     Inr (symref, filt, page, cq_with_signature i))"

record FindCallPathInput =
  cpi_from :: SymbolRefInput
  cpi_to :: SymbolRefInput
  cpi_max_depth :: "u32 option"
  cpi_max_lsp_calls :: "u32 option"

definition call_path_parts :: "FindCallPathInput \<Rightarrow> ErrorData + SymbolRef \<times> SymbolRef \<times> u32 \<times> u32" where
  "call_path_parts i = bindR (symbol_of_input (cpi_from i)) (\<lambda>from_ref. bindR (symbol_of_input (cpi_to i)) (\<lambda>to_ref.
     Inr (from_ref, to_ref,
          clamp 1 (of_nat MAX_CALL_PATH_MAX_DEPTH) (unwrap_or (of_nat DEFAULT_CALL_PATH_MAX_DEPTH) (cpi_max_depth i)),
          clamp 0 (of_nat MAX_CALL_PATH_LSP_BUDGET) (unwrap_or (of_nat DEFAULT_CALL_PATH_LSP_BUDGET) (cpi_max_lsp_calls i)))))"

record PositionInput =
  po_line :: u32
  po_character :: u32

record RangeInput =
  ra_start :: PositionInput
  ra_end :: PositionInput

record ReadRangeInput =
  ri_uri :: string
  ri_range :: "RangeInput option"

definition read_range_parts :: "ReadRangeInput \<Rightarrow> string \<times> u32 \<times> u32" where
  "read_range_parts i = (case ri_range i of
      Some r \<Rightarrow> (ri_uri i, po_line (ra_start r), po_line (ra_end r))
    | None \<Rightarrow> (ri_uri i, 0, - 1))"

record RestartLspInput =
  rl_language :: "string option"

section \<open>Answers\<close>

record RestartLspResult =
  rl_restarted :: "string list"

record DegradeInfo =
  di_degraded :: bool
  di_degrade_reason :: string
  di_lsp_status :: string

fun degrade_reason_str :: "DegradeReason \<Rightarrow> string" where
  "degrade_reason_str LspUnavailable = ''lsp_unavailable''"
| "degrade_reason_str LspTimeout = ''lsp_timeout''"

fun lsp_status_str :: "LspStatus \<Rightarrow> string" where
  "lsp_status_str StatusDown = ''down''"
| "lsp_status_str StatusDegraded = ''degraded''"

definition degrade_info :: "Degradation \<Rightarrow> DegradeInfo" where
  "degrade_info d = \<lparr>di_degraded = True, di_degrade_reason = degrade_reason_str (dg_reason d), di_lsp_status = lsp_status_str (dg_status d)\<rparr>"

record FreshnessInfo =
  fs_refreshing :: bool

definition freshness_info :: "bool \<Rightarrow> FreshnessInfo option" where
  "freshness_info refreshing = (if refreshing then Some \<lparr>fs_refreshing = True\<rparr> else None)"

record FindDefinitionOutput =
  od_result :: FindDefinitionResult
  od_degrade :: "DegradeInfo option"

definition definition_output :: "FindDefinitionResult \<times> Degradation option \<Rightarrow> FindDefinitionOutput" where
  "definition_output = (\<lambda>(res, dg). \<lparr>od_result = res, od_degrade = map_option degrade_info dg\<rparr>)"

record FindReferencesOutput =
  or_result :: FindReferencesResult
  or_degrade :: "DegradeInfo option"
  or_freshness :: "FreshnessInfo option"

definition references_output :: "FindReferencesResult \<times> Degradation option \<times> bool \<Rightarrow> FindReferencesOutput" where
  "references_output = (\<lambda>(res, dg, refreshing).
     \<lparr>or_result = res, or_degrade = map_option degrade_info dg, or_freshness = freshness_info refreshing\<rparr>)"

record FindCallersOutput =
  oc_callers :: "CallGraphNode list"
  oc_next_cursor :: "string option"
  oc_hint_fqns :: "string list"
  oc_degrade :: "DegradeInfo option"
  oc_freshness :: "FreshnessInfo option"

definition callers_output :: "CallGraphResult \<times> Degradation option \<times> bool \<Rightarrow> FindCallersOutput" where
  "callers_output = (\<lambda>(res, dg, refreshing). \<lparr>oc_callers = cr_items res, oc_next_cursor = cr_next_cursor res,
     oc_hint_fqns = cr_hint_fqns res, oc_degrade = map_option degrade_info dg, oc_freshness = freshness_info refreshing\<rparr>)"

record FindCalleesOutput =
  oe_callees :: "CallGraphNode list"
  oe_next_cursor :: "string option"
  oe_hint_fqns :: "string list"
  oe_degrade :: "DegradeInfo option"

definition callees_output :: "CallGraphResult \<times> Degradation option \<Rightarrow> FindCalleesOutput" where
  "callees_output = (\<lambda>(res, dg). \<lparr>oe_callees = cr_items res, oe_next_cursor = cr_next_cursor res,
     oe_hint_fqns = cr_hint_fqns res, oe_degrade = map_option degrade_info dg\<rparr>)"

record FindCallPathOutput =
  op_result :: FindCallPathResult
  op_degrade :: "DegradeInfo option"

definition call_path_output :: "FindCallPathResult \<times> Degradation option \<Rightarrow> FindCallPathOutput" where
  "call_path_output = (\<lambda>(res, dg). \<lparr>op_result = res, op_degrade = map_option degrade_info dg\<rparr>)"

section \<open>The server\<close>

datatype DaemonRequest =
    RqFindSymbol FindSymbolInput
  | RqFindDefinition FindDefinitionInput
  | RqFindReferences SymbolQueryInput
  | RqFindCallers CallGraphQueryInput
  | RqFindCallees CallGraphQueryInput
  | RqFindCallPath FindCallPathInput
  | RqReadRange ReadRangeInput
  | RqRestartLsp RestartLspInput
  | RqShutdown

text \<open>
  The answer of a tool. A call path is \<open>None\<close> when the search ran out of the model's fuel, which
  it does not on a consistent store. A shutdown is no tool; the daemon answers it with \<open>null\<close>.
\<close>

datatype ToolOutput =
    OutSymbols FindSymbolResult
  | OutDefinition FindDefinitionOutput
  | OutReferences FindReferencesOutput
  | OutCallers FindCallersOutput
  | OutCallees FindCalleesOutput
  | OutCallPath "FindCallPathOutput option"
  | OutRange ReadRangeResult
  | OutRestarted RestartLspResult
  | OutNull

type_synonym 'a tool = "(ErrorData, 'a, Runtime) qm"

definition or_internal :: "Tools \<Rightarrow> 'a runtime \<Rightarrow> 'a tool" where
  "or_internal to m = (\<lambda>r. case m r of
      (Inl e, r') \<Rightarrow> (Inl (InternalError (to_show_error to e)), r') | (Inr x, r') \<Rightarrow> (Inr x, r'))"

definition with_parts :: "ErrorData + 'p \<Rightarrow> ('p \<Rightarrow> 'a tool) \<Rightarrow> 'a tool" where
  "with_parts parts f = (case parts of Inl e \<Rightarrow> failQ e | Inr p \<Rightarrow> f p)"

definition answers :: "('a \<Rightarrow> 'b) \<Rightarrow> 'a tool \<Rightarrow> 'b tool" where
  "answers out m = bindQ m (\<lambda>x. returnQ (out x))"

text \<open>The methods of \<open>SemnavServer\<close>.\<close>

definition server_find_symbol :: "Tools \<Rightarrow> FindSymbolInput \<Rightarrow> FindSymbolResult tool" where
  "server_find_symbol to i = with_parts (find_symbol_parts to i) (\<lambda>(pattern, mode, ic, opts, filt, page).
     or_internal to (rt_find_symbol (to_runtime to) pattern mode ic opts filt page))"

definition server_find_definition :: "Tools \<Rightarrow> FindDefinitionInput \<Rightarrow> FindDefinitionOutput tool" where
  "server_find_definition to i =
     answers definition_output (or_internal to (rt_find_definition (to_runtime to) (definition_symbol i)))"

definition server_find_references :: "Tools \<Rightarrow> SymbolQueryInput \<Rightarrow> FindReferencesOutput tool" where
  "server_find_references to i = with_parts (symbol_query_parts to i) (\<lambda>(symref, filt, page).
     answers references_output (or_internal to (rt_find_references (to_runtime to) symref filt page)))"

definition server_find_callers :: "Tools \<Rightarrow> CallGraphQueryInput \<Rightarrow> FindCallersOutput tool" where
  "server_find_callers to i = with_parts (call_graph_parts to i) (\<lambda>(symref, filt, page, with_signature).
     answers callers_output (or_internal to (rt_find_callers (to_runtime to) symref filt page with_signature)))"

definition server_find_callees :: "Tools \<Rightarrow> CallGraphQueryInput \<Rightarrow> FindCalleesOutput tool" where
  "server_find_callees to i = with_parts (call_graph_parts to i) (\<lambda>(symref, filt, page, with_signature).
     answers callees_output (or_internal to (rt_find_callees (to_runtime to) symref filt page with_signature)))"

definition server_find_call_path :: "Tools \<Rightarrow> FindCallPathInput \<Rightarrow> FindCallPathOutput option tool" where
  "server_find_call_path to i = with_parts (call_path_parts i) (\<lambda>(from_ref, to_ref, max_depth, max_lsp_calls).
     answers (map_option call_path_output)
       (or_internal to (rt_find_call_path (to_runtime to) from_ref to_ref (unat max_depth) (unat max_lsp_calls))))"

definition server_read_range :: "Tools \<Rightarrow> ReadRangeInput \<Rightarrow> ReadRangeResult tool" where
  "server_read_range to i = (case read_range_parts i of (u, first, past) \<Rightarrow>
     or_internal to (rt_read_range (to_runtime to) u first past))"

definition server_restart_lsp :: "Tools \<Rightarrow> RestartLspInput \<Rightarrow> RestartLspResult tool" where
  "server_restart_lsp to i = (\<lambda>r. case restart_language (rl_language i) r of (names, r') \<Rightarrow>
     (Inr \<lparr>rl_restarted = names\<rparr>, r'))"

text \<open>The tools of the server by the request they answer, as the client of \<open>serve\<close> calls them.\<close>

fun semnav_tool :: "Tools \<Rightarrow> DaemonRequest \<Rightarrow> ToolOutput tool" where
  "semnav_tool to (RqFindSymbol i) = answers OutSymbols (server_find_symbol to i)"
| "semnav_tool to (RqFindDefinition i) = answers OutDefinition (server_find_definition to i)"
| "semnav_tool to (RqFindReferences i) = answers OutReferences (server_find_references to i)"
| "semnav_tool to (RqFindCallers i) = answers OutCallers (server_find_callers to i)"
| "semnav_tool to (RqFindCallees i) = answers OutCallees (server_find_callees to i)"
| "semnav_tool to (RqFindCallPath i) = answers OutCallPath (server_find_call_path to i)"
| "semnav_tool to (RqReadRange i) = answers OutRange (server_read_range to i)"
| "semnav_tool to (RqRestartLsp i) = answers OutRestarted (server_restart_lsp to i)"
| "semnav_tool to RqShutdown = returnQ OutNull"

section \<open>Through the daemon\<close>

text \<open>
  What serde makes of an answer of one type and back; the encoding can fail with a text.
\<close>

record 'a Coder =
  co_to_value :: "'a \<Rightarrow> string + Json"
  co_from_value :: "Json \<Rightarrow> string + 'a"

record Wire =
  wi_symbols :: "FindSymbolResult Coder"
  wi_definition :: "FindDefinitionOutput Coder"
  wi_references :: "FindReferencesOutput Coder"
  wi_callers :: "FindCallersOutput Coder"
  wi_callees :: "FindCalleesOutput Coder"
  wi_call_path :: "(FindCallPathOutput option) Coder"
  wi_range :: "ReadRangeResult Coder"
  wi_restarted :: "RestartLspResult Coder"

definition to_result :: "'a Coder \<Rightarrow> ErrorData + 'a \<Rightarrow> string + Json" where
  "to_result co outcome = (case outcome of Inr x \<Rightarrow> co_to_value co x | Inl e \<Rightarrow> Inl (error_message e))"

definition encoded :: "'a Coder \<Rightarrow> 'a tool \<Rightarrow> Runtime \<Rightarrow> (string + Json) \<times> Runtime" where
  "encoded co m r = (case m r of (outcome, r') \<Rightarrow> (to_result co outcome, r'))"

text \<open>The arms of \<open>dispatch\<close>. A shutdown is handled before it gets here.\<close>

fun dispatch :: "Tools \<Rightarrow> Wire \<Rightarrow> DaemonRequest \<Rightarrow> Runtime \<Rightarrow> (string + Json) \<times> Runtime" where
  "dispatch to wi (RqFindSymbol i) = encoded (wi_symbols wi) (server_find_symbol to i)"
| "dispatch to wi (RqFindDefinition i) = encoded (wi_definition wi) (server_find_definition to i)"
| "dispatch to wi (RqFindReferences i) = encoded (wi_references wi) (server_find_references to i)"
| "dispatch to wi (RqFindCallers i) = encoded (wi_callers wi) (server_find_callers to i)"
| "dispatch to wi (RqFindCallees i) = encoded (wi_callees wi) (server_find_callees to i)"
| "dispatch to wi (RqFindCallPath i) = encoded (wi_call_path wi) (server_find_call_path to i)"
| "dispatch to wi (RqReadRange i) = encoded (wi_range wi) (server_read_range to i)"
| "dispatch to wi (RqRestartLsp i) = encoded (wi_restarted wi) (server_restart_lsp to i)"
| "dispatch to wi RqShutdown = (\<lambda>r. (Inr JNull, r))"

text \<open>
  \<open>ProxyServer::call\<close>, at the type of the answer expected, over a link that delivers what the daemon
  replies (\<open>Daemon_Link\<close> says when it does).
\<close>

definition proxy_result :: "'a Coder \<Rightarrow> string + Json \<Rightarrow> ErrorData + 'a" where
  "proxy_result co v = (case v of
      Inl e \<Rightarrow> Inl (InternalError e)
    | Inr j \<Rightarrow> (case co_from_value co j of
        Inl e \<Rightarrow> Inl (InternalError (''malformed daemon response: '' @ e)) | Inr x \<Rightarrow> Inr x))"

definition daemon_error :: "string + Json \<Rightarrow> string + Json" where
  "daemon_error v = (case v of Inl msg \<Rightarrow> Inl (''daemon error: '' @ msg) | Inr j \<Rightarrow> Inr j)"

definition proxy_call :: "Tools \<Rightarrow> Wire \<Rightarrow> 'a Coder \<Rightarrow> DaemonRequest \<Rightarrow> 'a tool" where
  "proxy_call to wi co rq = (\<lambda>r. case dispatch to wi rq r of (v, r') \<Rightarrow> (proxy_result co (daemon_error v), r'))"

text \<open>The methods of \<open>ProxyServer\<close>, and its tools by the request they stand for.\<close>

definition proxy_find_symbol :: "Tools \<Rightarrow> Wire \<Rightarrow> FindSymbolInput \<Rightarrow> FindSymbolResult tool" where
  "proxy_find_symbol to wi i = proxy_call to wi (wi_symbols wi) (RqFindSymbol i)"

definition proxy_find_definition :: "Tools \<Rightarrow> Wire \<Rightarrow> FindDefinitionInput \<Rightarrow> FindDefinitionOutput tool" where
  "proxy_find_definition to wi i = proxy_call to wi (wi_definition wi) (RqFindDefinition i)"

definition proxy_find_references :: "Tools \<Rightarrow> Wire \<Rightarrow> SymbolQueryInput \<Rightarrow> FindReferencesOutput tool" where
  "proxy_find_references to wi i = proxy_call to wi (wi_references wi) (RqFindReferences i)"

definition proxy_find_callers :: "Tools \<Rightarrow> Wire \<Rightarrow> CallGraphQueryInput \<Rightarrow> FindCallersOutput tool" where
  "proxy_find_callers to wi i = proxy_call to wi (wi_callers wi) (RqFindCallers i)"

definition proxy_find_callees :: "Tools \<Rightarrow> Wire \<Rightarrow> CallGraphQueryInput \<Rightarrow> FindCalleesOutput tool" where
  "proxy_find_callees to wi i = proxy_call to wi (wi_callees wi) (RqFindCallees i)"

definition proxy_find_call_path :: "Tools \<Rightarrow> Wire \<Rightarrow> FindCallPathInput \<Rightarrow> FindCallPathOutput option tool" where
  "proxy_find_call_path to wi i = proxy_call to wi (wi_call_path wi) (RqFindCallPath i)"

definition proxy_read_range :: "Tools \<Rightarrow> Wire \<Rightarrow> ReadRangeInput \<Rightarrow> ReadRangeResult tool" where
  "proxy_read_range to wi i = proxy_call to wi (wi_range wi) (RqReadRange i)"

definition proxy_restart_lsp :: "Tools \<Rightarrow> Wire \<Rightarrow> RestartLspInput \<Rightarrow> RestartLspResult tool" where
  "proxy_restart_lsp to wi i = proxy_call to wi (wi_restarted wi) (RqRestartLsp i)"

fun proxy_tool :: "Tools \<Rightarrow> Wire \<Rightarrow> DaemonRequest \<Rightarrow> ToolOutput tool" where
  "proxy_tool to wi (RqFindSymbol i) = answers OutSymbols (proxy_find_symbol to wi i)"
| "proxy_tool to wi (RqFindDefinition i) = answers OutDefinition (proxy_find_definition to wi i)"
| "proxy_tool to wi (RqFindReferences i) = answers OutReferences (proxy_find_references to wi i)"
| "proxy_tool to wi (RqFindCallers i) = answers OutCallers (proxy_find_callers to wi i)"
| "proxy_tool to wi (RqFindCallees i) = answers OutCallees (proxy_find_callees to wi i)"
| "proxy_tool to wi (RqFindCallPath i) = answers OutCallPath (proxy_find_call_path to wi i)"
| "proxy_tool to wi (RqReadRange i) = answers OutRange (proxy_read_range to wi i)"
| "proxy_tool to wi (RqRestartLsp i) = answers OutRestarted (proxy_restart_lsp to wi i)"
| "proxy_tool to wi RqShutdown = returnQ OutNull"

end
