(* ===== verification/Mcp_Props.thy ===== *)
theory Mcp_Props
  imports Mcp
begin

text \<open>
  What reaches the runtime through the tools is within bounds, what does not is refused before it
  changes anything, and the proxy gives the answers the server gives.
\<close>

section \<open>Bounds\<close>

definition page_in_bounds :: "Page \<Rightarrow> bool" where
  "page_in_bounds p \<longleftrightarrow> 1 \<le> pg_limit p \<and> pg_limit p \<le> MAX_PAGE_LIMIT"

fun in_bounds :: "RtEvent \<Rightarrow> bool" where
  "in_bounds (FindSymbol p m ic opts f page) = page_in_bounds page"
| "in_bounds (FindReferences s f page) = page_in_bounds page"
| "in_bounds (FindCallers s f page ws) = page_in_bounds page"
| "in_bounds (FindCallees s f page ws) = page_in_bounds page"
| "in_bounds (FindCallPath a b depth budget) =
     (1 \<le> depth \<and> depth \<le> MAX_CALL_PATH_MAX_DEPTH \<and> budget \<le> MAX_CALL_PATH_LSP_BUDGET)"
| "in_bounds _ = True"

lemma unat_clamp: "lo \<le> hi \<Longrightarrow> unat lo \<le> unat (clamp lo hi x) \<and> unat (clamp lo hi x) \<le> unat hi"
  unfolding clamp_def by (auto simp: word_less_nat_alt word_le_nat_alt)

lemma into_page_bounds: "into_page to i = Inr page \<Longrightarrow> page_in_bounds page"
  using unat_clamp [of 1 "of_nat MAX_PAGE_LIMIT" "unwrap_or 100 (pi_limit i)"]
  by (auto simp: into_page_def bindR_eq_Inr page_in_bounds_def MAX_PAGE_LIMIT_def word_le_nat_alt)

lemma call_path_bounds:
  "call_path_parts i = Inr (a, b, depth, budget) \<Longrightarrow> in_bounds (FindCallPath a b (unat depth) (unat budget))"
  using unat_clamp [of 1 "of_nat MAX_CALL_PATH_MAX_DEPTH" "unwrap_or (of_nat DEFAULT_CALL_PATH_MAX_DEPTH) (cpi_max_depth i)"]
    unat_clamp [of 0 "of_nat MAX_CALL_PATH_LSP_BUDGET" "unwrap_or (of_nat DEFAULT_CALL_PATH_LSP_BUDGET) (cpi_max_lsp_calls i)"]
  by (auto simp: call_path_parts_def bindR_eq_Inr MAX_CALL_PATH_MAX_DEPTH_def MAX_CALL_PATH_LSP_BUDGET_def word_le_nat_alt)

section \<open>What a request does\<close>

text \<open>The operation behind a request, its refusal, or nothing for a shutdown.\<close>

fun tool_event :: "Tools \<Rightarrow> DaemonRequest \<Rightarrow> ErrorData + RtEvent option" where
  "tool_event to (RqFindSymbol i) = bindR (find_symbol_parts to i) (\<lambda>(p, m, ic, opts, f, page). Inr (Some (FindSymbol p m ic opts f page)))"
| "tool_event to (RqFindDefinition i) = Inr (Some (FindDefinition (definition_symbol i)))"
| "tool_event to (RqFindReferences i) = bindR (symbol_query_parts to i) (\<lambda>(s, f, page). Inr (Some (FindReferences s f page)))"
| "tool_event to (RqFindCallers i) = bindR (call_graph_parts to i) (\<lambda>(s, f, page, ws). Inr (Some (FindCallers s f page ws)))"
| "tool_event to (RqFindCallees i) = bindR (call_graph_parts to i) (\<lambda>(s, f, page, ws). Inr (Some (FindCallees s f page ws)))"
| "tool_event to (RqFindCallPath i) = bindR (call_path_parts i) (\<lambda>(a, b, d, n). Inr (Some (FindCallPath a b (unat d) (unat n))))"
| "tool_event to (RqReadRange i) = (case read_range_parts i of (u, a, b) \<Rightarrow> Inr (Some (ReadRange u a b)))"
| "tool_event to (RqRestartLsp i) = Inr (Some (RestartLanguage (rl_language i)))"
| "tool_event to RqShutdown = Inr None"

lemma tool_event_bounds: "tool_event to rq = Inr (Some e) \<Longrightarrow> in_bounds e"
  by (cases rq) (auto simp: bindR_eq_Inr find_symbol_parts_def symbol_query_parts_def call_graph_parts_def
      dest: into_page_bounds call_path_bounds split: prod.splits)

lemma snd_answers [simp]: "snd (answers out m r) = snd (m r)"
  by (simp add: answers_def bindQ_def split: prod.split sum.split)

lemma fst_answers: "fst (answers out m r) = (case fst (m r) of Inl e \<Rightarrow> Inl e | Inr x \<Rightarrow> Inr (out x))"
  by (simp add: answers_def bindQ_def split: prod.split sum.split)

lemma snd_or_internal [simp]: "snd (or_internal to m r) = snd (m r)"
  by (simp add: or_internal_def split: prod.split sum.split)

lemma fst_or_internal: "fst (or_internal to m r) = (case fst (m r) of Inl e \<Rightarrow> Inl (InternalError (to_show_error to e)) | Inr x \<Rightarrow> Inr x)"
  by (simp add: or_internal_def split: prod.split sum.split)

text \<open>A tool by its parts: the method's input is taken apart, the operation run, the result put together.\<close>

lemma answers_parts: "answers out (with_parts parts f) = with_parts parts (\<lambda>p. answers out (f p))"
  by (simp add: with_parts_def answers_def bindQ_def failQ_def fun_eq_iff split: sum.split)

lemma answers_answers: "answers f (answers g m) = answers (\<lambda>x. f (g x)) m"
  by (simp add: answers_def bindQ_def returnQ_def fun_eq_iff split: prod.split sum.split)

lemmas server_methods = server_find_symbol_def server_find_definition_def server_find_references_def server_find_callers_def
  server_find_callees_def server_find_call_path_def server_read_range_def server_restart_lsp_def

lemma semnav_tool_parts [simp]:
  "semnav_tool to (RqFindSymbol i1) = with_parts (find_symbol_parts to i1) (\<lambda>(pattern, mode, ic, opts, filt, page).
     answers OutSymbols (or_internal to (rt_find_symbol (to_runtime to) pattern mode ic opts filt page)))"
  "semnav_tool to (RqFindDefinition i2) =
     answers (\<lambda>x. OutDefinition (definition_output x)) (or_internal to (rt_find_definition (to_runtime to) (definition_symbol i2)))"
  "semnav_tool to (RqFindReferences i3) = with_parts (symbol_query_parts to i3) (\<lambda>(symref, filt, page).
     answers (\<lambda>x. OutReferences (references_output x)) (or_internal to (rt_find_references (to_runtime to) symref filt page)))"
  "semnav_tool to (RqFindCallers i4) = with_parts (call_graph_parts to i4) (\<lambda>(symref, filt, page, ws).
     answers (\<lambda>x. OutCallers (callers_output x)) (or_internal to (rt_find_callers (to_runtime to) symref filt page ws)))"
  "semnav_tool to (RqFindCallees i4) = with_parts (call_graph_parts to i4) (\<lambda>(symref, filt, page, ws).
     answers (\<lambda>x. OutCallees (callees_output x)) (or_internal to (rt_find_callees (to_runtime to) symref filt page ws)))"
  "semnav_tool to (RqFindCallPath i6) = with_parts (call_path_parts i6) (\<lambda>(from_ref, to_ref, depth, budget).
     answers (\<lambda>x. OutCallPath (map_option call_path_output x))
       (or_internal to (rt_find_call_path (to_runtime to) from_ref to_ref (unat depth) (unat budget))))"
  "semnav_tool to (RqReadRange i7) = (case read_range_parts i7 of (u, first, past) \<Rightarrow>
     answers OutRange (or_internal to (rt_read_range (to_runtime to) u first past)))"
  by (simp_all add: server_methods answers_parts answers_answers case_prod_unfold comp_def)

lemma semnav_restart_parts [simp]:
  "semnav_tool to (RqRestartLsp i) = (\<lambda>r. case restart_language (rl_language i) r of (names, r') \<Rightarrow>
     (Inr (OutRestarted \<lparr>rl_restarted = names\<rparr>), r'))"
  by (simp add: server_restart_lsp_def answers_def bindQ_def returnQ_def fun_eq_iff split: prod.split)

declare semnav_tool.simps(1-8) [simp del]

lemmas tool_outcome = with_parts_def fst_answers fst_or_internal

lemma semnav_tool_event:
  "snd (semnav_tool to rq r) = (case tool_event to rq of Inr (Some e) \<Rightarrow> rt_event (to_runtime to) e r | _ \<Rightarrow> r)"
  by (cases rq) (auto simp: with_parts_def bindR_def split: sum.split prod.split)

lemma semnav_tool_refused: "tool_event to rq = Inl e \<Longrightarrow> fst (semnav_tool to rq r) = Inl e"
  by (cases rq) (auto simp: with_parts_def bindR_eq_Inl split: prod.splits)

lemma semnav_tool_accepted: "tool_event to rq = Inr e \<Longrightarrow> fst (semnav_tool to rq r) \<noteq> Inl (InvalidParams m)"
  by (cases rq) (auto simp: tool_outcome bindR_eq_Inr split: sum.splits prod.splits)

text \<open>A symbol is given by exactly one of its two ways, a cursor by a token that decodes.\<close>

definition symbol_given :: "SymbolRefInput \<Rightarrow> bool" where
  "symbol_given i \<longleftrightarrow> (sr_fqn i = None) \<noteq> (sr_at i = None)"

definition cursor_given :: "Tools \<Rightarrow> PageInput \<Rightarrow> bool" where
  "cursor_given to i \<longleftrightarrow> (\<forall>t. pi_cursor i = Some t \<longrightarrow> is_ok (cursor_decode (qe_codec (qr_engine (to_runtime to))) t))"

fun well_formed :: "Tools \<Rightarrow> DaemonRequest \<Rightarrow> bool" where
  "well_formed to (RqFindSymbol i) = cursor_given to (fy_page i)"
| "well_formed to (RqFindReferences i) = (cursor_given to (sq_page i) \<and> symbol_given (sq_symbol i))"
| "well_formed to (RqFindCallers i) = (cursor_given to (sq_page (cq_query i)) \<and> symbol_given (sq_symbol (cq_query i)))"
| "well_formed to (RqFindCallees i) = (cursor_given to (sq_page (cq_query i)) \<and> symbol_given (sq_symbol (cq_query i)))"
| "well_formed to (RqFindCallPath i) = (symbol_given (cpi_from i) \<and> symbol_given (cpi_to i))"
| "well_formed to _ = True"

lemma symbol_given_iff: "is_ok (symbol_of_input i) \<longleftrightarrow> symbol_given i"
  by (simp add: symbol_of_input_def symbol_given_def split: option.split)

lemma cursor_given_iff: "is_ok (into_page to i) \<longleftrightarrow> cursor_given to i"
  by (auto simp: into_page_def cursor_given_def bindR_def is_ok_def split: option.split sum.splits)

lemma is_ok_bindR: "is_ok (bindR m f) \<longleftrightarrow> (\<exists>x. m = Inr x \<and> is_ok (f x))"
  by (cases m) simp_all

lemma is_ok_iff: "is_ok m \<longleftrightarrow> (\<exists>x. m = Inr x)"
  by (cases m) simp_all

lemma well_formed_iff: "is_ok (tool_event to rq) \<longleftrightarrow> well_formed to rq"
  by (cases rq) (auto simp: is_ok_bindR find_symbol_parts_def symbol_query_parts_def call_graph_parts_def call_path_parts_def
      is_ok_iff bindR_eq_Inr read_range_parts_def split: prod.splits option.splits simp flip: symbol_given_iff cursor_given_iff)

lemma refusal_is_invalid: "tool_event to rq = Inl e \<Longrightarrow> \<exists>m. e = InvalidParams m"
  by (cases rq) (auto simp: bindR_eq_Inl find_symbol_parts_def symbol_query_parts_def call_graph_parts_def call_path_parts_def
      into_page_def symbol_of_input_def split: prod.splits option.splits sum.splits)

text \<open>C27: Requests are checked before they act. A tool call whose symbol is not given in exactly one way,
  or whose cursor token does not decode, is refused as invalid and leaves the runtime untouched;
  every other one runs one operation of the runtime with a page of 1 to 500 items, a depth of 1
  to 20 and a budget of at most 200 requests, and is never refused as invalid afterwards.\<close>

theorem tools_stay_in_bounds:
  assumes "semnav_tool to rq r = (res, r')"
  shows "(\<not> well_formed to rq \<longrightarrow> (\<exists>m. res = Inl (InvalidParams m)) \<and> r' = r) \<and>
    (well_formed to rq \<longrightarrow> (\<forall>m. res \<noteq> Inl (InvalidParams m)) \<and>
       (rq = RqShutdown \<and> r' = r \<or> (\<exists>e. in_bounds e \<and> r' = rt_event (to_runtime to) e r)))"
proof (cases "tool_event to rq")
  case (Inl e)
  then have "\<not> well_formed to rq" using well_formed_iff [of to rq] by simp
  moreover have "res = Inl e" "r' = r"
    using semnav_tool_refused [OF Inl, of r] semnav_tool_event [of to rq r] assms Inl by simp_all
  ultimately show ?thesis using refusal_is_invalid [OF Inl] by blast
next
  case (Inr oe)
  then have wf: "well_formed to rq" using well_formed_iff [of to rq] by simp
  have ok: "res \<noteq> Inl (InvalidParams m)" for m using semnav_tool_accepted [OF Inr, of r m] assms by simp
  have r': "r' = (case oe of Some e \<Rightarrow> rt_event (to_runtime to) e r | None \<Rightarrow> r)"
    using semnav_tool_event [of to rq r] assms Inr by (simp split: option.splits)
  show ?thesis
  proof (cases oe)
    case None
    with Inr have "rq = RqShutdown" by (cases rq) (auto simp: bindR_eq_Inr split: prod.splits)
    with None r' wf ok show ?thesis by simp
  next
    case (Some e)
    then have "in_bounds e" using Inr tool_event_bounds by simp
    with Some r' wf ok show ?thesis by auto
  qed
qed

section \<open>A session\<close>

definition serve_tools :: "Tools \<Rightarrow> DaemonRequest list \<Rightarrow> Runtime \<Rightarrow> Runtime" where
  "serve_tools to rqs r = fold (\<lambda>rq r. snd (semnav_tool to rq r)) rqs r"

fun asks_relation :: "DaemonRequest \<Rightarrow> bool" where
  "asks_relation (RqFindReferences i) = True"
| "asks_relation (RqFindCallers i) = True"
| "asks_relation (RqFindCallees i) = True"
| "asks_relation _ = False"

lemma serve_tools_inv: "rt_inv n r \<Longrightarrow> rt_inv n (serve_tools to rqs r)"
  unfolding serve_tools_def
  by (induction rqs arbitrary: r) (auto simp: semnav_tool_event rt_event_inv split: sum.split option.split)

lemma relation_tool_answers:
  assumes "row_order_ok (qe_order (qr_engine (to_runtime to)))" and "rt_inv n r"
    and "asks_relation rq" and "well_formed to rq"
  shows "is_ok (fst (semnav_tool to rq r))"
proof -
  have wf: "wf_world (rt_world r)" using assms(2) by (simp add: rt_inv_def)
  have cached: "\<exists>x r'. cache_first (to_runtime to) rl s r = (Inr x, r')" if "total_relation rl" for rl :: "'x Relation" and s
    using cache_first_answers [OF that assms(1) wf, of s] by (auto simp: reaches_def)
  have callees: "\<exists>x r'. rt_find_callees (to_runtime to) s f page ws r = (Inr x, r')" for s f page ws
    using callees_answers [OF assms(1) wf, of s f page ws] by (auto simp: reaches_def)
  have refs: "\<exists>x r'. rt_find_references (to_runtime to) s f page r = (Inr x, r')" for s f page
    using cached [OF total_relations(1)] by (simp add: rt_find_references_def)
  have callers: "\<exists>x r'. rt_find_callers (to_runtime to) s f page ws r = (Inr x, r')" for s f page ws
    using cached [OF total_relations(2)] by (simp add: rt_find_callers_def)
  obtain e where e: "tool_event to rq = Inr e" using well_formed_iff [of to rq] assms(4) by (auto simp: is_ok_iff)
  show ?thesis
  proof (cases rq)
    case (RqFindReferences i)
    with e obtain s f page where "symbol_query_parts to i = Inr (s, f, page)" by (auto simp: bindR_eq_Inr)
    with RqFindReferences refs [of s f page] show ?thesis by (auto simp: tool_outcome)
  next
    case (RqFindCallers i)
    with e obtain s f page ws where "call_graph_parts to i = Inr (s, f, page, ws)" by (auto simp: bindR_eq_Inr)
    with RqFindCallers callers [of s f page ws] show ?thesis by (auto simp: tool_outcome)
  next
    case (RqFindCallees i)
    with e obtain s f page ws where "call_graph_parts to i = Inr (s, f, page, ws)" by (auto simp: bindR_eq_Inr)
    with RqFindCallees callees [of s f page ws] show ?thesis by (auto simp: tool_outcome)
  qed (use assms(3) in simp_all)
qed

text \<open>C28: A session at the tools cannot derail the server. From a runtime in order, after any requests
  whatever, well-formed or not, the runtime is in order, and a well-formed request for the
  references, callers or callees of a symbol then gets an answer, not an error.\<close>

theorem tool_sessions_answer:
  assumes "row_order_ok (qe_order (qr_engine (to_runtime to)))" and "rt_inv n r"
  shows "rt_inv n (serve_tools to rqs r) \<and>
    (asks_relation rq \<and> well_formed to rq \<longrightarrow> is_ok (fst (semnav_tool to rq (serve_tools to rqs r))))"
  using serve_tools_inv [OF assms(2)] relation_tool_answers [OF assms(1)] by blast

section \<open>The proxy\<close>

definition round_trips :: "'a Coder \<Rightarrow> 'a \<Rightarrow> bool" where
  "round_trips co x \<longleftrightarrow> (\<exists>j. co_to_value co x = Inr j \<and> co_from_value co j = Inr x)"

text \<open>The answer survives the coder of its own type.\<close>

fun carried :: "Wire \<Rightarrow> ToolOutput \<Rightarrow> bool" where
  "carried wi (OutSymbols x) = round_trips (wi_symbols wi) x"
| "carried wi (OutDefinition x) = round_trips (wi_definition wi) x"
| "carried wi (OutReferences x) = round_trips (wi_references wi) x"
| "carried wi (OutCallers x) = round_trips (wi_callers wi) x"
| "carried wi (OutCallees x) = round_trips (wi_callees wi) x"
| "carried wi (OutCallPath x) = round_trips (wi_call_path wi) x"
| "carried wi (OutRange x) = round_trips (wi_range wi) x"
| "carried wi (OutRestarted x) = round_trips (wi_restarted wi) x"
| "carried wi OutNull = True"

lemmas proxy_methods = proxy_find_symbol_def proxy_find_definition_def proxy_find_references_def proxy_find_callers_def
  proxy_find_callees_def proxy_find_call_path_def proxy_read_range_def proxy_restart_lsp_def

definition passed_on :: "(ErrorData + 'a) \<times> Runtime \<Rightarrow> (ErrorData + 'a) \<times> Runtime" where
  "passed_on outcome = (case outcome of (Inr x, r') \<Rightarrow> (Inr x, r')
     | (Inl e, r') \<Rightarrow> (Inl (InternalError (''daemon error: '' @ error_message e)), r'))"

text \<open>One method of the proxy, over the arm of \<open>dispatch\<close> it reaches.\<close>

lemma proxy_method:
  assumes "dispatch to wi rq = encoded co m" and "\<And>x. carried wi (out x) = round_trips co x"
    and "\<And>y. fst (answers out m r) = Inr y \<Longrightarrow> carried wi y"
  shows "answers out (proxy_call to wi co rq) r = passed_on (answers out m r)"
proof -
  obtain res r' where run: "m r = (res, r')" by force
  show ?thesis
  proof (cases res)
    case (Inl e)
    with run assms(1) show ?thesis
      by (simp add: proxy_call_def encoded_def to_result_def daemon_error_def proxy_result_def answers_def bindQ_def passed_on_def)
  next
    case (Inr x)
    with run assms(2) assms(3) [of "out x"] obtain j where "co_to_value co x = Inr j" "co_from_value co j = Inr x"
      by (auto simp: round_trips_def fst_answers)
    with run Inr assms(1) show ?thesis
      by (simp add: proxy_call_def encoded_def to_result_def daemon_error_def proxy_result_def answers_def bindQ_def returnQ_def
          passed_on_def)
  qed
qed

text \<open>C38: A client cannot tell the proxy from the server by its answers. For each of the eight tools, the
  method of the proxy, over the arm of the daemon's dispatch its request reaches, yields what the
  method of the server yields, and leaves the daemon's runtime as that does, provided the JSON
  coder of the answer's type reads this answer back; a failure is passed on with its text, but as an
  internal error, even an invalid request.\<close>

theorem proxy_transparent:
  assumes "rq \<noteq> RqShutdown" and "\<And>x. fst (semnav_tool to rq r) = Inr x \<Longrightarrow> carried wi x"
  shows "proxy_tool to wi rq r = (case semnav_tool to rq r of
      (Inr x, r') \<Rightarrow> (Inr x, r')
    | (Inl e, r') \<Rightarrow> (Inl (InternalError (''daemon error: '' @ error_message e)), r'))"
proof -
  have "proxy_tool to wi rq r = passed_on (semnav_tool to rq r)"
    using assms
    by (cases rq; simp only: proxy_tool.simps proxy_methods semnav_tool.simps; intro proxy_method; simp del: semnav_tool_parts)
  then show ?thesis by (simp add: passed_on_def)
qed

section \<open>Samples\<close>

definition sample_tools :: Tools where
  "sample_tools = \<lparr>to_runtime = small_runtime, to_show_error = (\<lambda>_. ''error''), to_show_cursor = (\<lambda>_. ''bad token'')\<rparr>"

definition path_request :: "string option \<Rightarrow> DaemonRequest" where
  "path_request f = RqFindCallPath \<lparr>cpi_from = \<lparr>sr_fqn = f, sr_at = None\<rparr>, cpi_to = \<lparr>sr_fqn = Some ''m.A'', sr_at = None\<rparr>,
     cpi_max_depth = Some 4000000000, cpi_max_lsp_calls = None\<rparr>"

theorem tools_stay_in_bounds_witness:
  "(\<exists>m. fst (semnav_tool sample_tools (path_request None) (open_runtime nested_world)) = Inl (InvalidParams m)) \<and>
   (\<exists>e. in_bounds e \<and> snd (semnav_tool sample_tools (path_request (Some ''m.A'')) (open_runtime nested_world)) =
      rt_event small_runtime e (open_runtime nested_world))"
proof -
  have "\<not> well_formed sample_tools (path_request None)" "well_formed sample_tools (path_request (Some ''m.A''))"
    "path_request (Some ''m.A'') \<noteq> RqShutdown" "to_runtime sample_tools = small_runtime"
    by (simp_all add: path_request_def symbol_given_def sample_tools_def)
  then show ?thesis
    using tools_stay_in_bounds [of sample_tools "path_request None" "open_runtime nested_world"]
      tools_stay_in_bounds [of sample_tools "path_request (Some ''m.A'')" "open_runtime nested_world"]
    by (metis prod.collapse)
qed

definition references_request :: DaemonRequest where
  "references_request = RqFindReferences \<lparr>sq_symbol = \<lparr>sr_fqn = Some ''m.A'', sr_at = None\<rparr>,
     sq_filter = \<lparr>fi_language = None, fi_kind = None, fi_include_external = False\<rparr>, sq_page = \<lparr>pi_limit = None, pi_cursor = None\<rparr>\<rparr>"

theorem tool_sessions_answer_witness:
  "is_ok (fst (semnav_tool sample_tools references_request
     (serve_tools sample_tools [path_request None, RqRestartLsp \<lparr>rl_language = None\<rparr>, references_request] (open_runtime nested_world))))"
proof -
  have "rt_inv 0 (open_runtime nested_world)" by (rule open_runtime_inv) (simp add: wf_world_def)
  then show ?thesis
    using tool_sessions_answer [of sample_tools 0 "open_runtime nested_world" "[path_request None, RqRestartLsp \<lparr>rl_language = None\<rparr>, references_request]" references_request]
    by (simp add: sample_tools_def references_request_def cursor_given_def symbol_given_def)
qed

text \<open>A wire that carries the answers of \<open>restart_lsp\<close> only.\<close>

definition no_coder :: "'a Coder" where
  "no_coder = \<lparr>co_to_value = (\<lambda>x. Inl ''unsupported''), co_from_value = (\<lambda>j. Inl ''unsupported'')\<rparr>"

definition names_coder :: "RestartLspResult Coder" where
  "names_coder = \<lparr>co_to_value = (\<lambda>res. Inr (JArr (map JStr (rl_restarted res)))),
     co_from_value = (\<lambda>j. case j of JArr js \<Rightarrow> Inr \<lparr>rl_restarted = map (\<lambda>j. case j of JStr s \<Rightarrow> s | _ \<Rightarrow> []) js\<rparr> | _ \<Rightarrow> Inl ''no array'')\<rparr>"

definition restart_wire :: Wire where
  "restart_wire = \<lparr>wi_symbols = no_coder, wi_definition = no_coder, wi_references = no_coder, wi_callers = no_coder,
     wi_callees = no_coder, wi_call_path = no_coder, wi_range = no_coder, wi_restarted = names_coder\<rparr>"

theorem proxy_transparent_witness:
  "fst (proxy_tool sample_tools restart_wire (RqRestartLsp \<lparr>rl_language = None\<rparr>) (open_runtime nested_world)) = Inr (OutRestarted \<lparr>rl_restarted = []\<rparr>)"
proof -
  have "carried restart_wire (OutRestarted res)" for res
    by (cases res) (simp add: round_trips_def restart_wire_def names_coder_def comp_def)
  then have "proxy_tool sample_tools restart_wire (RqRestartLsp \<lparr>rl_language = None\<rparr>) (open_runtime nested_world) =
      (case semnav_tool sample_tools (RqRestartLsp \<lparr>rl_language = None\<rparr>) (open_runtime nested_world) of (Inr x, r') \<Rightarrow> (Inr x, r')
       | (Inl e, r') \<Rightarrow> (Inl (InternalError (''daemon error: '' @ error_message e)), r'))"
    by (intro proxy_transparent) (auto split: prod.splits)
  then show ?thesis by (simp add: restart_language_def open_runtime_def taken_def)
qed

end
