(* ===== verification/Daemon_Link.thy ===== *)
theory Daemon_Link
  imports Mcp Lsp_Client
begin

text \<open>
  The link between a proxy and the daemon: lines of JSON (\<open>src/daemon/protocol.rs\<close>), the client
  actor that pairs calls and replies (\<open>src/daemon/client.rs\<close>), the connection handler of the daemon
  (\<open>src/daemon/server.rs\<close>), and the handle that reconnects (\<open>src/daemon/reconnect.rs\<close>).
\<close>

section \<open>Lines\<close>

text \<open>Ids are \<open>u64\<close> in the code; a connection would have to carry \<open>2 ^ 64\<close> calls to leave their range.\<close>

record DaemonEnvelope =
  de_id :: nat
  de_request :: DaemonRequest

record DaemonResponseEnvelope =
  dr_id :: nat
  dr_result :: "string + Json"

text \<open>
  \<open>serde_json\<close> for one type: its text, and what a text reads as (a text that is not UTF-8 is an
  error too).
\<close>

record 'a LineCodec =
  lc_print :: "'a \<Rightarrow> string + string"
  lc_parse :: "string \<Rightarrow> string + 'a"

definition write_line :: "'a LineCodec \<Rightarrow> 'a \<Rightarrow> string + string" where
  "write_line c x = bindR (lc_print c x) (\<lambda>line. Inr (line @ [lf]))"

definition read_line :: "'a LineCodec \<Rightarrow> ByteStream \<Rightarrow> (string + 'a option) \<times> ByteStream" where
  "read_line c b = (case read_until_lf b of
      (Inl e, b') \<Rightarrow> (Inl (io_text e), b')
    | (Inr line, b') \<Rightarrow>
        if line = [] then (Inr None, b')
        else (case lc_parse c (trim_end_char lf line) of
            Inl e \<Rightarrow> (Inl (''malformed daemon protocol line: '' @ e), b')
          | Inr x \<Rightarrow> (Inr (Some x), b')))"

lemma read_line_shorter:
  "read_line c b = (Inr (Some x), b') \<Longrightarrow> length (bs_bytes b') < length (bs_bytes b)"
  by (auto simp: read_line_def split: prod.splits sum.splits if_splits dest: read_until_lf_shorter)

text \<open>The reader task of the client.\<close>

datatype DaemonInbound = DiResponse DaemonResponseEnvelope | DiEof | DiFailed string

function daemon_reader :: "DaemonResponseEnvelope LineCodec \<Rightarrow> ByteStream \<Rightarrow> DaemonInbound list" where
  "daemon_reader c b = (case read_line c b of
      (Inr (Some response), b') \<Rightarrow> DiResponse response # daemon_reader c b'
    | (Inr None, b') \<Rightarrow> [DiEof]
    | (Inl e, b') \<Rightarrow> [DiFailed e])"
  by pat_completeness auto

termination
  by (relation "measure (\<lambda>(c, b). length (bs_bytes b))") (auto dest: read_line_shorter [OF sym])

declare daemon_reader.simps [simp del]

section \<open>The client actor\<close>

text \<open>
  The locals of \<open>actor_loop\<close>, a reply channel being the ticket of its caller. \<open>dc_receiver\<close> says that
  the receiving end of the command channel has not been dropped; it outlives the loop, which is
  left before the waiting callers are told.
\<close>

type_synonym DaemonReply = "string + Json"

record DaemonActor =
  dc_next_id :: nat
  dc_pending :: "nat \<Rightarrow> nat option"
  dc_replies :: "nat \<Rightarrow> DaemonReply option"
  dc_alive :: bool
  dc_receiver :: bool
  dc_written :: "(nat \<times> DaemonEnvelope) list"

definition daemon_start :: DaemonActor where
  "daemon_start = \<lparr>dc_next_id = 0, dc_pending = Map.empty, dc_replies = Map.empty, dc_alive = True,
     dc_receiver = True, dc_written = []\<rparr>"

text \<open>
  What the loop meets: an inbound event, the end of the inbound channel, a call with the outcome of
  writing it (\<open>None\<close> is success), the end of the command channel; and, after the loop, the return
  of the task, which drops its locals.
\<close>

datatype DaemonEvent =
    DeInbound DaemonInbound
  | DeInboundGone
  | DeCall DaemonRequest nat "string option"
  | DeCmdGone
  | DeReturn

definition put_reply :: "nat \<Rightarrow> DaemonReply \<Rightarrow> DaemonActor \<Rightarrow> DaemonActor" where
  "put_reply t r a = a\<lparr>dc_replies := (dc_replies a)(t \<mapsto> r)\<rparr>"

definition close_reason :: "string option \<Rightarrow> DaemonReply" where
  "close_reason m = Inl (case m of Some r \<Rightarrow> r | None \<Rightarrow> ''daemon connection closed'')"

definition daemon_close :: "string option \<Rightarrow> DaemonActor \<Rightarrow> DaemonActor" where
  "daemon_close m a = a\<lparr>dc_alive := False, dc_pending := Map.empty,
     dc_replies := mux_drain (close_reason m) (dc_pending a) (dc_replies a)\<rparr>"

definition write_error :: "string \<Rightarrow> string" where
  "write_error e = ''write failed: '' @ e"

fun daemon_event :: "DaemonEvent \<Rightarrow> DaemonActor \<Rightarrow> DaemonActor" where
  "daemon_event (DeInbound (DiResponse resp)) a = (case dc_pending a (dr_id resp) of
      Some t \<Rightarrow> put_reply t (dr_result resp) (a\<lparr>dc_pending := (dc_pending a)(dr_id resp := None)\<rparr>)
    | None \<Rightarrow> a)"
| "daemon_event (DeInbound DiEof) a = daemon_close None a"
| "daemon_event (DeInbound (DiFailed m)) a = daemon_close (Some m) a"
| "daemon_event DeInboundGone a = daemon_close None a"
| "daemon_event (DeCall rq t wr) a =
     (let i = dc_next_id a; a' = a\<lparr>dc_next_id := i + 1\<rparr> in
      case wr of
        None \<Rightarrow> a'\<lparr>dc_pending := (dc_pending a')(i \<mapsto> t),
                  dc_written := dc_written a' @ [(t, \<lparr>de_id = i, de_request = rq\<rparr>)]\<rparr>
      | Some e \<Rightarrow> daemon_close (Some (write_error e)) (put_reply t (Inl (write_error e)) a'))"
| "daemon_event DeCmdGone a = daemon_close None a"
| "daemon_event DeReturn a = a"

definition daemon_step :: "DaemonEvent \<Rightarrow> DaemonActor \<Rightarrow> DaemonActor" where
  "daemon_step e a = (if dc_alive a then daemon_event e a
     else if e = DeReturn then a\<lparr>dc_receiver := False\<rparr> else a)"

text \<open>\<open>DaemonClient::is_closed\<close> asks the sending end of the command channel.\<close>

definition is_closed :: "DaemonActor \<Rightarrow> bool" where
  "is_closed a \<longleftrightarrow> \<not> dc_receiver a"

section \<open>The actor is a multiplexer\<close>

definition written_ids :: "DaemonActor \<Rightarrow> nat list" where
  "written_ids a = map (\<lambda>(t, e). de_id e) (dc_written a)"

definition daemon_view :: "DaemonActor \<Rightarrow> (nat, DaemonReply) Mux" where
  "daemon_view a = \<lparr>mx_used = set (written_ids a), mx_pending = dc_pending a,
     mx_replies = dc_replies a, mx_alive = dc_alive a\<rparr>"

text \<open>A failed write ends the loop, so the ids on the wire are 0, 1, 2, ... without a gap.\<close>

definition daemon_ok :: "DaemonActor \<Rightarrow> bool" where
  "daemon_ok a \<longleftrightarrow> written_ids a = [0..<length (dc_written a)] \<and>
     (dc_alive a \<longrightarrow> dc_next_id a = length (dc_written a)) \<and> (\<not> dc_alive a \<longrightarrow> dc_pending a = Map.empty)"

fun daemon_event_labels :: "DaemonEvent \<Rightarrow> DaemonActor \<Rightarrow> (nat, DaemonReply) mux_label list" where
  "daemon_event_labels (DeInbound (DiResponse resp)) a =
     (if dc_pending a (dr_id resp) = None then [] else [MAnswer (dr_id resp) (dr_result resp)])"
| "daemon_event_labels (DeInbound DiEof) a = [MClose (close_reason None)]"
| "daemon_event_labels (DeInbound (DiFailed m)) a = [MClose (close_reason (Some m))]"
| "daemon_event_labels DeInboundGone a = [MClose (close_reason None)]"
| "daemon_event_labels (DeCall rq t wr) a = (case wr of
      None \<Rightarrow> [MIssue (dc_next_id a) t]
    | Some e \<Rightarrow> [MRefuse t (Inl (write_error e)), MClose (close_reason (Some (write_error e)))])"
| "daemon_event_labels DeCmdGone a = [MClose (close_reason None)]"
| "daemon_event_labels DeReturn a = []"

definition daemon_labels :: "DaemonEvent \<Rightarrow> DaemonActor \<Rightarrow> (nat, DaemonReply) mux_label list" where
  "daemon_labels e a = (if dc_alive a then daemon_event_labels e a else [])"

fun daemon_asks :: "DaemonEvent \<Rightarrow> nat list" where
  "daemon_asks (DeCall rq t wr) = [t]"
| "daemon_asks _ = []"

lemma daemon_close_move:
  "dc_alive a \<Longrightarrow> mux_move (daemon_view a) (MClose (close_reason m)) (daemon_view (daemon_close m a))"
  using mux_move.close [of "daemon_view a" "close_reason m"]
  by (simp add: daemon_view_def daemon_close_def written_ids_def)

lemma daemon_event_simulates:
  assumes "daemon_ok a" and "dc_alive a"
  shows "mux_run (daemon_view a) (daemon_event_labels e a) (daemon_view (daemon_event e a))"
proof (cases "(e, a)" rule: daemon_event.cases)
  case (1 resp b)
  then have e: "e = DeInbound (DiResponse resp)" "b = a" by simp_all
  show ?thesis
  proof (cases "dc_pending a (dr_id resp)")
    case None
    with e show ?thesis by (simp add: mux_run.idle)
  next
    case (Some t)
    then show ?thesis
      using mux_move.answer [of "daemon_view a" "dr_id resp" t "dr_result resp"] assms(2) e
      by (simp add: daemon_view_def put_reply_def written_ids_def mux_run_one)
  qed
next
  case (5 rq t wr b)
  then have e: "e = DeCall rq t wr" "b = a" by simp_all
  show ?thesis
  proof (cases wr)
    case None
    have fresh: "dc_next_id a \<notin> set (written_ids a)" using assms by (simp add: daemon_ok_def)
    show ?thesis
      using mux_move.issue [of "daemon_view a" "dc_next_id a" t] assms(2) e None fresh
      by (simp add: daemon_view_def written_ids_def mux_run_one Let_def)
  next
    case (Some m)
    let ?b = "put_reply t (Inl (write_error m)) (a\<lparr>dc_next_id := dc_next_id a + 1\<rparr>)"
    have "mux_move (daemon_view a) (MRefuse t (Inl (write_error m))) (daemon_view ?b)"
      using mux_move.refuse [of "daemon_view a" t "Inl (write_error m)"] assms(2)
      by (simp add: daemon_view_def put_reply_def written_ids_def)
    moreover have "mux_move (daemon_view ?b) (MClose (close_reason (Some (write_error m))))
        (daemon_view (daemon_close (Some (write_error m)) ?b))"
      by (rule daemon_close_move) (simp add: assms(2) put_reply_def)
    ultimately show ?thesis
      using mux_run_append [OF mux_run_one mux_run_one] e Some by (simp add: Let_def)
  qed
qed (simp_all add: daemon_close_move mux_run_one assms(2) mux_run.idle)

lemma daemon_ok_event: "daemon_ok a \<Longrightarrow> dc_alive a \<Longrightarrow> daemon_ok (daemon_event e a)"
  by (cases "(e, a)" rule: daemon_event.cases)
    (auto simp: daemon_ok_def daemon_close_def put_reply_def written_ids_def Let_def split: option.split)

interpretation dmux: rpc_mux daemon_step daemon_start daemon_ok daemon_view daemon_labels daemon_asks
proof unfold_locales
  show "daemon_ok daemon_start" by (simp add: daemon_ok_def daemon_start_def written_ids_def)
  show "daemon_view daemon_start = mux_start"
    by (simp add: daemon_view_def daemon_start_def mux_start_def written_ids_def)
  show "daemon_ok (daemon_step e a)" if "daemon_ok a" for e a
    using that daemon_ok_event by (simp add: daemon_step_def) (simp add: daemon_ok_def written_ids_def)
  show "mux_run (daemon_view a) (daemon_labels e a) (daemon_view (daemon_step e a))" if "daemon_ok a" for e a
    using daemon_event_simulates [OF that]
    by (simp add: daemon_step_def daemon_labels_def mux_run.idle) (simp add: daemon_view_def written_ids_def mux_run.idle)
  show "run_tickets (daemon_labels e a) = (if mx_alive (daemon_view a) then daemon_asks e else [])" for e a
    by (cases "(e, a)" rule: daemon_event_labels.cases)
      (auto simp: daemon_labels_def daemon_view_def run_tickets_def split: option.splits)
qed

abbreviation daemon_run :: "DaemonEvent list \<Rightarrow> DaemonActor" where
  "daemon_run es \<equiv> run_events daemon_step es daemon_start"

abbreviation daemon_trace :: "DaemonEvent list \<Rightarrow> (nat, DaemonReply) mux_label list" where
  "daemon_trace es \<equiv> run_labels daemon_step daemon_labels es daemon_start"

lemma daemon_trace_snoc: "daemon_trace (es @ [e]) = daemon_trace es @ daemon_labels e (daemon_run es)"
  by (simp add: run_labels_append)

lemma daemon_dead [simp]: "\<not> dc_alive a \<Longrightarrow> \<not> dc_alive (daemon_step e a) \<and> dc_written (daemon_step e a) = dc_written a"
  by (simp add: daemon_step_def)

lemma daemon_label_kinds:
  "MIssue i t \<in> set (daemon_labels e a) \<Longrightarrow> \<exists>rq. e = DeCall rq t None \<and> i = dc_next_id a \<and> dc_alive a"
  "MAnswer i r \<in> set (daemon_labels e a) \<Longrightarrow> e = DeInbound (DiResponse \<lparr>dr_id = i, dr_result = r\<rparr>)"
  "MRefuse t r \<in> set (daemon_labels e a) \<Longrightarrow> (\<exists>x. r = Inl x) \<and> \<not> dc_alive (daemon_step e a)"
  "MClose r \<in> set (daemon_labels e a) \<Longrightarrow> (\<exists>x. r = Inl x) \<and> \<not> dc_alive (daemon_step e a)"
  by (cases "(e, a)" rule: daemon_event_labels.cases;
      auto simp: daemon_labels_def daemon_step_def daemon_close_def close_reason_def Let_def split: option.splits if_splits)+

lemma daemon_written_step:
  "(t, x) \<in> set (dc_written (daemon_step e a)) \<longleftrightarrow> (t, x) \<in> set (dc_written a) \<or>
     (dc_alive a \<and> e = DeCall (de_request x) t None \<and> de_id x = dc_next_id a)"
  by (cases "(e, a)" rule: daemon_event.cases)
    (auto simp: daemon_step_def daemon_close_def put_reply_def Let_def split: option.splits)

lemma daemon_trace_issue:
  "MIssue i t \<in> set (daemon_trace es) \<Longrightarrow> \<exists>x. (t, x) \<in> set (dc_written (daemon_run es)) \<and> de_id x = i"
proof (induction es rule: rev_induct)
  case Nil
  then show ?case by simp
next
  case (snoc e es)
  show ?case
  proof (cases "MIssue i t \<in> set (daemon_trace es)")
    case True
    with snoc.IH show ?thesis by (auto simp: daemon_written_step)
  next
    case False
    with snoc.prems obtain rq where "e = DeCall rq t None" "i = dc_next_id (daemon_run es)" "dc_alive (daemon_run es)"
      by (auto simp: daemon_trace_snoc dest: daemon_label_kinds(1))
    then have "(t, \<lparr>de_id = i, de_request = rq\<rparr>) \<in> set (dc_written (daemon_run (es @ [e])))"
      by (simp add: daemon_written_step)
    then show ?thesis by (intro exI [of _ "\<lparr>de_id = i, de_request = rq\<rparr>"]) simp
  qed
qed

lemma daemon_trace_answer:
  "MAnswer i r \<in> set (daemon_trace es) \<Longrightarrow> DeInbound (DiResponse \<lparr>dr_id = i, dr_result = r\<rparr>) \<in> set es"
  by (induction es rule: rev_induct) (auto simp: daemon_trace_snoc dest: daemon_label_kinds(2))

lemma daemon_trace_failed:
  "MRefuse t r \<in> set (daemon_trace es) \<or> MClose r \<in> set (daemon_trace es) \<Longrightarrow>
     (\<exists>x. r = Inl x) \<and> \<not> dc_alive (daemon_run es)"
  by (induction es rule: rev_induct) (auto simp: daemon_trace_snoc dest: daemon_label_kinds(3,4))

lemma daemon_written_nth:
  assumes "(t, x) \<in> set (dc_written (daemon_run es))"
  shows "de_id x < length (dc_written (daemon_run es)) \<and>
    snd (dc_written (daemon_run es) ! de_id x) = x \<and>
    (\<forall>k < length (dc_written (daemon_run es)). de_id (snd (dc_written (daemon_run es) ! k)) = k)"
proof -
  have ids: "written_ids (daemon_run es) = [0..<length (dc_written (daemon_run es))]"
    using dmux.run_ok [OF dmux.start_ok] by (simp add: daemon_ok_def)
  have at: "de_id (snd (dc_written (daemon_run es) ! k)) = k" if "k < length (dc_written (daemon_run es))" for k
    using arg_cong [OF ids, of "\<lambda>xs. xs ! k"] that by (simp add: written_ids_def case_prod_beta)
  obtain k where k: "k < length (dc_written (daemon_run es))" "dc_written (daemon_run es) ! k = (t, x)"
    using assms by (auto simp: in_set_conv_nth)
  with at [OF k(1)] have "de_id x = k" by simp
  with k at show ?thesis by simp
qed

text \<open>Where a reply comes from: a response under the id of the call, or the end of the actor.\<close>

lemma daemon_reply_origin:
  assumes "distinct (concat (map daemon_asks es))" and "dc_replies (daemon_run es) t = Some r"
  shows "(\<exists>k rq. k < length (dc_written (daemon_run es)) \<and>
      dc_written (daemon_run es) ! k = (t, \<lparr>de_id = k, de_request = rq\<rparr>) \<and>
      DeInbound (DiResponse \<lparr>dr_id = k, dr_result = r\<rparr>) \<in> set es) \<or>
    (\<not> dc_alive (daemon_run es) \<and> (\<exists>x. r = Inl x))"
proof -
  have "reply_origin (daemon_trace es) t r"
    using dmux.reply_from [OF assms(1), of t r] assms(2) by (simp add: daemon_view_def)
  then consider i where "MIssue i t \<in> set (daemon_trace es)" "MAnswer i r \<in> set (daemon_trace es)"
    | "MRefuse t r \<in> set (daemon_trace es) \<or> MClose r \<in> set (daemon_trace es)"
    by (auto simp: reply_origin_def)
  then show ?thesis
  proof cases
    case 1
    obtain x where x: "(t, x) \<in> set (dc_written (daemon_run es))" "de_id x = i" using daemon_trace_issue [OF 1(1)] by blast
    note n = daemon_written_nth [OF x(1)]
    obtain u where u: "dc_written (daemon_run es) ! i = (u, x)" using n x(2) by (metis prod.collapse)
    obtain j where j: "j < length (dc_written (daemon_run es))" "dc_written (daemon_run es) ! j = (t, x)"
      using x(1) by (auto simp: in_set_conv_nth)
    have "j = i" using n j x(2) by auto
    with u j have "dc_written (daemon_run es) ! i = (t, \<lparr>de_id = i, de_request = de_request x\<rparr>)" using x(2) by simp
    then show ?thesis using daemon_trace_answer [OF 1(2)] j(1) \<open>j = i\<close> by blast
  next
    case 2
    then show ?thesis using daemon_trace_failed by blast
  qed
qed

section \<open>The daemon's side of a connection\<close>

text \<open>
  A connection as the daemon sees it: the runtime it shares with the others, the responses written,
  whether it asked the daemon to stop. \<open>dh_meanwhile k\<close> is what other connections do to the runtime
  before request \<open>k\<close> is dispatched, \<open>dh_writable k\<close> whether response \<open>k\<close> can still be written.
\<close>

record DaemonHost =
  dh_tools :: Tools
  dh_wire :: Wire
  dh_requests :: "DaemonEnvelope LineCodec"
  dh_responses :: "DaemonResponseEnvelope LineCodec"
  dh_meanwhile :: "nat \<Rightarrow> Runtime \<Rightarrow> Runtime"
  dh_writable :: "nat \<Rightarrow> bool"

record Conn =
  cn_runtime :: Runtime
  cn_sent :: "DaemonResponseEnvelope list"
  cn_stop :: bool

definition respond :: "DaemonHost \<Rightarrow> DaemonResponseEnvelope \<Rightarrow> Conn \<Rightarrow> bool \<times> Conn" where
  "respond h resp cn =
     (if is_ok (write_line (dh_responses h) resp) \<and> dh_writable h (length (cn_sent cn))
      then (True, cn\<lparr>cn_sent := cn_sent cn @ [resp]\<rparr>) else (False, cn))"

function handle_connection :: "DaemonHost \<Rightarrow> ByteStream \<Rightarrow> Conn \<Rightarrow> Conn" where
  "handle_connection h b cn = (case read_line (dh_requests h) b of
      (Inl e, b') \<Rightarrow> cn
    | (Inr None, b') \<Rightarrow> cn
    | (Inr (Some env), b') \<Rightarrow>
        if de_request env = RqShutdown
        then snd (respond h \<lparr>dr_id = de_id env, dr_result = Inr JNull\<rparr> (cn\<lparr>cn_stop := True\<rparr>))
        else (case dispatch (dh_tools h) (dh_wire h) (de_request env)
                     (dh_meanwhile h (length (cn_sent cn)) (cn_runtime cn)) of
          (v, r) \<Rightarrow> (case respond h \<lparr>dr_id = de_id env, dr_result = v\<rparr> (cn\<lparr>cn_runtime := r\<rparr>) of
            (True, cn') \<Rightarrow> handle_connection h b' cn'
          | (False, cn') \<Rightarrow> cn')))"
  by pat_completeness auto

termination handle_connection
proof (relation "measure (\<lambda>(h, b, cn). length (bs_bytes b))", goal_cases)
  case 1
  show ?case by simp
next
  case 2
  note eqs = this
  show ?case using read_line_shorter [OF sym] eqs(1-3) by simp
qed

declare handle_connection.simps [simp del]

section \<open>Reconnecting\<close>

text \<open>
  \<open>ReconnectingDaemonClient\<close> over numbered connections: the one in use, the next number, those whose
  client is seen to be closed, and what the call at hand has sent. The outside world decides what a
  connection answers (its client may not take the call any more, or drop it unanswered), whether
  its client is seen closed right afterwards, whether connecting fails, and what other calls do
  while this one waits for the write lock.
\<close>

datatype CallFate = NotTaken | ReplyDropped | Replied DaemonReply

definition call_result :: "CallFate \<Rightarrow> string + Json" where
  "call_result f = (case f of
      NotTaken \<Rightarrow> Inl ''daemon client closed''
    | ReplyDropped \<Rightarrow> Inl ''daemon client dropped reply''
    | Replied v \<Rightarrow> daemon_error v)"

record LinkWorld =
  lw_current :: nat
  lw_next :: nat
  lw_closed :: "nat set"
  lw_sent :: "(nat \<times> DaemonRequest) list"

record LinkEnv =
  le_answer :: "nat \<Rightarrow> DaemonRequest \<Rightarrow> CallFate"
  le_closes :: "nat \<Rightarrow> DaemonRequest \<Rightarrow> bool"
  le_connect :: "nat \<Rightarrow> string option"
  le_others :: "LinkWorld \<Rightarrow> LinkWorld"

type_synonym 'a linked = "(string, 'a, LinkWorld) qm"

definition client_call :: "LinkEnv \<Rightarrow> nat \<Rightarrow> DaemonRequest \<Rightarrow> Json linked" where
  "client_call env c rq = (\<lambda>w. (call_result (le_answer env c rq),
     w\<lparr>lw_sent := lw_sent w @ [(c, rq)],
       lw_closed := (if le_closes env c rq then insert c (lw_closed w) else lw_closed w)\<rparr>))"

definition reconnect :: "LinkEnv \<Rightarrow> nat linked" where
  "reconnect env = (\<lambda>w0. let w = le_others env w0 in
     if lw_current w \<notin> lw_closed w then (Inr (lw_current w), w)
     else (case le_connect env (lw_next w) of
        Some e \<Rightarrow> (Inl (''daemon reconnect failed: '' @ e), w)
      | None \<Rightarrow> (Inr (lw_next w), w\<lparr>lw_current := lw_next w, lw_next := lw_next w + 1\<rparr>)))"

definition reconnecting_call :: "LinkEnv \<Rightarrow> DaemonRequest \<Rightarrow> Json linked" where
  "reconnecting_call env rq = bindQ
     (\<lambda>w. if lw_current w \<in> lw_closed w then reconnect env w else (Inr (lw_current w), w))
     (\<lambda>c w. case client_call env c rq w of
        (Inr v, w') \<Rightarrow> (Inr v, w')
      | (Inl e, w') \<Rightarrow> if c \<in> lw_closed w' then bindQ (reconnect env) (\<lambda>c'. client_call env c' rq) w'
          else (Inl e, w'))"

section \<open>Lines read back\<close>

text \<open>
  What JSON objects satisfy: the text has no line feed and reads as itself, and no proper part at its
  front reads as anything.
\<close>

definition line_ok :: "'a LineCodec \<Rightarrow> 'a \<Rightarrow> bool" where
  "line_ok c x \<longleftrightarrow> (\<exists>l. lc_print c x = Inr l \<and> l \<noteq> [] \<and> lf \<notin> set l \<and> lc_parse c l = Inr x \<and>
     (\<forall>k. 0 < k \<and> k < length l \<longrightarrow> (\<exists>e. lc_parse c (take k l) = Inl e)))"

definition line_of :: "'a LineCodec \<Rightarrow> 'a \<Rightarrow> string" where
  "line_of c x = (case write_line c x of Inl e \<Rightarrow> [] | Inr s \<Rightarrow> s)"

definition wire_of :: "'a LineCodec \<Rightarrow> 'a list \<Rightarrow> string" where
  "wire_of c xs = concat (map (line_of c) xs)"

lemma wire_of_simps [simp]: "wire_of c [] = []" "wire_of c (x # xs) = line_of c x @ wire_of c xs"
  by (simp_all add: wire_of_def)

lemma line_okE:
  assumes "line_ok c x"
  obtains l where "line_of c x = l @ [lf]" "l \<noteq> []" "lf \<notin> set l" "lc_parse c l = Inr x"
    "\<forall>k. 0 < k \<and> k < length l \<longrightarrow> (\<exists>e. lc_parse c (take k l) = Inl e)"
  using assms by (auto simp: line_ok_def line_of_def write_line_def)

lemma dropWhile_char: "c \<notin> set l \<Longrightarrow> dropWhile (\<lambda>x. x = c) l = l"
  by (cases l) auto

lemma trim_line [simp]:
  "lf \<notin> set l \<Longrightarrow> trim_end_char lf (l @ [lf]) = l"
  "lf \<notin> set l \<Longrightarrow> trim_end_char lf l = l"
  by (simp_all add: trim_end_char_def dropWhile_char)

text \<open>
  The stream may be cut anywhere: the next line is read whole, or nothing more is read.
\<close>

lemma read_cut:
  assumes ok: "line_ok c x" and bytes: "bs_bytes b = take n (wire_of c (x # xs))"
  shows "(\<exists>b' n'. read_line c b = (Inr (Some x), b') \<and> bs_bytes b' = take n' (wire_of c xs) \<and>
      (length (wire_of c (x # xs)) \<le> n \<longrightarrow> length (wire_of c xs) \<le> n')) \<or>
    (n < length (wire_of c (x # xs)) \<and> (\<exists>e b'. read_line c b = (Inl e, b') \<or> read_line c b = (Inr None, b')))"
proof -
  obtain l where l: "line_of c x = l @ [lf]" "l \<noteq> []" "lf \<notin> set l" "lc_parse c l = Inr x"
    and cut: "\<forall>k. 0 < k \<and> k < length l \<longrightarrow> (\<exists>e. lc_parse c (take k l) = Inl e)"
    using ok by (rule line_okE)
  show ?thesis
  proof (cases "length l < n")
    case True
    then have "bs_bytes b = l @ lf # take (n - length l - 1) (wire_of c xs)"
      using bytes l(1) by (simp add: take_Cons' )
    then have "read_line c b = (Inr (Some x), b\<lparr>bs_bytes := take (n - length l - 1) (wire_of c xs)\<rparr>)"
      using l by (simp add: read_line_def read_until_lf_at)
    then show ?thesis using l(1) by (intro disjI1 exI conjI) auto
  next
    case False
    then have b: "bs_bytes b = take n l" using bytes l(1) by simp
    then have nolf: "lf \<notin> set (bs_bytes b)" using l(3) by (auto dest: in_set_takeD)
    show ?thesis
    proof (cases "bs_broken b")
      case (Some e)
      with nolf have "read_until_lf b = (Inl (StreamError e), b\<lparr>bs_bytes := []\<rparr>)"
        by (simp add: read_until_lf_def has_line_def)
      then show ?thesis using False l(1) by (simp add: read_line_def)
    next
      case None
      note rd = read_until_lf_end [OF nolf None]
      consider "n = 0" | "0 < n" "n < length l" | "n = length l" using False by linarith
      then show ?thesis
      proof cases
        case 1
        then show ?thesis using rd b l(1) by (simp add: read_line_def)
      next
        case 2
        then obtain e where "lc_parse c (take n l) = Inl e" using cut by blast
        then show ?thesis using 2 rd b l(1) nolf by (simp add: read_line_def)
      next
        case 3
        then have "read_line c b = (Inr (Some x), b\<lparr>bs_bytes := []\<rparr>)" using rd b l nolf by (simp add: read_line_def)
        then show ?thesis using 3 l(1)
          by (intro disjI1 exI [of _ "b\<lparr>bs_bytes := []\<rparr>"] exI [of _ 0]) simp
      qed
    qed
  qed
qed

end
