(* ===== verification/Daemon_Link_Props.thy ===== *)
theory Daemon_Link_Props
  imports Daemon_Link Mcp_Props
begin

text \<open>
  What the link guarantees: a connection cut anywhere never yields a wrong response, a caller gets
  the answer the tool gave to its own request, and a request is repeated only when its connection
  died.
\<close>

section \<open>Cut streams\<close>

text \<open>C30: A connection that breaks never yields a wrong response. If the daemon wrote the responses \<open>xs\<close>
  and the stream is cut after any number of bytes, cleanly or with an error, the reader task
  reports a front part of \<open>xs\<close> in order, then that the stream is over; and all of \<open>xs\<close> if nothing
  was cut off.\<close>

theorem broken_link_truthful:
  assumes "\<forall>x \<in> set xs. line_ok c x" and "bs_bytes b = take n (wire_of c xs)"
  shows "\<exists>k ending. daemon_reader c b = map DiResponse (take k xs) @ [ending] \<and>
    (\<forall>x. ending \<noteq> DiResponse x) \<and> (length (wire_of c xs) \<le> n \<longrightarrow> length xs \<le> k)"
  using assms
proof (induction xs arbitrary: b n)
  case Nil
  then have "\<exists>e b'. read_line c b = (Inl e, b') \<or> read_line c b = (Inr None, b')"
    by (cases "bs_broken b") (auto simp: read_line_def read_until_lf_def has_line_def)
  then show ?case by (auto simp: daemon_reader.simps [of c b])
next
  case (Cons x xs)
  have "line_ok c x" using Cons.prems(1) by simp
  from read_cut [OF this Cons.prems(2)] show ?case
  proof (elim disjE exE conjE)
    fix b' n'
    assume rd: "read_line c b = (Inr (Some x), b')" and b': "bs_bytes b' = take n' (wire_of c xs)"
      and full: "length (wire_of c (x # xs)) \<le> n \<longrightarrow> length (wire_of c xs) \<le> n'"
    obtain k ending where "daemon_reader c b' = map DiResponse (take k xs) @ [ending]"
      "\<forall>x. ending \<noteq> DiResponse x" "length (wire_of c xs) \<le> n' \<longrightarrow> length xs \<le> k"
      using Cons.IH [OF _ b'] Cons.prems(1) by auto
    then show ?thesis using rd full
      by (intro exI [of _ "Suc k"] exI [of _ ending]) (simp add: daemon_reader.simps [of c b])
  next
    fix e b'
    assume "n < length (wire_of c (x # xs))" "read_line c b = (Inl e, b')"
    then show ?thesis by (intro exI [of _ 0] exI [of _ "DiFailed e"]) (simp add: daemon_reader.simps [of c b])
  next
    fix e b'
    assume "n < length (wire_of c (x # xs))" "read_line c b = (Inr None, b')"
    then show ?thesis by (intro exI [of _ 0] exI [of _ DiEof]) (simp add: daemon_reader.simps [of c b])
  qed
qed

lemma daemon_reader_truthful:
  assumes "\<forall>x \<in> set xs. line_ok c x" and "bs_bytes b = take n (wire_of c xs)"
    and "DiResponse x \<in> set (daemon_reader c b)"
  shows "x \<in> set xs"
  using assms
proof (induction xs arbitrary: b n)
  case Nil
  then show ?case by (cases "bs_broken b")
    (auto simp: daemon_reader.simps [of c b] read_line_def read_until_lf_def has_line_def)
next
  case (Cons y xs)
  have "line_ok c y" using Cons.prems(1) by simp
  from read_cut [OF this Cons.prems(2)] show ?case
  proof (elim disjE exE conjE)
    fix b' n'
    assume rd: "read_line c b = (Inr (Some y), b')" and b': "bs_bytes b' = take n' (wire_of c xs)"
    show ?thesis using Cons.IH [OF _ b'] Cons.prems(1,3) rd by (auto simp: daemon_reader.simps [of c b])
  qed (use Cons.prems(3) in \<open>simp_all add: daemon_reader.simps [of c b]\<close>)
qed

section \<open>The daemon answers in order\<close>

text \<open>The requests of one connection, run directly against the runtime.\<close>

fun direct :: "DaemonHost \<Rightarrow> nat \<Rightarrow> DaemonRequest list \<Rightarrow> Runtime \<Rightarrow> (string + Json) list" where
  "direct h k [] r = []"
| "direct h k (rq # rqs) r =
     (case dispatch (dh_tools h) (dh_wire h) rq (dh_meanwhile h k r) of
       (v, r') \<Rightarrow> v # direct h (Suc k) rqs r')"

lemma length_direct [simp]: "length (direct h k rqs r) = length rqs"
  by (induction h k rqs r rule: direct.induct) (simp_all split: prod.split)

definition envelopes :: "DaemonEnvelope list \<Rightarrow> (string + Json) list \<Rightarrow> DaemonResponseEnvelope list" where
  "envelopes es vs = map2 (\<lambda>e v. \<lparr>dr_id = de_id e, dr_result = v\<rparr>) es vs"

lemma in_envelopesE:
  assumes "x \<in> set (envelopes es vs)"
  obtains j where "j < length es" "de_id (es ! j) = dr_id x" "dr_result x = vs ! j"
  using assms unfolding envelopes_def by (auto simp: in_set_zip)

lemma respond_cases:
  "respond h x cn = (True, cn\<lparr>cn_sent := cn_sent cn @ [x]\<rparr>) \<or> respond h x cn = (False, cn)"
  by (simp add: respond_def)

lemma handle_connection_sent:
  assumes "\<forall>e \<in> set es. line_ok (dh_requests h) e \<and> de_request e \<noteq> RqShutdown"
    and "bs_bytes b = take n (wire_of (dh_requests h) es)"
  shows "\<exists>m. cn_sent (handle_connection h b cn) = cn_sent cn @
    take m (envelopes es (direct h (length (cn_sent cn)) (map de_request es) (cn_runtime cn)))"
  using assms
proof (induction es arbitrary: b n cn)
  case Nil
  then have "\<exists>e b'. read_line (dh_requests h) b = (Inl e, b') \<or> read_line (dh_requests h) b = (Inr None, b')"
    by (cases "bs_broken b") (auto simp: read_line_def read_until_lf_def has_line_def)
  then show ?case by (auto simp: handle_connection.simps [of h b] envelopes_def)
next
  case (Cons e es)
  have "line_ok (dh_requests h) e" using Cons.prems(1) by simp
  from read_cut [OF this Cons.prems(2)] show ?case
  proof (elim disjE exE conjE)
    fix b' n'
    assume rd: "read_line (dh_requests h) b = (Inr (Some e), b')" and b': "bs_bytes b' = take n' (wire_of (dh_requests h) es)"
    obtain v r where dsp: "dispatch (dh_tools h) (dh_wire h) (de_request e) (dh_meanwhile h (length (cn_sent cn)) (cn_runtime cn)) = (v, r)"
      by force
    let ?x = "\<lparr>dr_id = de_id e, dr_result = v\<rparr>" and ?cn = "cn\<lparr>cn_runtime := r\<rparr>"
    have live: "de_request e \<noteq> RqShutdown" using Cons.prems(1) by simp
    consider "respond h ?x ?cn = (True, ?cn\<lparr>cn_sent := cn_sent ?cn @ [?x]\<rparr>)" | "respond h ?x ?cn = (False, ?cn)"
      using respond_cases by blast
    then show ?thesis
    proof cases
      case 1
      obtain m where "cn_sent (handle_connection h b' (?cn\<lparr>cn_sent := cn_sent cn @ [?x]\<rparr>)) = cn_sent cn @ [?x] @
          take m (envelopes es (direct h (Suc (length (cn_sent cn))) (map de_request es) r))"
        using Cons.IH [OF _ b', of "?cn\<lparr>cn_sent := cn_sent cn @ [?x]\<rparr>"] Cons.prems(1) by auto
      then show ?thesis using rd dsp live 1
        by (intro exI [of _ "Suc m"]) (simp add: handle_connection.simps [of h b] envelopes_def)
    next
      case 2
      then show ?thesis using rd dsp live
        by (intro exI [of _ 0]) (simp add: handle_connection.simps [of h b])
    qed
  qed (intro exI [of _ 0], simp add: handle_connection.simps [of h b])+
qed

section \<open>End to end\<close>

definition requests_of :: "DaemonEvent list \<Rightarrow> DaemonEnvelope list" where
  "requests_of es = map snd (dc_written (daemon_run es))"

definition fresh_conn :: "Runtime \<Rightarrow> Conn" where
  "fresh_conn r = \<lparr>cn_runtime = r, cn_sent = [], cn_stop = False\<rparr>"

text \<open>
  \<open>joined h r es\<close>: the events \<open>es\<close> of the client actor have met a daemon with runtime \<open>r\<close>. What the
  client wrote reached the daemon, perhaps cut short, and every response the client saw was read
  from what the daemon wrote, perhaps cut short.
\<close>

definition joined :: "DaemonHost \<Rightarrow> Runtime \<Rightarrow> DaemonEvent list \<Rightarrow> bool" where
  "joined h r es \<longleftrightarrow> (\<exists>up down m n.
     bs_bytes up = take m (wire_of (dh_requests h) (requests_of es)) \<and>
     bs_bytes down = take n (wire_of (dh_responses h) (cn_sent (handle_connection h up (fresh_conn r)))) \<and>
     (\<forall>x. DeInbound (DiResponse x) \<in> set es \<longrightarrow> DiResponse x \<in> set (daemon_reader (dh_responses h) down)))"

lemma daemon_view_fields: "mx_alive (daemon_view a) = dc_alive a" "mx_replies (daemon_view a) = dc_replies a"
  by (simp_all add: daemon_view_def)

lemma daemon_call_taken:
  assumes "dc_alive (daemon_run pre)"
  shows "t \<in> set (run_tickets (daemon_trace (pre @ DeCall rq t wr # post)))"
  using dmux.tickets [OF dmux.run_ok [OF dmux.start_ok], of "DeCall rq t wr" pre] assms
  by (simp add: run_labels_append daemon_view_def)

text \<open>C29: The link delivers what the tools answer. Any number of callers share one connection, their
  calls, the responses and failures interleaved in any way, the streams cut anywhere. A reply a
  caller gets is the answer of the tool to the request this caller sent, run after the requests
  written before it, or an error from an actor that has stopped; and once the actor has stopped,
  every call it had taken has a reply.\<close>

theorem link_delivers:
  assumes tickets: "distinct (concat (map daemon_asks es))" and link: "joined h r es"
    and requests: "\<forall>e \<in> set (requests_of es). line_ok (dh_requests h) e \<and> de_request e \<noteq> RqShutdown"
    and responses: "\<forall>x \<in> set (envelopes (requests_of es) (direct h 0 (map de_request (requests_of es)) r)). line_ok (dh_responses h) x"
  shows "(\<forall>t v. dc_replies (daemon_run es) t = Some v \<longrightarrow>
      (\<exists>k rq. k < length (dc_written (daemon_run es)) \<and>
         dc_written (daemon_run es) ! k = (t, \<lparr>de_id = k, de_request = rq\<rparr>) \<and>
         v = direct h 0 (map de_request (requests_of es)) r ! k) \<or>
      (\<not> dc_alive (daemon_run es) \<and> (\<exists>e. v = Inl e))) \<and>
    (\<forall>pre rq t wr post. es = pre @ DeCall rq t wr # post \<and> dc_alive (daemon_run pre) \<and> \<not> dc_alive (daemon_run es) \<longrightarrow>
      dc_replies (daemon_run es) t \<noteq> None)"
proof (intro conjI allI impI)
  fix t v
  assume reply: "dc_replies (daemon_run es) t = Some v"
  let ?w = "dc_written (daemon_run es)"
  from daemon_reply_origin [OF tickets reply]
  show "(\<exists>k rq. k < length ?w \<and> ?w ! k = (t, \<lparr>de_id = k, de_request = rq\<rparr>) \<and>
      v = direct h 0 (map de_request (requests_of es)) r ! k) \<or> (\<not> dc_alive (daemon_run es) \<and> (\<exists>e. v = Inl e))"
  proof (elim disjE exE conjE)
    fix k rq
    assume k: "k < length ?w" and at: "?w ! k = (t, \<lparr>de_id = k, de_request = rq\<rparr>)"
      and seen: "DeInbound (DiResponse \<lparr>dr_id = k, dr_result = v\<rparr>) \<in> set es"
    obtain up down m n where up: "bs_bytes up = take m (wire_of (dh_requests h) (requests_of es))"
      and down: "bs_bytes down = take n (wire_of (dh_responses h) (cn_sent (handle_connection h up (fresh_conn r))))"
      and all: "\<forall>x. DeInbound (DiResponse x) \<in> set es \<longrightarrow> DiResponse x \<in> set (daemon_reader (dh_responses h) down)"
      using link by (auto simp: joined_def)
    obtain m' where sent: "cn_sent (handle_connection h up (fresh_conn r)) =
        take m' (envelopes (requests_of es) (direct h 0 (map de_request (requests_of es)) r))"
      using handle_connection_sent [OF requests up, of "fresh_conn r"] by (auto simp: fresh_conn_def)
    then have "\<forall>x \<in> set (cn_sent (handle_connection h up (fresh_conn r))). line_ok (dh_responses h) x"
      using responses by (auto dest: in_set_takeD)
    then have "\<lparr>dr_id = k, dr_result = v\<rparr> \<in> set (cn_sent (handle_connection h up (fresh_conn r)))"
      using daemon_reader_truthful [OF _ down] all seen by blast
    with sent have "\<lparr>dr_id = k, dr_result = v\<rparr> \<in> set (envelopes (requests_of es) (direct h 0 (map de_request (requests_of es)) r))"
      by (auto dest: in_set_takeD)
    then obtain j where j: "j < length ?w" "de_id (snd (?w ! j)) = k"
        "v = direct h 0 (map de_request (requests_of es)) r ! j"
      by (elim in_envelopesE) (simp add: requests_of_def)
    have "(fst (?w ! j), snd (?w ! j)) \<in> set ?w" using j(1) by (simp add: nth_mem)
    note ids = daemon_written_nth [OF this]
    then have "j = k" using j(1,2) by simp
    with j(3) have "v = direct h 0 (map de_request (requests_of es)) r ! k" by simp
    with k at show ?thesis by (intro disjI1 exI conjI)
  qed simp
next
  fix pre rq t wr post
  assume h: "es = pre @ DeCall rq t wr # post \<and> dc_alive (daemon_run pre) \<and> \<not> dc_alive (daemon_run es)"
  then have taken: "t \<in> set (run_tickets (daemon_trace es))" using daemon_call_taken by blast
  have dead: "\<not> mx_alive (daemon_view (daemon_run es))"
    using h daemon_view_fields(1) by metis
  show "dc_replies (daemon_run es) t \<noteq> None"
    using dmux.closed_answered [OF tickets taken dead] daemon_view_fields(2) by metis
qed

section \<open>Reconnecting\<close>

definition link_ok :: "LinkWorld \<Rightarrow> bool" where
  "link_ok w \<longleftrightarrow> lw_current w < lw_next w \<and> (\<forall>c \<in> lw_closed w. c < lw_next w)"

text \<open>Other calls do not touch this call's log, and a closed connection stays closed.\<close>

definition others_fair :: "LinkEnv \<Rightarrow> bool" where
  "others_fair env \<longleftrightarrow> (\<forall>w. link_ok w \<longrightarrow> link_ok (le_others env w) \<and> lw_sent (le_others env w) = lw_sent w \<and>
     lw_closed w \<subseteq> lw_closed (le_others env w))"

lemma reconnect_result:
  assumes "others_fair env" and "link_ok w" and "reconnect env w = (q, w')"
  shows "link_ok w' \<and> lw_closed w \<subseteq> lw_closed w' \<and> lw_sent w' = lw_sent w \<and>
    (case q of Inl e \<Rightarrow> \<exists>m. e = ''daemon reconnect failed: '' @ m | Inr c \<Rightarrow> c \<notin> lw_closed w' \<and> c < lw_next w')"
proof -
  let ?w = "le_others env w"
  have fair: "link_ok ?w" "lw_sent ?w = lw_sent w" "lw_closed w \<subseteq> lw_closed ?w"
    using assms(1,2) by (simp_all add: others_fair_def)
  show ?thesis
  proof (cases "lw_current ?w \<in> lw_closed ?w")
    case False
    with assms(3) fair show ?thesis by (auto simp: reconnect_def Let_def link_ok_def)
  next
    case True
    show ?thesis
    proof (cases "le_connect env (lw_next ?w)")
      case None
      have "lw_next ?w \<notin> lw_closed ?w" using fair(1) by (auto simp: link_ok_def)
      with True None assms(3) fair show ?thesis by (auto simp: reconnect_def Let_def link_ok_def less_SucI)
    next
      case (Some e)
      with True assms(3) fair show ?thesis by (auto simp: reconnect_def Let_def)
    qed
  qed
qed

lemma client_call_result:
  assumes "link_ok w" and "c < lw_next w" and "client_call env c rq w = (q, w')"
  shows "link_ok w' \<and> lw_sent w' = lw_sent w @ [(c, rq)] \<and> q = call_result (le_answer env c rq) \<and>
    lw_closed w \<subseteq> lw_closed w'"
  using assms by (auto simp: client_call_def link_ok_def split: if_splits)

text \<open>A request is repeated only when its connection died. Provided other calls leave this call's log
  alone and never reopen a closed connection, a call sends its request at most twice: the second
  time over another connection, after the first one answered with an error and its client was
  found closed. The outcome is the answer to the last sending, or the failure to connect.\<close>

theorem reconnect_repeats_once:
  assumes "others_fair env" and "link_ok w" and "reconnecting_call env rq w = (res, w')"
  shows "\<exists>cs. lw_sent w' = lw_sent w @ map (\<lambda>c. (c, rq)) cs \<and>
    ((\<exists>m. res = Inl (''daemon reconnect failed: '' @ m)) \<and> length cs \<le> 1 \<or>
     cs \<noteq> [] \<and> res = call_result (le_answer env (last cs) rq) \<and> length cs \<le> 2) \<and>
    (length cs = 2 \<longrightarrow> distinct cs \<and> \<not> is_ok (call_result (le_answer env (hd cs) rq)) \<and> hd cs \<in> lw_closed w')"
proof -
  define enter where "enter = (\<lambda>w. if lw_current w \<in> lw_closed w then reconnect env w else (Inr (lw_current w), w))"
  obtain q0 w0 where e0: "enter w = (q0, w0)" by force
  have w0: "link_ok w0 \<and> lw_sent w0 = lw_sent w \<and>
      (case q0 of Inl e \<Rightarrow> \<exists>m. e = ''daemon reconnect failed: '' @ m | Inr c \<Rightarrow> c < lw_next w0)"
    using reconnect_result [OF assms(1,2), of q0 w0] e0 assms(2)
    by (auto simp: enter_def link_ok_def split: if_splits sum.splits)
  show ?thesis
  proof (cases q0)
    case (Inl e)
    with assms(3) e0 w0 show ?thesis
      by (intro exI [of _ "[]"]) (auto simp: reconnecting_call_def bindQ_def enter_def)
  next
    case (Inr c)
    obtain q1 w1 where c1: "client_call env c rq w0 = (q1, w1)" by force
    have w1: "link_ok w1" "lw_sent w1 = lw_sent w @ [(c, rq)]" "q1 = call_result (le_answer env c rq)"
      using client_call_result [OF _ _ c1] w0 Inr by simp_all
    show ?thesis
    proof (cases "is_ok q1 \<or> c \<notin> lw_closed w1")
      case True
      then have "res = q1" "w' = w1"
        using assms(3) e0 Inr c1 by (auto simp: reconnecting_call_def bindQ_def enter_def split: sum.splits)
      with w1 show ?thesis by (intro exI [of _ "[c]"]) simp
    next
      case False
      obtain q2 w2 where r2: "reconnect env w1 = (q2, w2)" by force
      have w2: "link_ok w2 \<and> lw_closed w1 \<subseteq> lw_closed w2 \<and> lw_sent w2 = lw_sent w1 \<and>
          (case q2 of Inl e \<Rightarrow> \<exists>m. e = ''daemon reconnect failed: '' @ m | Inr c \<Rightarrow> c \<notin> lw_closed w2 \<and> c < lw_next w2)"
        by (rule reconnect_result [OF assms(1) w1(1) r2])
      have run: "(res, w') = bindQ (reconnect env) (\<lambda>c'. client_call env c' rq) w1"
        using assms(3) e0 Inr c1 False
        by (cases q1) (auto simp: reconnecting_call_def bindQ_def enter_def split: sum.splits)
      show ?thesis
      proof (cases q2)
        case (Inl e)
        with run r2 w1 w2 show ?thesis by (intro exI [of _ "[c]"]) (simp add: bindQ_def)
      next
        case (Inr c')
        obtain q3 w3 where c3: "client_call env c' rq w2 = (q3, w3)" by force
        have w3: "lw_sent w3 = lw_sent w2 @ [(c', rq)]" "q3 = call_result (le_answer env c' rq)" "lw_closed w2 \<subseteq> lw_closed w3"
          using client_call_result [OF _ _ c3] w2 Inr by simp_all
        have "res = q3" "w' = w3" using run r2 Inr c3 by (simp_all add: bindQ_def)
        moreover have "c \<in> lw_closed w2" "c \<noteq> c'" "\<not> is_ok (call_result (le_answer env c rq))" using False w2 Inr w1(3) by auto
        ultimately show ?thesis using w1 w2 w3 by (intro exI [of _ "[c, c']"]) auto
      qed
    qed
  qed
qed

lemma step_receiver: "dc_alive (daemon_step e a) \<Longrightarrow> dc_alive a \<and> dc_receiver (daemon_step e a) = dc_receiver a"
  by (cases "(e, a)" rule: daemon_event.cases)
    (auto simp: daemon_step_def daemon_close_def put_reply_def Let_def split: option.splits if_splits)

lemma alive_receiver: "dc_alive (daemon_run es) \<Longrightarrow> dc_receiver (daemon_run es)"
proof (induction es rule: rev_induct)
  case Nil
  show ?case by (simp add: daemon_start_def)
next
  case (snoc e es)
  then show ?case using step_receiver [of e "daemon_run es"] by simp
qed

text \<open>A caller can see its connection die and yet find the client open. When the stream ends, every call
  still waiting is told so while the receiving end of the command channel is not yet dropped; in
  that moment the client does not count as closed, and the reconnecting handle passes the error
  on instead of repeating the call. Only when the actor has returned does the client count as closed.\<close>

theorem death_seen_before_close:
  assumes "dc_alive (daemon_run es)" and "dc_pending (daemon_run es) i = Some t"
  shows "dc_replies (daemon_run (es @ [DeInbound DiEof])) t = Some (Inl ''daemon connection closed'') \<and>
    \<not> is_closed (daemon_run (es @ [DeInbound DiEof])) \<and>
    is_closed (daemon_run (es @ [DeInbound DiEof, DeReturn]))"
proof -
  have "t \<in> ran (dc_pending (daemon_run es))" using assms(2) by (rule ranI)
  then show ?thesis
    using assms(1) alive_receiver [OF assms(1)]
    by (simp add: daemon_step_def daemon_close_def is_closed_def mux_drain_def close_reason_def)
qed

section \<open>Samples\<close>

definition only :: "string \<Rightarrow> 'a \<Rightarrow> 'a LineCodec" where
  "only text x = \<lparr>lc_print = (\<lambda>_. Inr text), lc_parse = (\<lambda>s. if s = text then Inr x else Inl ''expected value'')\<rparr>"

definition restart_request :: DaemonRequest where
  "restart_request = RqRestartLsp \<lparr>rl_language = None\<rparr>"

definition none_restarted :: "string + Json" where
  "none_restarted = Inr (JArr [])"

definition sample_host :: DaemonHost where
  "sample_host = \<lparr>dh_tools = sample_tools, dh_wire = restart_wire,
     dh_requests = only ''q'' \<lparr>de_id = 0, de_request = restart_request\<rparr>,
     dh_responses = only ''a'' \<lparr>dr_id = 0, dr_result = none_restarted\<rparr>,
     dh_meanwhile = (\<lambda>_ r. r), dh_writable = (\<lambda>_. True)\<rparr>"

lemma only_ok: "line_ok (only [c] x) x \<longleftrightarrow> c \<noteq> lf"
  by (auto simp: line_ok_def only_def)

lemma letters [simp]: "CHR ''a'' \<noteq> lf" "CHR ''q'' \<noteq> lf"
  by (simp_all add: char_of_def)

lemma only_line: "line_of (only text x) y = text @ [lf]"
  by (simp add: line_of_def write_line_def only_def)

lemma sample_direct:
  "direct sample_host 0 [restart_request] (open_runtime nested_world) = [none_restarted]"
  by (simp add: sample_host_def restart_request_def encoded_def server_restart_lsp_def to_result_def restart_wire_def names_coder_def
      restart_language_def open_runtime_def taken_def none_restarted_def)

definition sample_call :: "DaemonEvent list" where
  "sample_call = [DeCall restart_request 7 None, DeInbound (DiResponse \<lparr>dr_id = 0, dr_result = none_restarted\<rparr>)]"

lemma sample_requests: "requests_of sample_call = [\<lparr>de_id = 0, de_request = restart_request\<rparr>]"
  by (simp add: requests_of_def sample_call_def daemon_step_def daemon_start_def put_reply_def Let_def)

lemma sample_plain: "map de_request (requests_of sample_call) = [restart_request]"
  by (simp add: sample_requests)

definition sample_response :: DaemonResponseEnvelope where
  "sample_response = \<lparr>dr_id = 0, dr_result = none_restarted\<rparr>"

theorem broken_link_truthful_witness:
  "\<exists>k ending. daemon_reader (only ''a'' sample_response) \<lparr>bs_bytes = [CHR ''a''], bs_broken = Some ''reset''\<rparr> =
      map DiResponse (take k [sample_response]) @ [ending] \<and> (\<forall>y. ending \<noteq> DiResponse y)"
proof -
  let ?b = "\<lparr>bs_bytes = [CHR ''a''], bs_broken = Some ''reset''\<rparr>"
  have ok: "\<forall>y \<in> set [sample_response]. line_ok (only ''a'' sample_response) y" by (simp add: only_ok)
  have cut: "bs_bytes ?b = take 1 (wire_of (only ''a'' sample_response) [sample_response])" by (simp add: only_line)
  from broken_link_truthful [OF ok cut] show ?thesis by blast
qed

lemma only_read:
  assumes "c \<noteq> lf"
  shows "read_line (only [c] x) \<lparr>bs_bytes = [c, lf], bs_broken = None\<rparr> = (Inr (Some x), \<lparr>bs_bytes = [], bs_broken = None\<rparr>)"
    and "read_line (only [c] x) \<lparr>bs_bytes = [], bs_broken = None\<rparr> = (Inr None, \<lparr>bs_bytes = [], bs_broken = None\<rparr>)"
  using assms by (simp_all add: read_line_def read_until_lf_def has_line_def only_def trim_end_char_def)

lemma sample_joined: "joined sample_host (open_runtime nested_world) sample_call"
proof -
  let ?up = "\<lparr>bs_bytes = [CHR ''q'', lf], bs_broken = None\<rparr>" and ?x = "\<lparr>dr_id = 0, dr_result = none_restarted\<rparr>"
  let ?down = "\<lparr>bs_bytes = [CHR ''a'', lf], bs_broken = None\<rparr>"
  obtain r where dsp: "dispatch (dh_tools sample_host) (dh_wire sample_host) restart_request (open_runtime nested_world) = (none_restarted, r)"
    using sample_direct by (cases "dispatch (dh_tools sample_host) (dh_wire sample_host) restart_request (open_runtime nested_world)")
      (simp add: sample_host_def)
  have host: "dh_requests sample_host = only [CHR ''q''] \<lparr>de_id = 0, de_request = restart_request\<rparr>"
    "dh_responses sample_host = only [CHR ''a''] ?x" "dh_meanwhile sample_host = (\<lambda>_ r. r)" "dh_writable sample_host = (\<lambda>_. True)"
    by (simp_all add: sample_host_def)
  have rs: "restart_request \<noteq> RqShutdown" by (simp add: restart_request_def)
  have wr: "is_ok (write_line (dh_responses sample_host) y)" for y by (simp add: host write_line_def only_def)
  have "cn_sent (handle_connection sample_host ?up (fresh_conn (open_runtime nested_world))) = [?x]"
    using dsp rs by (subst handle_connection.simps, subst handle_connection.simps)
      (simp add: wr only_read fresh_conn_def respond_def host(1,3,4))
  moreover have "daemon_reader (dh_responses sample_host) ?down = [DiResponse ?x, DiEof]"
    by (subst daemon_reader.simps, subst daemon_reader.simps) (simp add: host only_read)
  ultimately show ?thesis
    unfolding joined_def sample_requests
    by (intro exI [of _ ?up] exI [of _ ?down] exI [of _ 2]) (simp add: host only_line sample_call_def)
qed

theorem link_delivers_witness:
  "\<exists>v. dc_replies (daemon_run sample_call) 7 = Some v \<and>
     v = direct sample_host 0 [restart_request] (open_runtime nested_world) ! 0"
proof -
  have reply: "dc_replies (daemon_run sample_call) 7 = Some none_restarted"
    by (simp add: sample_call_def daemon_step_def daemon_start_def put_reply_def Let_def)
  have d: "distinct (concat (map daemon_asks sample_call))" by (simp add: sample_call_def)
  have rq: "\<forall>e \<in> set (requests_of sample_call). line_ok (dh_requests sample_host) e \<and> de_request e \<noteq> RqShutdown"
    by (simp add: sample_requests sample_host_def only_ok restart_request_def)
  have rs: "\<forall>x \<in> set (envelopes (requests_of sample_call) (direct sample_host 0 (map de_request (requests_of sample_call)) (open_runtime nested_world))).
      line_ok (dh_responses sample_host) x"
    unfolding sample_plain sample_direct unfolding sample_requests by (simp add: envelopes_def) (simp add: sample_host_def only_ok)
  have alive: "dc_alive (daemon_run sample_call)" "length (dc_written (daemon_run sample_call)) = 1"
    by (simp_all add: sample_call_def daemon_step_def daemon_start_def put_reply_def Let_def)
  have "\<exists>k. k < 1 \<and> none_restarted = direct sample_host 0 [restart_request] (open_runtime nested_world) ! k"
    using conjunct1 [OF link_delivers [OF d sample_joined rq rs], rule_format, OF reply] alive
    unfolding sample_plain by auto
  with reply show ?thesis by auto
qed

definition flaky_link :: LinkEnv where
  "flaky_link = \<lparr>le_answer = (\<lambda>c rq. if c = 0 then ReplyDropped else Replied (Inr JNull)), le_closes = (\<lambda>c rq. c = 0),
     le_connect = (\<lambda>_. None), le_others = (\<lambda>w. w)\<rparr>"

theorem reconnect_repeats_once_witness:
  "\<exists>cs. lw_sent (snd (reconnecting_call flaky_link restart_request
       \<lparr>lw_current = 0, lw_next = 1, lw_closed = {}, lw_sent = []\<rparr>)) = map (\<lambda>c. (c, restart_request)) cs \<and>
     length cs \<le> 2 \<and> cs = [0, 1]"
proof -
  let ?w = "\<lparr>lw_current = 0, lw_next = 1, lw_closed = {}, lw_sent = []\<rparr>"
  obtain res w' where run: "reconnecting_call flaky_link restart_request ?w = (res, w')" by force
  then have sent: "lw_sent w' = [(0, restart_request), (1, restart_request)]"
    by (auto simp: reconnecting_call_def client_call_def reconnect_def flaky_link_def bindQ_def call_result_def daemon_error_def)
  have "others_fair flaky_link" "link_ok ?w" by (simp_all add: others_fair_def flaky_link_def link_ok_def)
  from reconnect_repeats_once [OF this run] run sent show ?thesis by force
qed

theorem death_seen_before_close_witness:
  "\<not> is_closed (daemon_run ([DeCall restart_request 7 None] @ [DeInbound DiEof]))"
proof -
  have "dc_alive (daemon_run [DeCall restart_request 7 None])" "dc_pending (daemon_run [DeCall restart_request 7 None]) 0 = Some 7"
    by (simp_all add: daemon_step_def daemon_start_def Let_def)
  from death_seen_before_close [OF this] show ?thesis by blast
qed

end
