(* ===== verification/Daemon_Server.thy ===== *)
theory Daemon_Server
  imports Rpc_Mux
begin

text \<open>
  The accept loop of the daemon (\<open>src/daemon/server.rs\<close>): how it counts connections, when it decides
  that it has been idle for long enough, and why it returns. Times are in milliseconds.
\<close>

section \<open>The idle tracker\<close>

definition default_idle_timeout :: nat where
  "default_idle_timeout = 30 * 60 * 1000"

definition idle_check_interval :: nat where
  "idle_check_interval = 5000"

definition idle_timeout_from_env :: "(string \<Rightarrow> string option) \<Rightarrow> nat" where
  "idle_timeout_from_env env =
     (case Option.bind (env ''SEMNAV_DAEMON_IDLE_TIMEOUT_SECS'') (parse_unsigned (2 ^ 64)) of
        Some secs \<Rightarrow> secs * 1000
      | None \<Rightarrow> default_idle_timeout)"

record IdleTracker =
  it_active :: nat
  it_idle_since :: "nat option"

definition tracker_new :: "nat \<Rightarrow> IdleTracker" where
  "tracker_new now = \<lparr>it_active = 0, it_idle_since = Some now\<rparr>"

definition on_connect :: "IdleTracker \<Rightarrow> IdleTracker" where
  "on_connect t = t\<lparr>it_active := it_active t + 1, it_idle_since := None\<rparr>"

text \<open>Subtraction on naturals saturates, as \<open>saturating_sub\<close> and \<open>saturating_duration_since\<close> do.\<close>

definition on_disconnect :: "nat \<Rightarrow> IdleTracker \<Rightarrow> IdleTracker" where
  "on_disconnect now t = (let active = it_active t - 1 in
     if active = 0 then t\<lparr>it_active := active, it_idle_since := Some now\<rparr> else t\<lparr>it_active := active\<rparr>)"

definition should_shut_down :: "nat \<Rightarrow> nat \<Rightarrow> IdleTracker \<Rightarrow> bool" where
  "should_shut_down now timeout t = (case it_idle_since t of
      Some since \<Rightarrow> it_active t = 0 \<and> timeout \<le> now - since
    | None \<Rightarrow> False)"

section \<open>The loop\<close>

datatype ShutdownReason = Signal | ExplicitStop | Idle

text \<open>
  The loop between two turns: the clock, the tracker, the connections whose handlers run, the next
  connection number, when the sleep begun with this turn ends, and the reason once it has returned.
\<close>

record AcceptLoop =
  al_clock :: nat
  al_tracker :: IdleTracker
  al_open :: "nat set"
  al_next_conn :: nat
  al_sleep_until :: nat
  al_reason :: "ShutdownReason option"

definition accept_start :: "nat \<Rightarrow> AcceptLoop" where
  "accept_start now = \<lparr>al_clock = now, al_tracker = tracker_new now, al_open = {}, al_next_conn = 0,
     al_sleep_until = now + idle_check_interval, al_reason = None\<rparr>"

text \<open>
  What happens to it: time passes; a branch of its \<open>select!\<close> is taken, the sleep only when it is
  over; a handler ends. Every turn begins a new sleep.
\<close>

datatype AcceptEvent =
    TimePasses nat
  | SignalSeen
  | StopSeen
  | SleepOver
  | Connected
  | AcceptFailed
  | HandlerDone nat

definition next_turn :: "AcceptLoop \<Rightarrow> AcceptLoop" where
  "next_turn s = s\<lparr>al_sleep_until := al_clock s + idle_check_interval\<rparr>"

fun accept_turn :: "nat \<Rightarrow> AcceptEvent \<Rightarrow> AcceptLoop \<Rightarrow> AcceptLoop" where
  "accept_turn timeout SignalSeen s = s\<lparr>al_reason := Some Signal\<rparr>"
| "accept_turn timeout StopSeen s = s\<lparr>al_reason := Some ExplicitStop\<rparr>"
| "accept_turn timeout SleepOver s =
     (if should_shut_down (al_clock s) timeout (al_tracker s) then s\<lparr>al_reason := Some Idle\<rparr> else next_turn s)"
| "accept_turn timeout Connected s = next_turn (s\<lparr>al_tracker := on_connect (al_tracker s),
     al_open := insert (al_next_conn s) (al_open s), al_next_conn := al_next_conn s + 1\<rparr>)"
| "accept_turn timeout AcceptFailed s = next_turn s"
| "accept_turn timeout _ s = s"

fun accept_step :: "nat \<Rightarrow> AcceptEvent \<Rightarrow> AcceptLoop \<Rightarrow> AcceptLoop" where
  "accept_step timeout (TimePasses d) s = s\<lparr>al_clock := al_clock s + d\<rparr>"
| "accept_step timeout (HandlerDone c) s =
     (if c \<in> al_open s
      then s\<lparr>al_open := al_open s - {c}, al_tracker := on_disconnect (al_clock s) (al_tracker s)\<rparr> else s)"
| "accept_step timeout SleepOver s =
     (if al_reason s = None \<and> al_sleep_until s \<le> al_clock s then accept_turn timeout SleepOver s else s)"
| "accept_step timeout e s = (if al_reason s = None then accept_turn timeout e s else s)"

abbreviation accept_run :: "nat \<Rightarrow> AcceptEvent list \<Rightarrow> AcceptLoop \<Rightarrow> AcceptLoop" where
  "accept_run timeout es s \<equiv> run_events (accept_step timeout) es s"

section \<open>Idle means idle\<close>

text \<open>The tracker counts the running handlers, and its clock runs exactly when there are none.\<close>

definition accept_inv :: "AcceptLoop \<Rightarrow> bool" where
  "accept_inv s \<longleftrightarrow> finite (al_open s) \<and> it_active (al_tracker s) = card (al_open s) \<and>
     (\<forall>c \<in> al_open s. c < al_next_conn s) \<and> (it_idle_since (al_tracker s) = None \<longleftrightarrow> al_open s \<noteq> {}) \<and>
     (\<forall>t. it_idle_since (al_tracker s) = Some t \<longrightarrow> t \<le> al_clock s) \<and>
     al_sleep_until s \<le> al_clock s + idle_check_interval"

lemmas accept_defs = tracker_new_def on_connect_def on_disconnect_def next_turn_def Let_def

lemma accept_start_inv: "accept_inv (accept_start now)"
  by (simp add: accept_inv_def accept_start_def accept_defs)

lemma accept_step_inv:
  assumes "accept_inv s"
  shows "accept_inv (accept_step timeout e s)"
proof (cases "(timeout, e, s)" rule: accept_step.cases)
  case (1 u d t)
  with assms show ?thesis by (auto simp: accept_inv_def intro: le_add1 order_trans)
next
  case (2 u c t)
  then have e: "e = HandlerDone c" by simp
  show ?thesis
  proof (cases "c \<in> al_open s")
    case True
    have "card (al_open s - {c}) = card (al_open s) - 1" using True assms by (simp add: accept_inv_def)
    moreover have "card (al_open s - {c}) = 0 \<longleftrightarrow> al_open s - {c} = {}" using assms by (simp add: accept_inv_def)
    ultimately show ?thesis using True assms e by (auto simp: accept_inv_def accept_defs)
  qed (use assms e in simp)
next
  case (3 u t)
  with assms show ?thesis by (auto simp: accept_inv_def accept_defs)
qed (use assms in \<open>auto simp: accept_inv_def accept_defs less_SucI\<close>)

lemma accept_run_inv: "accept_inv s \<Longrightarrow> accept_inv (accept_run timeout es s)"
  by (induction es arbitrary: s) (simp_all add: accept_step_inv)

text \<open>When the clock runs, nobody has connected since it was started.\<close>

lemma idle_step:
  assumes "it_idle_since (al_tracker (accept_step timeout e s)) = Some t" and "al_reason (accept_step timeout e s) = None"
  shows "e \<noteq> Connected \<and> al_reason s = None \<and> (it_idle_since (al_tracker s) = Some t \<or> t = al_clock (accept_step timeout e s))"
  using assms by (cases "(timeout, e, s)" rule: accept_step.cases) (auto simp: accept_defs split: if_splits)

lemma idle_since_when:
  assumes "it_idle_since (al_tracker (accept_run timeout es (accept_start now))) = Some t"
    and "al_reason (accept_run timeout es (accept_start now)) = None"
  shows "\<exists>pre post. es = pre @ post \<and> al_open (accept_run timeout pre (accept_start now)) = {} \<and>
    Connected \<notin> set post \<and> al_clock (accept_run timeout pre (accept_start now)) = t"
  using assms
proof (induction es rule: rev_induct)
  case Nil
  then show ?case by (simp add: accept_start_def accept_defs)
next
  case (snoc e es)
  let ?s = "accept_run timeout es (accept_start now)"
  have inv: "accept_inv (accept_step timeout e ?s)" by (intro accept_step_inv accept_run_inv accept_start_inv)
  from snoc.prems have st: "e \<noteq> Connected" "al_reason ?s = None"
    "it_idle_since (al_tracker ?s) = Some t \<or> t = al_clock (accept_step timeout e ?s)"
    using idle_step [of timeout e ?s t] by simp_all
  from st(3) show ?case
  proof
    assume "it_idle_since (al_tracker ?s) = Some t"
    from snoc.IH [OF this st(2)] obtain pre post where "es = pre @ post"
      "al_open (accept_run timeout pre (accept_start now)) = {}" "Connected \<notin> set post"
      "al_clock (accept_run timeout pre (accept_start now)) = t" by blast
    with st(1) show ?thesis by (intro exI [of _ pre] exI [of _ "post @ [e]"]) simp
  next
    assume "t = al_clock (accept_step timeout e ?s)"
    moreover have "al_open (accept_step timeout e ?s) = {}"
      using inv snoc.prems(1) by (auto simp: accept_inv_def)
    ultimately show ?thesis by (intro exI [of _ "es @ [e]"] exI [of _ "[]"]) simp
  qed
qed

section \<open>And idle ends\<close>

lemma quiet_round:
  fixes timeout :: nat
  assumes "accept_inv s" and "al_reason s = None" and "al_open s = {}"
  defines "s' \<equiv> accept_run timeout [TimePasses idle_check_interval, SleepOver] s"
  shows "(al_reason s' = Some Idle) \<or>
    (al_reason s' = None \<and> al_open s' = {} \<and> accept_inv s' \<and> al_clock s' = al_clock s + idle_check_interval \<and>
     it_idle_since (al_tracker s') = it_idle_since (al_tracker s) \<and>
     (\<forall>t. it_idle_since (al_tracker s) = Some t \<longrightarrow> al_clock s' - t < timeout))"
proof -
  have inv: "accept_inv s'" unfolding s'_def by (rule accept_run_inv [OF assms(1)])
  have act: "it_active (al_tracker s) = 0" "al_sleep_until s \<le> al_clock s + idle_check_interval"
    using assms(1,3) by (simp_all add: accept_inv_def)
  show ?thesis
    using inv act assms(2,3) unfolding s'_def
    by (auto simp: should_shut_down_def next_turn_def split: option.splits)
qed

lemma dead_run: "al_reason s \<noteq> None \<Longrightarrow> al_reason (accept_run timeout es s) = al_reason s"
proof (induction es arbitrary: s)
  case Nil
  then show ?case by simp
next
  case (Cons e es)
  have "al_reason (accept_step timeout e s) = al_reason s"
    using Cons.prems by (cases "(timeout, e, s)" rule: accept_step.cases) auto
  then show ?case using Cons by simp
qed

definition quiet :: "nat \<Rightarrow> AcceptEvent list" where
  "quiet n = concat (replicate n [TimePasses idle_check_interval, SleepOver])"

lemma quiet_Suc: "quiet (Suc n) = [TimePasses idle_check_interval, SleepOver] @ quiet n"
  by (simp add: quiet_def)

lemma quiet_run:
  assumes "accept_inv s" and "al_reason s = None" and "al_open s = {}" and "it_idle_since (al_tracker s) = Some t"
    and "timeout \<le> al_clock s - t + n * idle_check_interval" and "0 < n"
  shows "al_reason (accept_run timeout (quiet n) s) = Some Idle"
  using assms
proof (induction n arbitrary: s)
  case 0
  then show ?case by simp
next
  case (Suc n)
  let ?s = "accept_run timeout [TimePasses idle_check_interval, SleepOver] s"
  have run: "accept_run timeout (quiet (Suc n)) s = accept_run timeout (quiet n) ?s"
    by (simp only: quiet_Suc run_events_append)
  consider "al_reason ?s = Some Idle"
    | "al_reason ?s = None" "al_open ?s = {}" "accept_inv ?s" "al_clock ?s = al_clock s + idle_check_interval"
      "it_idle_since (al_tracker ?s) = Some t" "al_clock ?s - t < timeout"
    using quiet_round [OF Suc.prems(1-3), of timeout] Suc.prems(4) by metis
  then show ?case
  proof cases
    case 1
    then show ?thesis using dead_run [of ?s timeout "quiet n"] run by simp
  next
    case 2
    have tle: "t \<le> al_clock s" using Suc.prems(1,4) by (simp add: accept_inv_def)
    then have "timeout \<le> al_clock ?s - t + n * idle_check_interval" using Suc.prems(5) 2(4) by simp
    moreover from this 2(6) have "0 < n" by (cases n) simp_all
    ultimately show ?thesis unfolding run by (intro Suc.IH) (use 2 in simp_all)
  qed
qed

text \<open>C34: The daemon shuts down for idleness exactly when it should. If its sleep ends and the loop returns
  \<open>Idle\<close>, there was a moment at least the timeout ago when no handler ran, and nobody has
  connected since; and from any running state without handlers, if nobody connects, the loop
  returns \<open>Idle\<close> after at most the timeout and one check interval more.\<close>

theorem idle_shutdown_exact:
  assumes "al_reason (accept_run timeout es (accept_start now)) = None"
  shows "(al_reason (accept_run timeout (es @ [SleepOver]) (accept_start now)) = Some Idle \<longrightarrow>
      (\<exists>pre post. es = pre @ post \<and> al_open (accept_run timeout pre (accept_start now)) = {} \<and> Connected \<notin> set post \<and>
        timeout \<le> al_clock (accept_run timeout es (accept_start now)) - al_clock (accept_run timeout pre (accept_start now)))) \<and>
    (al_open (accept_run timeout es (accept_start now)) = {} \<longrightarrow>
      al_reason (accept_run timeout (es @ quiet (timeout div idle_check_interval + 1)) (accept_start now)) = Some Idle)"
proof (intro conjI impI)
  let ?s = "accept_run timeout es (accept_start now)"
  assume "al_reason (accept_run timeout (es @ [SleepOver]) (accept_start now)) = Some Idle"
  then have "should_shut_down (al_clock ?s) timeout (al_tracker ?s)"
    using assms by (simp add: next_turn_def split: if_splits)
  then obtain t where t: "it_idle_since (al_tracker ?s) = Some t" "timeout \<le> al_clock ?s - t"
    by (auto simp: should_shut_down_def split: option.splits)
  from idle_since_when [OF t(1) assms] t(2)
  show "\<exists>pre post. es = pre @ post \<and> al_open (accept_run timeout pre (accept_start now)) = {} \<and> Connected \<notin> set post \<and>
      timeout \<le> al_clock ?s - al_clock (accept_run timeout pre (accept_start now))"
    by blast
next
  let ?s = "accept_run timeout es (accept_start now)"
  assume none: "al_open ?s = {}"
  have inv: "accept_inv ?s" by (intro accept_run_inv accept_start_inv)
  with none obtain t where t: "it_idle_since (al_tracker ?s) = Some t" by (auto simp: accept_inv_def)
  have "timeout < (timeout div idle_check_interval + 1) * idle_check_interval"
    using mod_less_divisor [of idle_check_interval timeout] div_mult_mod_eq [of timeout idle_check_interval]
    by (simp add: idle_check_interval_def)
  then show "al_reason (accept_run timeout (es @ quiet (timeout div idle_check_interval + 1)) (accept_start now)) = Some Idle"
    using quiet_run [OF inv assms none t] by simp
qed

theorem idle_shutdown_exact_witness:
  "al_reason (accept_run 60000 ([Connected, TimePasses 7000, HandlerDone 0] @ quiet (60000 div idle_check_interval + 1))
     (accept_start 0)) = Some Idle"
proof -
  have "al_reason (accept_run 60000 [Connected, TimePasses 7000, HandlerDone 0] (accept_start 0)) = None"
    "al_open (accept_run 60000 [Connected, TimePasses 7000, HandlerDone 0] (accept_start 0)) = {}"
    by (simp_all add: accept_start_def accept_defs)
  then show ?thesis using idle_shutdown_exact [of 60000 "[Connected, TimePasses 7000, HandlerDone 0]" 0] by blast
qed

end
