(* ===== verification/Daemon_Slot.thy ===== *)
theory Daemon_Slot
  imports Rpc_Mux
begin

text \<open>
  Who is the daemon of a root: the processes that probe, lock, bind, serve, wait and stop
  (\<open>src/daemon/discovery.rs\<close>, \<open>src/daemon/lock.rs\<close>, \<open>src/daemon/connect.rs\<close>, \<open>run_daemon\<close> and
  \<open>run_daemon_stop\<close> of \<open>src/main.rs\<close>), interleaved at the steps the operating system makes atomic.
\<close>

section \<open>Processes\<close>

datatype Liveness = Live | NotRunning

text \<open>
  Where a process probes from: a starting daemon, \<open>ensure_daemon_running\<close>, \<open>wait_for_daemon_ready\<close>,
  the first probe of \<open>daemon stop\<close>, or its loop with that many rounds left.
\<close>

datatype Caller = ForDaemon | ForServe | ForWait | ForStop | ForStopPoll nat

text \<open>
  What a process does next. The first four are \<open>probe_liveness\<close>; then the daemon from its lock to its
  exit, the client side from its lock to its connection, and \<open>daemon stop\<close>.
\<close>

datatype Phase =
    Absent
  | Looking Caller
  | Connecting Caller
  | Removing Caller
  | Answered Caller Liveness
  | Unlinking
  | Binding
  | Starting
  | Failed
  | Serving
  | TearingDown
  | Releasing
  | HoldingLock
  | Spawning
  | Joining
  | Attached
  | Asking
  | Gone bool

text \<open>
  The slot: the process that bound the socket \<open>daemon.sock\<close> names, if the file exists, the holder of
  the lock on \<open>daemon.lock\<close>, and what each process does.
\<close>

record Slot =
  sl_sock :: "nat option"
  sl_lock :: "nat option"
  sl_phase :: "nat \<Rightarrow> Phase"

definition empty_slot :: Slot where
  "empty_slot = \<lparr>sl_sock = None, sl_lock = None, sl_phase = (\<lambda>_. Absent)\<rparr>"

text \<open>What the world decides: a new process, a slow answer, a failing call, the end of serving, death.\<close>

datatype Luck = Usual | Begin Caller | Slow | Failing | Leave | Spawns nat | Crash

definition put :: "nat \<Rightarrow> Phase \<Rightarrow> Slot \<Rightarrow> Slot" where
  "put p ph s = s\<lparr>sl_phase := (sl_phase s)(p := ph)\<rparr>"

text \<open>A listener is open from \<open>bind\<close> until the accept loop has returned.\<close>

definition listens :: "Phase \<Rightarrow> bool" where
  "listens ph \<longleftrightarrow> ph = Starting \<or> ph = Failed \<or> ph = Serving"

definition connectable :: "Slot \<Rightarrow> bool" where
  "connectable s = (case sl_sock s of None \<Rightarrow> False | Some q \<Rightarrow> listens (sl_phase s q))"

definition remove_sock :: "Slot \<Rightarrow> Slot" where
  "remove_sock s = s\<lparr>sl_sock := None\<rparr>"

text \<open>\<open>flock\<close> with \<open>LOCK_NB\<close>, and its release when the file is closed or the process dies.\<close>

definition try_acquire :: "nat \<Rightarrow> Slot \<Rightarrow> Slot option" where
  "try_acquire p s = (if sl_lock s = None then Some (s\<lparr>sl_lock := Some p\<rparr>) else None)"

definition release_lock :: "nat \<Rightarrow> Slot \<Rightarrow> Slot" where
  "release_lock p s = (if sl_lock s = Some p then s\<lparr>sl_lock := None\<rparr> else s)"

definition exit_with :: "nat \<Rightarrow> bool \<Rightarrow> Slot \<Rightarrow> Slot" where
  "exit_with p code s = put p (Gone code) (release_lock p s)"

section \<open>Turns\<close>

text \<open>
  A connect without a listener is refused; one to a listener may be refused too (its backlog is full),
  and then the socket is removed as a stale one is, or it may take longer than the probe waits.
\<close>

fun probe_turn :: "nat \<Rightarrow> Luck \<Rightarrow> Phase \<Rightarrow> Slot \<Rightarrow> Slot" where
  "probe_turn p luck (Looking c) s = put p (if sl_sock s = None then Answered c NotRunning else Connecting c) s"
| "probe_turn p luck (Connecting c) s =
     put p (if \<not> connectable s \<or> luck = Failing then Removing c
            else if luck = Slow then Answered c NotRunning else Answered c Live) s"
| "probe_turn p luck (Removing c) s = put p (Answered c NotRunning) (remove_sock s)"
| "probe_turn p luck _ s = s"

fun daemon_turn :: "nat \<Rightarrow> Luck \<Rightarrow> Phase \<Rightarrow> Slot \<Rightarrow> Slot" where
  "daemon_turn p luck (Answered ForDaemon Live) s = exit_with p False s"
| "daemon_turn p luck (Answered ForDaemon NotRunning) s =
     (case try_acquire p s of Some s' \<Rightarrow> put p Unlinking s' | None \<Rightarrow> exit_with p False s)"
| "daemon_turn p luck Unlinking s = put p Binding (remove_sock s)"
| "daemon_turn p luck Binding s =
     (if sl_sock s = None \<and> luck \<noteq> Failing then put p Starting (s\<lparr>sl_sock := Some p\<rparr>) else exit_with p False s)"
| "daemon_turn p luck Starting s = (if luck = Failing then put p Failed (remove_sock s) else put p Serving s)"
| "daemon_turn p luck Failed s = exit_with p False s"
| "daemon_turn p luck Serving s = (if luck = Leave then put p TearingDown s else s)"
| "daemon_turn p luck TearingDown s = put p Releasing (remove_sock s)"
| "daemon_turn p luck Releasing s = exit_with p True s"
| "daemon_turn p luck _ s = s"

fun serve_turn :: "nat \<Rightarrow> Luck \<Rightarrow> Phase \<Rightarrow> Slot \<Rightarrow> Slot" where
  "serve_turn p luck (Answered ForServe Live) s = put p Joining s"
| "serve_turn p luck (Answered ForServe NotRunning) s =
     (case try_acquire p s of Some s' \<Rightarrow> put p HoldingLock s' | None \<Rightarrow> put p (Looking ForWait) s)"
| "serve_turn p luck HoldingLock s = put p Spawning (release_lock p s)"
| "serve_turn p luck Spawning s = (case luck of
      Spawns q \<Rightarrow> if sl_phase s q = Absent then put p (Looking ForWait) (put q (Looking ForDaemon) s) else s
    | _ \<Rightarrow> exit_with p False s)"
| "serve_turn p luck (Answered ForWait Live) s = put p Joining s"
| "serve_turn p luck (Answered ForWait NotRunning) s = (if luck = Failing then exit_with p False s else put p (Looking ForWait) s)"
| "serve_turn p luck Joining s = (if connectable s then put p Attached s else exit_with p False s)"
| "serve_turn p luck _ s = s"

fun stop_turn :: "nat \<Rightarrow> Luck \<Rightarrow> Phase \<Rightarrow> Slot \<Rightarrow> Slot" where
  "stop_turn p luck (Answered ForStop NotRunning) s = exit_with p True s"
| "stop_turn p luck (Answered ForStop Live) s = put p Asking s"
| "stop_turn p luck Asking s =
     (if connectable s \<and> luck \<noteq> Failing then put p (Looking (ForStopPoll 49)) s else exit_with p False s)"
| "stop_turn p luck (Answered (ForStopPoll n) NotRunning) s = exit_with p True s"
| "stop_turn p luck (Answered (ForStopPoll n) Live) s =
     (case n of 0 \<Rightarrow> exit_with p False s | Suc m \<Rightarrow> put p (Looking (ForStopPoll m)) s)"
| "stop_turn p luck _ s = s"

text \<open>A process starts as a daemon, a client or a stop command; once gone it does nothing.\<close>

definition begins :: "Caller \<Rightarrow> bool" where
  "begins c \<longleftrightarrow> c = ForDaemon \<or> c = ForServe \<or> c = ForStop"

fun slot_turn :: "nat \<times> Luck \<Rightarrow> Slot \<Rightarrow> Slot" where
  "slot_turn (p, luck) s = (case sl_phase s p of
      Absent \<Rightarrow> (case luck of Begin c \<Rightarrow> if begins c then put p (Looking c) s else s | _ \<Rightarrow> s)
    | Gone code \<Rightarrow> s
    | ph \<Rightarrow> if luck = Crash then exit_with p False s
        else (case ph of
            Looking c \<Rightarrow> probe_turn p luck ph s
          | Connecting c \<Rightarrow> probe_turn p luck ph s
          | Removing c \<Rightarrow> probe_turn p luck ph s
          | Answered ForDaemon l \<Rightarrow> daemon_turn p luck ph s
          | Answered ForServe l \<Rightarrow> serve_turn p luck ph s
          | Answered ForWait l \<Rightarrow> serve_turn p luck ph s
          | Answered c l \<Rightarrow> stop_turn p luck ph s
          | HoldingLock \<Rightarrow> serve_turn p luck ph s
          | Spawning \<Rightarrow> serve_turn p luck ph s
          | Joining \<Rightarrow> serve_turn p luck ph s
          | Attached \<Rightarrow> s
          | Asking \<Rightarrow> stop_turn p luck ph s
          | _ \<Rightarrow> daemon_turn p luck ph s))"

abbreviation slot_run :: "(nat \<times> Luck) list \<Rightarrow> Slot \<Rightarrow> Slot" where
  "slot_run es s \<equiv> run_events slot_turn es s"

declare slot_turn.simps [simp del]

text \<open>A turn is one of these.\<close>

lemma slot_turn_is:
  obtains (nothing) "slot_turn (p, luck) s = s"
    | (begins) c where "sl_phase s p = Absent" "luck = Begin c" "slot_turn (p, luck) s = put p (Looking c) s"
    | (crash) "slot_turn (p, luck) s = exit_with p False s" "luck = Crash"
    | (probe) "slot_turn (p, luck) s = probe_turn p luck (sl_phase s p) s" "luck \<noteq> Crash"
    | (daemon) "slot_turn (p, luck) s = daemon_turn p luck (sl_phase s p) s" "luck \<noteq> Crash"
    | (serve) "slot_turn (p, luck) s = serve_turn p luck (sl_phase s p) s" "luck \<noteq> Crash"
    | (stop) "slot_turn (p, luck) s = stop_turn p luck (sl_phase s p) s" "luck \<noteq> Crash"
proof (cases "sl_phase s p")
  case Absent
  have "(\<exists>c. luck = Begin c \<and> slot_turn (p, luck) s = put p (Looking c) s) \<or> slot_turn (p, luck) s = s"
    by (simp add: slot_turn.simps Absent split: Luck.split)
  with Absent show ?thesis using that(1,2) by blast
next
  case (Answered c l)
  then show ?thesis using that(3,5,6,7) by (cases c) (auto simp: slot_turn.simps simp del: daemon_turn.simps serve_turn.simps stop_turn.simps split: if_splits)
next
  case (Gone code)
  then show ?thesis using that(1) by (simp add: slot_turn.simps)
next
  case Attached
  then show ?thesis using that(1,3) by (cases "luck = Crash") (simp_all add: slot_turn.simps)
qed (use that(3-7) in \<open>auto simp: slot_turn.simps simp del: probe_turn.simps daemon_turn.simps serve_turn.simps stop_turn.simps split: if_splits\<close>)

section \<open>One daemon at a time\<close>

definition holds_lock :: "Phase \<Rightarrow> bool" where
  "holds_lock ph \<longleftrightarrow> ph \<in> {Unlinking, Binding, Starting, Failed, Serving, TearingDown, Releasing, HoldingLock}"

definition slot_inv :: "Slot \<Rightarrow> bool" where
  "slot_inv s \<longleftrightarrow> (\<forall>p. holds_lock (sl_phase s p) \<longleftrightarrow> sl_lock s = Some p) \<and>
     (\<forall>p. sl_phase s p = Binding \<longrightarrow> sl_sock s = None)"

lemmas slot_defs = put_def exit_with_def release_lock_def remove_sock_def try_acquire_def

lemma holds_lock_simps [simp]:
  "holds_lock Unlinking" "holds_lock Binding" "holds_lock Starting" "holds_lock Failed" "holds_lock Serving"
  "holds_lock TearingDown" "holds_lock Releasing" "holds_lock HoldingLock" "\<not> holds_lock Absent"
  "\<not> holds_lock (Looking c)" "\<not> holds_lock (Connecting c)" "\<not> holds_lock (Removing c)" "\<not> holds_lock (Answered c l)"
  "\<not> holds_lock Spawning" "\<not> holds_lock Joining" "\<not> holds_lock Attached" "\<not> holds_lock Asking" "\<not> holds_lock (Gone code)"
  by (simp_all add: holds_lock_def)

lemma inv_put: "slot_inv s \<Longrightarrow> holds_lock ph = holds_lock (sl_phase s p) \<Longrightarrow> ph \<noteq> Binding \<Longrightarrow> slot_inv (put p ph s)"
  by (auto simp: slot_inv_def put_def)

lemma inv_remove: "slot_inv s \<Longrightarrow> slot_inv (remove_sock s)"
  by (simp add: slot_inv_def remove_sock_def)

lemma inv_unlink: "slot_inv s \<Longrightarrow> holds_lock (sl_phase s p) \<Longrightarrow> slot_inv (put p Binding (remove_sock s))"
  by (simp add: slot_inv_def put_def remove_sock_def)

lemma inv_acquire:
  "slot_inv s \<Longrightarrow> try_acquire p s = Some s' \<Longrightarrow> holds_lock ph \<Longrightarrow> ph \<noteq> Binding \<Longrightarrow> slot_inv (put p ph s')"
  by (auto simp: slot_inv_def put_def try_acquire_def split: if_splits)

lemma inv_release: "slot_inv s \<Longrightarrow> \<not> holds_lock ph \<Longrightarrow> ph \<noteq> Binding \<Longrightarrow> slot_inv (put p ph (release_lock p s))"
  by (auto simp: slot_inv_def put_def release_lock_def)

lemma inv_exit: "slot_inv s \<Longrightarrow> slot_inv (exit_with p code s)"
  unfolding exit_with_def by (rule inv_release) simp_all

lemma inv_bind:
  assumes "slot_inv s" and "sl_phase s p = Binding"
  shows "slot_inv (put p Starting (s\<lparr>sl_sock := Some p\<rparr>))"
proof -
  have l: "holds_lock (sl_phase s q) \<longleftrightarrow> sl_lock s = Some q" for q using assms(1) by (simp add: slot_inv_def)
  from l [of p] assms(2) have "sl_lock s = Some p" by simp
  moreover have "sl_phase s q \<noteq> Binding" if "q \<noteq> p" for q using l [of q] that calculation by auto
  ultimately show ?thesis using l by (simp add: slot_inv_def put_def)
qed

lemma remove_phase [simp]: "sl_phase (remove_sock s) = sl_phase s"
  by (simp add: remove_sock_def)

lemmas inv_intros = inv_put inv_remove inv_unlink inv_acquire inv_release inv_exit inv_bind

lemma probe_turn_inv: "slot_inv s \<Longrightarrow> sl_phase s p = ph \<Longrightarrow> slot_inv (probe_turn p luck ph s)"
  by (cases "(p, luck, ph, s)" rule: probe_turn.cases) (auto intro!: inv_intros)

lemma daemon_turn_inv: "slot_inv s \<Longrightarrow> sl_phase s p = ph \<Longrightarrow> slot_inv (daemon_turn p luck ph s)"
  by (cases "(p, luck, ph, s)" rule: daemon_turn.cases)
    (auto intro: inv_intros split: option.split)

lemma serve_turn_inv: "slot_inv s \<Longrightarrow> sl_phase s p = ph \<Longrightarrow> slot_inv (serve_turn p luck ph s)"
proof (cases "(p, luck, ph, s)" rule: serve_turn.cases)
  case (4 p' luck' s')
  assume "slot_inv s" "sl_phase s p = ph"
  moreover have "sl_phase s p = ph \<Longrightarrow> sl_phase s q = Absent \<Longrightarrow> sl_phase (put q (Looking ForDaemon) s) p = ph" for q
    using 4 by (auto simp: put_def)
  ultimately show ?thesis using 4 by (auto intro!: inv_intros split: Luck.split)
qed (auto intro: inv_intros split: option.split)

lemma stop_turn_inv: "slot_inv s \<Longrightarrow> sl_phase s p = ph \<Longrightarrow> slot_inv (stop_turn p luck ph s)"
  by (cases "(p, luck, ph, s)" rule: stop_turn.cases) (auto intro!: inv_intros split: nat.split)

lemma slot_turn_inv:
  assumes "slot_inv s"
  shows "slot_inv (slot_turn (p, luck) s)"
proof (cases rule: slot_turn_is [of p luck s])
  case (begins c)
  with assms show ?thesis by (simp add: inv_put)
qed (simp_all add: assms inv_exit probe_turn_inv daemon_turn_inv serve_turn_inv stop_turn_inv)

lemma slot_run_inv: "slot_inv s \<Longrightarrow> slot_inv (slot_run es s)"
proof (induction es arbitrary: s)
  case (Cons e es)
  then show ?case by (cases e) (simp add: slot_turn_inv)
qed simp

lemma empty_slot_inv: "slot_inv empty_slot"
  by (simp add: slot_inv_def empty_slot_def)

section \<open>Waiting for a daemon\<close>

text \<open>
  The clock of \<open>wait_for_daemon_ready\<close>, in milliseconds: \<open>probe now\<close> is what a probe begun at \<open>now\<close>
  finds and how long it takes.
\<close>

definition daemon_startup_timeout :: nat where
  "daemon_startup_timeout = 60000"

definition daemon_poll_interval :: nat where
  "daemon_poll_interval = 100"

function poll_daemon :: "(nat \<Rightarrow> Liveness \<times> nat) \<Rightarrow> nat \<Rightarrow> nat \<Rightarrow> bool \<times> nat" where
  "poll_daemon probe deadline now = (case probe now of (l, took) \<Rightarrow>
     if l = Live then (True, now + took)
     else if deadline \<le> now + took then (False, now + took)
     else poll_daemon probe deadline (now + took + daemon_poll_interval))"
  by pat_completeness auto

termination
  by (relation "measure (\<lambda>(probe, deadline, now). deadline - now)") (auto simp: daemon_poll_interval_def)

declare poll_daemon.simps [simp del]

definition wait_for_daemon_ready :: "(nat \<Rightarrow> Liveness \<times> nat) \<Rightarrow> nat \<Rightarrow> bool \<times> nat" where
  "wait_for_daemon_ready probe now = poll_daemon probe (now + daemon_startup_timeout) now"

end
