(* ===== verification/Daemon_Slot_Props.thy ===== *)
theory Daemon_Slot_Props
  imports Daemon_Slot
begin

text \<open>
  At most one daemon per root, whatever the processes and their interleaving, and the ways in which
  a client can still find none: a socket removed by a late prober, a stop that reports too early,
  a client that meets a daemon on its way out.
\<close>

section \<open>One daemon\<close>

text \<open>A slot nobody uses, where a dead daemon may have left its socket.\<close>

definition stale_slot :: "nat option \<Rightarrow> Slot" where
  "stale_slot sock = \<lparr>sl_sock = sock, sl_lock = None, sl_phase = (\<lambda>_. Absent)\<rparr>"

lemma stale_slot_inv: "slot_inv (slot_run es (stale_slot sock))"
  by (rule slot_run_inv) (simp add: slot_inv_def stale_slot_def)

definition is_daemon :: "Phase \<Rightarrow> bool" where
  "is_daemon ph \<longleftrightarrow> holds_lock ph \<and> ph \<noteq> HoldingLock"

lemma listens_daemon: "listens ph \<Longrightarrow> is_daemon ph"
  by (auto simp: listens_def is_daemon_def)

lemma holder_unique:
  assumes "slot_inv s" and "holds_lock (sl_phase s p)"
  shows "sl_lock s = Some p \<and> (holds_lock (sl_phase s q) \<longrightarrow> q = p)"
  using assms unfolding slot_inv_def by (metis option.inject)

text \<open>C14: At most one daemon runs for a root. Whatever processes start, stop, stall, fail and die in
  whatever interleaving, and whatever socket a dead daemon left: at most one process is between
  taking the lock as a daemon and releasing it; a daemon about to bind finds no socket in its way,
  so it never fails for the address being in use; and a socket that accepts connections is the
  one of the daemon that holds the lock.\<close>

theorem one_daemon:
  "let s = slot_run es (stale_slot sock) in \<not> (\<exists>p q. p \<noteq> q \<and> is_daemon (sl_phase s p) \<and> is_daemon (sl_phase s q)) \<and>
    (\<nexists>p. sl_phase s p = Binding \<and> sl_sock s \<noteq> None) \<and>
    (connectable s \<longrightarrow> (\<exists>p. sl_sock s = Some p \<and> sl_lock s = Some p \<and> is_daemon (sl_phase s p)))"
proof -
  let ?s = "slot_run es (stale_slot sock)"
  have inv: "slot_inv ?s" by (rule stale_slot_inv)
  have one: "p = q" if "is_daemon (sl_phase ?s p)" "is_daemon (sl_phase ?s q)" for p q
    using holder_unique [OF inv, of q p] that by (simp add: is_daemon_def)
  have "connectable ?s \<Longrightarrow> \<exists>p. sl_sock ?s = Some p \<and> sl_lock ?s = Some p \<and> is_daemon (sl_phase ?s p)"
    using holder_unique [OF inv] listens_daemon unfolding connectable_def is_daemon_def
    by (auto split: option.splits)
  moreover have "\<nexists>p. sl_phase ?s p = Binding \<and> sl_sock ?s \<noteq> None" using inv by (auto simp: slot_inv_def)
  ultimately show ?thesis using one unfolding Let_def by blast
qed

section \<open>What a turn leaves alone\<close>

text \<open>For running concrete turns.\<close>

lemmas turn_eval = slot_turn.simps begins_def connectable_def listens_def slot_defs numeral_eq_Suc

lemma turns_other:
  assumes "r \<noteq> p" and "sl_phase s r \<noteq> Absent"
  shows "sl_phase (probe_turn p luck ph s) r = sl_phase s r" "sl_phase (daemon_turn p luck ph s) r = sl_phase s r"
    "sl_phase (serve_turn p luck ph s) r = sl_phase s r" "sl_phase (stop_turn p luck ph s) r = sl_phase s r"
proof -
  show "sl_phase (probe_turn p luck ph s) r = sl_phase s r" using assms
    by (cases "(p, luck, ph, s)" rule: probe_turn.cases) (auto simp: slot_defs)
  show "sl_phase (daemon_turn p luck ph s) r = sl_phase s r" using assms
    by (cases "(p, luck, ph, s)" rule: daemon_turn.cases) (auto simp: slot_defs)
  show "sl_phase (serve_turn p luck ph s) r = sl_phase s r" using assms
    by (cases "(p, luck, ph, s)" rule: serve_turn.cases) (auto simp: slot_defs split: Luck.split)
  show "sl_phase (stop_turn p luck ph s) r = sl_phase s r" using assms
    by (cases "(p, luck, ph, s)" rule: stop_turn.cases) (auto simp: slot_defs split: nat.split)
qed

lemma turns_sock:
  "sl_sock (probe_turn p luck ph s) \<in> {None, sl_sock s}"
  "ph \<noteq> Binding \<Longrightarrow> sl_sock (daemon_turn p luck ph s) \<in> {None, sl_sock s}"
  "sl_sock (serve_turn p luck ph s) \<in> {None, sl_sock s}" "sl_sock (stop_turn p luck ph s) \<in> {None, sl_sock s}"
proof -
  show "sl_sock (probe_turn p luck ph s) \<in> {None, sl_sock s}"
    by (cases "(p, luck, ph, s)" rule: probe_turn.cases) (auto simp: slot_defs)
  show "sl_sock (daemon_turn p luck ph s) \<in> {None, sl_sock s}" if "ph \<noteq> Binding" using that
    by (cases "(p, luck, ph, s)" rule: daemon_turn.cases) (auto simp: slot_defs)
  show "sl_sock (serve_turn p luck ph s) \<in> {None, sl_sock s}"
    by (cases "(p, luck, ph, s)" rule: serve_turn.cases) (auto simp: slot_defs split: Luck.split)
  show "sl_sock (stop_turn p luck ph s) \<in> {None, sl_sock s}"
    by (cases "(p, luck, ph, s)" rule: stop_turn.cases) (auto simp: slot_defs split: nat.split)
qed

lemma slot_turn_other:
  assumes "r \<noteq> p" and "sl_phase s r \<noteq> Absent"
  shows "sl_phase (slot_turn (p, luck) s) r = sl_phase s r"
  by (cases rule: slot_turn_is [of p luck s]) (use assms in \<open>auto simp: turns_other, auto simp: slot_defs\<close>)

lemma slot_turn_sock:
  assumes "sl_phase s p \<noteq> Binding"
  shows "sl_sock (slot_turn (p, luck) s) \<in> {None, sl_sock s}"
proof (cases rule: slot_turn_is [of p luck s])
  case crash
  then show ?thesis by (simp add: slot_defs)
next
  case (begins c)
  then show ?thesis by (simp add: slot_defs)
qed (use turns_sock assms in simp_all)

definition up_and_running :: "(nat \<times> Luck) list" where
  "up_and_running = [(1, Begin ForDaemon)] @ replicate 7 (1, Usual)"

theorem one_daemon_witness:
  "\<exists>p. sl_lock (slot_run up_and_running (stale_slot (Some 9))) = Some p \<and> is_daemon (sl_phase (slot_run up_and_running (stale_slot (Some 9))) p)"
proof -
  have "connectable (slot_run up_and_running (stale_slot (Some 9)))"
    by (simp add: up_and_running_def stale_slot_def turn_eval)
  with one_daemon [of up_and_running "Some 9"] show ?thesis unfolding Let_def by blast
qed

section \<open>A live socket removed\<close>

text \<open>A daemon that serves without a socket: nothing but its own exit ends this.\<close>

definition orphaned :: "nat \<Rightarrow> Slot \<Rightarrow> bool" where
  "orphaned p s \<longleftrightarrow> slot_inv s \<and> sl_phase s p = Serving \<and> sl_sock s = None"

lemma orphaned_turn:
  assumes "orphaned p s" and "fst e = p \<Longrightarrow> snd e \<noteq> Leave \<and> snd e \<noteq> Crash"
  shows "orphaned p (slot_turn e s)"
proof -
  obtain q luck where e: "e = (q, luck)" by (cases e)
  have inv: "slot_inv s" and p: "sl_phase s p = Serving" and sock: "sl_sock s = None"
    using assms(1) by (simp_all add: orphaned_def)
  show ?thesis
  proof (cases "q = p")
    case True
    then have "slot_turn e s = s" using assms(2) e p by (simp add: slot_turn.simps)
    with assms(1) show ?thesis by simp
  next
    case False
    then have "sl_phase s q \<noteq> Binding" using holder_unique [OF inv, of p q] p by auto
    then have "sl_sock (slot_turn e s) = None" using slot_turn_sock [of s q luck] sock e by simp
    moreover have "sl_phase (slot_turn e s) p = Serving" using slot_turn_other [of p q s luck] False p e by simp
    ultimately show ?thesis using slot_turn_inv [OF inv, of q luck] e by (simp add: orphaned_def)
  qed
qed

lemma orphaned_run:
  assumes "orphaned p s" and "\<forall>e \<in> set es. fst e = p \<longrightarrow> snd e \<noteq> Leave \<and> snd e \<noteq> Crash"
  shows "orphaned p (slot_run es s)"
  using assms by (induction es arbitrary: s) (simp_all add: orphaned_turn)

definition late_prober :: "(nat \<times> Luck) list" where
  "late_prober = [(1, Begin ForDaemon), (2, Begin ForServe), (1, Usual), (2, Usual), (1, Usual), (2, Usual)] @
     replicate 5 (1, Usual) @ [(2, Usual)]"

lemma late_prober_orphans: "orphaned 1 (slot_run late_prober (stale_slot (Some 9)))"
proof -
  have "sl_phase (slot_run late_prober (stale_slot (Some 9))) 1 = Serving \<and> sl_sock (slot_run late_prober (stale_slot (Some 9))) = None"
    by (simp add: late_prober_def stale_slot_def turn_eval)
  then show ?thesis by (simp add: orphaned_def stale_slot_inv)
qed

text \<open>C33: A daemon can be cut off from every client. Two processes find the socket of a dead daemon refused;
  one removes it, takes the lock, binds and serves; then the other removes the file at that path,
  which by now is the live socket. From there on, whatever processes do, as long as the daemon does
  not exit nobody can connect to it and nobody else becomes the daemon.\<close>

theorem live_socket_removed:
  "\<exists>es. sl_phase (slot_run es (stale_slot (Some 9))) 1 = Serving \<and>
     (\<forall>fs. (\<forall>e \<in> set fs. fst e = 1 \<longrightarrow> snd e \<noteq> Leave \<and> snd e \<noteq> Crash) \<longrightarrow>
        (let s = slot_run fs (slot_run es (stale_slot (Some 9))) in
         sl_phase s 1 = Serving \<and> \<not> connectable s \<and> \<not> (\<exists>q. q \<noteq> 1 \<and> is_daemon (sl_phase s q))))"
proof (intro exI [of _ late_prober] conjI allI impI)
  let ?s0 = "slot_run late_prober (stale_slot (Some 9))"
  show "sl_phase ?s0 1 = Serving" using late_prober_orphans by (simp add: orphaned_def)
  fix fs :: "(nat \<times> Luck) list"
  assume "\<forall>e \<in> set fs. fst e = 1 \<longrightarrow> snd e \<noteq> Leave \<and> snd e \<noteq> Crash"
  then have o: "orphaned 1 (slot_run fs ?s0)" by (rule orphaned_run [OF late_prober_orphans])
  then have inv: "slot_inv (slot_run fs ?s0)" and sv: "sl_phase (slot_run fs ?s0) 1 = Serving"
    and sock: "sl_sock (slot_run fs ?s0) = None" by (simp_all only: orphaned_def)
  have "\<not> is_daemon (sl_phase (slot_run fs ?s0) q)" if "q \<noteq> 1" for q
    using holder_unique [OF inv, of 1 q] sv that by (auto simp: is_daemon_def)
  then show "let s = slot_run fs ?s0 in sl_phase s 1 = Serving \<and> \<not> connectable s \<and> \<not> (\<exists>q. q \<noteq> 1 \<and> is_daemon (sl_phase s q))"
    using sv sock by (auto simp: connectable_def)
qed

theorem live_socket_removed_witness:
  "\<exists>es. let s = slot_run [(3, Begin ForServe), (3, Usual), (3, Usual)] (slot_run es (stale_slot (Some 9))) in
     sl_phase s 1 = Serving \<and> \<not> connectable s"
proof -
  have "\<forall>e \<in> set [(3::nat, Begin ForServe), (3, Usual), (3, Usual)]. fst e = 1 \<longrightarrow> snd e \<noteq> Leave \<and> snd e \<noteq> Crash" by simp
  with live_socket_removed show ?thesis unfolding Let_def by metis
qed

section \<open>A stop that reports too early\<close>

text \<open>C32: \<open>daemon stop\<close> does not wait for the daemon to exit. As soon as the accept loop has returned, the
  listener is closed; if the polling process looks then, it reports the daemon stopped, in four
  steps at most, while the daemon is still tearing down, holds the lock and has its database open.\<close>

theorem stop_reports_early:
  assumes "sl_phase (slot_run es (stale_slot sock)) p = TearingDown"
    and "sl_phase (slot_run es (stale_slot sock)) q = Looking (ForStopPoll n)"
  shows "let s = slot_run (replicate 4 (q, Usual)) (slot_run es (stale_slot sock)) in
    sl_phase s q = Gone True \<and> sl_phase s p = TearingDown \<and> sl_lock s = Some p"
proof -
  define s where "s = slot_run es (stale_slot sock)"
  have inv: "slot_inv s" unfolding s_def by (rule stale_slot_inv)
  have p: "sl_phase s p = TearingDown" and q: "sl_phase s q = Looking (ForStopPoll n)" using assms by (simp_all add: s_def)
  have lock: "sl_lock s = Some p" and other: "holds_lock (sl_phase s r) \<Longrightarrow> r = p" for r
    using holder_unique [OF inv, of p] p by simp_all
  have "\<not> listens (sl_phase s r)" for r
    using listens_daemon [of "sl_phase s r"] other [of r] p by (auto simp: is_daemon_def listens_def)
  then have deaf: "\<not> connectable s" by (simp add: connectable_def split: option.split)
  have pq: "p \<noteq> q" using p q by auto
  have run: "replicate 4 (q, Usual) = [(q, Usual), (q, Usual), (q, Usual), (q, Usual)]" by (simp add: numeral_eq_Suc)
  show ?thesis unfolding s_def [symmetric] run
  proof (cases "sl_sock s")
    case None
    then show "let s = slot_run [(q, Usual), (q, Usual), (q, Usual), (q, Usual)] s in
        sl_phase s q = Gone True \<and> sl_phase s p = TearingDown \<and> sl_lock s = Some p"
      using p q pq lock by (simp add: slot_turn.simps slot_defs)
  next
    case (Some r)
    have "\<not> listens (sl_phase s r)" using deaf Some by (simp add: connectable_def)
    then have deaf': "\<not> connectable (put q (Connecting (ForStopPoll n)) s)"
      using Some by (auto simp: connectable_def put_def listens_def)
    show "let s = slot_run [(q, Usual), (q, Usual), (q, Usual), (q, Usual)] s in
        sl_phase s q = Gone True \<and> sl_phase s p = TearingDown \<and> sl_lock s = Some p"
      using p q pq lock Some deaf' by (simp add: slot_turn.simps slot_defs)
  qed
qed

definition stopping :: "(nat \<times> Luck) list" where
  "stopping = [(1, Begin ForDaemon)] @ replicate 5 (1, Usual) @ [(2, Begin ForStop)] @ replicate 4 (2, Usual) @ [(1, Leave)]"

theorem stop_reports_early_witness:
  "let s = slot_run (replicate 4 (2, Usual)) (slot_run stopping (stale_slot None)) in
     sl_phase s 2 = Gone True \<and> sl_phase s 1 = TearingDown \<and> sl_lock s = Some 1"
proof -
  have "sl_phase (slot_run stopping (stale_slot None)) 1 = TearingDown \<and>
      sl_phase (slot_run stopping (stale_slot None)) 2 = Looking (ForStopPoll 49)"
    by (simp add: stopping_def stale_slot_def turn_eval)
  then show ?thesis using stop_reports_early [of stopping None 1 2 49] by blast
qed

section \<open>Finding a daemon\<close>

text \<open>The client that nobody will serve: every other process has gone or is going.\<close>

definition waits :: "Phase \<Rightarrow> bool" where
  "waits ph \<longleftrightarrow> ph \<in> {Looking ForWait, Connecting ForWait, Removing ForWait, Answered ForWait NotRunning, Gone False}"

definition leaving :: "Phase \<Rightarrow> bool" where
  "leaving ph \<longleftrightarrow> ph = TearingDown \<or> ph = Releasing \<or> ph = Absent \<or> (\<exists>code. ph = Gone code)"

definition stranded :: "nat \<Rightarrow> Slot \<Rightarrow> bool" where
  "stranded q s \<longleftrightarrow> waits (sl_phase s q) \<and> (\<forall>r. r \<noteq> q \<longrightarrow> leaving (sl_phase s r))"

lemma deaf_phases: "waits ph \<or> leaving ph \<Longrightarrow> \<not> listens ph"
  by (auto simp: listens_def waits_def leaving_def)

lemma stranded_deaf:
  assumes "stranded q s"
  shows "\<not> connectable s" and "\<not> listens (sl_phase s r)"
proof -
  show deaf: "\<not> listens (sl_phase s r)" for r
    using assms deaf_phases by (cases "r = q") (auto simp: stranded_def)
  show "\<not> connectable s" using deaf by (simp add: connectable_def split: option.split)
qed

lemma leaving_turn:
  assumes "leaving (sl_phase s r)" and "\<forall>c. luck \<noteq> Begin c"
  shows "leaving (sl_phase (slot_turn (r, luck) s) r)"
  using assms by (auto simp: leaving_def slot_turn.simps slot_defs split: Luck.split)

lemma waits_turn:
  assumes "waits (sl_phase s q)" and "\<not> connectable s"
  shows "waits (sl_phase (slot_turn (q, luck) s) q)"
  using assms by (auto simp: waits_def slot_turn.simps slot_defs split: if_splits)

lemma turn_of_stranded:
  assumes "waits (sl_phase s p) \<or> leaving (sl_phase s p)" and "r \<noteq> p" and "\<forall>c. luck \<noteq> Begin c"
  shows "sl_phase (slot_turn (p, luck) s) r = sl_phase s r"
  using assms by (auto simp: waits_def leaving_def slot_turn.simps slot_defs split: Luck.split)

lemma stranded_turn:
  assumes "stranded q s" and "\<forall>c. snd e \<noteq> Begin c"
  shows "stranded q (slot_turn e s)"
proof -
  obtain p luck where e: "e = (p, luck)" by (cases e)
  have luck: "\<forall>c. luck \<noteq> Begin c" using assms(2) e by simp
  have ph: "waits (sl_phase s q)" "\<And>r. r \<noteq> q \<Longrightarrow> leaving (sl_phase s r)" using assms(1) by (simp_all add: stranded_def)
  have deaf: "\<not> connectable s" by (rule stranded_deaf [OF assms(1)])
  have self: "waits (sl_phase s p) \<or> leaving (sl_phase s p)" using ph by (cases "p = q") simp_all
  have "waits (sl_phase (slot_turn e s) q)"
    using waits_turn [OF ph(1) deaf, of luck] turn_of_stranded [OF self _ luck, of q] ph(1) e by (cases "p = q") simp_all
  moreover have "leaving (sl_phase (slot_turn e s) r)" if "r \<noteq> q" for r
    using leaving_turn [OF ph(2) [OF that] luck] turn_of_stranded [OF self _ luck, of r] ph(2) [OF that] e
    by (cases "r = p") simp_all
  ultimately show ?thesis by (simp add: stranded_def)
qed

lemma stranded_run:
  assumes "stranded q s" and "\<forall>e \<in> set es. \<forall>c. snd e \<noteq> Begin c"
  shows "stranded q (slot_run es s)"
  using assms by (induction es arbitrary: s) (simp_all add: stranded_turn)

text \<open>A client that comes while the old daemon is on its way out waits in vain. Having found no socket, it
  fails to take the lock, concludes that somebody else is starting a daemon, and waits; but if the
  holder is a daemon that is tearing down and no further process starts, then whatever happens
  nobody ever listens, and the client ends, if at all, with its failure.\<close>

theorem client_stranded:
  assumes "sl_phase (slot_run es (stale_slot sock)) p = TearingDown"
    and "sl_phase (slot_run es (stale_slot sock)) q = Answered ForServe NotRunning"
    and "\<And>r. r \<noteq> p \<Longrightarrow> r \<noteq> q \<Longrightarrow> leaving (sl_phase (slot_run es (stale_slot sock)) r)"
    and "\<forall>e \<in> set fs. \<forall>c. snd e \<noteq> Begin c"
  shows "let s = slot_run ((q, Usual) # fs) (slot_run es (stale_slot sock)) in
    waits (sl_phase s q) \<and> (\<forall>r. \<not> listens (sl_phase s r))"
proof -
  define s where "s = slot_run es (stale_slot sock)"
  note h = assms(1-3) [folded s_def]
  have "slot_inv s" unfolding s_def by (rule stale_slot_inv)
  then have "sl_lock s = Some p" using holder_unique h(1) by simp
  moreover have others: "leaving (sl_phase s r)" if "r \<noteq> q" for r
    using h(1) h(3) [of r] that by (cases "r = p") (simp_all add: leaving_def)
  ultimately have st: "stranded q (slot_turn (q, Usual) s)"
    using h(2) others by (simp add: stranded_def slot_turn.simps slot_defs waits_def)
  have "stranded q (slot_run fs (slot_turn (q, Usual) s))" by (rule stranded_run [OF st assms(4)])
  then show ?thesis using stranded_deaf unfolding s_def [symmetric] Let_def run_events.simps
    by (simp add: stranded_def)
qed

definition stopped_then_served :: "(nat \<times> Luck) list" where
  "stopped_then_served = stopping @ replicate 4 (2, Usual) @ [(3, Begin ForServe), (3, Usual)]"

lemma stopped_then_served_phases:
  "sl_phase (slot_run stopped_then_served (stale_slot None)) =
     (\<lambda>_. Absent)(1 := TearingDown, 2 := Gone True, 3 := Answered ForServe NotRunning)"
  by (rule ext) (simp add: stopped_then_served_def stopping_def stale_slot_def turn_eval)

theorem client_stranded_witness:
  "let s = slot_run ((3, Usual) # [(1, Usual), (1, Usual), (3, Usual), (3, Usual)]) (slot_run stopped_then_served (stale_slot None)) in
     waits (sl_phase s 3) \<and> (\<forall>r. \<not> listens (sl_phase s r))"
  by (rule client_stranded [where p = 1]) (auto simp: stopped_then_served_phases leaving_def)

text \<open>And a client that comes alone is served. From any reachable slot where every process has gone, even
  with a dead daemon's socket in the way, a new client and the daemon it spawns have a run without
  any failure, crash or delay in which the client is attached to that daemon, which serves, holds
  the lock and owns the socket.\<close>

theorem lone_client_attaches:
  assumes "\<And>r. sl_phase (slot_run es (stale_slot sock)) r = Absent \<or> (\<exists>code. sl_phase (slot_run es (stale_slot sock)) r = Gone code)"
    and "sl_phase (slot_run es (stale_slot sock)) q = Absent" "sl_phase (slot_run es (stale_slot sock)) d = Absent" "q \<noteq> d"
  shows "\<exists>fs. (\<forall>e \<in> set fs. e \<in> {(q, Begin ForServe), (q, Usual), (q, Spawns d), (d, Usual)}) \<and>
    (let s = slot_run fs (slot_run es (stale_slot sock)) in
     sl_phase s q = Attached \<and> sl_phase s d = Serving \<and> sl_lock s = Some d \<and> sl_sock s = Some d)"
proof -
  define s where "s = slot_run es (stale_slot sock)"
  note h = assms(1-4) [folded s_def]
  have inv: "slot_inv s" unfolding s_def by (rule stale_slot_inv)
  have "\<not> holds_lock (sl_phase s r)" for r using h(1) [of r] by auto
  then have lock: "sl_lock s = None" using inv unfolding slot_inv_def by (metis option.exhaust)
  have deaf: "\<not> listens (sl_phase s r)" for r using h(1) [of r] by (auto simp: listens_def)
  let ?rest = "[(q, Usual), (q, Usual), (q, Spawns d)] @ replicate 5 (d, Usual) @ replicate 4 (q, Usual)"
  let ?fs = "(q, Begin ForServe) # replicate (if sl_sock s = None then 1 else 3) (q, Usual) @ ?rest"
  have "let s = slot_run ?fs s in
     sl_phase s q = Attached \<and> sl_phase s d = Serving \<and> sl_lock s = Some d \<and> sl_sock s = Some d"
  proof (cases "sl_sock s")
    case None
    then show ?thesis using h(2,3) \<open>q \<noteq> d\<close> lock by (simp add: turn_eval)
  next
    case (Some r)
    have "\<not> connectable (s\<lparr>sl_phase := (sl_phase s)(q := Connecting ForServe)\<rparr>)"
      using Some deaf [of r] by (simp add: connectable_def listens_def)
    then show ?thesis using Some h(2,3) \<open>q \<noteq> d\<close> lock by (simp add: turn_eval)
  qed
  then show ?thesis unfolding s_def [symmetric]
    by (intro exI [of _ ?fs]) auto
qed

theorem lone_client_attaches_witness:
  "\<exists>fs. let s = slot_run fs (slot_run [] (stale_slot (Some 9))) in sl_phase s 2 = Attached \<and> sl_phase s 1 = Serving"
proof -
  have absent: "sl_phase (slot_run [] (stale_slot (Some 9))) r = Absent" for r by (simp add: stale_slot_def)
  have "(2::nat) \<noteq> 1" by simp
  from lone_client_attaches [OF disjI1 [OF absent] absent absent this] show ?thesis unfolding Let_def by blast
qed

section \<open>Waiting\<close>

lemma poll_daemon_bounds:
  assumes took: "\<forall>u. snd (probe u) \<le> (2000::nat)" and "poll_daemon probe deadline now = (ready, t)"
  shows "t \<le> max now (deadline + daemon_poll_interval) + 2000 \<and>
    (if ready then \<exists>u. now \<le> u \<and> u \<le> t \<and> fst (probe u) = Live
     else \<exists>u. now \<le> u \<and> fst (probe u) = NotRunning \<and> deadline \<le> u + snd (probe u))"
  using assms(2)
proof (induction "deadline - now" arbitrary: now rule: less_induct)
  case less
  obtain l d where pr: "probe now = (l, d)" by force
  have d: "d \<le> 2000" using took [rule_format, of now] pr by simp
  consider "l = Live" | "l = NotRunning" "deadline \<le> now + d" | "l = NotRunning" "now + d < deadline"
    by (cases l) (simp_all, linarith)
  then show ?case
  proof cases
    case 1
    then have "ready" "t = now + d" using less.prems pr by (simp_all add: poll_daemon.simps [of probe deadline now])
    then show ?thesis using 1 d pr by (auto intro!: exI [of _ now])
  next
    case 2
    then have "\<not> ready" "t = now + d" using less.prems pr by (simp_all add: poll_daemon.simps [of probe deadline now])
    then show ?thesis using 2 d pr by (auto intro!: exI [of _ now])
  next
    case 3
    let ?next = "now + d + daemon_poll_interval"
    have run: "poll_daemon probe deadline ?next = (ready, t)"
      using less.prems pr 3 by (simp add: poll_daemon.simps [of probe deadline now])
    have "deadline - ?next < deadline - now" using 3(2) by (simp add: daemon_poll_interval_def)
    note IH = less.hyps [OF this run]
    have "t \<le> max now (deadline + daemon_poll_interval) + 2000" using conjunct1 [OF IH] 3(2) by linarith
    moreover have "if ready then \<exists>u. now \<le> u \<and> u \<le> t \<and> fst (probe u) = Live
        else \<exists>u. now \<le> u \<and> fst (probe u) = NotRunning \<and> deadline \<le> u + snd (probe u)"
    proof (cases ready)
      case True
      with IH obtain u where "?next \<le> u" "u \<le> t" "fst (probe u) = Live" by auto
      with True show ?thesis by (auto intro!: exI [of _ u])
    next
      case False
      with IH obtain u where "?next \<le> u" "fst (probe u) = NotRunning" "deadline \<le> u + snd (probe u)" by auto
      with False show ?thesis by (auto intro!: exI [of _ u])
    qed
    ultimately show ?thesis ..
  qed
qed

text \<open>A client waits for a daemon for a minute, not forever. If a probe takes two seconds at most, the
  wait ends within 62.1 seconds; it succeeds only if some probe in that time found a daemon, and it
  does succeed if every probe from some moment within the first 58 seconds on finds one.\<close>

theorem startup_wait_bounded:
  assumes "\<forall>u. snd (probe u) \<le> 2000" and "wait_for_daemon_ready probe now = (ready, t)"
  shows "t \<le> now + 62100 \<and> (ready \<longrightarrow> (\<exists>u. now \<le> u \<and> u \<le> t \<and> fst (probe u) = Live)) \<and>
    ((\<exists>v. v \<le> now + 58000 \<and> (\<forall>u. v \<le> u \<longrightarrow> fst (probe u) = Live)) \<longrightarrow> ready)"
proof -
  have poll: "poll_daemon probe (now + daemon_startup_timeout) now = (ready, t)"
    using assms(2) by (simp add: wait_for_daemon_ready_def)
  note b = poll_daemon_bounds [OF assms(1) poll]
  have "t \<le> now + 62100" using conjunct1 [OF b] by (simp add: daemon_startup_timeout_def daemon_poll_interval_def)
  moreover have "ready" if v: "v \<le> now + 58000" "\<forall>u. v \<le> u \<longrightarrow> fst (probe u) = Live" for v
  proof (rule ccontr)
    assume "\<not> ready"
    with b obtain u where u: "fst (probe u) = NotRunning" "now + daemon_startup_timeout \<le> u + snd (probe u)" by auto
    then have "u < v" using v(2) by (metis Liveness.distinct(1) linorder_not_less)
    moreover have "snd (probe u) \<le> 2000" using assms(1) by simp
    ultimately show False using u(2) v(1) by (simp add: daemon_startup_timeout_def)
  qed
  ultimately show ?thesis using b by auto
qed

definition slow_start :: "nat \<Rightarrow> Liveness \<times> nat" where
  "slow_start t = (if t < 5000 then NotRunning else Live, 3)"

theorem startup_wait_bounded_witness: "fst (wait_for_daemon_ready slow_start 0)"
proof -
  obtain ready t where w: "wait_for_daemon_ready slow_start 0 = (ready, t)" by force
  have "\<forall>u. snd (slow_start u) \<le> 2000" "\<forall>u. 5000 \<le> u \<longrightarrow> fst (slow_start u) = Live" by (simp_all add: slow_start_def)
  then show ?thesis using startup_wait_bounded [OF _ w] w by force
qed

end
