(* ===== verification/Cli.thy ===== *)
theory Cli
  imports Runner Watcher
begin

text \<open>
  The command line (\<open>src/main.rs\<close>): which command the arguments name, how a root is resolved, and the
  \<open>discover\<close> and \<open>index\<close> commands. The other commands are in \<open>Daemon_Process\<close> and \<open>Commands\<close>, what they do
  about each other in \<open>Daemon_Slot\<close>.
\<close>

section \<open>Arguments\<close>

datatype ExitCode = ExitSuccess | ExitFailure | ExitUsage

datatype CliCommand =
    CmdDiscover string
  | CmdIndex string
  | CmdServe string
  | CmdDaemon string
  | CmdDaemonStop string
  | CmdHelp
  | CmdUsage

definition with_root :: "(string \<Rightarrow> CliCommand) \<Rightarrow> string list \<Rightarrow> CliCommand" where
  "with_root cmd args = (case args of [] \<Rightarrow> CmdUsage | root_arg # _ \<Rightarrow> cmd root_arg)"

definition daemon_cmd :: "string list \<Rightarrow> CliCommand" where
  "daemon_cmd args =
     (if args \<noteq> [] \<and> hd args = ''stop'' then with_root CmdDaemonStop (tl args) else with_root CmdDaemon args)"

text \<open>The arguments after the program's name.\<close>

definition main_command :: "string list \<Rightarrow> CliCommand" where
  "main_command args = (case args of
      [] \<Rightarrow> CmdHelp
    | cmd # rest \<Rightarrow>
        if cmd = ''discover'' then with_root CmdDiscover rest
        else if cmd = ''index'' then with_root CmdIndex rest
        else if cmd = ''serve'' then with_root CmdServe rest
        else if cmd = ''daemon'' then daemon_cmd rest
        else CmdHelp)"

section \<open>Roots\<close>

text \<open>The file system: a canonical path or the error's text, and which paths are directories.\<close>

record Roots =
  ro_canonicalize :: "string \<Rightarrow> string + string"
  ro_is_dir :: "string \<Rightarrow> bool"

definition resolve_root :: "Roots \<Rightarrow> string \<Rightarrow> string + string" where
  "resolve_root fs root_arg = (case ro_canonicalize fs root_arg of
      Inl e \<Rightarrow> Inl (root_arg @ '': '' @ e)
    | Inr root \<Rightarrow> if ro_is_dir fs root then Inr root else Inl (root_arg @ '' is not a directory''))"

definition resolve_cache_dir :: "Env \<Rightarrow> string \<Rightarrow> string" where
  "resolve_cache_dir env root = (case env ''SEMNAV_CACHE_DIR'' of
      Some dir \<Rightarrow> if dir \<noteq> [] then dir else path_join root ''.semnav''
    | None \<Rightarrow> path_join root ''.semnav'')"

definition root_uri_for :: "string \<Rightarrow> string" where
  "root_uri_for root = trim_end_char (CHR ''/'') (path_to_uri root) @ ''/''"

section \<open>Discovering\<close>

definition discover :: "Env \<Rightarrow> Roots \<Rightarrow> (string \<Rightarrow> (string + WalkEntry) list) \<Rightarrow> string \<Rightarrow> ExitCode \<times> string list" where
  "discover env fs walker root_arg = (case resolve_root fs root_arg of
      Inl e \<Rightarrow> (ExitFailure, [])
    | Inr root \<Rightarrow> (case discover_files env (walker root) of
        Inl e \<Rightarrow> (ExitFailure, [])
      | Inr uris \<Rightarrow> (ExitSuccess, uris)))"

section \<open>Indexing\<close>

text \<open>
  What the \<open>index\<close> command meets besides its machine: whether the cache directory can be created, the
  database behind a path, and what happens to each language's supervisor while its pass runs.
\<close>

record IndexHost =
  ih_hasher :: Hasher
  ih_machine :: Machine
  ih_show_error :: "AppError \<Rightarrow> string"
  ih_meanwhile :: "string \<Rightarrow> SupEvent list"
  ih_create_dir :: "string \<Rightarrow> bool"
  ih_open :: "string \<Rightarrow> string + Db"

type_synonym IndexOutcome = "(AppError + IndexStats) \<times> Supervisor option"

fun index_each :: "IndexHost \<Rightarrow> string \<Rightarrow> string \<Rightarrow> string list \<Rightarrow> Db \<Rightarrow> IndexOutcome list \<times> Db" where
  "index_each ih root_uri servers_dir [] d = ([], d)"
| "index_each ih root_uri servers_dir (language # ls) d =
     (case index_language (ih_hasher ih) (ih_machine ih) (ih_show_error ih) (ih_meanwhile ih language)
             language root_uri servers_dir d of
       (r, sv, d') \<Rightarrow> (case index_each ih root_uri servers_dir ls d' of (outcomes, d'') \<Rightarrow> ((r, sv) # outcomes, d'')))"

definition failures :: "IndexOutcome list \<Rightarrow> nat" where
  "failures outcomes = length (filter (\<lambda>x. \<not> is_ok (fst x)) outcomes)"

definition run_index :: "IndexHost \<Rightarrow> string \<Rightarrow> ExitCode \<times> IndexOutcome list \<times> Db option" where
  "run_index ih root =
     (let env = ma_env (ih_machine ih); cache_dir = resolve_cache_dir env root;
          servers_dir = path_join cache_dir ''servers''; db_path = path_join cache_dir ''graph.db''
      in if \<not> ih_create_dir ih servers_dir then (ExitFailure, [], None)
         else (case ih_open ih db_path of
            Inl e \<Rightarrow> (ExitFailure, [], None)
          | Inr db \<Rightarrow>
              (let languages = map ad_language_name (builtin_adapters env)
               in case index_each ih (root_uri_for root) servers_dir languages db of
                 (outcomes, db') \<Rightarrow>
                   (if failures outcomes = length languages then ExitFailure else ExitSuccess, outcomes, Some db'))))"

section \<open>What the commands guarantee\<close>

lemma index_each_ok:
  assumes "wf_db d" and "\<forall>l e. e \<in> set (ih_meanwhile ih l) \<longrightarrow> in_flight e"
    and "index_each ih root_uri servers_dir ls d = (outcomes, d')"
  shows "wf_db d' \<and> length outcomes = length ls \<and> (\<forall>x \<in> set outcomes. \<forall>s. snd x = Some s \<longrightarrow> reaped s)"
  using assms(1,3)
proof (induction ls arbitrary: d outcomes d')
  case Nil
  then show ?case by simp
next
  case (Cons l ls)
  obtain r sv d1 where one: "index_language (ih_hasher ih) (ih_machine ih) (ih_show_error ih) (ih_meanwhile ih l)
      l root_uri servers_dir d = (r, sv, d1)" by (metis prod_cases3)
  obtain os d2 where rest: "index_each ih root_uri servers_dir ls d1 = (os, d2)" by force
  have c: "wf_db d1" "\<forall>s. sv = Some s \<longrightarrow> reaped s"
    using index_language_reaps [OF one Cons.prems(1)] assms(2) by (auto split: option.splits)
  from Cons.IH [OF c(1) rest] c(2) Cons.prems(2) one rest show ?case by auto
qed

lemma failures_all: "failures outcomes = length outcomes \<longleftrightarrow> (\<forall>x \<in> set outcomes. \<not> is_ok (fst x))"
proof
  assume "failures outcomes = length outcomes"
  then have "filter (\<lambda>x. \<not> is_ok (fst x)) outcomes = outcomes"
    unfolding failures_def by (metis length_filter_less less_irrefl filter_id_conv)
  then show "\<forall>x \<in> set outcomes. \<not> is_ok (fst x)" by (simp add: filter_id_conv)
next
  assume "\<forall>x \<in> set outcomes. \<not> is_ok (fst x)"
  then show "failures outcomes = length outcomes" by (simp add: failures_def)
qed

text \<open>C37: \<open>semnav index\<close> tolerates partial failure. Once the database is open, every language with an adapter
  is indexed, whatever happened to the ones before; the command fails exactly if it could not
  create the directory, could not open the database, or every language failed; and it leaves a
  consistent store and no supervisor running.\<close>

theorem run_index_outcome:
  assumes "run_index ih root = (code, outcomes, db)" and "\<forall>path d. ih_open ih path = Inr d \<longrightarrow> wf_db d"
    and "\<forall>l e. e \<in> set (ih_meanwhile ih l) \<longrightarrow> in_flight e"
  shows "case db of
      None \<Rightarrow> code = ExitFailure
    | Some d \<Rightarrow> wf_db d \<and> length outcomes = length (builtin_adapters (ma_env (ih_machine ih))) \<and>
        (code = ExitFailure \<longleftrightarrow> (\<forall>x \<in> set outcomes. \<not> is_ok (fst x))) \<and>
        (\<forall>x \<in> set outcomes. \<forall>s. snd x = Some s \<longrightarrow> reaped s)"
proof (cases db)
  case None
  with assms(1) show ?thesis by (auto simp: run_index_def Let_def split: if_splits sum.splits prod.splits)
next
  case (Some d')
  let ?env = "ma_env (ih_machine ih)" and ?langs = "map ad_language_name (builtin_adapters (ma_env (ih_machine ih)))"
  let ?servers = "path_join (resolve_cache_dir ?env root) ''servers''"
  obtain d where d: "ih_open ih (path_join (resolve_cache_dir ?env root) ''graph.db'') = Inr d"
    and run: "index_each ih (root_uri_for root) ?servers ?langs d = (outcomes, d')"
    and code: "code = (if failures outcomes = length ?langs then ExitFailure else ExitSuccess)"
    using assms(1) Some by (auto simp: run_index_def Let_def split: if_splits sum.splits prod.splits)
  have "wf_db d" using assms(2) d by blast
  from index_each_ok [OF this assms(3) run]
  have ok: "wf_db d'" "length outcomes = length ?langs" "\<forall>x \<in> set outcomes. \<forall>s. snd x = Some s \<longrightarrow> reaped s" by blast+
  have "code = ExitFailure \<longleftrightarrow> (\<forall>x \<in> set outcomes. \<not> is_ok (fst x))"
    using failures_all [of outcomes] code ok(2) by (auto split: if_splits)
  with ok Some show ?thesis by simp
qed

text \<open>The URI of a root. For a canonical root other than \<open>/\<close> it is the file URI of the root with exactly
  one slash at its end. For \<open>/\<close> itself every slash is trimmed, those of the scheme too: what is
  left is \<open>file:/\<close>, which no longer names the root when it is turned back into a path.\<close>

theorem root_uri_shape:
  assumes "starts_with ''/'' root" and "root = ''/'' \<or> last root \<noteq> CHR ''/''"
  shows "if root = ''/'' then root_uri_for root = ''file:/'' \<and> uri_to_path (root_uri_for root) \<noteq> root
    else root_uri_for root = ''file://'' @ root @ ''/'' \<and> uri_to_path (root_uri_for root) = root @ ''/''"
proof (cases "root = ''/''")
  case True
  have "root_uri_for ''/'' = ''file:/''" "uri_to_path ''file:/'' \<noteq> ''/''" by code_simp+
  with True show ?thesis by simp
next
  case False
  then have l: "last root \<noteq> CHR ''/''" "root \<noteq> []" using assms by (auto simp: starts_with_def)
  then have "trim_end_char (CHR ''/'') (''file://'' @ root) = ''file://'' @ root"
    unfolding trim_end_char_def by (cases "rev root") (auto simp: last_rev [symmetric] hd_rev)
  then have "root_uri_for root = ''file://'' @ root @ ''/''"
    using assms(1) by (simp add: root_uri_for_def path_to_uri_def)
  moreover have "uri_to_path (''file://'' @ root @ ''/'') = root @ ''/''" by (simp add: uri_to_path_def)
  ultimately show ?thesis using False by simp
qed

theorem root_uri_shape_witness:
  "root_uri_for ''/'' = ''file:/'' \<and> root_uri_for ''/repo'' = ''file:///repo/''"
proof -
  have a: "starts_with ''/'' ''/''" "starts_with ''/'' ''/repo''" by code_simp+
  show ?thesis using root_uri_shape [OF a(1)] root_uri_shape [OF a(2)] by simp
qed

definition go_index :: IndexHost where
  "go_index = \<lparr>ih_hasher = const_hasher, ih_machine = go_machine, ih_show_error = (\<lambda>_. ''error''), ih_meanwhile = (\<lambda>_. []),
     ih_create_dir = (\<lambda>_. True), ih_open = (\<lambda>_. Inr empty_db)\<rparr>"

theorem run_index_outcome_witness:
  "\<exists>code outcomes d. run_index go_index ''/repo'' = (code, outcomes, Some d) \<and> wf_db d \<and>
     (code = ExitFailure \<longleftrightarrow> (\<forall>x \<in> set outcomes. \<not> is_ok (fst x)))"
proof -
  obtain code outcomes db where run: "run_index go_index ''/repo'' = (code, outcomes, db)" by (metis prod_cases3)
  have "db \<noteq> None" using run by (auto simp: run_index_def go_index_def Let_def split: prod.splits)
  moreover have "\<forall>path d. ih_open go_index path = Inr d \<longrightarrow> wf_db d"
    "\<forall>l e. e \<in> set (ih_meanwhile go_index l) \<longrightarrow> in_flight e" by (simp_all add: go_index_def wf_empty_db)
  note run_index_outcome [OF run this]
  ultimately show ?thesis using run by auto
qed

end
