(* ===== verification/Db_Handle.thy ===== *)
theory Db_Handle
  imports Db_Actor Reconcile_Meta
begin

text \<open>
  The handle of the database actor (the methods of \<open>DbActor\<close> in \<open>src/graph/db.rs\<close>): each sends one
  command, waits for its one reply, and returns it at its type. The locale \<open>handle_method\<close> is what
  a caller relies on: the method is the direct operation, run where the command stands in the queue.
\<close>

section \<open>Awaiting a reply\<close>

text \<open>What a call can fail with: the actor's thread has ended before the send, or before the reply.\<close>

datatype HandleError = ActorClosed | ReplyDropped | StoreError DbError

fun handle_error_text :: "(DbError \<Rightarrow> string) \<Rightarrow> HandleError \<Rightarrow> string" where
  "handle_error_text show_db ActorClosed = ''db actor closed''"
| "handle_error_text show_db ReplyDropped = ''db actor dropped reply''"
| "handle_error_text show_db (StoreError e) = show_db e"

text \<open>
  A method: the command it sends, and the reply read at the type of its one-shot channel (\<open>None\<close>
  where the channel could not carry it).
\<close>

datatype 'a HandleCall = HandleCall (hc_command: DbCommand) (hc_read: "DbReply \<Rightarrow> 'a option")

definition read_reply :: "'a HandleCall \<Rightarrow> DbReply \<Rightarrow> (HandleError + 'a) option" where
  "read_reply m r = (case r of ReplyError e \<Rightarrow> Some (Inl (StoreError e)) | _ \<Rightarrow> map_option Inr (hc_read m r))"

text \<open>
  The result of a call, once there is one: \<open>ticket\<close> is the place of its command in the queue, if the
  send succeeded; \<open>ended\<close> says that the thread is gone, which drops the replies of what is queued.
\<close>

definition handle_result :: "'a HandleCall \<Rightarrow> (DbCommand, 's, DbReply) Actor \<Rightarrow> bool \<Rightarrow> nat option \<Rightarrow> (HandleError + 'a) option" where
  "handle_result m a ended ticket = (case ticket of
      None \<Rightarrow> Some (Inl ActorClosed)
    | Some t \<Rightarrow> (case ac_replies a t of
        Some r \<Rightarrow> read_reply m r
      | None \<Rightarrow> if ended then Some (Inl ReplyDropped) else None))"

section \<open>The types of the replies\<close>

fun as_unit :: "DbReply \<Rightarrow> unit option" where "as_unit ReplyUnit = Some ()" | "as_unit _ = None"
fun as_id :: "DbReply \<Rightarrow> int option" where "as_id (ReplyId i) = Some i" | "as_id _ = None"
fun as_node :: "DbReply \<Rightarrow> Node option option" where "as_node (ReplyNode n) = Some n" | "as_node _ = None"
fun as_nodes :: "DbReply \<Rightarrow> Node list option" where "as_nodes (ReplyNodes ns) = Some ns" | "as_nodes _ = None"
fun as_text :: "DbReply \<Rightarrow> string option option" where "as_text (ReplyText t) = Some t" | "as_text _ = None"
fun as_bool :: "DbReply \<Rightarrow> bool option" where "as_bool (ReplyBool b) = Some b" | "as_bool _ = None"
fun as_uris :: "DbReply \<Rightarrow> string list option" where "as_uris (ReplyUris us) = Some us" | "as_uris _ = None"
fun as_count :: "DbReply \<Rightarrow> nat option" where "as_count (ReplyCount n) = Some n" | "as_count _ = None"

fun as_neighbors :: "DbReply \<Rightarrow> Neighbor list option" where
  "as_neighbors (ReplyNeighbors ns) = Some ns" | "as_neighbors _ = None"

fun as_outcome :: "DbReply \<Rightarrow> ReconcileOutcome option" where
  "as_outcome (ReplyOutcome oc) = Some oc" | "as_outcome _ = None"

section \<open>The methods\<close>

definition upsert_node_call :: "Node \<Rightarrow> int HandleCall" where
  "upsert_node_call n = HandleCall (UpsertNode n) as_id"

definition get_node_by_fqn_call :: "string \<Rightarrow> (Node option) HandleCall" where
  "get_node_by_fqn_call f = HandleCall (GetNodeByFqn f) as_node"

definition get_node_call :: "int \<Rightarrow> (Node option) HandleCall" where
  "get_node_call i = HandleCall (GetNode i) as_node"

definition list_nodes_call :: "string option \<Rightarrow> (Node list) HandleCall" where
  "list_nodes_call language = HandleCall (ListNodes language) as_nodes"

definition find_node_by_position_call :: "string \<Rightarrow> int \<Rightarrow> int \<Rightarrow> (Node option) HandleCall" where
  "find_node_by_position_call u line col = HandleCall (FindNodeByPosition u line col) as_node"

definition get_neighbors_call :: "int \<Rightarrow> string \<Rightarrow> Direction \<Rightarrow> (Neighbor list) HandleCall" where
  "get_neighbors_call i t dir = HandleCall (GetNeighbors i t dir) as_neighbors"

definition upsert_edge_call :: "Edge \<Rightarrow> int HandleCall" where
  "upsert_edge_call e = HandleCall (UpsertEdge e) as_id"

definition set_meta_call :: "string \<Rightarrow> string \<Rightarrow> unit HandleCall" where
  "set_meta_call k v = HandleCall (SetMeta k v) as_unit"

definition get_meta_call :: "string \<Rightarrow> (string option) HandleCall" where
  "get_meta_call k = HandleCall (GetMeta k) as_text"

definition reconcile_file_symbols_call :: "string \<Rightarrow> string \<Rightarrow> bool \<Rightarrow> ReconcileSymbol list \<Rightarrow> ReconcileOutcome HandleCall" where
  "reconcile_file_symbols_call u lang ext syms = HandleCall (ReconcileFileSymbols u lang ext syms) as_outcome"

definition update_node_construct_call :: "int \<Rightarrow> string \<Rightarrow> unit HandleCall" where
  "update_node_construct_call i c = HandleCall (UpdateNodeConstruct i c) as_unit"

definition update_node_signature_call :: "int \<Rightarrow> string \<Rightarrow> unit HandleCall" where
  "update_node_signature_call i s = HandleCall (UpdateNodeSignature i s) as_unit"

definition update_node_signature_by_fqn_call :: "string \<Rightarrow> string \<Rightarrow> unit HandleCall" where
  "update_node_signature_by_fqn_call f s = HandleCall (UpdateNodeSignatureByFqn f s) as_unit"

definition get_callees_cache_hash_call :: "int \<Rightarrow> (string option) HandleCall" where
  "get_callees_cache_hash_call i = HandleCall (GetCalleesCacheHash i) as_text"

definition set_callees_cache_hash_call :: "int \<Rightarrow> string \<Rightarrow> unit HandleCall" where
  "set_callees_cache_hash_call i h = HandleCall (SetCalleesCacheHash i h) as_unit"

definition is_materialized_call :: "int \<Rightarrow> string \<Rightarrow> bool HandleCall" where
  "is_materialized_call i t = HandleCall (IsMaterialized i t) as_bool"

definition mark_materialized_call :: "int \<Rightarrow> string \<Rightarrow> unit HandleCall" where
  "mark_materialized_call i t = HandleCall (MarkMaterialized i t) as_unit"

definition invalidate_outgoing_calls_call :: "int \<Rightarrow> unit HandleCall" where
  "invalidate_outgoing_calls_call i = HandleCall (InvalidateOutgoingCalls i) as_unit"

definition known_uris_call :: "(string list) HandleCall" where
  "known_uris_call = HandleCall KnownUris as_uris"

definition count_real_nodes_call :: "string \<Rightarrow> string \<Rightarrow> nat HandleCall" where
  "count_real_nodes_call u m = HandleCall (CountRealNodes u m) as_count"

section \<open>A method is its operation\<close>

lemma serve_nth:
  assumes "t < length cs"
  shows "fst (serve h cs s) ! t = fst (h (cs ! t) (snd (serve h (take t cs) s)))"
  using assms
proof (induction cs arbitrary: s t)
  case (Cons c cs)
  then show ?case by (cases t) (simp_all add: Let_def)
qed simp

text \<open>The result of an operation, as a caller is told it.\<close>

definition told :: "DbError + 'a \<Rightarrow> HandleError + 'a" where
  "told r = (case r of Inl e \<Rightarrow> Inl (StoreError e) | Inr x \<Rightarrow> Inr x)"

lemma told_simps [simp]: "told (Inl e) = Inl (StoreError e)" "told (Inr x) = Inr x"
  by (simp_all add: told_def)

text \<open>
  \<open>op\<close> is what the method stands for: its result and the tables afterwards. The law says that the
  reply to the method's command reads as that result and that the command has that effect.
\<close>

locale handle_method = command_actor handle inv
  for handle :: "DbCommand \<Rightarrow> 's \<Rightarrow> DbReply \<times> 's" and inv :: "'s \<Rightarrow> bool" +
  fixes call :: "'a HandleCall" and op :: "'s \<Rightarrow> (DbError + 'a) \<times> 's"
  assumes reply: "read_reply call (fst (handle (hc_command call) s)) = Some (told (fst (op s)))"
    and effect: "snd (handle (hc_command call) s) = snd (op s)"
begin

lemma linearized:
  assumes "actor_run handle s0 cs a" and "t < length cs" and "cs ! t = hc_command call"
  shows "handle_result call a ended (Some t) =
    (if ac_replies a t = None then if ended then Some (Inl ReplyDropped) else None
     else Some (told (fst (op (snd (serve handle (take t cs) s0))))))"
proof -
  obtain k where k: "k \<le> length cs" and
    r: "\<And>u. ac_replies a u = (if u < k then Some (fst (serve handle (take k cs) s0) ! u) else None)"
    using actor_serial [OF assms(1)] by blast
  have "fst (serve handle (take k cs) s0) ! t = fst (handle (hc_command call) (snd (serve handle (take t cs) s0)))" if "t < k"
    using that k assms(3) serve_nth [of t "take k cs" handle s0] by (simp add: min_def)
  then show ?thesis using r [of t] reply by (simp add: handle_result_def)
qed

end

lemmas method_simps = read_reply_def write_id_def write_unit_def write_outcome_def

text \<open>The twenty methods. A reader leaves the tables as they are, a writer that fails too.\<close>

definition reads :: "(Db \<Rightarrow> 'a) \<Rightarrow> Db \<Rightarrow> (DbError + 'a) \<times> Db" where
  "reads f d = (Inr (f d), d)"

definition writes :: "(Db \<Rightarrow> Db) \<Rightarrow> Db \<Rightarrow> (DbError + unit) \<times> Db" where
  "writes f d = (Inr (), f d)"

definition tries :: "(Db \<Rightarrow> DbError + 'a \<times> Db) \<Rightarrow> Db \<Rightarrow> (DbError + 'a) \<times> Db" where
  "tries f d = (case f d of Inl e \<Rightarrow> (Inl e, d) | Inr (x, d') \<Rightarrow> (Inr x, d'))"

lemmas op_simps = reads_def writes_def tries_def

interpretation upsert_node_m: handle_method "run_command ro H" wf_db "upsert_node_call n" "tries (upsert_node n)" for ro H n
  by unfold_locales (auto simp: upsert_node_call_def method_simps op_simps split: sum.splits)

interpretation get_node_by_fqn_m: handle_method "run_command ro H" wf_db "get_node_by_fqn_call f" "reads (\<lambda>d. get_node_by_fqn d f)" for ro H f
  by unfold_locales (auto simp: get_node_by_fqn_call_def method_simps op_simps split: sum.splits)

interpretation get_node_m: handle_method "run_command ro H" wf_db "get_node_call i" "reads (\<lambda>d. get_node d i)" for ro H i
  by unfold_locales (auto simp: get_node_call_def method_simps op_simps split: sum.splits)

interpretation list_nodes_m: handle_method "run_command ro H" wf_db "list_nodes_call language" "reads (\<lambda>d. list_nodes ro d language)" for ro H language
  by unfold_locales (auto simp: list_nodes_call_def method_simps op_simps split: sum.splits)

interpretation find_node_by_position_m: handle_method "run_command ro H" wf_db "find_node_by_position_call u line col" "reads (\<lambda>d. find_node_by_position ro d u line col)" for ro H u line col
  by unfold_locales (auto simp: find_node_by_position_call_def method_simps op_simps split: sum.splits)

interpretation get_neighbors_m: handle_method "run_command ro H" wf_db "get_neighbors_call i t dir" "reads (\<lambda>d. get_neighbors ro d i t dir)" for ro H i t dir
  by unfold_locales (auto simp: get_neighbors_call_def method_simps op_simps split: sum.splits)

interpretation upsert_edge_m: handle_method "run_command ro H" wf_db "upsert_edge_call e" "tries (upsert_edge e)" for ro H e
  by unfold_locales (auto simp: upsert_edge_call_def method_simps op_simps split: sum.splits)

interpretation set_meta_m: handle_method "run_command ro H" wf_db "set_meta_call k v" "writes (set_meta k v)" for ro H k v
  by unfold_locales (auto simp: set_meta_call_def method_simps op_simps split: sum.splits)

interpretation get_meta_m: handle_method "run_command ro H" wf_db "get_meta_call k" "reads (\<lambda>d. get_meta d k)" for ro H k
  by unfold_locales (auto simp: get_meta_call_def method_simps op_simps split: sum.splits)

interpretation reconcile_file_symbols_m: handle_method "run_command ro H" wf_db "reconcile_file_symbols_call u lang ext syms" "reconcile_file_symbols ro H u lang ext syms" for ro H u lang ext syms
  by unfold_locales (auto simp: reconcile_file_symbols_call_def method_simps op_simps split: sum.splits)

interpretation update_node_construct_m: handle_method "run_command ro H" wf_db "update_node_construct_call i c" "writes (update_node_construct i c)" for ro H i c
  by unfold_locales (auto simp: update_node_construct_call_def method_simps op_simps split: sum.splits)

interpretation update_node_signature_m: handle_method "run_command ro H" wf_db "update_node_signature_call i s" "writes (update_node_signature i s)" for ro H i s
  by unfold_locales (auto simp: update_node_signature_call_def method_simps op_simps split: sum.splits)

interpretation update_node_signature_by_fqn_m: handle_method "run_command ro H" wf_db "update_node_signature_by_fqn_call f s" "writes (update_node_signature_by_fqn f s)" for ro H f s
  by unfold_locales (auto simp: update_node_signature_by_fqn_call_def method_simps op_simps split: sum.splits)

interpretation get_callees_cache_hash_m: handle_method "run_command ro H" wf_db "get_callees_cache_hash_call i" "reads (\<lambda>d. get_callees_cache_hash d i)" for ro H i
  by unfold_locales (auto simp: get_callees_cache_hash_call_def method_simps op_simps split: sum.splits)

interpretation set_callees_cache_hash_m: handle_method "run_command ro H" wf_db "set_callees_cache_hash_call i h" "tries (\<lambda>d. map_sum id (Pair ()) (set_callees_cache_hash i h d))" for ro H i h
  by unfold_locales (auto simp: set_callees_cache_hash_call_def method_simps op_simps split: sum.splits)

interpretation is_materialized_m: handle_method "run_command ro H" wf_db "is_materialized_call i t" "reads (\<lambda>d. is_materialized d i t)" for ro H i t
  by unfold_locales (auto simp: is_materialized_call_def method_simps op_simps split: sum.splits)

interpretation mark_materialized_m: handle_method "run_command ro H" wf_db "mark_materialized_call i t" "tries (\<lambda>d. map_sum id (Pair ()) (mark_materialized i t d))" for ro H i t
  by unfold_locales (auto simp: mark_materialized_call_def method_simps op_simps split: sum.splits)

interpretation invalidate_outgoing_calls_m: handle_method "run_command ro H" wf_db "invalidate_outgoing_calls_call i" "writes (invalidate_outgoing_calls i)" for ro H i
  by unfold_locales (auto simp: invalidate_outgoing_calls_call_def method_simps op_simps split: sum.splits)

interpretation known_uris_m: handle_method "run_command ro H" wf_db "known_uris_call" "reads (known_uris ro)" for ro H
  by unfold_locales (auto simp: known_uris_call_def method_simps op_simps split: sum.splits)

interpretation count_real_nodes_m: handle_method "run_command ro H" wf_db "count_real_nodes_call u m" "reads (\<lambda>d. count_real_nodes d u m)" for ro H u m
  by unfold_locales (auto simp: count_real_nodes_call_def method_simps op_simps split: sum.splits)

section \<open>The metadata table is a register\<close>

text \<open>What a key holds after a sequence of commands, looking only at the writes to it.\<close>

fun last_written :: "string \<Rightarrow> DbCommand list \<Rightarrow> string option \<Rightarrow> string option" where
  "last_written k [] v = v"
| "last_written k (SetMeta k' x # cs) v = last_written k cs (if k' = k then Some x else v)"
| "last_written k (_ # cs) v = last_written k cs v"

lemma command_keeps_meta:
  assumes "\<And>k' x. c = SetMeta k' x \<Longrightarrow> k' \<noteq> k"
  shows "get_meta (snd (run_command ro H c d)) k = get_meta d k"
proof (cases c)
  case (ReconcileFileSymbols u lang ext syms)
  obtain r d' where rec: "reconcile_file_symbols ro H u lang ext syms d = (r, d')" by force
  from reconcile_keeps_meta [OF rec] rec ReconcileFileSymbols show ?thesis
    by (simp add: write_outcome_def get_meta_def)
qed (use assms in \<open>auto simp: get_meta_def set_meta_def write_id_def write_unit_def update_node_construct_def update_node_signature_def
    update_node_signature_by_fqn_def update_where_def invalidate_outgoing_calls_def set_callees_cache_hash_def mark_materialized_def
    dest: node_writes_meta(2,3) split: sum.splits if_splits\<close>)

lemma serve_meta: "get_meta (snd (serve (run_command ro H) cs d)) k = last_written k cs (get_meta d k)"
proof (induction cs arbitrary: d)
  case (Cons c cs)
  have "last_written k (c # cs) (get_meta d k) = last_written k cs (get_meta (snd (run_command ro H c d)) k)"
  proof (cases "\<exists>k' x. c = SetMeta k' x")
    case True
    then show ?thesis by (auto simp: get_meta_def set_meta_def)
  next
    case False
    then show ?thesis using command_keeps_meta [of c k ro H d] by (cases c) auto
  qed
  with Cons show ?case by (simp add: Let_def)
qed simp

text \<open>C7: The metadata table, seen through the handle, is an atomic register per key. However the calls of all
  clients interleave, whatever reconciles and updates run between them, \<open>get_meta\<close> returns what
  the last \<open>set_meta\<close> of that key queued before it wrote, or what the key held at first; a call
  whose command the actor did not live to answer is told so, and one still queued waits.\<close>

theorem metadata_register:
  assumes "actor_run (run_command ro H) d0 cs a" and "t < length cs" and "cs ! t = hc_command (get_meta_call k)"
  shows "handle_result (get_meta_call k) a ended (Some t) =
    (if ac_replies a t = None then if ended then Some (Inl ReplyDropped) else None
     else Some (Inr (last_written k (take t cs) (get_meta d0 k))))"
  using get_meta_m.linearized [OF assms, of ended] by (simp add: reads_def serve_meta)

text \<open>A writer and a reader; the actor serves both.\<close>

theorem metadata_register_witness:
  "\<exists>a. actor_run (run_command table_order const_hasher) empty_db [SetMeta ''k'' ''v'', GetMeta ''k''] a \<and>
     handle_result (get_meta_call ''k'') a False (Some 1) = Some (Inr (Some ''v''))"
proof -
  let ?h = "run_command table_order const_hasher" and ?s = "SetMeta ''k'' ''v''" and ?g = "GetMeta ''k''"
  note s = actor_run.start [of ?h empty_db]
  note q = actor_run.send [OF s, of ?s, simplified channel_capacity_def, simplified]
  note q2 = actor_run.send [OF q, of ?g, simplified channel_capacity_def, simplified]
  note r = actor_run.handle [OF q2, of 0 ?s "[(Suc 0, ?g)]", simplified]
  note r2 = actor_run.handle [OF r, of "Suc 0" ?g "[]", simplified]
  note c = metadata_register [OF r2, where t = 1 and k = "''k''" and ended = False, simplified get_meta_call_def, simplified]
  show ?thesis unfolding get_meta_call_def
    by (intro exI conjI, rule r2) (use c in simp)
qed

end
