(* ===== verification/Lsp_Calls.thy ===== *)
theory Lsp_Calls
  imports Lsp_Client Runner
begin

text \<open>
  The handles of the language-server side: what a caller of \<open>LspClient\<close> (\<open>src/lsp/client.rs\<close>) gets
  from the actor, how a server process is spawned and its end observed (\<open>src/lsp/server.rs\<close>), and
  what the messages to a supervisor are answered (\<open>src/lsp/supervisor.rs\<close>).
\<close>

section \<open>Requests and notifications\<close>

text \<open>\<open>LspClient::spawn\<close>: a fresh actor, and no document open.\<close>

definition spawn_client :: "LspActor \<times> OpenDocs" where
  "spawn_client = (lsp_start, Map.empty)"

definition rpc_error_text :: "RpcError \<Rightarrow> string" where
  "rpc_error_text err = ''lsp rpc error (code '' @ show_i64 (er_code err) @ ''): '' @ er_message err"

text \<open>
  The result of \<open>LspClient::request\<close>, once there is one. Without a ticket the send failed; a command
  that is still queued when the actor stops is dropped with its reply channel.
\<close>

definition request_result :: "LspActor \<Rightarrow> nat option \<Rightarrow> (string + Json) option" where
  "request_result a ticket = (case ticket of
      None \<Rightarrow> Some (Inl ''lsp client closed'')
    | Some t \<Rightarrow> (case la_replies a t of
        Some (Inr v) \<Rightarrow> Some (Inr v)
      | Some (Inl err) \<Rightarrow> Some (Inl (rpc_error_text err))
      | None \<Rightarrow> if la_alive a then None else Some (Inl ''lsp client dropped reply'')))"

text \<open>\<open>LspClient::notify\<close> succeeds as soon as the command is queued.\<close>

definition notify_result :: "bool \<Rightarrow> string + unit" where
  "notify_result sent = (if sent then Inr () else Inl ''lsp client closed'')"

lemma written_new:
  assumes "(Some t, Request i m p) \<in> set (la_written (lsp_step e a))" and "(Some t, Request i m p) \<notin> set (la_written a)"
  shows "e = EvRequest m p t None"
  using assms by (cases "(e, a)" rule: lsp_event.cases)
    (auto simp: lsp_step_def lsp_close_def Let_def resolve_pending_def send_reply_def split: option.splits if_splits)

lemma written_event:
  "(Some t, Request i m p) \<in> set (la_written (lsp_run es)) \<Longrightarrow> EvRequest m p t None \<in> set es"
proof (induction es rule: rev_induct)
  case Nil
  then show ?case by (simp add: lsp_start_def)
next
  case (snoc e es)
  then show ?case using written_new [of t i m p e "lsp_run es"] by auto
qed

lemma one_request:
  assumes "distinct (concat (map lsp_asks es))" and "EvRequest m p t wr \<in> set es" and "EvRequest m' p' t wr' \<in> set es"
  shows "EvRequest m p t wr = EvRequest m' p' t wr'"
  using assms
proof (induction es)
  case (Cons e es)
  have "t \<in> set (concat (map lsp_asks es))" if "EvRequest n q t w \<in> set es" for n q w
    using that by (force simp: image_iff)
  with Cons show ?case by (cases "e = EvRequest m p t wr"; cases "e = EvRequest m' p' t wr'") auto
qed simp

lemma label_refuse: "MRefuse t r \<in> set (lsp_labels e a) \<Longrightarrow> \<exists>m p x. e = EvRequest m p t (Some x)"
  by (cases "(e, a)" rule: lsp_event_labels.cases)
    (auto simp: lsp_labels_def answer_label_def split: option.splits if_splits)

lemma trace_refuse: "MRefuse t r \<in> set (lsp_trace es) \<Longrightarrow> \<exists>m p e. EvRequest m p t (Some e) \<in> set es"
proof (induction es rule: rev_induct)
  case (snoc e es)
  then show ?case using label_refuse [of t r e "lsp_run es"] by (auto simp: lsp_trace_snoc)
qed simp

lemma label_close: "MClose r \<in> set (lsp_labels e a) \<Longrightarrow> \<not> la_alive (lsp_step e a)"
  by (cases "(e, a)" rule: lsp_event_labels.cases)
    (auto simp: lsp_labels_def lsp_step_def lsp_close_def answer_label_def split: option.splits if_splits)

lemma lsp_dead: "\<not> la_alive a \<Longrightarrow> lsp_step e a = a"
  by (simp add: lsp_step_def)

lemma trace_close: "MClose r \<in> set (lsp_trace es) \<Longrightarrow> \<not> la_alive (lsp_run es)"
proof (induction es rule: rev_induct)
  case (snoc e es)
  then show ?case using label_close [of r e "lsp_run es"] lsp_dead [of "lsp_run es" e] by (auto simp: lsp_trace_snoc)
qed simp

text \<open>Where an error comes from.\<close>

lemma error_origin:
  assumes "distinct (concat (map lsp_asks es))" and "la_replies (lsp_run es) t = Some (Inl err)"
  shows "(\<exists>m p e. EvRequest m p t (Some e) \<in> set es) \<or> \<not> la_alive (lsp_run es) \<or>
    (\<exists>i m p. (Some t, Request i m p) \<in> set (la_written (lsp_run es)) \<and> EvInbound (InMessage (ErrorReply i err)) \<in> set es)"
proof -
  have "reply_origin (lsp_trace es) t (Inl err)"
    using lmux.reply_from [OF assms(1), of t "Inl err"] assms(2) by (simp add: lsp_view_def)
  then consider i where "MIssue i t \<in> set (lsp_trace es)" "MAnswer i (Inl err) \<in> set (lsp_trace es)"
    | "MRefuse t (Inl err) \<in> set (lsp_trace es)" | "MClose (Inl err) \<in> set (lsp_trace es)"
    unfolding reply_origin_def by blast
  then show ?thesis
  proof cases
    case 1
    with trace_answer [OF 1(2)] trace_issue [of i t es] show ?thesis by blast
  next
    case 2
    with trace_refuse show ?thesis by blast
  next
    case 3
    with trace_close show ?thesis by blast
  qed
qed

text \<open>C36: A request gets the answer to it, an honest error, or waits for a living server. For a request
  the running actor took, whatever else is sent and arrives: while there is no result the actor is
  alive; a value is the result of a response under the id this very request (its method and
  parameters) was written with, an id no other caller has; and an error says that the request
  could not be written, that the server answered that id with an error, or that the connection
  has ended.\<close>

theorem request_answered:
  assumes "distinct (concat (map lsp_asks (pre @ EvRequest m p t wr # post)))" and "la_alive (lsp_run pre)"
    and "pre @ EvRequest m p t wr # post = es"
  shows "case request_result (lsp_run es) (Some t) of
      None \<Rightarrow> la_alive (lsp_run es)
    | Some (Inr v) \<Rightarrow> \<exists>i. (Some t, Request i m p) \<in> set (la_written (lsp_run es)) \<and> EvInbound (InMessage (Response i v)) \<in> set es \<and>
        (\<forall>u m' p'. (Some u, Request i m' p') \<in> set (la_written (lsp_run es)) \<longrightarrow> u = t)
    | Some (Inl e) \<Rightarrow> wr \<noteq> None \<or> \<not> la_alive (lsp_run es) \<or>
        (\<exists>i err. (Some t, Request i m p) \<in> set (la_written (lsp_run es)) \<and> EvInbound (InMessage (ErrorReply i err)) \<in> set es \<and>
           e = rpc_error_text err)"
proof -
  have d: "distinct (concat (map lsp_asks es))" using assms(1,3) by simp
  have mine: "EvRequest m p t wr \<in> set es" unfolding assms(3) [symmetric] by simp
  have same: "m' = m \<and> p' = p" if "(Some t, Request i m' p') \<in> set (la_written (lsp_run es))" for i m' p'
    using one_request [OF d mine written_event [OF that]] by simp
  have refused: "wr \<noteq> None" if "EvRequest m' p' t (Some e) \<in> set es" for m' p' e
    using one_request [OF d mine that] by simp
  show ?thesis
  proof (cases "la_replies (lsp_run es) t")
    case None
    then show ?thesis by (auto simp: request_result_def)
  next
    case (Some r)
    show ?thesis
    proof (cases r)
      case (Inl err)
      with Some error_origin [OF d, of t err] same refused show ?thesis by (auto simp: request_result_def)
    next
      case (Inr v)
      with Some lsp_replies_paired [OF d, of t v] same show ?thesis by (auto simp: request_result_def)
    qed
  qed
qed

text \<open>Two requests; the answers come in the other order, one of them an error.\<close>

theorem request_answered_witness:
  "request_result (lsp_run [EvRequest ''a'' None 0 None, EvRequest ''b'' None 1 None, EvInbound (InMessage (Response 2 (JStr ''for b''))),
      EvInbound (InMessage (Response 1 (JStr ''for a'')))]) (Some 0) = Some (Inr (JStr ''for a'')) \<and>
   (\<exists>i. (Some 0, Request i ''a'' None) \<in> set (la_written (lsp_run [EvRequest ''a'' None 0 None, EvRequest ''b'' None 1 None,
      EvInbound (InMessage (Response 2 (JStr ''for b''))), EvInbound (InMessage (Response 1 (JStr ''for a'')))])))"
proof -
  let ?post = "[EvRequest ''b'' None 1 None, EvInbound (InMessage (Response 2 (JStr ''for b''))), EvInbound (InMessage (Response 1 (JStr ''for a'')))]"
  let ?es = "[] @ EvRequest ''a'' None 0 None # ?post"
  have r: "request_result (lsp_run ?es) (Some 0) = Some (Inr (JStr ''for a''))"
    by (simp add: request_result_def lsp_step_def lsp_start_def Let_def resolve_pending_def send_reply_def)
  have h: "distinct (concat (map lsp_asks ?es))" "la_alive (lsp_run [])" by (simp_all add: lsp_start_def)
  from request_answered [OF h refl] r show ?thesis by (auto simp del: run_events.simps)
qed

section \<open>Spawning a server\<close>

text \<open>What \<open>ServerProcess::spawn\<close> meets: whether the command starts, its two pipes, its pid.\<close>

record Spawned =
  sw_started :: bool
  sw_stdin :: bool
  sw_stdout :: bool
  sw_pid :: "nat option"

text \<open>The client reads the server's output and writes its input; the exit watch begins unpublished.\<close>

definition spawn_process :: "Spawned \<Rightarrow> string + (LspActor \<times> OpenDocs) \<times> ServerExit option \<times> nat option" where
  "spawn_process sw =
     (if \<not> sw_started sw then Inl ''failed to spawn language server''
      else if \<not> sw_stdin sw then Inl ''server stdin not piped''
      else if \<not> sw_stdout sw then Inl ''server stdout not piped''
      else Inr (spawn_client, None, sw_pid sw))"

text \<open>The exit-watch task: a failed wait counts as a crash.\<close>

definition wait_exit :: "(string + bool \<times> int option) \<Rightarrow> ServerExit option" where
  "wait_exit r = (case r of
      Inl e \<Rightarrow> Some \<lparr>sx_success = False, sx_code = None\<rparr>
    | Inr (success, code) \<Rightarrow> Some \<lparr>sx_success = success, sx_code = code\<rparr>)"

section \<open>Messages to a supervisor\<close>

text \<open>
  The queue of a supervisor, worked off in order; a message that is still queued when the loop ends
  is dropped (\<open>None\<close>), and with it its reply channel.
\<close>

fun serve_mail :: "SupEvent list \<Rightarrow> Supervisor \<Rightarrow> ((AcquireError + nat) option option) list \<times> Supervisor" where
  "serve_mail [] s = ([], s)"
| "serve_mail (m # ms) s =
     (if sv_running s
      then (case sup_event m s of (r, s') \<Rightarrow> (case serve_mail ms s' of (rs, s'') \<Rightarrow> (Some r # rs, s'')))
      else (None # map (\<lambda>_. None) ms, s))"

text \<open>\<open>SupervisorHandle\<close>: what \<open>acquire\<close>, \<open>report_failure\<close> and \<open>shutdown\<close> return.\<close>

definition acquire_reply :: "bool \<Rightarrow> (AcquireError + nat) option option \<Rightarrow> AcquireError + nat" where
  "acquire_reply sent answer =
     (if \<not> sent then Inl (DownError ''supervisor actor closed'')
      else (case answer of Some (Some r) \<Rightarrow> r | _ \<Rightarrow> Inl (DownError ''supervisor dropped reply'')))"

definition report_failure_reply :: "bool \<Rightarrow> (AcquireError + nat) option option \<Rightarrow> string + unit" where
  "report_failure_reply sent answer =
     (if \<not> sent then Inl ''supervisor actor closed''
      else (case answer of Some _ \<Rightarrow> Inr () | None \<Rightarrow> Inl ''supervisor dropped reply''))"

lemma serve_mail_length: "length (fst (serve_mail ms s)) = length ms"
  by (induction ms s rule: serve_mail.induct) (auto split: prod.split)

text \<open>Behind a shutdown nobody gets a client, and everybody gets an answer.\<close>

lemma mail_after_shutdown:
  assumes "sv_running s" and "serve_mail (Shutdown # ms) s = (rs, s')" and "k < length ms"
  shows "acquire_reply True (rs ! Suc k) = Inl (DownError ''supervisor dropped reply'') \<and>
    report_failure_reply True (rs ! Suc k) = Inl ''supervisor dropped reply''"
proof -
  have "serve_mail ms u = (map (\<lambda>_. None) ms, u)" if "\<not> sv_running u" for u using that by (cases ms) simp_all
  then have "rs = Some None # map (\<lambda>_. None) ms" using assms(1,2) by auto
  with assms(3) show ?thesis by (simp add: acquire_reply_def report_failure_reply_def)
qed

text \<open>An acquire alone in the queue is \<open>acquire\<close>.\<close>

lemma mail_acquire:
  "acquire a s = (acquire_reply (sv_running s) (hd (fst (serve_mail [Acquire a] s))), snd (serve_mail [Acquire a] s))"
  by (simp add: acquire_def acquire_reply_def split: prod.split)

end
