(* ===== verification/Daemon_Process.thy ===== *)
theory Daemon_Process
  imports Cli Daemon_Server Daemon_Slot
begin

text \<open>
  The daemon as a whole (\<open>run_daemon\<close> of \<open>src/main.rs\<close>): how it starts, what its parts (accept loop,
  connection handlers, watcher, startup pass, background tasks) do beside each other on one
  runtime, and how it is torn down.
\<close>

section \<open>Files of a root\<close>

definition sock_path :: "string \<Rightarrow> string" where "sock_path cache_dir = path_join cache_dir ''daemon.sock''"
definition lock_path :: "string \<Rightarrow> string" where "lock_path cache_dir = path_join cache_dir ''daemon.lock''"
definition pid_path :: "string \<Rightarrow> string" where "pid_path cache_dir = path_join cache_dir ''daemon.pid''"
definition log_path :: "string \<Rightarrow> string" where "log_path cache_dir = path_join cache_dir ''daemon.log''"

section \<open>The process\<close>

text \<open>
  Where the main task stands: in the accept loop, waiting for the watcher to stop, before and within
  \<open>shutdown_all\<close>, at the removal of the socket, at that of the pid file, gone.
\<close>

datatype Stage = AtLoop | AtWatcher | AtServers | AtStopping | AtSocket | AtPid | AtExit

text \<open>
  The runtime, the store and the disk are the site the watcher works on, which every other part
  shares; \<open>dm_watching\<close> says that the watcher could be started, \<open>dm_drift\<close> that the startup pass
  has not ended, \<open>dm_files\<close> are the files in its directory, \<open>dm_lock\<close> that the lock file is open and
  locked (\<open>_lock\<close> is dropped when the main task returns). \<open>dm_handles\<close> are
  the languages of the handles \<open>shutdown_all\<close> has listed and not come to yet; a handle whose
  supervisor a restart has stopped meanwhile is taken off, since its shutdown does nothing.
\<close>

record Daemon =
  dm_watcher :: Watcher
  dm_watching :: bool
  dm_accept :: AcceptLoop
  dm_drift :: bool
  dm_stage :: Stage
  dm_handles :: "string list"
  dm_files :: "string set"
  dm_lock :: bool

abbreviation dm_site :: "Daemon \<Rightarrow> Site" where
  "dm_site d \<equiv> wt_site (dm_watcher d)"

abbreviation dm_rt :: "Daemon \<Rightarrow> Runtime" where
  "dm_rt d \<equiv> si_rt (dm_site d)"

definition on_site :: "(Site \<Rightarrow> Site) \<Rightarrow> Daemon \<Rightarrow> Daemon" where
  "on_site f d = d\<lparr>dm_watcher := (dm_watcher d)\<lparr>wt_site := f (dm_site d)\<rparr>\<rparr>"

definition on_rt :: "(Runtime \<Rightarrow> Runtime) \<Rightarrow> Daemon \<Rightarrow> Daemon" where
  "on_rt f = on_site (\<lambda>s. s\<lparr>si_rt := f (si_rt s)\<rparr>)"

section \<open>Starting\<close>

text \<open>
  What a start meets: which files exist, which directories can be created, how the connect of the
  probe ends (\<open>None\<close>: not in time), whether the lock file can be opened and what \<open>flock\<close> says (an
  error, or whether it was free), the bind, the write of the pid file, the opening of the database
  and of the watcher, the time, the disk.
\<close>

record BootHost =
  bh_env :: Env
  bh_exists :: "string \<Rightarrow> bool"
  bh_create_dir :: "string \<Rightarrow> bool"
  bh_connect :: "bool option"
  bh_open_lock :: "string \<Rightarrow> bool"
  bh_flock :: "string \<Rightarrow> string + bool"
  bh_bind :: "string \<Rightarrow> bool"
  bh_write_pid :: bool
  bh_open :: "string \<Rightarrow> string + Db"
  bh_watch :: bool
  bh_now :: nat
  bh_disk :: "string \<Rightarrow> string option"

text \<open>\<open>probe_liveness\<close>, with the files it leaves: a socket that refuses the connection is removed.\<close>

definition probe_liveness :: "BootHost \<Rightarrow> string set \<Rightarrow> string \<Rightarrow> Liveness \<times> string set" where
  "probe_liveness bh files cache_dir = (let sock = sock_path cache_dir in
     if sock \<notin> files then (NotRunning, files)
     else (case bh_connect bh of
         Some True \<Rightarrow> (Live, files)
       | Some False \<Rightarrow> (NotRunning, files - {sock})
       | None \<Rightarrow> (NotRunning, files)))"

text \<open>\<open>DaemonLock::try_acquire\<close>: the file is created by the opening and stays.\<close>

definition acquire_lock :: "BootHost \<Rightarrow> string set \<Rightarrow> string \<Rightarrow> (string + bool) \<times> string set" where
  "acquire_lock bh files path =
     (if \<not> bh_open_lock bh path then (Inl ''open'', files) else (bh_flock bh path, insert path files))"

definition fresh_daemon :: "BootHost \<Rightarrow> string set \<Rightarrow> Db \<Rightarrow> Daemon" where
  "fresh_daemon bh files db =
     \<lparr>dm_watcher = (watch_spawn \<lparr>si_rt = open_runtime \<lparr>w_db = db, w_asks = []\<rparr>, si_disk = bh_disk bh, si_requests = [], si_waits = 0\<rparr>)
        \<lparr>wt_running := bh_watch bh\<rparr>,
      dm_watching = bh_watch bh, dm_accept = accept_start (bh_now bh), dm_drift = True, dm_stage = AtLoop, dm_handles = [],
      dm_files = files, dm_lock = True\<rparr>"

text \<open>
  Everything up to the accept loop: an exit code with the files left behind, or the daemon. The
  files of the directory it finds are \<open>files\<close> (what the database library puts beside its own file is
  left out); a socket still there is removed before the bind; errors of the removals and of writing
  the pid file are ignored, and a removal is taken to succeed.
\<close>

definition boot :: "BootHost \<Rightarrow> string set \<Rightarrow> string \<Rightarrow> (ExitCode \<times> string set) + Daemon" where
  "boot bh files root =
     (let cache_dir = resolve_cache_dir (bh_env bh) root; db_path = path_join cache_dir ''graph.db'';
          sock = sock_path cache_dir; pid = pid_path cache_dir
      in if \<not> bh_exists bh db_path then Inl (ExitFailure, files)
         else if \<not> bh_create_dir bh cache_dir then Inl (ExitFailure, files)
         else (case probe_liveness bh files cache_dir of (live, probed) \<Rightarrow>
           if live = Live then Inl (ExitFailure, probed)
           else (case acquire_lock bh probed (lock_path cache_dir) of (got, locked) \<Rightarrow>
             (case got of
                Inl e \<Rightarrow> Inl (ExitFailure, locked)
              | Inr False \<Rightarrow> Inl (ExitFailure, locked)
              | Inr True \<Rightarrow>
                  if \<not> bh_bind bh sock then Inl (ExitFailure, locked - {sock})
                  else let bound = insert sock locked; written = (if bh_write_pid bh then insert pid bound else bound) in
                    (case bh_open bh db_path of
                       Inl e \<Rightarrow> Inl (ExitFailure, written - {sock} - {pid})
                     | Inr db \<Rightarrow> Inr (fresh_daemon bh written db))))))"

text \<open>The two calls of a start that touch files, and the start by its way through them.\<close>

lemma probe_files: "probe_liveness bh files c = (live, probed) \<Longrightarrow> probed \<subseteq> files \<and> files - {sock_path c} \<subseteq> probed"
  by (auto simp: probe_liveness_def Let_def split: if_splits option.splits bool.splits)

lemma acquire_files: "acquire_lock bh files path = (got, locked) \<Longrightarrow> locked \<subseteq> insert path files \<and> files \<subseteq> locked"
  by (auto simp: acquire_lock_def split: if_splits)

lemma acquired: "acquire_lock bh files path = (Inr True, locked) \<Longrightarrow> bh_flock bh path = Inr True \<and> locked = insert path files"
  by (auto simp: acquire_lock_def split: if_splits)

lemma boot_failed:
  assumes "boot bh files root = Inl (code, left)" and "c = resolve_cache_dir (bh_env bh) root"
  shows "code = ExitFailure \<and> left \<subseteq> insert (lock_path c) files \<and> files - {sock_path c, pid_path c} \<subseteq> left"
proof -
  obtain live probed where pr: "probe_liveness bh files c = (live, probed)" by force
  obtain got locked where ac: "acquire_lock bh probed (lock_path c) = (got, locked)" by force
  have "code = ExitFailure \<and> (left = files \<or> left = probed \<or> left = locked \<or> left = locked - {sock_path c} \<or>
      left = insert (sock_path c) locked - {sock_path c} - {pid_path c} \<or>
      left = insert (pid_path c) (insert (sock_path c) locked) - {sock_path c} - {pid_path c})"
    using assms(1) unfolding boot_def Let_def assms(2) [symmetric] pr ac prod.case
    by (simp split: if_split_asm sum.split_asm bool.split_asm)
  with probe_files [OF pr] acquire_files [OF ac] show ?thesis by (elim conjE disjE) blast+
qed

lemma boot_succeeds:
  assumes "boot bh files root = Inr d" and "c = resolve_cache_dir (bh_env bh) root"
  shows "fst (probe_liveness bh files c) = NotRunning \<and> bh_flock bh (lock_path c) = Inr True \<and>
    {sock_path c, lock_path c} \<subseteq> dm_files d \<and> (\<exists>db fs. bh_open bh (path_join c ''graph.db'') = Inr db \<and> d = fresh_daemon bh fs db)"
proof -
  obtain live probed where pr: "probe_liveness bh files c = (live, probed)" by force
  obtain got locked where ac: "acquire_lock bh probed (lock_path c) = (got, locked)" by force
  have "live \<noteq> Live \<and> got = Inr True \<and> (\<exists>db. bh_open bh (path_join c ''graph.db'') = Inr db \<and>
      d = fresh_daemon bh (if bh_write_pid bh then insert (pid_path c) (insert (sock_path c) locked) else insert (sock_path c) locked) db)"
    using assms(1) unfolding boot_def Let_def assms(2) [symmetric] pr ac prod.case
    by (auto split: if_splits sum.splits bool.splits)
  with pr acquired [of bh probed "lock_path c" locked] ac show ?thesis by (cases live) (auto simp: fresh_daemon_def)
qed

section \<open>Running\<close>

text \<open>
  What happens in the process: the accept loop takes a turn or time passes; a handler works on a
  request; a supervisor wakes or a spawned refresh runs; the watcher takes a turn or is notified;
  the startup pass works on a file or ends; a file changes; the main task goes on.
\<close>

datatype ProcEvent =
    PeAccept AcceptEvent
  | PeQuery RtEvent
  | PeBackground RtEvent
  | PeWatcherTurn
  | PeNotice EventKind string
  | PeDrift string
  | PeDriftDone
  | PeEdit "string \<Rightarrow> string option"
  | PeMain

text \<open>What a request makes the runtime do, and what it does by itself.\<close>

fun requested :: "RtEvent \<Rightarrow> bool" where
  "requested (AcquireForWatcher l) = False"
| "requested (WakeSupervisor l e) = False"
| "requested (RefreshRuns k) = False"
| "requested ShutdownAll = False"
| "requested _ = True"

fun spontaneous :: "RtEvent \<Rightarrow> bool" where
  "spontaneous (WakeSupervisor l e) = True"
| "spontaneous (RefreshRuns k) = True"
| "spontaneous _ = False"

text \<open>
  The main task: out of the loop, \<open>watcher.shutdown()\<close>, \<open>shutdown_all()\<close>, which lists the handles
  and then awaits one after the other, the two files.
\<close>

definition stop_one :: "string \<Rightarrow> Runtime \<Rightarrow> Runtime" where
  "stop_one l r = r\<lparr>rt_pool := map (\<lambda>(k, s). (k, if k = l then shutdown s else s)) (rt_pool r)\<rparr>"

definition ask_watcher :: "Watcher \<Rightarrow> Watcher" where
  "ask_watcher w = (if wt_running w then w\<lparr>wt_messages := wt_messages w + 1\<rparr> else w)"

definition main_task :: "string \<Rightarrow> Daemon \<Rightarrow> Daemon" where
  "main_task cache_dir d = (case dm_stage d of
      AtLoop \<Rightarrow> if al_reason (dm_accept d) = None then d
        else if dm_watching d then d\<lparr>dm_stage := AtWatcher, dm_watcher := ask_watcher (dm_watcher d)\<rparr>
        else d\<lparr>dm_stage := AtServers\<rparr>
    | AtWatcher \<Rightarrow> if wt_running (dm_watcher d) then d else d\<lparr>dm_stage := AtServers\<rparr>
    | AtServers \<Rightarrow> d\<lparr>dm_stage := AtStopping, dm_handles := map fst (rt_pool (dm_rt d))\<rparr>
    | AtStopping \<Rightarrow> (case dm_handles d of
        [] \<Rightarrow> d\<lparr>dm_stage := AtSocket\<rparr>
      | l # ls \<Rightarrow> (on_rt (stop_one l) d)\<lparr>dm_handles := ls\<rparr>)
    | AtSocket \<Rightarrow> d\<lparr>dm_stage := AtPid, dm_files := dm_files d - {sock_path cache_dir}\<rparr>
    | AtPid \<Rightarrow> d\<lparr>dm_stage := AtExit, dm_files := dm_files d - {pid_path cache_dir}, dm_lock := False\<rparr>
    | AtExit \<Rightarrow> d)"

text \<open>The constants of one daemon.\<close>

record DaemonSite =
  ds_tracker :: Tracker
  ds_config :: WatchConfig
  ds_timeout :: nat
  ds_cache_dir :: string

abbreviation ds_runtime :: "DaemonSite \<Rightarrow> QueryRuntime" where
  "ds_runtime ds \<equiv> tk_runtime (ds_tracker ds)"

definition accept_event :: "DaemonSite \<Rightarrow> AcceptEvent \<Rightarrow> Daemon \<Rightarrow> Daemon" where
  "accept_event ds e d = d\<lparr>dm_accept := accept_step (ds_timeout ds) e (dm_accept d),
     dm_watcher := (dm_watcher d)\<lparr>wt_clock := wt_clock (dm_watcher d) + (case e of TimePasses n \<Rightarrow> n | _ \<Rightarrow> 0)\<rparr>\<rparr>"

text \<open>A restart stops the supervisors it takes from the pool.\<close>

fun restarted_handles :: "RtEvent \<Rightarrow> string list \<Rightarrow> string list" where
  "restarted_handles (RestartLanguage None) ls = []"
| "restarted_handles (RestartLanguage (Some l)) ls = filter (\<lambda>k. k \<noteq> l) ls"
| "restarted_handles _ ls = ls"

definition serve_request :: "DaemonSite \<Rightarrow> RtEvent \<Rightarrow> Daemon \<Rightarrow> Daemon" where
  "serve_request ds e d = (on_rt (rt_event (ds_runtime ds) e) d)\<lparr>dm_handles := restarted_handles e (dm_handles d)\<rparr>"

fun proc_event :: "DaemonSite \<Rightarrow> ProcEvent \<Rightarrow> Daemon \<Rightarrow> Daemon" where
  "proc_event ds (PeAccept e) d = accept_event ds e d"
| "proc_event ds (PeQuery e) d =
     (if al_open (dm_accept d) \<noteq> {} \<and> requested e then serve_request ds e d else d)"
| "proc_event ds (PeBackground e) d = (if spontaneous e then on_rt (rt_event (ds_runtime ds) e) d else d)"
| "proc_event ds PeWatcherTurn d =
     (if wt_running (dm_watcher d)
      then (case watch_turn (ds_tracker ds) (ds_config ds) (dm_watcher d) of None \<Rightarrow> d | Some w \<Rightarrow> d\<lparr>dm_watcher := w\<rparr>)
      else d)"
| "proc_event ds (PeNotice k p) d =
     (if wt_running (dm_watcher d) \<and> relevant_event k \<and> length (wt_events (dm_watcher d)) < 256
      then d\<lparr>dm_watcher := (dm_watcher d)\<lparr>wt_events := wt_events (dm_watcher d) @ [p]\<rparr>\<rparr> else d)"
| "proc_event ds (PeDrift u) d =
     (if dm_drift d then on_site (\<lambda>s. snd (drift_attempt (ds_tracker ds) (wc_root_uri (ds_config ds)) u s)) d else d)"
| "proc_event ds PeDriftDone d = d\<lparr>dm_drift := False\<rparr>"
| "proc_event ds (PeEdit disk) d = on_site (\<lambda>s. s\<lparr>si_disk := disk\<rparr>) d"
| "proc_event ds PeMain d = main_task (ds_cache_dir ds) d"

text \<open>Once the main task has returned, the process and all its tasks are gone.\<close>

definition proc_step :: "DaemonSite \<Rightarrow> ProcEvent \<Rightarrow> Daemon \<Rightarrow> Daemon" where
  "proc_step ds e d = (if dm_stage d = AtExit then d else proc_event ds e d)"

abbreviation proc_run :: "DaemonSite \<Rightarrow> ProcEvent list \<Rightarrow> Daemon \<Rightarrow> Daemon" where
  "proc_run ds es d \<equiv> run_events (proc_step ds) es d"

section \<open>The invariant of the process\<close>

text \<open>
  Every part is in order, and the stages mean what they say: past the loop there is a reason, past
  the watcher the watcher has stopped; while it is waited for, it has been asked; the lock is held
  until the end.
\<close>

definition past_watcher :: "Stage \<Rightarrow> bool" where
  "past_watcher st \<longleftrightarrow> st \<in> {AtServers, AtStopping, AtSocket, AtPid, AtExit}"

definition proc_inv :: "Daemon \<Rightarrow> bool" where
  "proc_inv d \<longleftrightarrow> watch_inv (dm_watcher d) \<and> accept_inv (dm_accept d) \<and>
     (dm_stage d \<noteq> AtLoop \<longrightarrow> al_reason (dm_accept d) \<noteq> None) \<and>
     (past_watcher (dm_stage d) \<longrightarrow> \<not> wt_running (dm_watcher d)) \<and>
     (\<not> dm_watching d \<longrightarrow> \<not> wt_running (dm_watcher d)) \<and> \<not> wt_handles_dropped (dm_watcher d) \<and>
     (wt_running (dm_watcher d) \<longrightarrow> wt_messages (dm_watcher d) = (if dm_stage d = AtWatcher then 1 else 0)) \<and>
     (dm_lock d \<longleftrightarrow> dm_stage d \<noteq> AtExit)"

lemma past_watcher_simps [simp]:
  "\<not> past_watcher AtLoop" "\<not> past_watcher AtWatcher" "past_watcher AtServers" "past_watcher AtStopping" "past_watcher AtSocket"
  "past_watcher AtPid" "past_watcher AtExit"
  by (simp_all add: past_watcher_def)

lemma on_site_simps [simp]:
  "dm_accept (on_site f d) = dm_accept d" "dm_stage (on_site f d) = dm_stage d" "dm_drift (on_site f d) = dm_drift d"
  "dm_watching (on_site f d) = dm_watching d" "dm_files (on_site f d) = dm_files d" "dm_lock (on_site f d) = dm_lock d" "dm_handles (on_site f d) = dm_handles d" "dm_site (on_site f d) = f (dm_site d)"
  "wt_running (dm_watcher (on_site f d)) = wt_running (dm_watcher d)"
  "wt_messages (dm_watcher (on_site f d)) = wt_messages (dm_watcher d)"
  "wt_handles_dropped (dm_watcher (on_site f d)) = wt_handles_dropped (dm_watcher d)"
  by (simp_all add: on_site_def)

lemma watch_inv_site: "watch_inv w \<Longrightarrow> rt_inv 0 (si_rt s) \<Longrightarrow> watch_inv (w\<lparr>wt_site := s\<rparr>)"
  by (simp add: watch_inv_def)

lemma proc_inv_site: "proc_inv d \<Longrightarrow> rt_inv 0 (si_rt (f (dm_site d))) \<Longrightarrow> proc_inv (on_site f d)"
  unfolding proc_inv_def on_site_simps by (simp add: on_site_def watch_inv_site)

lemma proc_inv_rt: "proc_inv d \<Longrightarrow> rt_inv 0 (f (dm_rt d)) \<Longrightarrow> proc_inv (on_rt f d)"
  unfolding on_rt_def by (rule proc_inv_site) simp_all

lemma proc_rt: "proc_inv d \<Longrightarrow> rt_inv 0 (dm_rt d)"
  by (simp add: proc_inv_def watch_inv_def)

text \<open>Only the turn that answers a shutdown ends the watcher; no turn sends a message.\<close>

lemma on_debounce_keeps [simp]:
  "wt_handles_dropped (on_debounce tk cfg w) = wt_handles_dropped w" "wt_running (on_debounce tk cfg w) = wt_running w"
  "wt_messages (on_debounce tk cfg w) = wt_messages w"
  by (simp_all add: on_debounce_def split: prod.split)

lemma watch_turn_messages:
  assumes "watch_turn tk cfg w = Some w'" and "\<not> wt_handles_dropped w"
  shows "\<not> wt_handles_dropped w' \<and> (if wt_messages w = 0 then wt_running w' = wt_running w \<and> wt_messages w' = 0
    else \<not> wt_running w')"
  using assms by (auto simp: watch_turn_def on_path_def Let_def split: if_splits list.splits option.splits)

definition orderly_site :: "DaemonSite \<Rightarrow> bool" where
  "orderly_site ds \<longleftrightarrow> patient (ds_tracker ds) 0 \<and> plain_languages (tk_env (ds_tracker ds)) \<and> reorders (ds_tracker ds)"

lemma reason_stays: "al_reason s \<noteq> None \<Longrightarrow> al_reason (accept_step timeout e s) = al_reason s"
  using dead_run [of s timeout "[e]"] by simp

lemma proc_inv_handles [simp]: "proc_inv (d\<lparr>dm_handles := ls\<rparr>) = proc_inv d"
  by (simp add: proc_inv_def)

lemma stop_one_inv:
  assumes "rt_inv n r"
  shows "rt_inv n (stop_one l r)"
proof -
  have ok: "pool_ok (rt_pool r)" using assms by (simp add: rt_inv_def)
  let ?pool = "map (\<lambda>(k, s). (k, if k = l then shutdown s else s)) (rt_pool r)"
  have names: "map fst ?pool = map fst (rt_pool r)" by (simp add: case_prod_beta)
  have "sup_inv (shutdown (snd p)) \<and> sv_language (shutdown (snd p)) = fst p" if "p \<in> set (rt_pool r)" for p
    using ok that shutdown_frame [of "snd p"] by (simp add: pool_ok_def)
  then have "pool_ok ?pool" unfolding pool_ok_def names using ok by (simp add: pool_ok_def case_prod_beta)
  with assms show ?thesis by (simp add: rt_inv_def stop_one_def refreshes_ok_def)
qed

text \<open>Coming to the handles one after the other, undisturbed, is \<open>shutdown_all\<close>.\<close>

lemma stop_each: "distinct ls \<Longrightarrow>
    fold stop_one ls r = r\<lparr>rt_pool := map (\<lambda>(k, s). (k, if k \<in> set ls then shutdown s else s)) (rt_pool r)\<rparr>"
proof (induction ls arbitrary: r)
  case Nil
  have "map (\<lambda>(k, s). (k, s)) xs = xs" for xs :: "(string \<times> Supervisor) list" by (induction xs) auto
  then show ?case by (simp add: case_prod_beta)
next
  case (Cons l ls)
  then show ?case by (auto simp: stop_one_def case_prod_beta)
qed

lemma stop_each_is_shutdown_all:
  assumes "distinct (map fst (rt_pool r))"
  shows "fold stop_one (map fst (rt_pool r)) r = shutdown_all r"
  unfolding stop_each [OF assms] shutdown_all_def by (force simp: case_prod_beta)

lemma main_task_inv:
  assumes "proc_inv d"
  shows "proc_inv (main_task cache_dir d)"
proof (cases "dm_stage d")
  case AtStopping
  have "proc_inv (on_rt (stop_one l) d)" for l by (intro proc_inv_rt assms stop_one_inv proc_rt)
  moreover have "proc_inv (d\<lparr>dm_stage := AtSocket\<rparr>)" using assms AtStopping by (auto simp: proc_inv_def)
  ultimately show ?thesis using AtStopping by (simp add: main_task_def split: list.split)
qed (use assms in \<open>auto simp: main_task_def proc_inv_def ask_watcher_def watch_inv_def\<close>)

lemma proc_event_inv:
  assumes "orderly_site ds" and "proc_inv d"
  shows "proc_inv (proc_event ds e d)"
proof -
  have event: "proc_inv (on_rt (rt_event (ds_runtime ds) r) d)" for r
    by (intro proc_inv_rt assms(2) rt_event_inv proc_rt)
  show ?thesis
  proof (cases e)
    case (PeAccept a)
    have w: "watch_inv (w\<lparr>wt_clock := wt_clock w + n\<rparr>)" if "watch_inv w" for w n
      using that by (auto simp: watch_inv_def)
    have "accept_inv (accept_step (ds_timeout ds) a (dm_accept d))"
      using assms(2) accept_step_inv by (simp add: proc_inv_def)
    then show ?thesis using assms(2) reason_stays PeAccept by (simp add: accept_event_def proc_inv_def w)
  next
    case (PeQuery r)
    with event assms(2) show ?thesis by (simp add: serve_request_def)
  next
    case (PeBackground r)
    with event assms(2) show ?thesis by (simp add: serve_request_def)
  next
    case PeWatcherTurn
    show ?thesis
    proof (cases "wt_running (dm_watcher d) \<and> watch_turn (ds_tracker ds) (ds_config ds) (dm_watcher d) \<noteq> None")
      case True
      then obtain w where w: "watch_turn (ds_tracker ds) (ds_config ds) (dm_watcher d) = Some w" by blast
      have "watch_inv w"
        using watch_turn_inv [OF _ _ _ _ w] assms by (simp add: orderly_site_def proc_inv_def)
      then show ?thesis
        using True w assms(2) watch_turn_messages [OF w] PeWatcherTurn by (auto simp: proc_inv_def split: if_splits)
    next
      case False
      with assms(2) PeWatcherTurn show ?thesis by auto
    qed
  next
    case (PeDrift u)
    obtain r s' where run: "drift_attempt (ds_tracker ds) (wc_root_uri (ds_config ds)) u (dm_site d) = (r, s')" by force
    have "rt_inv 0 (si_rt s')"
      using drift_attempt_frame [OF proc_rt [OF assms(2)] _ run] assms(1) by (simp add: orderly_site_def)
    with proc_inv_site [OF assms(2)] run PeDrift assms(2) show ?thesis by simp
  next
    case (PeEdit disk)
    with proc_inv_site [OF assms(2), of "\<lambda>s. s\<lparr>si_disk := disk\<rparr>"] proc_rt [OF assms(2)] show ?thesis by simp
  next
    case PeMain
    with main_task_inv [OF assms(2)] show ?thesis by simp
  qed (use assms(2) in \<open>auto simp: proc_inv_def watch_inv_def\<close>)
qed

lemma proc_run_inv: "orderly_site ds \<Longrightarrow> proc_inv d \<Longrightarrow> proc_inv (proc_run ds es d)"
  by (induction es arbitrary: d) (simp_all add: proc_step_def proc_event_inv)

text \<open>Only a turn of the watcher adds to its history.\<close>

lemma proc_step_truthful:
  assumes "orderly_site ds" and "proc_inv d" and "\<forall>e \<in> set (wt_log (dm_watcher d)). truthful (ds_tracker ds) (wc_root_uri (ds_config ds)) e"
  shows "\<forall>e \<in> set (wt_log (dm_watcher (proc_step ds ev d))). truthful (ds_tracker ds) (wc_root_uri (ds_config ds)) e"
proof (cases ev)
  case PeWatcherTurn
  have "\<forall>e \<in> set (wt_log w). truthful (ds_tracker ds) (wc_root_uri (ds_config ds)) e"
    if "watch_turn (ds_tracker ds) (ds_config ds) (dm_watcher d) = Some w" for w
    using watch_turn_truthful [OF _ _ _ that assms(3)] assms(1,2) by (simp add: orderly_site_def proc_inv_def)
  then show ?thesis using assms(3) PeWatcherTurn by (simp add: proc_step_def del: truthful.simps split: option.split)
next
  case PeMain
  have "wt_log (dm_watcher (main_task c d)) = wt_log (dm_watcher d)" for c
    by (cases "dm_stage d") (simp_all add: main_task_def ask_watcher_def on_rt_def on_site_def split: list.split)
  with assms(3) PeMain show ?thesis by (simp add: proc_step_def del: truthful.simps)
qed (use assms(3) in \<open>simp_all add: proc_step_def accept_event_def serve_request_def on_rt_def on_site_def del: truthful.simps\<close>)

lemma proc_run_truthful:
  assumes "orderly_site ds" and "proc_inv d" and "\<forall>e \<in> set (wt_log (dm_watcher d)). truthful (ds_tracker ds) (wc_root_uri (ds_config ds)) e"
  shows "\<forall>e \<in> set (wt_log (dm_watcher (proc_run ds es d))). truthful (ds_tracker ds) (wc_root_uri (ds_config ds)) e"
  using assms(2,3)
proof (induction es arbitrary: d)
  case (Cons ev es)
  have "proc_inv (proc_step ds ev d)" using proc_run_inv [OF assms(1) Cons.prems(1), of "[ev]"] by simp
  from Cons.IH [OF this proc_step_truthful [OF assms(1) Cons.prems]] show ?case by (simp del: truthful.simps)
qed simp

lemma fresh_daemon_inv:
  assumes "wf_db db"
  shows "proc_inv (fresh_daemon bh files db)"
proof -
  have "rt_inv 0 (open_runtime \<lparr>w_db = db, w_asks = []\<rparr>)" using assms by (intro open_runtime_inv) (simp add: wf_world_def)
  then show ?thesis
    by (simp add: proc_inv_def fresh_daemon_def watch_inv_def watch_spawn_def outstanding_def accept_start_inv)
qed

end
