(* ===== verification/Daemon_Teardown.thy ===== *)
theory Daemon_Teardown
  imports Daemon_Process
begin

text \<open>
  What holds of the daemon as a whole (\<open>run_daemon\<close> of \<open>src/main.rs\<close>): it stays in order while it
  runs, its teardown ends and leaves no language server behind unless a request comes too late.
\<close>

section \<open>Order\<close>

text \<open>C3: A daemon starts cleanly or not at all, and stays in order. A start that fails exits with failure;
  of the files it found it can only have removed the socket and the pid file, and the lock file is
  the only one it can have added. One that succeeds found no live daemon, has the lock to itself
  and its socket and lock file in place, and from then on, however requests, background refreshes,
  supervisors, the watcher, the startup pass, edits, connections and the teardown interleave, the
  store is consistent, there is one good supervisor per language, the idle clock is right, the
  lock is held until the exit, the watcher has pending exactly the files with an edit accepted and no
  reconcile attempted since, and its history is truthful.\<close>

theorem daemon_in_order:
  assumes "orderly_site ds" and "\<forall>path db. bh_open bh path = Inr db \<longrightarrow> wf_db db" and "c = resolve_cache_dir (bh_env bh) root"
  shows "case boot bh files root of
      Inl (code, left) \<Rightarrow> code = ExitFailure \<and> left \<subseteq> insert (lock_path c) files \<and> files - {sock_path c, pid_path c} \<subseteq> left
    | Inr d \<Rightarrow> fst (probe_liveness bh files c) = NotRunning \<and> bh_flock bh (lock_path c) = Inr True \<and>
        {sock_path c, lock_path c} \<subseteq> dm_files d \<and> proc_inv (proc_run ds es d) \<and>
        (\<forall>e \<in> set (wt_log (dm_watcher (proc_run ds es d))). truthful (ds_tracker ds) (wc_root_uri (ds_config ds)) e)"
proof (cases "boot bh files root")
  case (Inl x)
  then show ?thesis using boot_failed [OF _ assms(3)] by (cases x) simp
next
  case (Inr d)
  note b = boot_succeeds [OF Inr assms(3)]
  then obtain db fs where d: "bh_open bh (path_join c ''graph.db'') = Inr db" "d = fresh_daemon bh fs db" by blast
  have inv: "proc_inv d" unfolding d(2) using assms(2) d(1) by (intro fresh_daemon_inv) blast
  have "\<forall>e \<in> set (wt_log (dm_watcher d)). truthful (ds_tracker ds) (wc_root_uri (ds_config ds)) e"
    by (simp add: d(2) fresh_daemon_def watch_spawn_def)
  then show ?thesis
    using Inr b proc_run_inv [OF assms(1) inv] proc_run_truthful [OF assms(1) inv] by (simp del: truthful.simps)
qed

section \<open>The teardown ends\<close>
























section \<open>What the teardown leaves behind\<close>

definition all_reaped :: "Runtime \<Rightarrow> bool" where
  "all_reaped r \<longleftrightarrow> (\<forall>p \<in> set (rt_pool r). reaped (snd p)) \<and> (\<forall>s \<in> set (rt_retired r). reaped s)"

text \<open>All but those still to come.\<close>

definition reaped_but :: "string list \<Rightarrow> Runtime \<Rightarrow> bool" where
  "reaped_but ls r \<longleftrightarrow> (\<forall>p \<in> set (rt_pool r). fst p \<in> set ls \<or> reaped (snd p)) \<and> (\<forall>s \<in> set (rt_retired r). reaped s)"

lemma stop_one_reaps:
  assumes "rt_inv n r" and "reaped_but (l # ls) r"
  shows "reaped_but ls (stop_one l r)"
proof -
  have sh: "reaped (shutdown (snd p))" if "p \<in> set (rt_pool r)" for p
    using assms(1) that shutdown_frame by (simp add: rt_inv_def pool_ok_def)
  have "fst q \<in> set ls \<or> reaped (snd q)" if q: "q \<in> set (rt_pool (stop_one l r))" for q
  proof -
    obtain p where p: "p \<in> set (rt_pool r)" "q = (fst p, if fst p = l then shutdown (snd p) else snd p)"
      using q by (auto simp: stop_one_def)
    with sh [OF p(1)] assms(2) show ?thesis
      by (cases "fst p = l") (auto simp: reaped_but_def)
  qed
  with assms(2) show ?thesis by (simp add: reaped_but_def stop_one_def)
qed

lemma spontaneous_reaps:
  assumes "reaped_but ls r" and "spontaneous e" and "rt_inv n r"
  shows "reaped_but ls (rt_event qr e r)"
proof (cases e)
  case (WakeSupervisor l ev)
  have "l \<in> set ls" if "map_of (rt_pool r) l = Some s" "sv_running s" for s
    using assms(1) map_of_SomeD [OF that(1)] that(2) by (auto simp: reaped_but_def reaped_def)
  moreover have "p \<in> set xs \<or> fst p = l" if "p \<in> set (AList.update l s xs)" for p s and xs :: "(string \<times> Supervisor) list"
    using that by (induction xs) (auto split: if_splits)
  ultimately show ?thesis using assms(1) WakeSupervisor
    by (auto simp: wake_supervisor_def put_supervisor_def reaped_but_def split: option.split) fastforce
next
  case (RefreshRuns k)
  with assms(1) show ?thesis by (simp add: run_refresh_def reaped_but_def)
qed (use assms(2) in simp_all)

text \<open>The main task is past the watcher, and nobody is left to ask for a server.\<close>

definition deserted :: "Daemon \<Rightarrow> bool" where
  "deserted d \<longleftrightarrow> past_watcher (dm_stage d) \<and> al_reason (dm_accept d) \<noteq> None \<and> al_open (dm_accept d) = {} \<and>
     \<not> dm_drift d \<and> \<not> wt_running (dm_watcher d)"

text \<open>Who is not stopped yet is still on the list.\<close>

definition still_stopping :: "Daemon \<Rightarrow> bool" where
  "still_stopping d \<longleftrightarrow> dm_stage d \<noteq> AtServers \<and> (dm_stage d \<noteq> AtStopping \<longrightarrow> dm_handles d = []) \<and>
     reaped_but (dm_handles d) (dm_rt d)"

lemma accept_closes: "al_reason s \<noteq> None \<Longrightarrow> al_open (accept_step timeout e s) \<subseteq> al_open s"
  by (cases "(timeout, e, s)" rule: accept_step.cases) auto

lemma deserted_step:
  assumes "proc_inv d" and "deserted d" and "still_stopping d"
  shows "deserted (proc_step ds e d) \<and> still_stopping (proc_step ds e d)"
proof (cases "dm_stage d = AtExit")
  case True
  with assms show ?thesis by (simp add: proc_step_def)
next
  case False
  show ?thesis
  proof (cases e)
    case (PeAccept a)
    have "al_open (accept_step (ds_timeout ds) a (dm_accept d)) = {}"
      using assms(2) accept_closes [of "dm_accept d" "ds_timeout ds" a] by (simp add: deserted_def)
    with assms False PeAccept reason_stays show ?thesis by (simp add: proc_step_def accept_event_def deserted_def still_stopping_def)
  next
    case (PeBackground r)
    with assms False spontaneous_reaps [OF _ _ proc_rt [OF assms(1)]] show ?thesis
      by (simp add: proc_step_def deserted_def still_stopping_def on_rt_def)
  next
    case PeMain
    with assms False stop_one_reaps [OF proc_rt [OF assms(1)]] show ?thesis
      by (cases "dm_stage d") (auto simp: proc_step_def main_task_def deserted_def still_stopping_def on_rt_def split: list.split)
  qed (use assms False in \<open>auto simp: proc_step_def deserted_def still_stopping_def\<close>)
qed

lemma deserted_run:
  assumes "orderly_site ds" and "proc_inv d" and "deserted d" and "still_stopping d"
  shows "still_stopping (proc_run ds es d)"
  using assms(2-4)
proof (induction es arbitrary: d)
  case (Cons e es)
  have "proc_inv (proc_step ds e d)" using proc_run_inv [OF assms(1) Cons.prems(1), of "[e]"] by simp
  with Cons.IH deserted_step [OF Cons.prems, of ds e] show ?case by simp
qed simp

text \<open>C17: An undisturbed teardown leaves no language server. If no connection is open and the startup pass
  is over when the main task comes to the servers, then at the exit every supervisor the daemon
  ever had is stopped, with each of its processes handed to the shutdown escalation, whatever
  background refreshes, timers and edits came in between.\<close>

theorem quiet_teardown_reaps:
  assumes "orderly_site ds" and "proc_inv d" and "dm_stage d = AtServers" and "al_open (dm_accept d) = {}" and "\<not> dm_drift d"
    and "dm_stage (proc_run ds (PeMain # es) d) = AtExit"
  shows "all_reaped (dm_rt (proc_run ds (PeMain # es) d))"
proof -
  let ?d = "proc_step ds PeMain d"
  have "proc_inv ?d" using proc_run_inv [OF assms(1,2), of "[PeMain]"] by simp
  moreover have "deserted ?d" "still_stopping ?d"
    using assms(2-5) proc_rt [OF assms(2)]
    by (auto simp: proc_step_def main_task_def deserted_def proc_inv_def still_stopping_def reaped_but_def rt_inv_def)
  ultimately have "still_stopping (proc_run ds es ?d)" by (rule deserted_run [OF assms(1)])
  with assms(6) show ?thesis by (auto simp: still_stopping_def reaped_but_def all_reaped_def)
qed

section \<open>A server started too late\<close>

lemma call_path_pool:
  assumes "client_for qr a (r\<lparr>rt_active := rt_active r + 1\<rparr>) = (Inr c, r1)"
  shows "rt_pool (snd (rt_find_call_path qr a b maxd budget r)) = rt_pool r1"
proof (cases c)
  case (Pair client degradation)
  obtain x w where "find_call_path (qr_engine qr) a b maxd budget (wrapper qr client) (rt_world r1) = (x, w)" by force
  then show ?thesis
    using assms Pair by (simp add: rt_find_call_path_def enter_query_def bindQ_def on_world_def returnQ_def split: sum.split)
qed

text \<open>
  A first question about a language takes its server over.
\<close>

lemma first_question:
  assumes "get_node_by_fqn (w_db (rt_world r)) f = Some n" and "map_of (rt_pool r) (n_language n) = None"
    and "at_result (qr_attempt qr (n_language n) (supervisor_for r (n_language n))) = Inr \<lparr>ss_client = c, ss_keep_alive = True\<rparr>"
  shows "\<exists>s. rt_pool (snd (rt_find_call_path qr (Fqn f) b maxd budget r)) = AList.update (n_language n) s (rt_pool r) \<and>
    sv_running s \<and> sv_keepalive s = Some c"
proof -
  let ?r = "r\<lparr>rt_active := rt_active r + 1\<rparr>" and ?l = "n_language n"
  let ?s = "supervisor_for ?r ?l"
  have s: "?s = spawn_supervisor ?l default_real 0" using assms(2) by (simp add: supervisor_for_def)
  obtain q s' where acq: "acquire (qr_attempt qr ?l ?s) ?s = (q, s')" by force
  have s': "sv_running s'" "sv_keepalive s' = Some c"
    using acq assms(2,3) by (auto simp: acquire_def supervisor_for_def spawn_supervisor_def handle_acquire_def
        start_and_settle_def attempt_start_def set_healthy_def record_state_def Let_def)
  have "client_for qr (Fqn f) ?r = (Inr (split_acquired (case q of Inl e \<Rightarrow> Inl (degradation_from e) | Inr c \<Rightarrow> Inr (Some (?l, c)))),
      put_supervisor ?l s' ?r)"
    by (rule client_for_fqn [OF _ acq]) (simp add: assms(1))
  from call_path_pool [OF this] s' show ?thesis by (intro exI [of _ s']) (simp add: put_supervisor_def)
qed

lemma main_turns:
  assumes "dm_stage d = AtStopping" and "l \<notin> set (dm_handles d)"
  shows "dm_stage (proc_run ds (replicate (length (dm_handles d) + 3) PeMain) d) = AtExit \<and>
    map_of (rt_pool (dm_rt (proc_run ds (replicate (length (dm_handles d) + 3) PeMain) d))) l = map_of (rt_pool (dm_rt d)) l"
  using assms
proof (induction "dm_handles d" arbitrary: d)
  case Nil
  then show ?case by (simp add: numeral_3_eq_3 proc_step_def main_task_def flip: Nil.hyps)
next
  case (Cons k ks)
  let ?d = "proc_step ds PeMain d"
  have d: "?d = (on_rt (stop_one k) d)\<lparr>dm_handles := ks\<rparr>"
    using Cons.prems(1) Cons.hyps(2) [symmetric] by (simp add: proc_step_def main_task_def)
  have k: "l \<noteq> k" using Cons.prems(2) Cons.hyps(2) by (metis list.set_intros(1))
  have "map_of (map (\<lambda>(j, s). (j, if j = k then shutdown s else s)) xs) l = map_of xs l" for xs
    using k by (induction xs) auto
  then have p: "map_of (rt_pool (dm_rt ?d)) l = map_of (rt_pool (dm_rt d)) l" by (simp add: d on_rt_def stop_one_def)
  have "ks = dm_handles ?d" "dm_stage ?d = AtStopping" "l \<notin> set (dm_handles ?d)"
    using Cons.prems Cons.hyps(2) [symmetric] by (simp_all add: d on_rt_def)
  note IH = Cons.hyps(1) [OF this]
  have n: "length (dm_handles d) + 3 = Suc (length (dm_handles ?d) + 3)" using Cons.hyps(2) [symmetric] by (simp add: d)
  have "proc_run ds (replicate (length (dm_handles d) + 3) PeMain) d = proc_run ds (replicate (length (dm_handles ?d) + 3) PeMain) ?d"
    unfolding n by (simp only: replicate_Suc run_events.simps)
  with IH p show ?case by (simp only:)
qed

text \<open>C18: A question that comes late starts a server nobody stops. Connections stay open through the
  teardown, and \<open>shutdown_all\<close> lists the supervisors once. If, while it works through its list, a
  connection asks about a symbol of a language that has no supervisor yet, and the server starts,
  the process exits while that server runs: it was never handed to the shutdown escalation, and
  only the death of the runtime kills it.\<close>

theorem late_server_abandoned:
  assumes "dm_stage d = AtStopping" and "al_open (dm_accept d) \<noteq> {}" and "n_language n \<notin> set (dm_handles d)"
    and "get_node_by_fqn (w_db (rt_world (dm_rt d))) f = Some n" and "map_of (rt_pool (dm_rt d)) (n_language n) = None"
    and "at_result (qr_attempt (ds_runtime ds) (n_language n) (supervisor_for (dm_rt d) (n_language n))) =
      Inr \<lparr>ss_client = c, ss_keep_alive = True\<rparr>"
  shows "\<exists>d' s. proc_run ds (PeQuery (FindCallPath (Fqn f) b maxd budget) # replicate (length (dm_handles d) + 3) PeMain) d = d' \<and>
    dm_stage d' = AtExit \<and> map_of (rt_pool (dm_rt d')) (n_language n) = Some s \<and> sv_running s \<and> sv_keepalive s = Some c \<and> \<not> reaped s"
proof -
  let ?q = "FindCallPath (Fqn f) b maxd budget"
  let ?d = "proc_step ds (PeQuery ?q) d"
  have q: "dm_stage ?d = AtStopping" "dm_handles ?d = dm_handles d"
    "dm_rt ?d = snd (rt_find_call_path (ds_runtime ds) (Fqn f) b maxd budget (dm_rt d))"
    using assms(1,2) by (simp_all add: proc_step_def serve_request_def on_rt_def)
  obtain s where "map_of (rt_pool (dm_rt ?d)) (n_language n) = Some s" "sv_running s" "sv_keepalive s = Some c"
    using first_question [OF assms(4-6), of b maxd budget] q(3) by (auto simp: update_conv')
  then show ?thesis using main_turns [of ?d "n_language n" ds] q assms(3) by (simp add: reaped_def)
qed

section \<open>A small daemon\<close>

text \<open>It opens the store of the call-graph example; its watcher starts or does not.\<close>

definition small_ds :: DaemonSite where
  "small_ds = \<lparr>ds_tracker = go_tracker, ds_config = go_config, ds_timeout = 60000, ds_cache_dir = ''/r/.semnav''\<rparr>"

definition small_boot :: "bool \<Rightarrow> BootHost" where
  "small_boot b = \<lparr>bh_env = Map.empty, bh_exists = (\<lambda>_. True), bh_create_dir = (\<lambda>_. True), bh_connect = None,
     bh_open_lock = (\<lambda>_. True), bh_flock = (\<lambda>_. Inr True), bh_bind = (\<lambda>_. True), bh_write_pid = True, bh_open = (\<lambda>_. Inr nested_db), bh_watch = b, bh_now = 0, bh_disk = Map.empty\<rparr>"

definition small_daemon :: "bool \<Rightarrow> Daemon" where
  "small_daemon b = (let c = resolve_cache_dir Map.empty ''/r'' in
     fresh_daemon (small_boot b) {pid_path c, sock_path c, lock_path c} nested_db)"

lemma small_orderly: "orderly_site small_ds"
  using go_laws by (simp add: orderly_site_def small_ds_def)

lemma small_inv: "proc_inv (proc_run small_ds es (small_daemon b))"
  unfolding small_daemon_def Let_def by (intro proc_run_inv small_orderly fresh_daemon_inv nested_db_wf)

text \<open>A question in between a connection and a signal.\<close>

theorem daemon_in_order_witness:
  "proc_inv (proc_run small_ds [PeAccept Connected, PeQuery (FindReferences (Fqn ''m.A'') default_filter default_page),
     PeAccept SignalSeen, PeMain, PeWatcherTurn] (small_daemon True))"
proof -
  have "boot (small_boot True) {} ''/r'' = Inr (small_daemon True)"
    by (simp add: boot_def small_daemon_def Let_def probe_liveness_def acquire_lock_def) (simp add: small_boot_def)
  moreover have "\<forall>path db. bh_open (small_boot True) path = Inr db \<longrightarrow> wf_db db" by (simp add: small_boot_def nested_db_wf)
  note daemon_in_order [OF small_orderly this refl, of "''/r''" "{}"
    "[PeAccept Connected, PeQuery (FindReferences (Fqn ''m.A'') default_filter default_page), PeAccept SignalSeen, PeMain, PeWatcherTurn]"]
  ultimately show ?thesis by (simp del: run_events.simps)
qed


text \<open>A question starts a server, the connection ends, a signal comes.\<close>

definition asked_once :: "ProcEvent list" where
  "asked_once = [PeAccept Connected, PeQuery (FindCallPath (Fqn ''m.A'') (Fqn ''m.A'') 1 1), PeAccept (HandlerDone 0), PeDriftDone,
     PeAccept SignalSeen, PeMain]"

lemma small_steps:
  "dm_rt (small_daemon b) = open_runtime nested_world" "dm_stage (small_daemon b) = AtLoop" "dm_watching (small_daemon b) = b"
  "dm_accept (small_daemon b) = accept_start 0" "dm_handles (small_daemon b) = []"
  by (simp_all add: small_daemon_def Let_def fresh_daemon_def watch_spawn_def small_boot_def nested_world_def)

lemma nested_row: "get_node_by_fqn (w_db (rt_world (open_runtime nested_world))) ''m.A'' = Some (db_nodes nested_db ! 0)"
  by (simp add: open_runtime_def nested_world_def nested_db_def get_node_by_fqn_def row_at_def)

lemma first_server:
  "\<exists>s. rt_pool (snd (rt_find_call_path small_runtime (Fqn ''m.A'') b 1 1 (open_runtime nested_world))) = [(n_language (db_nodes nested_db ! 0), s)] \<and>
     sv_running s \<and> sv_keepalive s = Some 7"
  using first_question [OF nested_row, of small_runtime 7 b 1 1] by (simp add: open_runtime_def attempt_ok_def)

lemma small_ds_simps [simp]: "ds_runtime small_ds = small_runtime" "ds_timeout small_ds = 60000"
  by (simp_all add: small_ds_def go_tracker_def)

theorem quiet_teardown_reaps_witness:
  "\<exists>d. dm_stage d = AtExit \<and> length (rt_pool (dm_rt d)) = 1 \<and> all_reaped (dm_rt d)"
proof -
  let ?d = "proc_run small_ds asked_once (small_daemon False)"
  have d: "dm_stage ?d = AtServers" "al_open (dm_accept ?d) = {}" "\<not> dm_drift ?d"
    "dm_rt ?d = snd (rt_find_call_path small_runtime (Fqn ''m.A'') (Fqn ''m.A'') 1 1 (open_runtime nested_world))"
    by (simp_all add: asked_once_def proc_step_def serve_request_def on_rt_def small_steps accept_event_def main_task_def
        accept_start_def accept_defs)
  obtain s where pool: "rt_pool (dm_rt ?d) = [(n_language (db_nodes nested_db ! 0), s)]" using first_server d(4) by metis
  let ?e = "proc_run small_ds (PeMain # replicate 4 PeMain) ?d"
  have e: "dm_stage ?e = AtExit" "length (rt_pool (dm_rt ?e)) = 1"
    using d(1) pool by (simp_all add: numeral_eq_Suc proc_step_def main_task_def on_rt_def stop_one_def)
  from quiet_teardown_reaps [OF small_orderly small_inv d(1-3) e(1)] e show ?thesis by blast
qed

theorem late_server_abandoned_witness:
  "\<exists>s. dm_stage (proc_run small_ds ([PeAccept Connected, PeAccept SignalSeen, PeMain, PeMain,
       PeQuery (FindCallPath (Fqn ''m.A'') (Fqn ''m.A'') 1 1)] @ replicate 3 PeMain) (small_daemon False)) = AtExit \<and>
     map_of (rt_pool (dm_rt (proc_run small_ds ([PeAccept Connected, PeAccept SignalSeen, PeMain, PeMain,
       PeQuery (FindCallPath (Fqn ''m.A'') (Fqn ''m.A'') 1 1)] @ replicate 3 PeMain) (small_daemon False)))) ''python'' = Some s \<and>
     sv_running s \<and> sv_keepalive s = Some 7 \<and> \<not> reaped s"
proof -
  let ?d = "proc_run small_ds [PeAccept Connected, PeAccept SignalSeen, PeMain, PeMain] (small_daemon False)"
  let ?n = "db_nodes nested_db ! 0"
  have d: "dm_stage ?d = AtStopping" "al_open (dm_accept ?d) \<noteq> {}" "dm_handles ?d = []" "dm_rt ?d = open_runtime nested_world"
    by (simp_all add: proc_step_def small_steps accept_event_def main_task_def accept_start_def accept_defs open_runtime_def)
  have h: "n_language ?n \<notin> set (dm_handles ?d)" "map_of (rt_pool (dm_rt ?d)) (n_language ?n) = None"
    "at_result (qr_attempt (ds_runtime small_ds) (n_language ?n) (supervisor_for (dm_rt ?d) (n_language ?n))) = Inr \<lparr>ss_client = 7, ss_keep_alive = True\<rparr>"
    "get_node_by_fqn (w_db (rt_world (dm_rt ?d))) ''m.A'' = Some ?n" "n_language ?n = ''python''"
    using d(3,4) nested_row by (simp_all add: open_runtime_def attempt_ok_def nested_db_def row_at_def)
  from late_server_abandoned [OF d(1,2) h(1,4,2,3), of "Fqn ''m.A''" 1 1] show ?thesis
    unfolding h(5) d(3) by (simp only: run_events_append append.simps list.size run_events.simps) auto
qed

end
