(* ===== verification/Daemon_Refinement.thy ===== *)
theory Daemon_Refinement
  imports Daemon_Teardown Daemon_Slot_Props
begin

text \<open>
  The daemon in all its detail (\<open>run_daemon\<close> of \<open>src/main.rs\<close>, from its start to its exit) beside the
  other processes of the machine: what it does to the socket, the lock and the processes around it
  is what the protocol of the slot says one daemon does.
\<close>

section \<open>The machine\<close>

text \<open>What the other processes see of a daemon that has started.\<close>

definition stage_phase :: "Daemon \<Rightarrow> Phase" where
  "stage_phase d = (case dm_stage d of
      AtLoop \<Rightarrow> if al_reason (dm_accept d) = None then Serving else TearingDown
    | AtPid \<Rightarrow> Releasing
    | AtExit \<Rightarrow> Gone True
    | _ \<Rightarrow> TearingDown)"

text \<open>
  The machine: who bound the socket and holds the lock, what the other processes do, and one daemon.
  An event of the daemon is its step, with the effects that step has: the socket is gone when it
  has left the directory, the lock is free when the file that held it is closed. A turn of another
  process may remove the socket from the directory the daemon works in, or put one there.
\<close>

type_synonym Machine = "Slot \<times> Daemon"

definition sync_dir :: "string \<Rightarrow> Slot \<Rightarrow> Daemon \<Rightarrow> Daemon" where
  "sync_dir c s d = d\<lparr>dm_files := if sl_sock s = None then dm_files d - {sock_path c} else insert (sock_path c) (dm_files d)\<rparr>"

definition own_event :: "DaemonSite \<Rightarrow> nat \<Rightarrow> ProcEvent \<Rightarrow> Machine \<Rightarrow> Machine" where
  "own_event ds p e m = (case m of (s, d) \<Rightarrow> let d' = proc_step ds e d; sock = sock_path (ds_cache_dir ds) in
     (s\<lparr>sl_sock := if sock \<notin> dm_files d' then None else if sock \<in> dm_files d then sl_sock s else Some p,
        sl_lock := if dm_lock d \<and> \<not> dm_lock d' then None else sl_lock s,
        sl_phase := (sl_phase s)(p := stage_phase d')\<rparr>, d'))"

definition other_turn :: "DaemonSite \<Rightarrow> nat \<times> Luck \<Rightarrow> Machine \<Rightarrow> Machine" where
  "other_turn ds t m = (case m of (s, d) \<Rightarrow> let s' = slot_turn t s in (s', sync_dir (ds_cache_dir ds) s' d))"

definition machine_step :: "DaemonSite \<Rightarrow> nat \<Rightarrow> ProcEvent + nat \<times> Luck \<Rightarrow> Machine \<Rightarrow> Machine" where
  "machine_step ds p ev m = (case ev of Inl e \<Rightarrow> own_event ds p e m | Inr t \<Rightarrow> other_turn ds t m)"

abbreviation machine_run :: "DaemonSite \<Rightarrow> nat \<Rightarrow> (ProcEvent + nat \<times> Luck) list \<Rightarrow> Machine \<Rightarrow> Machine" where
  "machine_run ds p evs m \<equiv> run_events (machine_step ds p) evs m"

text \<open>
  The turns of the protocol this amounts to: those of the others as they are, and one of the daemon
  each time an event of its own shows.
\<close>

definition own_turns :: "nat \<Rightarrow> Phase \<Rightarrow> Phase \<Rightarrow> (nat \<times> Luck) list" where
  "own_turns p before after = (if after = before then [] else [(p, if before = Serving then Leave else Usual)])"

fun slot_turns :: "DaemonSite \<Rightarrow> nat \<Rightarrow> (ProcEvent + nat \<times> Luck) list \<Rightarrow> Machine \<Rightarrow> (nat \<times> Luck) list" where
  "slot_turns ds p [] m = []"
| "slot_turns ds p (Inr t # evs) m = t # slot_turns ds p evs (other_turn ds t m)"
| "slot_turns ds p (Inl e # evs) m = (let m' = own_event ds p e m in
     own_turns p (stage_phase (snd m)) (stage_phase (snd m')) @ slot_turns ds p evs m')"

definition coupled :: "DaemonSite \<Rightarrow> nat \<Rightarrow> Machine \<Rightarrow> bool" where
  "coupled ds p m \<longleftrightarrow> (case m of (s, d) \<Rightarrow> proc_inv d \<and> slot_inv s \<and> sl_phase s p = stage_phase d \<and>
     (sock_path (ds_cache_dir ds) \<in> dm_files d \<longleftrightarrow> sl_sock s \<noteq> None))"

section \<open>Running\<close>

lemma paths_differ [simp]: "sock_path c \<noteq> pid_path c" "sock_path c \<noteq> lock_path c" "lock_path c \<noteq> pid_path c"
  by (simp_all add: sock_path_def pid_path_def lock_path_def path_join_def)

text \<open>Only the accept loop and the main task show.\<close>

lemma other_event:
  assumes "\<forall>a. e \<noteq> PeAccept a" and "e \<noteq> PeMain"
  shows "dm_stage (proc_step ds e d) = dm_stage d \<and> dm_accept (proc_step ds e d) = dm_accept d \<and>
    dm_files (proc_step ds e d) = dm_files d \<and> dm_lock (proc_step ds e d) = dm_lock d"
  using assms by (cases e) (auto simp: proc_step_def on_rt_def serve_request_def split: option.split)

text \<open>An event of the daemon shows in one of these ways.\<close>

lemma proc_moves:
  assumes "proc_inv d" and "proc_step ds e d = d'"
  obtains (unseen) "stage_phase d' = stage_phase d" "dm_files d' = dm_files d" "dm_lock d' = dm_lock d"
    | (leaves) "stage_phase d = Serving" "stage_phase d' = TearingDown" "dm_files d' = dm_files d" "dm_lock d' = dm_lock d"
    | (unlinks) "stage_phase d = TearingDown" "stage_phase d' = Releasing" "dm_files d' = dm_files d - {sock_path (ds_cache_dir ds)}"
        "dm_lock d' = dm_lock d"
    | (exits) "stage_phase d = Releasing" "stage_phase d' = Gone True" "dm_files d' = dm_files d - {pid_path (ds_cache_dir ds)}"
        "dm_lock d" "\<not> dm_lock d'"
proof -
  consider (PeAccept) a where "e = PeAccept a" | (PeMain) "e = PeMain" | (other) "\<forall>a. e \<noteq> PeAccept a" "e \<noteq> PeMain" by blast
  then show ?thesis
  proof cases
    case PeAccept
    have d': "d' = (if dm_stage d = AtExit then d else accept_event ds a d)"
      unfolding assms(2) [symmetric] PeAccept by (simp add: proc_step_def)
    have keeps: "dm_files d' = dm_files d" "dm_lock d' = dm_lock d" "dm_stage d' = dm_stage d"
      by (simp_all add: d' accept_event_def)
    show ?thesis
    proof (cases "dm_stage d = AtLoop \<and> al_reason (dm_accept d) = None")
      case True
      then have "stage_phase d = Serving" "stage_phase d' = Serving \<or> stage_phase d' = TearingDown"
        using keeps(3) by (simp_all add: stage_phase_def)
      with keeps(1,2) that(1,2) show ?thesis by metis
    next
      case False
      have "al_reason (dm_accept d) \<noteq> None" if "dm_stage d \<noteq> AtLoop" using assms(1) that by (simp add: proc_inv_def)
      then have "al_reason (dm_accept d') = al_reason (dm_accept d) \<and> al_reason (dm_accept d) \<noteq> None"
        using False reason_stays [of "dm_accept d" "ds_timeout ds" a] by (auto simp: d' accept_event_def)
      then have "stage_phase d' = stage_phase d" using keeps(3) by (cases "dm_stage d") (simp_all add: stage_phase_def)
      with keeps(1,2) that(1) show ?thesis by simp
    qed
  next
    case PeMain
    show ?thesis
    proof (cases "dm_stage d")
      case AtPid
      then show ?thesis using assms PeMain that(4) by (auto simp: stage_phase_def proc_step_def main_task_def proc_inv_def)
    next
      case AtSocket
      then show ?thesis using assms PeMain that(3) by (auto simp: stage_phase_def proc_step_def main_task_def)
    qed (use assms PeMain that(1) in
        \<open>auto simp: stage_phase_def proc_step_def main_task_def proc_inv_def on_rt_def split: list.splits if_splits\<close>)
  next
    case other
    then have eqs: "dm_stage d' = dm_stage d" "dm_accept d' = dm_accept d" "dm_files d' = dm_files d" "dm_lock d' = dm_lock d"
      using other_event [OF other, of ds d] assms(2) by simp_all
    then have "stage_phase d' = stage_phase d" by (simp only: stage_phase_def)
    with eqs that(1) show ?thesis by blast
  qed
qed

lemma own_matched:
  assumes "orderly_site ds" and "coupled ds p (s, d)" and "own_event ds p e (s, d) = (s', d')"
  shows "s' = slot_run (own_turns p (stage_phase d) (stage_phase d')) s \<and> coupled ds p (s', d')"
proof -
  have d': "proc_step ds e d = d'" using assms(3) by (simp add: own_event_def Let_def)
  have c: "proc_inv d" "slot_inv s" "sl_phase s p = stage_phase d" "sock_path (ds_cache_dir ds) \<in> dm_files d \<longleftrightarrow> sl_sock s \<noteq> None"
    using assms(2) by (simp_all add: coupled_def)
  have s': "s' = s\<lparr>sl_sock := if sock_path (ds_cache_dir ds) \<notin> dm_files d' then None
        else if sock_path (ds_cache_dir ds) \<in> dm_files d then sl_sock s else Some p,
      sl_lock := if dm_lock d \<and> \<not> dm_lock d' then None else sl_lock s, sl_phase := (sl_phase s)(p := stage_phase d')\<rparr>"
    using assms(3) d' by (simp add: own_event_def Let_def)
  have same: "s\<lparr>sl_sock := sl_sock s, sl_lock := sl_lock s\<rparr> = s" by simp
  have run: "s' = slot_run (own_turns p (stage_phase d) (stage_phase d')) s"
    using c(1) d'
  proof (cases rule: proc_moves)
    case unseen
    then show ?thesis using c(3,4) s' by (cases s) (auto simp: own_turns_def fun_upd_idem_iff)
  next
    case leaves
    then show ?thesis using c(3,4) s' by (cases s) (auto simp: own_turns_def slot_turn.simps put_def)
  next
    case unlinks
    then show ?thesis using c(3,4) s' by (cases s) (auto simp: own_turns_def slot_turn.simps put_def remove_sock_def)
  next
    case exits
    then have "sl_lock s = Some p" using c(2,3) unfolding slot_inv_def by (metis holds_lock_simps(7))
    with exits show ?thesis using c(3,4) s' by (cases s) (auto simp: own_turns_def slot_turn.simps slot_defs)
  qed
  have "proc_inv d'" using proc_run_inv [OF assms(1) c(1), of "[e]"] d' by simp
  moreover have "slot_inv s'" unfolding run by (rule slot_run_inv [OF c(2)])
  moreover have "sl_phase s' p = stage_phase d'" "sock_path (ds_cache_dir ds) \<in> dm_files d' \<longleftrightarrow> sl_sock s' \<noteq> None"
    using c(4) by (auto simp: s')
  ultimately show ?thesis using run by (simp add: coupled_def)
qed

lemma stage_present [simp]: "stage_phase d \<noteq> Absent" "holds_lock (stage_phase d) \<longleftrightarrow> dm_stage d \<noteq> AtExit"
  by (cases "dm_stage d"; simp add: stage_phase_def)+

lemma sync_dir_simps [simp]: "proc_inv (sync_dir c s d) = proc_inv d"
  "sock_path c \<in> dm_files (sync_dir c s d) \<longleftrightarrow> sl_sock s \<noteq> None" "dm_lock (sync_dir c s d) = dm_lock d"
  by (simp_all add: sync_dir_def proc_inv_def)

lemma sync_dir_phase [simp]: "stage_phase (sync_dir c s d) = stage_phase d"
  by (cases "dm_stage d") (simp_all add: sync_dir_def stage_phase_def)

lemma other_coupled:
  assumes "coupled ds p (s, d)" and "fst t \<noteq> p"
  shows "coupled ds p (other_turn ds t (s, d))"
proof -
  obtain q luck where t: "t = (q, luck)" by (cases t)
  with assms have "sl_phase (slot_turn t s) p = stage_phase d" "slot_inv (slot_turn t s)"
    using slot_turn_other [of p q s luck] slot_turn_inv [of s q luck] by (auto simp: coupled_def)
  with assms(1) show ?thesis by (simp add: coupled_def other_turn_def Let_def)
qed

lemma machine_matched:
  assumes "orderly_site ds" and "coupled ds p m" and "\<forall>t. Inr t \<in> set evs \<longrightarrow> fst t \<noteq> p"
  shows "fst (machine_run ds p evs m) = slot_run (slot_turns ds p evs m) (fst m) \<and> coupled ds p (machine_run ds p evs m)"
  using assms(2,3)
proof (induction evs arbitrary: m)
  case (Cons ev evs)
  obtain s d where m: "m = (s, d)" by (cases m)
  show ?case
  proof (cases ev)
    case (Inl e)
    obtain s' d' where own: "own_event ds p e (s, d) = (s', d')" by force
    note step = own_matched [OF assms(1) Cons.prems(1) [unfolded m] own]
    have rest: "coupled ds p (s', d')" "\<forall>t. Inr t \<in> set evs \<longrightarrow> fst t \<noteq> p" using step Cons.prems(2) by auto
    have "fst (machine_run ds p evs (s', d')) = slot_run (slot_turns ds p evs (s', d')) s' \<and>
        coupled ds p (machine_run ds p evs (s', d'))"
      using Cons.IH [OF rest] unfolding fst_conv .
    moreover have "machine_run ds p (ev # evs) m = machine_run ds p evs (s', d')"
      by (simp add: m Inl own machine_step_def)
    moreover have "slot_run (slot_turns ds p (ev # evs) m) (fst m) = slot_run (slot_turns ds p evs (s', d')) s'"
      using step by (simp add: m Inl own Let_def run_events_append)
    ultimately show ?thesis by (simp only:)
  next
    case (Inr t)
    have "fst t \<noteq> p" using Cons.prems(2) unfolding Inr by (metis list.set_intros(1))
    with Cons.prems(1) m have "coupled ds p (other_turn ds t (s, d))" by (intro other_coupled) simp_all
    moreover have "fst (other_turn ds t (s, d)) = slot_turn t s" by (simp add: other_turn_def Let_def)
    ultimately show ?thesis using Cons.IH Cons.prems(2) by (simp add: m Inr machine_step_def)
  qed
qed simp

section \<open>Starting\<close>

text \<open>
  What a start meets is decided by the turns at which it looks: whether there is a socket and how its
  connect ends, whether the lock is free, whether the bind and the opening of the database go well.
\<close>

definition saw :: "BootHost \<Rightarrow> string set \<Rightarrow> string \<Rightarrow> nat \<Rightarrow> Luck \<Rightarrow> Slot \<Rightarrow> bool" where
  "saw bh files c p luck s = (case sl_phase s p of
      Looking q \<Rightarrow> sock_path c \<in> files \<longleftrightarrow> sl_sock s \<noteq> None
    | Connecting q \<Rightarrow> bh_connect bh =
        (if \<not> connectable s \<or> luck = Failing then Some False else if luck = Slow then None else Some True)
    | Answered q l \<Rightarrow> l = NotRunning \<longrightarrow> bh_open_lock bh (lock_path c) \<and> bh_flock bh (lock_path c) = Inr (sl_lock s = None)
    | Binding \<Rightarrow> bh_bind bh (sock_path c) \<longleftrightarrow> sl_sock s = None \<and> luck \<noteq> Failing
    | Starting \<Rightarrow> (\<exists>e. bh_open bh (path_join c ''graph.db'') = Inl e) \<longleftrightarrow> luck = Failing
    | _ \<Rightarrow> True)"

fun observed :: "BootHost \<Rightarrow> string set \<Rightarrow> string \<Rightarrow> nat \<Rightarrow> (nat \<times> Luck) list \<Rightarrow> Slot \<Rightarrow> bool" where
  "observed bh files c p [] s = True"
| "observed bh files c p (t # ts) s = ((fst t = p \<longrightarrow> saw bh files c p (snd t) s) \<and> observed bh files c p ts (slot_turn t s))"

text \<open>The process starts as a daemon and is not killed.\<close>

definition starts_daemon :: "nat \<Rightarrow> nat \<times> Luck \<Rightarrow> bool" where
  "starts_daemon p t \<longleftrightarrow> (fst t = p \<longrightarrow> snd t \<noteq> Crash \<and> (\<forall>c. snd t = Begin c \<longrightarrow> c = ForDaemon))"

text \<open>How far the start is when the process is in a phase.\<close>

definition boot_at :: "BootHost \<Rightarrow> string set \<Rightarrow> string \<Rightarrow> Phase \<Rightarrow> bool" where
  "boot_at bh files root ph = (let c = resolve_cache_dir (bh_env bh) root; live = fst (probe_liveness bh files c);
       got = (live = NotRunning \<and> bh_open_lock bh (lock_path c) \<and> bh_flock bh (lock_path c) = Inr True);
       bound = (got \<and> bh_bind bh (sock_path c)) in
     (case ph of
        Absent \<Rightarrow> True
      | Looking q \<Rightarrow> q = ForDaemon
      | Connecting q \<Rightarrow> q = ForDaemon \<and> sock_path c \<in> files
      | Removing q \<Rightarrow> q = ForDaemon \<and> live = NotRunning
      | Answered q l \<Rightarrow> q = ForDaemon \<and> live = l
      | Unlinking \<Rightarrow> got
      | Binding \<Rightarrow> got
      | Starting \<Rightarrow> bound
      | Failed \<Rightarrow> bound \<and> (\<exists>e. bh_open bh (path_join c ''graph.db'') = Inl e)
      | Serving \<Rightarrow> (\<exists>d. boot bh files root = Inr d)
      | TearingDown \<Rightarrow> True
      | Releasing \<Rightarrow> True
      | Gone code \<Rightarrow> code \<or> (\<exists>left. boot bh files root = Inl (ExitFailure, left))
      | _ \<Rightarrow> False))"

lemma boot_ends:
  assumes "c = resolve_cache_dir (bh_env bh) root" and "bh_exists bh (path_join c ''graph.db'')" and "bh_create_dir bh c"
  shows "fst (probe_liveness bh files c) = Live \<Longrightarrow> \<exists>left. boot bh files root = Inl (ExitFailure, left)"
    and "fst (probe_liveness bh files c) = NotRunning \<Longrightarrow> bh_open_lock bh (lock_path c) \<Longrightarrow> bh_flock bh (lock_path c) = Inr False \<Longrightarrow>
      \<exists>left. boot bh files root = Inl (ExitFailure, left)"
    and "fst (probe_liveness bh files c) = NotRunning \<Longrightarrow> bh_open_lock bh (lock_path c) \<Longrightarrow> bh_flock bh (lock_path c) = Inr True \<Longrightarrow>
      \<not> bh_bind bh (sock_path c) \<or> (\<exists>e. bh_open bh (path_join c ''graph.db'') = Inl e) \<Longrightarrow> \<exists>left. boot bh files root = Inl (ExitFailure, left)"
    and "fst (probe_liveness bh files c) = NotRunning \<Longrightarrow> bh_open_lock bh (lock_path c) \<Longrightarrow> bh_flock bh (lock_path c) = Inr True \<Longrightarrow>
      bh_bind bh (sock_path c) \<Longrightarrow> \<nexists>e. bh_open bh (path_join c ''graph.db'') = Inl e \<Longrightarrow> \<exists>d. boot bh files root = Inr d"
  using assms(2,3) unfolding boot_def Let_def assms(1) [symmetric]
  by (auto simp: acquire_lock_def split: prod.splits sum.splits)

lemma boot_step:
  assumes "c = resolve_cache_dir (bh_env bh) root" and "bh_exists bh (path_join c ''graph.db'')" and "bh_create_dir bh c"
    and "boot_at bh files root (sl_phase s p)" and "saw bh files c p luck s" and "starts_daemon p (p, luck)"
  shows "boot_at bh files root (sl_phase (slot_turn (p, luck) s) p)"
proof -
  note ends = boot_ends [OF assms(1-3), of files]
  note facts = assms(4-6) [unfolded boot_at_def saw_def starts_daemon_def Let_def assms(1) [symmetric]]
  show ?thesis
  proof (cases "sl_phase s p")
    case (Answered q l)
    with facts ends show ?thesis
      by (cases l) (auto simp: boot_at_def Let_def assms(1) [symmetric] slot_turn.simps slot_defs)
  next
    case (Connecting q)
    with facts show ?thesis
      by (auto simp: boot_at_def Let_def assms(1) [symmetric] slot_turn.simps slot_defs probe_liveness_def)
  next
    case (Looking q)
    with facts show ?thesis
      by (auto simp: boot_at_def Let_def assms(1) [symmetric] slot_turn.simps slot_defs probe_liveness_def)
  next
    case Absent
    with facts show ?thesis
      by (auto simp: boot_at_def Let_def slot_turn.simps put_def begins_def split: Luck.split)
  next
    case Binding
    with facts ends(3) show ?thesis
      by (auto simp: boot_at_def Let_def assms(1) [symmetric] slot_turn.simps slot_defs)
  next
    case Starting
    with facts ends(4) show ?thesis
      by (auto simp: boot_at_def Let_def assms(1) [symmetric] slot_turn.simps slot_defs)
  next
    case Failed
    with facts ends(3) show ?thesis
      by (auto simp: boot_at_def Let_def assms(1) [symmetric] slot_turn.simps slot_defs)
  next
    case (Gone code)
    then have "slot_turn (p, luck) s = s" by (simp add: slot_turn.simps)
    with assms(4) show ?thesis by simp
  next
    case Serving
    then have "sl_phase (slot_turn (p, luck) s) p \<in> {Serving, TearingDown}"
      using facts(3) by (simp add: slot_turn.simps put_def)
    with assms(4) Serving show ?thesis by (auto simp: boot_at_def Let_def)
  next
    case Unlinking
    with facts show ?thesis
      by (auto simp: boot_at_def Let_def assms(1) [symmetric] slot_turn.simps slot_defs)
  next
    case (Removing q)
    with facts show ?thesis
      by (auto simp: boot_at_def Let_def assms(1) [symmetric] slot_turn.simps slot_defs)
  next
    case TearingDown
    with facts show ?thesis by (simp add: boot_at_def Let_def slot_turn.simps slot_defs)
  next
    case Releasing
    with facts show ?thesis by (simp add: boot_at_def Let_def slot_turn.simps slot_defs)
  qed (use facts(1) in simp_all)
qed

text \<open>Nobody else moves the process, except by starting it as a daemon.\<close>

lemma started_by_another:
  assumes "q \<noteq> p" and "sl_phase s p = Absent"
  shows "sl_phase (slot_turn (q, luck) s) p \<in> {Absent, Looking ForDaemon}"
proof (cases rule: slot_turn_is [of q luck s])
  case probe
  with assms show ?thesis by (cases "(q, luck, sl_phase s q, s)" rule: probe_turn.cases) (auto simp: slot_defs)
next
  case daemon
  with assms show ?thesis by (cases "(q, luck, sl_phase s q, s)" rule: daemon_turn.cases) (auto simp: slot_defs)
next
  case serve
  with assms show ?thesis
    by (cases "(q, luck, sl_phase s q, s)" rule: serve_turn.cases) (auto simp: slot_defs split: Luck.split)
next
  case stop
  with assms show ?thesis
    by (cases "(q, luck, sl_phase s q, s)" rule: stop_turn.cases) (auto simp: slot_defs split: nat.split)
qed (use assms in \<open>auto simp: slot_defs\<close>)

lemma boot_run:
  assumes "c = resolve_cache_dir (bh_env bh) root" and "bh_exists bh (path_join c ''graph.db'')" and "bh_create_dir bh c"
    and "boot_at bh files root (sl_phase s p)" and "observed bh files c p ts s" and "\<forall>t \<in> set ts. starts_daemon p t"
  shows "boot_at bh files root (sl_phase (slot_run ts s) p)"
  using assms(4-6)
proof (induction ts arbitrary: s)
  case (Cons t ts)
  obtain q luck where t: "t = (q, luck)" by (cases t)
  have "boot_at bh files root (sl_phase (slot_turn t s) p)"
  proof (cases "q = p")
    case True
    with t Cons.prems show ?thesis by (auto intro: boot_step [OF assms(1-3)])
  next
    case other: False
    show ?thesis
    proof (cases "sl_phase s p = Absent")
      case True
      with started_by_another [OF other True, of luck] t show ?thesis by (auto simp: boot_at_def Let_def)
    next
      case False
      with other t Cons.prems(1) slot_turn_other [of p q s luck] show ?thesis by simp
    qed
  qed
  with Cons show ?case by simp
qed simp

text \<open>C15: The process refines its part in the slot, from its start to its exit. Let a process start as a
  daemon among any others that probe, start, serve, stop and die. If in the protocol it exits before
  it serves, \<open>run_daemon\<close>, meeting what the process met at its turns, fails; if it serves,
  \<open>run_daemon\<close> has come to its accept loop with a daemon. From there put that daemon in all its
  detail beside the others, its socket file removed and its lock file closed by its own code: the
  socket, the lock and every process of the machine are at every moment what the protocol gives
  when each event of the daemon that shows is its one turn (it leaves the loop, it removes the
  socket, it exits), and no event is a turn otherwise.\<close>

theorem daemon_refines_slot:
  assumes "orderly_site ds" and "\<forall>path db. bh_open bh path = Inr db \<longrightarrow> wf_db db" and "c = ds_cache_dir ds"
    and "c = resolve_cache_dir (bh_env bh) root" and "bh_exists bh (path_join c ''graph.db'')" and "bh_create_dir bh c"
    and "slot_inv s0" and "sl_phase s0 p = Absent" and "observed bh files c p ts s0" and "\<forall>t \<in> set ts. starts_daemon p t"
    and "s = slot_run ts s0"
  shows "(sl_phase s p = Gone False \<longrightarrow> (\<exists>left. boot bh files root = Inl (ExitFailure, left))) \<and>
    (sl_phase s p = Serving \<longrightarrow> (\<exists>d. boot bh files root = Inr d \<and>
       (\<forall>evs. (\<forall>t. Inr t \<in> set evs \<longrightarrow> fst t \<noteq> p) \<longrightarrow>
          (case machine_run ds p evs (s, sync_dir c s d) of (s', d') \<Rightarrow>
             s' = slot_run (slot_turns ds p evs (s, sync_dir c s d)) s \<and> sl_phase s' p = stage_phase d' \<and>
             (sl_lock s' = Some p \<longleftrightarrow> dm_lock d') \<and> (sl_sock s' = None \<longleftrightarrow> sock_path c \<notin> dm_files d')))))"
proof -
  have at: "boot_at bh files root (sl_phase s p)"
    unfolding assms(11) by (rule boot_run [OF assms(4-6) _ assms(9,10)]) (simp add: assms(8) boot_at_def Let_def)
  have "case machine_run ds p evs (s, sync_dir c s d) of (s', d') \<Rightarrow>
      s' = slot_run (slot_turns ds p evs (s, sync_dir c s d)) s \<and> sl_phase s' p = stage_phase d' \<and>
      (sl_lock s' = Some p \<longleftrightarrow> dm_lock d') \<and> (sl_sock s' = None \<longleftrightarrow> sock_path c \<notin> dm_files d')"
    if d: "boot bh files root = Inr d" and sv: "sl_phase s p = Serving" and evs: "\<forall>t. Inr t \<in> set evs \<longrightarrow> fst t \<noteq> p" for d evs
  proof -
    obtain db fs where fresh: "bh_open bh (path_join c ''graph.db'') = Inr db" "d = fresh_daemon bh fs db"
      using boot_succeeds [OF d assms(4)] by blast
    have "proc_inv d" unfolding fresh(2) using assms(2) fresh(1) by (intro fresh_daemon_inv) blast
    moreover have "stage_phase d = Serving" by (simp add: fresh(2) fresh_daemon_def stage_phase_def accept_start_def)
    moreover have "slot_inv s" unfolding assms(11) by (rule slot_run_inv [OF assms(7)])
    ultimately have "coupled ds p (s, sync_dir c s d)" using sv by (simp add: coupled_def flip: assms(3))
    note matched = machine_matched [OF assms(1) this evs]
    obtain s' d' where run: "machine_run ds p evs (s, sync_dir c s d) = (s', d')" by force
    have "s' = slot_run (slot_turns ds p evs (s, sync_dir c s d)) s" using matched run by simp
    moreover have cpl: "coupled ds p (s', d')" using matched unfolding run by blast
    moreover have cp: "proc_inv d'" "slot_inv s'" "sl_phase s' p = stage_phase d'" "sock_path c \<in> dm_files d' \<longleftrightarrow> sl_sock s' \<noteq> None"
      using cpl by (simp_all add: coupled_def assms(3))
    moreover have "sl_lock s' = Some p \<longleftrightarrow> dm_stage d' \<noteq> AtExit" using cp(2,3) unfolding slot_inv_def by (metis stage_present(2))
    moreover have "dm_lock d' \<longleftrightarrow> dm_stage d' \<noteq> AtExit" using cp(1) by (simp add: proc_inv_def)
    ultimately show ?thesis unfolding run prod.case by (intro conjI) simp_all
  qed
  note served = this
  have "\<exists>d. boot bh files root = Inr d" if "sl_phase s p = Serving" using at that by (simp add: boot_at_def Let_def)
  moreover have "\<exists>left. boot bh files root = Inl (ExitFailure, left)" if "sl_phase s p = Gone False"
    using at that by (simp add: boot_at_def Let_def)
  ultimately show ?thesis using served by (intro conjI impI) (assumption | force)+
qed

section \<open>A daemon beside a client\<close>

text \<open>It finds the socket of a dead one, starts, meets a client while it serves, and takes a signal.\<close>

definition stale_boot :: BootHost where
  "stale_boot = (small_boot False)\<lparr>bh_connect := Some False\<rparr>"

definition signalled :: "(ProcEvent + nat \<times> Luck) list" where
  "signalled = [Inl (PeAccept SignalSeen), Inr (2, Begin ForServe), Inl PeMain, Inr (2, Usual), Inl PeMain, Inl PeMain, Inl PeMain, Inl PeMain]"

lemma small_cache_dir: "resolve_cache_dir Map.empty ''/r'' = ''/r/.semnav''"
  by code_simp

theorem daemon_refines_slot_witness:
  "\<exists>d. boot stale_boot {sock_path ''/r/.semnav''} ''/r'' = Inr d \<and>
     (let s = slot_run up_and_running (stale_slot (Some 9)); m = (s, sync_dir ''/r/.semnav'' s d) in
      fst (machine_run small_ds 1 signalled m) = slot_run (slot_turns small_ds 1 signalled m) s)"
proof -
  let ?c = "''/r/.semnav''" and ?s = "slot_run up_and_running (stale_slot (Some 9))"
  have c: "?c = ds_cache_dir small_ds" "?c = resolve_cache_dir (bh_env stale_boot) ''/r''"
    by (simp_all add: small_ds_def stale_boot_def small_boot_def small_cache_dir)
  have b: "\<forall>path db. bh_open stale_boot path = Inr db \<longrightarrow> wf_db db" "bh_exists stale_boot (path_join ?c ''graph.db'')"
    "bh_create_dir stale_boot ?c"
    by (simp_all add: stale_boot_def small_boot_def nested_db_wf)
  have s0: "slot_inv (stale_slot (Some 9))" "sl_phase (stale_slot (Some 9)) 1 = Absent"
    using stale_slot_inv [of "[]"] by (simp_all add: stale_slot_def)
  have o: "observed stale_boot {sock_path ?c} ?c 1 up_and_running (stale_slot (Some 9))" "\<forall>t \<in> set up_and_running. starts_daemon 1 t"
    "sl_phase ?s 1 = Serving"
    by (simp_all add: up_and_running_def saw_def stale_slot_def starts_daemon_def turn_eval stale_boot_def small_boot_def)
  have others: "\<forall>t. Inr t \<in> set signalled \<longrightarrow> fst t \<noteq> 1" by (auto simp: signalled_def)
  obtain d where d: "boot stale_boot {sock_path ?c} ''/r'' = Inr d"
    and run: "case machine_run small_ds 1 signalled (?s, sync_dir ?c ?s d) of
      (s', d') \<Rightarrow> s' = slot_run (slot_turns small_ds 1 signalled (?s, sync_dir ?c ?s d)) ?s"
    using daemon_refines_slot [OF small_orderly b(1) c b(2,3) s0 o(1,2) refl] o(3) others by (metis (no_types, lifting) case_prod_beta)
  from run have "fst (machine_run small_ds 1 signalled (?s, sync_dir ?c ?s d)) =
      slot_run (slot_turns small_ds 1 signalled (?s, sync_dir ?c ?s d)) ?s"
    by (cases "machine_run small_ds 1 signalled (?s, sync_dir ?c ?s d)") (simp only: prod.case fst_conv)
  with d show ?thesis unfolding Let_def by blast
qed

end
