(* ===== verification/Commands.thy ===== *)
theory Commands
  imports Daemon_Process Daemon_Slot_Props Daemon_Link
begin

text \<open>
  The commands as processes: how a client finds, starts and reaches the daemon of its root
  (\<open>src/daemon/connect.rs\<close>), the \<open>serve\<close> and \<open>daemon stop\<close> commands, and the exit code of the program
  (\<open>src/main.rs\<close>). Times are in milliseconds.
\<close>

section \<open>Starting a daemon\<close>

text \<open>The process a client starts: program, arguments, the file its output goes to, a group of its own.\<close>

record DaemonCommand =
  dk_program :: string
  dk_args :: "string list"
  dk_log :: string
  dk_own_group :: bool

text \<open>
  What a client meets: what a probe begun at a time finds and how long it takes; errors of creating a
  directory, taking a lock (or whether it was free), resolving its own program, opening and
  cloning the log, spawning, connecting. The last connect follows a probe that was accepted and is
  taken to need no time; the code puts no deadline on it.
\<close>

record ConnectHost =
  ch_probe :: "nat \<Rightarrow> Liveness \<times> nat"
  ch_create_dir :: "string \<Rightarrow> string option"
  ch_lock :: "string \<Rightarrow> string + bool"
  ch_exe :: "string + string"
  ch_open_log :: "string \<Rightarrow> string option"
  ch_clone_log :: "string option"
  ch_spawn :: "DaemonCommand \<Rightarrow> string option"
  ch_connect :: "string \<Rightarrow> nat \<Rightarrow> string option"

definition spawn_detached_daemon :: "ConnectHost \<Rightarrow> string \<Rightarrow> string \<Rightarrow> string + DaemonCommand" where
  "spawn_detached_daemon ch root cache_dir = (case ch_exe ch of
      Inl e \<Rightarrow> Inl (''cannot resolve current exe: '' @ e)
    | Inr exe \<Rightarrow> (let log = log_path cache_dir in case ch_open_log ch log of
        Some e \<Rightarrow> Inl (''cannot open '' @ log @ '': '' @ e)
      | None \<Rightarrow> (case ch_clone_log ch of
          Some e \<Rightarrow> Inl (''cannot clone log file handle: '' @ e)
        | None \<Rightarrow> (let cmd = \<lparr>dk_program = exe, dk_args = [''daemon'', root], dk_log = log, dk_own_group = True\<rparr>
            in case ch_spawn ch cmd of
              Some e \<Rightarrow> Inl (''failed to spawn daemon: '' @ e)
            | None \<Rightarrow> Inr cmd))))"

text \<open>The dash in the message is not ASCII.\<close>

definition em_dash :: string where
  "em_dash = [char_of (0xE2 :: nat), char_of (0x80 :: nat), char_of (0x94 :: nat)]"

text \<open>The wait at the end, from the time \<open>now\<close>; the result, the time, the processes started.\<close>

definition await_daemon :: "ConnectHost \<Rightarrow> string \<Rightarrow> nat \<Rightarrow> DaemonCommand list \<Rightarrow> (string + unit) \<times> nat \<times> DaemonCommand list" where
  "await_daemon ch cache_dir now cmds = (case wait_for_daemon_ready (ch_probe ch) now of
      (ready, t) \<Rightarrow>
        (if ready then Inr ()
         else Inl (''daemon did not become ready within 60s '' @ em_dash @ '' see '' @ log_path cache_dir), t, cmds))"

definition ensure_daemon_running :: "ConnectHost \<Rightarrow> string \<Rightarrow> string \<Rightarrow> nat \<Rightarrow> (string + unit) \<times> nat \<times> DaemonCommand list" where
  "ensure_daemon_running ch root cache_dir now = (case ch_probe ch now of (l, took) \<Rightarrow>
     if l = Live then (Inr (), now + took, [])
     else (case ch_create_dir ch cache_dir of
         Some e \<Rightarrow> (Inl (''cannot create '' @ cache_dir @ '': '' @ e), now + took, [])
       | None \<Rightarrow> (case ch_lock ch (lock_path cache_dir) of
           Inl e \<Rightarrow> (Inl (''cannot acquire '' @ lock_path cache_dir @ '': '' @ e), now + took, [])
         | Inr free \<Rightarrow>
             if \<not> free then await_daemon ch cache_dir (now + took) []
             else (case spawn_detached_daemon ch root cache_dir of
                 Inl e \<Rightarrow> (Inl e, now + took, [])
               | Inr cmd \<Rightarrow> await_daemon ch cache_dir (now + took) [cmd]))))"

text \<open>\<open>DaemonClient::connect\<close>: the outcome of connecting to the socket, then a fresh client actor.\<close>

definition connect_client :: "string \<Rightarrow> string option \<Rightarrow> string + DaemonActor" where
  "connect_client sock failure = (case failure of
      Some e \<Rightarrow> Inl (''cannot connect to daemon at '' @ sock @ '': '' @ e)
    | None \<Rightarrow> Inr daemon_start)"

definition ensure_and_connect :: "ConnectHost \<Rightarrow> string \<Rightarrow> string \<Rightarrow> nat \<Rightarrow> (string + DaemonActor) \<times> nat \<times> DaemonCommand list" where
  "ensure_and_connect ch root cache_dir now = (case ensure_daemon_running ch root cache_dir now of
      (Inl e, t, cmds) \<Rightarrow> (Inl e, t, cmds)
    | (Inr _, t, cmds) \<Rightarrow> (connect_client (sock_path cache_dir) (ch_connect ch (sock_path cache_dir) t), t, cmds))"

section \<open>The commands\<close>

text \<open>What \<open>serve\<close> meets after that: whether its MCP server starts, and how its transport ends.\<close>

record ServeHost =
  sh_env :: Env
  sh_exists :: "string \<Rightarrow> bool"
  sh_connect :: ConnectHost
  sh_start :: "string option"
  sh_transport :: "string option"

definition run_serve :: "ServeHost \<Rightarrow> string \<Rightarrow> ExitCode \<times> DaemonCommand list" where
  "run_serve sh root = (let cache_dir = resolve_cache_dir (sh_env sh) root
     in if \<not> sh_exists sh (path_join cache_dir ''graph.db'') then (ExitFailure, [])
        else (case ensure_and_connect (sh_connect sh) root cache_dir 0 of
            (Inl e, t, cmds) \<Rightarrow> (ExitFailure, cmds)
          | (Inr _, t, cmds) \<Rightarrow>
              (if sh_start sh \<noteq> None then ExitFailure else if sh_transport sh = None then ExitSuccess else ExitFailure, cmds)))"

text \<open>
  \<open>daemon stop\<close>: the \<open>k\<close>-th probe, and whether it could connect and write its request. The answer is
  read and ignored.
\<close>

record StopHost =
  th_probe :: "nat \<Rightarrow> Liveness"
  th_connect :: bool
  th_write :: bool

fun stop_polls :: "(nat \<Rightarrow> Liveness) \<Rightarrow> nat \<Rightarrow> nat \<Rightarrow> ExitCode" where
  "stop_polls probe k 0 = ExitFailure"
| "stop_polls probe k (Suc n) = (if probe k = NotRunning then ExitSuccess else stop_polls probe (k + 1) n)"

definition run_daemon_stop :: "StopHost \<Rightarrow> ExitCode" where
  "run_daemon_stop th =
     (if th_probe th 0 = NotRunning then ExitSuccess
      else if \<not> th_connect th \<or> \<not> th_write th then ExitFailure
      else stop_polls (th_probe th) 1 50)"

text \<open>A daemon that comes to its loop exits, if it does, with success.\<close>

definition run_daemon :: "BootHost \<Rightarrow> string set \<Rightarrow> string \<Rightarrow> ExitCode" where
  "run_daemon bh files root = (case boot bh files root of Inl (code, left) \<Rightarrow> code | Inr d \<Rightarrow> ExitSuccess)"

section \<open>The program\<close>

text \<open>The world of the program, and whether a runtime can be made.\<close>

record Shell =
  sl_roots :: Roots
  sl_runtime :: bool
  sl_walker :: "string \<Rightarrow> (string + WalkEntry) list"
  sl_index :: IndexHost
  sl_serve :: ServeHost
  sl_daemon :: BootHost
  sl_files :: "string set"
  sl_stop :: "string \<Rightarrow> StopHost"

definition in_runtime :: "Shell \<Rightarrow> string \<Rightarrow> (string \<Rightarrow> ExitCode) \<Rightarrow> ExitCode" where
  "in_runtime sh root_arg run = (case resolve_root (sl_roots sh) root_arg of
      Inl e \<Rightarrow> ExitFailure
    | Inr root \<Rightarrow> if sl_runtime sh then run root else ExitFailure)"

fun run_command_line :: "Shell \<Rightarrow> CliCommand \<Rightarrow> ExitCode" where
  "run_command_line sh (CmdDiscover arg) = fst (discover (ma_env (ih_machine (sl_index sh))) (sl_roots sh) (sl_walker sh) arg)"
| "run_command_line sh (CmdIndex arg) = in_runtime sh arg (\<lambda>root. fst (run_index (sl_index sh) root))"
| "run_command_line sh (CmdServe arg) = in_runtime sh arg (\<lambda>root. fst (run_serve (sl_serve sh) root))"
| "run_command_line sh (CmdDaemon arg) = in_runtime sh arg (run_daemon (sl_daemon sh) (sl_files sh))"
| "run_command_line sh (CmdDaemonStop arg) = in_runtime sh arg (\<lambda>root. run_daemon_stop (sl_stop sh root))"
| "run_command_line sh CmdHelp = ExitSuccess"
| "run_command_line sh CmdUsage = ExitUsage"

definition semnav :: "Shell \<Rightarrow> string list \<Rightarrow> ExitCode" where
  "semnav sh args = run_command_line sh (main_command args)"

section \<open>What the commands guarantee\<close>






text \<open>The exit code 2 says exactly that a command lacks its root.\<close>

lemma stop_polls_code: "stop_polls probe k n = (if \<exists>i < n. probe (k + i) = NotRunning then ExitSuccess else ExitFailure)"
proof (induction n arbitrary: k)
  case (Suc n)
  have "(\<exists>i < Suc n. probe (k + i) = NotRunning) \<longleftrightarrow> probe k = NotRunning \<or> (\<exists>i < n. probe (k + 1 + i) = NotRunning)"
    by (auto simp: less_Suc_eq_0_disj)
  with Suc [of "k + 1"] show ?case by simp
qed simp

lemma exit_code_usage: "semnav sh args = ExitUsage \<longleftrightarrow> main_command args = CmdUsage"
proof (cases "main_command args")
  case (CmdDaemon arg)
  have "boot bh files root \<noteq> Inl (ExitUsage, left)" for bh files root left
    using boot_failed [OF _ refl, of bh files root ExitUsage left] by auto
  with CmdDaemon show ?thesis
    by (auto simp: semnav_def in_runtime_def run_daemon_def split: sum.splits)
qed (auto simp: semnav_def in_runtime_def discover_def run_index_def run_serve_def run_daemon_stop_def stop_polls_code Let_def
    split: sum.splits prod.splits)

end
