(* ===== verification/Spec2Isabelle.thy ===== *)
theory Spec2Isabelle
  imports Graph_Props Reconcile_Props Reconcile_Again Db_Actor Paging Adapters Symbols
    Lsp_Client Lsp_Query Pipeline Query_Props Confinement Runtime_Props Watcher Mcp_Props
    Daemon_Link_Props Daemon_Server Daemon_Slot_Props Cli
    Db_Handle Lsp_Calls Daemon_Refinement Commands
begin

text \<open>
  semnav: an LSP-backed semantic code-navigation server.

  This development models the program under \<open>src/src\<close> (Rust) and proves what makes its parts correct
  alone and together. Paths below are relative to that directory.

  1. The program.
  \<open>semnav index\<close> starts one language server per language, asks it for the symbols of every file and
  stores them in a SQLite graph. \<open>semnav serve\<close> offers eight tools over stdio; it holds no state of its
  own but forwards every call to a daemon, one per root, which it starts when there is none. The
  daemon answers from the graph, completes the graph on demand by asking language servers, follows
  the edits of the workspace, and leaves when idle or told to. All access to the graph goes through
  one database actor, all access to a language server through one supervisor and one client actor.

  2. Shared vocabulary.
  \<open>Semnav_Prelude\<close>: machine integers at their width and the casts between them, results as sums, UTF-8
  strings as byte lists with the routines of the Rust library the source uses, and the list lemmas.
  Errors are values (\<open>Inl\<close>); asynchronous tasks are step functions or step relations over events, so
  that every interleaving is a list of events.

  3. The graph (\<open>graph/model.rs\<close>, \<open>graph/db.rs\<close>, \<open>graph/schema.rs\<close>).
  \<open>Graph_Model\<close> has the records and the tables with the constraints of the schema (\<open>wf_db\<close>);
  \<open>Graph_Store\<close> one definition per SQL statement; \<open>Graph_Props\<close> positional lookup and edges.
  \<open>Reconcile_Match\<close> and \<open>Reconcile_Tx\<close> are the five passes of \<open>reconcile_file_symbols\<close>, with parking,
  commit and rollback. \<open>Reconcile_Spec\<close> says what a reconcile does without mentioning the passes, and
  \<open>Reconcile_Props\<close>, \<open>Reconcile_Again\<close> and \<open>Reconcile_Meta\<close> prove totality, the exact condition for a
  rollback, identity by name, two strikes before deletion, stability under repetition, and that the
  metadata is left alone; the matching is sound and has no blocking pair.
  \<open>Db_Actor\<close> is the actor: whatever clients send, it is a serial execution that keeps \<open>wf_db\<close>.
  \<open>Db_Handle\<close> has the twenty methods of the handle: each is its direct operation at the place of its
  command in the queue, and the metadata table is an atomic register.

  4. Adapters and symbols (\<open>adapters/*\<close>, \<open>indexer/symbol.rs\<close>, \<open>indexer/discovery.rs\<close>).
  \<open>Adapters\<close>: kinds, the five adapters, provisioning of servers. \<open>Symbols\<close>: flattening of the
  documentSymbol tree, module names and roots, fingerprints, URIs.

  5. Language servers (\<open>lsp/*\<close>).
  \<open>Lsp_Wire\<close>: JSON-RPC envelopes, framing and the reader task; what is written is read back.
  \<open>Rpc_Mux\<close>: an abstract multiplexer of calls over one connection and the locale \<open>rpc_mux\<close>, whose laws
  say that an actor simulates it. \<open>Lsp_Client\<close>: the client actor and its open documents.
  \<open>Lsp_Calls\<close>: what callers of the client get back, the spawning of a server process, the messages to
  a supervisor. \<open>Server_Process\<close>: handshake, exit watch and shutdown escalation, which ends within four
  graces of five seconds if the exit notification can be sent at once, and else three graces after it
  is sent, if ever. \<open>Supervisor\<close> and \<open>Supervisor_Props\<close>: the health states, the retry schedule, and
  that no process is leaked or released twice.

  6. Indexing (\<open>indexer/*\<close>).
  \<open>Pipeline\<close>: the pass over a workspace; \<open>Runner\<close>: one language with a supervisor of its own.
  \<open>Drift\<close> and \<open>Drift_Props\<close>: reconciling one file and the startup pass; five retries per file two
  seconds apart, an empty answer for a file with rows is not believed, a second pass asks nothing.
  \<open>Watcher\<close>: the filesystem watcher with its debounce of 300 ms; it keeps a history of the edits
  accepted and of every reconcile attempted with its result, passes over no edit, and settles.

  7. Queries (\<open>query/*\<close>).
  \<open>Paging\<close>: filters, cursors and pages (\<open>SortKey\<close> is an instance of \<open>linorder\<close>). \<open>Lsp_Query\<close>: the eight
  requests and their decoders. \<open>Resolver\<close>: edges built on demand and the confinement of file access.
  \<open>Query_Ops\<close>: the six operations and the call-path search. \<open>Query_Frame\<close>, \<open>Query_Asks\<close> and
  \<open>Query_Total\<close> say what they change, what they ask and that they answer; \<open>Grouping\<close> that pages cover a
  relation; \<open>Call_Path\<close> and \<open>Query_Props\<close> that a path found is a shortest one, that an honest "no" is a
  proof and that the budget holds; \<open>Confinement\<close> that nothing outside the root is read.
  \<open>Runtime\<close>, \<open>Runtime_Inv\<close>, \<open>Runtime_Props\<close>: the pool of supervisors, cache-first answers with background
  refreshes, signatures, degradations.

  8. Tools (\<open>mcp/*\<close>).
  \<open>Mcp\<close> and \<open>Mcp_Props\<close>: requests, limits, refusals, the eight methods of the server, the
  arms of the daemon's dispatch and the eight methods of the proxy, which answers as the server does.

  9. The daemon and the commands (\<open>daemon/*\<close>, \<open>main.rs\<close>).
  \<open>Daemon_Link\<close> and \<open>Daemon_Link_Props\<close>: the line protocol, the client actor (\<open>rpc_mux\<close> again), the
  connection handler and the reconnecting handle. \<open>Daemon_Server\<close>: the accept loop and the idle clock
  (1800 s, checked every 5 s). \<open>Daemon_Slot\<close> and \<open>Daemon_Slot_Props\<close>: any number of processes that probe,
  lock, unlink, bind and leave; at most one is the daemon. \<open>Daemon_Process\<close>: \<open>run_daemon\<close> as a whole, from
  its start, with the files each of its exits leaves, to its end, with the accept loop, the handlers, the watcher, the startup pass, the background tasks and the main
  task beside each other. \<open>Daemon_Teardown\<close>: it stays in order, its teardown ends, an undisturbed
  teardown reaps every server. \<open>Daemon_Refinement\<close>: on a machine with other processes, what the
  start meets and what the daemon does to its socket file and its lock are exactly the turns of one
  daemon of the slot. \<open>Cli\<close>: arguments, roots,
  \<open>discover\<close> and \<open>index\<close>. \<open>Commands\<close>: \<open>serve\<close>, \<open>daemon\<close> and \<open>daemon stop\<close> as processes, how a client finds or
  starts the daemon (a wait of 60 s in steps of 100 ms), and the exit code of the program.

  10. Interfaces.
  \<open>command_actor\<close> (a serial server of commands) is interpreted on the database actor as \<open>dba\<close>, and
  \<open>handle_method\<close>, which extends it, on each method of the handle (the qualifiers ending in \<open>_m\<close>).
  \<open>rpc_mux\<close> is interpreted on both client actors (\<open>lmux\<close>, \<open>dmux\<close>). \<open>sorted_listing\<close> gives the paging
  laws for nodes and groups (\<open>ln\<close>, \<open>gn\<close>). \<open>edge_owner\<close> (\<open>oc\<close>), \<open>ask_discipline\<close> (\<open>pr\<close>) and its extension
  \<open>full_discipline\<close> (\<open>ri\<close>) carry a discipline through all query operations at once.

  11. Bounds and fuel.
  Only the call-path search takes fuel, one more than the number of rows; each round takes a row no
  earlier round took, so \<open>call_path_correct\<close> proves a result. Every other loop is structural or has
  a termination proof. Pages hold 1 to 500 items, call paths have a depth of 1 to 20 and at most 200
  requests; \<open>daemon stop\<close> polls 50 times. The ids of calls on a connection (\<open>i64\<close>, \<open>u64\<close>) are unbounded
  in the model; no connection lives long enough to exhaust them.

  12. What is a parameter.
  The JSON text codec, base64 cursors, the Jaro-Winkler score and the hash functions; the order in
  which SQLite returns rows without ORDER BY; the file system and the directory walker; the answers
  of a language server, which may depend on everything asked before; the end of child processes;
  what happens between two steps of a task. Hypotheses on them state documented behaviour, such as a
  codec that parses what it printed, or hold of every reachable state of the other parts, such as
  what happens while the startup pass waits (\<open>patient\<close>: it keeps the runtime in order); a property with
  hypotheses has a witness in which they hold for concrete functions.

  13. What the modelling showed.
  Renaming a class without its methods makes the reconcile of its file roll back
  (\<open>reconcile_refused_iff\<close>); a failed request is cached as the exact answer "calls nothing"
  (\<open>failed_request_cached\<close>); the watcher records no hash, so that an undone edit is missed
  (\<open>undone_edit_missed\<close>); \<open>daemon stop\<close> reports success before the daemon has let go of the database
  (\<open>stop_reports_early\<close>); a client can be left without a daemon (\<open>client_stranded\<close>,
  \<open>live_socket_removed\<close>); a request during the teardown starts a server nobody stops
  (\<open>late_server_abandoned\<close>); a child that stops reading with a full queue is never signalled
  (\<open>shutdown_escalation\<close>); and an edit whose reconcile fails under the watcher is not tried again
  (\<open>watcher_forgets_nothing\<close>). Comments that differ from the code are noted at the definitions.

  14. Not modelled.
  Printing, help texts and tracing have no result. The signal handler only sets the flag that is an
  event of the accept loop. The derived serde coders, the JSON schemas and the tool registry of rmcp
  are generated code; the stdio transport of rmcp, SQLite with its pragmas and the migrations, tokio
  with its scheduler, notify and ignore are libraries, modelled by the behaviour the source relies on.
  Module declaration files hold no behaviour; test mocks are not part of the program. The kill that
  tokio sends to a child dropped at exit is left to the operating system, which is why
  \<open>late_server_abandoned\<close> speaks of the escalation only.
\<close>

end
